(* ===== verification/Prelude.thy ===== *)
theory Prelude
  imports Complex_Main "HOL-Library.AList" "HOL-Library.Multiset"
begin

text \<open>
  Shared vocabulary of the development.

  \<^item> Strings: a Rust str is a sequence of Unicode scalar values, here a
    list of code points (\<open>str\<close>); byte lengths go through the UTF-8 width of each
    code point, so slicing that would panic inside a character is visible.
  \<^item> Integers: unsigned machine integers are naturals whose bound is written
    out at every operation that saturates or overflows.
  \<^item> Errors: \<open>'e + 'a\<close> is Result<'a, 'e> (\<open>Inl\<close> the error, \<open>Inr\<close> the
    value); an outer \<open>option\<close> is used where the code can panic.
  \<^item> f64 values: \<open>f64\<close> has NaN and the infinities, with the IEEE
    comparison rules.
  \<^item> Hash maps: association lists with distinct keys (\<open>HOL-Library.AList\<close>).
\<close>

section \<open>Collections of the development\<close>

named_theorems widths \<open>bounds of the machine integers\<close>
named_theorems str_eval \<open>evaluation rules for string operations\<close>

section \<open>Machine integers and saturating operations\<close>

definition u32_max :: nat where "u32_max = 2 ^ 32 - 1"
definition u64_max :: nat where "u64_max = 2 ^ 64 - 1"
definition u128_max :: nat where "u128_max = 2 ^ 128 - 1"

lemma u32_max_val [widths]: "u32_max = 4294967295"
  by (simp add: u32_max_def)

lemma u64_max_val [widths]: "u64_max = 18446744073709551615"
  by (simp add: u64_max_def)

lemma u128_max_val [widths]: "u128_max = 340282366920938463463374607431768211455"
  by (simp add: u128_max_def)

definition sat_add :: "nat \<Rightarrow> nat \<Rightarrow> nat \<Rightarrow> nat" where
  "sat_add bound a b = min bound (a + b)"

definition sat_mul :: "nat \<Rightarrow> nat \<Rightarrow> nat \<Rightarrow> nat" where
  "sat_mul bound a b = min bound (a * b)"

lemma sat_add_le [simp]: "sat_add bound a b \<le> bound"
  by (simp add: sat_add_def)

lemma sat_mul_le [simp]: "sat_mul bound a b \<le> bound"
  by (simp add: sat_mul_def)

lemma sat_mul_exact [simp]: "a * b \<le> bound \<Longrightarrow> sat_mul bound a b = a * b"
  by (simp add: sat_mul_def)

lemma sat_add_exact [simp]: "a + b \<le> bound \<Longrightarrow> sat_add bound a b = a + b"
  by (simp add: sat_add_def)

lemma sat_mul_mono: "a \<le> a' \<Longrightarrow> b \<le> b' \<Longrightarrow> sat_mul bound a b \<le> sat_mul bound a' b'"
  unfolding sat_mul_def by (meson min.mono mult_le_mono order_refl)

section \<open>Results\<close>

definition bind_result :: "'e + 'a \<Rightarrow> ('a \<Rightarrow> 'e + 'b) \<Rightarrow> 'e + 'b" where
  "bind_result r f = (case r of Inl e \<Rightarrow> Inl e | Inr x \<Rightarrow> f x)"

lemma bind_result_simps [simp]:
  "bind_result (Inl e) f = Inl e"
  "bind_result (Inr x) f = f x"
  by (simp_all add: bind_result_def)

lemma bind_result_Inr_iff:
  "bind_result r f = Inr y \<longleftrightarrow> (\<exists>x. r = Inr x \<and> f x = Inr y)"
  by (cases r) simp_all

text \<open>A computation that may panic (\<open>None\<close>) or return a result.\<close>

type_synonym ('e, 'a) outcome = "('e + 'a) option"

definition bind_outcome :: "('e, 'a) outcome \<Rightarrow> ('a \<Rightarrow> ('e, 'b) outcome) \<Rightarrow> ('e, 'b) outcome" where
  "bind_outcome r f = (case r of None \<Rightarrow> None | Some (Inl e) \<Rightarrow> Some (Inl e) | Some (Inr x) \<Rightarrow> f x)"

lemma bind_outcome_simps [simp]:
  "bind_outcome None f = None"
  "bind_outcome (Some (Inl e)) f = Some (Inl e)"
  "bind_outcome (Some (Inr x)) f = f x"
  by (simp_all add: bind_outcome_def)

lemma bind_outcome_None_iff:
  "bind_outcome r f = None \<longleftrightarrow> r = None \<or> (\<exists>x. r = Some (Inr x) \<and> f x = None)"
  by (auto simp: bind_outcome_def split: option.splits sum.splits)

lemma bind_outcome_Inr_iff:
  "bind_outcome r f = Some (Inr y) \<longleftrightarrow> (\<exists>x. r = Some (Inr x) \<and> f x = Some (Inr y))"
  by (auto simp: bind_outcome_def split: option.splits sum.splits)

text \<open>A fallible operation on a state, and the \<open>?\<close> that continues it.\<close>

definition and_then :: "('e + 'a) \<times> 's \<Rightarrow> ('a \<Rightarrow> 's \<Rightarrow> ('e + 'b) \<times> 's) \<Rightarrow> ('e + 'b) \<times> 's" where
  "and_then r k = (case r of (Inl e, s) \<Rightarrow> (Inl e, s) | (Inr a, s) \<Rightarrow> k a s)"

lemma and_then_simps [simp]:
  "and_then (Inl e, s) k = (Inl e, s)" "and_then (Inr a, s) k = k a s"
  by (simp_all add: and_then_def)

lemma and_thenE:
  assumes "and_then p k = (r, s')"
  obtains (fail) e where "p = (Inl e, s')" "r = Inl e"
    | (ok) a s1 where "p = (Inr a, s1)" "k a s1 = (r, s')"
  using assms by (cases p; cases "fst p") auto

section \<open>Strings\<close>

type_synonym str = "nat list"

definition lit :: "string \<Rightarrow> str" where
  "lit s = map of_char s"

lemma lit_Nil [simp]: "lit [] = []"
  by (simp add: lit_def)

lemma lit_eq_iff [simp]: "lit s = lit t \<longleftrightarrow> s = t"
  unfolding lit_def by (simp add: inj_map_eq_map inj_on_def)

definition utf8_width :: "nat \<Rightarrow> nat" where
  "utf8_width c = (if c < 128 then 1 else if c < 2048 then 2 else if c < 65536 then 3 else 4)"

definition str_len :: "str \<Rightarrow> nat" where
  "str_len s = sum_list (map utf8_width s)"

definition is_ws :: "nat \<Rightarrow> bool" where
  "is_ws c \<longleftrightarrow> (9 \<le> c \<and> c \<le> 13) \<or> c = 32 \<or> c = 133 \<or> c = 160 \<or> c = 5760
     \<or> (8192 \<le> c \<and> c \<le> 8202) \<or> c = 8232 \<or> c = 8233 \<or> c = 8239 \<or> c = 8287 \<or> c = 12288"

definition is_digit :: "nat \<Rightarrow> bool" where
  "is_digit c \<longleftrightarrow> 48 \<le> c \<and> c \<le> 57"

definition trim_start :: "str \<Rightarrow> str" where
  "trim_start s = dropWhile is_ws s"

definition trim_end :: "str \<Rightarrow> str" where
  "trim_end s = rev (dropWhile is_ws (rev s))"

definition trim :: "str \<Rightarrow> str" where
  "trim s = trim_end (trim_start s)"

fun strip_prefix :: "str \<Rightarrow> str \<Rightarrow> str option" where
  "strip_prefix [] s = Some s"
| "strip_prefix (p # ps) [] = None"
| "strip_prefix (p # ps) (c # cs) = (if p = c then strip_prefix ps cs else None)"

definition strip_suffix :: "str \<Rightarrow> str \<Rightarrow> str option" where
  "strip_suffix p s = map_option rev (strip_prefix (rev p) (rev s))"

lemma strip_prefix_Some_iff: "strip_prefix p s = Some r \<longleftrightarrow> s = p @ r"
  by (induction p s rule: strip_prefix.induct) auto

lemma strip_prefix_append [simp]: "strip_prefix p (p @ r) = Some r"
  by (simp add: strip_prefix_Some_iff)

lemma strip_suffix_Some_iff: "strip_suffix p s = Some r \<longleftrightarrow> s = r @ p"
  unfolding strip_suffix_def
  by (auto simp: strip_prefix_Some_iff rev_swap) 

lemma strip_suffix_append [simp]: "strip_suffix p (r @ p) = Some r"
  by (simp add: strip_suffix_Some_iff)

text \<open>trim_start_matches(pat): the pattern is removed as often as it occurs in front.\<close>

function trim_start_matches :: "str \<Rightarrow> str \<Rightarrow> str" where
  "trim_start_matches p s =
     (case p of [] \<Rightarrow> s
      | _ # _ \<Rightarrow> (case strip_prefix p s of None \<Rightarrow> s | Some r \<Rightarrow> trim_start_matches p r))"
  by auto
termination
  by (relation "measure (\<lambda>(p, s). length s)") (auto simp: strip_prefix_Some_iff)

declare trim_start_matches.simps [simp del]

definition trim_end_char :: "nat \<Rightarrow> str \<Rightarrow> str" where
  "trim_end_char c s = rev (dropWhile ((=) c) (rev s))"

fun split_on :: "nat \<Rightarrow> str \<Rightarrow> str list" where
  "split_on c [] = [[]]"
| "split_on c (x # xs) =
     (if x = c then [] # split_on c xs
      else (case split_on c xs of [] \<Rightarrow> [[x]] | y # ys \<Rightarrow> (x # y) # ys))"

lemma split_on_ne [simp]: "split_on c s \<noteq> []"
  by (induction s) (auto split: list.splits)

lemma split_on_no_sep: "c \<notin> set s \<Longrightarrow> split_on c s = [s]"
  by (induction s) auto

lemma split_on_append: "c \<notin> set s \<Longrightarrow> split_on c (s @ c # t) = s # split_on c t"
  by (induction s) auto

text \<open>split_whitespace: the maximal runs of non-white-space characters.\<close>

fun split_ws_aux :: "str \<Rightarrow> str \<Rightarrow> str list" where
  "split_ws_aux acc [] = (if acc = [] then [] else [rev acc])"
| "split_ws_aux acc (c # cs) =
     (if is_ws c then (if acc = [] then split_ws_aux [] cs else rev acc # split_ws_aux [] cs)
      else split_ws_aux (c # acc) cs)"

definition split_ws :: "str \<Rightarrow> str list" where
  "split_ws s = split_ws_aux [] s"

fun join :: "str \<Rightarrow> str list \<Rightarrow> str" where
  "join sep [] = []"
| "join sep [x] = x"
| "join sep (x # y # ys) = x @ sep @ join sep (y # ys)"

lemma split_ws_aux_fields:
  "list_all (\<lambda>f. f \<noteq> [] \<and> list_all (\<lambda>c. \<not> is_ws c) f) (split_ws_aux acc s)"
  if "list_all (\<lambda>c. \<not> is_ws c) acc"
  using that by (induction acc s rule: split_ws_aux.induct) (auto simp: list_all_rev)

lemma split_ws_aux_word:
  "list_all (\<lambda>c. \<not> is_ws c) f \<Longrightarrow> split_ws_aux acc (f @ s) = split_ws_aux (rev f @ acc) s"
  by (induction f arbitrary: acc) auto

lemma is_ws_space [simp]: "is_ws 32"
  by (simp add: is_ws_def)

lemma split_ws_join:
  "list_all (\<lambda>f. f \<noteq> [] \<and> list_all (\<lambda>c. \<not> is_ws c) f) fs \<Longrightarrow> split_ws (join [32] fs) = fs"
  unfolding split_ws_def
proof (induction fs rule: induct_list012)
  case (2 f)
  then show ?case using split_ws_aux_word[of f "[]" "[]"] by simp
next
  case (3 f g fs)
  then show ?case by (simp add: split_ws_aux_word)
qed simp

lemma split_ws_fields:
  "list_all (\<lambda>f. f \<noteq> [] \<and> list_all (\<lambda>c. \<not> is_ws c) f) (split_ws s)"
  unfolding split_ws_def by (rule split_ws_aux_fields) simp

subsection \<open>Decimal numbers\<close>

definition digits_val :: "str \<Rightarrow> nat" where
  "digits_val s = foldl (\<lambda>acc c. acc * 10 + (c - 48)) 0 s"

text \<open>
  str::parse::<uN>: one optional plus sign, at least one digit, no other
  character, and a value of at most the type's maximum.
\<close>

definition parse_uint :: "nat \<Rightarrow> str \<Rightarrow> nat option" where
  "parse_uint bound s =
     (let ds = (case s of [] \<Rightarrow> [] | c # cs \<Rightarrow> if c = 43 then cs else s) in
      if ds = [] \<or> \<not> list_all is_digit ds then None
      else if digits_val ds \<le> bound then Some (digits_val ds) else None)"

fun show_nat :: "nat \<Rightarrow> str" where
  "show_nat n = (if n < 10 then [48 + n] else show_nat (n div 10) @ [48 + n mod 10])"

declare show_nat.simps [simp del]

lemma show_nat_digits: "list_all is_digit (show_nat n)"
  by (induction n rule: show_nat.induct)
    (subst show_nat.simps, auto simp: is_digit_def[of "48 + _"])

lemma show_nat_ne [simp]: "show_nat n \<noteq> []"
  by (subst show_nat.simps) simp

lemma digits_val_snoc: "digits_val (s @ [c]) = digits_val s * 10 + (c - 48)"
  by (simp add: digits_val_def)

lemma digits_val_show_nat [simp]: "digits_val (show_nat n) = n"
proof (induction n rule: show_nat.induct)
  case (1 n)
  show ?case
  proof (cases "n < 10")
    case True
    then show ?thesis by (subst show_nat.simps) (simp add: digits_val_def)
  next
    case False
    then show ?thesis
      by (subst show_nat.simps) (simp add: digits_val_snoc "1.IH")
  qed
qed

lemma show_nat_hd: "is_digit (hd (show_nat n))"
  by (metis show_nat_digits show_nat_ne list.pred_set hd_in_set)

lemma parse_show_nat [simp]: "n \<le> bound \<Longrightarrow> parse_uint bound (show_nat n) = Some n"
proof -
  assume b: "n \<le> bound"
  obtain c cs where cs: "show_nat n = c # cs" by (cases "show_nat n") auto
  then have "c \<noteq> 43" using show_nat_hd[of n] by (auto simp: is_digit_def)
  then show ?thesis
    using b show_nat_digits[of n] digits_val_show_nat[of n]
    unfolding parse_uint_def cs by simp
qed

lemma parse_uint_le: "parse_uint bound s = Some n \<Longrightarrow> n \<le> bound"
  by (auto simp: parse_uint_def Let_def split: if_splits list.splits)

lemma digit_not_ws: "is_digit c \<Longrightarrow> \<not> is_ws c"
  by (auto simp: is_digit_def is_ws_def)

lemma show_nat_not_ws: "c \<in> set (show_nat n) \<Longrightarrow> \<not> is_ws c"
  using show_nat_digits[of n] digit_not_ws by (auto simp: list.pred_set)

lemma show_nat_in_digit: "c \<in> set (show_nat n) \<Longrightarrow> is_digit c"
  using show_nat_digits[of n] by (auto simp: list.pred_set)

lemma trim_start_id: "s = [] \<or> \<not> is_ws (hd s) \<Longrightarrow> trim_start s = s"
  by (cases s) (auto simp: trim_start_def)

lemma trim_id: "s = [] \<or> (\<not> is_ws (hd s) \<and> \<not> is_ws (last s)) \<Longrightarrow> trim s = s"
  by (cases s rule: rev_cases) (auto simp: trim_def trim_start_id trim_end_def)

lemma trim_no_ws: "\<forall>c\<in>set s. \<not> is_ws c \<Longrightarrow> trim s = s"
  by (rule trim_id) (cases s, auto)

lemma set_trim: "set (trim s) \<subseteq> set s"
  unfolding trim_def trim_end_def trim_start_def
  by (auto dest!: set_dropWhileD)

section \<open>Floating point values\<close>

text \<open>
  The values of f64 that the code compares: a finite double is a rational
  number, the two zeros are the same value, and every comparison with NaN is
  false.
\<close>

datatype f64 = NaN | NegInf | Fin rat | PosInf

fun f64_lt :: "f64 \<Rightarrow> f64 \<Rightarrow> bool" where
  "f64_lt NaN _ = False"
| "f64_lt _ NaN = False"
| "f64_lt NegInf b = (b \<noteq> NegInf)"
| "f64_lt PosInf _ = False"
| "f64_lt (Fin _) NegInf = False"
| "f64_lt (Fin x) (Fin y) = (x < y)"
| "f64_lt (Fin _) PosInf = True"

definition f64_le :: "f64 \<Rightarrow> f64 \<Rightarrow> bool" where
  "f64_le a b \<longleftrightarrow> a \<noteq> NaN \<and> b \<noteq> NaN \<and> (a = b \<or> f64_lt a b)"

fun f64_finite :: "f64 \<Rightarrow> bool" where
  "f64_finite (Fin _) = True"
| "f64_finite _ = False"

lemma f64_le_Fin [simp]: "f64_le (Fin x) (Fin y) \<longleftrightarrow> x \<le> y"
  by (auto simp: f64_le_def)

lemma f64_lt_le_trans: "f64_lt a b \<Longrightarrow> f64_le b c \<Longrightarrow> f64_lt a c"
  by (cases a; cases b; cases c) (auto simp: f64_le_def)

lemma f64_le_lt_trans: "f64_le a b \<Longrightarrow> f64_lt b c \<Longrightarrow> f64_lt a c"
  by (cases a; cases b; cases c) (auto simp: f64_le_def)

lemma f64_le_trans: "f64_le a b \<Longrightarrow> f64_le b c \<Longrightarrow> f64_le a c"
  by (cases a; cases b; cases c) (auto simp: f64_le_def)

section \<open>Time\<close>

text \<open>
  Wall-clock instants (chrono's DateTime in UTC) are nanoseconds since the
  epoch, as integers; a standard Duration is a natural number of nanoseconds.
  chrono's range checks are third-party code: a record of functions, of which
  the code relies on \<open>chrono_ok\<close>: a conversion or an addition that succeeds is
  exact.  \<open>chrono_std\<close> is the instance with chrono's documented ranges.
\<close>

type_synonym instant = int

record chrono_ops =
  from_std :: "nat \<Rightarrow> int option"
  checked_add :: "instant \<Rightarrow> int \<Rightarrow> instant option"
  to_std :: "int \<Rightarrow> nat option"

definition chrono_ok :: "chrono_ops \<Rightarrow> bool" where
  "chrono_ok ch \<longleftrightarrow> (\<forall>d x. from_std ch d = Some x \<longrightarrow> x = int d)
     \<and> (\<forall>t d x. checked_add ch t d = Some x \<longrightarrow> x = t + d)
     \<and> (\<forall>d x. to_std ch d = Some x \<longrightarrow> int x = d)"

definition chrono_std :: chrono_ops where
  "chrono_std = \<lparr>
     from_std = (\<lambda>d. if d \<le> (2 ^ 63 - 1) * 1000000 then Some (int d) else None),
     checked_add = (\<lambda>t d. if \<bar>t + d\<bar> \<le> 8210000000000 * 1000000000 then Some (t + d) else None),
     to_std = (\<lambda>d. if 0 \<le> d then Some (nat d) else None) \<rparr>"

lemma chrono_std_ok: "chrono_ok chrono_std"
  by (simp add: chrono_ok_def chrono_std_def)

lemma from_stdD: "chrono_ok ch \<Longrightarrow> from_std ch d = Some x \<Longrightarrow> x = int d"
  by (simp add: chrono_ok_def)

lemma checked_addD: "chrono_ok ch \<Longrightarrow> checked_add ch t d = Some x \<Longrightarrow> x = t + d"
  by (simp add: chrono_ok_def)

end
