(* ===== verification/Frame_Codec.thy ===== *)
theory Frame_Codec
  imports Prelude "HOL-Library.Word"
begin

text \<open>
  Model of the wire layer: the length-prefix codec of \<open>la-ipc/src/codec.rs\<close> and
  the chunker of \<open>la-proto/src/chunking.rs\<close> with the payload constructor of
  \<open>la-proto/src/notifications.rs\<close>.  Bytes are 8-bit words and the prefix is the
  big-endian form of a 32-bit length.  The base64 crate is a parameter whose
  documented behaviour is \<open>b64_ok\<close>.
\<close>

type_synonym bytes = "8 word list"

definition LENGTH_PREFIX_BYTES :: nat where "LENGTH_PREFIX_BYTES = 4"
definition MAX_MESSAGE_BYTES :: nat where "MAX_MESSAGE_BYTES = 4 * 1024 * 1024"
definition SESSION_OUTPUT_CHUNK_BYTES :: nat where "SESSION_OUTPUT_CHUNK_BYTES = 64 * 1024"

section \<open>Frames\<close>

datatype IpcError =
    FrameTooLarge (actual: nat) (ipc_limit: nat)
  | EncodeTooLarge (actual: nat) (ipc_limit: nat)

text \<open>put_u32 and from_be_bytes.\<close>

definition put_u32 :: "nat \<Rightarrow> bytes" where
  "put_u32 n = [of_nat (n div 2 ^ 24), of_nat (n div 2 ^ 16), of_nat (n div 2 ^ 8), of_nat n]"

definition u32_from_be :: "bytes \<Rightarrow> nat" where
  "u32_from_be bs = foldl (\<lambda>acc b. acc * 256 + unat b) 0 bs"

definition encode :: "bytes \<Rightarrow> bytes \<Rightarrow> IpcError + bytes" where
  "encode item dst =
     (let n = length item in
      if n > MAX_MESSAGE_BYTES then Inl (EncodeTooLarge n MAX_MESSAGE_BYTES)
      else Inr (dst @ put_u32 (n mod 2 ^ 32) @ item))"

text \<open>One call of the decoder: the frame, if a whole one is there, and the
  buffer afterwards.  On an error the buffer is left as it was.\<close>

definition decode :: "bytes \<Rightarrow> IpcError + (bytes option \<times> bytes)" where
  "decode src =
     (if length src < LENGTH_PREFIX_BYTES then Inr (None, src)
      else
        let frame_len = u32_from_be (take LENGTH_PREFIX_BYTES src) in
        if frame_len > MAX_MESSAGE_BYTES then Inl (FrameTooLarge frame_len MAX_MESSAGE_BYTES)
        else if length src < LENGTH_PREFIX_BYTES + frame_len then Inr (None, src)
        else
          let rest = drop LENGTH_PREFIX_BYTES src in
          Inr (Some (take frame_len rest), drop frame_len rest))"

lemma unat_byte: "unat (of_nat n :: 8 word) = n mod 256"
  by (simp add: unat_of_nat)

lemma byte_div: "256 * (m div 256) + m mod 256 = (m::nat)"
  by simp

lemma u32_from_be_put: "n < 2 ^ 32 \<Longrightarrow> u32_from_be (put_u32 n) = n"
proof -
  assume n: "n < 2 ^ 32"
  have "n div 2 ^ 24 < 256" using n by (simp add: less_mult_imp_div_less)
  then have a: "n div 2 ^ 24 mod 256 = n div 2 ^ 24" by simp
  have b: "n div 2 ^ 24 = n div 2 ^ 16 div 256" "n div 2 ^ 16 = n div 2 ^ 8 div 256"
    "n div 2 ^ 8 = n div 256" by (simp_all add: div_mult2_eq [symmetric])
  have "u32_from_be (put_u32 n)
    = ((n div 2 ^ 24 * 256 + n div 2 ^ 16 mod 256) * 256 + n div 2 ^ 8 mod 256) * 256 + n mod 256"
    by (simp add: u32_from_be_def put_u32_def unat_byte a del: power_numeral)
  also have "n div 2 ^ 24 * 256 + n div 2 ^ 16 mod 256 = n div 2 ^ 16"
    unfolding b(1) by (rule div_mult_mod_eq)
  also have "n div 2 ^ 16 * 256 + n div 2 ^ 8 mod 256 = n div 2 ^ 8"
    unfolding b(2) by (rule div_mult_mod_eq)
  also have "n div 2 ^ 8 * 256 + n mod 256 = n"
    unfolding b(3) by (rule div_mult_mod_eq)
  finally show ?thesis .
qed

lemma length_put_u32 [simp]: "length (put_u32 n) = LENGTH_PREFIX_BYTES"
  by (simp add: put_u32_def LENGTH_PREFIX_BYTES_def)

lemma MAX_fits: "n \<le> MAX_MESSAGE_BYTES \<Longrightarrow> n < 2 ^ 32"
  by (simp add: MAX_MESSAGE_BYTES_def)

abbreviation frame :: "bytes \<Rightarrow> bytes" where
  "frame item \<equiv> put_u32 (length item) @ item"

lemma encode_ok: "length item \<le> MAX_MESSAGE_BYTES \<Longrightarrow> encode item dst = Inr (dst @ frame item)"
  using MAX_fits[of "length item"] by (simp add: encode_def Let_def)

lemma decode_frame:
  "length item \<le> MAX_MESSAGE_BYTES \<Longrightarrow> decode (frame item @ rest) = Inr (Some item, rest)"
  using MAX_fits[of "length item"] by (simp add: decode_def u32_from_be_put Let_def)

text \<open>The reader's loop: take frames off the buffer until none is complete.\<close>

lemma decode_shrinks: "decode src = Inr (Some item, rest) \<Longrightarrow> length rest < length src"
  by (auto simp: decode_def Let_def LENGTH_PREFIX_BYTES_def split: if_splits)

function decode_stream :: "bytes \<Rightarrow> bytes list \<times> (IpcError option \<times> bytes)" where
  "decode_stream src =
     (case decode src of
        Inl e \<Rightarrow> ([], (Some e, src))
      | Inr (None, rest) \<Rightarrow> ([], (None, rest))
      | Inr (Some item, rest) \<Rightarrow> (let (items, fin) = decode_stream rest in (item # items, fin)))"
  by auto
termination
  by (relation "measure length") (auto dest: decode_shrinks)

declare decode_stream.simps [simp del]

lemma decode_stream_item:
  "decode src = Inr (Some item, rest) \<Longrightarrow>
   decode_stream src = (item # fst (decode_stream rest), snd (decode_stream rest))"
  by (subst decode_stream.simps) (simp add: case_prod_beta)

lemma decode_append:
  "decode src = Inr (Some item, rest) \<Longrightarrow> decode (src @ ys) = Inr (Some item, rest @ ys)"
  by (auto simp: decode_def Let_def split: if_splits)

lemma decode_append_error: "decode src = Inl e \<Longrightarrow> decode (src @ ys) = Inl e"
  by (auto simp: decode_def Let_def split: if_splits)

lemma decode_waits: "decode src = Inr (None, rest) \<Longrightarrow> rest = src"
  by (auto simp: decode_def Let_def split: if_splits)

lemma decode_stream_append:
  "decode_stream (src @ ys) =
     (case decode_stream src of
        (items, Some e, rest) \<Rightarrow> (items, Some e, rest @ ys)
      | (items, None, rest) \<Rightarrow>
          (items @ fst (decode_stream (rest @ ys)), snd (decode_stream (rest @ ys))))"
proof (induction src rule: decode_stream.induct)
  case (1 src)
  show ?case
  proof (cases "decode src")
    case (Inl e)
    then show ?thesis
      by (simp add: decode_stream.simps[of src] decode_stream.simps[of "src @ ys"] decode_append_error)
  next
    case (Inr p)
    obtain x rest where p: "p = (x, rest)" by (cases p)
    show ?thesis
    proof (cases x)
      case None
      then have "rest = src" using Inr p decode_waits by simp
      then show ?thesis using Inr p None by (simp add: decode_stream.simps[of src])
    next
      case (Some item)
      then have d: "decode src = Inr (Some item, rest)" using Inr p by simp
      show ?thesis
        using "1.IH"[OF Inr p[symmetric] Some]
        unfolding decode_stream_item[OF d] decode_stream_item[OF decode_append[OF d]]
        by (auto split: prod.splits option.splits)
    qed
  qed
qed

lemma decode_stream_frames:
  "list_all (\<lambda>i. length i \<le> MAX_MESSAGE_BYTES) items \<Longrightarrow>
   decode_stream (concat (map frame items) @ tail) = (items @ fst (decode_stream tail), snd (decode_stream tail))"
proof (induction items)
  case (Cons i items)
  then show ?case
    using decode_stream_item[OF decode_frame[of i "concat (map frame items) @ tail"]] by simp
qed simp

section \<open>Chunks of terminal output\<close>

record SessionOutputParams =
  session_id :: str
  seq :: nat
  data_base64 :: "nat list"

definition from_bytes :: "(bytes \<Rightarrow> nat list) \<Rightarrow> str \<Rightarrow> nat \<Rightarrow> bytes \<Rightarrow> SessionOutputParams" where
  "from_bytes b64 sid n data = \<lparr> session_id = sid, seq = n, data_base64 = b64 data \<rparr>"

text \<open>The slice method chunks.\<close>

function chunks :: "nat \<Rightarrow> 'a list \<Rightarrow> 'a list list" where
  "chunks n xs = (if xs = [] \<or> n = 0 then [] else take n xs # chunks n (drop n xs))"
  by auto
termination by (relation "measure (\<lambda>(n, xs). length xs)") auto

declare chunks.simps [simp del]

fun number_from :: "nat \<Rightarrow> 'a list \<Rightarrow> (nat \<times> 'a) list" where
  "number_from n [] = []"
| "number_from n (x # xs) = (n, x) # number_from (n + 1) xs"

definition chunk_session_output ::
    "(bytes \<Rightarrow> nat list) \<Rightarrow> str \<Rightarrow> nat \<Rightarrow> bytes \<Rightarrow> SessionOutputParams list" where
  "chunk_session_output b64 sid start_seq data =
     (if data = [] then [from_bytes b64 sid start_seq []]
      else map (\<lambda>(n, slice). from_bytes b64 sid n slice)
             (number_from start_seq (chunks SESSION_OUTPUT_CHUNK_BYTES data)))"

text \<open>Standard base64 with padding: four characters per three bytes, one or two
  equals signs (code 61) at the end and nowhere else, and decoding inverts it.\<close>

definition b64_ok :: "(bytes \<Rightarrow> nat list) \<Rightarrow> (nat list \<Rightarrow> bytes option) \<Rightarrow> bool" where
  "b64_ok enc dec \<longleftrightarrow> (\<forall>d. length (enc d) = 4 * ((length d + 2) div 3)
     \<and> length (takeWhile ((=) 61) (rev (enc d))) = (2 * length d) mod 3
     \<and> dec (enc d) = Some d)"

definition decoded_len :: "SessionOutputParams \<Rightarrow> nat" where
  "decoded_len p =
     (let b64_len = length (data_base64 p) in
      if b64_len = 0 then 0
      else
        let pad = length (takeWhile ((=) 61) (rev (data_base64 p)))
        in b64_len div 4 * 3 - pad)"

lemma b64_arith:
  "(n + 2) div 3 * 3 = n + (2 * n) mod 3" for n :: nat
proof -
  have n: "n = 3 * (n div 3) + n mod 3" by simp
  consider "n mod 3 = 0" | "n mod 3 = 1" | "n mod 3 = 2" by linarith
  then show ?thesis
  proof cases
    case 1
    then obtain q where "n = 3 * q" using n by auto
    moreover have "(3 * q + 2) div 3 = q" by simp
    ultimately show ?thesis by simp
  next
    case 2
    then obtain q where q: "n = 3 * q + 1" using n by metis
    have "(2 * (3 * q + 1)) mod 3 = 2" by presburger
    moreover have "(3 * q + 1 + 2) div 3 = q + 1" by simp
    ultimately show ?thesis unfolding q by simp
  next
    case 3
    then obtain q where q: "n = 3 * q + 2" using n by metis
    have "(2 * (3 * q + 2)) mod 3 = 1" by presburger
    moreover have "(3 * q + 2 + 2) div 3 = q + 1" by simp
    ultimately show ?thesis unfolding q by simp
  qed
qed

lemma decoded_len_from_bytes:
  assumes "b64_ok enc dec"
  shows "decoded_len (from_bytes enc sid n d) = length d"
proof -
  have l: "length (enc d) = 4 * ((length d + 2) div 3)"
    "length (takeWhile ((=) 61) (rev (enc d))) = (2 * length d) mod 3"
    using assms by (auto simp: b64_ok_def)
  have z: "4 * ((length d + 2) div 3) = 0 \<Longrightarrow> length d = 0"
    by (simp add: div_eq_0_iff)
  show ?thesis
    unfolding decoded_len_def from_bytes_def Let_def using l b64_arith[of "length d"] z by simp
qed

lemma chunks_props:
  assumes "0 < n"
  shows "concat (chunks n xs) = xs" "\<forall>c\<in>set (chunks n xs). c \<noteq> [] \<and> length c \<le> n"
    "length (chunks n xs) = (length xs + n - 1) div n"
proof -
  have "concat (chunks n xs) = xs \<and> (\<forall>c\<in>set (chunks n xs). c \<noteq> [] \<and> length c \<le> n)
    \<and> length (chunks n xs) = (length xs + n - 1) div n"
    using assms
  proof (induction n xs rule: chunks.induct)
    case (1 n xs)
    show ?case
    proof (cases "xs = []")
      case True
      then show ?thesis using 1(2) by (simp add: chunks.simps)
    next
      case False
      have len: "Suc ((length xs - n + n - 1) div n) = (length xs + n - 1) div n"
      proof (cases "length xs \<le> n")
        case True
        have gen: "1 \<le> k \<Longrightarrow> k \<le> n \<Longrightarrow> (k + n - 1) div n = 1" for k
          by (intro div_nat_eqI) auto
        have "1 \<le> length xs" using False by (cases xs) auto
        then have "(length xs + n - 1) div n = 1" using True by (rule gen)
        then show ?thesis using True 1(2) by simp
      next
        case False
        then have eq: "length xs + n - 1 = (length xs - n + n - 1) + n" using 1(2) by simp
        have "n \<noteq> 0" using 1(2) by simp
        then show ?thesis unfolding eq div_add_self2[OF \<open>n \<noteq> 0\<close>] by simp
      qed
      have u: "chunks n xs = take n xs # chunks n (drop n xs)"
        using False 1(2) by (subst chunks.simps) simp
      have ih: "concat (chunks n (drop n xs)) = drop n xs"
        "\<forall>c\<in>set (chunks n (drop n xs)). c \<noteq> [] \<and> length c \<le> n"
        "length (chunks n (drop n xs)) = (length xs - n + n - 1) div n"
        using 1 False by simp_all
      show ?thesis
        unfolding u using ih False 1(2) len by simp
    qed
  qed
  then show "concat (chunks n xs) = xs" "\<forall>c\<in>set (chunks n xs). c \<noteq> [] \<and> length c \<le> n"
    "length (chunks n xs) = (length xs + n - 1) div n" by blast+
qed

lemma number_from_zip: "number_from n xs = zip [n..<n + length xs] xs"
  by (induction n xs rule: number_from.induct) (simp_all add: upt_conv_Cons del: upt_Suc)

lemma CHUNK_pos [simp]: "0 < SESSION_OUTPUT_CHUNK_BYTES"
  by (simp add: SESSION_OUTPUT_CHUNK_BYTES_def)

lemma chunks_ne: "0 < n \<Longrightarrow> xs \<noteq> [] \<Longrightarrow> chunks n xs \<noteq> []"
  by (subst chunks.simps) simp

text \<open>The slices behind the chunks of a payload; an empty payload has one.\<close>

definition slices :: "bytes \<Rightarrow> bytes list" where
  "slices data = (if data = [] then [[]] else chunks SESSION_OUTPUT_CHUNK_BYTES data)"

lemma slices_props:
  "concat (slices data) = data" "c \<in> set (slices data) \<Longrightarrow> length c \<le> SESSION_OUTPUT_CHUNK_BYTES"
  "slices data \<noteq> []"
  using chunks_props[OF CHUNK_pos, of data] chunks_ne[OF CHUNK_pos, of data]
  by (auto simp: slices_def split: if_splits)

lemma chunk_session_output_slices:
  "chunk_session_output b64 sid start data =
     map (\<lambda>(n, c). from_bytes b64 sid n c) (zip [start..<start + length (slices data)] (slices data))"
  by (simp add: chunk_session_output_def slices_def number_from_zip)

lemma chunk_seqs:
  "map seq (chunk_session_output b64 sid start data) = [start..<start + length (slices data)]"
  unfolding chunk_session_output_slices
  by (simp add: comp_def case_prod_beta from_bytes_def)

section \<open>A concrete base64\<close>

text \<open>A stand-in that satisfies the contract: four characters per three bytes,
  the first carrying the bytes themselves (codes above 61), padded at the end.\<close>

definition demo_b64 :: "bytes \<Rightarrow> nat list" where
  "demo_b64 d = (let body = map (\<lambda>b. 100 + unat b) d; pad = (2 * length d) mod 3 in
     body @ replicate (4 * ((length d + 2) div 3) - length d - pad) 99 @ replicate pad 61)"

definition demo_dec :: "nat list \<Rightarrow> bytes option" where
  "demo_dec cs = Some (map (\<lambda>c. of_nat (c - 100)) (filter (\<lambda>c. 100 \<le> c) cs))"

lemma demo_b64_ok: "b64_ok demo_b64 demo_dec"
  unfolding b64_ok_def
proof (intro allI conjI)
  fix d :: bytes
  let ?pad = "(2 * length d) mod 3"
  let ?q = "(length d + 2) div 3"
  have q: "length d + ?pad \<le> 4 * ?q" "length d > 0 \<longrightarrow> length d + ?pad < 4 * ?q"
    using b64_arith[of "length d"] by linarith+
  show "length (demo_b64 d) = 4 * ?q" using q by (simp add: demo_b64_def Let_def)
  have tw: "takeWhile ((=) 61) (replicate n (61::nat) @ replicate m 99 @ xs) = replicate n 61"
    if "0 < m" for n m xs
    using that by (induction n) (cases m, simp_all)
  show "length (takeWhile ((=) 61) (rev (demo_b64 d))) = ?pad"
  proof (cases "d = []")
    case True
    then show ?thesis by (simp add: demo_b64_def)
  next
    case False
    then have "0 < 4 * ?q - length d - ?pad" using q by auto
    then show ?thesis by (simp add: demo_b64_def Let_def rev_map tw)
  qed
  show "demo_dec (demo_b64 d) = Some d"
    by (simp add: demo_dec_def demo_b64_def Let_def comp_def filter_map)
qed

section \<open>Properties\<close>

text \<open>Frames survive the wire: encoding accepts exactly the payloads within
  the message limit, and a buffer holding encoded frames followed by the start
  of another decodes to exactly those payloads.\<close>

theorem frame_roundtrip:
  assumes "list_all (\<lambda>i. length i \<le> MAX_MESSAGE_BYTES) items" "decode tail = Inr (None, tail)"
  shows "decode_stream (foldl (\<lambda>dst i. case encode i dst of Inr d \<Rightarrow> d | Inl _ \<Rightarrow> dst) [] items @ tail)
      = (items, None, tail)"
proof -
  have enc: "foldl (\<lambda>dst i. case encode i dst of Inr d \<Rightarrow> d | Inl _ \<Rightarrow> dst) d0 items
      = d0 @ concat (map frame items)" for d0
    using assms(1) by (induction items arbitrary: d0) (simp_all add: encode_ok)
  show ?thesis
    unfolding enc using decode_stream_frames[OF assms(1), of tail] assms(2)
    by (simp add: decode_stream.simps[of tail])
qed

lemma frame_roundtrip_witness:
  "decode_stream (foldl (\<lambda>dst i. case encode i dst of Inr d \<Rightarrow> d | Inl _ \<Rightarrow> dst) [] [[1, 2], []] @ [0, 0])
     = ([[1, 2], []], None, [0, 0])"
  by (rule frame_roundtrip) (simp_all add: MAX_MESSAGE_BYTES_def decode_def LENGTH_PREFIX_BYTES_def)

text \<open>Decoding does not depend on how the bytes arrive: feeding a buffer in
  two pieces, keeping the undecoded rest in between, gives the frames, the
  error and the rest of feeding it at once.\<close>

theorem decode_incremental:
  "decode_stream (src @ extra) =
     (case decode_stream src of
        (items, Some e, rest) \<Rightarrow> (items, Some e, rest @ extra)
      | (items, None, rest) \<Rightarrow>
          (items @ fst (decode_stream (rest @ extra)), snd (decode_stream (rest @ extra))))"
  by (rule decode_stream_append)

text \<open>Size limits hold on both sides: encoding fails exactly above the limit,
  and a decoder never yields a larger payload, never waits for one, and never
  consumes bytes when it fails or waits.\<close>

theorem frame_limits:
  "((\<exists>e. encode item dst = Inl e) \<longleftrightarrow> length item > MAX_MESSAGE_BYTES)
   \<and> (\<forall>p rest. decode src = Inr (Some p, rest) \<longrightarrow>
        length p \<le> MAX_MESSAGE_BYTES \<and> src = frame p @ rest)
   \<and> (\<forall>rest. decode src = Inr (None, rest) \<longrightarrow>
        rest = src \<and> length src < LENGTH_PREFIX_BYTES + MAX_MESSAGE_BYTES)"
proof (intro conjI allI impI)
  show "(\<exists>e. encode item dst = Inl e) \<longleftrightarrow> length item > MAX_MESSAGE_BYTES"
    by (simp add: encode_def Let_def)
  fix p rest assume d: "decode src = Inr (Some p, rest)"
  show "length p \<le> MAX_MESSAGE_BYTES"
    using d by (auto simp: decode_def Let_def split: if_splits)
  have be: "put_u32 (u32_from_be bs) = bs" if "length bs = 4" for bs
  proof -
    have "\<exists>a b c e. bs = [a, b, c, e]"
      using that by (auto simp: length_Suc_conv numeral_eq_Suc)
    then obtain a b c e where bs: "bs = [a, b, c, e]" by blast
    let ?n = "((unat a * 256 + unat b) * 256 + unat c) * 256 + unat e"
    have lt: "unat a < 256" "unat b < 256" "unat c < 256" "unat e < 256"
      using unsigned_less[of a] unsigned_less[of b] unsigned_less[of c] unsigned_less[of e]
      by simp_all
    have m: "(k * 256 + x) mod 256 = x" if "x < 256" for k x :: nat using that by simp
    have q: "(k * 256 + x) div 256 = k" if "x < 256" for k x :: nat using that by simp
    have pw: "(2::nat) ^ 8 = 256" "(2::nat) ^ 16 = 256 * 256" "(2::nat) ^ 24 = 256 * 256 * 256"
      by simp_all
    have "?n div 2 ^ 8 = (unat a * 256 + unat b) * 256 + unat c"
      "?n div 2 ^ 16 = unat a * 256 + unat b" "?n div 2 ^ 24 = unat a"
      unfolding pw div_mult2_eq q[OF lt(4)] q[OF lt(3)] q[OF lt(2)] by (rule refl)+
    moreover have "?n mod 256 = unat e" "((unat a * 256 + unat b) * 256 + unat c) mod 256 = unat c"
      "(unat a * 256 + unat b) mod 256 = unat b" "unat a mod 256 = unat a"
      by (rule m[OF lt(4)], rule m[OF lt(3)], rule m[OF lt(2)], rule mod_less[OF lt(1)])
    ultimately have "(of_nat (?n div 2 ^ 24) :: 8 word) = a" "(of_nat (?n div 2 ^ 16) :: 8 word) = b"
      "(of_nat (?n div 2 ^ 8) :: 8 word) = c" "(of_nat ?n :: 8 word) = e"
      by (simp_all only: word_unat_eq_iff unat_byte)
    moreover have "u32_from_be bs = ?n" by (simp add: bs u32_from_be_def)
    ultimately show ?thesis unfolding put_u32_def by (simp only: bs)
  qed
  show "src = frame p @ rest"
  proof -
    from d have len: "LENGTH_PREFIX_BYTES \<le> length src"
      and n: "LENGTH_PREFIX_BYTES + u32_from_be (take LENGTH_PREFIX_BYTES src) \<le> length src"
      and p: "p = take (u32_from_be (take LENGTH_PREFIX_BYTES src)) (drop LENGTH_PREFIX_BYTES src)"
      and r: "rest = drop (u32_from_be (take LENGTH_PREFIX_BYTES src)) (drop LENGTH_PREFIX_BYTES src)"
      by (auto simp: decode_def Let_def split: if_splits)
    have "length p = u32_from_be (take LENGTH_PREFIX_BYTES src)" using p n by simp
    then have "put_u32 (length p) = take LENGTH_PREFIX_BYTES src"
      using be[of "take LENGTH_PREFIX_BYTES src"] len by (simp add: LENGTH_PREFIX_BYTES_def)
    moreover have "p @ rest = drop LENGTH_PREFIX_BYTES src" unfolding p r by (rule append_take_drop_id)
    ultimately show ?thesis by simp
  qed
next
  fix rest assume d: "decode src = Inr (None, rest)"
  then show "rest = src" by (rule decode_waits)
  show "length src < LENGTH_PREFIX_BYTES + MAX_MESSAGE_BYTES"
    using d by (auto simp: decode_def Let_def split: if_splits)
qed

lemma frame_limits_witness:
  "decode [0, 0, 0, 1, 7, 9] = Inr (Some [7], [9]) \<and> [0, 0, 0, 1, 7, 9] = frame [7::8 word] @ [9]"
proof -
  have "decode [0, 0, 0, 1, 7, 9] = Inr (Some [7], [9])"
    by (simp add: decode_def LENGTH_PREFIX_BYTES_def u32_from_be_def MAX_MESSAGE_BYTES_def)
  then show ?thesis using frame_limits[of "[]" "[]" "[0, 0, 0, 1, 7, 9]"] by blast
qed

text \<open>Chunking loses nothing: the chunks carry consecutive sequence numbers
  from the given one, each decodes to at most 64 KiB, together they decode to
  the payload, and an empty payload still uses one number.\<close>

theorem chunking_lossless:
  assumes "b64_ok enc dec"
  shows "map seq (chunk_session_output enc sid start data) =
      [start..<start + max 1 ((length data + SESSION_OUTPUT_CHUNK_BYTES - 1) div SESSION_OUTPUT_CHUNK_BYTES)]
    \<and> concat (map (\<lambda>c. the (dec (data_base64 c))) (chunk_session_output enc sid start data)) = data
    \<and> (\<forall>c\<in>set (chunk_session_output enc sid start data). decoded_len c \<le> SESSION_OUTPUT_CHUNK_BYTES)"
proof (intro conjI)
  have dec: "the (dec (enc d)) = d" for d using assms by (simp add: b64_ok_def)
  have "length (slices data) = max 1 ((length data + SESSION_OUTPUT_CHUNK_BYTES - 1) div SESSION_OUTPUT_CHUNK_BYTES)"
  proof (cases "data = []")
    case True
    then show ?thesis by (simp add: slices_def SESSION_OUTPUT_CHUNK_BYTES_def)
  next
    case False
    then have "SESSION_OUTPUT_CHUNK_BYTES \<le> length data + SESSION_OUTPUT_CHUNK_BYTES - 1"
      by (cases data) auto
    then have "SESSION_OUTPUT_CHUNK_BYTES div SESSION_OUTPUT_CHUNK_BYTES
        \<le> (length data + SESSION_OUTPUT_CHUNK_BYTES - 1) div SESSION_OUTPUT_CHUNK_BYTES"
      by (rule div_le_mono)
    then have "1 \<le> (length data + SESSION_OUTPUT_CHUNK_BYTES - 1) div SESSION_OUTPUT_CHUNK_BYTES"
      by simp
    then show ?thesis
      using False chunks_props(3)[OF CHUNK_pos, of data] by (simp add: slices_def max_def)
  qed
  then show "map seq (chunk_session_output enc sid start data) =
      [start..<start + max 1 ((length data + SESSION_OUTPUT_CHUNK_BYTES - 1) div SESSION_OUTPUT_CHUNK_BYTES)]"
    by (simp add: chunk_seqs)
  have "map (\<lambda>c. the (dec (data_base64 c))) (chunk_session_output enc sid start data) = slices data"
    unfolding chunk_session_output_slices
    by (simp add: comp_def case_prod_beta from_bytes_def dec)
  then show "concat (map (\<lambda>c. the (dec (data_base64 c))) (chunk_session_output enc sid start data)) = data"
    by (simp add: slices_props)
  show "\<forall>c\<in>set (chunk_session_output enc sid start data). decoded_len c \<le> SESSION_OUTPUT_CHUNK_BYTES"
    unfolding chunk_session_output_slices
    by (auto simp: decoded_len_from_bytes[OF assms] slices_props dest!: set_zip_rightD)
qed

lemma chunking_lossless_witness:
  "concat (map (\<lambda>c. the (demo_dec (data_base64 c))) (chunk_session_output demo_b64 [1] 5 [7, 8])) = [7, 8]"
  using chunking_lossless[OF demo_b64_ok] by blast

end
