(* ===== verification/Output_Hub.thy ===== *)
theory Output_Hub
  imports Frame_Codec
begin

text \<open>
  Model of \<open>la-ipc/src/hub.rs\<close>: the fan-out of one session's output to its
  subscribers, with a byte-bounded ring of recent chunks, a byte-bounded queue
  per subscriber and parked subscriptions.  Every method runs under the hub's
  mutex and is a function on the state.  The unbounded channel between a
  subscription's sender and receiver is part of its entry: the events sent and
  not yet received; \<open>left_over\<close> keeps those of an entry that was removed, which its
  receiver still gets.  A resumed subscription has a new channel, and \<open>recv\<close> reads that one.
  Clock readings are arguments; base64 is the parameter
  \<open>enc\<close> of the chunker.
\<close>

section \<open>State\<close>

definition DEFAULT_RING_BYTES :: nat where "DEFAULT_RING_BYTES = 2 * 1024 * 1024"
definition DEFAULT_SUB_QUEUE_BYTES :: nat where "DEFAULT_SUB_QUEUE_BYTES = 1024 * 1024"
definition DEFAULT_PARK_SECS :: nat where "DEFAULT_PARK_SECS = 30"

type_synonym SubId = nat

record SessionGapParams =
  gap_session_id :: str
  gap_from_seq :: nat
  gap_to_seq :: nat
  gap_dropped_bytes :: nat

datatype HubEvent = Output SessionOutputParams | Gap SessionGapParams

record HubConfig =
  cfg_ring_bytes :: nat
  cfg_sub_queue_bytes :: nat
  cfg_park_duration :: nat

definition default_config :: HubConfig where
  "default_config = \<lparr> cfg_ring_bytes = DEFAULT_RING_BYTES,
     cfg_sub_queue_bytes = DEFAULT_SUB_QUEUE_BYTES,
     cfg_park_duration = DEFAULT_PARK_SECS * 1000000000 \<rparr>"

record PendingGap =
  pg_from_seq :: nat
  pg_to_seq :: nat
  pg_dropped_bytes :: nat

record SubEntry =
  tx_open :: bool
  channel :: "HubEvent list"
  queued_bytes :: nat
  pending_gap :: "PendingGap option"
  closed :: bool
  parked :: "nat option"

record HubState =
  next_seq :: nat
  ring :: "SessionOutputParams list"
  ring_bytes :: nat
  subs :: "(SubId \<times> SubEntry) list"
  next_sub_id :: SubId
  left_over :: "(SubId \<times> HubEvent list) list"

definition new_hub :: HubState where
  "new_hub = \<lparr> next_seq = 1, ring = [], ring_bytes = 0, subs = [], next_sub_id = 1,
     left_over = [] \<rparr>"

section \<open>Publishing\<close>

definition push_to_sub :: "HubEvent \<Rightarrow> nat \<Rightarrow> nat \<Rightarrow> SubEntry \<Rightarrow> SubEntry" where
  "push_to_sub event event_bytes cap entry =
     (if \<not> tx_open entry then entry
      else if \<not> queued_bytes entry + event_bytes > cap
      then entry\<lparr> pending_gap := None, queued_bytes := queued_bytes entry + event_bytes,
                  channel := channel entry @ [event] \<rparr>
      else case event of
        Gap _ \<Rightarrow> entry
      | Output p \<Rightarrow>
          let g = (case pending_gap entry of
                Some g \<Rightarrow>
                  g\<lparr> pg_to_seq := (if seq p > pg_to_seq g then seq p else pg_to_seq g),
                     pg_from_seq := (if seq p < pg_from_seq g then seq p else pg_from_seq g),
                     pg_dropped_bytes := pg_dropped_bytes g + event_bytes \<rparr>
              | None \<Rightarrow> \<lparr> pg_from_seq = seq p, pg_to_seq = seq p, pg_dropped_bytes = event_bytes \<rparr>)
          in entry\<lparr> pending_gap := Some g,
                    channel := channel entry @ [Gap \<lparr> gap_session_id = session_id p,
                      gap_from_seq = seq p, gap_to_seq = seq p,
                      gap_dropped_bytes = event_bytes \<rparr>] \<rparr>)"

text \<open>Eviction from the front of the ring while it is over its budget.\<close>

fun evict_ring :: "nat \<Rightarrow> SessionOutputParams list \<Rightarrow> nat \<Rightarrow> SessionOutputParams list \<times> nat" where
  "evict_ring budget [] n = ([], n)"
| "evict_ring budget (e # es) n =
     (if n > budget then evict_ring budget es (n - decoded_len e) else (e # es, n))"

definition publish_chunk :: "HubConfig \<Rightarrow> SessionOutputParams \<Rightarrow> HubState \<Rightarrow> HubState" where
  "publish_chunk cfg c st =
     (let dec_len = decoded_len c;
          (r, b) = evict_ring (cfg_ring_bytes cfg) (ring st @ [c]) (ring_bytes st + dec_len)
      in st\<lparr> ring := r, ring_bytes := b,
             subs := map (\<lambda>(i, e). (i, if closed e \<or> parked e \<noteq> None then e
                       else push_to_sub (Output c) dec_len (cfg_sub_queue_bytes cfg) e)) (subs st),
             next_seq := seq c + 1 \<rparr>)"

definition publish ::
    "(bytes \<Rightarrow> nat list) \<Rightarrow> HubConfig \<Rightarrow> str \<Rightarrow> bytes \<Rightarrow> HubState \<Rightarrow> (nat \<times> nat) \<times> HubState" where
  "publish enc cfg sid payload st =
     (let start = next_seq st;
          cs = chunk_session_output enc sid start payload
      in ((start, if cs = [] then start else seq (last cs)), fold (publish_chunk cfg) cs st))"

section \<open>Subscriptions\<close>

definition replay_into :: "nat \<Rightarrow> nat \<Rightarrow> SessionOutputParams list \<Rightarrow> SubEntry \<Rightarrow> SubEntry" where
  "replay_into cap since rg entry =
     fold (\<lambda>c e. push_to_sub (Output c) (decoded_len c) cap e) (filter (\<lambda>c. seq c > since) rg) entry"

definition fresh_entry :: SubEntry where
  "fresh_entry = \<lparr> tx_open = True, channel = [], queued_bytes = 0, pending_gap = None,
     closed = False, parked = None \<rparr>"

definition subscribe :: "HubConfig \<Rightarrow> nat option \<Rightarrow> HubState \<Rightarrow> SubId \<times> HubState" where
  "subscribe cfg since_seq st =
     (let i = next_sub_id st;
          entry = (case since_seq of
              None \<Rightarrow> fresh_entry
            | Some since \<Rightarrow> replay_into (cfg_sub_queue_bytes cfg) since (ring st) fresh_entry)
      in (i, st\<lparr> next_sub_id := i + 1, subs := AList.update i entry (subs st) \<rparr>))"

definition resume :: "HubConfig \<Rightarrow> SubId \<Rightarrow> nat option \<Rightarrow> HubState \<Rightarrow> bool \<times> HubState" where
  "resume cfg i since_seq st =
     (case map_of (subs st) i of
        None \<Rightarrow> (False, st)
      | Some entry \<Rightarrow>
          if closed entry then (False, st)
          else
            let entry1 = entry\<lparr> tx_open := True, channel := [], queued_bytes := 0,
                                pending_gap := None, parked := None \<rparr>;
                entry2 = (case since_seq of
                    None \<Rightarrow> entry1
                  | Some since \<Rightarrow> replay_into (cfg_sub_queue_bytes cfg) since (ring st) entry1)
            in (True, st\<lparr> subs := AList.update i entry2 (subs st) \<rparr>))"

definition park :: "HubConfig \<Rightarrow> nat \<Rightarrow> SubId \<Rightarrow> HubState \<Rightarrow> HubState" where
  "park cfg now i st =
     (case map_of (subs st) i of
        None \<Rightarrow> st
      | Some entry \<Rightarrow>
          if parked entry = None \<and> \<not> closed entry
          then st\<lparr> subs := AList.update i
                 (entry\<lparr> parked := Some (now + cfg_park_duration cfg), tx_open := False \<rparr>) (subs st) \<rparr>
          else st)"

definition evict_if_still_parked :: "nat \<Rightarrow> SubId \<Rightarrow> HubState \<Rightarrow> bool \<times> HubState" where
  "evict_if_still_parked now i st =
     (case map_of (subs st) i of
        None \<Rightarrow> (False, st)
      | Some entry \<Rightarrow>
          if (case parked entry of Some deadline \<Rightarrow> now \<ge> deadline | None \<Rightarrow> False)
          then (True, st\<lparr> subs := AList.delete i (subs st), left_over := (i, channel entry) # left_over st \<rparr>)
          else (False, st))"

definition close_hub :: "HubState \<Rightarrow> HubState" where
  "close_hub st = st\<lparr> subs := [], ring := [], ring_bytes := 0,
     left_over := map (\<lambda>(i, e). (i, channel e)) (subs st) @ left_over st \<rparr>"

fun replay_loop :: "nat \<Rightarrow> nat \<Rightarrow> SessionOutputParams list \<Rightarrow> SessionOutputParams list" where
  "replay_loop from_seq budget [] = []"
| "replay_loop from_seq budget (c # cs) =
     (if seq c < from_seq then replay_loop from_seq budget cs
      else if budget = 0 then []
      else c # replay_loop from_seq (budget - decoded_len c) cs)"

definition replay :: "nat \<Rightarrow> nat \<Rightarrow> HubState \<Rightarrow> SessionOutputParams list" where
  "replay from_seq max_bytes st = replay_loop from_seq max_bytes (ring st)"

definition ring_range :: "HubState \<Rightarrow> (nat \<times> nat) option" where
  "ring_range st = (if ring st = [] then None else Some (seq (hd (ring st)), seq (last (ring st))))"

text \<open>recv: the next event of the channel, and for an output chunk the
  acknowledgement of its bytes.\<close>

definition ack :: "SubId \<Rightarrow> nat \<Rightarrow> HubState \<Rightarrow> HubState" where
  "ack i n st =
     (case map_of (subs st) i of
        None \<Rightarrow> st
      | Some entry \<Rightarrow>
          st\<lparr> subs := AList.update i (entry\<lparr> queued_bytes := queued_bytes entry - n \<rparr>) (subs st) \<rparr>)"

definition recv :: "SubId \<Rightarrow> HubState \<Rightarrow> HubEvent option \<times> HubState" where
  "recv i st =
     (case map_of (subs st) i of
        None \<Rightarrow>
          (case map_of (left_over st) i of
             Some (ev # evs) \<Rightarrow> (Some ev, st\<lparr> left_over := AList.update i evs (left_over st) \<rparr>)
           | _ \<Rightarrow> (None, st))
      | Some entry \<Rightarrow>
          (case channel entry of
             [] \<Rightarrow> (None, st)
           | ev # evs \<Rightarrow>
               let st1 = st\<lparr> subs := AList.update i (entry\<lparr> channel := evs \<rparr>) (subs st) \<rparr>
               in (Some ev, case ev of Output p \<Rightarrow> ack i (decoded_len p) st1 | Gap _ \<Rightarrow> st1)))"

section \<open>The invariant\<close>

fun ev_seq :: "HubEvent \<Rightarrow> nat" where
  "ev_seq (Output p) = seq p"
| "ev_seq (Gap g) = gap_from_seq g"

fun ev_bytes :: "HubEvent \<Rightarrow> nat" where
  "ev_bytes (Output p) = decoded_len p"
| "ev_bytes (Gap g) = gap_dropped_bytes g"

fun ev_charge :: "HubEvent \<Rightarrow> nat" where
  "ev_charge (Output p) = decoded_len p"
| "ev_charge (Gap g) = 0"

text \<open>The event stands for the chunk: the chunk itself, or a gap of exactly its
  number and size.\<close>

definition stands_for :: "HubEvent \<Rightarrow> SessionOutputParams \<Rightarrow> bool" where
  "stands_for ev c \<longleftrightarrow> ev = Output c \<or>
     ev = Gap \<lparr> gap_session_id = session_id c, gap_from_seq = seq c, gap_to_seq = seq c,
                gap_dropped_bytes = decoded_len c \<rparr>"

definition entry_inv :: "nat \<Rightarrow> nat \<Rightarrow> SubEntry \<Rightarrow> bool" where
  "entry_inv cap next e \<longleftrightarrow> queued_bytes e \<le> cap
     \<and> queued_bytes e = sum_list (map ev_charge (channel e))
     \<and> sorted_wrt (<) (map ev_seq (channel e)) \<and> (\<forall>ev\<in>set (channel e). ev_seq ev < next)"

definition ring_inv :: "HubConfig \<Rightarrow> HubState \<Rightarrow> bool" where
  "ring_inv cfg st \<longleftrightarrow> length (ring st) \<le> next_seq st
     \<and> map seq (ring st) = [next_seq st - length (ring st)..<next_seq st]
     \<and> ring_bytes st = sum_list (map decoded_len (ring st)) \<and> ring_bytes st \<le> cfg_ring_bytes cfg"

definition hub_inv :: "HubConfig \<Rightarrow> HubState \<Rightarrow> bool" where
  "hub_inv cfg st \<longleftrightarrow> ring_inv cfg st \<and> distinct (map fst (subs st))
     \<and> (\<forall>i e. map_of (subs st) i = Some e \<longrightarrow>
          i < next_sub_id st \<and> entry_inv (cfg_sub_queue_bytes cfg) (next_seq st) e)"

lemma hub_inv_left_over [simp]: "hub_inv cfg (st\<lparr> left_over := l \<rparr>) \<longleftrightarrow> hub_inv cfg st"
  by (simp add: hub_inv_def ring_inv_def)

lemma stands_for_seq: "stands_for ev c \<Longrightarrow> ev_seq ev = seq c \<and> ev_bytes ev = decoded_len c"
  by (auto simp: stands_for_def)

lemma stands_for_list:
  "list_all2 stands_for evs cs \<Longrightarrow> map ev_seq evs = map seq cs \<and> map ev_bytes evs = map decoded_len cs"
  by (induction rule: list_all2_induct) (auto simp: stands_for_seq)

section \<open>Pushing to a subscriber\<close>

lemma push_open:
  assumes "tx_open e"
  shows "\<exists>ev. push_to_sub (Output c) (decoded_len c) cap e
      = (push_to_sub (Output c) (decoded_len c) cap e)\<lparr> channel := channel e @ [ev] \<rparr>
    \<and> channel (push_to_sub (Output c) (decoded_len c) cap e) = channel e @ [ev]
    \<and> stands_for ev c"
  using assms by (auto simp: push_to_sub_def stands_for_def Let_def)

lemma push_fields [simp]:
  "tx_open (push_to_sub ev n cap e) = tx_open e" "closed (push_to_sub ev n cap e) = closed e"
  "parked (push_to_sub ev n cap e) = parked e"
  by (simp_all add: push_to_sub_def Let_def split: HubEvent.split)

lemma push_inv:
  assumes "entry_inv cap next e" "next \<le> seq c"
  shows "entry_inv cap (seq c + 1) (push_to_sub (Output c) (decoded_len c) cap e)"
  using assms
  by (fastforce simp: push_to_sub_def entry_inv_def Let_def sorted_wrt_append)

lemma entry_inv_mono: "entry_inv cap n e \<Longrightarrow> n \<le> m \<Longrightarrow> entry_inv cap m e"
  by (auto simp: entry_inv_def)

text \<open>Pushing a list of chunks one after the other.\<close>

definition push_all :: "nat \<Rightarrow> SessionOutputParams list \<Rightarrow> SubEntry \<Rightarrow> SubEntry" where
  "push_all cap cs e = fold (\<lambda>c e. push_to_sub (Output c) (decoded_len c) cap e) cs e"

lemma push_all_channel:
  "tx_open e \<Longrightarrow> \<exists>evs. channel (push_all cap cs e) = channel e @ evs \<and> list_all2 stands_for evs cs"
proof (induction cs arbitrary: e)
  case (Cons c cs)
  obtain ev where ev: "channel (push_to_sub (Output c) (decoded_len c) cap e) = channel e @ [ev]"
    "stands_for ev c" using push_open[OF Cons.prems, of c cap] by blast
  obtain evs where "channel (push_all cap cs (push_to_sub (Output c) (decoded_len c) cap e))
      = (channel e @ [ev]) @ evs" "list_all2 stands_for evs cs"
    using Cons.IH[of "push_to_sub (Output c) (decoded_len c) cap e"] Cons.prems ev(1) by auto
  then show ?case using ev(2) by (intro exI[of _ "ev # evs"]) (simp add: push_all_def)
qed (simp add: push_all_def)

lemma push_all_fields [simp]:
  "tx_open (push_all cap cs e) = tx_open e" "closed (push_all cap cs e) = closed e"
  "parked (push_all cap cs e) = parked e"
  by (induction cs arbitrary: e) (simp_all add: push_all_def)

lemma push_all_inv:
  "entry_inv cap lo e \<Longrightarrow> sorted_wrt (<) (map seq cs) \<Longrightarrow> (\<forall>c\<in>set cs. lo \<le> seq c \<and> seq c < bound) \<Longrightarrow>
   lo \<le> bound \<Longrightarrow> entry_inv cap bound (push_all cap cs e)"
proof (induction cs arbitrary: e lo)
  case Nil
  then show ?case by (auto simp: push_all_def intro: entry_inv_mono)
next
  case (Cons c cs)
  have "entry_inv cap (seq c + 1) (push_to_sub (Output c) (decoded_len c) cap e)"
    using Cons.prems by (intro push_inv) auto
  then have "entry_inv cap bound (push_all cap cs (push_to_sub (Output c) (decoded_len c) cap e))"
    using Cons.prems by (intro Cons.IH) auto
  then show ?case by (simp add: push_all_def)
qed

lemma replay_into_push_all: "replay_into cap since rg e = push_all cap (filter (\<lambda>c. seq c > since) rg) e"
  by (simp add: replay_into_def push_all_def)

section \<open>The ring\<close>

lemma evict_ring_drop:
  "n = sum_list (map decoded_len r) \<Longrightarrow>
   \<exists>k\<le>length r. evict_ring budget r n = (drop k r, sum_list (map decoded_len (drop k r)))
     \<and> sum_list (map decoded_len (drop k r)) \<le> budget"
proof (induction budget r n rule: evict_ring.induct)
  case (2 budget e es n)
  show ?case
  proof (cases "n > budget")
    case True
    then obtain k where "k \<le> length es"
      "evict_ring budget es (n - decoded_len e) = (drop k es, sum_list (map decoded_len (drop k es)))"
      "sum_list (map decoded_len (drop k es)) \<le> budget"
      using 2 by auto
    then show ?thesis using True by (intro exI[of _ "Suc k"]) simp
  next
    case False
    then show ?thesis using 2(2) by (intro exI[of _ 0]) simp
  qed
qed simp

lemma publish_chunk_ring:
  assumes "ring_inv cfg st" "seq c = next_seq st"
  shows "ring_inv cfg (publish_chunk cfg c st)"
    "next_seq (publish_chunk cfg c st) = next_seq st + 1"
    "next_sub_id (publish_chunk cfg c st) = next_sub_id st"
    "subs (publish_chunk cfg c st) = map (\<lambda>(i, e). (i, if closed e \<or> parked e \<noteq> None then e
       else push_to_sub (Output c) (decoded_len c) (cfg_sub_queue_bytes cfg) e)) (subs st)"
proof -
  let ?r = "ring st @ [c]"
  have n: "ring_bytes st + decoded_len c = sum_list (map decoded_len ?r)"
    using assms(1) by (simp add: ring_inv_def)
  obtain k where k: "k \<le> length ?r"
    "evict_ring (cfg_ring_bytes cfg) ?r (ring_bytes st + decoded_len c)
       = (drop k ?r, sum_list (map decoded_len (drop k ?r)))"
    "sum_list (map decoded_len (drop k ?r)) \<le> cfg_ring_bytes cfg"
    using evict_ring_drop[OF n, of "cfg_ring_bytes cfg"] by blast
  show "next_seq (publish_chunk cfg c st) = next_seq st + 1"
    "next_sub_id (publish_chunk cfg c st) = next_sub_id st"
    "subs (publish_chunk cfg c st) = map (\<lambda>(i, e). (i, if closed e \<or> parked e \<noteq> None then e
       else push_to_sub (Output c) (decoded_len c) (cfg_sub_queue_bytes cfg) e)) (subs st)"
    by (simp_all add: publish_chunk_def Let_def assms(2) split: prod.split)
  have "map seq ?r = [next_seq st - length (ring st)..<next_seq st + 1]"
    using assms by (simp add: ring_inv_def)
  then have "map seq (drop k ?r) = drop k [next_seq st - length (ring st)..<next_seq st + 1]"
    by (metis drop_map)
  also have "\<dots> = [next_seq st + 1 - length (drop k ?r)..<next_seq st + 1]"
    using k(1) assms(1) by (auto simp: drop_upt ring_inv_def)
  finally have sq: "map seq (drop k ?r) = [next_seq st + 1 - length (drop k ?r)..<next_seq st + 1]" .
  define rr where "rr = drop k ?r"
  have "length rr \<le> next_seq st + 1" using assms(1) by (auto simp: rr_def ring_inv_def)
  then show "ring_inv cfg (publish_chunk cfg c st)"
    using k(2,3) sq assms(2) unfolding rr_def[symmetric]
    by (simp add: publish_chunk_def Let_def ring_inv_def)
qed

lemma map_of_map_entries:
  "map_of (map (\<lambda>(i, e). (i, f e)) xs) i = map_option f (map_of xs i)"
  by (induction xs) auto

lemma publish_chunk_inv:
  assumes "hub_inv cfg st" "seq c = next_seq st"
  shows "hub_inv cfg (publish_chunk cfg c st)"
proof -
  have r: "ring_inv cfg st" using assms(1) by (simp add: hub_inv_def)
  note pc = publish_chunk_ring[OF r assms(2)]
  have "map fst (subs (publish_chunk cfg c st)) = map fst (subs st)"
    unfolding pc(4) by (simp add: comp_def case_prod_beta)
  moreover have "i < next_sub_id st \<and> entry_inv (cfg_sub_queue_bytes cfg) (next_seq st + 1) e"
    if ent: "map_of (subs (publish_chunk cfg c st)) i = Some e" for i e
  proof -
    obtain e0 where e0: "map_of (subs st) i = Some e0"
      "(if closed e0 \<or> parked e0 \<noteq> None then e0
         else push_to_sub (Output c) (decoded_len c) (cfg_sub_queue_bytes cfg) e0) = e"
      using ent unfolding pc(4) map_of_map_entries map_option_eq_Some by blast
    have "i < next_sub_id st" "entry_inv (cfg_sub_queue_bytes cfg) (next_seq st) e0"
      using assms(1) e0(1) by (auto simp: hub_inv_def)
    then show ?thesis
      using push_inv[of "cfg_sub_queue_bytes cfg" "next_seq st" e0 c] assms(2) e0(2)
        entry_inv_mono[of "cfg_sub_queue_bytes cfg" "next_seq st" e0 "next_seq st + 1"] by auto
  qed
  ultimately show ?thesis using pc(1-3) assms(1) by (auto simp: hub_inv_def)
qed

lemma publish_fold:
  "hub_inv cfg st \<Longrightarrow> map seq cs = [next_seq st..<next_seq st + length cs] \<Longrightarrow>
   hub_inv cfg (fold (publish_chunk cfg) cs st)
   \<and> next_seq (fold (publish_chunk cfg) cs st) = next_seq st + length cs
   \<and> (\<forall>i e. map_of (subs st) i = Some e \<longrightarrow>
        map_of (subs (fold (publish_chunk cfg) cs st)) i =
          Some (if closed e \<or> parked e \<noteq> None then e else push_all (cfg_sub_queue_bytes cfg) cs e))"
proof (induction cs arbitrary: st)
  case Nil
  then show ?case by (simp add: push_all_def)
next
  case (Cons c cs)
  have s: "seq c = next_seq st" "map seq cs = [Suc (next_seq st)..<Suc (next_seq st) + length cs]"
    using Cons.prems(2) by (simp_all add: upt_conv_Cons del: upt_Suc)
  let ?st = "publish_chunk cfg c st"
  have r: "ring_inv cfg st" using Cons.prems(1) by (simp add: hub_inv_def)
  note pc = publish_chunk_ring[OF r s(1)]
  have inv: "hub_inv cfg ?st" by (rule publish_chunk_inv[OF Cons.prems(1) s(1)])
  have nx: "next_seq ?st = Suc (next_seq st)" using pc(2) by simp
  have "map seq cs = [next_seq ?st..<next_seq ?st + length cs]" using s(2) by (simp only: nx)
  note ih = Cons.IH[OF inv this]
  have "map_of (subs (fold (publish_chunk cfg) (c # cs) st)) i =
      Some (if closed e \<or> parked e \<noteq> None then e else push_all (cfg_sub_queue_bytes cfg) (c # cs) e)"
    if e: "map_of (subs st) i = Some e" for i e
  proof -
    have "map_of (subs ?st) i = Some (if closed e \<or> parked e \<noteq> None then e
       else push_to_sub (Output c) (decoded_len c) (cfg_sub_queue_bytes cfg) e)"
      unfolding pc(4) map_of_map_entries e by simp
    then show ?thesis using ih by (auto simp: push_all_def)
  qed
  then show ?case using ih nx by simp
qed

section \<open>Every method keeps the invariant\<close>

lemma hub_invD:
  assumes "hub_inv cfg st"
  shows "ring_inv cfg st" "distinct (map fst (subs st))"
    "map_of (subs st) i = Some e \<Longrightarrow> i < next_sub_id st \<and> entry_inv (cfg_sub_queue_bytes cfg) (next_seq st) e"
  using assms by (auto simp: hub_inv_def)

text \<open>Writing one entry.\<close>

lemma alist_update_twice: "AList.update k a (AList.update k b xs) = AList.update k a xs"
  by (induction xs) auto

lemma update_entry_inv:
  assumes "hub_inv cfg st" "i < n" "next_sub_id st \<le> n"
    and "entry_inv (cfg_sub_queue_bytes cfg) (next_seq st) e"
  shows "hub_inv cfg (st\<lparr> next_sub_id := n, subs := AList.update i e (subs st) \<rparr>)"
  using assms
  by (fastforce simp del: map_of_eq_Some_iff simp: hub_inv_def ring_inv_def update_conv' distinct_update split: if_splits)

lemma update_entry_inv_same:
  assumes "hub_inv cfg st" "map_of (subs st) i = Some e0"
    and "entry_inv (cfg_sub_queue_bytes cfg) (next_seq st) e"
  shows "hub_inv cfg (st\<lparr> subs := AList.update i e (subs st) \<rparr>)"
  using update_entry_inv[OF assms(1) _ order_refl assms(3), of i] hub_invD(3)[OF assms(1,2)] by simp

lemma publish_inv:
  assumes "hub_inv cfg st"
  shows "hub_inv cfg (snd (publish enc cfg sid payload st))"
  unfolding publish_def Let_def snd_conv
  using publish_fold[OF assms, of "chunk_session_output enc sid (next_seq st) payload"]
    chunk_seqs[of enc sid "next_seq st" payload]
  by (metis length_map length_upt add_diff_cancel_left')

lemma ring_seq_bounds:
  assumes "ring_inv cfg st" "c \<in> set (ring st)"
  shows "next_seq st - length (ring st) \<le> seq c \<and> seq c < next_seq st"
proof -
  have "seq c \<in> set (map seq (ring st))" using assms(2) by simp
  moreover have "map seq (ring st) = [next_seq st - length (ring st)..<next_seq st]"
    using assms(1) by (simp add: ring_inv_def)
  ultimately show ?thesis by (simp only: set_upt) simp
qed

lemma filter_ring_sorted:
  "ring_inv cfg st \<Longrightarrow> sorted_wrt (<) (map seq (filter P (ring st)))"
proof -
  assume "ring_inv cfg st"
  then have "sorted_wrt (<) (map seq (ring st))" by (simp add: ring_inv_def)
  then show ?thesis by (simp add: sorted_wrt_map sorted_wrt_filter)
qed

lemma fresh_entry_inv [simp]: "entry_inv cap n fresh_entry"
  by (simp add: entry_inv_def fresh_entry_def)

lemma replay_into_inv:
  assumes "ring_inv cfg st" "entry_inv cap 0 e"
  shows "entry_inv cap (next_seq st) (replay_into cap since (ring st) e)"
  unfolding replay_into_push_all
  using assms(2) filter_ring_sorted[OF assms(1)] ring_seq_bounds[OF assms(1)]
  by (intro push_all_inv[where lo = 0]) auto

lemma subscribe_inv:
  assumes "hub_inv cfg st"
  shows "hub_inv cfg (snd (subscribe cfg since st))"
  using update_entry_inv[OF assms, of "next_sub_id st" "next_sub_id st + 1"]
    replay_into_inv[OF hub_invD(1)[OF assms], of "cfg_sub_queue_bytes cfg" fresh_entry]
  by (simp add: subscribe_def Let_def split: option.split)

lemma resume_inv:
  assumes "hub_inv cfg st"
  shows "hub_inv cfg (snd (resume cfg i since st))"
proof (cases "map_of (subs st) i")
  case None
  then show ?thesis using assms by (simp add: resume_def)
next
  case (Some e)
  let ?e = "e\<lparr> tx_open := True, channel := [], queued_bytes := 0, pending_gap := None, parked := None \<rparr>"
  have "entry_inv (cfg_sub_queue_bytes cfg) n ?e" for n by (simp add: entry_inv_def)
  then show ?thesis
    using update_entry_inv_same[OF assms Some] Some assms
      replay_into_inv[OF hub_invD(1)[OF assms], of "cfg_sub_queue_bytes cfg" ?e]
    by (simp add: resume_def Let_def split: option.split)
qed

lemma park_inv:
  assumes "hub_inv cfg st"
  shows "hub_inv cfg (park cfg now i st)"
proof (cases "map_of (subs st) i")
  case None
  then show ?thesis using assms by (simp add: park_def)
next
  case (Some e)
  have "entry_inv (cfg_sub_queue_bytes cfg) (next_seq st) (e\<lparr>parked := p, tx_open := b\<rparr>)" for p b
    using hub_invD(3)[OF assms Some] by (simp add: entry_inv_def)
  then show ?thesis
    using update_entry_inv_same[OF assms Some] Some assms by (simp add: park_def)
qed

lemma evict_inv:
  assumes "hub_inv cfg st"
  shows "hub_inv cfg (snd (evict_if_still_parked now i st))"
proof -
  have "hub_inv cfg (st\<lparr> subs := AList.delete i (subs st) \<rparr>)"
    using assms
    by (auto simp: hub_inv_def ring_inv_def delete_conv' distinct_delete simp del: map_of_eq_Some_iff
        split: if_splits)
  then show ?thesis using assms by (auto simp: evict_if_still_parked_def split: option.split)
qed

lemma close_inv: "hub_inv cfg (close_hub st)"
  by (simp add: close_hub_def hub_inv_def ring_inv_def)

lemma recv_inv:
  assumes "hub_inv cfg st"
  shows "hub_inv cfg (snd (recv i st))"
proof (cases "map_of (subs st) i")
  case None
  then show ?thesis using assms
    by (auto simp: recv_def hub_inv_def ring_inv_def split: option.split list.split)
next
  case (Some e)
  note ei = hub_invD(3)[OF assms Some]
  show ?thesis
  proof (cases "channel e")
    case Nil
    then show ?thesis using Some assms by (simp add: recv_def)
  next
    case (Cons ev evs)
    have upd: "snd (recv i st) = st\<lparr> subs := AList.update i
        (e\<lparr> channel := evs, queued_bytes := queued_bytes e - ev_charge ev \<rparr>) (subs st) \<rparr>"
      using Some Cons
      by (cases ev) (simp_all add: recv_def ack_def update_conv' alist_update_twice)
    have "entry_inv (cfg_sub_queue_bytes cfg) (next_seq st)
        (e\<lparr> channel := evs, queued_bytes := queued_bytes e - ev_charge ev \<rparr>)"
      using ei Cons by (auto simp: entry_inv_def)
    then show ?thesis unfolding upd by (rule update_entry_inv_same[OF assms Some])
  qed
qed

datatype HubOp =
    OpPublish bytes
  | OpSubscribe "nat option"
  | OpResume SubId "nat option"
  | OpPark SubId nat
  | OpEvict SubId nat
  | OpRecv SubId
  | OpClose

fun hub_step :: "(bytes \<Rightarrow> nat list) \<Rightarrow> HubConfig \<Rightarrow> str \<Rightarrow> HubOp \<Rightarrow> HubState \<Rightarrow> HubState" where
  "hub_step enc cfg sid (OpPublish d) st = snd (publish enc cfg sid d st)"
| "hub_step enc cfg sid (OpSubscribe s) st = snd (subscribe cfg s st)"
| "hub_step enc cfg sid (OpResume i s) st = snd (resume cfg i s st)"
| "hub_step enc cfg sid (OpPark i now) st = park cfg now i st"
| "hub_step enc cfg sid (OpEvict i now) st = snd (evict_if_still_parked now i st)"
| "hub_step enc cfg sid (OpRecv i) st = snd (recv i st)"
| "hub_step enc cfg sid OpClose st = close_hub st"

lemma hub_step_inv: "hub_inv cfg st \<Longrightarrow> hub_inv cfg (hub_step enc cfg sid op st)"
  by (cases op) (simp_all add: publish_inv subscribe_inv resume_inv park_inv evict_inv recv_inv close_inv)

lemma new_hub_inv: "hub_inv cfg new_hub"
  by (simp add: hub_inv_def ring_inv_def new_hub_def)

lemma hub_run_inv: "hub_inv cfg (fold (hub_step enc cfg sid) ops new_hub)"
proof (induction ops rule: rev_induct)
  case Nil
  then show ?case by (simp add: new_hub_inv)
next
  case (snoc op ops)
  then show ?case by (simp add: hub_step_inv)
qed

section \<open>Properties\<close>


text \<open>C6. No silent loss: a publish appends to every live subscriber's channel one
  event per chunk, the chunk itself or a gap naming it, so that the sequence
  numbers run on without a hole and delivered plus reported-as-dropped bytes are
  exactly the bytes of the payload; a parked subscription is left alone.\<close>

theorem publish_accounts_every_byte:
  assumes "b64_ok enc dec" "hub_inv cfg st" "map_of (subs st) i = Some e" "\<not> closed e"
    and "publish enc cfg sid payload st = ((first, final), st')"
  shows "\<exists>e' evs. map_of (subs st') i = Some e' \<and> channel e' = channel e @ evs
    \<and> (parked e = None \<and> tx_open e \<longrightarrow>
         list_all2 stands_for evs (chunk_session_output enc sid (next_seq st) payload)
         \<and> map ev_seq evs = [first..<final + 1] \<and> sum_list (map ev_bytes evs) = length payload)
    \<and> (parked e \<noteq> None \<longrightarrow> e' = e) \<and> next_seq st' = final + 1"
proof -
  let ?cs = "chunk_session_output enc sid (next_seq st) payload"
  let ?n = "length (slices payload)"
  have sq: "map seq ?cs = [next_seq st..<next_seq st + ?n]" by (rule chunk_seqs)
  then have len: "length ?cs = ?n" by (metis add_diff_cancel_left' length_map length_upt)
  have n1: "0 < ?n" using slices_props(3)[of payload] by simp
  have "seq (last ?cs) = last (map seq ?cs)" using len n1 by (subst last_map) auto
  then have lastc: "seq (last ?cs) = next_seq st + ?n - 1" using n1 by (simp add: sq)
  have ne: "?cs \<noteq> []" using len n1 by auto
  have fin: "first = next_seq st" "final + 1 = next_seq st + ?n" "st' = fold (publish_chunk cfg) ?cs st"
    using assms(5) ne lastc n1 by (auto simp: publish_def Let_def)
  note pf = publish_fold[OF assms(2), of ?cs, unfolded len, OF sq]
  have bytes: "sum_list (map decoded_len ?cs) = length payload"
  proof -
    have "map decoded_len ?cs = map length (slices payload)"
      unfolding chunk_session_output_slices
      by (simp add: comp_def case_prod_beta decoded_len_from_bytes[OF assms(1)] map_snd_zip[unfolded comp_def]
          flip: map_map[of length snd, unfolded comp_def])
    then show ?thesis using slices_props(1)[of payload] by (metis length_concat)
  qed
  define e' where "e' = (if closed e \<or> parked e \<noteq> None then e else push_all (cfg_sub_queue_bytes cfg) ?cs e)"
  have e': "map_of (subs st') i = Some e'" using pf assms(3) fin(3) by (simp add: e'_def)
  have nx: "next_seq st' = final + 1" using pf fin by simp
  show ?thesis
  proof (cases "parked e = None \<and> tx_open e")
    case True
    then obtain evs where evs: "channel (push_all (cfg_sub_queue_bytes cfg) ?cs e) = channel e @ evs"
      "list_all2 stands_for evs ?cs" using push_all_channel by blast
    moreover have "channel e' = channel e @ evs" using True assms(4) evs(1) by (simp add: e'_def)
    ultimately show ?thesis
      using e' nx stands_for_list[OF evs(2)] True bytes fin(1,2) sq
      by (intro exI[of _ e'] exI[of _ evs]) simp
  next
    case False
    have "\<exists>evs. channel e' = channel e @ evs"
    proof (cases "tx_open e")
      case True
      then have "e' = e" using False by (simp add: e'_def)
      then show ?thesis by simp
    next
      case False
      then have "push_all c cs e = e" for c cs
        by (induction cs) (simp_all add: push_all_def push_to_sub_def)
      then show ?thesis by (simp add: e'_def)
    qed
    moreover have "parked e \<noteq> None \<longrightarrow> e' = e" by (simp add: e'_def)
    ultimately show ?thesis using e' nx False by blast
  qed
qed

definition one_sub :: HubState where
  "one_sub = snd (subscribe default_config None new_hub)"

lemma one_sub_inv: "hub_inv default_config one_sub"
  unfolding one_sub_def by (rule subscribe_inv[OF new_hub_inv])

lemma one_sub_entry: "map_of (subs one_sub) 1 = Some fresh_entry"
  by (simp add: one_sub_def subscribe_def new_hub_def)

lemma publish_accounts_every_byte_witness:
  "\<exists>e' evs. map_of (subs (snd (publish demo_b64 default_config [] [7, 8] one_sub))) 1 = Some e'
     \<and> channel e' = evs \<and> sum_list (map ev_bytes evs) = 2"
proof -
  obtain f l st' where p: "publish demo_b64 default_config [] [7, 8] one_sub = ((f, l), st')"
    by (metis prod.exhaust)
  show ?thesis
    using publish_accounts_every_byte[OF demo_b64_ok one_sub_inv one_sub_entry _ p]
    by (auto simp: fresh_entry_def p numeral_2_eq_2)
qed

text \<open>Reconnecting resumes the stream: the new channel holds one event for
  each chunk after the client's last one that is still in the ring, in order
  and without a hole up to the newest, and the queue budget holds from the
  start.\<close>

theorem resume_replays_suffix:
  assumes "hub_inv cfg st" "resume cfg i (Some since) st = (True, st')"
  shows "\<exists>e'. map_of (subs st') i = Some e' \<and> tx_open e' \<and> parked e' = None
    \<and> list_all2 stands_for (channel e') (filter (\<lambda>c. since < seq c) (ring st))
    \<and> map ev_seq (channel e') = [max (Suc since) (next_seq st - length (ring st))..<next_seq st]
    \<and> queued_bytes e' \<le> cfg_sub_queue_bytes cfg"
proof -
  obtain e where e: "map_of (subs st) i = Some e" "\<not> closed e"
    using assms(2) by (auto simp: resume_def split: option.splits if_splits)
  let ?e1 = "e\<lparr> tx_open := True, channel := [], queued_bytes := 0, pending_gap := None, parked := None \<rparr>"
  let ?e2 = "push_all (cfg_sub_queue_bytes cfg) (filter (\<lambda>c. since < seq c) (ring st)) ?e1"
  have st': "map_of (subs st') i = Some ?e2"
    using assms(2) e by (auto simp: resume_def Let_def update_conv' replay_into_push_all)
  obtain evs where evs: "channel ?e2 = evs" "list_all2 stands_for evs (filter (\<lambda>c. since < seq c) (ring st))"
    using push_all_channel[of ?e1 "cfg_sub_queue_bytes cfg" "filter (\<lambda>c. since < seq c) (ring st)"] by auto
  have r: "ring_inv cfg st" by (rule hub_invD(1)[OF assms(1)])
  have flt: "filter ((<) k) [a..<b] = [max (Suc k) a..<b]" for k a b
    by (induction b) (auto simp: max_def)
  have "map seq (filter (\<lambda>c. since < seq c) (ring st)) = filter ((<) since) (map seq (ring st))"
    by (simp add: filter_map comp_def)
  also have "\<dots> = [max (Suc since) (next_seq st - length (ring st))..<next_seq st]"
    using r by (simp add: ring_inv_def flt)
  finally have sq: "map ev_seq evs = [max (Suc since) (next_seq st - length (ring st))..<next_seq st]"
    using stands_for_list[OF evs(2)] by simp
  have "hub_inv cfg st'" using resume_inv[OF assms(1), of i "Some since"] assms(2) by simp
  then have "queued_bytes ?e2 \<le> cfg_sub_queue_bytes cfg"
    using hub_invD(3)[of cfg st' i ?e2] st' by (simp add: entry_inv_def)
  then show ?thesis using st' evs sq by (intro exI[of _ ?e2]) simp
qed

lemma resume_replays_suffix_witness:
  "\<exists>e' st'. resume default_config 1 (Some 0) one_sub = (True, st') \<and> map_of (subs st') 1 = Some e'
     \<and> map ev_seq (channel e') = [max 1 1..<1]"
proof -
  obtain b st' where r: "resume default_config 1 (Some 0) one_sub = (b, st')" by (metis prod.exhaust)
  have "b" using r one_sub_entry by (auto simp: resume_def fresh_entry_def Let_def)
  then show ?thesis
    using resume_replays_suffix[OF one_sub_inv, of 1 0 st'] r
    by (auto simp: one_sub_def subscribe_def new_hub_def)
qed

text \<open>Parking is bounded: a parked subscription survives every eviction timer
  before its deadline and every publish, is removed by the first timer at or
  after it, and can be resumed until then.\<close>

theorem park_lifetime:
  assumes "map_of (subs st) i = Some e" "parked e = None" "\<not> closed e"
    and "st1 = park cfg now i st"
  shows "(now' < now + cfg_park_duration cfg \<longrightarrow> evict_if_still_parked now' i st1 = (False, st1))
    \<and> (now + cfg_park_duration cfg \<le> now' \<longrightarrow>
         fst (evict_if_still_parked now' i st1)
         \<and> map_of (subs (snd (evict_if_still_parked now' i st1))) i = None)
    \<and> fst (resume cfg i s st1)
    \<and> fst (evict_if_still_parked now' i (snd (resume cfg i None st1))) = False"
  using assms
  by (simp add: park_def evict_if_still_parked_def resume_def Let_def update_conv' delete_conv')

lemma park_lifetime_witness:
  "fst (resume default_config 1 None (park default_config 0 1 one_sub))"
  using park_lifetime[OF one_sub_entry _ _ refl, where cfg = default_config and now = 0 and now' = 0 and s = None]
  by (simp add: fresh_entry_def)

text \<open>A replay returns the ring from the requested number on, oldest first and
  contiguous, stops only when its byte budget is used up, and exceeds the budget
  by less than its last chunk.\<close>

theorem replay_prefix:
  assumes "hub_inv cfg st" "0 < max_bytes"
  shows "\<exists>post. filter (\<lambda>c. from_seq \<le> seq c) (ring st) = replay from_seq max_bytes st @ post
    \<and> (post \<noteq> [] \<longrightarrow> max_bytes \<le> sum_list (map decoded_len (replay from_seq max_bytes st)))
    \<and> (replay from_seq max_bytes st \<noteq> [] \<longrightarrow>
         sum_list (map decoded_len (butlast (replay from_seq max_bytes st))) < max_bytes)"
proof -
  have "\<exists>post. filter (\<lambda>c. from_seq \<le> seq c) rg = replay_loop from_seq b rg @ post
    \<and> (post \<noteq> [] \<longrightarrow> b \<le> sum_list (map decoded_len (replay_loop from_seq b rg)))
    \<and> (replay_loop from_seq b rg \<noteq> [] \<longrightarrow>
         sum_list (map decoded_len (butlast (replay_loop from_seq b rg))) < b)" if "sorted_wrt (<) (map seq rg)" for b rg
    using that
  proof (induction from_seq b rg rule: replay_loop.induct)
    case (2 from_seq b c cs)
    show ?case
    proof (cases "seq c < from_seq")
      case True
      then show ?thesis using 2 by simp
    next
      case False
      show ?thesis
      proof (cases "b = 0")
        case True
        then show ?thesis using False by simp
      next
        case b: False
        let ?r = "replay_loop from_seq (b - decoded_len c) cs"
        obtain post where p: "filter (\<lambda>c. from_seq \<le> seq c) cs = ?r @ post"
          "post \<noteq> [] \<longrightarrow> b - decoded_len c \<le> sum_list (map decoded_len ?r)"
          "?r \<noteq> [] \<longrightarrow> sum_list (map decoded_len (butlast ?r)) < b - decoded_len c"
          using 2(2)[OF False b] 2(3) by auto
        then show ?thesis using False b by (intro exI[of _ post]) auto
      qed
    qed
  qed simp
  then show ?thesis
    using filter_ring_sorted[OF hub_invD(1)[OF assms(1)], of "\<lambda>_. True"] by (simp add: replay_def)
qed

lemma replay_prefix_witness:
  "\<exists>post. filter (\<lambda>c. 0 \<le> seq c) (ring one_sub) = replay 0 5 one_sub @ post"
  using replay_prefix[OF one_sub_inv, of 5 0] by auto

text \<open>A dropped handle parks its subscription once more, also when the
  explicit park has run and the client has already resumed: in that order of the
  three calls the resumed subscription ends up parked with its sender gone, and
  no later publish reaches it.\<close>

theorem late_drop_parks_resumed:
  assumes "hub_inv cfg st" "map_of (subs st) i = Some e" "parked e = None" "\<not> closed e"
    and "st3 = park cfg t3 i (snd (resume cfg i s (park cfg t1 i st)))"
  shows "\<exists>e3. map_of (subs st3) i = Some e3 \<and> \<not> tx_open e3
    \<and> parked e3 = Some (t3 + cfg_park_duration cfg)
    \<and> map_of (subs (snd (publish enc cfg sid payload st3))) i = Some e3"
proof -
  let ?st1 = "park cfg t1 i st"
  let ?st2 = "snd (resume cfg i s ?st1)"
  have inv3: "hub_inv cfg st3"
    unfolding assms(5) by (intro park_inv resume_inv assms(1))
  obtain e2 where e2: "map_of (subs ?st2) i = Some e2" "parked e2 = None" "\<not> closed e2"
    using assms(2-4)
    by (cases s) (auto simp: park_def resume_def Let_def update_conv' replay_into_push_all)
  define e3 where "e3 = e2\<lparr> parked := Some (t3 + cfg_park_duration cfg), tx_open := False \<rparr>"
  have e3: "map_of (subs st3) i = Some e3"
    using e2 by (simp add: assms(5) park_def[of cfg t3 i ?st2] update_conv' e3_def)
  let ?cs = "chunk_session_output enc sid (next_seq st3) payload"
  have sq: "map seq ?cs = [next_seq st3..<next_seq st3 + length (slices payload)]" by (rule chunk_seqs)
  then have "length ?cs = length (slices payload)" by (metis add_diff_cancel_left' length_map length_upt)
  with sq have sq': "map seq ?cs = [next_seq st3..<next_seq st3 + length ?cs]" by simp
  then have "map_of (subs (fold (publish_chunk cfg) ?cs st3)) i = Some e3"
    using publish_fold[OF inv3 sq'] e3 by (auto simp: e3_def)
  then show ?thesis using e3 by (intro exI[of _ e3]) (simp add: e3_def publish_def Let_def)
qed

lemma late_drop_parks_resumed_witness:
  "\<exists>e3. map_of (subs (park default_config 9 1 (snd (resume default_config 1 None
     (park default_config 5 1 one_sub))))) 1 = Some e3 \<and> \<not> tx_open e3"
  using late_drop_parks_resumed[OF one_sub_inv one_sub_entry _ _ refl, of 9 None 5]
  by (simp add: fresh_entry_def) blast

end
