(* ===== verification/Cron_Spec.thy ===== *)
theory Cron_Spec
  imports Prelude
begin

text \<open>
  Model of \<open>la-scheduler/src/cron_spec.rs\<close> and \<open>error.rs\<close>: cron expressions
  bound to a time zone, with the rule that an ambiguous wall time of a
  daylight-saving fall-back fires at its first occurrence only.

  The cron and chrono-tz crates are not part of the repository.  A parsed
  schedule is a function from a zone and an instant to the list of the fires
  after it (the cron crate's iterator, finite since its years end at 2100); a
  zone is its UTC offset and its local-time resolution.  A zone-aware DateTime
  is its instant: conversion between zones keeps it and comparison looks only
  at it.  What the proofs rely on is \<open>schedule_ok\<close> and \<open>tz_ok\<close>.
\<close>

section \<open>Data\<close>

datatype SchedError =
    InvalidExpr (raw_of: str) (reason_of: str)
  | InvalidTimezone str
  | Invariant str

datatype LocalResult = LocalNone | LocalSingle instant | LocalAmbiguous instant instant

record Tz =
  utc_offset :: "instant \<Rightarrow> int"
  from_local_datetime :: "int \<Rightarrow> LocalResult"

type_synonym Schedule = "Tz \<Rightarrow> instant \<Rightarrow> instant list"

record CronSpec =
  schedule :: Schedule
  tz :: Tz
  raw :: str

definition naive_local :: "Tz \<Rightarrow> instant \<Rightarrow> int" where
  "naive_local z t = t + utc_offset z t"

definition is_first_local_occurrence :: "instant \<Rightarrow> Tz \<Rightarrow> bool" where
  "is_first_local_occurrence t z =
     (case from_local_datetime z (naive_local z t) of
        LocalAmbiguous first _ \<Rightarrow> t = first
      | _ \<Rightarrow> True)"

section \<open>Parsing\<close>

definition normalise_expr :: "str \<Rightarrow> SchedError + str" where
  "normalise_expr expr =
     (let trimmed = trim expr in
      if trimmed = [] then Inl (InvalidExpr expr (lit ''expression is empty''))
      else
        let fields = split_ws trimmed in
        if length fields = 5 then Inr (lit ''0 '' @ join [32] fields)
        else if length fields = 6 then Inr (join [32] fields)
        else Inl (InvalidExpr expr (lit ''expected 5 or 6 fields, got '' @ show_nat (length fields))))"

text \<open>The two third-party parsers are arguments: the cron crate's (an error
  carries its text) and the zone-name table.\<close>

definition parse_spec ::
    "(str \<Rightarrow> str + Schedule) \<Rightarrow> (str \<Rightarrow> Tz option) \<Rightarrow> str \<Rightarrow> str \<Rightarrow> SchedError + CronSpec" where
  "parse_spec schedule_from_str tz_parse expr zone =
     bind_result (normalise_expr expr) (\<lambda>normalised.
       case schedule_from_str normalised of
         Inl e \<Rightarrow> Inl (InvalidExpr expr e)
       | Inr sched \<Rightarrow>
           (case tz_parse zone of
              None \<Rightarrow> Inl (InvalidTimezone zone)
            | Some z \<Rightarrow> Inr \<lparr> schedule = sched, tz = z, raw = expr \<rparr>))"

section \<open>Enumerating fires\<close>

definition next_after :: "CronSpec \<Rightarrow> instant \<Rightarrow> instant option" where
  "next_after spec t =
     find (\<lambda>x. is_first_local_occurrence x (tz spec)) (schedule spec (tz spec) t)"

text \<open>The loop of fires_between over the iterator, with the vector built so far.\<close>

fun fires_loop :: "Tz \<Rightarrow> instant \<Rightarrow> nat \<Rightarrow> instant list \<Rightarrow> instant list \<Rightarrow> instant list" where
  "fires_loop z end_t limit out [] = out"
| "fires_loop z end_t limit out (fire # rest) =
     (if fire > end_t then out
      else if \<not> is_first_local_occurrence fire z then fires_loop z end_t limit out rest
      else
        let out' = out @ [fire] in
        if length out' \<ge> limit then out' else fires_loop z end_t limit out' rest)"

definition fires_between :: "CronSpec \<Rightarrow> instant \<Rightarrow> instant \<Rightarrow> nat \<Rightarrow> instant list" where
  "fires_between spec start end_t limit =
     fires_loop (tz spec) end_t limit [] (schedule spec (tz spec) start)"

record CountedMissed =
  earliest :: "instant list"
  total :: nat
  saturated :: bool

fun missed_loop ::
    "Tz \<Rightarrow> instant \<Rightarrow> nat \<Rightarrow> nat \<Rightarrow> instant list \<Rightarrow> nat \<Rightarrow> instant list \<Rightarrow> CountedMissed" where
  "missed_loop z end_t tak count_cap e n [] = \<lparr> earliest = e, total = n, saturated = False \<rparr>"
| "missed_loop z end_t tak count_cap e n (fire # rest) =
     (if fire > end_t then \<lparr> earliest = e, total = n, saturated = False \<rparr>
      else if \<not> is_first_local_occurrence fire z
        then missed_loop z end_t tak count_cap e n rest
      else
        let e' = (if length e < tak then e @ [fire] else e); n' = n + 1 in
        if n' \<ge> count_cap then \<lparr> earliest = e', total = n', saturated = True \<rparr>
        else missed_loop z end_t tak count_cap e' n' rest)"

definition count_missed ::
    "CronSpec \<Rightarrow> instant \<Rightarrow> instant \<Rightarrow> nat \<Rightarrow> nat \<Rightarrow> CountedMissed" where
  "count_missed spec start end_t tak count_cap =
     missed_loop (tz spec) end_t tak count_cap [] 0 (schedule spec (tz spec) start)"

definition preview :: "CronSpec \<Rightarrow> instant \<Rightarrow> nat \<Rightarrow> instant list" where
  "preview spec t n =
     take n (filter (\<lambda>x. is_first_local_occurrence x (tz spec)) (schedule spec (tz spec) t))"

text \<open>
  A wall time is resolved to its only or its earlier instant.  The argument is
  the calendar time as a local timestamp, \<open>None\<close> for a date that does not
  exist, and the texts that the error quotes.
\<close>

definition wall_time_in_tz :: "Tz \<Rightarrow> int option \<Rightarrow> str \<Rightarrow> str \<Rightarrow> SchedError + instant" where
  "wall_time_in_tz z local_t shown zone_name =
     (let mapped = (case local_t of None \<Rightarrow> LocalNone | Some l \<Rightarrow> from_local_datetime z l) in
      case mapped of
        LocalSingle t \<Rightarrow> Inr t
      | LocalAmbiguous first _ \<Rightarrow> Inr first
      | LocalNone \<Rightarrow> Inl (InvalidExpr shown (lit ''wall time does not exist in timezone '' @ zone_name)))"

section \<open>What the crates guarantee\<close>

text \<open>Fires come in increasing order, strictly after the cutoff, and a later
  cutoff only drops those that are not after it.\<close>

definition schedule_ok :: "CronSpec \<Rightarrow> bool" where
  "schedule_ok spec \<longleftrightarrow>
     (\<forall>t. sorted_wrt (<) (schedule spec (tz spec) t)
        \<and> (\<forall>x\<in>set (schedule spec (tz spec) t). t < x)
        \<and> (\<forall>t'\<ge>t. schedule spec (tz spec) t' = filter (\<lambda>x. t' < x) (schedule spec (tz spec) t)))"

text \<open>Local-time resolution inverts the offset: a unique instant, or the two
  instants of a repeated hour in order.\<close>

definition tz_ok :: "Tz \<Rightarrow> bool" where
  "tz_ok z \<longleftrightarrow> (\<forall>t. case from_local_datetime z (naive_local z t) of
       LocalNone \<Rightarrow> False
     | LocalSingle a \<Rightarrow> a = t
     | LocalAmbiguous a b \<Rightarrow> a < b \<and> (t = a \<or> t = b)
         \<and> naive_local z a = naive_local z t \<and> naive_local z b = naive_local z t)"

abbreviation fires_after :: "CronSpec \<Rightarrow> instant \<Rightarrow> instant list" where
  "fires_after spec t \<equiv>
     filter (\<lambda>x. is_first_local_occurrence x (tz spec)) (schedule spec (tz spec) t)"

text \<open>The specification of the windowed walks: all first occurrences in (start, end].\<close>

definition window :: "CronSpec \<Rightarrow> instant \<Rightarrow> instant \<Rightarrow> instant list" where
  "window spec start end_t = filter (\<lambda>x. x \<le> end_t) (fires_after spec start)"

section \<open>Lemmas on enumeration\<close>

lemma schedule_sorted: "schedule_ok spec \<Longrightarrow> sorted_wrt (<) (schedule spec (tz spec) t)"
  unfolding schedule_ok_def by blast

lemma schedule_gt: "schedule_ok spec \<Longrightarrow> x \<in> set (schedule spec (tz spec) t) \<Longrightarrow> t < x"
  unfolding schedule_ok_def by blast

lemma schedule_later:
  "schedule_ok spec \<Longrightarrow> t \<le> t' \<Longrightarrow>
   schedule spec (tz spec) t' = filter (\<lambda>x. t' < x) (schedule spec (tz spec) t)"
  unfolding schedule_ok_def by blast

lemma find_eq_hd_filter:
  "find P xs = (case filter P xs of [] \<Rightarrow> None | x # _ \<Rightarrow> Some x)"
  by (induction xs) auto

lemma next_after_alt:
  "next_after spec t = (case fires_after spec t of [] \<Rightarrow> None | x # _ \<Rightarrow> Some x)"
  unfolding next_after_def by (rule find_eq_hd_filter)

lemma filter_gt_sorted:
  "sorted_wrt (<) (f # ys) \<Longrightarrow> filter (\<lambda>x. f < x) (f # ys) = (ys :: int list)"
  by (simp add: filter_id_conv)

lemma fires_after_next:
  assumes ok: "schedule_ok spec" and nxt: "next_after spec t = Some f"
  shows "fires_after spec t = f # fires_after spec f"
proof -
  obtain ys where fa: "fires_after spec t = f # ys"
    using nxt by (auto simp: next_after_alt split: list.splits)
  have "f \<in> set (fires_after spec t)" unfolding fa by simp
  then have tf: "t \<le> f" using schedule_gt[OF ok, of f t] by simp
  have "sorted_wrt (<) (f # ys)"
    unfolding fa[symmetric] by (rule sorted_wrt_filter[OF schedule_sorted[OF ok]])
  then have ys: "filter (\<lambda>x. f < x) (fires_after spec t) = ys"
    unfolding fa by (rule filter_gt_sorted)
  have "fires_after spec f = filter (\<lambda>x. f < x) (fires_after spec t)"
    unfolding schedule_later[OF ok tf] filter_filter by (rule filter_cong) blast+
  then show ?thesis unfolding ys by (simp only: fa)
qed

lemma fires_loop_eq:
  "sorted_wrt (<) xs \<Longrightarrow> length out < limit \<Longrightarrow>
   fires_loop z end_t limit out xs =
     out @ take (limit - length out)
       (filter (\<lambda>x. x \<le> end_t) (filter (\<lambda>x. is_first_local_occurrence x z) xs))"
proof (induction xs arbitrary: out)
  case (Cons x xs)
  show ?case
  proof (cases "x > end_t")
    case True
    then have "\<forall>y\<in>set xs. \<not> y \<le> end_t" using Cons.prems(1) by auto
    then have "filter (\<lambda>x. x \<le> end_t) (filter (\<lambda>x. is_first_local_occurrence x z) xs) = []"
      by (auto simp: filter_empty_conv)
    then show ?thesis using True by simp
  next
    case False
    then show ?thesis
      using Cons.prems Cons.IH[of out] Cons.IH[of "out @ [x]"]
      by (cases "limit - length out") (auto simp: Let_def not_less not_le diff_Suc)
  qed
qed simp

lemma missed_loop_eq:
  "sorted_wrt (<) xs \<Longrightarrow> n < cap \<Longrightarrow> length e = min tak n \<Longrightarrow>
   missed_loop z end_t tak cap e n xs =
     (let w = filter (\<lambda>x. x \<le> end_t) (filter (\<lambda>x. is_first_local_occurrence x z) xs) in
      \<lparr> earliest = e @ take (tak - length e) (take (cap - n) w),
        total = min cap (n + length w), saturated = (cap \<le> n + length w) \<rparr>)"
proof (induction xs arbitrary: e n)
  case (Cons x xs)
  show ?case
  proof (cases "x > end_t")
    case True
    then have "\<forall>y\<in>set xs. \<not> y \<le> end_t" using Cons.prems(1) by auto
    then have "filter (\<lambda>x. x \<le> end_t) (filter (\<lambda>x. is_first_local_occurrence x z) xs) = []"
      by (auto simp: filter_empty_conv)
    then show ?thesis using True Cons.prems(2) by simp
  next
    case False
    show ?thesis
    proof (cases "is_first_local_occurrence x z")
      case True
      let ?e = "if length e < tak then e @ [x] else e"
      have le: "length ?e = min tak (Suc n)" using Cons.prems(3) by auto
      have k: "cap - n = Suc (cap - Suc n)" using Cons.prems(2) by simp
      show ?thesis
      proof (cases "Suc n \<ge> cap")
        case True
        then have "cap = Suc n" using Cons.prems(2) by simp
        then show ?thesis
          using False \<open>is_first_local_occurrence x z\<close> Cons.prems(3)
          by (cases "tak - length e") (auto simp: Let_def min_def)
      next
        case nsat: False
        have "tak - length e = (if length e < tak then Suc (tak - length ?e) else 0)" by auto
        then show ?thesis
          using False \<open>is_first_local_occurrence x z\<close> nsat Cons.prems(1) k
            Cons.IH[of "Suc n" ?e, OF _ _ le]
          by (auto simp: Let_def)
      qed
    next
      case nf: False
      then show ?thesis using False Cons.prems Cons.IH[of n e] by simp
    qed
  qed
qed simp

lemma fires_between_window:
  assumes "schedule_ok spec" "0 < limit"
  shows "fires_between spec s e limit = take limit (window spec s e)"
  using fires_loop_eq[OF schedule_sorted[OF assms(1)], of "[]" limit] assms(2)
  by (simp add: fires_between_def window_def)

lemma count_missed_window:
  assumes "schedule_ok spec" "0 < cap" "tak \<le> cap"
  shows "count_missed spec s e tak cap =
    \<lparr> earliest = take tak (window spec s e), total = min cap (length (window spec s e)),
      saturated = (cap \<le> length (window spec s e)) \<rparr>"
  using missed_loop_eq[OF schedule_sorted[OF assms(1)], of 0 cap "[]" tak] assms(2,3)
  by (simp add: count_missed_def window_def Let_def min_absorb1)

lemma window_sorted: "schedule_ok spec \<Longrightarrow> sorted_wrt (<) (window spec s e)"
  unfolding window_def by (intro sorted_wrt_filter schedule_sorted)

lemma window_bounds:
  "schedule_ok spec \<Longrightarrow> x \<in> set (window spec s e) \<Longrightarrow> s < x \<and> x \<le> e"
  unfolding window_def using schedule_gt[of spec x s] by simp

lemma tz_okD:
  "tz_ok z \<Longrightarrow> from_local_datetime z (naive_local z t) = LocalSingle t
     \<or> (\<exists>a b. from_local_datetime z (naive_local z t) = LocalAmbiguous a b \<and> a < b \<and> (t = a \<or> t = b))"
  unfolding tz_ok_def
  by (drule spec[of _ t], cases "from_local_datetime z (naive_local z t)") simp_all

lemma first_occurrence_inj:
  assumes ok: "tz_ok z" and f: "is_first_local_occurrence a z" "is_first_local_occurrence b z"
    and eq: "naive_local z a = naive_local z b"
  shows "a = b"
  using tz_okD[OF ok, of a] tz_okD[OF ok, of b] f
  unfolding is_first_local_occurrence_def eq by auto

lemma first_occurrence_least:
  assumes ok: "tz_ok z" and f: "is_first_local_occurrence f z"
    and eq: "naive_local z t = naive_local z f"
  shows "f \<le> t"
  using tz_okD[OF ok, of f] tz_okD[OF ok, of t] f
  unfolding is_first_local_occurrence_def eq by auto

subsection \<open>Fields of an expression\<close>

lemma join_ends:
  "fs \<noteq> [] \<Longrightarrow> list_all (\<lambda>f. f \<noteq> [] \<and> list_all (\<lambda>c. \<not> is_ws c) f) fs \<Longrightarrow>
   join [32] fs \<noteq> [] \<and> \<not> is_ws (hd (join [32] fs)) \<and> \<not> is_ws (last (join [32] fs))"
proof (induction fs rule: induct_list012)
  case (2 f)
  then show ?case by (auto simp: list.pred_set)
next
  case (3 f g fs)
  then show ?case by (cases f) auto
qed simp

lemma trim_join:
  "list_all (\<lambda>f. f \<noteq> [] \<and> list_all (\<lambda>c. \<not> is_ws c) f) fs \<Longrightarrow> trim (join [32] fs) = join [32] fs"
  using join_ends[of fs] by (intro trim_id) (cases "fs = []", auto)

lemma normalise_join:
  assumes "list_all (\<lambda>f. f \<noteq> [] \<and> list_all (\<lambda>c. \<not> is_ws c) f) fs" "length fs = 6"
  shows "normalise_expr (join [32] fs) = Inr (join [32] fs)"
proof -
  have "join [32] fs \<noteq> []" using join_ends[of fs] assms by (cases fs) auto
  then show ?thesis
    using assms by (simp add: normalise_expr_def Let_def trim_join split_ws_join)
qed

text \<open>Every accepted expression is six fields joined by single spaces.\<close>

lemma normalise_shape:
  assumes "normalise_expr e = Inr n"
  shows "\<exists>fs. n = join [32] fs \<and> length fs = 6
    \<and> list_all (\<lambda>f. f \<noteq> [] \<and> list_all (\<lambda>c. \<not> is_ws c) f) fs
    \<and> (fs = split_ws (trim e) \<or> fs = lit ''0'' # split_ws (trim e))"
proof (cases "length (split_ws (trim e)) = 5")
  case True
  then obtain g gs where g: "split_ws (trim e) = g # gs" by (cases "split_ws (trim e)") auto
  have "n = join [32] (lit ''0'' # split_ws (trim e))"
    using assms True g by (auto simp: normalise_expr_def Let_def lit_def split: if_splits)
  then show ?thesis
    using True split_ws_fields[of "trim e"]
    by (intro exI[of _ "lit ''0'' # split_ws (trim e)"]) (auto simp: lit_def is_ws_def)
next
  case False
  then show ?thesis
    using assms split_ws_fields[of "trim e"]
    by (auto simp: normalise_expr_def Let_def split: if_splits)
qed

section \<open>A concrete zone and schedule\<close>

text \<open>
  A zone whose clock goes back by one hour at instant 3600 (in seconds): local
  times 3600 to 7199 happen twice.  Its schedule fires every half hour, ten
  times.  Both satisfy the contracts of the crates.
\<close>

definition fallback_zone :: Tz where
  "fallback_zone = \<lparr>
     utc_offset = (\<lambda>t. if t < 3600 then 3600 else 0),
     from_local_datetime = (\<lambda>l. if 3600 \<le> l \<and> l < 7200 then LocalAmbiguous (l - 3600) l
       else if l < 3600 then LocalSingle (l - 3600) else LocalSingle l) \<rparr>"

definition half_hours :: CronSpec where
  "half_hours = \<lparr> schedule = (\<lambda>_ t. filter (\<lambda>x. t < x) (map (\<lambda>i. i * 1800) [1..10])),
     tz = fallback_zone, raw = lit ''*/30 * * * *'' \<rparr>"

lemma fallback_zone_ok: "tz_ok fallback_zone"
  by (simp add: tz_ok_def fallback_zone_def naive_local_def)

lemma half_hours_ok: "schedule_ok half_hours"
  by (auto simp: schedule_ok_def half_hours_def upto.simps intro!: filter_cong)

section \<open>Properties\<close>

text \<open>The next fire is the least instant strictly after the cutoff at which
  the schedule fires for the first time at its wall time; there is none exactly
  when no such instant remains.\<close>

theorem next_after_least:
  assumes "schedule_ok spec"
  shows "(\<forall>f. next_after spec t = Some f \<longleftrightarrow>
            f \<in> set (fires_after spec t) \<and> t < f \<and> (\<forall>g\<in>set (fires_after spec t). f \<le> g))
    \<and> (next_after spec t = None \<longleftrightarrow> set (fires_after spec t) = {})"
proof (cases "fires_after spec t")
  case Nil
  then show ?thesis unfolding next_after_alt Nil by simp
next
  case (Cons x ys)
  have "sorted_wrt (<) (x # ys)"
    unfolding Cons[symmetric] by (rule sorted_wrt_filter[OF schedule_sorted[OF assms]])
  moreover have "x \<in> set (fires_after spec t)" unfolding Cons by simp
  then have "t < x" using schedule_gt[OF assms] by simp
  ultimately show ?thesis unfolding next_after_alt Cons by fastforce
qed

lemma next_after_least_witness:
  "next_after half_hours 0 = Some 1800 \<and> next_after half_hours 3600 = Some 7200"
  using next_after_least[OF half_hours_ok, of 0] next_after_least[OF half_hours_ok, of 3600]
  by (simp add: half_hours_def fallback_zone_def is_first_local_occurrence_def naive_local_def
      upto.simps)

text \<open>Take-first: no wall-clock time is fired twice, also across the
  repeated hour of a fall-back; and every previewed fire is the earlier of the
  instants that have its wall time.\<close>

theorem wall_time_fires_once:
  assumes "schedule_ok spec" "tz_ok (tz spec)"
  shows "distinct (map (naive_local (tz spec)) (preview spec t n))
    \<and> (\<forall>f\<in>set (preview spec t n). \<forall>t'. naive_local (tz spec) t' = naive_local (tz spec) f \<longrightarrow> f \<le> t')"
proof
  let ?z = "tz spec"
  have first: "is_first_local_occurrence f ?z" if "f \<in> set (preview spec t n)" for f
    using that by (auto simp: preview_def dest!: in_set_takeD)
  have "distinct (fires_after spec t)"
    using schedule_sorted[OF assms(1), of t] by (simp add: strict_sorted_iff)
  then have "distinct (preview spec t n)" by (simp add: preview_def)
  then show "distinct (map (naive_local ?z) (preview spec t n))"
    by (auto simp: distinct_map intro!: inj_onI first_occurrence_inj[OF assms(2)] first)
  show "\<forall>f\<in>set (preview spec t n). \<forall>t'. naive_local ?z t' = naive_local ?z f \<longrightarrow> f \<le> t'"
    using first_occurrence_least[OF assms(2)] first by blast
qed

lemma wall_time_fires_once_witness:
  "distinct (map (naive_local fallback_zone) (preview half_hours 0 10))"
proof -
  have z: "tz half_hours = fallback_zone" by (simp add: half_hours_def)
  show ?thesis
    using wall_time_fires_once[OF half_hours_ok, unfolded z, OF fallback_zone_ok] by blast
qed

text \<open>The dry-run preview is what repeated rescheduling produces: its list
  is the iteration of next_after from the cutoff.\<close>

theorem preview_iterates_next:
  assumes "schedule_ok spec"
  shows "preview spec t 0 = []
    \<and> preview spec t (Suc n) =
        (case next_after spec t of None \<Rightarrow> [] | Some f \<Rightarrow> f # preview spec f n)"
proof (cases "next_after spec t")
  case None
  then show ?thesis by (simp add: preview_def next_after_alt split: list.splits)
next
  case (Some f)
  show ?thesis unfolding preview_def fires_after_next[OF assms Some] by (simp add: Some)
qed

lemma preview_iterates_next_witness:
  "preview half_hours 0 (Suc 2) =
     (case next_after half_hours 0 of None \<Rightarrow> [] | Some f \<Rightarrow> f # preview half_hours f 2)"
  using preview_iterates_next[OF half_hours_ok] by blast

text \<open>The walk over the missed window is honest: with a positive counting
  cap, the fires returned are the chronologically first ones of (start, end],
  the total is the number of all of them up to the cap, and saturation is
  reported exactly when the cap was reached.\<close>

theorem count_missed_exact:
  assumes "schedule_ok spec" "0 < cap" "tak \<le> cap" "0 < tak"
  shows "count_missed spec s e tak cap =
      \<lparr> earliest = fires_between spec s e tak, total = min cap (length (window spec s e)),
        saturated = (cap \<le> length (window spec s e)) \<rparr>
    \<and> fires_between spec s e tak = take tak (window spec s e)
    \<and> (\<forall>x\<in>set (window spec s e). s < x \<and> x \<le> e)"
  using count_missed_window[OF assms(1-3)] fires_between_window[OF assms(1,4)]
    window_bounds[OF assms(1)]
  by simp

lemma count_missed_exact_witness:
  "count_missed half_hours 0 10000 2 3 = \<lparr> earliest = [1800, 7200], total = 3, saturated = True \<rparr>"
  using count_missed_exact[OF half_hours_ok, of 3 2 0 10000]
  by (simp add: count_missed_def half_hours_def fallback_zone_def is_first_local_occurrence_def
      naive_local_def upto.simps)

text \<open>Normalisation is idempotent and yields exactly six non-empty fields
  joined by single spaces: the user's six, or the user's five behind a zero for
  the seconds.\<close>

theorem normalise_six_fields:
  assumes "normalise_expr e = Inr n"
  shows "normalise_expr n = Inr n \<and> length (split_ws n) = 6
    \<and> (split_ws n = split_ws (trim e) \<or> split_ws n = lit ''0'' # split_ws (trim e))"
proof -
  obtain fs where fs: "n = join [32] fs" "length fs = 6"
    "list_all (\<lambda>f. f \<noteq> [] \<and> list_all (\<lambda>c. \<not> is_ws c) f) fs"
    "fs = split_ws (trim e) \<or> fs = lit ''0'' # split_ws (trim e)"
    using normalise_shape[OF assms] by blast
  have "split_ws n = fs" unfolding fs(1) by (rule split_ws_join[OF fs(3)])
  then show ?thesis using normalise_join[OF fs(3,2)] fs by simp
qed

lemma normalise_six_fields_witness:
  "normalise_expr (lit ''0 */5  * * * *'') = Inr (lit ''0 */5 * * * *'')
   \<and> normalise_expr (lit ''0 */5 * * * *'') = Inr (lit ''0 */5 * * * *'')"
proof -
  have "normalise_expr (lit ''0 */5  * * * *'') = Inr (lit ''0 */5 * * * *'')"
    by (simp add: normalise_expr_def lit_def trim_def trim_start_def trim_end_def is_ws_def
        split_ws_def)
  then show ?thesis using normalise_six_fields by blast
qed

end
