(* ===== verification/Catchup.thy ===== *)
theory Catchup
  imports Cron_Spec
begin

text \<open>
  Model of \<open>la-scheduler/src/catchup.rs\<close>: the policy that turns the fires
  missed while the daemon was down into the fires to execute.  A panic is
  \<open>None\<close>; usize lengths are naturals.
\<close>

section \<open>Data\<close>

definition MAX_CATCHUP :: nat where "MAX_CATCHUP = 100"

datatype CatchupMode = Skip | Coalesce | Replay

record ResolvedFire =
  scheduled_at :: instant
  coalesced_count :: nat

record CatchupTruncated =
  missed :: nat
  executed :: nat
  dropped :: nat
  truncated_saturated :: bool

record CatchupOutcome =
  fires :: "ResolvedFire list"
  truncated :: "CatchupTruncated option"

section \<open>The resolver\<close>

text \<open>The loop of the replay mode: the last fire kept so far and the output.\<close>

fun replay_loop ::
    "int \<Rightarrow> instant option \<Rightarrow> ResolvedFire list \<Rightarrow> instant list \<Rightarrow> ResolvedFire list" where
  "replay_loop min_interval last_kept out [] = out"
| "replay_loop min_interval last_kept out (fire # rest) =
     (let keep = (case last_kept of None \<Rightarrow> True | Some prev \<Rightarrow> fire - prev \<ge> min_interval) in
      if keep
      then replay_loop min_interval (Some fire)
             (out @ [\<lparr> scheduled_at = fire, coalesced_count = 1 \<rparr>]) rest
      else replay_loop min_interval last_kept out rest)"

definition apply_catchup_with_total ::
    "instant list \<Rightarrow> nat \<Rightarrow> bool \<Rightarrow> CatchupMode \<Rightarrow> int \<Rightarrow> (SchedError, CatchupOutcome) outcome" where
  "apply_catchup_with_total earliest_missed total_missed total_saturated mode min_replay_interval =
     (if length earliest_missed > total_missed
      then Some (Inl (Invariant (lit ''earliest_missed.len() exceeded total_missed'')))
      else if total_missed = 0 then Some (Inr \<lparr> fires = [], truncated = None \<rparr>)
      else
        let (effective, trunc) =
          (if total_missed \<ge> MAX_CATCHUP
           then
             let tak = min MAX_CATCHUP (length earliest_missed) in
             (take tak earliest_missed,
              Some \<lparr> missed = total_missed, executed = tak, dropped = total_missed - tak,
                     truncated_saturated = total_saturated \<rparr>)
           else (earliest_missed, None))
        in case mode of
             Skip \<Rightarrow> Some (Inr \<lparr> fires = [], truncated = trunc \<rparr>)
           | Coalesce \<Rightarrow>
               if effective = [] then None
               else Some (Inr \<lparr> fires = [\<lparr> scheduled_at = last effective,
                                          coalesced_count = length effective mod 2 ^ 32 \<rparr>],
                                truncated = trunc \<rparr>)
           | Replay \<Rightarrow>
               Some (Inr \<lparr> fires = replay_loop min_replay_interval None [] effective,
                           truncated = trunc \<rparr>))"

definition apply_catchup ::
    "instant list \<Rightarrow> CatchupMode \<Rightarrow> int \<Rightarrow> (SchedError, CatchupOutcome) outcome" where
  "apply_catchup missed_fires mode min_replay_interval =
     apply_catchup_with_total missed_fires (length missed_fires) False mode min_replay_interval"

section \<open>Lemmas on the replay loop\<close>

abbreviation times :: "ResolvedFire list \<Rightarrow> instant list" where
  "times fs \<equiv> map scheduled_at fs"

text \<open>The throttle without the accumulator: which of the fires are kept.\<close>

fun throttle :: "int \<Rightarrow> instant option \<Rightarrow> instant list \<Rightarrow> instant list" where
  "throttle d lk [] = []"
| "throttle d lk (x # xs) =
     (if (case lk of None \<Rightarrow> True | Some p \<Rightarrow> d \<le> x - p) then x # throttle d (Some x) xs
      else throttle d lk xs)"

lemma replay_loop_throttle:
  "replay_loop d lk out xs = out @ map (\<lambda>x. \<lparr> scheduled_at = x, coalesced_count = 1 \<rparr>) (throttle d lk xs)"
  by (induction d lk out xs rule: replay_loop.induct) (auto simp: Let_def split: option.splits)

lemma throttle_subset: "set (throttle d lk xs) \<subseteq> set xs"
  by (induction d lk xs rule: throttle.induct) auto

lemma throttle_length: "length (throttle d lk xs) \<le> length xs"
  by (induction d lk xs rule: throttle.induct) auto

lemma throttle_zero: "sorted_wrt (<) xs \<Longrightarrow> (case lk of None \<Rightarrow> True | Some p \<Rightarrow> \<forall>x\<in>set xs. p \<le> x)
   \<Longrightarrow> d \<le> 0 \<Longrightarrow> throttle d lk xs = xs"
  by (induction d lk xs rule: throttle.induct) (fastforce split: option.splits)+

lemma throttle_spaced:
  "sorted_wrt (<) xs \<Longrightarrow> 0 \<le> d \<Longrightarrow>
   sorted_wrt (\<lambda>a b. d \<le> b - a) (throttle d lk xs)
   \<and> (case lk of None \<Rightarrow> True | Some p \<Rightarrow> \<forall>x\<in>set (throttle d lk xs). d \<le> x - p)"
proof (induction d lk xs rule: throttle.induct)
  case (2 d lk x xs)
  have gt: "\<forall>y\<in>set (throttle d (Some x) xs). x < y"
    using 2(3) throttle_subset[of d "Some x" xs] by auto
  show ?case using 2 gt by (auto split: option.splits)
qed (simp split: option.split)


lemma throttle_first: "throttle d None (x # xs) = x # throttle d (Some x) xs"
  by simp

text \<open>Every fire left out is too close to one that was kept before it.\<close>

lemma throttle_maximal:
  "x \<in> set xs \<Longrightarrow> x \<notin> set (throttle d lk xs) \<Longrightarrow> sorted_wrt (<) xs \<Longrightarrow>
   \<exists>p. (p \<in> set (throttle d lk xs) \<and> p < x \<or> lk = Some p) \<and> x - p < d"
proof (induction d lk xs rule: throttle.induct)
  case (2 d lk y ys)
  show ?case
  proof (cases "case lk of None \<Rightarrow> True | Some p \<Rightarrow> d \<le> y - p")
    case True
    then show ?thesis using 2 by auto
  next
    case False
    then obtain p where p: "lk = Some p" "y - p < d" by (auto split: option.splits)
    show ?thesis
    proof (cases "x = y")
      case True
      then show ?thesis using p by blast
    next
      case x: False
      then show ?thesis using 2 False by auto
    qed
  qed
qed simp

abbreviation kept_window :: "instant list \<Rightarrow> instant list" where
  "kept_window xs \<equiv> take MAX_CATCHUP xs"

lemma MAX_CATCHUP_pos [simp]: "0 < MAX_CATCHUP"
  by (simp add: MAX_CATCHUP_def)

lemma apply_catchup_result:
  assumes "length xs \<le> tot" "0 < tot"
  shows "apply_catchup_with_total xs tot sat mode d =
    (let trunc = (if tot \<ge> MAX_CATCHUP
        then Some \<lparr> missed = tot, executed = length (kept_window xs),
          dropped = tot - length (kept_window xs), truncated_saturated = sat \<rparr> else None) in
     case mode of
       Skip \<Rightarrow> Some (Inr \<lparr> fires = [], truncated = trunc \<rparr>)
     | Coalesce \<Rightarrow> if xs = [] then None
         else Some (Inr \<lparr> fires = [\<lparr> scheduled_at = last (kept_window xs),
                coalesced_count = length (kept_window xs) \<rparr>], truncated = trunc \<rparr>)
     | Replay \<Rightarrow> Some (Inr \<lparr> fires = map (\<lambda>x. \<lparr> scheduled_at = x, coalesced_count = 1 \<rparr>)
                (throttle d None (kept_window xs)), truncated = trunc \<rparr>))"
proof -
  have eff: "(if tot \<ge> MAX_CATCHUP then take (min MAX_CATCHUP (length xs)) xs else xs) = kept_window xs"
    using assms(1) by (auto simp: min_def)
  have len: "length (kept_window xs) mod 4294967296 = length (kept_window xs)"
    by (simp add: MAX_CATCHUP_def min_def)
  have ne: "kept_window xs = [] \<longleftrightarrow> xs = []" by (simp add: MAX_CATCHUP_def)
  have pair: "(if MAX_CATCHUP \<le> tot
       then let tak = min MAX_CATCHUP (length xs)
            in (take tak xs, Some \<lparr>missed = tot, executed = tak, dropped = tot - tak, truncated_saturated = sat\<rparr>)
       else (xs, None)) =
     (kept_window xs, if tot \<ge> MAX_CATCHUP
        then Some \<lparr> missed = tot, executed = length (kept_window xs),
          dropped = tot - length (kept_window xs), truncated_saturated = sat \<rparr> else None)"
    using eff by (auto simp: Let_def min.commute)
  show ?thesis
    using assms
    by (cases mode) (simp_all add: apply_catchup_with_total_def pair Let_def replay_loop_throttle
        ne len less_imp_neq[OF MAX_CATCHUP_pos, symmetric] del: length_take)
qed

section \<open>Properties\<close>

text \<open>Outside a broken precondition the resolver answers: it returns an
  error exactly when the prefix is longer than the total, panics exactly when
  coalescing a positive total without any fire at hand, and otherwise hands out
  at most MAX_CATCHUP fires, all of them among the first MAX_CATCHUP missed,
  with a truncation report whose three counts add up.\<close>

theorem catchup_outcome:
  "(length xs > tot \<longrightarrow> (\<exists>e. apply_catchup_with_total xs tot sat mode d = Some (Inl e)))
   \<and> (apply_catchup_with_total xs tot sat mode d = None \<longleftrightarrow> mode = Coalesce \<and> xs = [] \<and> 0 < tot)
   \<and> (\<forall>out. apply_catchup_with_total xs tot sat mode d = Some (Inr out) \<longrightarrow>
        length (fires out) \<le> MAX_CATCHUP
        \<and> set (times (fires out)) \<subseteq> set (kept_window xs)
        \<and> (truncated out \<noteq> None \<longleftrightarrow> MAX_CATCHUP \<le> tot)
        \<and> (\<forall>t. truncated out = Some t \<longrightarrow> missed t = tot \<and> executed t + dropped t = tot
             \<and> executed t = length (kept_window xs) \<and> truncated_saturated t = sat))"
proof (cases "length xs > tot \<or> tot = 0")
  case True
  then show ?thesis by (auto simp: apply_catchup_with_total_def MAX_CATCHUP_def)
next
  case False
  then have len: "length xs \<le> tot" and pos: "0 < tot" by auto
  have last: "xs \<noteq> [] \<Longrightarrow> last (kept_window xs) \<in> set (kept_window xs)"
    by (rule last_in_set) (simp add: MAX_CATCHUP_def)
  have thr: "length (throttle d None (kept_window xs)) \<le> MAX_CATCHUP"
    using throttle_length[of d None "kept_window xs"] by simp
  show ?thesis
    unfolding apply_catchup_result[OF len pos]
    using False last thr throttle_subset[of d None "kept_window xs"]
    by (cases mode) (auto simp: Let_def comp_def MAX_CATCHUP_def)
qed

lemma catchup_outcome_witness:
  "apply_catchup_with_total [] 3 True Coalesce 0 = None
   \<and> (\<exists>e. apply_catchup_with_total [1, 2] 1 False Skip 0 = Some (Inl e))"
  using catchup_outcome[of 3 "[]" True Coalesce 0] catchup_outcome[of 1 "[1, 2]" False Skip 0]
  by simp

text \<open>Replay throttling is correct: with missed fires in increasing order the
  emitted ones are a part of them at least the minimum interval apart, the first
  missed fire is among them, and every fire left out is closer than the interval
  to an earlier emitted one.\<close>

theorem replay_throttled:
  assumes "sorted_wrt (<) xs" "xs \<noteq> []" "length xs \<le> tot" "0 \<le> d"
    and "apply_catchup_with_total xs tot sat Replay d = Some (Inr out)"
  shows "sorted_wrt (\<lambda>a b. d \<le> b - a) (times (fires out))
    \<and> times (fires out) \<noteq> [] \<and> hd (times (fires out)) = hd xs
    \<and> (\<forall>x\<in>set (kept_window xs). x \<in> set (times (fires out))
         \<or> (\<exists>p\<in>set (times (fires out)). p < x \<and> x - p < d))"
proof -
  have pos: "0 < tot" using assms(2,3) by (cases xs) auto
  have f: "times (fires out) = throttle d None (kept_window xs)"
    using assms(5) unfolding apply_catchup_result[OF assms(3) pos]
    by (auto simp: Let_def comp_def)
  have srt: "sorted_wrt (<) (kept_window xs)" using assms(1) by (rule sorted_wrt_take)
  obtain y ys where y: "kept_window xs = y # ys" "hd xs = y"
    using assms(2) by (cases xs) (auto simp: MAX_CATCHUP_def take_Cons')
  show ?thesis
    unfolding f using throttle_spaced[OF srt assms(4), of None] throttle_maximal[OF _ _ srt, of _ d None]
    by (auto simp: y)
qed

lemma replay_throttled_witness:
  "sorted_wrt (\<lambda>a b. 10 \<le> b - a) [0, 12::int]"
  using replay_throttled[of "[0, 5, 12]" 3 10 False
      "\<lparr> fires = [\<lparr> scheduled_at = 0, coalesced_count = 1 \<rparr>, \<lparr> scheduled_at = 12, coalesced_count = 1 \<rparr>],
         truncated = None \<rparr>"]
  by (simp add: apply_catchup_with_total_def MAX_CATCHUP_def)

text \<open>Coalescing loses no count: the single fire stands at the last retained
  missed time and its count plus the dropped ones is the backlog whenever the
  caller handed over all retained fires.\<close>

theorem coalesce_counts:
  assumes "xs \<noteq> []" "length xs = min MAX_CATCHUP tot"
    and "apply_catchup_with_total xs tot sat Coalesce d = Some (Inr out)"
  shows "\<exists>f. fires out = [f] \<and> scheduled_at f = last xs
    \<and> coalesced_count f + (case truncated out of None \<Rightarrow> 0 | Some t \<Rightarrow> dropped t) = tot"
proof -
  have len: "length xs \<le> tot" and pos: "0 < tot" using assms(1,2) by (cases xs; auto)+
  have "kept_window xs = xs" using assms(2) by simp
  then show ?thesis
    using assms(3) unfolding apply_catchup_result[OF len pos] using assms(1,2)
    by (auto simp: Let_def min_def split: if_splits)
qed

lemma coalesce_counts_witness:
  "\<exists>f. [\<lparr> scheduled_at = 7, coalesced_count = 2 \<rparr>] = [f] \<and> scheduled_at f = 7
     \<and> coalesced_count f + 0 = 2"
  using coalesce_counts[of "[3, 7]" 2 False 0
      "\<lparr> fires = [\<lparr> scheduled_at = 7, coalesced_count = 2 \<rparr>], truncated = None \<rparr>"]
  by (simp add: apply_catchup_with_total_def MAX_CATCHUP_def)

end
