(* ===== verification/Backoff.thy ===== *)
theory Backoff
  imports Prelude
begin

text \<open>
  Model of \<open>la-scheduler/src/quota/backoff.rs\<close>: the \<open>expo(BASE,FACTOR,CAP)\<close>
  expression of a cron's failure_backoff column, its parser and the delay it
  prescribes after n consecutive failures.  Durations are nanoseconds.
  Slicing a string inside a character panics in Rust; a parse that panics is
  \<open>None\<close>.
\<close>

section \<open>Data\<close>

datatype FailureBackoff = Expo (base_of: nat) (factor_of: nat) (cap_of: nat)

datatype BackoffParseError =
    UnknownForm str
  | WrongArity str
  | BadFactor str
  | BadDuration str

definition nanos_per_sec :: nat where "nanos_per_sec = 1000000000"

definition default_backoff :: FailureBackoff where
  "default_backoff = Expo (60 * nanos_per_sec) 2 (3600 * nanos_per_sec)"

section \<open>The delay\<close>

text \<open>
  The multiplication loop of delay_for.  \<open>None\<close> is its early exit, taken when
  the multiplier has left the range of u64.
\<close>

primrec mul_loop :: "nat \<Rightarrow> nat \<Rightarrow> nat \<Rightarrow> nat option" where
  "mul_loop f 0 mul = Some mul"
| "mul_loop f (Suc k) mul =
     (let mul' = sat_mul u128_max mul (max f 1) in
      if mul' > u64_max then None else mul_loop f k mul')"

definition delay_for :: "FailureBackoff \<Rightarrow> nat \<Rightarrow> nat" where
  "delay_for b n = (case b of Expo base factor cap \<Rightarrow>
     if n = 0 then 0
     else (case mul_loop factor (n - 1) 1 of
         None \<Rightarrow> cap
       | Some mul \<Rightarrow>
           let base_micros = base div 1000;
               scaled = sat_mul u128_max base_micros mul;
               cap_micros = cap div 1000;
               bounded = min scaled cap_micros
           in min bounded u64_max * 1000))"

section \<open>The parser\<close>

definition parse_factor :: "str \<Rightarrow> BackoffParseError + nat" where
  "parse_factor s =
     (let stripped = trim_end_char 120 (trim s) in
      case parse_uint u32_max stripped of
        Some n \<Rightarrow> if n \<ge> 1 then Inr n else Inl (BadFactor s)
      | None \<Rightarrow> Inl (BadFactor s))"

definition parse_duration :: "str \<Rightarrow> (BackoffParseError, nat) outcome" where
  "parse_duration s0 =
     (let s = trim s0 in
      if s = [] then Some (Inl (BadDuration s))
      else if utf8_width (last s) \<noteq> 1 then None
      else
        let num_part = butlast s; unit = last s in
        case (if unit = 115 then Some 1 else if unit = 109 then Some 60
              else if unit = 104 then Some 3600 else None) of
          None \<Rightarrow> Some (Inl (BadDuration s))
        | Some multiplier_secs \<Rightarrow>
            (case parse_uint u64_max num_part of
               None \<Rightarrow> Some (Inl (BadDuration s))
             | Some value \<Rightarrow>
                 Some (Inr (sat_mul u64_max value multiplier_secs * nanos_per_sec))))"

definition parse_backoff :: "str \<Rightarrow> (BackoffParseError, FailureBackoff) outcome" where
  "parse_backoff raw =
     (let trimmed = trim raw in
      case Option.bind (strip_prefix (lit ''expo('') trimmed) (strip_suffix [41]) of
        None \<Rightarrow> Some (Inl (UnknownForm raw))
      | Some inside \<Rightarrow>
          let parts = map trim (split_on 44 inside) in
          if length parts \<noteq> 3 then Some (Inl (WrongArity raw))
          else
            bind_outcome (parse_duration (parts ! 0)) (\<lambda>base.
            bind_outcome (Some (parse_factor (parts ! 1))) (\<lambda>factor.
            let cap_arg = trim (trim_start_matches (lit ''cap='') (parts ! 2)) in
            bind_outcome (parse_duration cap_arg) (\<lambda>cap.
            Some (Inr (Expo base factor cap))))))"

section \<open>Lemmas on the delay\<close>

lemma mul_loop_numeral [simp]:
  "mul_loop f (numeral k) mul =
     (let mul' = sat_mul u128_max mul (max f 1) in
      if mul' > u64_max then None else mul_loop f (pred_numeral k) mul')"
  by (simp add: numeral_eq_Suc)

lemma mul_loop_power:
  assumes "mul \<le> u64_max" "f \<le> u32_max" "1 \<le> f"
  shows "mul_loop f k mul = (if mul * f ^ k \<le> u64_max then Some (mul * f ^ k) else None)"
  using assms(1)
proof (induction k arbitrary: mul)
  case 0
  then show ?case by simp
next
  case (Suc k)
  have g: "max f 1 = f" using assms(3) by simp
  have "mul * f \<le> u64_max * u32_max"
    using Suc.prems assms(2) by (intro mult_le_mono)
  then have ex: "sat_mul u128_max mul f = mul * f"
    by (intro sat_mul_exact) (simp add: widths)
  have "f ^ 1 \<le> f ^ Suc k" using assms(3) by (intro power_increasing) auto
  then have "mul * f \<le> mul * f ^ Suc k" by simp
  then have "\<not> mul * f \<le> u64_max \<Longrightarrow> \<not> mul * (f * f ^ k) \<le> u64_max"
    by (metis le_trans power_Suc)
  then show ?case
    using Suc.IH[of "mul * f"] unfolding mul_loop.simps g ex Let_def
    by (auto simp: mult.assoc)
qed

lemma mul_loop_antimono:
  "mul_loop f k mul = None \<Longrightarrow> mul_loop f (k + j) mul = None"
  by (induction k arbitrary: mul) (auto simp: Let_def split: if_splits)

lemma mul_loop_Some_le:
  "mul_loop f (k + j) mul = Some m' \<Longrightarrow> mul \<le> u64_max \<Longrightarrow>
   \<exists>m. mul_loop f k mul = Some m \<and> m \<le> m'"
proof (induction k arbitrary: mul)
  case 0
  have "mul \<le> m'" using 0
  proof (induction j arbitrary: mul)
    case 0
    then show ?case by simp
  next
    case (Suc j)
    have le: "mul \<le> sat_mul u128_max mul (max f 1)"
      using Suc.prems(2) by (auto simp: sat_mul_def widths)
    show ?case
      using Suc.prems Suc.IH[of "sat_mul u128_max mul (max f 1)"] le
      by (auto simp: Let_def split: if_splits)
  qed
  then show ?case by simp
next
  case (Suc k)
  then show ?case by (auto simp: Let_def split: if_splits)
qed

text \<open>The value returned once the loop has ended with multiplier mul.\<close>

lemma delay_for_Suc:
  "delay_for (Expo base factor cap) (Suc k) =
     (case mul_loop factor k (Suc 0) of
        None \<Rightarrow> cap
      | Some mul \<Rightarrow>
          min (min (sat_mul u128_max (base div 1000) mul) (cap div 1000)) u64_max * 1000)"
  by (simp add: delay_for_def Let_def cong: option.case_cong)

lemma delay_for_0 [simp]: "delay_for b 0 = 0"
  by (cases b) (simp add: delay_for_def)

lemma micros_le: "min (min a (c div 1000)) m * 1000 \<le> (c::nat)"
proof -
  have "min (min a (c div 1000)) m * 1000 \<le> c div 1000 * 1000" by simp
  also have "\<dots> \<le> c" by simp
  finally show ?thesis .
qed

lemma delay_for_le_cap_of: "delay_for b n \<le> cap_of b"
proof (cases n)
  case (Suc k)
  then show ?thesis
    by (cases b) (auto simp: delay_for_Suc micros_le split: option.split)
qed simp

lemma delay_for_add: "delay_for b n \<le> delay_for b (n + j)"
proof (cases n)
  case (Suc k)
  obtain base f c where b: "b = Expo base f c" by (cases b)
  show ?thesis
  proof (cases "mul_loop f (k + j) (Suc 0)")
    case None
    then have "delay_for b (n + j) = c" by (simp add: b Suc delay_for_Suc)
    then show ?thesis using delay_for_le_cap_of[of b n] b by simp
  next
    case (Some m')
    then obtain m where "mul_loop f k (Suc 0) = Some m" "m \<le> m'"
      using mul_loop_Some_le[of f k j "Suc 0" m'] by (auto simp: widths)
    moreover have "min (min (sat_mul u128_max x m) y) z \<le> min (min (sat_mul u128_max x m') y) z"
      if "m \<le> m'" for x y z
      using that sat_mul_mono[of x x m m' u128_max] by (intro min.mono) auto
    ultimately show ?thesis
      using Some by (simp add: b Suc delay_for_Suc)
  qed
qed simp

text \<open>
  A backoff expression as the parser produces it: whole microseconds, a factor
  of at least one, and a cap whose microseconds fit a u64.
\<close>

definition backoff_regular :: "FailureBackoff \<Rightarrow> bool" where
  "backoff_regular b \<longleftrightarrow> 1 \<le> factor_of b \<and> factor_of b \<le> u32_max \<and> 1000 \<le> base_of b
     \<and> 1000 dvd base_of b \<and> 1000 dvd cap_of b \<and> cap_of b div 1000 \<le> u64_max"

lemma delay_for_regular:
  assumes "backoff_regular b"
  shows "delay_for b (Suc k) = min (base_of b * factor_of b ^ k) (cap_of b)"
proof -
  obtain ba f c where b: "b = Expo ba f c" by (cases b)
  from assms obtain bm cm where bm: "ba = 1000 * bm" and cm: "c = 1000 * cm"
    unfolding backoff_regular_def b by (auto elim!: dvdE)
  have f: "1 \<le> f" "f \<le> u32_max" and bm1: "1 \<le> bm" and cmx: "cm \<le> u64_max"
    using assms by (auto simp: backoff_regular_def b bm cm)
  have ml: "mul_loop f k (Suc 0) = (if f ^ k \<le> u64_max then Some (f ^ k) else None)"
    using mul_loop_power[of 1 f k] f by (simp add: widths)
  have min1000: "min (1000 * x) (1000 * y) = 1000 * min x y" for x y :: nat
    by (simp add: min_def)
  show ?thesis
  proof (cases "f ^ k \<le> u64_max")
    case True
    have "min (min (sat_mul u128_max bm (f ^ k)) cm) u64_max = min (bm * f ^ k) cm"
      using cmx by (auto simp: sat_mul_def widths min_def)
    then show ?thesis
      using True by (simp add: b delay_for_Suc ml bm cm mult.assoc min1000)
  next
    case False
    have "cm \<le> 1 * f ^ k" using False cmx by simp
    also have "\<dots> \<le> bm * f ^ k" using bm1 by (intro mult_le_mono) auto
    finally show ?thesis
      using False by (simp add: b delay_for_Suc ml bm cm min_def mult.assoc)
  qed
qed

lemma two_power_64: "64 \<le> k \<Longrightarrow> 2 \<le> f \<Longrightarrow> u64_max < f ^ k"
proof -
  assume k: "64 \<le> k" and f: "2 \<le> (f::nat)"
  have "u64_max < 2 ^ 64" by (simp add: widths)
  also have "\<dots> \<le> 2 ^ k" using k by (intro power_increasing) auto
  also have "\<dots> \<le> f ^ k" using f by (intro power_mono) auto
  finally show ?thesis .
qed

section \<open>Lemmas on the parser\<close>

lemma last_trim_in: "trim s \<noteq> [] \<Longrightarrow> last (trim s) \<in> set s"
  using set_trim last_in_set by blast

lemma parse_duration_None:
  "parse_duration s = None \<Longrightarrow> \<exists>c\<in>set s. 128 \<le> c"
  by (auto simp: parse_duration_def Let_def utf8_width_def
      intro!: bexI[OF _ last_trim_in] split: if_splits option.splits)

lemma set_split_on: "x \<in> set (split_on c s) \<Longrightarrow> set x \<subseteq> set s"
proof (induction s arbitrary: x)
  case (Cons a s)
  then show ?case
    by (cases "split_on c s") (fastforce split: if_splits)+
qed simp

lemma set_trim_start_matches: "set (trim_start_matches p s) \<subseteq> set s"
proof (induction p s rule: trim_start_matches.induct)
  case (1 p s)
  show ?case
  proof (cases "p = [] \<or> strip_prefix p s = None")
    case True
    then show ?thesis by (auto simp: trim_start_matches.simps[of p s] split: list.split)
  next
    case False
    then obtain r where r: "strip_prefix p s = Some r" and p: "p \<noteq> []" by blast
    then have "trim_start_matches p s = trim_start_matches p r"
      by (subst trim_start_matches.simps) (cases p, auto)
    moreover have "set (trim_start_matches p r) \<subseteq> set r"
      using "1.IH" r p by (cases p) auto
    ultimately show ?thesis using r by (auto simp: strip_prefix_Some_iff)
  qed
qed

lemma trim_start_matches_no_prefix [simp]:
  "strip_prefix p s = None \<Longrightarrow> trim_start_matches p s = s"
  by (subst trim_start_matches.simps) (cases p, auto)

lemma parse_factor_range:
  "parse_factor s = Inr n \<Longrightarrow> 1 \<le> n \<and> n \<le> u32_max"
  by (auto simp: parse_factor_def Let_def split: option.splits if_splits dest: parse_uint_le)

lemma trim_show_nat [simp]: "trim (show_nat n) = show_nat n"
  by (rule trim_no_ws) (simp add: show_nat_not_ws)

lemma trim_end_char_id: "c \<notin> set s \<Longrightarrow> trim_end_char c s = s"
  by (cases s rule: rev_cases) (auto simp: trim_end_char_def)

lemma show_nat_notin: "\<not> is_digit c \<Longrightarrow> c \<notin> set (show_nat n)"
  using show_nat_in_digit by blast

lemma parse_factor_show:
  "1 \<le> n \<Longrightarrow> n \<le> u32_max \<Longrightarrow> parse_factor (show_nat n) = Inr n"
  by (simp add: parse_factor_def trim_end_char_id show_nat_notin is_digit_def)

text \<open>A duration literal in seconds, and the expression printed from whole seconds.\<close>

definition show_secs :: "nat \<Rightarrow> str" where
  "show_secs n = show_nat n @ [115]"

definition show_expo :: "nat \<Rightarrow> nat \<Rightarrow> nat \<Rightarrow> str" where
  "show_expo b f c =
     lit ''expo('' @ show_secs b @ [44] @ show_nat f @ [44] @ show_secs c @ [41]"

lemma trim_show_secs [simp]: "trim (show_secs n) = show_secs n"
  by (rule trim_no_ws) (auto simp: show_secs_def show_nat_not_ws is_ws_def[of 115])

lemma show_secs_notin: "\<not> is_digit c \<Longrightarrow> c \<noteq> 115 \<Longrightarrow> c \<notin> set (show_secs n)"
  by (auto simp: show_secs_def show_nat_notin)

lemma parse_duration_show_secs:
  "n \<le> u64_max \<Longrightarrow> parse_duration (show_secs n) = Some (Inr (n * nanos_per_sec))"
  unfolding parse_duration_def Let_def trim_show_secs
  by (simp add: show_secs_def utf8_width_def)

lemma trim_start_matches_show_secs:
  "trim_start_matches (lit ''cap='') (show_secs n) = show_secs n"
proof (rule trim_start_matches_no_prefix)
  obtain d ds where d: "show_nat n = d # ds" by (cases "show_nat n") auto
  then have "is_digit d" using show_nat_in_digit[of d n] by simp
  then show "strip_prefix (lit ''cap='') (show_secs n) = None"
    by (auto simp: show_secs_def d lit_def is_digit_def)
qed

lemma split_on_show:
  "split_on 44 (show_secs b @ 44 # show_nat f @ 44 # show_secs c)
     = [show_secs b, show_nat f, show_secs c]"
  by (simp add: split_on_append split_on_no_sep show_secs_notin show_nat_notin is_digit_def)

lemma trim_show_expo: "trim (show_expo b f c) = show_expo b f c"
  by (rule trim_id) (simp add: show_expo_def lit_def is_ws_def)


text \<open>Where a panic or a value of the parser comes from.\<close>

lemma parse_backoff_parts:
  assumes "Option.bind (strip_prefix (lit ''expo('') (trim raw)) (strip_suffix [41]) = Some inside"
    and "p \<in> set (map trim (split_on 44 inside))"
  shows "set p \<subseteq> set raw"
proof -
  have "set inside \<subseteq> set (trim raw)"
    using assms(1) by (auto simp: bind_eq_Some_conv strip_prefix_Some_iff strip_suffix_Some_iff)
  moreover obtain q where "q \<in> set (split_on 44 inside)" "p = trim q" using assms(2) by auto
  ultimately show ?thesis
    using set_split_on[of q 44 inside] set_trim[of q] set_trim[of raw] by blast
qed

lemma parse_backoff_None:
  assumes "parse_backoff raw = None"
  shows "\<exists>s. set s \<subseteq> set raw \<and> parse_duration s = None"
proof (cases "Option.bind (strip_prefix (lit ''expo('') (trim raw)) (strip_suffix [41])")
  case None
  then show ?thesis using assms by (simp add: parse_backoff_def Let_def)
next
  case (Some inside)
  define parts where "parts = map trim (split_on 44 inside)"
  have len: "length parts = 3"
    using assms Some by (simp add: parse_backoff_def Let_def parts_def split: if_splits)
  have pan: "parse_duration (parts ! 0) = None
      \<or> parse_duration (trim (trim_start_matches (lit ''cap='') (parts ! 2))) = None"
    using assms Some len
    by (simp add: parse_backoff_def Let_def parts_def[symmetric] bind_outcome_None_iff)
      (auto simp: bind_outcome_None_iff)
  have sub: "i < 3 \<Longrightarrow> set (parts ! i) \<subseteq> set raw" for i
    using parse_backoff_parts[OF Some, of "parts ! i"] len nth_mem[of i parts]
    by (simp add: parts_def[symmetric])
  have sub2: "set (trim (trim_start_matches (lit ''cap='') (parts ! 2))) \<subseteq> set raw"
    using sub[of 2] set_trim[of "trim_start_matches (lit ''cap='') (parts ! 2)"]
      set_trim_start_matches[of "lit ''cap=''" "parts ! 2"] by auto
  show ?thesis using pan sub[of 0] sub2 by auto
qed

lemma parse_backoff_factor:
  "parse_backoff raw = Some (Inr b) \<Longrightarrow> 1 \<le> factor_of b \<and> factor_of b \<le> u32_max"
  by (auto simp: parse_backoff_def Let_def bind_outcome_Inr_iff dest: parse_factor_range
      split: option.splits if_splits simp del: lit_eq_iff)

section \<open>Properties\<close>

text \<open>The delay never exceeds the configured cap, whatever the
  expression and the number of failures.\<close>

theorem delay_bounded_by_cap: "delay_for b n \<le> cap_of b"
  by (rule delay_for_le_cap_of)

text \<open>One more failure never shortens the delay, also across the early
  exit of the multiplication loop and its saturating products.\<close>

theorem delay_monotone:
  assumes "n \<le> m"
  shows "delay_for b n \<le> delay_for b m"
  using delay_for_add[of b n "m - n"] assms by simp

lemma delay_monotone_witness:
  "delay_for default_backoff 2 \<le> delay_for default_backoff 70"
  by (rule delay_monotone) simp

text \<open>For a regular expression (whole microseconds, factor at least one,
  cap in range) the fixed-width loop computes exactly the documented formula
  min (BASE * FACTOR^(n-1)) CAP for every n \<ge> 1.\<close>

theorem delay_closed_form:
  assumes "backoff_regular b" "1 \<le> n"
  shows "delay_for b n = min (base_of b * factor_of b ^ (n - 1)) (cap_of b)"
  using delay_for_regular[OF assms(1), of "n - 1"] assms(2) by simp

lemma delay_closed_form_witness:
  "delay_for default_backoff 3 = min (60000000000 * 2 ^ 2) 3600000000000"
  using delay_closed_form[of default_backoff 3]
  by (simp add: backoff_regular_def default_backoff_def nanos_per_sec_def widths)

text \<open>Backoff converges: with a factor of at least two the cap is reached
  after 65 consecutive failures and kept from then on.\<close>

theorem delay_reaches_cap:
  assumes "backoff_regular b" "2 \<le> factor_of b" "65 \<le> n"
  shows "delay_for b n = cap_of b"
proof -
  have pow: "u64_max < factor_of b ^ (n - 1)"
    using assms by (intro two_power_64) auto
  have "cap_of b = cap_of b div 1000 * 1000"
    using assms(1) by (simp add: backoff_regular_def)
  also have "\<dots> \<le> u64_max * base_of b"
    using assms(1) by (intro mult_le_mono) (auto simp: backoff_regular_def)
  also have "\<dots> \<le> factor_of b ^ (n - 1) * base_of b"
    using pow by simp
  finally show ?thesis
    using delay_for_regular[OF assms(1), of "n - 1"] assms(3)
    by (simp add: mult.commute)
qed

lemma delay_reaches_cap_witness: "delay_for default_backoff 65 = 3600000000000"
  using delay_reaches_cap[of default_backoff 65]
  by (simp add: backoff_regular_def default_backoff_def nanos_per_sec_def widths)

text \<open>A printed expression is read back: the parser recovers base, factor
  and cap of every expression written in whole seconds.\<close>

theorem parse_show_expo:
  assumes "b \<le> u64_max" "1 \<le> f" "f \<le> u32_max" "c \<le> u64_max"
  shows "parse_backoff (show_expo b f c)
    = Some (Inr (Expo (b * nanos_per_sec) f (c * nanos_per_sec)))"
proof -
  have inner: "Option.bind (strip_prefix (lit ''expo('') (show_expo b f c)) (strip_suffix [41])
      = Some (show_secs b @ 44 # show_nat f @ 44 # show_secs c)"
    using strip_suffix_append[of "[41]" "show_secs b @ 44 # show_nat f @ 44 # show_secs c"]
    by (simp add: show_expo_def)
  show ?thesis
    unfolding parse_backoff_def Let_def trim_show_expo inner
    using assms
    by (simp add: split_on_show parse_duration_show_secs parse_factor_show
        trim_start_matches_show_secs)
qed

lemma parse_show_expo_witness:
  "parse_backoff (show_expo 60 2 3600) = Some (Inr default_backoff)"
  using parse_show_expo[of 60 2 3600] by (simp add: widths default_backoff_def)

text \<open>The parser is total on ASCII input: every such string gives a
  value or an error, never a panic, and the factor of a parsed expression is
  between 1 and the u32 maximum.\<close>

theorem parse_ascii_no_panic:
  assumes "\<forall>c\<in>set raw. c < 128"
  shows "\<exists>r. parse_backoff raw = Some r
    \<and> (\<forall>b. r = Inr b \<longrightarrow> 1 \<le> factor_of b \<and> factor_of b \<le> u32_max)"
proof (cases "parse_backoff raw")
  case None
  then show ?thesis
    using parse_backoff_None[OF None] parse_duration_None assms
    by (meson linorder_not_less subsetD)
next
  case (Some r)
  then show ?thesis using parse_backoff_factor by blast
qed

lemma parse_ascii_no_panic_witness:
  "\<exists>r. parse_backoff (lit ''expo(1m, 2x, cap=1h)'') = Some r
    \<and> (\<forall>b. r = Inr b \<longrightarrow> 1 \<le> factor_of b \<and> factor_of b \<le> u32_max)"
  by (rule parse_ascii_no_panic) (simp add: lit_def)

text \<open>A multi-byte last character of a duration makes the parser slice
  inside a character: for an expo expression whose base ends in one it panics,
  whatever factor and cap are.\<close>

theorem parse_multibyte_unit_panics:
  assumes "128 \<le> u" "\<not> is_ws u"
  shows "parse_backoff (lit ''expo('' @ show_nat n @ [u, 44] @ show_nat f @ [44] @ show_secs c @ [41]) = None"
proof -
  let ?s = "show_nat n @ [u]"
  have tr: "trim ?s = ?s"
    by (rule trim_no_ws) (auto simp: show_nat_not_ws assms)
  have nin: "44 \<notin> set ?s" using assms by (auto simp: show_nat_notin is_digit_def)
  have pd: "parse_duration ?s = None"
    unfolding parse_duration_def Let_def tr using assms by (simp add: utf8_width_def)
  have raw: "trim (lit ''expo('' @ ?s @ 44 # show_nat f @ 44 # show_secs c @ [41])
      = lit ''expo('' @ ?s @ 44 # show_nat f @ 44 # show_secs c @ [41]"
    by (rule trim_id) (simp add: lit_def is_ws_def)
  have sp: "split_on 44 (?s @ 44 # show_nat f @ 44 # show_secs c)
      = [?s, show_nat f, show_secs c]"
    using split_on_append[OF nin, of "show_nat f @ 44 # show_secs c"]
      split_on_append[of 44 "show_nat f" "show_secs c"]
    by (simp add: split_on_no_sep show_secs_notin show_nat_notin is_digit_def)
  have inner: "Option.bind (strip_prefix (lit ''expo('') (lit ''expo('' @ ?s @ 44 # show_nat f @ 44 # show_secs c @ [41]))
       (strip_suffix [41]) = Some (?s @ 44 # show_nat f @ 44 # show_secs c)"
    using strip_suffix_append[of "[41]" "?s @ 44 # show_nat f @ 44 # show_secs c"] by simp
  have "parse_backoff (lit ''expo('' @ ?s @ 44 # show_nat f @ 44 # show_secs c @ [41]) = None"
    unfolding parse_backoff_def Let_def raw inner
    by (simp only: option.case sp) (simp add: tr pd)
  then show ?thesis by simp
qed

lemma parse_multibyte_unit_panics_witness:
  "parse_backoff (lit ''expo('' @ show_nat 1 @ [233, 44] @ show_nat 2 @ [44] @ show_secs 60 @ [41]) = None"
  by (rule parse_multibyte_unit_panics) (simp_all add: is_ws_def)

end
