(* ===== verification/Quota.thy ===== *)
theory Quota
  imports Backoff
begin

text \<open>
  Model of \<open>la-scheduler/src/quota/mod.rs\<close> and \<open>loadavg.rs\<close>: the pure admission
  gate every fire passes before a run is spawned.  Counters are u32 (only
  compared here, never incremented); costs and loads are f64.
\<close>

section \<open>Data\<close>

record CronQuota =
  max_concurrent_runs :: nat
  max_runs_per_day :: nat
  max_runtime_s :: nat
  cost_budget_usd_per_day :: "f64 option"
  pause_on_consecutive_failures :: nat
  consecutive_failures :: nat
  failure_backoff :: "FailureBackoff option"
  enabled :: bool

definition default_quota :: CronQuota where
  "default_quota = \<lparr> max_concurrent_runs = 1, max_runs_per_day = 24, max_runtime_s = 1800,
     cost_budget_usd_per_day = None, pause_on_consecutive_failures = 5,
     consecutive_failures = 0, failure_backoff = Some default_backoff, enabled = True \<rparr>"

record GlobalQuota =
  global_max_concurrent_runs :: nat
  cpu_load_throttle :: "f64 option"

definition default_global :: GlobalQuota where
  "default_global = \<lparr> global_max_concurrent_runs = 8, cpu_load_throttle = Some (Fin 4) \<rparr>"

record QuotaSnapshot =
  running_for_cron :: nat
  running_global :: nat
  window_runs_today :: nat
  window_cost_today :: f64
  current_loadavg_1m :: "f64 option"
  now_at :: instant
  last_terminal_failure_at :: "instant option"

datatype AdmissionDecision =
    Admit
  | RefusePaused
  | RefuseConcurrentPerCron (limit: nat) (in_flight: nat)
  | RefuseConcurrentGlobal (limit: nat) (in_flight: nat)
  | RefuseRunsPerDay (limit: nat) (used: nat)
  | RefuseBudgetExceeded f64 f64
  | RefuseDeferLoadavg f64 f64
  | RefuseDeferBackoff (retry_after: instant) (after_failures: nat)

fun is_refusal :: "AdmissionDecision \<Rightarrow> bool" where
  "is_refusal Admit = False"
| "is_refusal _ = True"

fun is_deferral :: "AdmissionDecision \<Rightarrow> bool" where
  "is_deferral (RefuseDeferLoadavg _ _) = True"
| "is_deferral (RefuseDeferBackoff _ _) = True"
| "is_deferral _ = False"

fun error_kind :: "AdmissionDecision \<Rightarrow> str option" where
  "error_kind Admit = None"
| "error_kind RefusePaused = Some (lit ''quota_paused'')"
| "error_kind (RefuseConcurrentPerCron _ _) = Some (lit ''quota_max_concurrent_runs'')"
| "error_kind (RefuseConcurrentGlobal _ _) = Some (lit ''quota_global_max_concurrent_runs'')"
| "error_kind (RefuseRunsPerDay _ _) = Some (lit ''quota_max_runs_per_day'')"
| "error_kind (RefuseBudgetExceeded _ _) = Some (lit ''quota_cost_budget_exceeded'')"
| "error_kind (RefuseDeferLoadavg _ _) = Some (lit ''quota_cpu_load_throttle'')"
| "error_kind (RefuseDeferBackoff _ _) = Some (lit ''quota_failure_backoff'')"

fun rejected_status :: "AdmissionDecision \<Rightarrow> str option" where
  "rejected_status Admit = None"
| "rejected_status (RefuseBudgetExceeded _ _) = Some (lit ''budget_exceeded'')"
| "rejected_status _ = Some (lit ''cancelled'')"

section \<open>The gate\<close>

definition backoff_retry_after ::
    "chrono_ops \<Rightarrow> CronQuota \<Rightarrow> QuotaSnapshot \<Rightarrow> instant option" where
  "backoff_retry_after ch q s =
     (case failure_backoff q of
        None \<Rightarrow> None
      | Some backoff \<Rightarrow>
          (case last_terminal_failure_at s of
             None \<Rightarrow> None
           | Some last_failure \<Rightarrow>
               if consecutive_failures q = 0 then None
               else
                 let delay = delay_for backoff (consecutive_failures q) in
                 if delay = 0 then None
                 else Option.bind (from_std ch delay) (checked_add ch last_failure)))"

definition evaluate_admission ::
    "chrono_ops \<Rightarrow> CronQuota \<Rightarrow> GlobalQuota \<Rightarrow> QuotaSnapshot \<Rightarrow> AdmissionDecision" where
  "evaluate_admission ch q g s =
     (if \<not> enabled q then RefusePaused
      else if (case backoff_retry_after ch q s of Some r \<Rightarrow> r > now_at s | None \<Rightarrow> False)
        then RefuseDeferBackoff (the (backoff_retry_after ch q s)) (consecutive_failures q)
      else if global_max_concurrent_runs g > 0 \<and> running_global s \<ge> global_max_concurrent_runs g
        then RefuseConcurrentGlobal (global_max_concurrent_runs g) (running_global s)
      else if (case (cpu_load_throttle g, current_loadavg_1m s) of
                 (Some threshold, Some sampled) \<Rightarrow> f64_lt threshold sampled | _ \<Rightarrow> False)
        then RefuseDeferLoadavg (the (cpu_load_throttle g)) (the (current_loadavg_1m s))
      else if running_for_cron s \<ge> max_concurrent_runs q
        then RefuseConcurrentPerCron (max_concurrent_runs q) (running_for_cron s)
      else if window_runs_today s \<ge> max_runs_per_day q
        then RefuseRunsPerDay (max_runs_per_day q) (window_runs_today s)
      else if (case cost_budget_usd_per_day q of
                 Some limit_usd \<Rightarrow> f64_le (Fin 0) limit_usd \<and> f64_le limit_usd (window_cost_today s)
               | None \<Rightarrow> False)
        then RefuseBudgetExceeded (the (cost_budget_usd_per_day q)) (window_cost_today s)
      else Admit)"

definition max_runtime :: "CronQuota \<Rightarrow> nat option" where
  "max_runtime q =
     (if max_runtime_s q = 0 then None else Some (max_runtime_s q * nanos_per_sec))"

definition should_auto_pause :: "nat \<Rightarrow> nat \<Rightarrow> bool" where
  "should_auto_pause threshold failures \<longleftrightarrow> threshold > 0 \<and> failures \<ge> threshold"

text \<open>
  The sampler keeps the first of getloadavg's samples when the call filled in
  at least one and it is a finite non-negative number.
\<close>

definition sample_loadavg_1m :: "int \<Rightarrow> f64 \<Rightarrow> f64 option" where
  "sample_loadavg_1m n load =
     (if n \<ge> 1 \<and> f64_finite load \<and> f64_le (Fin 0) load then Some load else None)"

section \<open>The gate as an ordered list of rails\<close>

text \<open>
  The specification: every rail, in the order of the documentation, with the
  condition under which it refuses; the gate answers with the first that does.
\<close>

type_synonym rail = "bool \<times> AdmissionDecision"

definition rails :: "chrono_ops \<Rightarrow> CronQuota \<Rightarrow> GlobalQuota \<Rightarrow> QuotaSnapshot \<Rightarrow> rail list" where
  "rails ch q g s =
     [(\<not> enabled q, RefusePaused)]
     @ (case backoff_retry_after ch q s of
          Some r \<Rightarrow> [(now_at s < r, RefuseDeferBackoff r (consecutive_failures q))] | None \<Rightarrow> [])
     @ [(0 < global_max_concurrent_runs g \<and> global_max_concurrent_runs g \<le> running_global s,
         RefuseConcurrentGlobal (global_max_concurrent_runs g) (running_global s))]
     @ (case cpu_load_throttle g of None \<Rightarrow> []
        | Some th \<Rightarrow> (case current_loadavg_1m s of None \<Rightarrow> []
                     | Some l \<Rightarrow> [(f64_lt th l, RefuseDeferLoadavg th l)]))
     @ [(max_concurrent_runs q \<le> running_for_cron s,
         RefuseConcurrentPerCron (max_concurrent_runs q) (running_for_cron s)),
        (max_runs_per_day q \<le> window_runs_today s,
         RefuseRunsPerDay (max_runs_per_day q) (window_runs_today s))]
     @ (case cost_budget_usd_per_day q of None \<Rightarrow> []
        | Some l \<Rightarrow> [(f64_le (Fin 0) l \<and> f64_le l (window_cost_today s),
                     RefuseBudgetExceeded l (window_cost_today s))])"

fun first_refusal :: "rail list \<Rightarrow> AdmissionDecision" where
  "first_refusal [] = Admit"
| "first_refusal ((c, d) # rs) = (if c then d else first_refusal rs)"

lemma refusal_tagged:
  "is_refusal d \<longleftrightarrow> (\<exists>k. error_kind d = Some (lit ''quota_'' @ k))"
  "is_refusal d \<longleftrightarrow> rejected_status d \<noteq> None"
  by (cases d; simp add: lit_def)+

text \<open>More load and later failures never help: the order on snapshots.\<close>

definition opt_le :: "f64 option \<Rightarrow> f64 option \<Rightarrow> bool" where
  "opt_le a b \<longleftrightarrow> (case (a, b) of (Some x, Some y) \<Rightarrow> f64_le x y | (None, _) \<Rightarrow> True | _ \<Rightarrow> False)"

definition lighter :: "QuotaSnapshot \<Rightarrow> QuotaSnapshot \<Rightarrow> bool" where
  "lighter s s' \<longleftrightarrow> running_for_cron s \<le> running_for_cron s' \<and> running_global s \<le> running_global s'
     \<and> window_runs_today s \<le> window_runs_today s'
     \<and> f64_le (window_cost_today s) (window_cost_today s')
     \<and> opt_le (current_loadavg_1m s) (current_loadavg_1m s')
     \<and> now_at s' \<le> now_at s
     \<and> last_terminal_failure_at s = last_terminal_failure_at s'"

lemma backoff_retry_after_cong:
  "last_terminal_failure_at s = last_terminal_failure_at s' \<Longrightarrow>
   backoff_retry_after ch q s = backoff_retry_after ch q s'"
  by (simp add: backoff_retry_after_def cong: option.case_cong)

lemma backoff_retry_after_exact:
  assumes "chrono_ok ch" "backoff_retry_after ch q s = Some r"
  shows "\<exists>b t. failure_backoff q = Some b \<and> last_terminal_failure_at s = Some t
    \<and> 0 < consecutive_failures q \<and> 0 < delay_for b (consecutive_failures q)
    \<and> r = t + int (delay_for b (consecutive_failures q))"
  using assms(2)
  by (auto simp: backoff_retry_after_def Let_def bind_eq_Some_conv
      split: option.splits if_splits dest!: checked_addD[OF assms(1)] from_stdD[OF assms(1)])

section \<open>Properties\<close>

text \<open>The gate returns the reason of the first rail, in the documented
  priority order, whose condition holds, and admits when none does.\<close>

theorem admission_priority_order:
  "evaluate_admission ch q g s = first_refusal (rails ch q g s)"
  unfolding evaluate_admission_def rails_def
  by (cases "backoff_retry_after ch q s"; cases "cpu_load_throttle g";
      cases "current_loadavg_1m s"; cases "cost_budget_usd_per_day q") simp_all

text \<open>A fire is admitted exactly when the cron is enabled, its backoff
  window has passed, and every limit that is configured has room left.\<close>

theorem admit_iff:
  "evaluate_admission ch q g s = Admit \<longleftrightarrow>
     enabled q
     \<and> (case backoff_retry_after ch q s of Some r \<Rightarrow> r \<le> now_at s | None \<Rightarrow> True)
     \<and> (global_max_concurrent_runs g = 0 \<or> running_global s < global_max_concurrent_runs g)
     \<and> (case cpu_load_throttle g of None \<Rightarrow> True
         | Some th \<Rightarrow> (case current_loadavg_1m s of None \<Rightarrow> True | Some l \<Rightarrow> \<not> f64_lt th l))
     \<and> running_for_cron s < max_concurrent_runs q
     \<and> window_runs_today s < max_runs_per_day q
     \<and> (case cost_budget_usd_per_day q of None \<Rightarrow> True
         | Some l \<Rightarrow> \<not> (f64_le (Fin 0) l \<and> f64_le l (window_cost_today s)))"
  unfolding evaluate_admission_def
  by (auto simp: not_le not_less split: option.splits)

text \<open>Admission is monotone: when the gate admits a snapshot, it admits
  every lighter one (fewer runs, less cost, less load, a later clock).\<close>

theorem admit_lighter:
  assumes "evaluate_admission ch q g s' = Admit" "lighter s s'"
  shows "evaluate_admission ch q g s = Admit"
proof -
  have br: "backoff_retry_after ch q s = backoff_retry_after ch q s'"
    using assms(2) by (intro backoff_retry_after_cong) (simp add: lighter_def)
  show ?thesis
    using assms unfolding admit_iff br lighter_def opt_le_def
    by (auto split: option.splits intro: f64_lt_le_trans f64_le_trans order_trans)
qed

lemma admit_lighter_witness:
  "evaluate_admission chrono_std default_quota default_global
     \<lparr> running_for_cron = 0, running_global = 0, window_runs_today = 0, window_cost_today = Fin 0,
       current_loadavg_1m = Some (Fin 1), now_at = 5, last_terminal_failure_at = None \<rparr> = Admit"
  by (rule admit_lighter[where s' = "\<lparr> running_for_cron = 0, running_global = 7, window_runs_today = 23,
       window_cost_today = Fin 3, current_loadavg_1m = Some (Fin 4), now_at = 0,
       last_terminal_failure_at = None \<rparr>"])
    (simp_all add: evaluate_admission_def default_quota_def default_global_def
      backoff_retry_after_def lighter_def opt_le_def)

text \<open>A backoff refusal is justified and temporary: it is issued only with
  failures on record, names an instant in the future that is the last failure
  plus the computed delay (hence at most the cap after it), and the rail never
  refuses at or after that instant.\<close>

theorem backoff_refusal_sound:
  assumes "chrono_ok ch" "evaluate_admission ch q g s = RefuseDeferBackoff r n"
  shows "0 < n \<and> now_at s < r
    \<and> (\<exists>b t. failure_backoff q = Some b \<and> last_terminal_failure_at s = Some t
         \<and> r = t + int (delay_for b n) \<and> r \<le> t + int (cap_of b))
    \<and> (\<forall>t' r' n'. r \<le> t' \<longrightarrow>
         evaluate_admission ch q g (s\<lparr>now_at := t'\<rparr>) \<noteq> RefuseDeferBackoff r' n')"
proof (intro conjI allI impI)
  have rn: "backoff_retry_after ch q s = Some r" "now_at s < r" "n = consecutive_failures q"
    using assms(2) by (auto simp: evaluate_admission_def split: if_splits option.splits)
  from backoff_retry_after_exact[OF assms(1) rn(1)] rn(3) delay_for_le_cap_of
  show "0 < n" "\<exists>b t. failure_backoff q = Some b \<and> last_terminal_failure_at s = Some t
       \<and> r = t + int (delay_for b n) \<and> r \<le> t + int (cap_of b)" by auto
  show "now_at s < r" by (rule rn(2))
  fix t' r' n'
  have "backoff_retry_after ch q (s\<lparr>now_at := t'\<rparr>) = Some r"
    using rn(1) backoff_retry_after_cong[of "s\<lparr>now_at := t'\<rparr>" s ch q] by simp
  then show "r \<le> t' \<Longrightarrow> evaluate_admission ch q g (s\<lparr>now_at := t'\<rparr>) \<noteq> RefuseDeferBackoff r' n'"
    by (auto simp: evaluate_admission_def)
qed

lemma backoff_refusal_sound_witness:
  "(0::nat) < 2 \<and> (7::int) < 120000000000"
  using backoff_refusal_sound[OF chrono_std_ok, of "default_quota\<lparr>consecutive_failures := 2\<rparr>"
      default_global "\<lparr> running_for_cron = 0, running_global = 0, window_runs_today = 0,
        window_cost_today = Fin 0, current_loadavg_1m = None, now_at = 7,
        last_terminal_failure_at = Some 0 \<rparr>" 120000000000 2]
  by (simp add: evaluate_admission_def default_quota_def backoff_retry_after_def
      default_backoff_def delay_for_def nanos_per_sec_def sat_mul_def widths chrono_std_def)

end
