(* ===== verification/Heap_Table.thy ===== *)
theory Heap_Table
  imports Catchup Quota "HOL-Library.List_Lexorder"
begin

text \<open>
  Model of \<open>la-scheduler/src/heap.rs\<close>: the entry table (a hash map from cron
  ids to entries) beside a min-heap of (fire time, id, version) nodes with lazy
  deletion.  The standard library's BinaryHeap of reversed nodes is a sorted
  list; its contract is the locale \<open>min_heap\<close>.  Versions are u64 counters that
  only grow by one per operation; they are naturals here.
\<close>

section \<open>Data\<close>

type_synonym CronId = str

record BackoffState =
  bs_backoff :: "FailureBackoff option"
  bs_last_failure_at :: "instant option"
  bs_consecutive_failures :: nat

definition no_backoff :: BackoffState where
  "no_backoff = \<lparr> bs_backoff = None, bs_last_failure_at = None, bs_consecutive_failures = 0 \<rparr>"

record Entry =
  e_id :: CronId
  e_spec :: CronSpec
  e_catchup_mode :: CatchupMode
  e_min_replay_interval :: int
  e_last_fired_at :: "instant option"
  e_next_fire_at :: "instant option"
  e_backoff :: BackoffState
  e_version :: nat

datatype HeapEntry = HeapEntry (fire_at: instant) (he_id: CronId) (he_version: nat)

definition retry_after_state :: "chrono_ops \<Rightarrow> BackoffState \<Rightarrow> instant option" where
  "retry_after_state ch b =
     (case bs_backoff b of
        None \<Rightarrow> None
      | Some backoff \<Rightarrow>
          (case bs_last_failure_at b of
             None \<Rightarrow> None
           | Some lastf \<Rightarrow>
               if bs_consecutive_failures b = 0 then None
               else
                 let delay = delay_for backoff (bs_consecutive_failures b) in
                 if delay = 0 then None
                 else Option.bind (from_std ch delay) (checked_add ch lastf)))"

definition next_eligible_fire ::
    "chrono_ops \<Rightarrow> CronSpec \<Rightarrow> instant \<Rightarrow> BackoffState \<Rightarrow> instant option" where
  "next_eligible_fire ch spec now backoff =
     (case next_after spec now of
        None \<Rightarrow> None
      | Some natural \<Rightarrow>
          (case retry_after_state ch backoff of
             Some retry \<Rightarrow> if retry > natural then Some retry else Some natural
           | None \<Rightarrow> Some natural))"

section \<open>The order of heap nodes\<close>

instantiation HeapEntry :: linorder
begin

definition less_eq_HeapEntry :: "HeapEntry \<Rightarrow> HeapEntry \<Rightarrow> bool" where
  "less_eq_HeapEntry a b \<longleftrightarrow>
     fire_at a < fire_at b
     \<or> fire_at a = fire_at b \<and> (he_id a < he_id b
     \<or> he_id a = he_id b \<and> he_version a \<le> he_version b)"

definition less_HeapEntry :: "HeapEntry \<Rightarrow> HeapEntry \<Rightarrow> bool" where
  "less_HeapEntry a b \<longleftrightarrow>
     fire_at a < fire_at b
     \<or> fire_at a = fire_at b \<and> (he_id a < he_id b
     \<or> he_id a = he_id b \<and> he_version a < he_version b)"

instance
  by standard (auto simp: less_eq_HeapEntry_def less_HeapEntry_def HeapEntry.expand)

end

lemma heap_order_fire: "(a :: HeapEntry) \<le> b \<Longrightarrow> fire_at a \<le> fire_at b"
  by (auto simp: less_eq_HeapEntry_def)

section \<open>The heap\<close>

definition heap_push :: "HeapEntry \<Rightarrow> HeapEntry list \<Rightarrow> HeapEntry list" where
  "heap_push x h = insort x h"

definition heap_pop :: "HeapEntry list \<Rightarrow> (HeapEntry \<times> HeapEntry list) option" where
  "heap_pop h = (case h of [] \<Rightarrow> None | x # xs \<Rightarrow> Some (x, xs))"

text \<open>The contract of the priority queue, over the multiset of its nodes.\<close>

locale min_heap =
  fixes elems :: "'q \<Rightarrow> 'a::linorder multiset"
    and wf :: "'q \<Rightarrow> bool"
    and push :: "'a \<Rightarrow> 'q \<Rightarrow> 'q"
    and pop :: "'q \<Rightarrow> ('a \<times> 'q) option"
  assumes push_elems: "wf q \<Longrightarrow> elems (push x q) = add_mset x (elems q)"
    and push_wf: "wf q \<Longrightarrow> wf (push x q)"
    and pop_None: "wf q \<Longrightarrow> pop q = None \<longleftrightarrow> elems q = {#}"
    and pop_Some: "wf q \<Longrightarrow> pop q = Some (x, q') \<Longrightarrow>
      wf q' \<and> elems q = add_mset x (elems q') \<and> (\<forall>y\<in>#elems q. x \<le> y)"
begin

lemma pop_push_ex: "wf q \<Longrightarrow> \<exists>y q'. pop (push x q) = Some (y, q') \<and> y \<le> x"
proof -
  assume q: "wf q"
  then have "pop (push x q) \<noteq> None" by (simp add: pop_None push_wf push_elems)
  then obtain y q' where p: "pop (push x q) = Some (y, q')" by (cases "pop (push x q)") auto
  then have "y \<le> x" using pop_Some[OF push_wf[OF q] p] push_elems[OF q, of x] by auto
  then show ?thesis using p by blast
qed

lemma pop_size: "wf q \<Longrightarrow> pop q = Some (x, q') \<Longrightarrow> size (elems q') < size (elems q)"
  using pop_Some by fastforce

lemma pop_subset: "wf q \<Longrightarrow> pop q = Some (x, q') \<Longrightarrow> set_mset (elems q') \<subseteq> set_mset (elems q)"
  using pop_Some by fastforce

end

interpretation bh: min_heap "mset" sorted heap_push heap_pop
proof unfold_locales
  fix q x y and q' :: "HeapEntry list"
  show "mset (heap_push x q) = add_mset x (mset q)" by (simp add: heap_push_def)
  show "sorted q \<Longrightarrow> sorted (heap_push x q)" by (simp add: heap_push_def sorted_insort)
  show "heap_pop q = None \<longleftrightarrow> mset q = {#}" by (simp add: heap_pop_def split: list.split)
  show "sorted q \<Longrightarrow> heap_pop q = Some (x, q') \<Longrightarrow>
      sorted q' \<and> mset q = add_mset x (mset q') \<and> (\<forall>y\<in>#mset q. x \<le> y)"
    by (auto simp: heap_pop_def split: list.splits)
qed

section \<open>The entry table\<close>

record EntryTable =
  entries :: "(CronId \<times> Entry) list"
  heap :: "HeapEntry list"

definition new_table :: EntryTable where
  "new_table = \<lparr> entries = [], heap = [] \<rparr>"

definition table_get :: "CronId \<Rightarrow> EntryTable \<Rightarrow> Entry option" where
  "table_get cid t = map_of (entries t) cid"

definition table_len :: "EntryTable \<Rightarrow> nat" where
  "table_len t = length (entries t)"

definition push_fire :: "instant option \<Rightarrow> CronId \<Rightarrow> nat \<Rightarrow> EntryTable \<Rightarrow> EntryTable" where
  "push_fire nf cid version t =
     (case nf of None \<Rightarrow> t | Some fire \<Rightarrow> t\<lparr> heap := heap_push (HeapEntry fire cid version) (heap t) \<rparr>)"

definition table_upsert ::
    "CronId \<Rightarrow> CronSpec \<Rightarrow> CatchupMode \<Rightarrow> int \<Rightarrow> instant option \<Rightarrow> instant option \<Rightarrow> EntryTable
     \<Rightarrow> nat \<times> EntryTable" where
  "table_upsert cid spec mode min_interval last_fired next_fire t =
     (let preserved = (case table_get cid t of Some e \<Rightarrow> e_backoff e | None \<Rightarrow> no_backoff);
          version = (case table_get cid t of Some e \<Rightarrow> e_version e + 1 | None \<Rightarrow> 1);
          entry = \<lparr> e_id = cid, e_spec = spec, e_catchup_mode = mode,
                    e_min_replay_interval = min_interval, e_last_fired_at = last_fired,
                    e_next_fire_at = next_fire, e_backoff = preserved, e_version = version \<rparr>;
          t1 = push_fire next_fire cid version t
      in (version, t1\<lparr> entries := AList.update cid entry (entries t1) \<rparr>))"

definition table_delete :: "CronId \<Rightarrow> EntryTable \<Rightarrow> Entry option \<times> EntryTable" where
  "table_delete cid t = (table_get cid t, t\<lparr> entries := AList.delete cid (entries t) \<rparr>)"

definition live :: "EntryTable \<Rightarrow> HeapEntry \<Rightarrow> bool" where
  "live t h = (case table_get (he_id h) t of Some e \<Rightarrow> e_version e = he_version h | None \<Rightarrow> False)"

text \<open>peek_next and pop_next: both discard stale nodes from the top.\<close>

fun drop_stale :: "EntryTable \<Rightarrow> HeapEntry list \<Rightarrow> HeapEntry list" where
  "drop_stale t [] = []"
| "drop_stale t (node # rest) = (if live t node then node # rest else drop_stale t rest)"

definition peek_next :: "EntryTable \<Rightarrow> HeapEntry option \<times> EntryTable" where
  "peek_next t =
     (let h = drop_stale t (heap t) in
      (map_option fst (heap_pop h), t\<lparr> heap := h \<rparr>))"

definition pop_next :: "EntryTable \<Rightarrow> HeapEntry option \<times> EntryTable" where
  "pop_next t =
     (case heap_pop (drop_stale t (heap t)) of
        None \<Rightarrow> (None, t\<lparr> heap := [] \<rparr>)
      | Some (node, rest) \<Rightarrow> (Some node, t\<lparr> heap := rest \<rparr>))"

definition refresh_next_fire ::
    "CronId \<Rightarrow> instant option \<Rightarrow> instant option \<Rightarrow> EntryTable \<Rightarrow> nat option \<times> EntryTable" where
  "refresh_next_fire cid next_fire last_fired t =
     (case table_get cid t of
        None \<Rightarrow> (None, t)
      | Some entry \<Rightarrow>
          let version = e_version entry + 1;
              entry1 = entry\<lparr> e_version := version, e_next_fire_at := next_fire \<rparr>;
              entry2 = (case last_fired of
                  Some lf \<Rightarrow> entry1\<lparr> e_last_fired_at := Some lf \<rparr> | None \<Rightarrow> entry1);
              t1 = t\<lparr> entries := AList.update cid entry2 (entries t) \<rparr>
          in (Some version, push_fire next_fire cid version t1))"

definition set_backoff :: "CronId \<Rightarrow> BackoffState \<Rightarrow> EntryTable \<Rightarrow> BackoffState option \<times> EntryTable" where
  "set_backoff cid backoff t =
     (case table_get cid t of
        None \<Rightarrow> (None, t)
      | Some entry \<Rightarrow>
          (Some (e_backoff entry),
           t\<lparr> entries := AList.update cid (entry\<lparr> e_backoff := backoff \<rparr>) (entries t) \<rparr>))"

text \<open>recompute_all visits the ids one after the other.\<close>

definition recompute_one :: "chrono_ops \<Rightarrow> instant \<Rightarrow> CronId \<Rightarrow> EntryTable \<Rightarrow> EntryTable" where
  "recompute_one ch now cid t =
     (let nf = Option.bind (table_get cid t) (\<lambda>e. next_eligible_fire ch (e_spec e) now (e_backoff e)) in
      snd (refresh_next_fire cid nf None t))"

definition recompute_all :: "chrono_ops \<Rightarrow> instant \<Rightarrow> EntryTable \<Rightarrow> EntryTable" where
  "recompute_all ch now t = fold (recompute_one ch now) (map fst (entries t)) t"

section \<open>The invariants of the table\<close>

text \<open>
  The nodes that should fire: one per entry with a next fire time, at the
  entry's version.
\<close>

definition scheduled :: "EntryTable \<Rightarrow> HeapEntry set" where
  "scheduled t = {HeapEntry f k (e_version e) | f k e.
     table_get k t = Some e \<and> e_next_fire_at e = Some f}"

text \<open>
  Well-formedness: the heap is ordered, ids are unique, and no scheduled node
  is missing from the heap, those of the ids in \<open>X\<close> excepted (the entry that
  the loop has just popped).
\<close>

definition table_inv :: "CronId set \<Rightarrow> EntryTable \<Rightarrow> bool" where
  "table_inv X t \<longleftrightarrow> sorted (heap t) \<and> distinct (map fst (entries t))
     \<and> (\<forall>k e. table_get k t = Some e \<longrightarrow> e_id e = k)
     \<and> (\<forall>h\<in>scheduled t. he_id h \<notin> X \<longrightarrow> h \<in> set (heap t))"

abbreviation table_wf :: "EntryTable \<Rightarrow> bool" where
  "table_wf \<equiv> table_inv {}"

text \<open>Exactness: a node whose version is current carries the entry's own next
  fire time, and no node is ahead of its entry.\<close>

definition table_exact :: "EntryTable \<Rightarrow> bool" where
  "table_exact t \<longleftrightarrow> (\<forall>h\<in>set (heap t). \<forall>e. table_get (he_id h) t = Some e \<longrightarrow>
     he_version h \<le> e_version e
     \<and> (he_version h = e_version e \<longrightarrow> e_next_fire_at e = Some (fire_at h)))"

text \<open>No node of the heap belongs to the id.\<close>

definition no_node :: "CronId \<Rightarrow> EntryTable \<Rightarrow> bool" where
  "no_node k t \<longleftrightarrow> (\<forall>h\<in>set (heap t). he_id h \<noteq> k)"

section \<open>Lemmas\<close>

named_theorems table_simps \<open>what each operation does to lookups and nodes\<close>

lemma table_get_heap [table_simps]: "table_get k (t\<lparr>heap := h\<rparr>) = table_get k t"
  by (simp add: table_get_def)

lemma table_get_update [table_simps]:
  "table_get k (t\<lparr>entries := AList.update i e (entries t')\<rparr>)
     = (if k = i then Some e else table_get k t')"
  by (simp add: table_get_def update_conv')

lemma table_get_delete [table_simps]:
  "table_get k (snd (table_delete i t)) = (if k = i then None else table_get k t)"
  by (simp add: table_get_def table_delete_def delete_conv')

lemma push_fire_entries [table_simps]: "entries (push_fire nf i v t) = entries t"
  by (simp add: push_fire_def split: option.split)

lemma push_fire_get [table_simps]: "table_get k (push_fire nf i v t) = table_get k t"
  by (simp add: table_get_def push_fire_entries)

lemma push_fire_heap [table_simps]:
  "set (heap (push_fire nf i v t)) = set (heap t) \<union> (\<lambda>f. HeapEntry f i v) ` set_option nf"
  by (auto simp: push_fire_def heap_push_def set_insort_key split: option.split)

lemma push_fire_sorted [table_simps]: "sorted (heap t) \<Longrightarrow> sorted (heap (push_fire nf i v t))"
  by (simp add: push_fire_def bh.push_wf split: option.split)

lemma live_heap [table_simps]: "live (t\<lparr>heap := h\<rparr>) = live t"
  by (intro ext) (simp add: live_def table_get_heap)

lemma scheduled_heap [table_simps]: "scheduled (t\<lparr>heap := h\<rparr>) = scheduled t"
  by (simp add: scheduled_def table_get_heap)

lemma drop_stale_dropWhile: "drop_stale t h = dropWhile (\<lambda>x. \<not> live t x) h"
  by (induction h) auto

lemma drop_stale_sorted: "sorted h \<Longrightarrow> sorted (drop_stale t h)"
  by (simp add: drop_stale_dropWhile sorted_dropWhile)

lemma drop_stale_subset: "set (drop_stale t h) \<subseteq> set h"
  by (auto simp: drop_stale_dropWhile dest: set_dropWhileD)

lemma drop_stale_keeps_live: "x \<in> set h \<Longrightarrow> live t x \<Longrightarrow> x \<in> set (drop_stale t h)"
  by (induction h) auto

lemma drop_stale_hd: "drop_stale t h = x # xs \<Longrightarrow> live t x"
  by (induction h) (auto split: if_splits)

lemma scheduled_iff:
  "h \<in> scheduled t \<longleftrightarrow> (\<exists>e. table_get (he_id h) t = Some e
     \<and> e_next_fire_at e = Some (fire_at h) \<and> he_version h = e_version e)"
  by (cases h) (auto simp: scheduled_def)

lemma scheduled_live: "h \<in> scheduled t \<Longrightarrow> live t h"
  by (auto simp: scheduled_def live_def)

lemma live_exact_scheduled:
  "table_exact t \<Longrightarrow> h \<in> set (heap t) \<Longrightarrow> live t h \<Longrightarrow> h \<in> scheduled t"
  by (cases h) (auto simp: table_exact_def live_def scheduled_def split: option.splits)

lemma table_invD:
  assumes "table_inv X t"
  shows "sorted (heap t)" "distinct (map fst (entries t))"
    "table_get k t = Some e \<Longrightarrow> e_id e = k"
    "h \<in> scheduled t \<Longrightarrow> he_id h \<notin> X \<Longrightarrow> h \<in> set (heap t)"
  using assms by (auto simp: table_inv_def)

lemma table_inv_mono: "table_inv X t \<Longrightarrow> X \<subseteq> Y \<Longrightarrow> table_inv Y t"
  by (auto simp: table_inv_def)

subsection \<open>Peeking and popping\<close>

lemma peek_next_table:
  assumes "table_inv X t"
  shows "table_inv X (snd (peek_next t))" "entries (snd (peek_next t)) = entries t"
    "set (heap (snd (peek_next t))) \<subseteq> set (heap t)"
  using assms drop_stale_subset[of t "heap t"]
  by (auto simp: peek_next_def Let_def table_inv_def table_simps drop_stale_sorted
      drop_stale_keeps_live scheduled_live)

lemma peek_next_Some:
  assumes "table_inv X t" "fst (peek_next t) = Some h"
  shows "h \<in> set (heap t)" "live t h" "h' \<in> scheduled t \<Longrightarrow> he_id h' \<notin> X \<Longrightarrow> h \<le> h'"
    "hd (heap (snd (peek_next t))) = h"
proof -
  obtain xs where d: "drop_stale t (heap t) = h # xs"
    using assms(2) by (auto simp: peek_next_def Let_def heap_pop_def split: list.splits)
  show "h \<in> set (heap t)" using drop_stale_subset[of t "heap t"] d by auto
  show "live t h" by (rule drop_stale_hd[OF d])
  show "hd (heap (snd (peek_next t))) = h" by (simp add: peek_next_def Let_def d)
  assume "h' \<in> scheduled t" "he_id h' \<notin> X"
  then have "h' \<in> set (h # xs)"
    using drop_stale_keeps_live[of h' "heap t" t] table_invD(4)[OF assms(1)] scheduled_live d
    by auto
  moreover have "sorted (h # xs)"
    using drop_stale_sorted[of "heap t" t] table_invD(1)[OF assms(1)] d by simp
  ultimately show "h \<le> h'" by auto
qed

lemma peek_next_None:
  assumes "table_inv X t" "fst (peek_next t) = None" "h \<in> scheduled t"
  shows "he_id h \<in> X"
proof (rule ccontr)
  assume "he_id h \<notin> X"
  then have "h \<in> set (drop_stale t (heap t))"
    using drop_stale_keeps_live[of h "heap t" t] table_invD(4)[OF assms(1,3)] scheduled_live[OF assms(3)]
    by blast
  then show False
    using assms(2) by (cases "drop_stale t (heap t)") (auto simp: peek_next_def Let_def heap_pop_def)
qed

lemma pop_next_eq: "fst (pop_next t) = fst (peek_next t)"
  by (simp add: pop_next_def peek_next_def Let_def split: option.split)

lemma pop_next_Some:
  assumes "table_inv X t" "pop_next t = (Some h, t')"
  shows "entries t' = entries t" "set (heap t') \<subseteq> set (heap t)"
    "table_inv (insert (he_id h) X) t'" "length (heap t') < length (heap t)"
    "mset (drop_stale t (heap t)) = add_mset h (mset (heap t'))"
proof -
  obtain xs where d: "drop_stale t (heap t) = h # xs" and t': "t' = t\<lparr>heap := xs\<rparr>"
    using assms(2) by (auto simp: pop_next_def heap_pop_def split: option.splits list.splits)
  show "entries t' = entries t" "mset (drop_stale t (heap t)) = add_mset h (mset (heap t'))"
    by (simp_all add: t' d)
  show sub: "set (heap t') \<subseteq> set (heap t)" using drop_stale_subset[of t "heap t"] by (auto simp: t' d)
  have "length (drop_stale t (heap t)) \<le> length (heap t)"
    by (simp add: drop_stale_dropWhile length_dropWhile_le)
  then show "length (heap t') < length (heap t)" by (simp add: t' d)
  have srt: "sorted (h # xs)"
    using drop_stale_sorted[of "heap t" t] table_invD(1)[OF assms(1)] d by simp
  show "table_inv (insert (he_id h) X) t'"
    unfolding table_inv_def t'
  proof (intro conjI ballI impI allI; simp add: table_simps)
    show "sorted xs" using srt by simp
    show "distinct (map fst (entries t))" by (rule table_invD(2)[OF assms(1)])
    show "e_id e = k" if "table_get k t = Some e" for k e using table_invD(3)[OF assms(1) that] .
    fix h' assume h': "h' \<in> scheduled t" "he_id h' \<noteq> he_id h \<and> he_id h' \<notin> X"
    then have "h' \<in> set (h # xs)"
      using drop_stale_keeps_live[of h' "heap t" t] table_invD(4)[OF assms(1)] scheduled_live d by auto
    then show "h' \<in> set xs" using h' by auto
  qed
qed

subsection \<open>Writing an entry\<close>

text \<open>upsert and refresh both store an entry at a version above the old one and
  push its node; their common effect, as a relation between tables.\<close>

definition stored :: "CronId \<Rightarrow> Entry \<Rightarrow> EntryTable \<Rightarrow> EntryTable \<Rightarrow> bool" where
  "stored k e t t' \<longleftrightarrow> e_id e = k
     \<and> (\<forall>i. table_get i t' = (if i = k then Some e else table_get i t))
     \<and> (distinct (map fst (entries t)) \<longrightarrow> distinct (map fst (entries t')))
     \<and> (sorted (heap t) \<longrightarrow> sorted (heap t'))
     \<and> set (heap t') = set (heap t) \<union> (\<lambda>f. HeapEntry f k (e_version e)) ` set_option (e_next_fire_at e)
     \<and> (\<forall>e0. table_get k t = Some e0 \<longrightarrow> e_version e = e_version e0 + 1)"

lemma stored_scheduled:
  assumes "stored k e t t'"
  shows "scheduled t' = {h \<in> scheduled t. he_id h \<noteq> k}
    \<union> (\<lambda>f. HeapEntry f k (e_version e)) ` set_option (e_next_fire_at e)"
proof (intro set_eqI)
  fix h
  show "h \<in> scheduled t' \<longleftrightarrow> h \<in> {h \<in> scheduled t. he_id h \<noteq> k}
    \<union> (\<lambda>f. HeapEntry f k (e_version e)) ` set_option (e_next_fire_at e)"
    using assms by (cases h) (auto simp: scheduled_def stored_def)
qed

lemma stored_inv:
  assumes "stored k e t t'" "table_inv X t"
  shows "table_inv (X - {k}) t'"
  unfolding table_inv_def stored_scheduled[OF assms(1)]
  using assms(1) table_invD[OF assms(2)] by (auto simp: stored_def)

lemma stored_exact:
  assumes "stored k e t t'" "table_exact t" "table_get k t \<noteq> None \<or> no_node k t"
  shows "table_exact t'"
  unfolding table_exact_def
proof (intro ballI allI impI)
  fix h e' assume h: "h \<in> set (heap t')" and e': "table_get (he_id h) t' = Some e'"
  from h assms(1) consider (old) "h \<in> set (heap t)"
    | (new) f where "e_next_fire_at e = Some f" "h = HeapEntry f k (e_version e)"
    by (auto simp: stored_def)
  then show "he_version h \<le> e_version e' \<and> (he_version h = e_version e' \<longrightarrow> e_next_fire_at e' = Some (fire_at h))"
  proof cases
    case old
    show ?thesis
    proof (cases "he_id h = k")
      case True
      then obtain e0 where e0: "table_get k t = Some e0"
        using assms(3) old by (auto simp: no_node_def)
      then have "he_version h \<le> e_version e0" using assms(2) old True by (auto simp: table_exact_def)
      moreover have "e_version e' = e_version e0 + 1"
        using assms(1) e0 e' True by (auto simp: stored_def)
      ultimately show ?thesis by simp
    next
      case False
      then show ?thesis using assms(1,2) old e' by (auto simp: stored_def table_exact_def)
    qed
  next
    case new
    then show ?thesis using assms(1) e' by (auto simp: stored_def)
  qed
qed

lemma upsert_stored:
  "table_upsert k spec mode d lf nf t = (v, t') \<Longrightarrow>
   stored k \<lparr> e_id = k, e_spec = spec, e_catchup_mode = mode, e_min_replay_interval = d,
     e_last_fired_at = lf, e_next_fire_at = nf,
     e_backoff = (case table_get k t of Some e \<Rightarrow> e_backoff e | None \<Rightarrow> no_backoff),
     e_version = v \<rparr> t t'"
  by (auto simp: table_upsert_def Let_def stored_def table_get_update push_fire_entries
      push_fire_heap push_fire_sorted distinct_update push_fire_get)

lemma refresh_stored:
  assumes "table_get k t = Some e" "e_id e = k"
  shows "\<exists>e' v. refresh_next_fire k nf lf t = (Some v, snd (refresh_next_fire k nf lf t))
    \<and> stored k e' t (snd (refresh_next_fire k nf lf t)) \<and> e_next_fire_at e' = nf
    \<and> e_version e' = v \<and> e_spec e' = e_spec e \<and> e_backoff e' = e_backoff e
    \<and> e_last_fired_at e' = (case lf of Some x \<Rightarrow> Some x | None \<Rightarrow> e_last_fired_at e)
    \<and> e_catchup_mode e' = e_catchup_mode e \<and> e_min_replay_interval e' = e_min_replay_interval e"
  using assms
  by (cases lf; simp add: refresh_next_fire_def Let_def stored_def table_simps distinct_update)

lemma refresh_None: "table_get k t = None \<Longrightarrow> refresh_next_fire k nf lf t = (None, t)"
  by (simp add: refresh_next_fire_def)

lemma delete_inv:
  assumes "table_inv X t"
  shows "table_inv X (snd (table_delete k t))"
    "scheduled (snd (table_delete k t)) = {h \<in> scheduled t. he_id h \<noteq> k}"
proof -
  show s: "scheduled (snd (table_delete k t)) = {h \<in> scheduled t. he_id h \<noteq> k}"
    by (auto simp: scheduled_iff table_get_delete split: if_splits)
  have "heap (snd (table_delete k t)) = heap t" by (simp add: table_delete_def)
  moreover have "distinct (map fst (entries (snd (table_delete k t))))"
    using table_invD(2)[OF assms] by (simp add: table_delete_def distinct_delete)
  ultimately show "table_inv X (snd (table_delete k t))"
    unfolding table_inv_def s using table_invD[OF assms] by (auto simp: table_get_delete)
qed

lemma delete_exact: "table_exact t \<Longrightarrow> table_exact (snd (table_delete k t))"
  by (auto simp: table_exact_def table_get_delete) (auto simp: table_delete_def)

lemma set_backoff_table:
  assumes "table_inv X t"
  shows "table_inv X (snd (set_backoff k b t))" "scheduled (snd (set_backoff k b t)) = scheduled t"
    "heap (snd (set_backoff k b t)) = heap t"
proof -
  have sch: "scheduled (snd (set_backoff k b t)) = scheduled t"
    by (auto simp: set_backoff_def scheduled_iff table_get_update split: option.split if_splits)
  then show "scheduled (snd (set_backoff k b t)) = scheduled t" .
  show hp: "heap (snd (set_backoff k b t)) = heap t" by (simp add: set_backoff_def split: option.split)
  have "distinct (map fst (entries (snd (set_backoff k b t))))"
    using table_invD(2)[OF assms] by (simp add: set_backoff_def distinct_update split: option.split)
  moreover have "e_id e = i" if "table_get i (snd (set_backoff k b t)) = Some e" for i e
    using that table_invD(3)[OF assms]
    by (auto simp: set_backoff_def table_get_update split: option.splits if_splits)
  ultimately show "table_inv X (snd (set_backoff k b t))"
    unfolding table_inv_def sch hp using table_invD[OF assms] by blast
qed

lemma set_backoff_exact: "table_exact t \<Longrightarrow> table_exact (snd (set_backoff k b t))"
  by (cases "table_get k t")
    (auto simp: table_exact_def set_backoff_def table_get_update)

subsection \<open>Recomputing every entry\<close>

lemma recompute_one_inv:
  assumes "table_inv X t"
  shows "table_inv X (recompute_one ch now k t)"
proof (cases "table_get k t")
  case None
  then show ?thesis using assms by (simp add: recompute_one_def Let_def refresh_None)
next
  case (Some e)
  with refresh_stored[OF Some table_invD(3)[OF assms Some]] stored_inv[OF _ assms]
  show ?thesis
    unfolding recompute_one_def Let_def by (meson Diff_subset table_inv_mono)
qed

lemma recompute_one_exact:
  assumes "table_inv X t" "table_exact t"
  shows "table_exact (recompute_one ch now k t)"
proof (cases "table_get k t")
  case None
  then show ?thesis using assms by (simp add: recompute_one_def Let_def refresh_None)
next
  case (Some e)
  with refresh_stored[OF Some table_invD(3)[OF assms(1) Some]] stored_exact[OF _ assms(2)]
  show ?thesis
    unfolding recompute_one_def Let_def by (metis option.discI)
qed

lemma recompute_one_get:
  assumes "table_inv X t"
  shows "map_option (\<lambda>e. (e_spec e, e_backoff e, e_last_fired_at e, e_catchup_mode e))
      (table_get i (recompute_one ch now k t))
    = map_option (\<lambda>e. (e_spec e, e_backoff e, e_last_fired_at e, e_catchup_mode e)) (table_get i t)"
    and "i = k \<Longrightarrow> table_get i (recompute_one ch now k t) = Some e \<Longrightarrow>
      e_next_fire_at e = next_eligible_fire ch (e_spec e) now (e_backoff e)"
    and "i \<noteq> k \<Longrightarrow> table_get i (recompute_one ch now k t) = table_get i t"
  by (cases "table_get k t"; simp add: recompute_one_def Let_def refresh_next_fire_def table_simps;
      fastforce)+

lemma recompute_fold:
  assumes "table_inv X t"
  shows "table_inv X (fold (recompute_one ch now) ks t)"
    "table_exact t \<Longrightarrow> table_exact (fold (recompute_one ch now) ks t)"
    "map_option (\<lambda>e. (e_spec e, e_backoff e, e_last_fired_at e, e_catchup_mode e))
       (table_get i (fold (recompute_one ch now) ks t))
     = map_option (\<lambda>e. (e_spec e, e_backoff e, e_last_fired_at e, e_catchup_mode e)) (table_get i t)"
    "i \<in> set ks \<Longrightarrow> table_get i (fold (recompute_one ch now) ks t) = Some e \<Longrightarrow>
       e_next_fire_at e = next_eligible_fire ch (e_spec e) now (e_backoff e)"
proof -
  have all: "table_inv X (fold (recompute_one ch now) ks t)
    \<and> (table_exact t \<longrightarrow> table_exact (fold (recompute_one ch now) ks t))
    \<and> map_option (\<lambda>e. (e_spec e, e_backoff e, e_last_fired_at e, e_catchup_mode e))
       (table_get i (fold (recompute_one ch now) ks t))
     = map_option (\<lambda>e. (e_spec e, e_backoff e, e_last_fired_at e, e_catchup_mode e)) (table_get i t)
    \<and> (i \<in> set ks \<longrightarrow> table_get i (fold (recompute_one ch now) ks t) = Some e \<longrightarrow>
       e_next_fire_at e = next_eligible_fire ch (e_spec e) now (e_backoff e))"
    using assms
  proof (induction ks rule: rev_induct)
    case (snoc k ks)
    let ?u = "fold (recompute_one ch now) ks t"
    have u: "table_inv X ?u" using snoc by blast
    show ?case
      using snoc u recompute_one_inv[OF u] recompute_one_exact[OF u] recompute_one_get(1)[OF u, of i ch now k]
        recompute_one_get(2)[OF u, of i k ch now] recompute_one_get(3)[OF u, of i k ch now]
      by (cases "i = k") simp_all
  qed simp
  then show "table_inv X (fold (recompute_one ch now) ks t)"
    "table_exact t \<Longrightarrow> table_exact (fold (recompute_one ch now) ks t)"
    "map_option (\<lambda>e. (e_spec e, e_backoff e, e_last_fired_at e, e_catchup_mode e))
       (table_get i (fold (recompute_one ch now) ks t))
     = map_option (\<lambda>e. (e_spec e, e_backoff e, e_last_fired_at e, e_catchup_mode e)) (table_get i t)"
    "i \<in> set ks \<Longrightarrow> table_get i (fold (recompute_one ch now) ks t) = Some e \<Longrightarrow>
       e_next_fire_at e = next_eligible_fire ch (e_spec e) now (e_backoff e)"
    by blast+
qed

lemma next_eligible_gt:
  assumes "schedule_ok spec" "next_eligible_fire ch spec now b = Some f"
  shows "now < f" "retry_after_state ch b = Some r \<Longrightarrow> r \<le> f"
proof -
  obtain n where n: "next_after spec now = Some n" "n \<le> f"
    using assms(2) by (auto simp: next_eligible_fire_def split: option.splits if_splits)
  obtain ys where "fires_after spec now = n # ys"
    using n(1) unfolding next_after_alt by (auto simp del: filter.simps split: list.splits)
  then have "n \<in> set (fires_after spec now)" by (simp del: set_filter)
  then have "now < n" using schedule_gt[OF assms(1), of n now] by simp
  then show "now < f" using n(2) by simp
  show "retry_after_state ch b = Some r \<Longrightarrow> r \<le> f"
    using assms(2) by (auto simp: next_eligible_fire_def split: option.splits if_splits)
qed

section \<open>Properties\<close>

text \<open>Lazy deletion is invisible: on a well-formed exact table, peeking
  returns the least scheduled node, whatever stale nodes lie above it, answers
  None exactly when nothing is scheduled, and keeps both invariants and all
  entries.\<close>

theorem peek_next_least:
  assumes "table_wf t" "table_exact t"
  shows "(fst (peek_next t) = None \<longleftrightarrow> scheduled t = {})
    \<and> (\<forall>h. fst (peek_next t) = Some h \<longleftrightarrow> h \<in> scheduled t \<and> (\<forall>h'\<in>scheduled t. h \<le> h'))
    \<and> table_wf (snd (peek_next t)) \<and> table_exact (snd (peek_next t))
    \<and> entries (snd (peek_next t)) = entries t"
proof -
  note pt = peek_next_table[OF assms(1)]
  have ex: "table_exact (snd (peek_next t))"
    using assms(2) pt(2,3) by (fastforce simp: table_exact_def table_get_def)
  have some: "h \<in> scheduled t \<and> (\<forall>h'\<in>scheduled t. h \<le> h')" if "fst (peek_next t) = Some h" for h
    using peek_next_Some[OF assms(1) that] live_exact_scheduled[OF assms(2)] by auto
  have none: "scheduled t = {}" if "fst (peek_next t) = None"
    using peek_next_None[OF assms(1) that] by auto
  show ?thesis
  proof (cases "fst (peek_next t)")
    case None
    then show ?thesis using none ex pt by auto
  next
    case (Some h)
    then show ?thesis using some[OF Some] ex pt by (auto intro: order.antisym)
  qed
qed

text \<open>The version of a deleted id starts again at one, so the lazily deleted
  node comes back to life: after inserting an id, deleting it and inserting it
  again with a later fire time, the loop's next wake-up is the time of the
  deleted entry.\<close>

theorem reinsert_resurrects_stale_node:
  assumes "f1 < f2"
    and "t1 = snd (table_upsert k spec1 m1 d1 lf1 (Some f1) new_table)"
    and "t2 = snd (table_upsert k spec2 m2 d2 lf2 (Some f2) (snd (table_delete k t1)))"
  shows "map_option e_next_fire_at (table_get k t2) = Some (Some f2)
    \<and> fst (peek_next t2) = Some (HeapEntry f1 k 1)"
  using assms(1) unfolding assms(2,3)
  by (simp add: table_upsert_def new_table_def table_get_def table_delete_def push_fire_def
      heap_push_def peek_next_def live_def heap_pop_def Let_def less_eq_HeapEntry_def)

text \<open>The scheduler's backoff floor and the admission gate agree: when the
  heap's mirror carries the cron's backoff state, a fire at the eligible time is
  strictly in the future of its computation and is not refused by the gate's
  backoff rail at that time or later.\<close>

theorem eligible_fire_passes_backoff:
  assumes "schedule_ok spec"
    and "bs_backoff b = failure_backoff q" "bs_last_failure_at b = last_terminal_failure_at s"
    and "bs_consecutive_failures b = consecutive_failures q"
    and "next_eligible_fire ch spec now b = Some f" "f \<le> now_at s"
  shows "now < f \<and> evaluate_admission ch q g s \<noteq> RefuseDeferBackoff r n"
proof -
  have "backoff_retry_after ch q s = retry_after_state ch b"
    unfolding backoff_retry_after_def retry_after_state_def assms(2-4) ..
  then show ?thesis
    using next_eligible_gt[OF assms(1,5)] assms(6)
    by (auto simp: evaluate_admission_def split: option.splits)
qed

lemma eligible_fire_passes_backoff_witness:
  "next_eligible_fire chrono_std half_hours 0
     \<lparr> bs_backoff = Some (Expo 1000 2 5000), bs_last_failure_at = Some 0, bs_consecutive_failures = 1 \<rparr>
     = Some 1800
   \<and> evaluate_admission chrono_std
     (default_quota\<lparr>failure_backoff := Some (Expo 1000 2 5000), consecutive_failures := 1\<rparr>) default_global
     \<lparr> running_for_cron = 0, running_global = 0, window_runs_today = 0, window_cost_today = Fin 0,
       current_loadavg_1m = None, now_at = 1800, last_terminal_failure_at = Some 0 \<rparr>
     \<noteq> RefuseDeferBackoff 9 9"
proof -
  have ne: "next_eligible_fire chrono_std half_hours 0
     \<lparr> bs_backoff = Some (Expo 1000 2 5000), bs_last_failure_at = Some 0, bs_consecutive_failures = 1 \<rparr>
     = Some 1800"
    by (simp add: next_eligible_fire_def next_after_def half_hours_def fallback_zone_def
        is_first_local_occurrence_def naive_local_def upto.simps retry_after_state_def delay_for_def
        sat_mul_def widths chrono_std_def)
  then show ?thesis
    using eligible_fire_passes_backoff[OF half_hours_ok _ _ _ ne] by simp
qed

lemma peek_next_least_witness: "fst (peek_next new_table) = None \<and> scheduled new_table = {}"
  using peek_next_least[of new_table]
  by (simp add: table_inv_def table_exact_def new_table_def table_get_def scheduled_def peek_next_def
      heap_pop_def)

lemma reinsert_resurrects_stale_node_witness:
  "fst (peek_next (snd (table_upsert [1] half_hours Skip 0 None (Some 9)
     (snd (table_delete [1] (snd (table_upsert [1] half_hours Skip 0 None (Some 4) new_table)))))))
   = Some (HeapEntry 4 [1] 1)"
  using reinsert_resurrects_stale_node[of 4 9, OF _ refl refl] by simp

end
