(* ===== verification/Sched_Loop.thy ===== *)
theory Sched_Loop
  imports Heap_Table
begin

text \<open>
  Model of \<open>la-scheduler/src/scheduler.rs\<close> with \<open>clock.rs\<close>, \<open>command.rs\<close> and
  \<open>event.rs\<close>: the scheduler task.  Only this task touches the entry table, so a
  handler runs to its end between two wake-ups and is a function on the state.
  Clock readings are arguments, one per reading in the code.  The consumer of
  the fire channel may go away at any time: the channel carries the number of
  sends that still succeed (\<open>None\<close> for a consumer that stays).  A panic is
  \<open>None\<close>.
\<close>

section \<open>Constants and messages\<close>

definition SKEW_TICK_SECS :: nat where "SKEW_TICK_SECS = 60"
definition SKEW_THRESHOLD_SECS :: int where "SKEW_THRESHOLD_SECS = 30"
definition MISSED_FIRES_COUNT_CAP :: nat where "MISSED_FIRES_COUNT_CAP = MAX_CATCHUP * 100"

record FireEvent =
  fe_cron_id :: CronId
  fe_scheduled_at :: instant
  fe_fired_at :: instant
  fe_coalesced_count :: nat
  fe_catchup_truncated :: bool

datatype SchedulerEvent =
    ClockSkewDetected int nat
  | CatchupTruncatedEvent CronId nat nat nat bool

datatype Command =
    CUpsert CronId CronSpec CatchupMode int "instant option"
  | CDelete CronId
  | CPoke
  | CSnapshot
  | CUpdateBackoffState CronId "FailureBackoff option" "instant option" nat
  | CShutdown

datatype Reply =
    RVersion "SchedError + nat"
  | RExisted bool
  | RSnapshot "HeapEntry list"
  | RNone

section \<open>State\<close>

record FireChan =
  sent :: "FireEvent list"
  remaining :: "nat option"

definition chan_send :: "FireEvent \<Rightarrow> FireChan \<Rightarrow> FireChan option" where
  "chan_send ev c =
     (case remaining c of
        None \<Rightarrow> Some (c\<lparr> sent := sent c @ [ev] \<rparr>)
      | Some 0 \<Rightarrow> None
      | Some (Suc n) \<Rightarrow> Some (c\<lparr> sent := sent c @ [ev], remaining := Some n \<rparr>))"

record Sched =
  s_table :: EntryTable
  s_fires :: FireChan
  s_diag :: "SchedulerEvent list"

record MissedFireInputs =
  mi_id :: CronId
  mi_spec :: CronSpec
  mi_mode :: CatchupMode
  mi_min_replay_interval :: int
  mi_last_fired_at :: instant
  mi_end :: instant
  mi_fired_at :: instant

section \<open>Clocks\<close>

definition wall_to_instant :: "chrono_ops \<Rightarrow> instant \<Rightarrow> nat \<Rightarrow> instant \<Rightarrow> nat" where
  "wall_to_instant ch now_wall now_mono deadline =
     (if deadline \<le> now_wall then now_mono
      else case to_std ch (deadline - now_wall) of
        Some d \<Rightarrow> now_mono + d
      | None \<Rightarrow> now_mono + 60 * 60 * 24 * 365 * 100 * nanos_per_sec)"

record SkewAnchor =
  sa_wall :: instant
  sa_mono :: nat

definition num_seconds :: "int \<Rightarrow> int" where
  "num_seconds d = (if 0 \<le> d then d div int nanos_per_sec else - ((- d) div int nanos_per_sec))"

definition skew_check :: "SkewAnchor \<Rightarrow> instant \<Rightarrow> nat \<Rightarrow> int option" where
  "skew_check a now_wall now_mono =
     (let wall_delta = num_seconds (now_wall - sa_wall a);
          mono_delta = int ((now_mono - sa_mono a) div nanos_per_sec);
          skew = wall_delta - mono_delta
      in if \<bar>skew\<bar> > SKEW_THRESHOLD_SECS then Some skew else None)"

section \<open>Catch-up emission\<close>

text \<open>The sends of a catch-up burst; it stops at the first failure.\<close>

fun send_all :: "FireEvent list \<Rightarrow> FireChan \<Rightarrow> bool \<times> FireChan" where
  "send_all [] c = (True, c)"
| "send_all (ev # evs) c =
     (case chan_send ev c of None \<Rightarrow> (False, c) | Some c' \<Rightarrow> send_all evs c')"

definition catchup_event :: "MissedFireInputs \<Rightarrow> bool \<Rightarrow> ResolvedFire \<Rightarrow> FireEvent" where
  "catchup_event inp flag f =
     \<lparr> fe_cron_id = mi_id inp, fe_scheduled_at = scheduled_at f, fe_fired_at = mi_fired_at inp,
       fe_coalesced_count = coalesced_count f, fe_catchup_truncated = flag \<rparr>"

definition process_missed_fires ::
    "MissedFireInputs \<Rightarrow> Sched \<Rightarrow> (SchedError, unit) outcome \<times> Sched" where
  "process_missed_fires inp s =
     (let counted = count_missed (mi_spec inp) (mi_last_fired_at inp) (mi_end inp)
                      MAX_CATCHUP MISSED_FIRES_COUNT_CAP in
      if total counted = 0 then (Some (Inr ()), s)
      else
        case apply_catchup_with_total (earliest counted) (total counted) (saturated counted)
               (mi_mode inp) (mi_min_replay_interval inp) of
          None \<Rightarrow> (None, s)
        | Some (Inl e) \<Rightarrow> (Some (Inl e), s)
        | Some (Inr out) \<Rightarrow>
            let s1 = (case truncated out of
                  None \<Rightarrow> s
                | Some t \<Rightarrow> s\<lparr> s_diag := s_diag s @ [CatchupTruncatedEvent (mi_id inp) (missed t)
                                (executed t) (dropped t) (truncated_saturated t)] \<rparr>);
                (ok, c) = send_all (map (catchup_event inp (truncated out \<noteq> None)) (fires out)) (s_fires s1)
            in (Some (if ok then Inr () else Inl (Invariant (lit ''fire channel closed''))),
                s1\<lparr> s_fires := c \<rparr>))"

section \<open>Command handlers\<close>

definition install_entry ::
    "chrono_ops \<Rightarrow> instant \<Rightarrow> CronId \<Rightarrow> CronSpec \<Rightarrow> CatchupMode \<Rightarrow> int \<Rightarrow> instant option \<Rightarrow> Sched
     \<Rightarrow> (SchedError, nat) outcome \<times> Sched" where
  "install_entry ch now cid spec mode min_interval last_fired s =
     (let (r, s1) = (case last_fired of
            Some l \<Rightarrow>
              if l < now then
                (let (r, s1) = process_missed_fires
                   \<lparr> mi_id = cid, mi_spec = spec, mi_mode = mode,
                     mi_min_replay_interval = min_interval, mi_last_fired_at = l,
                     mi_end = now, mi_fired_at = now \<rparr> s
                 in (map_option (map_sum (\<lambda>e. e) (\<lambda>_. Some now)) r, s1))
              else (Some (Inr (Some l)), s)
          | None \<Rightarrow> (Some (Inr None), s))
      in case r of
           None \<Rightarrow> (None, s1)
         | Some (Inl e) \<Rightarrow> (Some (Inl e), s1)
         | Some (Inr watermark) \<Rightarrow>
             let preserved = (case table_get cid (s_table s1) of Some e \<Rightarrow> e_backoff e | None \<Rightarrow> no_backoff);
                 nf = next_eligible_fire ch spec now preserved;
                 (version, t) = table_upsert cid spec mode min_interval
                    (case watermark of Some w \<Rightarrow> Some w | None \<Rightarrow> Some now) nf (s_table s1)
             in (Some (Inr version), s1\<lparr> s_table := t \<rparr>))"

definition apply_backoff_update ::
    "chrono_ops \<Rightarrow> instant \<Rightarrow> CronId \<Rightarrow> BackoffState \<Rightarrow> Sched \<Rightarrow> bool \<times> Sched" where
  "apply_backoff_update ch now cid new_state s =
     (case set_backoff cid new_state (s_table s) of
        (None, _) \<Rightarrow> (False, s)
      | (Some _, t) \<Rightarrow>
          (case table_get cid t of
             None \<Rightarrow> (False, s)
           | Some e \<Rightarrow>
               let nf = next_eligible_fire ch (e_spec e) now new_state
               in (True, s\<lparr> s_table := snd (refresh_next_fire cid nf None t) \<rparr>)))"

definition snapshot :: "EntryTable \<Rightarrow> HeapEntry list" where
  "snapshot t = sort (List.map_filter
     (\<lambda>(k, e). map_option (\<lambda>f. HeapEntry f (e_id e) (e_version e)) (e_next_fire_at e)) (entries t))"

definition apply_command ::
    "chrono_ops \<Rightarrow> instant \<Rightarrow> Command \<Rightarrow> Sched \<Rightarrow> (Reply \<times> Sched) option" where
  "apply_command ch now cmd s =
     (case cmd of
        CUpsert cid spec mode d lf \<Rightarrow>
          (case install_entry ch now cid spec mode d lf s of
             (None, _) \<Rightarrow> None
           | (Some r, s') \<Rightarrow> Some (RVersion r, s'))
      | CDelete cid \<Rightarrow>
          (let (old, t) = table_delete cid (s_table s)
           in Some (RExisted (old \<noteq> None), s\<lparr> s_table := t \<rparr>))
      | CPoke \<Rightarrow> Some (RNone, s)
      | CSnapshot \<Rightarrow> Some (RSnapshot (snapshot (s_table s)), s)
      | CUpdateBackoffState cid b lf n \<Rightarrow>
          (let (existed, s') = apply_backoff_update ch now cid
                 \<lparr> bs_backoff = b, bs_last_failure_at = lf, bs_consecutive_failures = n \<rparr> s
           in Some (RExisted existed, s'))
      | CShutdown \<Rightarrow> None)"

section \<open>Firing\<close>

text \<open>
  The loop of fire_due_entries.  It is bounded by fuel; \<open>None\<close> is a panic or
  fuel that ran out, and the properties below show that neither happens with
  one more unit of fuel than the heap has nodes.
\<close>

fun fire_due :: "nat \<Rightarrow> chrono_ops \<Rightarrow> instant \<Rightarrow> Sched \<Rightarrow> Sched option" where
  "fire_due 0 ch now s = None"
| "fire_due (Suc fuel) ch now s =
     (case peek_next (s_table s) of
        (None, t) \<Rightarrow> Some (s\<lparr> s_table := t \<rparr>)
      | (Some node, t) \<Rightarrow>
          if fire_at node > now then Some (s\<lparr> s_table := t \<rparr>)
          else case pop_next t of
            (None, t1) \<Rightarrow> Some (s\<lparr> s_table := t1 \<rparr>)
          | (Some node, t1) \<Rightarrow>
              (case table_get (he_id node) t1 of
                 None \<Rightarrow> fire_due fuel ch now (s\<lparr> s_table := t1 \<rparr>)
               | Some e \<Rightarrow>
                   (case chan_send \<lparr> fe_cron_id = he_id node, fe_scheduled_at = fire_at node,
                           fe_fired_at = now, fe_coalesced_count = 1,
                           fe_catchup_truncated = False \<rparr> (s_fires s) of
                      None \<Rightarrow> Some (s\<lparr> s_table := t1 \<rparr>)
                    | Some c \<Rightarrow>
                        (case (if fire_at node < now
                               then process_missed_fires
                                 \<lparr> mi_id = he_id node, mi_spec = e_spec e, mi_mode = e_catchup_mode e,
                                   mi_min_replay_interval = e_min_replay_interval e,
                                   mi_last_fired_at = fire_at node, mi_end = now, mi_fired_at = now \<rparr>
                                 (s\<lparr> s_table := t1, s_fires := c \<rparr>)
                               else (Some (Inr ()), s\<lparr> s_table := t1, s_fires := c \<rparr>)) of
                           (None, _) \<Rightarrow> None
                         | (Some (Inl _), s2) \<Rightarrow> Some s2
                         | (Some (Inr _), s2) \<Rightarrow>
                             let nf = next_eligible_fire ch (e_spec e) now (e_backoff e);
                                 new_last = (if fire_at node < now then now else fire_at node)
                             in fire_due fuel ch now
                                  (s2\<lparr> s_table := snd (refresh_next_fire (he_id node) nf (Some new_last)
                                                        (s_table s2)) \<rparr>)))))"

definition fire_due_entries :: "chrono_ops \<Rightarrow> instant \<Rightarrow> Sched \<Rightarrow> Sched option" where
  "fire_due_entries ch now s = fire_due (Suc (length (heap (s_table s)))) ch now s"

section \<open>Clock skew\<close>

record SkewWorkItem =
  w_id :: CronId
  w_spec :: CronSpec
  w_mode :: CatchupMode
  w_throttle :: int
  w_last_fired :: "instant option"

definition skew_work :: "EntryTable \<Rightarrow> SkewWorkItem list" where
  "skew_work t = map (\<lambda>(k, e). \<lparr> w_id = e_id e, w_spec = e_spec e, w_mode = e_catchup_mode e,
     w_throttle = e_min_replay_interval e, w_last_fired = e_last_fired_at e \<rparr>) (entries t)"

text \<open>First pass: catch up every entry whose watermark lies in the past; an error
  is only logged.\<close>

fun skew_catchup :: "instant \<Rightarrow> SkewWorkItem list \<Rightarrow> Sched \<Rightarrow> Sched option" where
  "skew_catchup now [] s = Some s"
| "skew_catchup now (item # rest) s =
     (case w_last_fired item of
        None \<Rightarrow> skew_catchup now rest s
      | Some l \<Rightarrow>
          if l < now then
            (case process_missed_fires
               \<lparr> mi_id = w_id item, mi_spec = w_spec item, mi_mode = w_mode item,
                 mi_min_replay_interval = w_throttle item, mi_last_fired_at = l,
                 mi_end = now, mi_fired_at = now \<rparr> s of
               (None, _) \<Rightarrow> None
             | (Some _, s') \<Rightarrow> skew_catchup now rest s')
          else skew_catchup now rest s)"

text \<open>Second pass: re-anchor every entry at a second reading of the clock.\<close>

definition reanchor_one :: "chrono_ops \<Rightarrow> instant \<Rightarrow> SkewWorkItem \<Rightarrow> EntryTable \<Rightarrow> EntryTable" where
  "reanchor_one ch now_after item t =
     (let nf = Option.bind (table_get (w_id item) t)
                 (\<lambda>e. next_eligible_fire ch (e_spec e) now_after (e_backoff e));
          new_last = (case w_last_fired item of
             Some l \<Rightarrow> if l < now_after then Some now_after else None
           | None \<Rightarrow> None)
      in snd (refresh_next_fire (w_id item) nf new_last t))"

definition recompute_all_after_skew ::
    "chrono_ops \<Rightarrow> instant \<Rightarrow> instant \<Rightarrow> Sched \<Rightarrow> (nat \<times> Sched) option" where
  "recompute_all_after_skew ch now now_after s =
     (let work = skew_work (s_table s) in
      case skew_catchup now work s of
        None \<Rightarrow> None
      | Some s1 \<Rightarrow>
          Some (length work,
            s1\<lparr> s_table := fold (reanchor_one ch now_after) work (s_table s1) \<rparr>))"

section \<open>The loop\<close>

record Loop =
  l_sched :: Sched
  l_anchor :: SkewAnchor
  l_running :: bool

text \<open>What wakes the loop, with the clock readings the handler takes: a command
  or the end of the command channel, the skew tick (readings of the check, of
  the two passes and of the new anchor), or the timer of the next fire.\<close>

datatype Wake =
    WCommand Command instant
  | WClosed
  | WSkewTick instant nat instant instant instant nat
  | WTimer instant

definition run_iteration :: "chrono_ops \<Rightarrow> Wake \<Rightarrow> Loop \<Rightarrow> Loop option" where
  "run_iteration ch w l =
     (let (next, t) = peek_next (s_table (l_sched l));
          s = (l_sched l)\<lparr> s_table := t \<rparr>;
          l1 = l\<lparr> l_sched := s \<rparr>
      in case w of
           WClosed \<Rightarrow> Some (l1\<lparr> l_running := False \<rparr>)
         | WCommand cmd now \<Rightarrow>
             if cmd = CShutdown then Some (l1\<lparr> l_running := False \<rparr>)
             else map_option (\<lambda>(_, s'). l1\<lparr> l_sched := s' \<rparr>) (apply_command ch now cmd s)
         | WSkewTick cw cm now now_after aw am \<Rightarrow>
             (case skew_check (l_anchor l) cw cm of
                None \<Rightarrow> Some l1
              | Some skew \<Rightarrow>
                  (case recompute_all_after_skew ch now now_after s of
                     None \<Rightarrow> None
                   | Some (recomputed, s') \<Rightarrow>
                       Some (l1\<lparr> l_sched := s'\<lparr> s_diag := s_diag s' @ [ClockSkewDetected skew recomputed] \<rparr>,
                                l_anchor := \<lparr> sa_wall = aw, sa_mono = am \<rparr> \<rparr>)))
         | WTimer now_wall \<Rightarrow>
             if next = None then None
             else
               (let (live_top, t2) = peek_next t; s2 = s\<lparr> s_table := t2 \<rparr> in
                case live_top of
                  None \<Rightarrow> Some (l1\<lparr> l_sched := s2 \<rparr>)
                | Some node \<Rightarrow>
                    if fire_at node \<le> now_wall
                    then map_option (\<lambda>s'. l1\<lparr> l_sched := s' \<rparr>) (fire_due_entries ch now_wall s2)
                    else Some (l1\<lparr> l_sched := s2 \<rparr>)))"

section \<open>Lemmas on emission\<close>

definition sent_times :: "CronId \<Rightarrow> FireChan \<Rightarrow> instant list" where
  "sent_times k c = map fe_scheduled_at (filter (\<lambda>ev. fe_cron_id ev = k) (sent c))"

lemma chan_sendD:
  "chan_send ev c = Some c' \<Longrightarrow> sent c' = sent c @ [ev]"
  by (auto simp: chan_send_def split: option.splits nat.splits)

lemma chan_send_open: "remaining c = None \<Longrightarrow>
  chan_send ev c = Some (c\<lparr> sent := sent c @ [ev] \<rparr>)"
  by (simp add: chan_send_def)

lemma chan_send_open': "remaining c = None \<Longrightarrow> chan_send ev c = Some c' \<Longrightarrow> remaining c' = None"
  by (auto simp: chan_send_def)

lemma send_all_sent:
  "send_all evs c = (ok, c') \<Longrightarrow> \<exists>pre post. evs = pre @ post \<and> sent c' = sent c @ pre \<and> (ok \<longrightarrow> post = [])"
proof (induction evs arbitrary: c)
  case (Cons ev evs)
  show ?case
  proof (cases "chan_send ev c")
    case None
    then have "\<not> ok" "c' = c" using Cons.prems by auto
    then show ?thesis by (intro exI[of _ "[]"] exI[of _ "ev # evs"]) simp
  next
    case (Some c1)
    then have "send_all evs c1 = (ok, c')" using Cons.prems by simp
    from Cons.IH[OF this] obtain pre post
      where "evs = pre @ post" "sent c' = sent c1 @ pre" "ok \<longrightarrow> post = []" by blast
    then show ?thesis using chan_sendD[OF Some] by (intro exI[of _ "ev # pre"] exI[of _ post]) simp
  qed
qed simp

lemma send_all_open:
  "remaining c = None \<Longrightarrow> send_all evs c = (True, c\<lparr> sent := sent c @ evs \<rparr>)"
  by (induction evs arbitrary: c) (auto simp: chan_send_open)

text \<open>The burst that a catch-up resolves to, when the crate's contract holds.\<close>

definition burst :: "MissedFireInputs \<Rightarrow> ResolvedFire list" where
  "burst inp =
     (let w = window (mi_spec inp) (mi_last_fired_at inp) (mi_end inp);
          kept = kept_window w
      in if w = [] then []
         else case mi_mode inp of
           Skip \<Rightarrow> []
         | Coalesce \<Rightarrow> [\<lparr> scheduled_at = last kept, coalesced_count = length kept \<rparr>]
         | Replay \<Rightarrow> map (\<lambda>x. \<lparr> scheduled_at = x, coalesced_count = 1 \<rparr>)
                       (throttle (mi_min_replay_interval inp) None kept))"

lemma CAP_pos: "0 < MISSED_FIRES_COUNT_CAP" "MAX_CATCHUP \<le> MISSED_FIRES_COUNT_CAP"
  by (simp_all add: MISSED_FIRES_COUNT_CAP_def MAX_CATCHUP_def)

lemma process_missed_fires_result:
  assumes ok: "schedule_ok (mi_spec inp)"
    and r: "process_missed_fires inp s = (r, s')"
  shows "(r = Some (Inr ()) \<or> r = Some (Inl (Invariant (lit ''fire channel closed''))))
    \<and> s_table s' = s_table s
    \<and> (\<exists>flag pre post. map (catchup_event inp flag) (burst inp) = pre @ post
         \<and> sent (s_fires s') = sent (s_fires s) @ pre \<and> (r = Some (Inr ()) \<longrightarrow> post = []))
    \<and> (remaining (s_fires s) = None \<longrightarrow> r = Some (Inr ()) \<and> remaining (s_fires s') = None)"
proof -
  define w where "w = window (mi_spec inp) (mi_last_fired_at inp) (mi_end inp)"
  have cm: "count_missed (mi_spec inp) (mi_last_fired_at inp) (mi_end inp) MAX_CATCHUP MISSED_FIRES_COUNT_CAP
      = \<lparr> earliest = kept_window w, total = min MISSED_FIRES_COUNT_CAP (length w),
          saturated = (MISSED_FIRES_COUNT_CAP \<le> length w) \<rparr>"
    unfolding w_def by (rule count_missed_window[OF ok CAP_pos])
  show ?thesis
  proof (cases "w = []")
    case True
    then show ?thesis
      using r CAP_pos by (auto simp: process_missed_fires_def cm burst_def w_def[symmetric])
  next
    case False
    define tot where "tot = min MISSED_FIRES_COUNT_CAP (length w)"
    have pos: "0 < tot" "tot \<noteq> 0" using False CAP_pos by (simp_all add: tot_def)
    have le: "length (kept_window w) \<le> tot" using CAP_pos by (auto simp: tot_def)
    note cm' = cm[folded tot_def]
    have kk: "kept_window (kept_window w) = kept_window w" by simp
    obtain out where
      out: "apply_catchup_with_total (kept_window w) tot (MISSED_FIRES_COUNT_CAP \<le> length w)
              (mi_mode inp) (mi_min_replay_interval inp) = Some (Inr out)"
      and fs: "fires out = burst inp"
      unfolding apply_catchup_result[OF le pos(1)] kk burst_def w_def[symmetric] Let_def
      using False by (cases "mi_mode inp") (auto simp: MAX_CATCHUP_def)
    obtain b c where sa: "send_all (map (catchup_event inp (truncated out \<noteq> None)) (burst inp)) (s_fires s) = (b, c)"
      by fastforce
    have "process_missed_fires inp s = (Some (if b then Inr () else Inl (Invariant (lit ''fire channel closed''))),
        (case truncated out of None \<Rightarrow> s
         | Some t \<Rightarrow> s\<lparr> s_diag := s_diag s @ [CatchupTruncatedEvent (mi_id inp) (missed t)
             (executed t) (dropped t) (truncated_saturated t)] \<rparr>)\<lparr> s_fires := c \<rparr>)"
      using pos(2) sa by (cases "truncated out") (simp_all add: process_missed_fires_def cm' out fs Let_def)
    then have r': "r = Some (if b then Inr () else Inl (Invariant (lit ''fire channel closed'')))"
      "s_table s' = s_table s" "s_fires s' = c"
      using r by (auto split: option.splits)
    obtain pre post where pp: "map (catchup_event inp (truncated out \<noteq> None)) (burst inp) = pre @ post"
      "sent c = sent (s_fires s) @ pre" "b \<longrightarrow> post = []"
      using send_all_sent[OF sa] by blast
    have op: "remaining (s_fires s) = None \<Longrightarrow> b \<and> remaining c = None"
      using send_all_open[of "s_fires s"] sa by auto
    show ?thesis
      unfolding r' using pp op by (cases b) (simp, blast)+
  qed
qed

lemma throttle_sorted: "sorted_wrt (<) xs \<Longrightarrow> sorted_wrt (<) (throttle d lk xs)"
proof (induction d lk xs rule: throttle.induct)
  case (2 d lk x xs)
  then show ?case using throttle_subset[of d "Some x" xs] by auto
qed simp

lemma burst_times:
  assumes "schedule_ok (mi_spec inp)"
  shows "sorted_wrt (<) (times (burst inp))
    \<and> (\<forall>x\<in>set (times (burst inp)). mi_last_fired_at inp < x \<and> x \<le> mi_end inp)"
proof -
  define w where "w = window (mi_spec inp) (mi_last_fired_at inp) (mi_end inp)"
  have srt: "sorted_wrt (<) (kept_window w)"
    unfolding w_def by (intro sorted_wrt_take window_sorted assms)
  have bnd: "x \<in> set (kept_window w) \<Longrightarrow> mi_last_fired_at inp < x \<and> x \<le> mi_end inp" for x
    using window_bounds[OF assms] by (auto simp: w_def dest: in_set_takeD)
  have last: "w \<noteq> [] \<Longrightarrow> last (kept_window w) \<in> set (kept_window w)"
    by (rule last_in_set) (simp add: MAX_CATCHUP_def)
  show ?thesis
    using throttle_sorted[OF srt] throttle_subset[of "mi_min_replay_interval inp" None "kept_window w"]
      bnd last
    by (cases "mi_mode inp") (auto simp: burst_def w_def[symmetric] Let_def comp_def)
qed

lemma sent_times_append:
  "sent c' = sent c @ evs \<Longrightarrow>
   sent_times k c' = sent_times k c @ map fe_scheduled_at (filter (\<lambda>ev. fe_cron_id ev = k) evs)"
  by (simp add: sent_times_def)

lemma process_missed_sent:
  assumes ok: "schedule_ok (mi_spec inp)" and r: "process_missed_fires inp s = (r, s')"
  shows "\<exists>ts. (\<forall>k. sent_times k (s_fires s') = sent_times k (s_fires s) @ (if k = mi_id inp then ts else []))
    \<and> sorted_wrt (<) ts \<and> (\<forall>x\<in>set ts. mi_last_fired_at inp < x \<and> x \<le> mi_end inp)"
proof -
  obtain flag pre post where pp: "map (catchup_event inp flag) (burst inp) = pre @ post"
    "sent (s_fires s') = sent (s_fires s) @ pre"
    using process_missed_fires_result[OF ok r] by blast
  have pre: "pre = map (catchup_event inp flag) (take (length pre) (burst inp))"
    using pp(1) by (metis append_eq_conv_conj take_map)
  define ts where "ts = take (length pre) (times (burst inp))"
  have all: "filter (\<lambda>ev. fe_cron_id ev = k) pre = (if k = mi_id inp then pre else [])" for k
    by (subst (1 2) pre) (auto simp: catchup_event_def filter_empty_conv filter_id_conv)
  have ts': "map fe_scheduled_at pre = ts"
    unfolding ts_def by (subst pre) (simp add: comp_def catchup_event_def take_map)
  have "sent_times k (s_fires s') = sent_times k (s_fires s) @ (if k = mi_id inp then ts else [])" for k
    using sent_times_append[OF pp(2), of k] unfolding all
    by (cases "k = mi_id inp") (simp_all add: ts')
  moreover have "sorted_wrt (<) ts" "\<forall>x\<in>set ts. mi_last_fired_at inp < x \<and> x \<le> mi_end inp"
    using burst_times[OF ok] unfolding ts_def
    by (auto simp: sorted_wrt_take simp del: set_map dest!: in_set_takeD)
  ultimately show ?thesis by blast
qed

section \<open>The invariant of the scheduler\<close>

definition specs_ok :: "EntryTable \<Rightarrow> bool" where
  "specs_ok t \<longleftrightarrow> (\<forall>k e. table_get k t = Some e \<longrightarrow> schedule_ok (e_spec e))"

text \<open>
  Per cron, what has been emitted is increasing, nothing lies beyond the clock
  reading \<open>c\<close>, and the entry's watermark separates the past from the next fire.
\<close>

definition watermark_ok :: "instant \<Rightarrow> instant list \<Rightarrow> Entry \<Rightarrow> bool" where
  "watermark_ok c ts e \<longleftrightarrow> (\<exists>w. e_last_fired_at e = Some w \<and> w \<le> c \<and> (\<forall>x\<in>set ts. x \<le> w)
     \<and> (\<forall>f. e_next_fire_at e = Some f \<longrightarrow> w < f))"

definition emitted_ok :: "instant \<Rightarrow> FireChan \<Rightarrow> bool" where
  "emitted_ok c ch \<longleftrightarrow> (\<forall>k. sorted_wrt (<) (sent_times k ch) \<and> (\<forall>x\<in>set (sent_times k ch). x \<le> c))"

definition sched_invx :: "CronId set \<Rightarrow> instant \<Rightarrow> Sched \<Rightarrow> bool" where
  "sched_invx X c s \<longleftrightarrow> table_inv X (s_table s) \<and> table_exact (s_table s) \<and> specs_ok (s_table s)
     \<and> remaining (s_fires s) = None \<and> emitted_ok c (s_fires s)
     \<and> (\<forall>k e. k \<notin> X \<longrightarrow> table_get k (s_table s) = Some e \<longrightarrow>
          watermark_ok c (sent_times k (s_fires s)) e)"

abbreviation sched_inv :: "instant \<Rightarrow> Sched \<Rightarrow> bool" where
  "sched_inv \<equiv> sched_invx {}"

lemma sched_invD:
  assumes "sched_invx X c s"
  shows "table_inv X (s_table s)" "table_exact (s_table s)" "specs_ok (s_table s)"
    "remaining (s_fires s) = None" "emitted_ok c (s_fires s)"
    "k \<notin> X \<Longrightarrow> table_get k (s_table s) = Some e \<Longrightarrow> watermark_ok c (sent_times k (s_fires s)) e"
  using assms by (auto simp: sched_invx_def)

lemma emitted_ok_append:
  assumes "emitted_ok c ch" "\<forall>k. sent_times k ch' = sent_times k ch @ (if k = i then ts else [])"
    and "sorted_wrt (<) ts" "\<forall>x\<in>set ts. l < x \<and> x \<le> c'" "\<forall>x\<in>set (sent_times i ch). x \<le> l" "c \<le> c'"
  shows "emitted_ok c' ch'"
  unfolding emitted_ok_def
proof
  fix k
  show "sorted_wrt (<) (sent_times k ch') \<and> (\<forall>x\<in>set (sent_times k ch'). x \<le> c')"
    using assms unfolding emitted_ok_def
    by (cases "k = i") (fastforce simp: sorted_wrt_append)+
qed

lemma watermark_ok_mono: "watermark_ok c ts e \<Longrightarrow> c \<le> c' \<Longrightarrow> watermark_ok c' ts e"
  unfolding watermark_ok_def by (meson order_trans)

lemma emitted_ok_mono: "emitted_ok c ch \<Longrightarrow> c \<le> c' \<Longrightarrow> emitted_ok c' ch"
  unfolding emitted_ok_def by (meson order_trans)

lemma sched_inv_mono: "sched_invx X c s \<Longrightarrow> c \<le> c' \<Longrightarrow> sched_invx X c' s"
  unfolding sched_invx_def using watermark_ok_mono emitted_ok_mono by blast

lemma sched_invx_subset: "sched_invx X c s \<Longrightarrow> X \<subseteq> Y \<Longrightarrow> sched_invx Y c s"
  unfolding sched_invx_def using table_inv_mono by blast

lemma specs_okD: "specs_ok t \<Longrightarrow> table_get k t = Some e \<Longrightarrow> schedule_ok (e_spec e)"
  by (simp add: specs_ok_def)

lemma sched_inv_peek:
  assumes "sched_invx X c s"
  shows "sched_invx X c (s\<lparr> s_table := snd (peek_next (s_table s)) \<rparr>)"
proof -
  note i = sched_invD[OF assms]
  note p = peek_next_table[OF i(1)]
  have get: "table_get k (snd (peek_next (s_table s))) = table_get k (s_table s)" for k
    by (simp add: table_get_def p(2))
  have "table_exact (snd (peek_next (s_table s)))"
    using i(2) p(3) by (fastforce simp: table_exact_def get)
  then show ?thesis using i p(1) by (simp add: sched_invx_def specs_ok_def get)
qed

lemma sched_inv_pop:
  assumes "sched_invx X c s" "pop_next (s_table s) = (Some n, t1)"
  shows "sched_invx (insert (he_id n) X) c (s\<lparr> s_table := t1 \<rparr>)"
proof -
  note i = sched_invD[OF assms(1)]
  note p = pop_next_Some[OF i(1) assms(2)]
  have get: "table_get k t1 = table_get k (s_table s)" for k
    by (simp add: table_get_def p(1))
  have "table_exact t1" using i(2) p(2) by (fastforce simp: table_exact_def get)
  then show ?thesis using i p(3) by (simp add: sched_invx_def specs_ok_def get)
qed

lemma sched_inv_send:
  assumes "sched_invx X c s" "chan_send ev (s_fires s) = Some ch" "fe_cron_id ev \<in> X"
    and "\<forall>x\<in>set (sent_times (fe_cron_id ev) (s_fires s)). x < fe_scheduled_at ev"
    and "fe_scheduled_at ev \<le> c"
  shows "sched_invx X c (s\<lparr> s_fires := ch \<rparr>)"
    "sent_times k ch = sent_times k (s_fires s) @ (if k = fe_cron_id ev then [fe_scheduled_at ev] else [])"
proof -
  note i = sched_invD[OF assms(1)]
  have st: "sent_times k ch = sent_times k (s_fires s) @ (if k = fe_cron_id ev then [fe_scheduled_at ev] else [])" for k
    using sent_times_append[OF chan_sendD[OF assms(2)], of k] by simp
  then show "sent_times k ch = sent_times k (s_fires s) @ (if k = fe_cron_id ev then [fe_scheduled_at ev] else [])" .
  have "emitted_ok c ch"
    using i(5) assms(4,5) st
    by (auto simp: emitted_ok_def sorted_wrt_append)
  moreover have "k \<notin> X \<Longrightarrow> sent_times k ch = sent_times k (s_fires s)" for k
    using st[of k] assms(3) by auto
  ultimately show "sched_invx X c (s\<lparr> s_fires := ch \<rparr>)"
    using i chan_send_open'[OF i(4) assms(2)] unfolding sched_invx_def by auto
qed

lemma sched_inv_missed:
  assumes inv: "sched_invx X c s" and k: "mi_id inp \<in> X" "schedule_ok (mi_spec inp)"
    and bnd: "\<forall>x\<in>set (sent_times (mi_id inp) (s_fires s)). x \<le> mi_last_fired_at inp" "mi_end inp \<le> c"
    and r: "process_missed_fires inp s = (r, s')"
  shows "r = Some (Inr ()) \<and> sched_invx X c s' \<and> s_table s' = s_table s
    \<and> (\<forall>i. i \<noteq> mi_id inp \<longrightarrow> sent_times i (s_fires s') = sent_times i (s_fires s))
    \<and> (mi_last_fired_at inp \<le> mi_end inp \<longrightarrow> (\<forall>x\<in>set (sent_times (mi_id inp) (s_fires s')). x \<le> mi_end inp))"
proof -
  note i = sched_invD[OF inv]
  have res: "r = Some (Inr ())" "s_table s' = s_table s" "remaining (s_fires s') = None"
    using process_missed_fires_result[OF k(2) r] i(4) by auto
  obtain ts where ts: "\<And>i. sent_times i (s_fires s') = sent_times i (s_fires s) @ (if i = mi_id inp then ts else [])"
    "sorted_wrt (<) ts" "\<forall>x\<in>set ts. mi_last_fired_at inp < x \<and> x \<le> mi_end inp"
    using process_missed_sent[OF k(2) r] by blast
  have em: "emitted_ok c (s_fires s')"
    using emitted_ok_append[OF i(5), of "s_fires s'" "mi_id inp" ts "mi_last_fired_at inp" c] ts bnd
    by fastforce
  have oth: "j \<notin> X \<Longrightarrow> sent_times j (s_fires s') = sent_times j (s_fires s)" for j
    using ts(1)[of j] k(1) by auto
  then have "sched_invx X c s'"
    using i res em unfolding sched_invx_def by auto
  then show ?thesis using res ts bnd by fastforce
qed

lemma sched_inv_store:
  assumes inv: "sched_invx X c s" and st: "stored k e (s_table s) t'"
    and pre: "table_get k (s_table s) \<noteq> None \<or> no_node k (s_table s)"
    and e: "schedule_ok (e_spec e)" "watermark_ok c (sent_times k (s_fires s)) e"
  shows "sched_invx (X - {k}) c (s\<lparr> s_table := t' \<rparr>)"
  using sched_invD[OF inv] stored_inv[OF st, of X] stored_exact[OF st _ pre] st e
  unfolding sched_invx_def specs_ok_def by (auto simp: stored_def)

section \<open>Every handler keeps the invariant\<close>

text \<open>What a client must respect: a valid schedule, no insertion of an id whose
  lazily deleted nodes are still in the heap, and a watermark that is not in the
  future and not before a fire already emitted.\<close>

definition good_command :: "instant \<Rightarrow> Sched \<Rightarrow> Command \<Rightarrow> bool" where
  "good_command now s cmd \<longleftrightarrow> (case cmd of
     CUpsert cid spec _ _ lf \<Rightarrow> schedule_ok spec
       \<and> (table_get cid (s_table s) \<noteq> None \<or> no_node cid (s_table s))
       \<and> (\<forall>l. lf = Some l \<longrightarrow> l \<le> now \<and> (\<forall>x\<in>set (sent_times cid (s_fires s)). x \<le> l))
   | _ \<Rightarrow> True)"

lemma sent_le: "emitted_ok c ch \<Longrightarrow> x \<in> set (sent_times k ch) \<Longrightarrow> x \<le> c"
  by (auto simp: emitted_ok_def)

lemma install_entry_inv:
  assumes inv: "sched_inv c s" and cn: "c \<le> now"
    and good: "good_command now s (CUpsert cid spec mode d lf)"
  shows "\<exists>v s'. install_entry ch now cid spec mode d lf s = (Some (Inr v), s') \<and> sched_inv now s'"
proof -
  have sp: "schedule_ok spec" and pre: "table_get cid (s_table s) \<noteq> None \<or> no_node cid (s_table s)"
    and lf: "\<And>l. lf = Some l \<Longrightarrow> l \<le> now \<and> (\<forall>x\<in>set (sent_times cid (s_fires s)). x \<le> l)"
    using good by (auto simp: good_command_def)
  have inv': "sched_invx {cid} now s"
    using sched_inv_mono[OF inv cn] by (rule sched_invx_subset) simp
  obtain wm s1 where w: "(case lf of
        Some l \<Rightarrow> if l < now then
            (let (r, s1) = process_missed_fires
               \<lparr> mi_id = cid, mi_spec = spec, mi_mode = mode, mi_min_replay_interval = d,
                 mi_last_fired_at = l, mi_end = now, mi_fired_at = now \<rparr> s
             in (map_option (map_sum (\<lambda>e. e) (\<lambda>_. Some now)) r, s1))
            else (Some (Inr (Some l)), s)
      | None \<Rightarrow> (Some (Inr None), s)) = (Some (Inr wm), s1)"
    and s1: "sched_invx {cid} now s1" "s_table s1 = s_table s"
      "\<forall>x\<in>set (sent_times cid (s_fires s1)). x \<le> now"
    and wm: "wm = None \<or> wm = Some now"
  proof (cases "\<exists>l. lf = Some l \<and> l < now")
    case True
    then obtain l where l: "lf = Some l" "l < now" by blast
    let ?inp = "\<lparr> mi_id = cid, mi_spec = spec, mi_mode = mode, mi_min_replay_interval = d,
       mi_last_fired_at = l, mi_end = now, mi_fired_at = now \<rparr>"
    obtain r s1 where p: "process_missed_fires ?inp s = (r, s1)" by fastforce
    have "r = Some (Inr ()) \<and> sched_invx {cid} now s1 \<and> s_table s1 = s_table s"
      using sched_inv_missed[OF inv' _ _ _ _ p] sp lf[OF l(1)] by simp
    then show ?thesis using that[of "Some now" s1] l p sent_le[OF sched_invD(5)] by auto
  next
    case False
    then have "lf = None \<or> lf = Some now" using lf by (cases lf) auto
    then show ?thesis
      using that[of lf s] inv' sent_le[OF sched_invD(5)[OF inv']] by auto
  qed
  obtain v t' where ups: "table_upsert cid spec mode d
      (case wm of Some w \<Rightarrow> Some w | None \<Rightarrow> Some now)
      (next_eligible_fire ch spec now (case table_get cid (s_table s1) of Some e \<Rightarrow> e_backoff e | None \<Rightarrow> no_backoff))
      (s_table s1) = (v, t')" by fastforce
  have "sched_invx ({cid} - {cid}) now (s1\<lparr>s_table := t'\<rparr>)"
    using sched_inv_store[OF s1(1) upsert_stored[OF ups]] s1(2,3) pre sp wm next_eligible_gt(1)[OF sp]
    by (auto simp: watermark_ok_def)
  then show ?thesis using w ups by (simp add: install_entry_def Let_def)
qed

lemma delete_sched_inv:
  assumes "sched_invx X c s"
  shows "sched_invx X c (s\<lparr> s_table := snd (table_delete k (s_table s)) \<rparr>)"
  using sched_invD[OF assms] delete_inv(1)[OF sched_invD(1)[OF assms], of k] delete_exact
  unfolding sched_invx_def specs_ok_def by (auto simp: table_get_delete split: if_splits)

lemma set_backoff_get:
  "set_backoff k b t = (Some b0, t') \<Longrightarrow>
   \<exists>e. table_get k t = Some e \<and> table_get k t' = Some (e\<lparr>e_backoff := b\<rparr>)
     \<and> (\<forall>i. i \<noteq> k \<longrightarrow> table_get i t' = table_get i t) \<and> t' = snd (set_backoff k b t)"
  by (auto simp: set_backoff_def table_get_update split: option.splits)

lemma set_backoff_None: "set_backoff k b t = (None, t') \<Longrightarrow> t' = t \<and> table_get k t = None"
  by (auto simp: set_backoff_def split: option.splits)

lemma backoff_update_inv:
  assumes inv: "sched_inv c s" and cn: "c \<le> now"
    and r: "apply_backoff_update ch now k b s = (x, s')"
  shows "sched_inv now s' \<and> (x \<longleftrightarrow> table_get k (s_table s) \<noteq> None)"
proof (cases "set_backoff k b (s_table s)")
  case (Pair ob t)
  note i = sched_invD[OF sched_inv_mono[OF inv cn]]
  show ?thesis
  proof (cases ob)
    case None
    then show ?thesis
      using r Pair sched_inv_mono[OF inv cn] set_backoff_None[of k b "s_table s" t]
      by (simp add: apply_backoff_update_def)
  next
    case (Some b0)
    obtain e where e: "table_get k (s_table s) = Some e" "table_get k t = Some (e\<lparr>e_backoff := b\<rparr>)"
      "\<And>i. i \<noteq> k \<Longrightarrow> table_get i t = table_get i (s_table s)" "t = snd (set_backoff k b (s_table s))"
      using set_backoff_get[OF Pair[unfolded Some]] by blast
    have wt: "watermark_ok now (sent_times k (s_fires s)) e" using i(6) e(1) by simp
    have sp: "schedule_ok (e_spec e)" using i(3) e(1) by (rule specs_okD)
    have specs: "specs_ok t"
      unfolding specs_ok_def
    proof (intro allI impI)
      fix j e0 assume "table_get j t = Some e0"
      then show "schedule_ok (e_spec e0)"
        using e(1,2) e(3)[of j] sp specs_okD[OF i(3), of j] by (cases "j = k") auto
    qed
    have tinv: "table_inv {k} t" "table_exact t"
      using table_inv_mono[OF set_backoff_table(1)[OF i(1), of k b], of "{k}"]
        set_backoff_exact[OF i(2), of k b] unfolding e(4)[symmetric] by blast+
    have inv1: "sched_invx {k} now (s\<lparr>s_table := t\<rparr>)"
      using i(4,5,6) tinv specs e(3) unfolding sched_invx_def by auto
    have ek: "e_id (e\<lparr>e_backoff := b\<rparr>) = k" using table_invD(3)[OF i(1) e(1)] by simp
    let ?nf = "next_eligible_fire ch (e_spec e) now b"
    obtain e' where st: "stored k e' t (snd (refresh_next_fire k ?nf None t))"
      "e_next_fire_at e' = ?nf" "e_spec e' = e_spec e" "e_last_fired_at e' = e_last_fired_at e"
      using refresh_stored[OF e(2) ek, of ?nf None] by auto
    have "sched_invx ({k} - {k}) now (s\<lparr>s_table := t\<rparr>\<lparr>s_table := snd (refresh_next_fire k ?nf None t)\<rparr>)"
    proof (rule sched_inv_store[OF inv1])
      show "stored k e' (s_table (s\<lparr>s_table := t\<rparr>)) (snd (refresh_next_fire k ?nf None t))"
        using st(1) by simp
      show "table_get k (s_table (s\<lparr>s_table := t\<rparr>)) \<noteq> None \<or> no_node k (s_table (s\<lparr>s_table := t\<rparr>))"
        using e(2) by simp
      show "schedule_ok (e_spec e')" using sp st(3) by simp
      show "watermark_ok now (sent_times k (s_fires (s\<lparr>s_table := t\<rparr>))) e'"
        using wt st(2,4) next_eligible_gt(1)[OF sp, of ch now b]
        by (fastforce simp: watermark_ok_def)
    qed
    then show ?thesis
      using r Pair Some e(1,2) by (simp add: apply_backoff_update_def Let_def)
  qed
qed

subsection \<open>Firing everything that is due\<close>

definition due_count :: "instant \<Rightarrow> EntryTable \<Rightarrow> nat" where
  "due_count now t = length (filter (\<lambda>h. fire_at h \<le> now) (heap t))"

lemma due_count_mset: "due_count now t = size (filter_mset (\<lambda>h. fire_at h \<le> now) (mset (heap t)))"
  unfolding due_count_def by (simp flip: mset_filter)

lemma due_count_push:
  "sorted (heap t) \<Longrightarrow> (\<forall>f. nf = Some f \<longrightarrow> now < f) \<Longrightarrow> due_count now (push_fire nf k v t) = due_count now t"
  by (cases nf) (auto simp: due_count_mset push_fire_def bh.push_elems)

lemma due_count_refresh:
  "sorted (heap t) \<Longrightarrow> (\<forall>f. nf = Some f \<longrightarrow> now < f) \<Longrightarrow>
   due_count now (snd (refresh_next_fire k nf lf t)) = due_count now t"
  by (auto simp: refresh_next_fire_def Let_def due_count_push split: option.split)
    (simp_all add: due_count_def)

lemma pop_after_peek:
  assumes "peek_next t0 = (Some n, t)"
  obtains t1 where "pop_next t = (Some n, t1)" "heap t = n # heap t1" "live t n"
    "entries t = entries t0" "heap t = drop_stale t0 (heap t0)"
proof -
  have t: "t = t0\<lparr>heap := drop_stale t0 (heap t0)\<rparr>" using assms by (simp add: peek_next_def Let_def)
  obtain xs where d: "drop_stale t0 (heap t0) = n # xs"
    using assms by (auto simp: peek_next_def Let_def heap_pop_def split: list.splits)
  have l: "live t n" using drop_stale_hd[OF d] by (simp add: t table_simps)
  have h: "heap t = n # xs" by (simp add: t d)
  have "drop_stale t (n # xs) = n # xs" using l by simp
  then have "pop_next t = (Some n, t\<lparr>heap := xs\<rparr>)" by (simp add: pop_next_def h heap_pop_def)
  then show ?thesis using that[of "t\<lparr>heap := xs\<rparr>"] l h t by simp
qed

lemma due_count_drop_stale:
  assumes "peek_next t0 = (Some n, t)" "pop_next t = (Some n, t1)" "heap t = n # heap t1"
    "heap t = drop_stale t0 (heap t0)" "fire_at n \<le> now"
  shows "due_count now t1 < due_count now t0"
proof -
  have "heap t0 = takeWhile (\<lambda>x. \<not> live t0 x) (heap t0) @ n # heap t1"
    using assms(3,4) by (metis drop_stale_dropWhile takeWhile_dropWhile_id)
  then have "due_count now t0 = length (filter (\<lambda>h. fire_at h \<le> now)
      (takeWhile (\<lambda>x. \<not> live t0 x) (heap t0) @ n # heap t1))"
    by (simp add: due_count_def)
  then show ?thesis using assms(5) by (simp add: due_count_def)
qed

lemma fire_iteration:
  assumes inv: "sched_inv c s" and cn: "c \<le> now"
    and pk: "peek_next (s_table s) = (Some n, t)" and due: "fire_at n \<le> now"
  shows "\<exists>s'. fire_due (Suc fuel) ch now s = fire_due fuel ch now s'
    \<and> sched_inv now s' \<and> due_count now (s_table s') < due_count now (s_table s)
    \<and> fire_at n \<in> set (sent_times (he_id n) (s_fires s'))
    \<and> (\<forall>k. set (sent_times k (s_fires s)) \<subseteq> set (sent_times k (s_fires s')))
    \<and> (\<forall>k. k \<noteq> he_id n \<longrightarrow> table_get k (s_table s') = table_get k (s_table s))
    \<and> n \<in> scheduled (s_table s)"
proof -
  let ?k = "he_id n"
  obtain t1 where t1: "pop_next t = (Some n, t1)" "heap t = n # heap t1" "live t n"
    "entries t = entries (s_table s)" "heap t = drop_stale (s_table s) (heap (s_table s))"
    using pop_after_peek[OF pk] by blast
  have invt: "sched_inv c (s\<lparr>s_table := t\<rparr>)" using sched_inv_peek[OF inv] pk by simp
  have inv1: "sched_invx {?k} c (s\<lparr>s_table := t1\<rparr>)"
    using sched_inv_pop[OF invt, of n t1] t1(1) by simp
  have ent: "entries t1 = entries (s_table s)"
    using pop_next_Some(1)[OF sched_invD(1)[OF invt], of n t1] t1 by simp
  then have get1: "table_get i t1 = table_get i (s_table s)" for i by (simp add: table_get_def)
  obtain e where e: "table_get ?k t1 = Some e" "e_version e = he_version n"
    using t1(3,4) get1 by (auto simp: live_def table_get_def split: option.splits)
  have es: "table_get ?k (s_table s) = Some e" using e(1) get1 by simp
  have nin: "n \<in> set (heap (s_table s))"
    using drop_stale_subset[of "s_table s" "heap (s_table s)"] t1(2,5) by auto
  have nf: "e_next_fire_at e = Some (fire_at n)"
    using sched_invD(2)[OF inv] nin es e(2) by (auto simp: table_exact_def)
  have sched: "n \<in> scheduled (s_table s)" using es nf e(2) by (simp add: scheduled_iff)
  have sp: "schedule_ok (e_spec e)" using specs_okD[OF sched_invD(3)[OF inv] es] .
  obtain w where w: "e_last_fired_at e = Some w" "w \<le> c"
      "\<forall>x\<in>set (sent_times ?k (s_fires s)). x \<le> w" "w < fire_at n"
    using sched_invD(6)[OF inv _ es] nf by (auto simp: watermark_ok_def)
  let ?ev = "\<lparr> fe_cron_id = ?k, fe_scheduled_at = fire_at n, fe_fired_at = now,
    fe_coalesced_count = 1, fe_catchup_truncated = False \<rparr>"
  obtain cc where cc: "chan_send ?ev (s_fires s) = Some cc"
    using chan_send_open[OF sched_invD(4)[OF inv]] by blast
  have inv1n: "sched_invx {?k} now (s\<lparr>s_table := t1\<rparr>)" using sched_inv_mono[OF inv1 cn] .
  have inv2: "sched_invx {?k} now (s\<lparr>s_table := t1, s_fires := cc\<rparr>)"
    using sched_inv_send(1)[OF inv1n, of ?ev cc] cc w due by fastforce
  have st2: "sent_times i cc = sent_times i (s_fires s) @ (if i = ?k then [fire_at n] else [])" for i
    using sched_inv_send(2)[OF inv1n, of ?ev cc i] cc w due by fastforce
  let ?s2 = "s\<lparr>s_table := t1, s_fires := cc\<rparr>"
  let ?inp = "\<lparr> mi_id = ?k, mi_spec = e_spec e, mi_mode = e_catchup_mode e,
    mi_min_replay_interval = e_min_replay_interval e,
    mi_last_fired_at = fire_at n, mi_end = now, mi_fired_at = now \<rparr>"
  let ?nl = "if fire_at n < now then now else fire_at n"
  obtain s3 where s3: "(if fire_at n < now then process_missed_fires ?inp ?s2 else (Some (Inr ()), ?s2)) = (Some (Inr ()), s3)"
    and inv3: "sched_invx {?k} now s3" "s_table s3 = t1"
    and sent3: "\<forall>i. i \<noteq> ?k \<longrightarrow> sent_times i (s_fires s3) = sent_times i cc"
      "\<forall>x\<in>set (sent_times ?k (s_fires s3)). x \<le> ?nl"
      "set (sent_times ?k cc) \<subseteq> set (sent_times ?k (s_fires s3))"
  proof (cases "fire_at n < now")
    case True
    obtain r s3 where p: "process_missed_fires ?inp ?s2 = (r, s3)" by fastforce
    have b: "\<forall>x\<in>set (sent_times ?k cc). x \<le> fire_at n" using st2[of ?k] w by auto
    have "r = Some (Inr ()) \<and> sched_invx {?k} now s3 \<and> s_table s3 = t1
      \<and> (\<forall>i. i \<noteq> ?k \<longrightarrow> sent_times i (s_fires s3) = sent_times i cc)
      \<and> (\<forall>x\<in>set (sent_times ?k (s_fires s3)). x \<le> now)"
      using sched_inv_missed[OF inv2 _ _ _ _ p] sp b True by simp
    moreover have "set (sent_times ?k cc) \<subseteq> set (sent_times ?k (s_fires s3))"
      using process_missed_sent[OF _ p] sp by fastforce
    ultimately show ?thesis using that[of s3] p True by simp
  next
    case False
    then show ?thesis using that[of ?s2] inv2 st2[of ?k] w due by fastforce
  qed
  let ?nf = "next_eligible_fire ch (e_spec e) now (e_backoff e)"
  let ?t4 = "snd (refresh_next_fire ?k ?nf (Some ?nl) t1)"
  let ?s4 = "s3\<lparr>s_table := ?t4\<rparr>"
  have nd: "(now < fire_at n) = False" using due by simp
  have step: "fire_due (Suc fuel) ch now s = fire_due fuel ch now ?s4"
  proof -
    have "fire_due (Suc fuel) ch now s
      = (case (if fire_at n < now then process_missed_fires ?inp ?s2 else (Some (Inr ()), ?s2)) of
           (None, _) \<Rightarrow> None
         | (Some (Inl _), s2) \<Rightarrow> Some s2
         | (Some (Inr _), s2) \<Rightarrow> fire_due fuel ch now
              (s2\<lparr> s_table := snd (refresh_next_fire ?k ?nf (Some ?nl) (s_table s2)) \<rparr>))"
      unfolding fire_due.simps pk prod.case option.case t1(1) e(1) cc Let_def nd if_False ..
    then show ?thesis unfolding s3 by (simp add: inv3(2))
  qed
  have eid: "e_id e = ?k" using table_invD(3)[OF sched_invD(1)[OF inv] es] .
  have nfgt: "\<forall>f. ?nf = Some f \<longrightarrow> now < f" using next_eligible_gt(1)[OF sp] by blast
  obtain e' where st: "stored ?k e' t1 ?t4" "e_next_fire_at e' = ?nf" "e_spec e' = e_spec e"
    "e_last_fired_at e' = Some ?nl"
    using refresh_stored[OF e(1) eid, of ?nf "Some ?nl"] by auto
  have nl: "?nl = now" using due by auto
  have "sched_invx ({?k} - {?k}) now ?s4"
  proof (rule sched_inv_store[OF inv3(1)])
    show "stored ?k e' (s_table s3) ?t4" using st(1) inv3(2) by simp
    show "table_get ?k (s_table s3) \<noteq> None \<or> no_node ?k (s_table s3)" using e(1) inv3(2) by simp
    show "schedule_ok (e_spec e')" using sp st(3) by simp
    show "watermark_ok now (sent_times ?k (s_fires s3)) e'"
      using st(2,4) sent3(2) nfgt unfolding watermark_ok_def nl by simp
  qed
  then have inv4: "sched_inv now ?s4" by simp
  have srt1: "sorted (heap t1)" using table_invD(1)[OF sched_invD(1)[OF inv1]] by simp
  have "due_count now ?t4 < due_count now (s_table s)"
    using due_count_drop_stale[OF pk t1(1,2,5) due] due_count_refresh[OF srt1 nfgt] by simp
  moreover have "fire_at n \<in> set (sent_times ?k (s_fires ?s4))"
    using sent3(3) st2[of ?k] by auto
  moreover have "set (sent_times i (s_fires s)) \<subseteq> set (sent_times i (s_fires ?s4))" for i
    using sent3 st2[of i] by (cases "i = ?k") auto
  moreover have "i \<noteq> ?k \<Longrightarrow> table_get i (s_table ?s4) = table_get i (s_table s)" for i
    using st(1) get1 by (simp add: stored_def)
  ultimately show ?thesis using step inv4 sched by (intro exI[of _ ?s4]) simp
qed

lemma scheduled_unique:
  "h \<in> scheduled t \<Longrightarrow> n \<in> scheduled t \<Longrightarrow> he_id h = he_id n \<Longrightarrow> h = n"
  by (cases h; cases n) (auto simp: scheduled_iff)

lemma fire_due_spec:
  assumes "sched_inv c s" "c \<le> now" "due_count now (s_table s) < fuel"
  shows "\<exists>s'. fire_due fuel ch now s = Some s' \<and> sched_inv now s'
    \<and> (\<forall>h\<in>scheduled (s_table s'). now < fire_at h)
    \<and> (\<forall>h\<in>scheduled (s_table s). fire_at h \<le> now \<longrightarrow>
         fire_at h \<in> set (sent_times (he_id h) (s_fires s')))
    \<and> (\<forall>k. set (sent_times k (s_fires s)) \<subseteq> set (sent_times k (s_fires s')))"
  using assms
proof (induction fuel arbitrary: c s)
  case (Suc fuel)
  note inv = \<open>sched_inv c s\<close>
  obtain r t where pk: "peek_next (s_table s) = (r, t)" by fastforce
  have inv': "sched_inv now (s\<lparr>s_table := t\<rparr>)"
    using sched_inv_mono[OF sched_inv_peek[OF inv] Suc.prems(2)] pk by simp
  have sch: "scheduled t = scheduled (s_table s)"
    using pk by (auto simp: peek_next_def Let_def table_simps)
  show ?case
  proof (cases r)
    case None
    then have "scheduled (s_table s) = {}"
      using peek_next_None[OF sched_invD(1)[OF inv]] pk by auto
    then show ?thesis using None pk inv' sch by simp
  next
    case (Some n)
    have least: "h \<in> scheduled (s_table s) \<Longrightarrow> fire_at n \<le> fire_at h" for h
      using peek_next_Some(3)[OF sched_invD(1)[OF inv], of n h] pk Some heap_order_fire by auto
    show ?thesis
    proof (cases "fire_at n \<le> now")
      case False
      then have "\<forall>h\<in>scheduled (s_table s). now < fire_at h" using least by fastforce
      then show ?thesis using False Some pk inv' sch by fastforce
    next
      case True
      obtain s1 where s1: "fire_due (Suc fuel) ch now s = fire_due fuel ch now s1" "sched_inv now s1"
        "due_count now (s_table s1) < due_count now (s_table s)"
        "fire_at n \<in> set (sent_times (he_id n) (s_fires s1))"
        "\<forall>k. set (sent_times k (s_fires s)) \<subseteq> set (sent_times k (s_fires s1))"
        "\<forall>k. k \<noteq> he_id n \<longrightarrow> table_get k (s_table s1) = table_get k (s_table s)"
        "n \<in> scheduled (s_table s)"
        using fire_iteration[OF inv Suc.prems(2) pk[unfolded Some] True] by blast
      have "due_count now (s_table s1) < fuel" using s1(3) Suc.prems(3) by simp
      from Suc.IH[OF s1(2) order_refl this] obtain s' where s':
        "fire_due fuel ch now s1 = Some s'" "sched_inv now s'"
        "\<forall>h\<in>scheduled (s_table s'). now < fire_at h"
        "\<forall>h\<in>scheduled (s_table s1). fire_at h \<le> now \<longrightarrow> fire_at h \<in> set (sent_times (he_id h) (s_fires s'))"
        "\<forall>k. set (sent_times k (s_fires s1)) \<subseteq> set (sent_times k (s_fires s'))" by blast
      have "fire_at h \<in> set (sent_times (he_id h) (s_fires s'))"
        if h: "h \<in> scheduled (s_table s)" "fire_at h \<le> now" for h
      proof (cases "he_id h = he_id n")
        case True
        then show ?thesis using scheduled_unique[OF h(1) s1(7)] s1(4) s'(5) by auto
      next
        case False
        then have "h \<in> scheduled (s_table s1)" using h(1) s1(6) by (simp add: scheduled_iff)
        then show ?thesis using s'(4) h(2) by blast
      qed
      moreover have "fire_due (Suc fuel) ch now s = Some s'" unfolding s1(1) by (rule s'(1))
      moreover have "set (sent_times k (s_fires s)) \<subseteq> set (sent_times k (s_fires s'))" for k
        using s1(5) s'(5) order_trans by metis
      ultimately show ?thesis using s'(2,3) by blast
    qed
  qed
qed simp

lemma due_count_le: "due_count now t \<le> length (heap t)"
  by (simp add: due_count_def)

lemma fire_due_entries_spec:
  assumes "sched_inv c s" "c \<le> now"
  shows "\<exists>s'. fire_due_entries ch now s = Some s' \<and> sched_inv now s'
    \<and> (\<forall>h\<in>scheduled (s_table s'). now < fire_at h)
    \<and> (\<forall>h\<in>scheduled (s_table s). fire_at h \<le> now \<longrightarrow>
         fire_at h \<in> set (sent_times (he_id h) (s_fires s')))
    \<and> (\<forall>k. set (sent_times k (s_fires s)) \<subseteq> set (sent_times k (s_fires s')))"
  unfolding fire_due_entries_def
  by (rule fire_due_spec[OF assms]) (simp add: due_count_le less_Suc_eq_le)

subsection \<open>Clock skew\<close>

lemma skew_catchup_inv:
  assumes "sched_invx X now s" "distinct (map w_id work)" "set (map w_id work) \<inter> X = {}"
    and "\<forall>item\<in>set work. \<exists>e. table_get (w_id item) (s_table s) = Some e
      \<and> w_last_fired item = e_last_fired_at e \<and> w_spec item = e_spec e"
  shows "\<exists>s'. skew_catchup now work s = Some s' \<and> sched_invx (X \<union> set (map w_id work)) now s'
    \<and> s_table s' = s_table s"
  using assms
proof (induction work arbitrary: X s)
  case (Cons item work)
  let ?k = "w_id item"
  obtain e where e: "table_get ?k (s_table s) = Some e" "w_last_fired item = e_last_fired_at e"
    "w_spec item = e_spec e" using Cons.prems(4) by auto
  obtain l where l: "e_last_fired_at e = Some l" "\<forall>x\<in>set (sent_times ?k (s_fires s)). x \<le> l"
    using sched_invD(6)[OF Cons.prems(1) _ e(1)] Cons.prems(3) by (auto simp: watermark_ok_def)
  have invX: "sched_invx (insert ?k X) now s"
    using Cons.prems(1) by (rule sched_invx_subset) blast
  let ?inp = "\<lparr> mi_id = ?k, mi_spec = w_spec item, mi_mode = w_mode item,
     mi_min_replay_interval = w_throttle item, mi_last_fired_at = l, mi_end = now, mi_fired_at = now \<rparr>"
  obtain s1 where s1: "skew_catchup now (item # work) s = skew_catchup now work s1"
    "sched_invx (insert ?k X) now s1" "s_table s1 = s_table s"
  proof (cases "l < now")
    case True
    obtain r s1 where p: "process_missed_fires ?inp s = (r, s1)" by fastforce
    have "r = Some (Inr ()) \<and> sched_invx (insert ?k X) now s1 \<and> s_table s1 = s_table s"
      using sched_inv_missed[OF invX _ _ _ _ p] specs_okD[OF sched_invD(3)[OF invX] e(1)] e l by simp
    then show ?thesis using that[of s1] p True e l by simp
  next
    case False
    then show ?thesis using that[of s] invX e l by simp
  qed
  have "\<exists>s'. skew_catchup now work s1 = Some s'
    \<and> sched_invx (insert ?k X \<union> set (map w_id work)) now s' \<and> s_table s' = s_table s1"
  proof (rule Cons.IH[OF s1(2)])
    show "distinct (map w_id work)" using Cons.prems(2) by simp
    show "set (map w_id work) \<inter> insert ?k X = {}" using Cons.prems(2,3) by auto
    show "\<forall>item\<in>set work. \<exists>e. table_get (w_id item) (s_table s1) = Some e
      \<and> w_last_fired item = e_last_fired_at e \<and> w_spec item = e_spec e"
      unfolding s1(3) using Cons.prems(4) by simp
  qed
  moreover have "insert ?k X \<union> set (map w_id work) = X \<union> set (map w_id (item # work))" by auto
  ultimately show ?case unfolding s1(1,3) by simp
qed auto

lemma reanchor_inv:
  assumes "sched_invx X na (s\<lparr>s_table := t\<rparr>)" "distinct (map w_id work)"
    and "\<forall>item\<in>set work. \<exists>e l. table_get (w_id item) t = Some e \<and> e_last_fired_at e = Some l
      \<and> w_last_fired item = Some l \<and> l \<le> na"
  shows "sched_invx (X - set (map w_id work)) na (s\<lparr>s_table := fold (reanchor_one ch na) work t\<rparr>)"
  using assms
proof (induction work arbitrary: X t)
  case (Cons item work)
  let ?k = "w_id item"
  obtain e l where e: "table_get ?k t = Some e" "e_last_fired_at e = Some l"
    "w_last_fired item = Some l" "l \<le> na" using Cons.prems(3) by auto
  note i = sched_invD[OF Cons.prems(1)]
  have sp: "schedule_ok (e_spec e)" using specs_okD[OF i(3)] e(1) by simp
  have eid: "e_id e = ?k" using table_invD(3)[OF i(1)] e(1) by simp
  let ?nf = "next_eligible_fire ch (e_spec e) na (e_backoff e)"
  let ?nl = "if l < na then Some na else None"
  have one: "reanchor_one ch na item t = snd (refresh_next_fire ?k ?nf ?nl t)"
    by (simp add: reanchor_one_def e Let_def)
  obtain e' where st: "stored ?k e' t (reanchor_one ch na item t)" "e_next_fire_at e' = ?nf"
    "e_spec e' = e_spec e" "e_last_fired_at e' = (case ?nl of Some x \<Rightarrow> Some x | None \<Rightarrow> e_last_fired_at e)"
    using refresh_stored[OF e(1) eid, of ?nf ?nl] unfolding one by blast
  have nl: "e_last_fired_at e' = Some na" using st(4) e(2,4) by (auto split: if_splits)
  have "sched_invx (X - {?k}) na (s\<lparr>s_table := t\<rparr>\<lparr>s_table := reanchor_one ch na item t\<rparr>)"
  proof (rule sched_inv_store[OF Cons.prems(1)])
    show "stored ?k e' (s_table (s\<lparr>s_table := t\<rparr>)) (reanchor_one ch na item t)" using st(1) by simp
    show "table_get ?k (s_table (s\<lparr>s_table := t\<rparr>)) \<noteq> None \<or> no_node ?k (s_table (s\<lparr>s_table := t\<rparr>))"
      using e(1) by simp
    show "schedule_ok (e_spec e')" using sp st(3) by simp
    show "watermark_ok na (sent_times ?k (s_fires (s\<lparr>s_table := t\<rparr>))) e'"
      using nl st(2) next_eligible_gt(1)[OF sp, of ch na "e_backoff e"] sent_le[OF i(5)]
      by (auto simp: watermark_ok_def)
  qed
  then have "sched_invx (X - {?k}) na (s\<lparr>s_table := reanchor_one ch na item t\<rparr>)" by simp
  then have "sched_invx (X - {?k} - set (map w_id work)) na
      (s\<lparr>s_table := fold (reanchor_one ch na) work (reanchor_one ch na item t)\<rparr>)"
  proof (rule Cons.IH)
    show "distinct (map w_id work)" using Cons.prems(2) by simp
    show "\<forall>it\<in>set work. \<exists>e l. table_get (w_id it) (reanchor_one ch na item t) = Some e
      \<and> e_last_fired_at e = Some l \<and> w_last_fired it = Some l \<and> l \<le> na"
    proof
      fix it assume it: "it \<in> set work"
      then have "w_id it \<in> set (map w_id work)" by simp
      then have "w_id it \<noteq> ?k" using Cons.prems(2) by (metis distinct.simps(2) list.simps(9))
      then have "table_get (w_id it) (reanchor_one ch na item t) = table_get (w_id it) t"
        using st(1) by (simp add: stored_def)
      then show "\<exists>e l. table_get (w_id it) (reanchor_one ch na item t) = Some e
        \<and> e_last_fired_at e = Some l \<and> w_last_fired it = Some l \<and> l \<le> na"
        using Cons.prems(3) it by simp
    qed
  qed
  moreover have "X - {?k} - set (map w_id work) = X - set (map w_id (item # work))" by auto
  ultimately show ?case by simp
qed simp

lemma skew_work_items:
  assumes "sched_invx X c s" "item \<in> set (skew_work (s_table s))"
  shows "\<exists>e. table_get (w_id item) (s_table s) = Some e \<and> w_last_fired item = e_last_fired_at e
    \<and> w_spec item = e_spec e"
proof -
  note i = table_invD[OF sched_invD(1)[OF assms(1)]]
  obtain k e where ke: "(k, e) \<in> set (entries (s_table s))" "w_id item = e_id e"
    "w_last_fired item = e_last_fired_at e" "w_spec item = e_spec e"
    using assms(2) by (auto simp: skew_work_def)
  then have "table_get k (s_table s) = Some e" using i(2) by (simp add: table_get_def)
  then show ?thesis using ke i(3) by metis
qed

lemma skew_work_distinct:
  assumes "sched_invx X c s"
  shows "distinct (map w_id (skew_work (s_table s)))"
proof -
  note i = table_invD[OF sched_invD(1)[OF assms]]
  have "e_id e = k" if "(k, e) \<in> set (entries (s_table s))" for k e
    using that i(2) i(3)[of k e] by (simp add: table_get_def)
  then have "map w_id (skew_work (s_table s)) = map fst (entries (s_table s))"
    by (auto simp: skew_work_def comp_def case_prod_beta)
  then show ?thesis using i(2) by simp
qed

lemma recompute_skew_inv:
  assumes inv: "sched_inv c s" and cn: "c \<le> now" "now \<le> na"
  shows "\<exists>n s'. recompute_all_after_skew ch now na s = Some (n, s') \<and> sched_inv na s'
    \<and> n = length (entries (s_table s))"
proof -
  let ?work = "skew_work (s_table s)"
  have invn: "sched_inv now s" using sched_inv_mono[OF inv cn(1)] .
  obtain s1 where s1: "skew_catchup now ?work s = Some s1" "sched_invx (set (map w_id ?work)) now s1"
    "s_table s1 = s_table s"
    using skew_catchup_inv[OF invn skew_work_distinct[OF inv]] skew_work_items[OF inv] by auto
  have "sched_invx (set (map w_id ?work) - set (map w_id ?work)) na
      (s1\<lparr>s_table := fold (reanchor_one ch na) ?work (s_table s1)\<rparr>)"
  proof (rule reanchor_inv)
    show "sched_invx (set (map w_id ?work)) na (s1\<lparr>s_table := s_table s1\<rparr>)"
      using sched_inv_mono[OF s1(2) cn(2)] by simp
    show "distinct (map w_id ?work)" by (rule skew_work_distinct[OF inv])
    show "\<forall>item\<in>set ?work. \<exists>e l. table_get (w_id item) (s_table s1) = Some e
      \<and> e_last_fired_at e = Some l \<and> w_last_fired item = Some l \<and> l \<le> na"
    proof
      fix item assume "item \<in> set ?work"
      then obtain e where e: "table_get (w_id item) (s_table s) = Some e"
        "w_last_fired item = e_last_fired_at e" using skew_work_items[OF inv] by blast
      then obtain l where "e_last_fired_at e = Some l" "l \<le> now"
        using sched_invD(6)[OF invn _ e(1)] by (auto simp: watermark_ok_def)
      then show "\<exists>e l. table_get (w_id item) (s_table s1) = Some e
        \<and> e_last_fired_at e = Some l \<and> w_last_fired item = Some l \<and> l \<le> na"
        using e cn(2) s1(3) by auto
    qed
  qed
  then show ?thesis using s1(1,3) by (simp add: recompute_all_after_skew_def Let_def skew_work_def)
qed

section \<open>Runs of the loop\<close>

definition new_loop :: "SkewAnchor \<Rightarrow> Loop" where
  "new_loop a = \<lparr> l_sched = \<lparr> s_table = new_table, s_fires = \<lparr> sent = [], remaining = None \<rparr>, s_diag = [] \<rparr>,
     l_anchor = a, l_running = True \<rparr>"

text \<open>The latest clock reading of a wake-up, and the wake-ups of a run whose
  wall clock never steps back and whose clients respect their contract.\<close>

fun wake_time :: "instant \<Rightarrow> Wake \<Rightarrow> instant" where
  "wake_time c (WCommand _ now) = now"
| "wake_time c WClosed = c"
| "wake_time c (WSkewTick _ _ now na _ _) = na"
| "wake_time c (WTimer now) = now"

definition peeked :: "Loop \<Rightarrow> Sched" where
  "peeked l = (l_sched l)\<lparr> s_table := snd (peek_next (s_table (l_sched l))) \<rparr>"

fun good_wake :: "instant \<Rightarrow> Loop \<Rightarrow> Wake \<Rightarrow> bool" where
  "good_wake c l (WCommand cmd now) = (c \<le> now \<and> good_command now (peeked l) cmd)"
| "good_wake c l WClosed = True"
| "good_wake c l (WSkewTick _ _ now na _ _) = (c \<le> now \<and> now \<le> na)"
| "good_wake c l (WTimer now) = (c \<le> now \<and> fst (peek_next (s_table (l_sched l))) \<noteq> None)"

inductive reachable :: "chrono_ops \<Rightarrow> instant \<Rightarrow> Loop \<Rightarrow> bool" for ch where
  start: "reachable ch c (new_loop a)"
| wake: "reachable ch c l \<Longrightarrow> l_running l \<Longrightarrow> good_wake c l w \<Longrightarrow>
    run_iteration ch w l = Some l' \<Longrightarrow> reachable ch (wake_time c w) l'"

lemma apply_command_inv:
  assumes inv: "sched_inv c s" and cn: "c \<le> now" and good: "good_command now s cmd"
    and ns: "cmd \<noteq> CShutdown"
  shows "\<exists>r s'. apply_command ch now cmd s = Some (r, s') \<and> sched_inv now s'"
proof (cases cmd)
  case (CUpsert cid spec mode d lf)
  then show ?thesis
    using install_entry_inv[OF inv cn good[unfolded CUpsert], of ch]
    by (auto simp: apply_command_def)
next
  case (CDelete cid)
  then show ?thesis
    using delete_sched_inv[OF sched_inv_mono[OF inv cn], of cid]
    by (simp add: apply_command_def case_prod_beta)
next
  case (CUpdateBackoffState cid b lf n)
  obtain x s' where r: "apply_backoff_update ch now cid
      \<lparr> bs_backoff = b, bs_last_failure_at = lf, bs_consecutive_failures = n \<rparr> s = (x, s')" by fastforce
  then show ?thesis
    using backoff_update_inv[OF inv cn r] CUpdateBackoffState by (simp add: apply_command_def)
qed (use sched_inv_mono[OF inv cn] ns in \<open>auto simp: apply_command_def\<close>)

lemma sched_inv_diag: "sched_invx X c (s\<lparr>s_diag := d\<rparr>) = sched_invx X c s"
  by (simp add: sched_invx_def)

lemma run_iteration_inv:
  assumes inv: "sched_inv c (l_sched l)" and good: "good_wake c l w"
  shows "\<exists>l'. run_iteration ch w l = Some l' \<and> sched_inv (wake_time c w) (l_sched l')"
proof -
  obtain nx t where pk: "peek_next (s_table (l_sched l)) = (nx, t)" by fastforce
  have invp: "sched_inv c ((l_sched l)\<lparr>s_table := t\<rparr>)" using sched_inv_peek[OF inv] pk by simp
  show ?thesis
  proof (cases w)
    case (WCommand cmd now)
    have g: "c \<le> now" "good_command now ((l_sched l)\<lparr>s_table := t\<rparr>) cmd"
      using good WCommand by (simp_all add: peeked_def pk)
    show ?thesis
    proof (cases "cmd = CShutdown")
      case True
      then show ?thesis using WCommand pk sched_inv_mono[OF invp g(1)] by (simp add: run_iteration_def Let_def)
    next
      case False
      then show ?thesis
        using apply_command_inv[OF invp g False, of ch] WCommand pk
        by (auto simp: run_iteration_def Let_def)
    qed
  next
    case WClosed
    then show ?thesis using pk invp by (simp add: run_iteration_def Let_def)
  next
    case (WSkewTick cw cm now na aw am)
    then have cn: "c \<le> now" "now \<le> na" using good by auto
    show ?thesis
      using recompute_skew_inv[OF invp cn, of ch] WSkewTick pk sched_inv_mono[OF invp, of na] cn
      by (auto simp: run_iteration_def Let_def sched_inv_diag split: option.split)
  next
    case (WTimer now)
    then have cn: "c \<le> now" and nx: "nx \<noteq> None" using good pk by auto
    obtain nx2 t2 where pk2: "peek_next t = (nx2, t2)" by fastforce
    have inv2: "sched_inv c ((l_sched l)\<lparr>s_table := t2\<rparr>)" using sched_inv_peek[OF invp] pk2 by simp
    show ?thesis
      using fire_due_entries_spec[OF inv2 cn, of ch] sched_inv_mono[OF inv2 cn] WTimer pk pk2 nx
      by (auto simp: run_iteration_def Let_def split: option.split)
  qed
qed

lemma reachable_inv: "reachable ch c l \<Longrightarrow> sched_inv c (l_sched l)"
proof (induction rule: reachable.induct)
  case (start c a)
  show ?case
    by (simp add: new_loop_def sched_invx_def table_inv_def new_table_def table_exact_def specs_ok_def
        table_get_def scheduled_def emitted_ok_def sent_times_def)
next
  case (wake c l w l')
  then show ?case using run_iteration_inv[of c l w ch] by auto
qed

text \<open>A first run: one cron is installed at time 0 and the timer wakes at its
  first fire.\<close>

definition demo_loop :: "Loop option" where
  "demo_loop = run_iteration chrono_std
     (WCommand (CUpsert [99] half_hours Coalesce 0 None) 0) (new_loop \<lparr> sa_wall = 0, sa_mono = 0 \<rparr>)"

lemma demo_loop_eq:
  "demo_loop = Some \<lparr> l_sched = \<lparr> s_table = \<lparr> entries = [([99], \<lparr> e_id = [99], e_spec = half_hours,
       e_catchup_mode = Coalesce, e_min_replay_interval = 0, e_last_fired_at = Some 0,
       e_next_fire_at = Some 1800, e_backoff = no_backoff, e_version = 1 \<rparr>)],
       heap = [HeapEntry 1800 [99] 1] \<rparr>, s_fires = \<lparr> sent = [], remaining = None \<rparr>, s_diag = [] \<rparr>,
     l_anchor = \<lparr> sa_wall = 0, sa_mono = 0 \<rparr>, l_running = True \<rparr>"
proof -
  have nx: "next_eligible_fire chrono_std half_hours 0 no_backoff = Some 1800"
    by (simp add: next_eligible_fire_def next_after_def half_hours_def fallback_zone_def
        is_first_local_occurrence_def naive_local_def upto.simps retry_after_state_def no_backoff_def)
  show ?thesis
    by (simp add: demo_loop_def run_iteration_def new_loop_def new_table_def peek_next_def heap_pop_def
        apply_command_def install_entry_def table_upsert_def table_get_def nx push_fire_def heap_push_def)
qed

lemma demo_reachable: "reachable chrono_std 0 (the demo_loop)"
proof -
  have w: "run_iteration chrono_std (WCommand (CUpsert [99] half_hours Coalesce 0 None) 0)
      (new_loop \<lparr> sa_wall = 0, sa_mono = 0 \<rparr>) = Some (the demo_loop)"
    using demo_loop_eq by (simp add: demo_loop_def)
  have "reachable chrono_std (wake_time 0 (WCommand (CUpsert [99] half_hours Coalesce 0 None) 0)) (the demo_loop)"
    by (rule reachable.wake[OF reachable.start[of chrono_std 0 "\<lparr> sa_wall = 0, sa_mono = 0 \<rparr>"] _ _ w])
      (simp_all add: new_loop_def good_command_def half_hours_ok no_node_def peeked_def new_table_def
        peek_next_def)
  then show ?thesis by simp
qed

section \<open>Properties\<close>

text \<open>C7. No fire is emitted twice: in every run whose wall clock does not step
  back and whose clients respect their contract, the times emitted for a cron,
  over regular fires, start-up catch-up, starvation and clock-skew recovery,
  are strictly increasing and never in the future.\<close>

theorem no_double_fire:
  assumes "reachable ch c l"
  shows "sorted_wrt (<) (sent_times k (s_fires (l_sched l)))
    \<and> distinct (sent_times k (s_fires (l_sched l)))
    \<and> (\<forall>x\<in>set (sent_times k (s_fires (l_sched l))). x \<le> c)"
  using sched_invD(5)[OF reachable_inv[OF assms]] by (simp add: emitted_ok_def strict_sorted_iff)

lemma no_double_fire_witness:
  "distinct (sent_times [99] (s_fires (l_sched (the demo_loop))))"
  using no_double_fire[OF demo_reachable] by blast





text \<open>Catch-up emits exactly what its policy prescribes over the whole missed
  window, for a consumer that stays: nothing in skip mode, one merged fire in
  coalesce mode, the throttled times in replay mode, over the first
  MAX_CATCHUP missed fires, in order and without touching the table.\<close>

theorem catchup_emits_policy:
  assumes "schedule_ok (mi_spec inp)" "remaining (s_fires s) = None"
  shows "\<exists>flag s'. process_missed_fires inp s = (Some (Inr ()), s') \<and> s_table s' = s_table s
    \<and> sent (s_fires s') = sent (s_fires s) @ map (catchup_event inp flag) (burst inp)
    \<and> sorted_wrt (<) (times (burst inp))
    \<and> set (times (burst inp)) \<subseteq> set (window (mi_spec inp) (mi_last_fired_at inp) (mi_end inp))"
proof -
  obtain r s' where r: "process_missed_fires inp s = (r, s')" by fastforce
  define w where "w = window (mi_spec inp) (mi_last_fired_at inp) (mi_end inp)"
  have last: "w \<noteq> [] \<Longrightarrow> last (kept_window w) \<in> set (kept_window w)"
    by (rule last_in_set) (simp add: MAX_CATCHUP_def)
  have "set (times (burst inp)) \<subseteq> set w"
    using last throttle_subset[of "mi_min_replay_interval inp" None "kept_window w"]
      set_take_subset[of MAX_CATCHUP w]
    by (cases "mi_mode inp") (auto simp: burst_def w_def[symmetric] Let_def comp_def)
  then show ?thesis
    using process_missed_fires_result[OF assms(1) r] burst_times[OF assms(1)] assms(2) r
    by (auto simp: w_def)
qed

lemma catchup_emits_policy_witness:
  "\<exists>s'. process_missed_fires \<lparr> mi_id = [99], mi_spec = half_hours, mi_mode = Skip,
       mi_min_replay_interval = 0, mi_last_fired_at = 0, mi_end = 9000, mi_fired_at = 9000 \<rparr>
     \<lparr> s_table = new_table, s_fires = \<lparr> sent = [], remaining = None \<rparr>, s_diag = [] \<rparr>
     = (Some (Inr ()), s') \<and> s_table s' = new_table"
  using catchup_emits_policy[of "\<lparr> mi_id = [99], mi_spec = half_hours, mi_mode = Skip,
       mi_min_replay_interval = 0, mi_last_fired_at = 0, mi_end = 9000, mi_fired_at = 9000 \<rparr>"
     "\<lparr> s_table = new_table, s_fires = \<lparr> sent = [], remaining = None \<rparr>, s_diag = [] \<rparr>"] half_hours_ok
  by auto

end
