(* ===== verification/Cron_Security.thy ===== *)
theory Cron_Security
  imports Prelude
begin

text \<open>
  Model of \<open>la-daemon/src/cron_security.rs\<close>: which edits of a cron need a new
  confirmation, and the life of the confirmation tokens.  The 64-bit hasher is
  the parameter \<open>hasher\<close> on the tuple of hashed fields and the random generator
  the argument \<open>rnd\<close> of a call (\<open>None\<close> when it fails).  JSON values are
  represented by their canonical serialisation.  Monotonic instants are
  nanoseconds.
\<close>

section \<open>Sensitive fields\<close>

definition CONFIRMATION_TOKEN_TTL :: nat where
  "CONFIRMATION_TOKEN_TTL = 5 * 60 * 1000000000"

definition MAX_PROMPT_BYTES :: nat where "MAX_PROMPT_BYTES = 64 * 1024"

datatype CronSensitiveField =
    Prompt | BackendId | SpawnArgs | CronExpr | Timezone | CatchupModeField
  | MaxRunsPerDay | CostBudgetUsdPerDay

definition SENSITIVE_CRON_FIELDS :: "CronSensitiveField list" where
  "SENSITIVE_CRON_FIELDS = [Prompt, BackendId, SpawnArgs, CronExpr, Timezone, CatchupModeField,
     MaxRunsPerDay, CostBudgetUsdPerDay]"

datatype CronSecurityError =
    PromptTooLarge nat nat
  | InvalidConfirmationToken
  | ExpiredConfirmationToken
  | TokenCronMismatch
  | SensitiveSnapshotChanged
  | RandomToken

record CronSecuritySnapshot =
  sn_backend_id :: str
  sn_spawn_args :: str
  sn_prompt :: str
  sn_cron_expr :: str
  sn_tz :: str
  sn_catchup_mode :: str
  sn_max_runs_per_day :: int
  sn_cost_budget :: "f64 option"

definition validate :: "CronSecuritySnapshot \<Rightarrow> CronSecurityError + unit" where
  "validate s =
     (if str_len (sn_prompt s) > MAX_PROMPT_BYTES
      then Inl (PromptTooLarge (str_len (sn_prompt s)) MAX_PROMPT_BYTES) else Inr ())"

text \<open>The values fed to the hasher, in the order of the list above.\<close>

type_synonym hash_input =
  "str \<times> str \<times> str \<times> str \<times> str \<times> str \<times> int \<times> f64 option"

definition sensitive_fingerprint :: "(hash_input \<Rightarrow> nat) \<Rightarrow> CronSecuritySnapshot \<Rightarrow> nat" where
  "sensitive_fingerprint hasher s =
     hasher (sn_prompt s, sn_backend_id s, sn_spawn_args s, sn_cron_expr s, sn_tz s,
       sn_catchup_mode s, sn_max_runs_per_day s, sn_cost_budget s)"

text \<open>Inequality of optional floats: NaN differs from itself.\<close>

definition f64_opt_ne :: "f64 option \<Rightarrow> f64 option \<Rightarrow> bool" where
  "f64_opt_ne a b \<longleftrightarrow> a \<noteq> b \<or> a = Some NaN"

definition changed_sensitive_fields ::
    "CronSecuritySnapshot \<Rightarrow> CronSecuritySnapshot \<Rightarrow> CronSensitiveField list" where
  "changed_sensitive_fields a b =
     (if sn_prompt a \<noteq> sn_prompt b then [Prompt] else [])
     @ (if sn_backend_id a \<noteq> sn_backend_id b then [BackendId] else [])
     @ (if sn_spawn_args a \<noteq> sn_spawn_args b then [SpawnArgs] else [])
     @ (if sn_cron_expr a \<noteq> sn_cron_expr b then [CronExpr] else [])
     @ (if sn_tz a \<noteq> sn_tz b then [Timezone] else [])
     @ (if sn_catchup_mode a \<noteq> sn_catchup_mode b then [CatchupModeField] else [])
     @ (if sn_max_runs_per_day a \<noteq> sn_max_runs_per_day b then [MaxRunsPerDay] else [])
     @ (if f64_opt_ne (sn_cost_budget a) (sn_cost_budget b) then [CostBudgetUsdPerDay] else [])"

section \<open>The decision on an upsert\<close>

record UpsertSecurityDecision =
  enabled_after_upsert :: bool
  requires_reconfirmation :: bool
  changed_fields :: "CronSensitiveField list"

definition decide_upsert_security ::
    "bool \<Rightarrow> CronSecuritySnapshot option \<Rightarrow> CronSecuritySnapshot
     \<Rightarrow> CronSecurityError + UpsertSecurityDecision" where
  "decide_upsert_security existing_enabled existing nxt =
     bind_result (validate nxt) (\<lambda>_.
       let existing_en = (existing \<noteq> None \<and> existing_enabled);
           changed = (case existing of None \<Rightarrow> [] | Some prev \<Rightarrow> changed_sensitive_fields prev nxt);
           reconf = (existing_en \<and> changed \<noteq> [])
       in Inr \<lparr> enabled_after_upsert = (existing_en \<and> \<not> reconf),
                requires_reconfirmation = reconf, changed_fields = changed \<rparr>)"

section \<open>Confirmation tokens\<close>

record ConfirmationSummary =
  cs_next_fire_at :: "str option"
  cs_budget :: "str option"
  cs_prompt_preview :: str

record PendingConfirmation =
  pc_cron_id :: str
  pc_expires_at :: nat
  pc_summary :: ConfirmationSummary
  pc_fingerprint :: nat

type_synonym ConfirmationTokens = "(str \<times> PendingConfirmation) list"

datatype SetEnabledGate =
    RequiresConfirmation str ConfirmationSummary
  | Confirmed ConfirmationSummary

definition prune_expired :: "nat \<Rightarrow> ConfirmationTokens \<Rightarrow> ConfirmationTokens" where
  "prune_expired now ts = filter (\<lambda>(_, p). pc_expires_at p > now) ts"

definition issue ::
    "str option \<Rightarrow> str \<Rightarrow> ConfirmationSummary \<Rightarrow> nat \<Rightarrow> nat \<Rightarrow> ConfirmationTokens
     \<Rightarrow> (CronSecurityError + str) \<times> ConfirmationTokens" where
  "issue rnd cron_id summary fingerprint now ts =
     (let ts1 = prune_expired now ts in
      case rnd of
        None \<Rightarrow> (Inl RandomToken, ts1)
      | Some token \<Rightarrow>
          (Inr token, AList.update token
             \<lparr> pc_cron_id = cron_id, pc_expires_at = now + CONFIRMATION_TOKEN_TTL,
               pc_summary = summary, pc_fingerprint = fingerprint \<rparr> ts1))"

definition drop_cron :: "str \<Rightarrow> ConfirmationTokens \<Rightarrow> ConfirmationTokens" where
  "drop_cron cron_id ts = filter (\<lambda>(_, p). pc_cron_id p \<noteq> cron_id) ts"

definition require_or_confirm ::
    "str option \<Rightarrow> str \<Rightarrow> str option \<Rightarrow> ConfirmationSummary \<Rightarrow> nat \<Rightarrow> nat \<Rightarrow> ConfirmationTokens
     \<Rightarrow> (CronSecurityError + SetEnabledGate) \<times> ConfirmationTokens" where
  "require_or_confirm rnd cron_id token_opt summary fingerprint now ts =
     (case token_opt of
        None \<Rightarrow>
          (let (r, ts1) = issue rnd cron_id summary fingerprint now (prune_expired now ts) in
           (case r of Inl e \<Rightarrow> (Inl e, ts1)
            | Inr issued \<Rightarrow> (Inr (RequiresConfirmation issued summary), ts1)))
      | Some token \<Rightarrow>
          (case map_of ts token of
             None \<Rightarrow> (Inl InvalidConfirmationToken, prune_expired now ts)
           | Some pending \<Rightarrow>
               let ts1 = AList.delete token ts in
               if pc_expires_at pending \<le> now then (Inl ExpiredConfirmationToken, ts1)
               else if pc_cron_id pending \<noteq> cron_id then (Inl TokenCronMismatch, ts1)
               else if pc_fingerprint pending \<noteq> fingerprint
               then (Inl SensitiveSnapshotChanged, drop_cron cron_id ts1)
               else (Inr (Confirmed (pc_summary pending)), ts1)))"

definition invalidate_cron :: "str \<Rightarrow> ConfirmationTokens \<Rightarrow> nat \<times> ConfirmationTokens" where
  "invalidate_cron cron_id ts =
     (let ts1 = drop_cron cron_id ts in (length ts - length ts1, ts1))"

text \<open>Sixteen random bytes in lower-case hexadecimal; \<open>None\<close> when the generator fails.\<close>

definition hex_digit :: "nat \<Rightarrow> nat" where
  "hex_digit n = (if n < 10 then 48 + n else 87 + n)"

definition random_token :: "nat list option \<Rightarrow> CronSecurityError + str" where
  "random_token rnd = (case rnd of None \<Rightarrow> Inl RandomToken
     | Some bs \<Rightarrow> Inr (concat (map (\<lambda>b. [hex_digit (b div 16 mod 16), hex_digit (b mod 16)]) bs)))"

section \<open>Lemmas\<close>

lemma map_of_filter_distinct:
  "distinct (map fst xs) \<Longrightarrow>
   map_of (filter (\<lambda>(k, v). P v) xs) k = Option.bind (map_of xs k) (\<lambda>v. if P v then Some v else None)"
proof (induction xs)
  case (Cons x xs)
  obtain a b where x: "x = (a, b)" by (cases x)
  have "a \<notin> fst ` set xs" using Cons.prems x by simp
  then have "map_of xs a = None" by (simp add: map_of_eq_None_iff)
  then show ?case using Cons x by auto
qed simp

lemma distinct_filter_fst: "distinct (map fst xs) \<Longrightarrow> distinct (map fst (filter P xs))"
  by (induction xs) auto

lemma prune_get:
  "distinct (map fst ts) \<Longrightarrow> map_of (prune_expired now ts) k
     = Option.bind (map_of ts k) (\<lambda>p. if pc_expires_at p > now then Some p else None)"
  unfolding prune_expired_def by (rule map_of_filter_distinct)

lemma drop_cron_get:
  "distinct (map fst ts) \<Longrightarrow> map_of (drop_cron c ts) k
     = Option.bind (map_of ts k) (\<lambda>p. if pc_cron_id p \<noteq> c then Some p else None)"
  unfolding drop_cron_def by (rule map_of_filter_distinct)

lemma prune_distinct: "distinct (map fst ts) \<Longrightarrow> distinct (map fst (prune_expired now ts))"
  unfolding prune_expired_def by (rule distinct_filter_fst)

lemma drop_cron_distinct: "distinct (map fst ts) \<Longrightarrow> distinct (map fst (drop_cron c ts))"
  unfolding drop_cron_def by (rule distinct_filter_fst)

lemma confirmed_facts:
  assumes "require_or_confirm rnd cid (Some tok) s fp now ts = (Inr g, ts')"
  shows "\<exists>p. map_of ts tok = Some p \<and> now < pc_expires_at p \<and> pc_cron_id p = cid
    \<and> pc_fingerprint p = fp \<and> g = Confirmed (pc_summary p) \<and> ts' = AList.delete tok ts"
  using assms by (auto simp: require_or_confirm_def Let_def not_le split: option.splits if_splits)

lemma changed_nil_iff:
  "changed_sensitive_fields a b = [] \<longleftrightarrow> a = b \<and> sn_cost_budget a \<noteq> Some NaN"
  by (auto simp: changed_sensitive_fields_def f64_opt_ne_def)


lemma decide_facts:
  assumes "decide_upsert_security was existing nxt = Inr d"
  shows "enabled_after_upsert d \<longleftrightarrow> was \<and> existing = Some nxt \<and> sn_cost_budget nxt \<noteq> Some NaN"
    "requires_reconfirmation d \<longleftrightarrow> was \<and> existing \<noteq> None \<and> \<not> enabled_after_upsert d"
    "changed_fields d = [] \<longleftrightarrow> existing = None \<or> (existing = Some nxt \<and> sn_cost_budget nxt \<noteq> Some NaN)"
    "str_len (sn_prompt nxt) \<le> 65536"
  using assms by (auto simp: decide_upsert_security_def bind_result_def validate_def MAX_PROMPT_BYTES_def
      Let_def changed_nil_iff split: sum.splits option.splits if_splits)

section \<open>Histories of the token store\<close>

text \<open>
  A history lists the calls made to the store: the two-step gate, with the
  token that the generator returns, and the invalidation of a cron.
\<close>

datatype TokenOp =
    Gate (op_rnd: "str option") (op_cron: str) (op_token: "str option")
      (op_summary: ConfirmationSummary) (op_fingerprint: nat) (op_now: nat)
  | Invalidate (op_cron: str)

definition token_step :: "ConfirmationTokens \<Rightarrow> TokenOp \<Rightarrow> ConfirmationTokens" where
  "token_step ts op = (case op of
     Gate rnd c tok s fp now \<Rightarrow> snd (require_or_confirm rnd c tok s fp now ts)
   | Invalidate c \<Rightarrow> snd (invalidate_cron c ts))"

definition token_run :: "TokenOp list \<Rightarrow> ConfirmationTokens" where
  "token_run ops = foldl token_step [] ops"

text \<open>An operation that presents a token or invalidates its cron.\<close>

definition retires :: "str \<Rightarrow> str \<Rightarrow> TokenOp \<Rightarrow> bool" where
  "retires tok c op = (case op of Gate _ _ t _ _ _ \<Rightarrow> t = Some tok | Invalidate c' \<Rightarrow> c' = c)"

lemma token_run_snoc: "token_run (ops @ [op]) = token_step (token_run ops) op"
  by (simp add: token_run_def)

lemma gate_distinct:
  "distinct (map fst ts) \<Longrightarrow> distinct (map fst (snd (require_or_confirm rnd c tok s fp now ts)))"
  by (auto simp: require_or_confirm_def issue_def Let_def
      intro!: prune_distinct drop_cron_distinct distinct_update distinct_delete
      split: option.splits sum.splits)

lemma token_run_distinct: "distinct (map fst (token_run ops))"
proof (induction ops rule: rev_induct)
  case (snoc op ops)
  then show ?case
    by (cases op) (auto simp: token_run_snoc token_step_def invalidate_cron_def Let_def
        intro: gate_distinct drop_cron_distinct)
qed (simp add: token_run_def)

lemma gate_issue_get:
  assumes "distinct (map fst ts)"
    and "map_of (snd (require_or_confirm rnd c None s fp now ts)) tok = Some p"
  shows "(rnd = Some tok \<and> p = \<lparr> pc_cron_id = c, pc_expires_at = now + CONFIRMATION_TOKEN_TTL,
            pc_summary = s, pc_fingerprint = fp \<rparr>)
         \<or> (rnd \<noteq> Some tok \<and> map_of ts tok = Some p)"
  using assms
  by (auto simp: require_or_confirm_def issue_def Let_def update_conv' prune_get prune_distinct
      split: option.splits if_splits bind_splits)

lemma gate_present_get:
  assumes "distinct (map fst ts)"
    and "map_of (snd (require_or_confirm rnd c (Some t) s fp now ts)) tok = Some p"
  shows "t \<noteq> tok \<and> map_of ts tok = Some p"
  using assms
  by (auto simp: require_or_confirm_def Let_def delete_conv' prune_get drop_cron_get distinct_delete
      split: option.splits if_splits bind_splits)

text \<open>Every pending token has one issuing call, not retired since.\<close>

lemma pending_was_issued:
  assumes "map_of (token_run ops) tok = Some p"
  shows "\<exists>pre post t0. ops = pre @ Gate (Some tok) (pc_cron_id p) None (pc_summary p) (pc_fingerprint p) t0 # post
     \<and> pc_expires_at p = t0 + CONFIRMATION_TOKEN_TTL
     \<and> (\<forall>op \<in> set post. \<not> retires tok (pc_cron_id p) op)"
  using assms
proof (induction ops arbitrary: p rule: rev_induct)
  case Nil
  then show ?case by (simp add: token_run_def)
next
  case (snoc op ops)
  note d = token_run_distinct [of ops]
  have keep: ?case if old: "map_of (token_run ops) tok = Some p" and nr: "\<not> retires tok (pc_cron_id p) op"
  proof -
    from snoc.IH [OF old] obtain pre post t0 where
      "ops = pre @ Gate (Some tok) (pc_cron_id p) None (pc_summary p) (pc_fingerprint p) t0 # post"
      "pc_expires_at p = t0 + CONFIRMATION_TOKEN_TTL"
      "\<forall>op \<in> set post. \<not> retires tok (pc_cron_id p) op" by blast
    with nr have "ops @ [op] = pre @ Gate (Some tok) (pc_cron_id p) None (pc_summary p) (pc_fingerprint p) t0 # (post @ [op])
      \<and> pc_expires_at p = t0 + CONFIRMATION_TOKEN_TTL
      \<and> (\<forall>op \<in> set (post @ [op]). \<not> retires tok (pc_cron_id p) op)" by auto
    then show ?thesis by blast
  qed
  show ?case
  proof (cases op)
    case (Invalidate c)
    with snoc.prems d show ?thesis
      by (intro keep) (auto simp: token_run_snoc token_step_def invalidate_cron_def Let_def
          drop_cron_get retires_def split: bind_splits if_splits)
  next
    case (Gate rnd c t s fp now)
    show ?thesis
    proof (cases t)
      case None
      from gate_issue_get [OF d, of rnd c s fp now tok p] snoc.prems
      consider "rnd = Some tok" "p = \<lparr> pc_cron_id = c, pc_expires_at = now + CONFIRMATION_TOKEN_TTL,
            pc_summary = s, pc_fingerprint = fp \<rparr>" | "map_of (token_run ops) tok = Some p"
        by (auto simp: token_run_snoc token_step_def Gate None)
      then show ?thesis
      proof cases
        case 1
        then have "ops @ [op] = ops @ Gate (Some tok) (pc_cron_id p) None (pc_summary p) (pc_fingerprint p) now # []
          \<and> pc_expires_at p = now + CONFIRMATION_TOKEN_TTL" by (simp add: Gate None)
        then show ?thesis by (metis empty_iff list.set(1))
      next
        case 2
        then show ?thesis by (intro keep) (simp_all add: retires_def Gate None)
      qed
    next
      case (Some t')
      from gate_present_get [OF d, of rnd c t' s fp now tok p] snoc.prems
      show ?thesis
        by (intro keep) (auto simp: token_run_snoc token_step_def Gate Some retires_def)
    qed
  qed
qed

section \<open>Properties\<close>

text \<open>Confirmation tokens are bound, short-lived and single-use.  After any
  history of the store, when presenting a token for a cron with the fingerprint
  of its current sensitive fields confirms, then a call of the history issued
  this very token for this cron and this fingerprint less than five minutes
  before, no later call presented the token or invalidated the cron, the summary
  is the one shown at that call, and the token is gone from the store.\<close>

theorem confirm_only_fresh_token:
  assumes "require_or_confirm rnd c (Some tok) s fp now (token_run ops) = (Inr g, ts')"
  shows "\<exists>pre post s0 t0.
      ops = pre @ Gate (Some tok) c None s0 fp t0 # post
    \<and> now < t0 + CONFIRMATION_TOKEN_TTL
    \<and> (\<forall>op \<in> set post. \<not> retires tok c op)
    \<and> g = Confirmed s0 \<and> map_of ts' tok = None"
proof -
  obtain p where p: "map_of (token_run ops) tok = Some p" "now < pc_expires_at p" "pc_cron_id p = c"
    "pc_fingerprint p = fp" "g = Confirmed (pc_summary p)" "ts' = AList.delete tok (token_run ops)"
    using confirmed_facts [OF assms] by blast
  from pending_was_issued [OF p(1)] p show ?thesis by (fastforce simp: delete_conv')
qed

definition demo_summary :: ConfirmationSummary where
  "demo_summary = \<lparr> cs_next_fire_at = None, cs_budget = None, cs_prompt_preview = lit ''go'' \<rparr>"

definition demo_ops :: "TokenOp list" where
  "demo_ops = [Gate (Some [97]) [99] None demo_summary 7 10, Invalidate [100]]"

lemma confirm_only_fresh_token_witness:
  "(\<exists>pre post s0 t0. demo_ops = pre @ Gate (Some [97]) [99] None s0 7 t0 # post
      \<and> 50 < t0 + CONFIRMATION_TOKEN_TTL \<and> (\<forall>op \<in> set post. \<not> retires [97] [99] op)
      \<and> Confirmed demo_summary = Confirmed s0 \<and> map_of [] [97::nat] = (None :: PendingConfirmation option))"
  by (rule confirm_only_fresh_token [of None "[99]" "[97]" demo_summary 7 50 demo_ops "Confirmed demo_summary" "[]"])
     (simp add: demo_ops_def token_run_def token_step_def require_or_confirm_def issue_def Let_def
       prune_expired_def invalidate_cron_def drop_cron_def CONFIRMATION_TOKEN_TTL_def)

text \<open>An edit never turns a cron on.  The decision on an upsert exists exactly
  when the prompt fits in 64 KiB; it keeps the cron enabled exactly when it
  existed, was enabled and none of the eight sensitive fields changes, and it asks
  for a new confirmation exactly when an enabled cron changes in one of them; a
  budget that is NaN counts as changed even against itself.\<close>

theorem upsert_never_enables:
  "case decide_upsert_security was_enabled existing nxt of
     Inl e \<Rightarrow> str_len (sn_prompt nxt) > 65536 \<and> e = PromptTooLarge (str_len (sn_prompt nxt)) 65536
   | Inr d \<Rightarrow> str_len (sn_prompt nxt) \<le> 65536
       \<and> (enabled_after_upsert d \<longleftrightarrow> was_enabled \<and> existing = Some nxt \<and> sn_cost_budget nxt \<noteq> Some NaN)
       \<and> (requires_reconfirmation d \<longleftrightarrow> was_enabled \<and> existing \<noteq> None \<and> \<not> enabled_after_upsert d)
       \<and> (changed_fields d = [] \<longleftrightarrow> existing = None \<or> (existing = Some nxt \<and> sn_cost_budget nxt \<noteq> Some NaN))"
  by (auto simp: decide_upsert_security_def bind_result_def validate_def MAX_PROMPT_BYTES_def Let_def
      changed_nil_iff split: sum.splits option.splits)

end
