(* ===== verification/Storage_Repos.thy ===== *)
theory Storage_Repos
  imports Quota "HOL-Library.Multiset" "HOL-Library.AList" "HOL-Library.List_Lexorder"
begin

text \<open>
  Model of the repositories of \<open>la-storage\<close> that the cron subsystem uses
  (\<open>src/repos.rs\<close>, \<open>src/models.rs\<close> and the CHECK and REFERENCES clauses of
  \<open>migrations/0004_crons_runs.sql\<close>).  A table is an association list from
  primary keys to rows, in insertion order.  Text columns are lists of code
  points; SQLite's binary collation orders them lexicographically.  The file
  system and the lock of the database are the list \<open>db_io\<close>: the outcome of each
  of the next statements, after the retries of \<open>retry_busy\<close>; a statement that
  fails has no effect, and beyond the end of the list none fails.  The sum of
  costs is taken without rounding.
\<close>

section \<open>Rows\<close>

record Cron =
  cr_id :: str
  cr_name :: str
  cr_enabled :: int
  cr_project_id :: str
  cr_backend_id :: str
  cr_spawn_args :: str
  cr_prompt :: str
  cr_cron_expr :: str
  cr_tz :: str
  cr_catchup_mode :: str
  cr_max_concurrent_runs :: int
  cr_max_runs_per_day :: int
  cr_max_runtime_s :: int
  cr_cost_budget :: "f64 option"
  cr_failure_backoff :: str
  cr_pause_on_failures :: int
  cr_consecutive_failures :: int
  cr_last_fired_at :: "str option"
  cr_next_fire_at :: "str option"
  cr_created_at :: str
  cr_updated_at :: str

text \<open>The JSON value of the spawn arguments is represented by the text that
  serde_json writes for it.\<close>

record CronUpsert =
  cu_id :: str
  cu_name :: str
  cu_enabled :: bool
  cu_project_id :: str
  cu_backend_id :: str
  cu_spawn_args :: str
  cu_prompt :: str
  cu_cron_expr :: str
  cu_tz :: str
  cu_catchup_mode :: str
  cu_max_concurrent_runs :: int
  cu_max_runs_per_day :: int
  cu_max_runtime_s :: int
  cu_cost_budget :: "f64 option"
  cu_failure_backoff :: str
  cu_pause_on_failures :: int
  cu_consecutive_failures :: int
  cu_last_fired_at :: "str option"
  cu_next_fire_at :: "str option"

record RunRecord =
  rr_id :: str
  rr_cron_id :: "str option"
  rr_session_id :: "str option"
  rr_scheduled_at :: str
  rr_started_at :: "str option"
  rr_finished_at :: "str option"
  rr_status :: str
  rr_exit_code :: "int option"
  rr_coalesced_count :: int
  rr_cost_usd_est :: "f64 option"
  rr_error_kind :: "str option"
  rr_error_detail :: "str option"
  rr_tail_log :: "nat list option"

record NewRun =
  nr_id :: str
  nr_cron_id :: "str option"
  nr_session_id :: "str option"
  nr_scheduled_at :: str
  nr_started_at :: "str option"
  nr_status :: str
  nr_coalesced_count :: int

record NewRejectedRun =
  rj_id :: str
  rj_cron_id :: str
  rj_scheduled_at :: str
  rj_status :: str
  rj_coalesced_count :: int
  rj_error_kind :: str
  rj_error_detail :: str

record RunFinish =
  rf_finished_at :: str
  rf_status :: str
  rf_exit_code :: "int option"
  rf_cost_usd_est :: "f64 option"
  rf_error_kind :: "str option"
  rf_error_detail :: "str option"
  rf_tail_log :: "nat list option"

record RunsListFilter =
  fl_cron_id :: "str option"
  fl_since :: "str option"
  fl_limit :: int

text \<open>The payloads of foreign errors are their texts.\<close>

datatype StorageError =
    Sqlx str
  | Migrate str
  | Io str
  | Json str
  | SqliteBackup str
  | Join str
  | Base64 str
  | MissingSession str
  | MissingProject str
  | MissingCron str
  | MissingRun str
  | BackupSamePath str
  | SchemaTooNew str str
  | Busy nat

section \<open>The database\<close>

text \<open>\<open>db_metrics\<close> is the sequence of labels with which the counter of terminal
  runs was incremented; \<open>db_now\<close> is SQLite's current time.\<close>

record Db =
  db_backends :: "str list"
  db_projects :: "(str \<times> str) list"
  db_sessions :: "str list"
  db_crons :: "(str \<times> Cron) list"
  db_runs :: "(str \<times> RunRecord) list"
  db_metrics :: "str list"
  db_now :: str
  db_io :: "StorageError option list"

definition stmt :: "Db \<Rightarrow> StorageError option \<times> Db" where
  "stmt db = (case db_io db of [] \<Rightarrow> (None, db) | e # es \<Rightarrow> (e, db\<lparr> db_io := es \<rparr>))"

definition run_stmt :: "(Db \<Rightarrow> StorageError + 'a \<times> Db) \<Rightarrow> Db \<Rightarrow> (StorageError + 'a) \<times> Db" where
  "run_stmt f db = (case stmt db of
       (Some e, db1) \<Rightarrow> (Inl e, db1)
     | (None, db1) \<Rightarrow> (case f db1 of Inl e \<Rightarrow> (Inl e, db1) | Inr (a, db2) \<Rightarrow> (Inr a, db2)))"

text \<open>A statement sequence: the continuation runs only after success.\<close>

definition then_do ::
    "(StorageError + 'a) \<times> Db \<Rightarrow> ('a \<Rightarrow> Db \<Rightarrow> (StorageError + 'b) \<times> Db) \<Rightarrow> (StorageError + 'b) \<times> Db" where
  "then_do r k = (case r of (Inl e, db) \<Rightarrow> (Inl e, db) | (Inr a, db) \<Rightarrow> k a db)"

subsection \<open>Retrying a locked database\<close>

text \<open>One attempt of a statement: executed, refused because the database is
  locked, or failed for another reason.\<close>

datatype Attempt = Served | Locked | Failed StorageError

definition MAX_ATTEMPTS :: nat where "MAX_ATTEMPTS = 8"

text \<open>The pause after the given attempt, in milliseconds.\<close>

definition retry_pause_ms :: "nat \<Rightarrow> nat" where
  "retry_pause_ms attempt = min (50 * 2 ^ (attempt - 1)) 500 + attempt * 17 mod 41"

fun retry_from :: "nat \<Rightarrow> nat \<Rightarrow> (nat \<Rightarrow> Attempt) \<Rightarrow> StorageError option \<times> nat" where
  "retry_from 0 attempt op = (Some (Busy MAX_ATTEMPTS), 0)"
| "retry_from (Suc left) attempt op =
     (case op attempt of
        Served \<Rightarrow> (None, 0)
      | Locked \<Rightarrow>
          if attempt < MAX_ATTEMPTS
          then (let (r, ms) = retry_from left (Suc attempt) op in (r, retry_pause_ms attempt + ms))
          else (Some (Busy attempt), 0)
      | Failed e \<Rightarrow> (Some e, 0))"

definition retry_busy :: "(nat \<Rightarrow> Attempt) \<Rightarrow> StorageError option \<times> nat" where
  "retry_busy op = retry_from MAX_ATTEMPTS 1 op"

subsection \<open>Updating rows\<close>

text \<open>UPDATE \<open>table\<close> SET \<open>f\<close> WHERE id = \<open>k\<close> AND \<open>c\<close>, with the number of rows affected.\<close>

definition sql_update :: "str \<Rightarrow> ('r \<Rightarrow> bool) \<Rightarrow> ('r \<Rightarrow> 'r) \<Rightarrow> (str \<times> 'r) list \<Rightarrow> nat \<times> (str \<times> 'r) list" where
  "sql_update k c f rows =
     (length (filter (\<lambda>(i, r). i = k \<and> c r) rows),
      map (\<lambda>(i, r). if i = k \<and> c r then (i, f r) else (i, r)) rows)"

definition update_crons :: "str \<Rightarrow> (Cron \<Rightarrow> bool) \<Rightarrow> (Cron \<Rightarrow> Cron) \<Rightarrow> Db \<Rightarrow> nat \<times> Db" where
  "update_crons k c f db =
     (let (n, rows) = sql_update k c (\<lambda>r. (f r)\<lparr> cr_updated_at := db_now db \<rparr>) (db_crons db)
      in (n, db\<lparr> db_crons := rows \<rparr>))"

definition update_runs :: "str \<Rightarrow> (RunRecord \<Rightarrow> bool) \<Rightarrow> (RunRecord \<Rightarrow> RunRecord) \<Rightarrow> Db \<Rightarrow> nat \<times> Db" where
  "update_runs k c f db =
     (let (n, rows) = sql_update k c f (db_runs db) in (n, db\<lparr> db_runs := rows \<rparr>))"

text \<open>SQLite stores a NaN as NULL.\<close>

definition sql_real :: "f64 option \<Rightarrow> f64 option" where
  "sql_real x = (if x = Some NaN then None else x)"

definition CONSTRAINT :: StorageError where
  "CONSTRAINT = Sqlx (lit ''constraint failed'')"

section \<open>CronsRepo\<close>

text \<open>The CHECK and REFERENCES clauses of the crons table.\<close>

definition cron_checks :: "Db \<Rightarrow> Cron \<Rightarrow> bool" where
  "cron_checks db r \<longleftrightarrow>
     cr_catchup_mode r \<in> {lit ''skip'', lit ''coalesce'', lit ''replay''}
     \<and> cr_max_concurrent_runs r \<ge> 1 \<and> cr_max_runs_per_day r \<ge> 1 \<and> cr_max_runtime_s r \<ge> 1
     \<and> cr_pause_on_failures r \<ge> 1 \<and> cr_consecutive_failures r \<ge> 0
     \<and> cr_project_id r \<in> fst ` set (db_projects db) \<and> cr_backend_id r \<in> set (db_backends db)"

definition upsert_row :: "str \<Rightarrow> CronUpsert \<Rightarrow> Cron option \<Rightarrow> Cron" where
  "upsert_row now u old =
     \<lparr> cr_id = cu_id u, cr_name = cu_name u, cr_enabled = (if cu_enabled u then 1 else 0),
       cr_project_id = cu_project_id u, cr_backend_id = cu_backend_id u,
       cr_spawn_args = cu_spawn_args u, cr_prompt = cu_prompt u, cr_cron_expr = cu_cron_expr u,
       cr_tz = cu_tz u, cr_catchup_mode = cu_catchup_mode u,
       cr_max_concurrent_runs = cu_max_concurrent_runs u,
       cr_max_runs_per_day = cu_max_runs_per_day u, cr_max_runtime_s = cu_max_runtime_s u,
       cr_cost_budget = sql_real (cu_cost_budget u), cr_failure_backoff = cu_failure_backoff u,
       cr_pause_on_failures = cu_pause_on_failures u,
       cr_consecutive_failures = cu_consecutive_failures u,
       cr_last_fired_at = cu_last_fired_at u, cr_next_fire_at = cu_next_fire_at u,
       cr_created_at = (case old of Some r \<Rightarrow> cr_created_at r | None \<Rightarrow> now),
       cr_updated_at = now \<rparr>"

definition cron_get :: "str \<Rightarrow> Db \<Rightarrow> (StorageError + Cron option) \<times> Db" where
  "cron_get k = run_stmt (\<lambda>db. Inr (map_of (db_crons db) k, db))"

definition cron_upsert :: "CronUpsert \<Rightarrow> Db \<Rightarrow> (StorageError + Cron) \<times> Db" where
  "cron_upsert u db =
     then_do (run_stmt (\<lambda>db.
         let row = upsert_row (db_now db) u (map_of (db_crons db) (cu_id u)) in
         if cron_checks db row then Inr ((), db\<lparr> db_crons := AList.update (cu_id u) row (db_crons db) \<rparr>)
         else Inl CONSTRAINT) db)
       (\<lambda>_ db. then_do (cron_get (cu_id u) db)
         (\<lambda>r db. (case r of Some row \<Rightarrow> Inr row | None \<Rightarrow> Inl (MissingCron (cu_id u)), db)))"

text \<open>ORDER BY name, id and ORDER BY next_fire_at, id.\<close>

definition cron_list :: "Db \<Rightarrow> (StorageError + Cron list) \<times> Db" where
  "cron_list = run_stmt (\<lambda>db.
     Inr (sort_key (\<lambda>r. [cr_name r, cr_id r]) (map snd (db_crons db)), db))"

definition list_enabled_due :: "str \<Rightarrow> Db \<Rightarrow> (StorageError + Cron list) \<times> Db" where
  "list_enabled_due now = run_stmt (\<lambda>db.
     Inr (sort_key (\<lambda>r. [the (cr_next_fire_at r), cr_id r])
       (filter (\<lambda>r. cr_enabled r = 1 \<and> (case cr_next_fire_at r of None \<Rightarrow> False | Some f \<Rightarrow> f \<le> now))
         (map snd (db_crons db))), db))"

definition mark_fired :: "str \<Rightarrow> str \<Rightarrow> str option \<Rightarrow> Db \<Rightarrow> (StorageError + bool) \<times> Db" where
  "mark_fired k last_fired nf = run_stmt (\<lambda>db.
     let (n, db') = update_crons k
           (\<lambda>r. case cr_last_fired_at r of None \<Rightarrow> True
                | Some l \<Rightarrow> l < last_fired \<or> l = last_fired \<and> cr_next_fire_at r = nf)
           (\<lambda>r. r\<lparr> cr_last_fired_at := Some last_fired, cr_next_fire_at := nf \<rparr>) db
     in Inr (n > 0, db'))"

definition cron_set_enabled :: "str \<Rightarrow> bool \<Rightarrow> Db \<Rightarrow> (StorageError + bool) \<times> Db" where
  "cron_set_enabled k en = run_stmt (\<lambda>db.
     let (n, db') = update_crons k (\<lambda>_. True) (\<lambda>r. r\<lparr> cr_enabled := (if en then 1 else 0) \<rparr>) db
     in Inr (n > 0, db'))"

text \<open>Deleting a cron sets the reference of its runs to NULL.\<close>

definition cron_delete :: "str \<Rightarrow> Db \<Rightarrow> (StorageError + bool) \<times> Db" where
  "cron_delete k = run_stmt (\<lambda>db.
     if map_of (db_crons db) k = None then Inr (False, db)
     else Inr (True, db\<lparr> db_crons := AList.delete k (db_crons db),
            db_runs := map (\<lambda>(i, r). (i, if rr_cron_id r = Some k then r\<lparr> rr_cron_id := None \<rparr> else r))
                         (db_runs db) \<rparr>))"

definition bump_consecutive_failures :: "str \<Rightarrow> Db \<Rightarrow> (StorageError + int option) \<times> Db" where
  "bump_consecutive_failures k db =
     then_do (run_stmt (\<lambda>db. Inr (update_crons k (\<lambda>_. True)
         (\<lambda>r. r\<lparr> cr_consecutive_failures := cr_consecutive_failures r + 1 \<rparr>) db)) db)
       (\<lambda>_. run_stmt (\<lambda>db. Inr (map_option cr_consecutive_failures (map_of (db_crons db) k), db)))"

definition reset_consecutive_failures :: "str \<Rightarrow> Db \<Rightarrow> (StorageError + bool) \<times> Db" where
  "reset_consecutive_failures k = run_stmt (\<lambda>db.
     let (n, db') = update_crons k (\<lambda>r. cr_consecutive_failures r \<noteq> 0)
           (\<lambda>r. r\<lparr> cr_consecutive_failures := 0 \<rparr>) db
     in Inr (n > 0, db'))"

definition pause_for_failures :: "str \<Rightarrow> Db \<Rightarrow> (StorageError + bool) \<times> Db" where
  "pause_for_failures k = run_stmt (\<lambda>db.
     let (n, db') = update_crons k
           (\<lambda>r. cr_enabled r = 1 \<and> cr_pause_on_failures r > 0
              \<and> cr_consecutive_failures r \<ge> cr_pause_on_failures r)
           (\<lambda>r. r\<lparr> cr_enabled := 0 \<rparr>) db
     in Inr (n > 0, db'))"

section \<open>RunsRepo\<close>

definition run_statuses :: "str list" where
  "run_statuses = map lit [''pending'', ''spawning'', ''running'', ''completed'', ''failed'',
     ''timed_out'', ''cancelled'', ''budget_exceeded'']"

text \<open>The CHECK and REFERENCES clauses of the runs table.\<close>

definition run_checks :: "Db \<Rightarrow> RunRecord \<Rightarrow> bool" where
  "run_checks db r \<longleftrightarrow> rr_status r \<in> set run_statuses \<and> rr_coalesced_count r \<ge> 1
     \<and> (case rr_cron_id r of None \<Rightarrow> True | Some c \<Rightarrow> map_of (db_crons db) c \<noteq> None)
     \<and> (case rr_session_id r of None \<Rightarrow> True | Some s \<Rightarrow> s \<in> set (db_sessions db))"

definition insert_run :: "RunRecord \<Rightarrow> Db \<Rightarrow> StorageError + unit \<times> Db" where
  "insert_run r db =
     (if map_of (db_runs db) (rr_id r) = None \<and> run_checks db r
      then Inr ((), db\<lparr> db_runs := db_runs db @ [(rr_id r, r)] \<rparr>) else Inl CONSTRAINT)"

definition cron_status_label :: "str \<Rightarrow> str" where
  "cron_status_label raw =
     (if raw = lit ''completed'' then lit ''ok''
      else if raw = lit ''timed_out'' then lit ''timeout''
      else if raw = lit ''budget_exceeded'' then lit ''budget_rejected''
      else if strip_suffix (lit ''_rejected'') raw \<noteq> None then lit ''budget_rejected''
      else lit ''error'')"

definition count_terminal :: "str \<Rightarrow> Db \<Rightarrow> Db" where
  "count_terminal status db = db\<lparr> db_metrics := db_metrics db @ [cron_status_label status] \<rparr>"

definition run_get :: "str \<Rightarrow> Db \<Rightarrow> (StorageError + RunRecord option) \<times> Db" where
  "run_get k = run_stmt (\<lambda>db. Inr (map_of (db_runs db) k, db))"

definition run_fetch :: "str \<Rightarrow> Db \<Rightarrow> (StorageError + RunRecord) \<times> Db" where
  "run_fetch k db = then_do (run_get k db)
     (\<lambda>r db. (case r of Some row \<Rightarrow> Inr row | None \<Rightarrow> Inl (MissingRun k), db))"

definition run_create :: "NewRun \<Rightarrow> Db \<Rightarrow> (StorageError + RunRecord) \<times> Db" where
  "run_create n db =
     then_do (run_stmt (insert_run
        \<lparr> rr_id = nr_id n, rr_cron_id = nr_cron_id n, rr_session_id = nr_session_id n,
          rr_scheduled_at = nr_scheduled_at n, rr_started_at = nr_started_at n,
          rr_finished_at = None, rr_status = nr_status n, rr_exit_code = None,
          rr_coalesced_count = nr_coalesced_count n, rr_cost_usd_est = None,
          rr_error_kind = None, rr_error_detail = None, rr_tail_log = None \<rparr>) db)
       (\<lambda>_. run_fetch (nr_id n))"

definition run_create_rejected :: "NewRejectedRun \<Rightarrow> Db \<Rightarrow> (StorageError + RunRecord) \<times> Db" where
  "run_create_rejected j db =
     then_do (run_stmt (insert_run
        \<lparr> rr_id = rj_id j, rr_cron_id = Some (rj_cron_id j), rr_session_id = None,
          rr_scheduled_at = rj_scheduled_at j, rr_started_at = None,
          rr_finished_at = Some (rj_scheduled_at j), rr_status = rj_status j, rr_exit_code = None,
          rr_coalesced_count = max (rj_coalesced_count j) 1, rr_cost_usd_est = None,
          rr_error_kind = Some (rj_error_kind j), rr_error_detail = Some (rj_error_detail j),
          rr_tail_log = None \<rparr>) db)
       (\<lambda>_ db. run_fetch (rj_id j) (count_terminal (rj_status j) db))"

definition in_flight :: "RunRecord \<Rightarrow> bool" where
  "in_flight r \<longleftrightarrow> rr_finished_at r = None
     \<and> rr_status r \<in> {lit ''pending'', lit ''spawning'', lit ''running''}"

definition count_rows :: "(RunRecord \<Rightarrow> bool) \<Rightarrow> Db \<Rightarrow> (StorageError + nat) \<times> Db" where
  "count_rows P = run_stmt (\<lambda>db. Inr (length (filter (\<lambda>(_, r). P r) (db_runs db)), db))"

definition count_running_for_cron :: "str \<Rightarrow> Db \<Rightarrow> (StorageError + nat) \<times> Db" where
  "count_running_for_cron c = count_rows (\<lambda>r. rr_cron_id r = Some c \<and> in_flight r)"

definition count_running_global :: "Db \<Rightarrow> (StorageError + nat) \<times> Db" where
  "count_running_global = count_rows in_flight"

text \<open>error_kind LIKE 'quota\_%' with an escaped underscore: LIKE ignores the case
  of ASCII letters.\<close>

definition ascii_lower :: "nat \<Rightarrow> nat" where
  "ascii_lower c = (if 65 \<le> c \<and> c \<le> 90 then c + 32 else c)"

definition like_quota :: "str \<Rightarrow> bool" where
  "like_quota s \<longleftrightarrow> map ascii_lower (take 6 s) = lit ''quota_''"

definition in_window :: "str \<Rightarrow> str \<Rightarrow> RunRecord \<Rightarrow> bool" where
  "in_window c since r \<longleftrightarrow> rr_cron_id r = Some c \<and> since \<le> rr_scheduled_at r
     \<and> (case rr_error_kind r of None \<Rightarrow> True | Some k \<Rightarrow> \<not> like_quota k)"

definition count_since_for_cron :: "str \<Rightarrow> str \<Rightarrow> Db \<Rightarrow> (StorageError + nat) \<times> Db" where
  "count_since_for_cron c since = count_rows (in_window c since)"

fun f64_add :: "f64 \<Rightarrow> f64 \<Rightarrow> f64" where
  "f64_add NaN _ = NaN"
| "f64_add _ NaN = NaN"
| "f64_add (Fin x) (Fin y) = Fin (x + y)"
| "f64_add (Fin _) b = b"
| "f64_add a (Fin _) = a"
| "f64_add a b = (if a = b then a else NaN)"

text \<open>COALESCE(SUM(cost), 0.0): NULL costs do not count, and a sum that is not a
  number is NULL.\<close>

definition sum_costs :: "f64 option list \<Rightarrow> f64" where
  "sum_costs cs = (let s = foldl f64_add (Fin 0) (List.map_filter (\<lambda>x. x) cs)
                   in if s = NaN then Fin 0 else s)"

definition sum_cost_since_for_cron :: "str \<Rightarrow> str \<Rightarrow> Db \<Rightarrow> (StorageError + f64) \<times> Db" where
  "sum_cost_since_for_cron c since = run_stmt (\<lambda>db.
     Inr (sum_costs (map (rr_cost_usd_est \<circ> snd) (filter (\<lambda>(_, r). in_window c since r) (db_runs db))), db))"

fun max_text :: "str list \<Rightarrow> str option" where
  "max_text [] = None"
| "max_text (x # xs) = Some (case max_text xs of None \<Rightarrow> x | Some y \<Rightarrow> max x y)"

definition last_terminal_failure_at_for_cron :: "str \<Rightarrow> Db \<Rightarrow> (StorageError + str option) \<times> Db" where
  "last_terminal_failure_at_for_cron c = run_stmt (\<lambda>db.
     Inr (max_text (List.map_filter (rr_finished_at \<circ> snd)
            (filter (\<lambda>(_, r). rr_cron_id r = Some c \<and> rr_status r \<in> {lit ''failed'', lit ''timed_out''})
              (db_runs db))), db))"

text \<open>The latest rows first; ORDER BY scheduled_at DESC, id DESC LIMIT n.\<close>

definition selects :: "RunsListFilter \<Rightarrow> RunRecord \<Rightarrow> bool" where
  "selects fl r \<longleftrightarrow> (case fl_cron_id fl of None \<Rightarrow> True | Some c \<Rightarrow> rr_cron_id r = Some c)
     \<and> (case fl_since fl of None \<Rightarrow> True | Some s \<Rightarrow> s \<le> rr_scheduled_at r)"

definition run_key :: "RunRecord \<Rightarrow> str list" where
  "run_key r = [rr_scheduled_at r, rr_id r]"

definition run_list :: "RunsListFilter \<Rightarrow> Db \<Rightarrow> (StorageError + RunRecord list) \<times> Db" where
  "run_list fl = run_stmt (\<lambda>db.
     let limit = nat (min (max (fl_limit fl) 1) 500);
         sel = filter (selects fl) (map snd (db_runs db))
     in Inr (take limit (rev (sort_key run_key sel)), db))"

definition run_attach_session :: "str \<Rightarrow> str \<Rightarrow> Db \<Rightarrow> (StorageError + bool) \<times> Db" where
  "run_attach_session k sid = run_stmt (\<lambda>db.
     let (n, db') = update_runs k (\<lambda>r. rr_finished_at r = None
             \<and> (rr_session_id r = None \<or> rr_session_id r = Some sid))
           (\<lambda>r. r\<lparr> rr_session_id := Some sid \<rparr>) db
     in if n > 0 \<and> sid \<notin> set (db_sessions db) then Inl CONSTRAINT else Inr (n > 0, db'))"

definition run_update_status :: "str \<Rightarrow> str \<Rightarrow> Db \<Rightarrow> (StorageError + bool) \<times> Db" where
  "run_update_status k status = run_stmt (\<lambda>db.
     let (n, db') = update_runs k (\<lambda>r. rr_finished_at r = None) (\<lambda>r. r\<lparr> rr_status := status \<rparr>) db
     in if n > 0 \<and> status \<notin> set run_statuses then Inl CONSTRAINT else Inr (n > 0, db'))"

definition truncate_tail_log :: "nat list option \<Rightarrow> nat list option" where
  "truncate_tail_log = map_option (\<lambda>bytes.
     if length bytes > 64 * 1024 then drop (length bytes - 64 * 1024) bytes else bytes)"

definition finish_row :: "RunFinish \<Rightarrow> RunRecord \<Rightarrow> RunRecord" where
  "finish_row f r = r\<lparr> rr_finished_at := Some (rf_finished_at f), rr_status := rf_status f,
     rr_exit_code := rf_exit_code f, rr_cost_usd_est := sql_real (rf_cost_usd_est f),
     rr_error_kind := rf_error_kind f, rr_error_detail := rf_error_detail f,
     rr_tail_log := truncate_tail_log (rf_tail_log f) \<rparr>"

text \<open>A second finish reports whether it repeats the first; NaN equals nothing.\<close>

definition same_finish :: "RunFinish \<Rightarrow> RunRecord \<Rightarrow> bool" where
  "same_finish f r \<longleftrightarrow> rr_finished_at r = Some (rf_finished_at f) \<and> rr_status r = rf_status f
     \<and> rr_exit_code r = rf_exit_code f
     \<and> rr_cost_usd_est r = rf_cost_usd_est f \<and> rf_cost_usd_est f \<noteq> Some NaN
     \<and> rr_error_kind r = rf_error_kind f \<and> rr_error_detail r = rf_error_detail f
     \<and> rr_tail_log r = truncate_tail_log (rf_tail_log f)"

definition run_finish :: "str \<Rightarrow> RunFinish \<Rightarrow> Db \<Rightarrow> (StorageError + bool) \<times> Db" where
  "run_finish k f db =
     then_do (run_stmt (\<lambda>db.
         let (n, db') = update_runs k (\<lambda>r. rr_finished_at r = None) (finish_row f) db
         in if n > 0 \<and> rf_status f \<notin> set run_statuses then Inl CONSTRAINT else Inr (n, db')) db)
       (\<lambda>n db. if n > 0 then (Inr True, count_terminal (rf_status f) db)
               else then_do (run_get k db)
                 (\<lambda>r db. (Inr (case r of None \<Rightarrow> False | Some row \<Rightarrow> same_finish f row), db)))"

section \<open>The contract of an UPDATE\<close>

text \<open>
  A table with lookups and conditional updates by primary key.  The laws are the
  semantics of an UPDATE statement; both tables below provide them.
\<close>

locale row_table =
  fixes wf :: "'d \<Rightarrow> bool"
    and get :: "'d \<Rightarrow> str \<Rightarrow> 'r option"
    and upd :: "str \<Rightarrow> ('r \<Rightarrow> bool) \<Rightarrow> ('r \<Rightarrow> 'r) \<Rightarrow> 'd \<Rightarrow> nat \<times> 'd"
    and stamp :: "'d \<Rightarrow> 'r \<Rightarrow> 'r"
  assumes upd_wf: "wf d \<Longrightarrow> upd k c f d = (n, d') \<Longrightarrow> wf d'"
    and upd_get: "wf d \<Longrightarrow> upd k c f d = (n, d') \<Longrightarrow>
      get d' j = (if j = k then map_option (\<lambda>r. if c r then stamp d (f r) else r) (get d j) else get d j)"
    and upd_count: "wf d \<Longrightarrow> upd k c f d = (n, d') \<Longrightarrow>
      n = (case get d k of None \<Rightarrow> 0 | Some r \<Rightarrow> if c r then 1 else 0)"
begin

lemma upd_other: "wf d \<Longrightarrow> upd k c f d = (n, d') \<Longrightarrow> j \<noteq> k \<Longrightarrow> get d' j = get d j"
  by (simp add: upd_get)

lemma upd_hit:
  "wf d \<Longrightarrow> upd k c f d = (n, d') \<Longrightarrow> 0 < n \<longleftrightarrow> (\<exists>r. get d k = Some r \<and> c r)"
  by (drule (1) upd_count) (auto split: option.splits)

lemma upd_row_preserves:
  assumes "wf d" "upd k c f d = (n, d')" "\<And>j r. get d j = Some r \<Longrightarrow> P j r"
    and "\<And>r. get d k = Some r \<Longrightarrow> c r \<Longrightarrow> P k r \<Longrightarrow> P k (stamp d (f r))"
    and "get d' j = Some r"
  shows "P j r"
  using assms by (auto simp: upd_get split: if_splits)

lemma upd_row_evolves:
  assumes "wf d" "upd k c f d = (n, d')" "\<And>r. Q r r"
    and "\<And>r. get d k = Some r \<Longrightarrow> c r \<Longrightarrow> Q r (stamp d (f r))" and "get d j = Some r"
  shows "\<exists>r'. get d' j = Some r' \<and> Q r r'"
  using assms(3,4,5) by (cases "c r") (auto simp: upd_get [OF assms(1,2)])

lemma upd_domain: "wf d \<Longrightarrow> upd k c f d = (n, d') \<Longrightarrow> (get d' j = None) = (get d j = None)"
  by (auto simp: upd_get)

end

lemma sql_update_keys: "map fst (snd (sql_update k c f rows)) = map fst rows"
  by (auto simp: sql_update_def split: prod.splits)

lemma sql_update_get:
  "map_of (snd (sql_update k c f rows)) j =
    (if j = k then map_option (\<lambda>r. if c r then f r else r) (map_of rows j) else map_of rows j)"
proof (cases "j = k")
  case True
  show ?thesis unfolding sql_update_def snd_conv True
    by (induction rows) (simp_all add: split_beta)
next
  case False
  then show ?thesis unfolding sql_update_def snd_conv
    by (induction rows) (simp_all add: split_beta)
qed

lemma sql_update_none: "map_of rows k = None \<Longrightarrow> fst (sql_update k c f rows) = 0"
  by (force simp: sql_update_def map_of_eq_None_iff image_iff filter_empty_conv)

lemma sql_update_count:
  assumes "distinct (map fst rows)"
  shows "fst (sql_update k c f rows) = (case map_of rows k of None \<Rightarrow> 0 | Some r \<Rightarrow> if c r then 1 else 0)"
  using assms
proof (induction rows)
  case (Cons x rows)
  obtain i r where x: "x = (i, r)" by (cases x)
  have step: "fst (sql_update k c f (x # rows))
      = (if i = k \<and> c r then 1 else 0) + fst (sql_update k c f rows)"
    by (simp add: sql_update_def x)
  show ?case
  proof (cases "i = k")
    case True
    then have "map_of rows k = None" using Cons.prems x by (simp add: map_of_eq_None_iff)
    then show ?thesis using step True x by (simp add: sql_update_none)
  next
    case False
    then show ?thesis using step Cons x by simp
  qed
qed (simp add: sql_update_def)

definition crons_wf :: "Db \<Rightarrow> bool" where "crons_wf db \<longleftrightarrow> distinct (map fst (db_crons db))"
definition runs_wf :: "Db \<Rightarrow> bool" where "runs_wf db \<longleftrightarrow> distinct (map fst (db_runs db))"

interpretation crons_tbl: row_table crons_wf "\<lambda>db. map_of (db_crons db)" update_crons
  "\<lambda>db r. r\<lparr> cr_updated_at := db_now db \<rparr>"
proof unfold_locales
  fix d k c f n d' j
  assume wf: "crons_wf d" and u: "update_crons k c f d = (n, d')"
  let ?s = "sql_update k c (\<lambda>r. (f r)\<lparr> cr_updated_at := db_now d \<rparr>) (db_crons d)"
  have d': "n = fst ?s" "db_crons d' = snd ?s" using u by (auto simp: update_crons_def split: prod.splits)
  show "crons_wf d'" using wf by (simp add: crons_wf_def d' sql_update_keys)
  show "map_of (db_crons d') j = (if j = k then map_option (\<lambda>r. if c r then (f r)\<lparr> cr_updated_at := db_now d \<rparr> else r)
      (map_of (db_crons d) j) else map_of (db_crons d) j)"
    using wf by (simp add: crons_wf_def d' sql_update_get)
  show "n = (case map_of (db_crons d) k of None \<Rightarrow> 0 | Some r \<Rightarrow> if c r then 1 else 0)"
    using wf by (simp add: crons_wf_def d' sql_update_count)
qed

interpretation runs_tbl: row_table runs_wf "\<lambda>db. map_of (db_runs db)" update_runs "\<lambda>_ r. r"
proof unfold_locales
  fix d k c f n d' j
  assume wf: "runs_wf d" and u: "update_runs k c f d = (n, d')"
  let ?s = "sql_update k c f (db_runs d)"
  have d': "n = fst ?s" "db_runs d' = snd ?s" using u by (auto simp: update_runs_def split: prod.splits)
  show "runs_wf d'" using wf by (simp add: runs_wf_def d' sql_update_keys)
  show "map_of (db_runs d') j = (if j = k then map_option (\<lambda>r. if c r then f r else r)
      (map_of (db_runs d) j) else map_of (db_runs d) j)"
    using wf by (simp add: runs_wf_def d' sql_update_get)
  show "n = (case map_of (db_runs d) k of None \<Rightarrow> 0 | Some r \<Rightarrow> if c r then 1 else 0)"
    using wf by (simp add: runs_wf_def d' sql_update_count)
qed

section \<open>Statement sequences\<close>

definition adv :: "Db \<Rightarrow> Db" where "adv db = db\<lparr> db_io := tl (db_io db) \<rparr>"

lemma adv_simps [simp]:
  "db_crons (adv db) = db_crons db" "db_runs (adv db) = db_runs db"
  "db_metrics (adv db) = db_metrics db" "db_sessions (adv db) = db_sessions db"
  "db_projects (adv db) = db_projects db" "db_backends (adv db) = db_backends db"
  "db_now (adv db) = db_now db"
  by (simp_all add: adv_def)

lemma stmt_adv: "stmt db = (r, db') \<Longrightarrow> db' = adv db"
  by (auto simp: stmt_def adv_def split: list.splits)

lemma run_stmtE:
  assumes "run_stmt f db = (r, db')"
  obtains (fail) e where "r = Inl e" "db' = adv db"
    | (ok) a where "r = Inr a" "f (adv db) = Inr (a, db')"
  using assms by (auto simp: run_stmt_def stmt_adv dest!: stmt_adv split: prod.splits option.splits sum.splits)

lemma run_stmt_total [simp]:
  assumes "db_io db = []"
  shows "run_stmt f db = (case f db of Inl e \<Rightarrow> (Inl e, db) | Inr (a, db') \<Rightarrow> (Inr a, db'))"
  using assms by (simp add: run_stmt_def stmt_def split: sum.splits)

lemma then_do_simps [simp]:
  "then_do (Inl e, db) k = (Inl e, db)" "then_do (Inr a, db) k = k a db"
  by (simp_all add: then_do_def)

text \<open>A relation between databases that statements compose to.\<close>

locale db_evolution =
  fixes R :: "Db \<Rightarrow> Db \<Rightarrow> bool"
  assumes refl: "R d d"
    and trans: "R d d' \<Longrightarrow> R d' d'' \<Longrightarrow> R d d''"
    and io: "R d (adv d)"
begin

lemma run_stmt:
  assumes "run_stmt f db = (r, db')" and "\<And>d a d'. f d = Inr (a, d') \<Longrightarrow> R d d'"
  shows "R db db'"
  using assms(1) by (cases rule: run_stmtE) (auto intro: io trans assms(2))

lemma then_do:
  assumes "then_do r k = (x, db')" and "\<And>a d. r = (a, d) \<Longrightarrow> R db d"
    and "\<And>a d. r = (Inr a, d) \<Longrightarrow> k a d = (x, db') \<Longrightarrow> R d db'"
  shows "R db db'"
  using assms by (cases r; cases "fst r") (auto intro: trans)

end

section \<open>The steps of the database\<close>

text \<open>What a process may do to the database: any operation above, a new session
  row, and the passage of time with other outcomes of the next statements.\<close>

inductive db_step :: "Db \<Rightarrow> Db \<Rightarrow> bool" where
  step_env: "db_step db (db\<lparr> db_now := t, db_io := io \<rparr>)"
| step_session: "db_step db (db\<lparr> db_sessions := s # db_sessions db \<rparr>)"
| step_cron_upsert: "cron_upsert u db = (r1, db') \<Longrightarrow> db_step db db'"
| step_mark_fired: "mark_fired k l nf db = (r2, db') \<Longrightarrow> db_step db db'"
| step_set_enabled: "cron_set_enabled k en db = (r2, db') \<Longrightarrow> db_step db db'"
| step_cron_delete: "cron_delete k db = (r2, db') \<Longrightarrow> db_step db db'"
| step_bump: "bump_consecutive_failures k db = (r3, db') \<Longrightarrow> db_step db db'"
| step_reset: "reset_consecutive_failures k db = (r2, db') \<Longrightarrow> db_step db db'"
| step_pause: "pause_for_failures k db = (r2, db') \<Longrightarrow> db_step db db'"
| step_create: "run_create n db = (r4, db') \<Longrightarrow> db_step db db'"
| step_reject: "run_create_rejected j db = (r4, db') \<Longrightarrow> db_step db db'"
| step_attach: "run_attach_session k s db = (r2, db') \<Longrightarrow> db_step db db'"
| step_status: "run_update_status k st db = (r2, db') \<Longrightarrow> db_step db db'"
| step_finish: "run_finish k f db = (r2, db') \<Longrightarrow> db_step db db'"

definition empty_db :: "str list \<Rightarrow> (str \<times> str) list \<Rightarrow> Db" where
  "empty_db backends projects = \<lparr> db_backends = backends, db_projects = projects, db_sessions = [],
     db_crons = [], db_runs = [], db_metrics = [], db_now = [], db_io = [] \<rparr>"

definition finished_count :: "Db \<Rightarrow> nat" where
  "finished_count db = length (filter (\<lambda>(_, r). rr_finished_at r \<noteq> None) (db_runs db))"

definition db_core :: "Db \<Rightarrow> bool" where
  "db_core db \<longleftrightarrow> crons_wf db \<and> runs_wf db
     \<and> (\<forall>k r. map_of (db_crons db) k = Some r \<longrightarrow> cr_id r = k \<and> cron_checks db r)
     \<and> (\<forall>k r. map_of (db_runs db) k = Some r \<longrightarrow> rr_id r = k \<and> run_checks db r)"

definition db_ok :: "Db \<Rightarrow> bool" where
  "db_ok db \<longleftrightarrow> db_core db \<and> length (db_metrics db) = finished_count db"

lemma db_coreD:
  assumes "db_core db"
  shows "crons_wf db" "runs_wf db"
    and "map_of (db_crons db) k = Some c \<Longrightarrow> cr_id c = k \<and> cron_checks db c"
    and "map_of (db_runs db) k = Some r \<Longrightarrow> rr_id r = k \<and> run_checks db r"
  using assms by (auto simp: db_core_def)

lemma checks_cong:
  "db_projects d' = db_projects d \<Longrightarrow> db_backends d' = db_backends d \<Longrightarrow> cron_checks d' r = cron_checks d r"
  "(\<And>c. (map_of (db_crons d') c = None) = (map_of (db_crons d) c = None)) \<Longrightarrow>
   db_sessions d' = db_sessions d \<Longrightarrow> run_checks d' x = run_checks d x"
  by (auto simp: cron_checks_def run_checks_def split: option.splits)

lemma run_checks_cong:
  "db_crons d' = db_crons d \<Longrightarrow> db_sessions d' = db_sessions d \<Longrightarrow> run_checks d' x = run_checks d x"
  by (rule checks_cong(2)) simp_all

lemma core_cong:
  assumes "db_crons d' = db_crons d" "db_runs d' = db_runs d" "db_sessions d' = db_sessions d"
    "db_projects d' = db_projects d" "db_backends d' = db_backends d"
  shows "db_core d' = db_core d" "finished_count d' = finished_count d"
proof -
  have "cron_checks d' r = cron_checks d r" "run_checks d' x = run_checks d x" for r x
    by (rule checks_cong(1) run_checks_cong; simp add: assms)+
  then show "db_core d' = db_core d" by (simp add: db_core_def crons_wf_def runs_wf_def assms)
  show "finished_count d' = finished_count d" by (simp add: finished_count_def assms)
qed

lemma update_crons_frame:
  assumes "update_crons k c f d = (n, d')"
  shows "db_projects d' = db_projects d" "db_backends d' = db_backends d" "db_sessions d' = db_sessions d"
    "db_runs d' = db_runs d" "db_metrics d' = db_metrics d"
  using assms by (auto simp: update_crons_def split: prod.splits)

lemma update_runs_frame:
  assumes "update_runs k c f d = (n, d')"
  shows "db_projects d' = db_projects d" "db_backends d' = db_backends d" "db_sessions d' = db_sessions d"
    "db_crons d' = db_crons d" "db_metrics d' = db_metrics d"
  using assms by (auto simp: update_runs_def split: prod.splits)

lemma update_crons_core:
  assumes ok: "db_core d" and u: "update_crons k c f d = (n, d')"
    and f: "\<And>r. c r \<Longrightarrow> cr_id r = k \<Longrightarrow> cron_checks d r \<Longrightarrow> cr_id (f r) = k \<and> cron_checks d (f r)"
  shows "db_core d'"
proof -
  note wf = db_coreD(1)[OF ok] and fr = update_crons_frame[OF u]
  have cc: "cron_checks d' r = cron_checks d r" for r by (rule checks_cong(1)) (simp_all add: fr)
  have rc: "run_checks d' r = run_checks d r" for r
    by (rule checks_cong(2)) (simp_all add: fr crons_tbl.upd_domain[OF wf u])
  have "cr_id r = j \<and> cron_checks d r" if "map_of (db_crons d') j = Some r" for j r
    by (rule crons_tbl.upd_row_preserves[OF wf u, of "\<lambda>j r. cr_id r = j \<and> cron_checks d r"])
       (use db_coreD(3)[OF ok] f that in \<open>auto simp: cron_checks_def\<close>)
  then show ?thesis
    using ok crons_tbl.upd_wf[OF wf u] by (simp add: db_core_def cc rc fr runs_wf_def)
qed

lemma update_runs_core:
  assumes ok: "db_core d" and u: "update_runs k c f d = (n, d')"
    and f: "\<And>r. 0 < n \<Longrightarrow> c r \<Longrightarrow> rr_id r = k \<Longrightarrow> run_checks d r \<Longrightarrow> rr_id (f r) = k \<and> run_checks d (f r)"
  shows "db_core d'"
proof -
  note wf = db_coreD(2)[OF ok] and fr = update_runs_frame[OF u]
  have cc: "cron_checks d' r = cron_checks d r" for r by (rule checks_cong(1)) (simp_all add: fr)
  have rc: "run_checks d' r = run_checks d r" for r by (rule checks_cong(2)) (simp_all add: fr)
  have "rr_id r = j \<and> run_checks d r" if "map_of (db_runs d') j = Some r" for j r
    by (rule runs_tbl.upd_row_preserves[OF wf u, of "\<lambda>j r. rr_id r = j \<and> run_checks d r"])
       (use db_coreD(4)[OF ok] f that runs_tbl.upd_hit[OF wf u] in auto)
  then show ?thesis
    using ok runs_tbl.upd_wf[OF wf u] by (simp add: db_core_def cc rc fr crons_wf_def)
qed

lemma finished_update:
  assumes "update_runs k c f d = (n, d')"
    and "\<And>r. c r \<Longrightarrow> (rr_finished_at (f r) = None) = (rr_finished_at r = None)"
  shows "finished_count d' = finished_count d"
proof -
  have "length (filter (\<lambda>(_, r). rr_finished_at r \<noteq> None) (snd (sql_update k c f rows)))
      = length (filter (\<lambda>(_, r). rr_finished_at r \<noteq> None) rows)" for rows
    unfolding sql_update_def snd_conv
    by (induction rows) (simp_all add: split_beta assms(2) del: not_None_eq)
  from this [of "db_runs d"] show ?thesis
    using assms(1) by (auto simp: update_runs_def finished_count_def split: prod.splits)
qed

lemma finished_finish:
  assumes "update_runs k (\<lambda>r. rr_finished_at r = None) (finish_row f) d = (n, d')"
  shows "finished_count d' = finished_count d + n"
proof -
  have "length (filter (\<lambda>(_, r). rr_finished_at r \<noteq> None)
        (snd (sql_update k (\<lambda>r. rr_finished_at r = None) (finish_row f) rows)))
      = length (filter (\<lambda>(_, r). rr_finished_at r \<noteq> None) rows)
        + fst (sql_update k (\<lambda>r. rr_finished_at r = None) (finish_row f) rows)" for rows
    unfolding sql_update_def snd_conv fst_conv by (induction rows) (auto simp: finish_row_def)
  from this [of "db_runs d"] show ?thesis using assms by (auto simp: update_runs_def finished_count_def split: prod.splits)
qed

lemma insert_run_facts:
  assumes "insert_run r d = Inr (a, d')"
  shows "map_of (db_runs d) (rr_id r) = None" "run_checks d r"
    "d' = d\<lparr> db_runs := db_runs d @ [(rr_id r, r)] \<rparr>"
  using assms by (auto simp: insert_run_def split: if_splits)

lemma insert_run_core:
  assumes ok: "db_core d" and i: "insert_run r d = Inr (a, d')"
  shows "db_core d'" "finished_count d' = finished_count d + (if rr_finished_at r = None then 0 else 1)"
    "db_metrics d' = db_metrics d"
proof -
  note f = insert_run_facts[OF i]
  have "rr_id r \<notin> fst ` set (db_runs d)" using f(1) by (simp add: map_of_eq_None_iff)
  then have wf: "runs_wf d'" using db_coreD(2)[OF ok] by (simp add: runs_wf_def f(3))
  have rc: "run_checks d' x = run_checks d x" "cron_checks d' y = cron_checks d y" for x y
    by (rule run_checks_cong checks_cong(1); simp add: f(3))+
  show "db_core d'"
    using ok wf f(1,2) unfolding db_core_def rc
    by (auto simp: f(3) crons_wf_def map_add_Some_iff map_of_append split: if_splits)
  show "finished_count d' = finished_count d + (if rr_finished_at r = None then 0 else 1)"
    "db_metrics d' = db_metrics d" by (simp_all add: finished_count_def f(3))
qed

lemma core_adv [simp]: "db_core (adv d) = db_core d" "finished_count (adv d) = finished_count d"
  by (rule core_cong; simp)+

lemma core_count_terminal [simp]:
  "db_core (count_terminal s d) = db_core d" "finished_count (count_terminal s d) = finished_count d"
  by (rule core_cong; simp add: count_terminal_def)+

interpretation ok_ev: db_evolution "\<lambda>d d'. db_ok d \<longrightarrow> db_ok d'"
  by unfold_locales (auto simp: db_ok_def)

lemma update_crons_ok:
  assumes "db_ok d" "update_crons k c f d = (n, d')"
    and "\<And>r. c r \<Longrightarrow> cr_id r = k \<Longrightarrow> cron_checks d r \<Longrightarrow> cr_id (f r) = k \<and> cron_checks d (f r)"
  shows "db_ok d'"
proof -
  have c: "db_core d" and m: "length (db_metrics d) = finished_count d"
    using assms(1) by (simp_all add: db_ok_def)
  have "db_core d'" by (rule update_crons_core[OF c assms(2)]) (rule assms(3))
  then show ?thesis using m update_crons_frame[OF assms(2)] by (simp add: db_ok_def finished_count_def)
qed

lemma update_runs_ok:
  assumes "db_ok d" "update_runs k c f d = (n, d')"
    and "\<And>r. 0 < n \<Longrightarrow> c r \<Longrightarrow> rr_id r = k \<Longrightarrow> run_checks d r \<Longrightarrow> rr_id (f r) = k \<and> run_checks d (f r)"
    and "\<And>r. c r \<Longrightarrow> (rr_finished_at (f r) = None) = (rr_finished_at r = None)"
  shows "db_ok d'"
proof -
  have c: "db_core d" and m: "length (db_metrics d) = finished_count d"
    using assms(1) by (simp_all add: db_ok_def)
  have "db_core d'" by (rule update_runs_core[OF c assms(2)]) (rule assms(3))
  moreover have "finished_count d' = finished_count d" by (rule finished_update[OF assms(2)]) (rule assms(4))
  ultimately show ?thesis using m update_runs_frame(5)[OF assms(2)] by (simp add: db_ok_def)
qed

lemma run_stmt_ok:
  assumes "db_ok db" "run_stmt f db = (r, db')" "\<And>d a d'. db_ok d \<Longrightarrow> f d = Inr (a, d') \<Longrightarrow> db_ok d'"
  shows "db_ok db'"
  using ok_ev.run_stmt[OF assms(2)] assms(1,3) by blast

lemma ok_adv [simp]: "db_ok (adv d) = db_ok d"
  by (simp add: db_ok_def)

lemma read_ok: "run_stmt (\<lambda>d. Inr (g d, d)) db = (r, db') \<Longrightarrow> db_ok db \<Longrightarrow> db_ok db'"
  by (erule run_stmtE) auto

lemma read_same: "run_stmt (\<lambda>d. Inr (g d, d)) db = (r, db') \<Longrightarrow> db' = adv db \<and> (\<forall>a. r = Inr a \<longrightarrow> a = g (adv db))"
  by (erule run_stmtE) auto

lemma stmt_update_crons_ok:
  assumes "run_stmt (\<lambda>db. let (n, db') = update_crons k c f db in Inr (h n, db')) db = (r, db')" "db_ok db"
    and "\<And>d x. c x \<Longrightarrow> cr_id x = k \<Longrightarrow> cron_checks d x \<Longrightarrow> cr_id (f x) = k \<and> cron_checks d (f x)"
  shows "db_ok db'"
proof (rule run_stmt_ok[OF assms(2,1)])
  fix d a d' assume d: "db_ok d" and u: "(let (n, db') = update_crons k c f d in Inr (h n, db')) = Inr (a, d')"
  obtain n d1 where e: "update_crons k c f d = (n, d1)" by (cases "update_crons k c f d")
  then have "d1 = d'" using u by simp
  with update_crons_ok[OF d e assms(3)] show "db_ok d'" by blast
qed

lemma stmt_update_runs_ok:
  assumes "run_stmt (\<lambda>db. let (n, db') = update_runs k c f db in
        if n > 0 \<and> B db then Inl CONSTRAINT else Inr (h n, db')) db = (r, db')" "db_ok db"
    and "\<And>d x. \<not> B d \<Longrightarrow> c x \<Longrightarrow> rr_id x = k \<Longrightarrow> run_checks d x \<Longrightarrow> rr_id (f x) = k \<and> run_checks d (f x)"
    and "\<And>x. c x \<Longrightarrow> (rr_finished_at (f x) = None) = (rr_finished_at x = None)"
  shows "db_ok db'"
proof (rule run_stmt_ok[OF assms(2,1)])
  fix d a d'
  assume d: "db_ok d" and u: "(let (n, db') = update_runs k c f d in
        if n > 0 \<and> B d then Inl CONSTRAINT else Inr (h n, db')) = Inr (a, d')"
  obtain n d1 where e: "update_runs k c f d = (n, d1)" by (cases "update_runs k c f d")
  then have "d1 = d'" "\<not> (n > 0 \<and> B d)" using u by (auto split: if_splits)
  with update_runs_ok[OF d e] assms(3,4) show "db_ok d'" by blast
qed

lemma then_do_ok:
  assumes "then_do m g = (x, db')" "db_ok db"
    and "\<And>r d. m = (r, d) \<Longrightarrow> db_ok d" "\<And>a d. g a d = (x, db') \<Longrightarrow> db_ok d \<Longrightarrow> db_ok db'"
  shows "db_ok db'"
proof (cases m)
  case (Pair r d)
  then show ?thesis using assms by (cases r) auto
qed

lemma mark_fired_ok: "mark_fired k l nf db = (r, db') \<Longrightarrow> db_ok db \<Longrightarrow> db_ok db'"
  unfolding mark_fired_def by (erule (1) stmt_update_crons_ok) (simp add: cron_checks_def)

lemma set_enabled_ok: "cron_set_enabled k en db = (r, db') \<Longrightarrow> db_ok db \<Longrightarrow> db_ok db'"
  unfolding cron_set_enabled_def by (erule (1) stmt_update_crons_ok) (simp add: cron_checks_def)

lemma reset_ok: "reset_consecutive_failures k db = (r, db') \<Longrightarrow> db_ok db \<Longrightarrow> db_ok db'"
  unfolding reset_consecutive_failures_def
  by (erule (1) stmt_update_crons_ok) (simp add: cron_checks_def)

lemma pause_ok: "pause_for_failures k db = (r, db') \<Longrightarrow> db_ok db \<Longrightarrow> db_ok db'"
  unfolding pause_for_failures_def by (erule (1) stmt_update_crons_ok) (simp add: cron_checks_def)

lemma bump_ok:
  assumes "bump_consecutive_failures k db = (r, db')" "db_ok db"
  shows "db_ok db'"
proof (rule then_do_ok[OF assms(1)[unfolded bump_consecutive_failures_def] assms(2)])
  fix r1 d
  assume "run_stmt (\<lambda>db. Inr (update_crons k (\<lambda>_. True)
    (\<lambda>r. r\<lparr> cr_consecutive_failures := cr_consecutive_failures r + 1 \<rparr>) db)) db = (r1, d)"
  then show "db_ok d"
    by (rule run_stmt_ok[OF assms(2)]) (auto intro: update_crons_ok simp: cron_checks_def)
qed (rule read_ok)

lemma attach_ok: "run_attach_session k s db = (r, db') \<Longrightarrow> db_ok db \<Longrightarrow> db_ok db'"
  unfolding run_attach_session_def by (erule (1) stmt_update_runs_ok) (auto simp: run_checks_def)

lemma update_status_ok: "run_update_status k s db = (r, db') \<Longrightarrow> db_ok db \<Longrightarrow> db_ok db'"
  unfolding run_update_status_def by (erule (1) stmt_update_runs_ok) (auto simp: run_checks_def)

lemma fetch_ok: "run_fetch k db = (r, db') \<Longrightarrow> db_ok db \<Longrightarrow> db_ok db'"
  unfolding run_fetch_def run_get_def
  by (erule (1) then_do_ok) (auto intro: read_ok)

lemma create_ok:
  assumes "run_create n db = (r, db')" "db_ok db"
  shows "db_ok db'"
  using assms(1) unfolding run_create_def
proof (rule then_do_ok[OF _ assms(2)])
  fix r1 d assume "run_stmt (insert_run \<lparr> rr_id = nr_id n, rr_cron_id = nr_cron_id n, rr_session_id = nr_session_id n,
          rr_scheduled_at = nr_scheduled_at n, rr_started_at = nr_started_at n,
          rr_finished_at = None, rr_status = nr_status n, rr_exit_code = None,
          rr_coalesced_count = nr_coalesced_count n, rr_cost_usd_est = None,
          rr_error_kind = None, rr_error_detail = None, rr_tail_log = None \<rparr>) db = (r1, d)"
  then show "db_ok d"
    by (rule run_stmt_ok[OF assms(2)])
       (use insert_run_core in \<open>fastforce simp: db_ok_def\<close>)
qed (rule fetch_ok)

lemma create_rejected_ok:
  assumes "run_create_rejected j db = (r, db')" "db_ok db"
  shows "db_ok db'"
proof -
  let ?row = "\<lparr> rr_id = rj_id j, rr_cron_id = Some (rj_cron_id j), rr_session_id = None,
          rr_scheduled_at = rj_scheduled_at j, rr_started_at = None,
          rr_finished_at = Some (rj_scheduled_at j), rr_status = rj_status j, rr_exit_code = None,
          rr_coalesced_count = max (rj_coalesced_count j) 1, rr_cost_usd_est = None,
          rr_error_kind = Some (rj_error_kind j), rr_error_detail = Some (rj_error_detail j),
          rr_tail_log = None \<rparr>"
  obtain r1 d where s: "run_stmt (insert_run ?row) db = (r1, d)" by (cases "run_stmt (insert_run ?row) db")
  have c: "db_core (adv db)" and mt: "length (db_metrics db) = finished_count db"
    using assms(2) by (simp_all add: db_ok_def)
  from s show ?thesis
  proof (cases rule: run_stmtE)
    case (fail e)
    then show ?thesis using assms s ok_ev.io by (auto simp: run_create_rejected_def)
  next
    case (ok a)
    have "db_ok (count_terminal (rj_status j) d)"
      using insert_run_core[OF c ok(2)] mt by (simp add: db_ok_def) (simp add: count_terminal_def)
    moreover have "run_fetch (rj_id j) (count_terminal (rj_status j) d) = (r, db')"
      using assms(1) s ok by (simp add: run_create_rejected_def)
    ultimately show ?thesis by (blast intro: fetch_ok)
  qed
qed

lemma finish_ok:
  assumes "run_finish k f db = (r, db')" "db_ok db"
  shows "db_ok db'"
proof -
  let ?st = "\<lambda>db. let (n, db') = update_runs k (\<lambda>r. rr_finished_at r = None) (finish_row f) db
         in if n > 0 \<and> rf_status f \<notin> set run_statuses then Inl CONSTRAINT else Inr (n, db')"
  obtain r1 d where s: "run_stmt ?st db = (r1, d)" by (cases "run_stmt ?st db")
  have c: "db_core (adv db)" and mt: "length (db_metrics db) = finished_count db"
    using assms(2) by (simp_all add: db_ok_def)
  from s show ?thesis
  proof (cases rule: run_stmtE)
    case (fail e)
    then show ?thesis using assms s ok_ev.io by (auto simp: run_finish_def)
  next
    case (ok n)
    obtain n1 d1 where u: "update_runs k (\<lambda>r. rr_finished_at r = None) (finish_row f) (adv db) = (n1, d1)"
      by (cases "update_runs k (\<lambda>r. rr_finished_at r = None) (finish_row f) (adv db)")
    have e: "n1 = n" "d1 = d" "n > 0 \<longrightarrow> rf_status f \<in> set run_statuses"
      using ok(2) u by (auto split: if_splits)
    have "db_core d" by (rule update_runs_core[OF c u[unfolded e]])
        (use e(3) in \<open>auto simp: finish_row_def run_checks_def\<close>)
    moreover have "finished_count d = finished_count db + n" "db_metrics d = db_metrics db"
      using finished_finish[OF u] update_runs_frame(5)[OF u] e by simp_all
    moreover have "n \<le> 1" using runs_tbl.upd_count[OF db_coreD(2)[OF c] u] e
      by (auto split: option.splits)
    ultimately have d: "db_ok d" if "n = 0" using that mt by (simp add: db_ok_def)
    have d': "db_ok (count_terminal (rf_status f) d)" if "n > 0"
      using \<open>db_core d\<close> \<open>finished_count d = _\<close> \<open>db_metrics d = _\<close> \<open>n \<le> 1\<close> that mt
      by (simp add: db_ok_def) (simp add: count_terminal_def)
    show ?thesis
    proof (cases "n > 0")
      case True
      then show ?thesis using assms(1) s ok d' by (simp add: run_finish_def)
    next
      case False
      then show ?thesis using assms(1) s ok d
        by (auto simp: run_finish_def run_get_def elim!: then_do_ok intro: read_ok)
    qed
  qed
qed

lemma upsert_ok:
  assumes "cron_upsert u db = (r, db')" "db_ok db"
  shows "db_ok db'"
proof (rule then_do_ok[OF assms(1)[unfolded cron_upsert_def] assms(2)])
  fix r1 d
  assume "run_stmt (\<lambda>db. let row = upsert_row (db_now db) u (map_of (db_crons db) (cu_id u)) in
         if cron_checks db row then Inr ((), db\<lparr> db_crons := AList.update (cu_id u) row (db_crons db) \<rparr>)
         else Inl CONSTRAINT) db = (r1, d)"
  then show "db_ok d"
  proof (rule run_stmt_ok[OF assms(2)])
    fix d a d'
    assume d: "db_ok d" and
      u: "(let row = upsert_row (db_now d) u (map_of (db_crons d) (cu_id u)) in
         if cron_checks d row then Inr ((), d\<lparr> db_crons := AList.update (cu_id u) row (db_crons d) \<rparr>)
         else Inl CONSTRAINT) = Inr (a, d')"
    define row where "row = upsert_row (db_now d) u (map_of (db_crons d) (cu_id u))"
    have row: "cron_checks d row" "d' = d\<lparr> db_crons := AList.update (cu_id u) row (db_crons d) \<rparr>"
      using u by (auto simp: row_def[symmetric] split: if_splits)
    have "cr_id row = cu_id u" by (simp add: row_def upsert_row_def)
    moreover have "cron_checks d' x = cron_checks d x" for x by (rule checks_cong(1)) (simp_all add: row(2))
    moreover have "run_checks d x \<Longrightarrow> run_checks d' x" for x
      by (auto simp: run_checks_def row(2) update_conv' split: option.splits)
    moreover have "finished_count d' = finished_count d" by (simp add: finished_count_def row(2))
    ultimately show "db_ok d'"
      using d row(1) by (auto simp: db_ok_def db_core_def crons_wf_def runs_wf_def row(2) update_conv'
          distinct_update split: if_splits)
  qed
next
  fix a d
  assume "then_do (cron_get (cu_id u) d)
         (\<lambda>r db. (case r of Some row \<Rightarrow> Inr row | None \<Rightarrow> Inl (MissingCron (cu_id u)), db)) = (r, db')" and d: "db_ok d"
  then show "db_ok db'" unfolding cron_get_def by (rule then_do_ok) (auto intro: read_ok[OF _ d])
qed

definition forget_cron :: "str \<Rightarrow> RunRecord \<Rightarrow> RunRecord" where
  "forget_cron k r = (if rr_cron_id r = Some k then r\<lparr> rr_cron_id := None \<rparr> else r)"

lemma forget_cron_finished [simp]: "rr_finished_at (forget_cron k r) = rr_finished_at r"
  by (simp add: forget_cron_def)

lemma cron_delete_forget:
  assumes "cron_delete k db = (Inr True, db')"
  shows "map_of (db_runs db') j = map_option (forget_cron k) (map_of (db_runs db) j)"
    "map_of (db_crons db') j = (if j = k then None else map_of (db_crons db) j)"
    "map fst (db_runs db') = map fst (db_runs db)"
    "db_sessions db' = db_sessions db" "db_projects db' = db_projects db" "db_backends db' = db_backends db"
    "db_metrics db' = db_metrics db" "db_crons db' = AList.delete k (db_crons db)"
    "finished_count db' = finished_count db"
proof -
  have d: "db' = (adv db)\<lparr> db_crons := AList.delete k (db_crons db),
     db_runs := map (\<lambda>(i, r). (i, forget_cron k r)) (db_runs db) \<rparr>"
    using assms unfolding cron_delete_def forget_cron_def
    by (auto elim!: run_stmtE split: if_splits)
  have l: "length (filter (\<lambda>(_, r). rr_finished_at r \<noteq> None) (map (\<lambda>(i, r). (i, forget_cron k r)) xs))
      = length (filter (\<lambda>(_, r). rr_finished_at r \<noteq> None) xs)" for xs
    by (induction xs) (simp_all add: split_beta del: not_None_eq)
  show "map_of (db_runs db') j = map_option (forget_cron k) (map_of (db_runs db) j)"
    by (simp add: d map_of_map)
  show "map_of (db_crons db') j = (if j = k then None else map_of (db_crons db) j)"
    by (simp add: d delete_conv')
  show "map fst (db_runs db') = map fst (db_runs db)" by (simp add: d split_beta)
  show "finished_count db' = finished_count db" using l[of "db_runs db"] by (simp add: finished_count_def d)
  show "db_sessions db' = db_sessions db" "db_projects db' = db_projects db" "db_backends db' = db_backends db"
    "db_metrics db' = db_metrics db" "db_crons db' = AList.delete k (db_crons db)" by (simp_all add: d)
qed

lemma delete_ok:
  assumes e: "cron_delete k db = (r, db')" and ok: "db_ok db"
  shows "db_ok db'"
proof (cases "r = Inr True")
  case True
  note f = cron_delete_forget[OF e[unfolded True]]
  have "cron_checks db' x = cron_checks db x" for x by (rule checks_cong(1)) (simp_all add: f)
  moreover have "run_checks db x \<Longrightarrow> run_checks db' (forget_cron k x)" for x
    by (auto simp: run_checks_def forget_cron_def f(2,4) split: option.splits)
  moreover have "rr_id (forget_cron k x) = rr_id x" for x by (simp add: forget_cron_def)
  ultimately show ?thesis
    using ok by (auto simp: db_ok_def db_core_def crons_wf_def runs_wf_def f distinct_delete delete_conv'
        simp del: map_of_eq_Some_iff split: if_splits)
next
  case False
  then have "db' = adv db" using e unfolding cron_delete_def by (auto elim!: run_stmtE split: if_splits)
  then show ?thesis using ok by simp
qed

lemma env_ok: "db_ok (db\<lparr> db_now := t, db_io := io \<rparr>) = db_ok db"
proof -
  have "db_core (db\<lparr> db_now := t, db_io := io \<rparr>) = db_core db" by (rule core_cong(1)) simp_all
  moreover have "finished_count (db\<lparr> db_now := t, db_io := io \<rparr>) = finished_count db"
    by (rule core_cong(2)) simp_all
  ultimately show ?thesis by (simp add: db_ok_def)
qed

lemma db_step_ok: "db_step db db' \<Longrightarrow> db_ok db \<Longrightarrow> db_ok db'"
proof (induction rule: db_step.induct)
  case step_env
  then show ?case by (simp add: env_ok)
next
  case (step_session db s)
  have "run_checks db x \<Longrightarrow> run_checks (db\<lparr> db_sessions := s # db_sessions db \<rparr>) x"
    "cron_checks (db\<lparr> db_sessions := s # db_sessions db \<rparr>) y = cron_checks db y" for x y
    by (auto simp: run_checks_def cron_checks_def split: option.splits)
  then show ?case using step_session
    by (auto simp: db_ok_def db_core_def crons_wf_def runs_wf_def finished_count_def)
qed (auto intro: upsert_ok mark_fired_ok set_enabled_ok delete_ok bump_ok reset_ok pause_ok create_ok
      create_rejected_ok attach_ok update_status_ok finish_ok)

section \<open>Finished runs\<close>

definition frozen :: "Db \<Rightarrow> Db \<Rightarrow> bool" where
  "frozen d d' \<longleftrightarrow> (\<forall>k r. map_of (db_runs d) k = Some r \<longrightarrow> rr_finished_at r \<noteq> None \<longrightarrow>
     (\<exists>r'. map_of (db_runs d') k = Some r' \<and> (r' = r \<or> r' = r\<lparr> rr_cron_id := None \<rparr>)))"

lemma frozen_same: "db_runs d' = db_runs d \<Longrightarrow> frozen d d'"
  by (auto simp: frozen_def)

lemma frozen_trans: "frozen d d' \<Longrightarrow> frozen d' d'' \<Longrightarrow> frozen d d''"
  unfolding frozen_def by (elim all_forward) (fastforce simp del: map_of_eq_Some_iff)

definition evolves :: "Db \<Rightarrow> Db \<Rightarrow> bool" where
  "evolves d d' \<longleftrightarrow> (runs_wf d \<longrightarrow> runs_wf d' \<and> frozen d d')"

interpretation frozen_ev: db_evolution evolves
proof unfold_locales
  fix d d' d''
  show "evolves d d" "evolves d (adv d)"
    by (auto simp: evolves_def runs_wf_def intro: frozen_same)
  show "evolves d d' \<Longrightarrow> evolves d' d'' \<Longrightarrow> evolves d d''"
    unfolding evolves_def using frozen_trans by blast
qed

lemma evolves_same: "db_runs d' = db_runs d \<Longrightarrow> evolves d d'"
  by (simp add: evolves_def frozen_same runs_wf_def)

lemma evolves_update:
  assumes u: "update_runs k c f d = (n, d')" and c: "\<And>r. c r \<Longrightarrow> rr_finished_at r = None"
  shows "evolves d d'"
proof -
  have "\<exists>r'. map_of (db_runs d') j = Some r' \<and> (rr_finished_at r \<noteq> None \<longrightarrow> r' = r)"
    if "runs_wf d" "map_of (db_runs d) j = Some r" for j r
    by (rule runs_tbl.upd_row_evolves[OF that(1) u, of "\<lambda>r r'. rr_finished_at r \<noteq> None \<longrightarrow> r' = r"])
       (use c that in auto)
  then show ?thesis
    unfolding evolves_def frozen_def using runs_tbl.upd_wf[OF _ u] by blast
qed

lemma evolves_insert:
  assumes "insert_run r d = Inr (a, d')"
  shows "evolves d d'"
proof -
  note f = insert_run_facts[OF assms]
  have n: "rr_id r \<notin> fst ` set (db_runs d)" using f(1) by (simp add: map_of_eq_None_iff)
  have "map_of (db_runs d') k = Some x" if "map_of (db_runs d) k = Some x" for k x
    using that by (simp add: f(3) map_of_append map_add_def del: map_of_eq_Some_iff)
  then show ?thesis using n by (auto simp: evolves_def runs_wf_def frozen_def f(3) simp del: map_of_eq_Some_iff)
qed

lemma evolves_delete:
  assumes "cron_delete k db = (r, db')"
  shows "evolves db db'"
proof (cases "r = Inr True")
  case True
  note f = cron_delete_forget[OF assms[unfolded True]]
  show ?thesis unfolding evolves_def frozen_def runs_wf_def f(3)
    by (auto simp: f(1) forget_cron_def simp del: map_of_eq_Some_iff)
next
  case False
  then have "db' = adv db" using assms unfolding cron_delete_def by (auto elim!: run_stmtE split: if_splits)
  then show ?thesis by (simp add: evolves_same)
qed

lemma evolves_upd_runs_stmt:
  assumes "run_stmt (\<lambda>db. let (n, db') = update_runs k c f db in
        if n > 0 \<and> B db then Inl CONSTRAINT else Inr (h n, db')) db = (r, db')"
    and "\<And>r. c r \<Longrightarrow> rr_finished_at r = None"
  shows "evolves db db'"
  by (rule frozen_ev.run_stmt[OF assms(1)])
     (auto intro: evolves_update[OF _ assms(2)] split: prod.splits if_splits)

lemma evolves_upd_crons_stmt:
  "run_stmt (\<lambda>db. let (n, db') = update_crons k c f db in Inr (h n, db')) db = (r, db') \<Longrightarrow> evolves db db'"
  by (erule frozen_ev.run_stmt)
     (auto intro!: evolves_same dest: update_crons_frame split: prod.splits)

lemma evolves_read: "run_stmt (\<lambda>d. Inr (g d, d)) db = (r, db') \<Longrightarrow> evolves db db'"
  by (erule frozen_ev.run_stmt) (simp add: frozen_ev.refl)

lemma evolves_fetch: "run_fetch k db = (r, db') \<Longrightarrow> evolves db db'"
  unfolding run_fetch_def run_get_def
  by (erule frozen_ev.then_do) (auto intro: evolves_read frozen_ev.refl)

lemma db_step_evolves: "db_step db db' \<Longrightarrow> evolves db db'"
proof (induction rule: db_step.induct)
  case (step_cron_upsert u db r db')
  then show ?case unfolding cron_upsert_def
  proof (rule frozen_ev.then_do)
    fix a d
    assume "run_stmt (\<lambda>db. let row = upsert_row (db_now db) u (map_of (db_crons db) (cu_id u)) in
         if cron_checks db row then Inr ((), db\<lparr> db_crons := AList.update (cu_id u) row (db_crons db) \<rparr>)
         else Inl CONSTRAINT) db = (a, d)"
    then show "evolves db d"
      by (rule frozen_ev.run_stmt) (auto intro!: evolves_same simp: Let_def split: if_splits)
  next
    fix a d
    assume "then_do (cron_get (cu_id u) d)
         (\<lambda>r db. (case r of Some row \<Rightarrow> Inr row | None \<Rightarrow> Inl (MissingCron (cu_id u)), db)) = (r, db')"
    then show "evolves d db'" unfolding cron_get_def
      by (rule frozen_ev.then_do) (auto intro: evolves_read frozen_ev.refl)
  qed
next
  case (step_bump k db r db')
  then show ?case unfolding bump_consecutive_failures_def
  proof (rule frozen_ev.then_do)
    fix a d
    assume "run_stmt (\<lambda>db. Inr (update_crons k (\<lambda>_. True)
         (\<lambda>r. r\<lparr> cr_consecutive_failures := cr_consecutive_failures r + 1 \<rparr>) db)) db = (a, d)"
    then show "evolves db d"
      by (rule frozen_ev.run_stmt) (auto intro!: evolves_same dest: update_crons_frame)
  qed (rule evolves_read)
next
  case (step_create n db r db')
  then show ?case unfolding run_create_def
    by (rule frozen_ev.then_do) (auto intro: frozen_ev.run_stmt evolves_insert evolves_fetch)
next
  case (step_reject j db r db')
  have e: "evolves d db''" if "run_fetch k (count_terminal s d) = (x, db'')" for k s d x db''
    by (rule frozen_ev.trans[OF evolves_same evolves_fetch[OF that]]) (simp add: count_terminal_def)
  from step_reject show ?case unfolding run_create_rejected_def
    by (rule frozen_ev.then_do) (auto intro: frozen_ev.run_stmt evolves_insert e)
next
  case (step_finish k f db r db')
  then show ?case unfolding run_finish_def
  proof (rule frozen_ev.then_do)
    fix a d
    assume "run_stmt (\<lambda>db. let (n, db') = update_runs k (\<lambda>r. rr_finished_at r = None) (finish_row f) db
         in if n > 0 \<and> rf_status f \<notin> set run_statuses then Inl CONSTRAINT else Inr (n, db')) db = (a, d)"
    then show "evolves db d" by (rule evolves_upd_runs_stmt[where h = "\<lambda>n. n"])
  next
    fix n d
    assume e: "(if n > 0 then (Inr True, count_terminal (rf_status f) d)
               else then_do (run_get k d)
                 (\<lambda>r db. (Inr (case r of None \<Rightarrow> False | Some row \<Rightarrow> same_finish f row), db))) = (r, db')"
    show "evolves d db'"
    proof (cases "n > 0")
      case True
      then show ?thesis using e by (auto intro: evolves_same simp: count_terminal_def)
    next
      case False
      then have "then_do (run_get k d)
        (\<lambda>r db. (Inr (case r of None \<Rightarrow> False | Some row \<Rightarrow> same_finish f row), db)) = (r, db')"
        using e by simp
      then show ?thesis unfolding run_get_def
        by (rule frozen_ev.then_do) (auto intro: evolves_read frozen_ev.refl)
    qed
  qed
qed (auto intro: evolves_same evolves_delete evolves_upd_crons_stmt evolves_upd_runs_stmt
    simp: mark_fired_def cron_set_enabled_def reset_consecutive_failures_def pause_for_failures_def
      run_attach_session_def run_update_status_def)

section \<open>Properties\<close>


definition demo_upsert :: CronUpsert where
  "demo_upsert = \<lparr> cu_id = lit ''c1'', cu_name = lit ''nightly'', cu_enabled = False,
     cu_project_id = lit ''p1'', cu_backend_id = lit ''b1'', cu_spawn_args = lit ''{}'',
     cu_prompt = lit ''run'', cu_cron_expr = lit ''0 2 * * *'', cu_tz = lit ''UTC'',
     cu_catchup_mode = lit ''skip'', cu_max_concurrent_runs = 1, cu_max_runs_per_day = 5,
     cu_max_runtime_s = 60, cu_cost_budget = None, cu_failure_backoff = lit ''fixed(1m)'',
     cu_pause_on_failures = 2, cu_consecutive_failures = 0, cu_last_fired_at = None,
     cu_next_fire_at = None \<rparr>"

definition demo_db :: Db where
  "demo_db = snd (cron_upsert demo_upsert (empty_db [lit ''b1''] [(lit ''p1'', lit ''/w'')]))"



definition demo_finished :: Db where
  "demo_finished = demo_db\<lparr> db_runs := [(lit ''r1'', \<lparr> rr_id = lit ''r1'', rr_cron_id = Some (lit ''c1''),
     rr_session_id = None, rr_scheduled_at = lit ''2024'', rr_started_at = None,
     rr_finished_at = Some (lit ''2024''), rr_status = lit ''failed'', rr_exit_code = Some 1,
     rr_coalesced_count = 1, rr_cost_usd_est = None, rr_error_kind = None, rr_error_detail = None,
     rr_tail_log = None \<rparr>)] \<rparr>"


text \<open>Finishing a run.  Without statement failures, finishing an unfinished run
  with a status of the schema writes the outcome (the log cut to its last 64 KiB),
  counts its label once and reports success; with any other status nothing changes.
  Finishing a finished run never changes anything, and reports success exactly when
  it repeats the recorded outcome; finishing an unknown run reports failure.\<close>

theorem finish_outcome:
  assumes io: "db_io db = []" and wf: "runs_wf db"
  shows "case map_of (db_runs db) k of
      None \<Rightarrow> run_finish k f db = (Inr False, db)
    | Some r \<Rightarrow>
        if rr_finished_at r \<noteq> None then run_finish k f db = (Inr (same_finish f r), db)
        else if rf_status f \<notin> set run_statuses then run_finish k f db = (Inl CONSTRAINT, db)
        else \<exists>db'. run_finish k f db = (Inr True, db')
             \<and> (\<forall>j. map_of (db_runs db') j = (if j = k then Some (finish_row f r) else map_of (db_runs db) j))
             \<and> db_metrics db' = db_metrics db @ [cron_status_label (rf_status f)]
             \<and> db_crons db' = db_crons db"
proof -
  obtain n d where u: "update_runs k (\<lambda>r. rr_finished_at r = None) (finish_row f) db = (n, d)"
    by (cases "update_runs k (\<lambda>r. rr_finished_at r = None) (finish_row f) db")
  note n = runs_tbl.upd_count[OF wf u] and g = runs_tbl.upd_get[OF wf u] and fr = update_runs_frame[OF u]
  have same: "d = db" if "n = 0"
  proof -
    have "filter (\<lambda>(i, r). i = k \<and> rr_finished_at r = None) (db_runs db) = []"
      using u that by (auto simp: update_runs_def sql_update_def split: prod.splits)
    then have "map (\<lambda>(i, r). if i = k \<and> rr_finished_at r = None then (i, finish_row f r) else (i, r)) (db_runs db)
        = db_runs db" by (intro map_idI) (auto simp: filter_empty_conv)
    then show ?thesis using u by (simp add: update_runs_def sql_update_def)
  qed
  show ?thesis
  proof (cases "map_of (db_runs db) k")
    case None
    then have "n = 0" using n by simp
    then show ?thesis using None u same io by (simp add: run_finish_def run_get_def)
  next
    case (Some r)
    show ?thesis
    proof (cases "rr_finished_at r")
      case (Some x)
      then have "n = 0" using n \<open>map_of (db_runs db) k = Some r\<close> by simp
      then show ?thesis using \<open>map_of (db_runs db) k = Some r\<close> Some u same io
        by (simp add: run_finish_def run_get_def)
    next
      case None
      then have "n = 1" using n Some by simp
      then show ?thesis using Some None u io g fr by (auto simp: run_finish_def count_terminal_def)
    qed
  qed
qed

definition demo_finish :: "str \<Rightarrow> RunFinish" where
  "demo_finish st = \<lparr> rf_finished_at = lit ''2025'', rf_status = st, rf_exit_code = Some 0,
     rf_cost_usd_est = None, rf_error_kind = None, rf_error_detail = None, rf_tail_log = None \<rparr>"

lemma finish_outcome_witness:
  "run_finish (lit ''r1'') (demo_finish (lit ''completed'')) demo_finished = (Inr False, demo_finished)"
  using finish_outcome[of demo_finished "lit ''r1''" "demo_finish (lit ''completed'')"]
  by (simp add: runs_wf_def demo_finished_def demo_db_def cron_upsert_def cron_get_def empty_db_def
      demo_upsert_def upsert_row_def cron_checks_def Let_def run_stmt_def stmt_def sql_real_def
      same_finish_def demo_finish_def)

text \<open>The watermark of a cron only moves forward.  Marking a cron as fired
  succeeds exactly when the time is later than the stored one, or repeats it with
  the same next fire; afterwards the stored time is the later of the two, and no
  other cron changes.\<close>

theorem watermark_moves_forward:
  assumes io: "db_io db = []" and wf: "crons_wf db" and r: "map_of (db_crons db) k = Some r"
  shows "\<exists>b db' r'. mark_fired k t nf db = (Inr b, db')
    \<and> (b \<longleftrightarrow> (case cr_last_fired_at r of None \<Rightarrow> True | Some l \<Rightarrow> l < t \<or> l = t \<and> cr_next_fire_at r = nf))
    \<and> map_of (db_crons db') k = Some r'
    \<and> cr_last_fired_at r' = Some (case cr_last_fired_at r of None \<Rightarrow> t | Some l \<Rightarrow> max l t)
    \<and> cr_next_fire_at r' = (if b then nf else cr_next_fire_at r)
    \<and> cr_enabled r' = cr_enabled r
    \<and> (\<forall>j. j \<noteq> k \<longrightarrow> map_of (db_crons db') j = map_of (db_crons db) j)"
proof -
  let ?c = "\<lambda>r. case cr_last_fired_at r of None \<Rightarrow> True | Some l \<Rightarrow> l < t \<or> l = t \<and> cr_next_fire_at r = nf"
  let ?f = "\<lambda>r. r\<lparr> cr_last_fired_at := Some t, cr_next_fire_at := nf \<rparr>"
  obtain n d where u: "update_crons k ?c ?f db = (n, d)" by (cases "update_crons k ?c ?f db")
  have "mark_fired k t nf db = (Inr (0 < n), d)" using u io by (simp add: mark_fired_def)
  moreover have "0 < n \<longleftrightarrow> ?c r" using crons_tbl.upd_hit[OF wf u] r by simp
  moreover have "map_of (db_crons d) k = Some (if ?c r then (?f r)\<lparr> cr_updated_at := db_now db \<rparr> else r)"
    using crons_tbl.upd_get[OF wf u, of k] r by simp
  moreover have "\<forall>j. j \<noteq> k \<longrightarrow> map_of (db_crons d) j = map_of (db_crons db) j"
    using crons_tbl.upd_other[OF wf u] by blast
  ultimately show ?thesis by (auto simp: max_def split: option.splits)
qed

lemma watermark_moves_forward_witness:
  "\<exists>r'. map_of (db_crons (snd (mark_fired (lit ''c1'') (lit ''2025'') None demo_db))) (lit ''c1'') = Some r'
     \<and> cr_last_fired_at r' = Some (lit ''2025'')"
proof -
  have io: "db_io demo_db = []" and wf: "crons_wf demo_db"
    and r: "map_of (db_crons demo_db) (lit ''c1'') = Some (upsert_row [] demo_upsert None)"
    by (simp_all add: crons_wf_def demo_db_def cron_upsert_def cron_get_def empty_db_def demo_upsert_def
        upsert_row_def cron_checks_def Let_def run_stmt_def stmt_def sql_real_def)
  show ?thesis using watermark_moves_forward[OF io wf r, of "lit ''2025''" None]
    by (auto simp: upsert_row_def demo_upsert_def)
qed

text \<open>A refused fire costs nothing.  Writing the audit row of a refusal, with the
  tag and status of the gate's decision, leaves every figure that the gate reads
  for any cron unchanged: the runs in flight, the runs and the cost of the last
  day, and the time of the last failure.\<close>

theorem refusals_do_not_consume:
  assumes "db_io db = []" and "is_refusal d"
    and "rj_error_kind j = the (error_kind d)" and "rj_status j = the (rejected_status d)"
    and "run_create_rejected j db = (Inr row, db')"
  shows "fst (count_running_for_cron c db') = fst (count_running_for_cron c db)
    \<and> fst (count_running_global db') = fst (count_running_global db)
    \<and> fst (count_since_for_cron c since db') = fst (count_since_for_cron c since db)
    \<and> fst (sum_cost_since_for_cron c since db') = fst (sum_cost_since_for_cron c since db)
    \<and> fst (last_terminal_failure_at_for_cron c db') = fst (last_terminal_failure_at_for_cron c db)"
proof -
  define r where "r = \<lparr> rr_id = rj_id j, rr_cron_id = Some (rj_cron_id j), rr_session_id = None,
          rr_scheduled_at = rj_scheduled_at j, rr_started_at = None,
          rr_finished_at = Some (rj_scheduled_at j), rr_status = rj_status j, rr_exit_code = None,
          rr_coalesced_count = max (rj_coalesced_count j) 1, rr_cost_usd_est = None,
          rr_error_kind = Some (rj_error_kind j), rr_error_detail = Some (rj_error_detail j),
          rr_tail_log = None \<rparr>"
  obtain db1 where i: "insert_run r db = Inr ((), db1)" "db' = count_terminal (rj_status j) db1" "db_io db1 = []"
    using assms(1,5) unfolding run_create_rejected_def r_def[symmetric]
    by (auto simp: run_fetch_def run_get_def count_terminal_def insert_run_def
        split: sum.splits option.splits if_splits)
  have runs: "db_runs db' = db_runs db @ [(rj_id j, r)]" "db_io db' = []"
    using insert_run_facts[OF i(1)] i(2,3) by (simp_all add: count_terminal_def r_def)
  have q: "like_quota (rj_error_kind j)"
    using assms(2,3) by (cases d) (simp_all add: like_quota_def ascii_lower_def lit_def)
  have s: "rj_status j \<notin> {lit ''failed'', lit ''timed_out''}"
    using assms(2,4) by (cases d) simp_all
  have w: "\<not> in_window c since r" "\<not> in_flight r" "\<not> rr_status r \<in> {lit ''failed'', lit ''timed_out''}"
    using q s by (simp_all add: in_window_def in_flight_def r_def)
  show ?thesis
    using runs assms(1) w
    by (simp add: count_running_for_cron_def count_running_global_def count_since_for_cron_def count_rows_def
        sum_cost_since_for_cron_def last_terminal_failure_at_for_cron_def)
qed

definition demo_reject :: NewRejectedRun where
  "demo_reject = \<lparr> rj_id = lit ''r9'', rj_cron_id = lit ''c1'', rj_scheduled_at = lit ''2025'',
     rj_status = lit ''cancelled'', rj_coalesced_count = 1,
     rj_error_kind = lit ''quota_max_runs_per_day'', rj_error_detail = [] \<rparr>"

lemma refusals_do_not_consume_witness:
  "fst (count_since_for_cron (lit ''c1'') [] (snd (run_create_rejected demo_reject demo_db)))
     = fst (count_since_for_cron (lit ''c1'') [] demo_db)"
proof -
  have io: "db_io demo_db = []"
    and c: "\<exists>row db'. run_create_rejected demo_reject demo_db = (Inr row, db')"
    by (simp_all add: run_create_rejected_def run_fetch_def run_get_def insert_run_def run_checks_def
        run_statuses_def demo_reject_def count_terminal_def demo_db_def cron_upsert_def cron_get_def
        empty_db_def demo_upsert_def upsert_row_def cron_checks_def Let_def run_stmt_def stmt_def sql_real_def)
  from c obtain row db' where e: "run_create_rejected demo_reject demo_db = (Inr row, db')" by blast
  have "rj_error_kind demo_reject = the (error_kind (RefuseRunsPerDay 5 5))"
    "rj_status demo_reject = the (rejected_status (RefuseRunsPerDay 5 5))"
    by (simp_all add: demo_reject_def)
  from refusals_do_not_consume[OF io _ this e, of "lit ''c1''" "[]"] show ?thesis by (simp add: e)
qed

lemma retry_from_facts:
  assumes "attempt + left = Suc MAX_ATTEMPTS" "0 < left"
  shows "snd (retry_from left attempt op) \<le> sum_list (map retry_pause_ms [attempt..<MAX_ATTEMPTS])"
    and "\<exists>n. attempt \<le> n \<and> n \<le> MAX_ATTEMPTS \<and> (\<forall>i. attempt \<le> i \<and> i < n \<longrightarrow> op i = Locked)
      \<and> fst (retry_from left attempt op) = (case op n of Served \<Rightarrow> None | Failed e \<Rightarrow> Some e | Locked \<Rightarrow> Some (Busy MAX_ATTEMPTS))
      \<and> (op n = Locked \<longrightarrow> n = MAX_ATTEMPTS)"
  using assms
proof (induction left arbitrary: attempt)
  case (Suc left)
  {
    case 1
    then show ?case
      by (cases "op attempt"; cases "attempt < MAX_ATTEMPTS")
         (use Suc.IH(1)[of "Suc attempt"] in \<open>auto simp: split_beta upt_conv_Cons\<close>)
  next
    case 2
    show ?case
    proof (cases "op attempt = Locked \<and> attempt < MAX_ATTEMPTS")
      case True
      then have "Suc attempt + left = Suc MAX_ATTEMPTS" "0 < left" using 2 by auto
      from Suc.IH(2)[OF this] obtain n where n: "Suc attempt \<le> n" "n \<le> MAX_ATTEMPTS"
        "\<forall>i. Suc attempt \<le> i \<and> i < n \<longrightarrow> op i = Locked"
        "fst (retry_from left (Suc attempt) op) = (case op n of Served \<Rightarrow> None | Failed e \<Rightarrow> Some e | Locked \<Rightarrow> Some (Busy MAX_ATTEMPTS))"
        "op n = Locked \<longrightarrow> n = MAX_ATTEMPTS" by blast
      have "\<forall>i. attempt \<le> i \<and> i < n \<longrightarrow> op i = Locked" using n(3) True
        by (metis Suc_leI le_neq_implies_less)
      then show ?thesis using n True by (intro exI[of _ n]) (simp add: split_beta)
    next
      case False
      then show ?thesis using 2 by (intro exI[of _ attempt]) (cases "op attempt"; auto)
    qed
  }
qed auto

text \<open>Retrying a locked database.  The retry loop stops at the first attempt that
  does not meet the lock, with its outcome; when all eight attempts meet it, the
  answer is busy.  The pauses add up to less than 2.4 seconds.\<close>

theorem retry_busy_outcome:
  "snd (retry_busy op) \<le> 2398
   \<and> (\<exists>n. 1 \<le> n \<and> n \<le> 8 \<and> (\<forall>i. 1 \<le> i \<and> i < n \<longrightarrow> op i = Locked) \<and> (op n = Locked \<longrightarrow> n = 8)
       \<and> fst (retry_busy op) = (case op n of Served \<Rightarrow> None | Failed e \<Rightarrow> Some e | Locked \<Rightarrow> Some (Busy 8)))"
proof
  have "sum_list (map retry_pause_ms [1..<MAX_ATTEMPTS]) = 2398" by code_simp
  then show "snd (retry_busy op) \<le> 2398"
    using retry_from_facts(1)[of 1 MAX_ATTEMPTS op] by (simp add: retry_busy_def MAX_ATTEMPTS_def)
  show "\<exists>n. 1 \<le> n \<and> n \<le> 8 \<and> (\<forall>i. 1 \<le> i \<and> i < n \<longrightarrow> op i = Locked) \<and> (op n = Locked \<longrightarrow> n = 8)
       \<and> fst (retry_busy op) = (case op n of Served \<Rightarrow> None | Failed e \<Rightarrow> Some e | Locked \<Rightarrow> Some (Busy 8))"
    using retry_from_facts(2)[of 1 MAX_ATTEMPTS op] unfolding retry_busy_def MAX_ATTEMPTS_def
    by (simp add: conj_commute conj_left_commute cong: Attempt.case_cong)
qed

lemma retry_busy_outcome_witness:
  "snd (retry_busy (\<lambda>n. if n < 3 then Locked else Served)) \<le> 2398
   \<and> fst (retry_busy (\<lambda>n. if n < 3 then Locked else Served)) = None"
  using retry_busy_outcome[of "\<lambda>n. if n < 3 then Locked else Served"]
  by (auto split: if_splits)

text \<open>Listing runs.  The list holds at most 500 of the rows that match the filter,
  the newest first, and every matching row left out is not newer than any listed.\<close>

theorem run_list_newest:
  assumes "db_io db = []"
  shows "\<exists>rows rest. run_list fl db = (Inr rows, db) \<and> length rows \<le> 500
    \<and> mset (rows @ rest) = mset (filter (selects fl) (map snd (db_runs db)))
    \<and> sorted_wrt (\<lambda>a b. run_key b \<le> run_key a) (rows @ rest)
    \<and> (rest \<noteq> [] \<longrightarrow> length rows = nat (min (max (fl_limit fl) 1) 500))"
proof -
  define sel where "sel = filter (selects fl) (map snd (db_runs db))"
  define out where "out = rev (sort_key run_key sel)"
  define n where "n = nat (min (max (fl_limit fl) 1) 500)"
  have s: "sorted_wrt (\<lambda>a b. run_key b \<le> run_key a) out"
    unfolding out_def sorted_wrt_rev using sorted_sort_key[of run_key sel] by (simp add: sorted_map)
  have "run_list fl db = (Inr (take n out), db)"
    using assms by (simp add: run_list_def out_def n_def sel_def)
  moreover have "mset (take n out @ drop n out) = mset sel" by (simp add: out_def)
  moreover have "length (take n out) \<le> 500" by (simp add: n_def)
  ultimately show ?thesis using s unfolding n_def[symmetric] sel_def
    by (intro exI[of _ "take n out"] exI[of _ "drop n out"]) simp
qed

lemma run_list_newest_witness:
  "\<exists>rows. run_list \<lparr> fl_cron_id = None, fl_since = None, fl_limit = 10 \<rparr> demo_finished = (Inr rows, demo_finished)
     \<and> length rows \<le> 500"
proof -
  have io: "db_io demo_finished = []"
    by (simp add: demo_finished_def demo_db_def cron_upsert_def cron_get_def empty_db_def
      demo_upsert_def upsert_row_def cron_checks_def Let_def run_stmt_def stmt_def sql_real_def)
  show ?thesis using run_list_newest[OF io, of "\<lparr> fl_cron_id = None, fl_since = None, fl_limit = 10 \<rparr>"] by blast
qed

end
