(* ===== verification/Cron_Control.thy ===== *)
theory Cron_Control
  imports Sched_Loop Cron_Security Storage_Repos
begin

text \<open>
  Model of \<open>la-daemon/src/cron_control.rs\<close>, the one writer of the crons table
  and of the scheduler's heap, with the parts of \<open>la-scheduler/src/scheduler.rs\<close>
  (the command handle) and \<open>la-daemon/src/scheduler.rs\<close> (row conversions) that
  it calls.  Its mutex makes every operation one step.  A stopped scheduler loop
  is \<open>None\<close>; a command whose handling panics stops the loop and loses its reply.
\<close>

section \<open>The command handle\<close>

type_synonym handle = "Sched option"

definition handle_call ::
    "chrono_ops \<Rightarrow> instant \<Rightarrow> Command \<Rightarrow> handle \<Rightarrow> (SchedError + Reply) \<times> handle" where
  "handle_call ch now cmd h =
     (case h of
        None \<Rightarrow> (Inl (Invariant (lit ''scheduler loop closed'')), None)
      | Some s \<Rightarrow>
          (case apply_command ch now cmd s of
             None \<Rightarrow> (Inl (Invariant (lit ''scheduler reply dropped'')), None)
           | Some (r, s') \<Rightarrow> (Inr r, Some s')))"

definition handle_upsert ::
    "chrono_ops \<Rightarrow> instant \<Rightarrow> CronId \<Rightarrow> CronSpec \<Rightarrow> CatchupMode \<Rightarrow> int \<Rightarrow> instant option \<Rightarrow> handle
     \<Rightarrow> (SchedError + nat) \<times> handle" where
  "handle_upsert ch now cid spec mode d lf h =
     (case handle_call ch now (CUpsert cid spec mode d lf) h of
        (Inr (RVersion r), h') \<Rightarrow> (r, h')
      | (Inr _, h') \<Rightarrow> (Inl (Invariant []), h')
      | (Inl e, h') \<Rightarrow> (Inl e, h'))"

definition handle_delete :: "chrono_ops \<Rightarrow> instant \<Rightarrow> CronId \<Rightarrow> handle \<Rightarrow> (SchedError + bool) \<times> handle" where
  "handle_delete ch now cid h =
     (case handle_call ch now (CDelete cid) h of
        (Inr (RExisted b), h') \<Rightarrow> (Inr b, h')
      | (Inr _, h') \<Rightarrow> (Inl (Invariant []), h')
      | (Inl e, h') \<Rightarrow> (Inl e, h'))"

definition handle_update_backoff_state ::
    "chrono_ops \<Rightarrow> instant \<Rightarrow> CronId \<Rightarrow> FailureBackoff option \<Rightarrow> instant option \<Rightarrow> nat \<Rightarrow> handle
     \<Rightarrow> (SchedError + bool) \<times> handle" where
  "handle_update_backoff_state ch now cid b lf n h =
     (case handle_call ch now (CUpdateBackoffState cid b lf n) h of
        (Inr (RExisted e), h') \<Rightarrow> (Inr e, h')
      | (Inr _, h') \<Rightarrow> (Inl (Invariant []), h')
      | (Inl e, h') \<Rightarrow> (Inl e, h'))"

definition handle_clear_backoff_state :: "chrono_ops \<Rightarrow> instant \<Rightarrow> CronId \<Rightarrow> handle \<Rightarrow> (SchedError + bool) \<times> handle" where
  "handle_clear_backoff_state ch now cid h = handle_update_backoff_state ch now cid None None 0 h"

definition handle_snapshot :: "chrono_ops \<Rightarrow> instant \<Rightarrow> handle \<Rightarrow> (SchedError + HeapEntry list) \<times> handle" where
  "handle_snapshot ch now h =
     (case handle_call ch now CSnapshot h of
        (Inr (RSnapshot es), h') \<Rightarrow> (Inr es, h')
      | (Inr _, h') \<Rightarrow> (Inl (Invariant []), h')
      | (Inl e, h') \<Rightarrow> (Inl e, h'))"

text \<open>What the scheduler holds for a cron: its spec and catch-up mode.\<close>

definition heap_lookup :: "handle \<Rightarrow> CronId \<Rightarrow> (CronSpec \<times> CatchupMode) option" where
  "heap_lookup h k = (case h of None \<Rightarrow> None
     | Some s \<Rightarrow> map_option (\<lambda>e. (e_spec e, e_catchup_mode e)) (table_get k (s_table s)))"

text \<open>The contract of the scheduler towards its clients.\<close>

locale cron_heap =
  fixes lookup :: "'h \<Rightarrow> 'k \<Rightarrow> ('s \<times> 'm) option"
    and install :: "'k \<Rightarrow> 's \<Rightarrow> 'm \<Rightarrow> int \<Rightarrow> instant option \<Rightarrow> 'h \<Rightarrow> ('e + 'v) \<times> 'h"
    and remove :: "'k \<Rightarrow> 'h \<Rightarrow> ('e + bool) \<times> 'h"
  assumes install_ok: "install k s m d lf h = (Inr v, h') \<Longrightarrow>
      lookup h' j = (if j = k then Some (s, m) else lookup h j)"
    and install_err: "install k s m d lf h = (Inl e, h') \<Longrightarrow>
      lookup h' j = lookup h j \<or> lookup h' j = None"
    and remove_get: "remove k h = (r, h') \<Longrightarrow> lookup h' j = (if j = k then None else lookup h j)"
begin

lemma install_other: "install k s m d lf h = (r, h') \<Longrightarrow> j \<noteq> k \<Longrightarrow>
  lookup h' j = lookup h j \<or> lookup h' j = None"
  by (cases r) (auto dest: install_ok[where j = j] install_err[where j = j])

lemma remove_self: "lookup (snd (remove k h)) k = None"
  using remove_get[of k h "fst (remove k h)" "snd (remove k h)" k] by simp

lemma remove_other: "j \<noteq> k \<Longrightarrow> lookup (snd (remove k h)) j = lookup h j"
  using remove_get[of k h "fst (remove k h)" "snd (remove k h)" j] by simp

end

lemma missed_fires_table: "process_missed_fires inp s = (r, s') \<Longrightarrow> s_table s' = s_table s"
  by (auto simp: process_missed_fires_def Let_def split: if_splits option.splits sum.splits prod.splits)

lemma install_entry_table:
  assumes "install_entry ch now cid spec mode d lf s = (r, s')"
  shows "case r of Some (Inr v) \<Rightarrow> (\<exists>wm nf. table_upsert cid spec mode d wm nf (s_table s) = (v, s_table s'))
    | _ \<Rightarrow> s_table s' = s_table s"
  using assms
  by (auto simp: install_entry_def Let_def missed_fires_table
      split: option.splits sum.splits prod.splits if_splits dest!: missed_fires_table) blast+

interpretation sched_heap: cron_heap heap_lookup "handle_upsert ch now" "handle_delete ch now" for ch now
proof unfold_locales
  fix k s m d lf h h' j and v :: nat and e r
  show "handle_upsert ch now k s m d lf h = (Inr v, h') \<Longrightarrow>
      heap_lookup h' j = (if j = k then Some (s, m) else heap_lookup h j)"
  proof -
    assume a: "handle_upsert ch now k s m d lf h = (Inr v, h')"
    obtain x y where h: "h = Some x" "h' = Some y"
      "install_entry ch now k s m d lf x = (Some (Inr v), y)"
      using a by (auto simp: handle_upsert_def handle_call_def apply_command_def
          split: option.splits sum.splits prod.splits)
    obtain wm nf where u: "table_upsert k s m d wm nf (s_table x) = (v, s_table y)"
      using install_entry_table[OF h(3)] by auto
    show ?thesis using upsert_stored[OF u] by (auto simp: heap_lookup_def h stored_def)
  qed
  show "handle_upsert ch now k s m d lf h = (Inl e, h') \<Longrightarrow>
      heap_lookup h' j = heap_lookup h j \<or> heap_lookup h' j = None"
    by (cases h; cases "install_entry ch now k s m d lf (the h)")
       (auto simp: handle_upsert_def handle_call_def apply_command_def heap_lookup_def
        dest!: install_entry_table split: option.splits sum.splits)
  show "handle_delete ch now k h = (r, h') \<Longrightarrow>
      heap_lookup h' j = (if j = k then None else heap_lookup h j)"
    by (cases h; cases "table_delete k (s_table (the h))")
       (auto simp: handle_delete_def handle_call_def apply_command_def heap_lookup_def table_delete_def
        table_get_def delete_conv')
qed

section \<open>Rows, specs and snapshots\<close>

text \<open>
  Code outside the repository, as a record of functions: the two parsers behind a
  cron spec, the hasher, serde_json (the canonical text of a JSON text, \<open>None\<close> if it
  does not parse), and chrono's reading and printing of times.
\<close>

record Env =
  en_chrono :: chrono_ops
  en_schedule :: "str \<Rightarrow> str + Schedule"
  en_tz :: "str \<Rightarrow> Tz option"
  en_hash :: "hash_input \<Rightarrow> nat"
  en_json :: "str \<Rightarrow> str option"
  en_parse_lex :: "str \<Rightarrow> instant option"
  en_format_lex :: "instant \<Rightarrow> str"
  en_rfc3339 :: "instant \<Rightarrow> str"
  en_usd :: "f64 \<Rightarrow> str"

definition REPLAY_INTERVAL_FLOOR :: int where
  "REPLAY_INTERVAL_FLOOR = int nanos_per_sec"

definition catchup_mode_from_str :: "str \<Rightarrow> CatchupMode" where
  "catchup_mode_from_str s =
     (if s = lit ''skip'' then Skip else if s = lit ''replay'' then Replay else Coalesce)"

definition parse_cron_spec :: "Env \<Rightarrow> Cron \<Rightarrow> SchedError + (CronSpec \<times> CatchupMode \<times> int)" where
  "parse_cron_spec env cron =
     bind_result (parse_spec (en_schedule env) (en_tz env) (cr_cron_expr cron) (cr_tz cron))
       (\<lambda>spec. Inr (spec, catchup_mode_from_str (cr_catchup_mode cron), REPLAY_INTERVAL_FLOOR))"

definition cron_to_security_snapshot :: "Env \<Rightarrow> Cron \<Rightarrow> CronSecuritySnapshot" where
  "cron_to_security_snapshot env c =
     \<lparr> sn_backend_id = cr_backend_id c,
       sn_spawn_args = (case en_json env (cr_spawn_args c) of Some v \<Rightarrow> v | None \<Rightarrow> lit ''{}''),
       sn_prompt = cr_prompt c, sn_cron_expr = cr_cron_expr c, sn_tz = cr_tz c,
       sn_catchup_mode = cr_catchup_mode c, sn_max_runs_per_day = cr_max_runs_per_day c,
       sn_cost_budget = cr_cost_budget c \<rparr>"

definition upsert_to_security_snapshot :: "CronUpsert \<Rightarrow> CronSecuritySnapshot" where
  "upsert_to_security_snapshot u =
     \<lparr> sn_backend_id = cu_backend_id u, sn_spawn_args = cu_spawn_args u, sn_prompt = cu_prompt u,
       sn_cron_expr = cu_cron_expr u, sn_tz = cu_tz u, sn_catchup_mode = cu_catchup_mode u,
       sn_max_runs_per_day = cu_max_runs_per_day u, sn_cost_budget = cu_cost_budget u \<rparr>"

definition PROMPT_PREVIEW_CHARS :: nat where "PROMPT_PREVIEW_CHARS = 64"

definition next_fire_at_for_summary :: "Env \<Rightarrow> instant \<Rightarrow> Cron \<Rightarrow> str option" where
  "next_fire_at_for_summary env now c =
     (case parse_spec (en_schedule env) (en_tz env) (cr_cron_expr c) (cr_tz c) of
        Inl _ \<Rightarrow> None
      | Inr spec \<Rightarrow> map_option (en_rfc3339 env) (next_after spec now))"

definition build_confirmation_summary :: "Env \<Rightarrow> instant \<Rightarrow> Cron \<Rightarrow> ConfirmationSummary" where
  "build_confirmation_summary env now c =
     \<lparr> cs_next_fire_at = next_fire_at_for_summary env now c,
       cs_budget = map_option (\<lambda>usd. lit ''$'' @ en_usd env usd @ lit ''/day'') (cr_cost_budget c),
       cs_prompt_preview = take PROMPT_PREVIEW_CHARS (cr_prompt c) \<rparr>"

section \<open>The operations\<close>

datatype CronControlError =
    CcNotFound str
  | CcInvalidExpr str
  | CcInvalidTz str
  | CcStorage StorageError
  | CcSecurity CronSecurityError
  | CcOther SchedError

datatype SetEnabledOutcome =
    NeedsConfirmation Cron str ConfirmationSummary
  | Applied Cron

record UpsertOutcome =
  uo_cron :: Cron
  uo_requires_reconfirmation :: bool

record Control =
  ct_db :: Db
  ct_tokens :: ConfirmationTokens
  ct_heap :: handle

definition spec_error :: "SchedError \<Rightarrow> CronControlError" where
  "spec_error err = (case err of
       InvalidExpr _ reason \<Rightarrow> CcInvalidExpr reason
     | InvalidTimezone z \<Rightarrow> CcInvalidTz z
     | other \<Rightarrow> CcOther other)"

text \<open>The heap side of an upsert: install an enabled row, remove a disabled one.\<close>

definition reconcile ::
    "Env \<Rightarrow> instant \<Rightarrow> CronSpec \<Rightarrow> CatchupMode \<Rightarrow> Cron \<Rightarrow> handle \<Rightarrow> (SchedError + unit) \<times> handle" where
  "reconcile env now spec mode cron h =
     (if cr_enabled cron \<noteq> 0
      then (case handle_upsert (en_chrono env) now (cr_id cron) spec mode REPLAY_INTERVAL_FLOOR
                   (Option.bind (cr_last_fired_at cron) (en_parse_lex env)) h of
              (Inl e, h') \<Rightarrow> (Inl e, h')
            | (Inr _, h') \<Rightarrow> (Inr (), h'))
      else (Inr (), snd (handle_delete (en_chrono env) now (cr_id cron) h)))"

definition control_upsert ::
    "Env \<Rightarrow> instant \<Rightarrow> CronUpsert \<Rightarrow> Control \<Rightarrow> (CronControlError + UpsertOutcome) \<times> Control" where
  "control_upsert env now u st =
     (case parse_spec (en_schedule env) (en_tz env) (cu_cron_expr u) (cu_tz u) of
        Inl err \<Rightarrow> (Inl (spec_error err), st)
      | Inr spec \<Rightarrow>
       (case cron_get (cu_id u) (ct_db st) of
          (Inl e, db) \<Rightarrow> (Inl (CcStorage e), st\<lparr> ct_db := db \<rparr>)
        | (Inr existing, db) \<Rightarrow>
         (case decide_upsert_security (case existing of Some c \<Rightarrow> cr_enabled c \<noteq> 0 | None \<Rightarrow> False)
                 (map_option (cron_to_security_snapshot env) existing) (upsert_to_security_snapshot u) of
            Inl e \<Rightarrow> (Inl (CcSecurity e), st\<lparr> ct_db := db \<rparr>)
          | Inr d \<Rightarrow>
           (case cron_upsert (u\<lparr> cu_enabled := enabled_after_upsert d \<rparr>) db of
              (Inl e, db') \<Rightarrow> (Inl (CcStorage e), st\<lparr> ct_db := db' \<rparr>)
            | (Inr cron, db') \<Rightarrow>
             (case reconcile env now spec (catchup_mode_from_str (cu_catchup_mode u)) cron (ct_heap st) of
                (Inl e, h) \<Rightarrow> (Inl (CcOther e), st\<lparr> ct_db := db', ct_heap := h \<rparr>)
              | (Inr _, h) \<Rightarrow>
                  (Inr \<lparr> uo_cron = cron, uo_requires_reconfirmation = requires_reconfirmation d \<rparr>,
                   st\<lparr> ct_db := db', ct_heap := h,
                       ct_tokens := (if requires_reconfirmation d
                          then snd (invalidate_cron (cr_id cron) (ct_tokens st)) else ct_tokens st) \<rparr>))))))"

text \<open>Reading the row back at the end of set_enabled.\<close>

definition reread :: "str \<Rightarrow> Control \<Rightarrow> (CronControlError + SetEnabledOutcome) \<times> Control" where
  "reread k st = (case cron_get k (ct_db st) of
       (Inl e, db) \<Rightarrow> (Inl (CcStorage e), st\<lparr> ct_db := db \<rparr>)
     | (Inr None, db) \<Rightarrow> (Inl (CcNotFound k), st\<lparr> ct_db := db \<rparr>)
     | (Inr (Some c), db) \<Rightarrow> (Inr (Applied c), st\<lparr> ct_db := db \<rparr>))"

definition control_disable ::
    "Env \<Rightarrow> instant \<Rightarrow> str \<Rightarrow> Control \<Rightarrow> (CronControlError + SetEnabledOutcome) \<times> Control" where
  "control_disable env now k st =
     (let st1 = st\<lparr> ct_tokens := snd (invalidate_cron k (ct_tokens st)) \<rparr> in
      case cron_set_enabled k False (ct_db st1) of
        (Inl e, db) \<Rightarrow> (Inl (CcStorage e), st1\<lparr> ct_db := db \<rparr>)
      | (Inr _, db) \<Rightarrow>
          reread k (st1\<lparr> ct_db := db, ct_heap := snd (handle_delete (en_chrono env) now k (ct_heap st1)) \<rparr>))"

definition control_confirmed ::
    "Env \<Rightarrow> instant \<Rightarrow> Cron \<Rightarrow> str \<Rightarrow> Control \<Rightarrow> (CronControlError + SetEnabledOutcome) \<times> Control" where
  "control_confirmed env now cron k st =
     (case parse_cron_spec env cron of
        Inl e \<Rightarrow> (Inl (CcOther e), st)
      | Inr (spec, mode, interval) \<Rightarrow>
       (case cron_set_enabled k True (ct_db st) of
          (Inl e, db) \<Rightarrow> (Inl (CcStorage e), st\<lparr> ct_db := db \<rparr>)
        | (Inr _, db) \<Rightarrow>
         (case handle_upsert (en_chrono env) now (cr_id cron) spec mode interval
                 (Option.bind (cr_last_fired_at cron) (en_parse_lex env)) (ct_heap st) of
            (Inl e, h) \<Rightarrow> (Inl (CcOther e), st\<lparr> ct_db := db, ct_heap := h \<rparr>)
          | (Inr _, h) \<Rightarrow> reread k (st\<lparr> ct_db := db, ct_heap := h \<rparr>))))"

text \<open>The wall clock of the heap and of the summary is \<open>now\<close>, the monotonic one of
  the tokens is \<open>mnow\<close>; \<open>rnd\<close> is what the random generator returns.\<close>

definition control_set_enabled ::
    "Env \<Rightarrow> instant \<Rightarrow> str option \<Rightarrow> str \<Rightarrow> bool \<Rightarrow> str option \<Rightarrow> nat \<Rightarrow> Control
     \<Rightarrow> (CronControlError + SetEnabledOutcome) \<times> Control" where
  "control_set_enabled env now rnd k en token mnow st =
     (case cron_get k (ct_db st) of
        (Inl e, db) \<Rightarrow> (Inl (CcStorage e), st\<lparr> ct_db := db \<rparr>)
      | (Inr None, db) \<Rightarrow> (Inl (CcNotFound k), st\<lparr> ct_db := db \<rparr>)
      | (Inr (Some cron), db) \<Rightarrow>
          (let st1 = st\<lparr> ct_db := db \<rparr> in
           if \<not> en then control_disable env now k st1
           else
             (case require_or_confirm rnd k token (build_confirmation_summary env now cron)
                     (sensitive_fingerprint (en_hash env) (cron_to_security_snapshot env cron)) mnow
                     (ct_tokens st1) of
                (Inl e, ts) \<Rightarrow> (Inl (CcSecurity e), st1\<lparr> ct_tokens := ts \<rparr>)
              | (Inr (RequiresConfirmation tok summary), ts) \<Rightarrow>
                  (Inr (NeedsConfirmation cron tok summary), st1\<lparr> ct_tokens := ts \<rparr>)
              | (Inr (Confirmed _), ts) \<Rightarrow> control_confirmed env now cron k (st1\<lparr> ct_tokens := ts \<rparr>))))"

definition control_delete ::
    "Env \<Rightarrow> instant \<Rightarrow> str \<Rightarrow> Control \<Rightarrow> (CronControlError + bool) \<times> Control" where
  "control_delete env now k st =
     (let st1 = st\<lparr> ct_tokens := snd (invalidate_cron k (ct_tokens st)) \<rparr> in
      case cron_delete k (ct_db st1) of
        (Inl e, db) \<Rightarrow> (Inl (CcStorage e), st1\<lparr> ct_db := db \<rparr>)
      | (Inr removed, db) \<Rightarrow>
          (Inr removed, st1\<lparr> ct_db := db,
             ct_heap := snd (handle_delete (en_chrono env) now k (ct_heap st1)) \<rparr>))"

text \<open>The three mutations as one operation; the flag of a success tells whether it
  was applied, rather than answered with a confirmation token.\<close>

datatype ControlOp =
    OpUpsert CronUpsert
  | OpSetEnabled "str option" str bool "str option" nat
  | OpDelete str

definition op_target :: "ControlOp \<Rightarrow> str" where
  "op_target op = (case op of OpUpsert u \<Rightarrow> cu_id u | OpSetEnabled _ k _ _ _ \<Rightarrow> k | OpDelete k \<Rightarrow> k)"

definition control_op ::
    "Env \<Rightarrow> instant \<Rightarrow> ControlOp \<Rightarrow> Control \<Rightarrow> (CronControlError + bool) \<times> Control" where
  "control_op env now op st =
     (case op of
        OpUpsert u \<Rightarrow> apfst (map_sum id (\<lambda>_. True)) (control_upsert env now u st)
      | OpSetEnabled rnd k en token mnow \<Rightarrow>
          apfst (map_sum id (\<lambda>x. case x of Applied _ \<Rightarrow> True | NeedsConfirmation _ _ _ \<Rightarrow> False))
            (control_set_enabled env now rnd k en token mnow st)
      | OpDelete k \<Rightarrow> apfst (map_sum id (\<lambda>_. True)) (control_delete env now k st))"

section \<open>Lemmas\<close>

abbreviation row_of :: "Db \<Rightarrow> str \<Rightarrow> Cron option" where
  "row_of db k \<equiv> map_of (db_crons db) k"

definition relabel :: "Db \<Rightarrow> bool \<Rightarrow> Cron \<Rightarrow> Cron" where
  "relabel db en r = r\<lparr> cr_enabled := (if en then 1 else 0), cr_updated_at := db_now db \<rparr>"

lemma relabel_simps [simp]:
  "cr_enabled (relabel db en r) = (if en then 1 else 0)" "cr_id (relabel db en r) = cr_id r"
  "cr_cron_expr (relabel db en r) = cr_cron_expr r" "cr_tz (relabel db en r) = cr_tz r"
  "cr_catchup_mode (relabel db en r) = cr_catchup_mode r"
  "cron_to_security_snapshot env (relabel db en r) = cron_to_security_snapshot env r"
  by (simp_all add: relabel_def cron_to_security_snapshot_def)

lemma cron_get_facts:
  "cron_get k db = (r, db') \<Longrightarrow> db' = adv db \<and> (\<forall>c. r = Inr c \<longrightarrow> c = row_of db k)"
  unfolding cron_get_def by (drule read_same) auto

lemma set_enabled_facts:
  assumes wf: "crons_wf db" and e: "cron_set_enabled k en db = (r, db')"
  shows "case r of Inl _ \<Rightarrow> db' = adv db
    | Inr _ \<Rightarrow> (\<forall>j. row_of db' j = (if j = k then map_option (relabel db en) (row_of db j) else row_of db j))"
  using e unfolding cron_set_enabled_def
proof (cases rule: run_stmtE)
  case (ok a)
  obtain n d where u: "update_crons k (\<lambda>_. True) (\<lambda>r. r\<lparr> cr_enabled := (if en then 1 else 0) \<rparr>) (adv db) = (n, d)"
    by (cases "update_crons k (\<lambda>_. True) (\<lambda>r. r\<lparr> cr_enabled := (if en then 1 else 0) \<rparr>) (adv db)")
  have "crons_wf (adv db)" using wf by (simp add: crons_wf_def)
  from crons_tbl.upd_get[OF this u] show ?thesis using ok u by (simp add: relabel_def[abs_def])
qed simp

lemma upsert_facts:
  assumes "cron_upsert u db = (r, db')"
  shows "(db_crons db' = db_crons db \<and> isl r)
    \<or> (\<forall>j. row_of db' j = (if j = cu_id u then Some (upsert_row (db_now db) u (row_of db (cu_id u))) else row_of db j))
       \<and> (\<forall>c. r = Inr c \<longrightarrow> c = upsert_row (db_now db) u (row_of db (cu_id u)))"
proof -
  define row where "row = upsert_row (db_now db) u (row_of db (cu_id u))"
  obtain r1 d where s: "run_stmt (\<lambda>db.
         let row = upsert_row (db_now db) u (row_of db (cu_id u)) in
         if cron_checks db row then Inr ((), db\<lparr> db_crons := AList.update (cu_id u) row (db_crons db) \<rparr>)
         else Inl CONSTRAINT) db = (r1, d)" by fastforce
  then show ?thesis
  proof (cases rule: run_stmtE)
    case (fail e)
    then show ?thesis using assms s by (auto simp: cron_upsert_def)
  next
    case (ok a)
    then have d: "db_crons d = AList.update (cu_id u) row (db_crons db)"
      by (auto simp: row_def Let_def split: if_splits)
    have "then_do (cron_get (cu_id u) d)
         (\<lambda>r db. (case r of Some row \<Rightarrow> Inr row | None \<Rightarrow> Inl (MissingCron (cu_id u)), db)) = (r, db')"
      using assms s ok by (simp add: cron_upsert_def)
    then have "db_crons db' = db_crons d \<and> (\<forall>c. r = Inr c \<longrightarrow> Some c = row_of d (cu_id u))"
      using cron_get_facts[of "cu_id u" d]
      by (cases "cron_get (cu_id u) d"; cases "fst (cron_get (cu_id u) d)") (auto split: option.splits)
    then show ?thesis using d by (auto simp: update_conv' row_def[symmetric])
  qed
qed

lemma delete_facts:
  assumes "cron_delete k db = (r, db')"
  shows "case r of Inl _ \<Rightarrow> db_crons db' = db_crons db
    | Inr _ \<Rightarrow> (\<forall>j. row_of db' j = (if j = k then None else row_of db j))"
proof (cases "r = Inr True")
  case True
  then show ?thesis using cron_delete_forget(2)[OF assms[unfolded True]] by simp
next
  case False
  then show ?thesis using assms unfolding cron_delete_def by (auto elim!: run_stmtE split: if_splits)
qed

lemma reread_facts:
  assumes "reread k st = (r, st')"
  shows "db_crons (ct_db st') = db_crons (ct_db st)" "ct_heap st' = ct_heap st" "ct_tokens st' = ct_tokens st"
    "r = Inr x \<Longrightarrow> \<exists>c. x = Applied c \<and> row_of (ct_db st) k = Some c"
  using assms by (auto simp: reread_def dest!: cron_get_facts split: prod.splits sum.splits option.splits)

text \<open>The row of a cron and the scheduler's entry agree.\<close>

definition synced :: "Env \<Rightarrow> str \<Rightarrow> Control \<Rightarrow> bool" where
  "synced env k st \<longleftrightarrow>
     (case row_of (ct_db st) k of
        None \<Rightarrow> heap_lookup (ct_heap st) k = None
      | Some c \<Rightarrow>
          if cr_enabled c = 0 then heap_lookup (ct_heap st) k = None
          else (case parse_spec (en_schedule env) (en_tz env) (cr_cron_expr c) (cr_tz c) of
                  Inl _ \<Rightarrow> False
                | Inr spec \<Rightarrow> heap_lookup (ct_heap st) k = Some (spec, catchup_mode_from_str (cr_catchup_mode c))))"

text \<open>What an operation on cron \<open>k\<close> does to the others.\<close>

definition others_kept :: "str \<Rightarrow> Control \<Rightarrow> Control \<Rightarrow> bool" where
  "others_kept k st st' \<longleftrightarrow> (\<forall>j. j \<noteq> k \<longrightarrow> row_of (ct_db st') j = row_of (ct_db st) j
     \<and> (heap_lookup (ct_heap st') j = heap_lookup (ct_heap st) j \<or> heap_lookup (ct_heap st') j = None))"

lemma others_kept_refl [simp]: "others_kept k st st"
  by (simp add: others_kept_def)

lemma others_kept_cong:
  "db_crons (ct_db st') = db_crons (ct_db st) \<Longrightarrow> ct_heap st' = ct_heap st \<Longrightarrow> others_kept k st st'"
  by (simp add: others_kept_def)

lemma reconcile_facts:
  assumes "reconcile env now spec mode cron h = (r, h')"
  shows "j \<noteq> cr_id cron \<Longrightarrow> heap_lookup h' j = heap_lookup h j \<or> heap_lookup h' j = None"
    and "r = Inr x \<Longrightarrow> heap_lookup h' (cr_id cron) = (if cr_enabled cron = 0 then None else Some (spec, mode))"
proof -
  show "heap_lookup h' j = heap_lookup h j \<or> heap_lookup h' j = None" if "j \<noteq> cr_id cron"
    using assms that sched_heap.install_other[OF _ that] sched_heap.remove_other[OF that]
    by (auto simp: reconcile_def split: if_splits prod.splits sum.splits)
  show "heap_lookup h' (cr_id cron) = (if cr_enabled cron = 0 then None else Some (spec, mode))" if "r = Inr x"
    using assms that sched_heap.install_ok[where j = "cr_id cron"] sched_heap.remove_self
    by (auto simp: reconcile_def split: if_splits prod.splits sum.splits)
qed

lemma upsert_row_simps [simp]:
  "cr_id (upsert_row t u old) = cu_id u" "cr_cron_expr (upsert_row t u old) = cu_cron_expr u"
  "cr_tz (upsert_row t u old) = cu_tz u" "cr_catchup_mode (upsert_row t u old) = cu_catchup_mode u"
  "cr_enabled (upsert_row t u old) = (if cu_enabled u then 1 else 0)"
  by (simp_all add: upsert_row_def)

text \<open>An upsert that reaches its write.\<close>

lemma control_upsert_cases:
  assumes "control_upsert env now u st = (r, st')"
  obtains (early) e where "r = Inl e" "db_crons (ct_db st') = db_crons (ct_db st)" "ct_heap st' = ct_heap st"
      "ct_tokens st' = ct_tokens st" "db_ok (ct_db st) \<longrightarrow> db_ok (ct_db st')"
    | (written) spec d row where
      "parse_spec (en_schedule env) (en_tz env) (cu_cron_expr u) (cu_tz u) = Inr spec"
      "decide_upsert_security (case row_of (ct_db st) (cu_id u) of Some c \<Rightarrow> cr_enabled c \<noteq> 0 | None \<Rightarrow> False)
         (map_option (cron_to_security_snapshot env) (row_of (ct_db st) (cu_id u)))
         (upsert_to_security_snapshot u) = Inr d"
      "row = upsert_row (db_now (ct_db st)) (u\<lparr> cu_enabled := enabled_after_upsert d \<rparr>) (row_of (ct_db st) (cu_id u))"
      "\<And>j. row_of (ct_db st') j = (if j = cu_id u then Some row else row_of (ct_db st) j)"
      "\<exists>rr. reconcile env now spec (catchup_mode_from_str (cu_catchup_mode u)) row (ct_heap st) = (rr, ct_heap st')
          \<and> (\<forall>x. r = Inr x \<longrightarrow> rr = Inr ()) \<or> isl r \<and> ct_heap st' = ct_heap st"
      "ct_tokens st' = (case r of Inr x \<Rightarrow> if uo_requires_reconfirmation x
          then snd (invalidate_cron (cu_id u) (ct_tokens st)) else ct_tokens st | Inl _ \<Rightarrow> ct_tokens st)"
      "db_ok (ct_db st) \<longrightarrow> db_ok (ct_db st')"
proof -
  obtain r0 db where g: "cron_get (cu_id u) (ct_db st) = (r0, db)" by fastforce
  note gf = cron_get_facts[OF g]
  show thesis
  proof (cases "parse_spec (en_schedule env) (en_tz env) (cu_cron_expr u) (cu_tz u)")
    case (Inl a)
    then show ?thesis using assms by (intro early) (auto simp: control_upsert_def)
  next
    case spec: (Inr spec)
    show ?thesis
    proof (cases r0)
      case (Inl e)
      then show ?thesis using assms spec g gf by (intro early) (auto simp: control_upsert_def)
    next
      case (Inr existing)
      then have ex: "existing = row_of (ct_db st) (cu_id u)" using gf by simp
      show ?thesis
      proof (cases "decide_upsert_security (case existing of Some c \<Rightarrow> cr_enabled c \<noteq> 0 | None \<Rightarrow> False)
         (map_option (cron_to_security_snapshot env) existing) (upsert_to_security_snapshot u)")
        case (Inl e)
        then show ?thesis using assms spec g gf Inr by (intro early) (auto simp: control_upsert_def)
      next
        case d: (Inr d)
        let ?u = "u\<lparr> cu_enabled := enabled_after_upsert d \<rparr>"
        obtain r1 db1 where w: "cron_upsert ?u db = (r1, db1)" by fastforce
        have db: "db_crons db = db_crons (ct_db st)" "db_now db = db_now (ct_db st)" using gf by simp_all
        have okw: "db_ok (ct_db st) \<longrightarrow> db_ok db1" using upsert_ok[OF w] gf by simp
        define row where "row = upsert_row (db_now (ct_db st)) ?u (row_of (ct_db st) (cu_id u))"
        have rest: "(r, st') = (case (r1, db1) of
              (Inl e, db') \<Rightarrow> (Inl (CcStorage e), st\<lparr> ct_db := db' \<rparr>)
            | (Inr cron, db') \<Rightarrow>
             (case reconcile env now spec (catchup_mode_from_str (cu_catchup_mode u)) cron (ct_heap st) of
                (Inl e, h) \<Rightarrow> (Inl (CcOther e), st\<lparr> ct_db := db', ct_heap := h \<rparr>)
              | (Inr _, h) \<Rightarrow>
                  (Inr \<lparr> uo_cron = cron, uo_requires_reconfirmation = requires_reconfirmation d \<rparr>,
                   st\<lparr> ct_db := db', ct_heap := h,
                       ct_tokens := (if requires_reconfirmation d
                          then snd (invalidate_cron (cr_id cron) (ct_tokens st)) else ct_tokens st) \<rparr>)))"
          using assms spec g Inr d w by (simp add: control_upsert_def)
        from upsert_facts[OF w]
        consider (no) "db_crons db1 = db_crons db" "isl r1"
          | (yes) "\<And>j. row_of db1 j = (if j = cu_id u then Some row else row_of (ct_db st) j)"
              "\<And>c. r1 = Inr c \<Longrightarrow> c = row"
          unfolding db row_def by auto
        then show ?thesis
        proof cases
          case no
          then obtain e where "r1 = Inl e" by (auto simp: isl_def)
          then show ?thesis using rest db no(1) okw by (intro early[of "CcStorage e"]) auto
        next
          case yes
          have "ct_db st' = db1" using rest by (auto split: sum.splits prod.splits)
          moreover have "\<exists>rr. reconcile env now spec (catchup_mode_from_str (cu_catchup_mode u)) row (ct_heap st) = (rr, ct_heap st')
              \<and> (\<forall>x. r = Inr x \<longrightarrow> rr = Inr ()) \<or> isl r \<and> ct_heap st' = ct_heap st"
            using rest yes(2) by (cases r1) (auto split: sum.splits prod.splits)
          moreover have "ct_tokens st' = (case r of Inr x \<Rightarrow> if uo_requires_reconfirmation x
              then snd (invalidate_cron (cu_id u) (ct_tokens st)) else ct_tokens st | Inl _ \<Rightarrow> ct_tokens st)"
            using rest yes(2) by (cases r1) (auto simp: row_def split: sum.splits prod.splits)
          ultimately show ?thesis using spec d yes(1) ex okw by (intro written[OF _ _ row_def]) auto
        qed
      qed
    qed
  qed
qed

lemma upsert_effect:
  assumes e: "control_upsert env now u st = (r, st')"
  shows "others_kept (cu_id u) st st'" "r = Inr x \<Longrightarrow> synced env (cu_id u) st'"
proof -
  show "others_kept (cu_id u) st st'"
    using e
  proof (cases rule: control_upsert_cases)
    case early
    then show ?thesis by (intro others_kept_cong)
  next
    case (written spec d row)
    from written(5) show ?thesis unfolding others_kept_def
    proof (elim disjE exE conjE)
      fix rr assume "reconcile env now spec (catchup_mode_from_str (cu_catchup_mode u)) row (ct_heap st) = (rr, ct_heap st')"
      then show "\<forall>j. j \<noteq> cu_id u \<longrightarrow> row_of (ct_db st') j = row_of (ct_db st) j
          \<and> (heap_lookup (ct_heap st') j = heap_lookup (ct_heap st) j \<or> heap_lookup (ct_heap st') j = None)"
        using reconcile_facts(1) written(3,4) by fastforce
    qed (simp add: written(4))
  qed
  show "synced env (cu_id u) st'" if "r = Inr x"
    using e
  proof (cases rule: control_upsert_cases)
    case early
    then show ?thesis using that by simp
  next
    case (written spec d row)
    from written(5) that obtain rr where
      "reconcile env now spec (catchup_mode_from_str (cu_catchup_mode u)) row (ct_heap st) = (rr, ct_heap st')" "rr = Inr ()"
      by auto
    from reconcile_facts(2)[OF this] show ?thesis
      using written(1,3,4) by (simp add: synced_def split: if_splits)
  qed
qed

lemma delete_effect:
  assumes e: "control_delete env now k st = (r, st')"
  shows "others_kept k st st' \<and> (\<not> isl r \<longrightarrow> synced env k st')"
proof -
  obtain r1 db where d: "cron_delete k (ct_db st) = (r1, db)" by fastforce
  note f = delete_facts[OF d]
  show ?thesis
    using e d f sched_heap.remove_other sched_heap.remove_self
    by (cases r1) (auto simp: control_delete_def others_kept_def synced_def Let_def)
qed

lemma disable_effect:
  assumes e: "control_disable env now k st = (r, st')" and wf: "crons_wf (ct_db st)"
  shows "others_kept k st st' \<and> (\<not> isl r \<longrightarrow> synced env k st')"
proof -
  let ?st1 = "st\<lparr> ct_tokens := snd (invalidate_cron k (ct_tokens st)) \<rparr>"
  obtain r1 db where d: "cron_set_enabled k False (ct_db st) = (r1, db)" by fastforce
  note f = set_enabled_facts[OF wf d]
  show ?thesis
  proof (cases r1)
    case (Inl e1)
    then show ?thesis using e d f by (auto simp: control_disable_def others_kept_def)
  next
    case (Inr b)
    then have "reread k (?st1\<lparr> ct_db := db, ct_heap := snd (handle_delete (en_chrono env) now k (ct_heap st)) \<rparr>) = (r, st')"
      using e d by (simp add: control_disable_def)
    from reread_facts(1,2)[OF this] show ?thesis
      using f Inr sched_heap.remove_other sched_heap.remove_self
      by (auto simp: others_kept_def synced_def split: option.splits)
  qed
qed

lemma confirmed_effect:
  assumes e: "control_confirmed env now c k st = (r, st')" and wf: "crons_wf (ct_db st)"
    and c: "row_of (ct_db st) k = Some c" "cr_id c = k"
  shows "others_kept k st st' \<and> (\<not> isl r \<longrightarrow> synced env k st')"
proof (cases "parse_cron_spec env c")
  case (Inl err)
  then show ?thesis using e by (auto simp: control_confirmed_def)
next
  case p: (Inr p)
  obtain spec mode interval where sp: "p = (spec, mode, interval)" by (cases p)
  have ps: "parse_spec (en_schedule env) (en_tz env) (cr_cron_expr c) (cr_tz c) = Inr spec"
    "mode = catchup_mode_from_str (cr_catchup_mode c)"
    using p sp by (auto simp: parse_cron_spec_def bind_result_Inr_iff)
  obtain r1 db where d: "cron_set_enabled k True (ct_db st) = (r1, db)" by fastforce
  note f = set_enabled_facts[OF wf d]
  obtain r2 h where h: "handle_upsert (en_chrono env) now k spec mode interval
         (Option.bind (cr_last_fired_at c) (en_parse_lex env)) (ct_heap st) = (r2, h)" by fastforce
  show ?thesis
  proof (cases r1)
    case (Inl e1)
    then show ?thesis using e p sp d f by (auto simp: control_confirmed_def others_kept_def)
  next
    case (Inr b)
    have st': "db_crons (ct_db st') = db_crons db" "ct_heap st' = h" "\<not> isl r \<longrightarrow> \<not> isl r2"
      using e p sp c(2) d h Inr by (auto simp: control_confirmed_def reread_facts(1,2) split: sum.splits)
    have "others_kept k st st'"
      using f Inr st' sched_heap.install_other[OF h] by (simp add: others_kept_def)
    moreover have "synced env k st'" if "r2 = Inr v" for v
      using f Inr st' c ps sched_heap.install_ok[OF h[unfolded that], of k] by (simp add: synced_def)
    ultimately show ?thesis using st'(3) by (cases r2) auto
  qed
qed

lemma applied_only:
  "reread k st \<noteq> (Inr (NeedsConfirmation c tok s), st')"
  "control_disable env now k st \<noteq> (Inr (NeedsConfirmation c tok s), st')"
  "control_confirmed env now cr k st \<noteq> (Inr (NeedsConfirmation c tok s), st')"
proof -
  show *: "reread k st \<noteq> (Inr (NeedsConfirmation c tok s), st')" for k st st'
    by (auto simp: reread_def split: prod.splits sum.splits option.splits)
  show "control_disable env now k st \<noteq> (Inr (NeedsConfirmation c tok s), st')"
    "control_confirmed env now cr k st \<noteq> (Inr (NeedsConfirmation c tok s), st')"
    using * by (auto simp: control_disable_def control_confirmed_def Let_def split: prod.splits sum.splits)
qed

lemma set_enabled_effect:
  assumes e: "control_set_enabled env now rnd k en token t st = (r, st')" and ok: "db_core (ct_db st)"
  shows "others_kept k st st' \<and> (\<forall>c. r = Inr (Applied c) \<longrightarrow> synced env k st')
    \<and> (\<forall>c tok s. r = Inr (NeedsConfirmation c tok s) \<longrightarrow>
          db_crons (ct_db st') = db_crons (ct_db st) \<and> ct_heap st' = ct_heap st)"
proof -
  obtain r0 db where g: "cron_get k (ct_db st) = (r0, db)" by fastforce
  note gf = cron_get_facts[OF g]
  have wf: "crons_wf db" using ok gf by (simp add: db_core_def crons_wf_def)
  have same: "others_kept k (st\<lparr> ct_db := db \<rparr>) st' \<Longrightarrow> others_kept k st st'" for st'
    using gf by (simp add: others_kept_def)
  show ?thesis
  proof (cases "\<exists>c. r0 = Inr (Some c)")
    case False
    then show ?thesis using e g gf
      by (auto simp: control_set_enabled_def others_kept_def split: sum.splits option.splits)
  next
    case True
    then obtain c where c: "r0 = Inr (Some c)" by blast
    have row: "row_of (ct_db (st\<lparr> ct_db := db \<rparr>)) k = Some c" "cr_id c = k"
      using c gf db_coreD(3)[OF ok] by auto
    show ?thesis
    proof (cases en)
      case False
      have "control_disable env now k (st\<lparr> ct_db := db \<rparr>) = (r, st')"
        using e g c False by (simp add: control_set_enabled_def)
      moreover have "\<nexists>c tok s. r = Inr (NeedsConfirmation c tok s)"
        using calculation applied_only(2) by auto
      ultimately show ?thesis using disable_effect[of env now k "st\<lparr> ct_db := db \<rparr>"] wf same by auto
    next
      case True
      obtain gr ts where q: "require_or_confirm rnd k token (build_confirmation_summary env now c)
          (sensitive_fingerprint (en_hash env) (cron_to_security_snapshot env c)) t (ct_tokens st) = (gr, ts)"
        by fastforce
      let ?st1 = "st\<lparr> ct_db := db, ct_tokens := ts \<rparr>"
      show ?thesis
      proof (cases "\<exists>s. gr = Inr (Confirmed s)")
        case False
        then show ?thesis using e g c True q gf
          by (auto simp: control_set_enabled_def others_kept_def Let_def split: sum.splits SetEnabledGate.splits)
      next
        case True
        then have e1: "control_confirmed env now c k ?st1 = (r, st')"
          using e g c \<open>en\<close> q by (auto simp: control_set_enabled_def)
        moreover have "\<nexists>c tok s. r = Inr (NeedsConfirmation c tok s)"
          using calculation applied_only(3) by auto
        ultimately show ?thesis
          using confirmed_effect[OF e1] wf row gf by (auto simp: others_kept_def)
      qed
    qed
  qed
qed

section \<open>Histories of the control\<close>

definition cron_fingerprint :: "Env \<Rightarrow> Cron \<Rightarrow> nat" where
  "cron_fingerprint env c = sensitive_fingerprint (en_hash env) (cron_to_security_snapshot env c)"

text \<open>The calls that an operation makes to the token store.\<close>

definition token_calls :: "Env \<Rightarrow> instant \<Rightarrow> ControlOp \<Rightarrow> Control \<Rightarrow> TokenOp list" where
  "token_calls env now op st =
     (case op of
        OpUpsert u \<Rightarrow> (case fst (control_upsert env now u st) of
            Inr x \<Rightarrow> if uo_requires_reconfirmation x then [Invalidate (cu_id u)] else []
          | Inl _ \<Rightarrow> [])
      | OpSetEnabled rnd k en token t \<Rightarrow> (case fst (cron_get k (ct_db st)) of
            Inr (Some c) \<Rightarrow>
              if en then [Gate rnd k token (build_confirmation_summary env now c) (cron_fingerprint env c) t]
              else [Invalidate k]
          | _ \<Rightarrow> [])
      | OpDelete k \<Rightarrow> [Invalidate k])"

text \<open>The values of the spawn arguments that reach an upsert are canonical: they
  are read back as they were written.\<close>

definition canonical_op :: "Env \<Rightarrow> ControlOp \<Rightarrow> bool" where
  "canonical_op env op = (case op of OpUpsert u \<Rightarrow> en_json env (cu_spawn_args u) = Some (cu_spawn_args u) | _ \<Rightarrow> True)"

text \<open>The writes of the run executor.\<close>

inductive executor_write :: "Db \<Rightarrow> Db \<Rightarrow> bool" where
  ew_env: "executor_write db (db\<lparr> db_now := t, db_io := io \<rparr>)"
| ew_session: "executor_write db (db\<lparr> db_sessions := s # db_sessions db \<rparr>)"
| ew_mark_fired: "mark_fired k l nf db = (r2, db') \<Longrightarrow> executor_write db db'"
| ew_bump: "bump_consecutive_failures k db = (r3, db') \<Longrightarrow> executor_write db db'"
| ew_reset: "reset_consecutive_failures k db = (r2, db') \<Longrightarrow> executor_write db db'"
| ew_pause: "pause_for_failures k db = (r2, db') \<Longrightarrow> executor_write db db'"
| ew_create: "run_create n db = (r4, db') \<Longrightarrow> executor_write db db'"
| ew_reject: "run_create_rejected j db = (r4, db') \<Longrightarrow> executor_write db db'"
| ew_attach: "run_attach_session k s db = (r2, db') \<Longrightarrow> executor_write db db'"
| ew_status: "run_update_status k st db = (r2, db') \<Longrightarrow> executor_write db db'"
| ew_finish: "run_finish k f db = (r2, db') \<Longrightarrow> executor_write db db'"

lemma executor_write_step: "executor_write db db' \<Longrightarrow> db_step db db'"
  by (induction rule: executor_write.induct) (auto intro: db_step.intros)

text \<open>From an empty database, mutations of crons interleaved with the writes of the
  executor and any change of the scheduler; with the calls to the token store.\<close>

inductive control_run :: "Env \<Rightarrow> Control \<Rightarrow> TokenOp list \<Rightarrow> bool" for env where
  run_start: "control_run env \<lparr> ct_db = empty_db bs ps, ct_tokens = [], ct_heap = h \<rparr> []"
| run_op: "control_run env st calls \<Longrightarrow> canonical_op env op \<Longrightarrow> control_op env now op st = (r, st') \<Longrightarrow>
    control_run env st' (calls @ token_calls env now op st)"
| run_store: "control_run env st calls \<Longrightarrow> executor_write (ct_db st) db' \<Longrightarrow>
    control_run env (st\<lparr> ct_db := db' \<rparr>) calls"
| run_heap: "control_run env st calls \<Longrightarrow> control_run env (st\<lparr> ct_heap := h \<rparr>) calls"

text \<open>An enabled row stays enabled only with the same sensitive fields.\<close>

definition no_new_enabled :: "Env \<Rightarrow> Db \<Rightarrow> Db \<Rightarrow> bool" where
  "no_new_enabled env db db' \<longleftrightarrow> (\<forall>k c'. row_of db' k = Some c' \<longrightarrow> cr_enabled c' \<noteq> 0 \<longrightarrow>
     (\<exists>c. row_of db k = Some c \<and> cr_enabled c \<noteq> 0
        \<and> cron_to_security_snapshot env c = cron_to_security_snapshot env c'))"

lemma no_new_enabled_same: "db_crons db' = db_crons db \<Longrightarrow> no_new_enabled env db db'"
  by (auto simp: no_new_enabled_def)

definition calmer :: "Env \<Rightarrow> Db \<Rightarrow> Db \<Rightarrow> bool" where
  "calmer env db db' \<longleftrightarrow> (crons_wf db \<longrightarrow> crons_wf db' \<and> no_new_enabled env db db')"

interpretation calm_ev: db_evolution "calmer env" for env
proof unfold_locales
  fix d d' d''
  show "calmer env d d" "calmer env d (adv d)"
    by (auto simp: calmer_def crons_wf_def intro: no_new_enabled_same)
  show "calmer env d d' \<Longrightarrow> calmer env d' d'' \<Longrightarrow> calmer env d d''"
    unfolding calmer_def no_new_enabled_def by (metis (no_types, lifting))
qed

lemma calmer_same: "db_crons db' = db_crons db \<Longrightarrow> calmer env db db'"
  by (simp add: calmer_def crons_wf_def no_new_enabled_same)

lemma calmer_update:
  assumes u: "update_crons k c f d = (n, d')"
    and f: "\<And>r t. cr_enabled ((f r)\<lparr> cr_updated_at := t \<rparr>) \<noteq> 0 \<Longrightarrow> c r \<Longrightarrow> cr_enabled r \<noteq> 0
        \<and> cron_to_security_snapshot env ((f r)\<lparr> cr_updated_at := t \<rparr>) = cron_to_security_snapshot env r"
  shows "calmer env d d'"
  unfolding calmer_def no_new_enabled_def
proof (intro impI conjI allI)
  assume wf: "crons_wf d"
  show "crons_wf d'" by (rule crons_tbl.upd_wf[OF wf u])
  fix j c' assume "row_of d' j = Some c'" "cr_enabled c' \<noteq> 0"
  then show "\<exists>c. row_of d j = Some c \<and> cr_enabled c \<noteq> 0
      \<and> cron_to_security_snapshot env c = cron_to_security_snapshot env c'"
    using crons_tbl.upd_get[OF wf u, of j] f by (force split: if_splits simp del: map_of_eq_Some_iff)
qed

lemma calmer_upd_stmt:
  assumes "run_stmt (\<lambda>db. let (n, db') = update_crons k c f db in Inr (h n, db')) db = (r, db')"
    and f: "\<And>r t. cr_enabled ((f r)\<lparr> cr_updated_at := t \<rparr>) \<noteq> 0 \<Longrightarrow> c r \<Longrightarrow> cr_enabled r \<noteq> 0
        \<and> cron_to_security_snapshot env ((f r)\<lparr> cr_updated_at := t \<rparr>) = cron_to_security_snapshot env r"
  shows "calmer env db db'"
  by (rule calm_ev.run_stmt[OF assms(1)]) (auto intro: calmer_update[OF _ f] split: prod.splits)

lemma calmer_run_update:
  "update_runs k c f d = (n, d') \<Longrightarrow> calmer env d d'"
  by (rule calmer_same) (simp add: update_runs_frame)

lemma calmer_run_stmt:
  "run_stmt (\<lambda>db. let (n, db') = update_runs k c f db in
        if n > 0 \<and> B db then Inl CONSTRAINT else Inr (h n, db')) db = (r, db') \<Longrightarrow> calmer env db db'"
  by (erule calm_ev.run_stmt) (auto intro: calmer_run_update split: prod.splits if_splits)

lemma calmer_insert: "insert_run r d = Inr (a, d') \<Longrightarrow> calmer env d d'"
  by (rule calmer_same) (auto dest: insert_run_facts)

lemma calmer_read: "run_stmt (\<lambda>d. Inr (g d, d)) db = (r, db') \<Longrightarrow> calmer env db db'"
  by (erule calm_ev.run_stmt) (simp add: calm_ev.refl)

lemma calmer_fetch: "run_fetch k db = (r, db') \<Longrightarrow> calmer env db db'"
  unfolding run_fetch_def run_get_def
  by (erule calm_ev.then_do) (auto intro: calmer_read calm_ev.refl)

lemma calmer_count: "run_fetch k (count_terminal s d) = (x, d') \<Longrightarrow> calmer env d d'"
  by (rule calm_ev.trans[OF calmer_same calmer_fetch]) (auto simp: count_terminal_def)

lemma executor_calmer: "executor_write db db' \<Longrightarrow> calmer env db db'"
proof (induction rule: executor_write.induct)
  case (ew_bump k db r db')
  then show ?case unfolding bump_consecutive_failures_def
  proof (rule calm_ev.then_do)
    fix a d
    assume "run_stmt (\<lambda>db. Inr (update_crons k (\<lambda>_. True)
         (\<lambda>r. r\<lparr> cr_consecutive_failures := cr_consecutive_failures r + 1 \<rparr>) db)) db = (a, d)"
    then show "calmer env db d"
      by (rule calm_ev.run_stmt)
         (auto intro!: calmer_update simp: cron_to_security_snapshot_def)
  qed (rule calmer_read)
next
  case (ew_create n db r db')
  then show ?case unfolding run_create_def
    by (rule calm_ev.then_do) (auto intro: calm_ev.run_stmt calmer_insert calmer_fetch)
next
  case (ew_reject j db r db')
  then show ?case unfolding run_create_rejected_def
    by (rule calm_ev.then_do) (auto intro: calm_ev.run_stmt calmer_insert calmer_count)
next
  case (ew_finish k f db r db')
  then show ?case unfolding run_finish_def
  proof (rule calm_ev.then_do)
    fix a d
    assume "run_stmt (\<lambda>db. let (n, db') = update_runs k (\<lambda>r. rr_finished_at r = None) (finish_row f) db
         in if n > 0 \<and> rf_status f \<notin> set run_statuses then Inl CONSTRAINT else Inr (n, db')) db = (a, d)"
    then show "calmer env db d" by (rule calmer_run_stmt[where h = "\<lambda>n. n"])
  next
    fix n d
    assume e: "(if n > 0 then (Inr True, count_terminal (rf_status f) d)
               else then_do (run_get k d)
                 (\<lambda>r db. (Inr (case r of None \<Rightarrow> False | Some row \<Rightarrow> same_finish f row), db))) = (r, db')"
    show "calmer env d db'"
    proof (cases "n > 0")
      case True
      then show ?thesis using e by (auto intro: calmer_same simp: count_terminal_def)
    next
      case False
      then have "then_do (run_get k d)
        (\<lambda>r db. (Inr (case r of None \<Rightarrow> False | Some row \<Rightarrow> same_finish f row), db)) = (r, db')"
        using e by simp
      then show ?thesis unfolding run_get_def
        by (rule calm_ev.then_do) (auto intro: calmer_read calm_ev.refl)
    qed
  qed
next
  case (ew_mark_fired k l nf db r db')
  then show ?case unfolding mark_fired_def
    by (rule calmer_upd_stmt) (auto simp: cron_to_security_snapshot_def)
next
  case (ew_reset k db r db')
  then show ?case unfolding reset_consecutive_failures_def
    by (rule calmer_upd_stmt) (auto simp: cron_to_security_snapshot_def)
next
  case (ew_pause k db r db')
  then show ?case unfolding pause_for_failures_def
    by (rule calmer_upd_stmt) (auto simp: cron_to_security_snapshot_def)
qed (auto intro: calmer_same calmer_run_stmt simp: run_attach_session_def run_update_status_def)

lemma upsert_enables:
  assumes e: "control_upsert env now u st = (r, st')" and can: "en_json env (cu_spawn_args u) = Some (cu_spawn_args u)"
  shows "no_new_enabled env (ct_db st) (ct_db st')"
  using e
proof (cases rule: control_upsert_cases)
  case early
  then show ?thesis by (intro no_new_enabled_same)
next
  case (written spec d row)
  note df = decide_facts(1)[OF written(2)]
  have "\<exists>c. row_of (ct_db st) (cu_id u) = Some c \<and> cr_enabled c \<noteq> 0
      \<and> cron_to_security_snapshot env c = cron_to_security_snapshot env row" if "cr_enabled row \<noteq> 0"
  proof -
    have en: "enabled_after_upsert d" using that written(3) by (simp split: if_splits)
    then obtain c where c: "row_of (ct_db st) (cu_id u) = Some c" "cr_enabled c \<noteq> 0"
      "cron_to_security_snapshot env c = upsert_to_security_snapshot u"
      "sn_cost_budget (upsert_to_security_snapshot u) \<noteq> Some NaN"
      using df by (auto split: option.splits)
    have "cron_to_security_snapshot env row = upsert_to_security_snapshot u"
      using c(4) can unfolding written(3)
      by (simp add: cron_to_security_snapshot_def upsert_to_security_snapshot_def upsert_row_def sql_real_def)
    then show ?thesis using c by auto
  qed
  then show ?thesis by (auto simp: no_new_enabled_def written(4) simp del: map_of_eq_Some_iff split: if_splits)
qed

lemma delete_enables: "control_delete env now k st = (r, st') \<Longrightarrow> no_new_enabled env (ct_db st) (ct_db st')"
  by (cases "cron_delete k (ct_db st)"; cases "fst (cron_delete k (ct_db st))")
     (auto simp: control_delete_def Let_def no_new_enabled_def dest!: delete_facts
       simp del: map_of_eq_Some_iff split: if_splits)

lemma disable_enables:
  assumes e: "control_disable env now k st = (r, st')" and wf: "crons_wf (ct_db st)"
  shows "no_new_enabled env (ct_db st) (ct_db st')"
proof -
  obtain r1 db where d: "cron_set_enabled k False (ct_db st) = (r1, db)" by fastforce
  have "db_crons (ct_db st') = db_crons db"
    using e d by (auto simp: control_disable_def Let_def reread_facts(1) split: sum.splits)
  then show ?thesis using set_enabled_facts[OF wf d]
    by (cases r1) (auto simp: no_new_enabled_def simp del: map_of_eq_Some_iff split: if_splits)
qed

lemma confirmed_enables:
  assumes e: "control_confirmed env now c k st = (r, st')" and wf: "crons_wf (ct_db st)"
    and c: "row_of (ct_db st) k = Some c"
    and new: "row_of (ct_db st') j = Some c'" "cr_enabled c' \<noteq> 0"
  shows "(\<exists>c0. row_of (ct_db st) j = Some c0 \<and> cr_enabled c0 \<noteq> 0
      \<and> cron_to_security_snapshot env c0 = cron_to_security_snapshot env c')
    \<or> j = k \<and> cron_to_security_snapshot env c' = cron_to_security_snapshot env c"
proof -
  obtain r1 db where d: "cron_set_enabled k True (ct_db st) = (r1, db)" by fastforce
  have "db_crons (ct_db st') = db_crons (ct_db st) \<or> db_crons (ct_db st') = db_crons db"
    using e d by (auto simp: control_confirmed_def reread_facts(1) split: sum.splits prod.splits)
  moreover have "row_of db j = Some c' \<Longrightarrow> j = k \<and> (r1 = Inr b \<longrightarrow> c' = relabel (ct_db st) True c) \<or> row_of (ct_db st) j = Some c'"
    if "r1 = Inr b" for b
    using set_enabled_facts[OF wf d] c that by (cases "j = k") (auto simp del: map_of_eq_Some_iff)
  moreover have "r1 = Inl e1 \<Longrightarrow> db_crons db = db_crons (ct_db st)" for e1
    using set_enabled_facts[OF wf d] by auto
  ultimately show ?thesis using new by (cases r1) (auto simp del: map_of_eq_Some_iff)
qed

lemma set_enabled_enables:
  assumes e: "control_set_enabled env now rnd k en token t st = (r, st')" and wf: "crons_wf (ct_db st)"
    and new: "row_of (ct_db st') j = Some c'" "cr_enabled c' \<noteq> 0"
  shows "(\<exists>c0. row_of (ct_db st) j = Some c0 \<and> cr_enabled c0 \<noteq> 0
      \<and> cron_to_security_snapshot env c0 = cron_to_security_snapshot env c')
    \<or> (\<exists>tok c g ts. j = k \<and> en \<and> token = Some tok \<and> row_of (ct_db st) k = Some c
        \<and> cron_to_security_snapshot env c' = cron_to_security_snapshot env c
        \<and> require_or_confirm rnd k (Some tok) (build_confirmation_summary env now c) (cron_fingerprint env c) t
            (ct_tokens st) = (Inr g, ts))"
proof -
  obtain r0 db where g: "cron_get k (ct_db st) = (r0, db)" by fastforce
  note gf = cron_get_facts[OF g]
  have wf1: "crons_wf db" using wf gf by (simp add: crons_wf_def)
  show ?thesis
  proof (cases "\<exists>c. r0 = Inr (Some c)")
    case False
    then have "db_crons (ct_db st') = db_crons (ct_db st)"
      using e g gf by (auto simp: control_set_enabled_def split: sum.splits option.splits)
    then show ?thesis using new by auto
  next
    case True
    then obtain c where c: "r0 = Inr (Some c)" by blast
    then have row: "row_of (ct_db st) k = Some c" using gf by simp
    show ?thesis
    proof (cases en)
      case False
      then have "control_disable env now k (st\<lparr> ct_db := db \<rparr>) = (r, st')"
        using e g c by (simp add: control_set_enabled_def)
      from disable_enables[OF this] show ?thesis using wf1 gf new unfolding no_new_enabled_def by fastforce
    next
      case True
      obtain gr ts where q: "require_or_confirm rnd k token (build_confirmation_summary env now c)
          (cron_fingerprint env c) t (ct_tokens st) = (gr, ts)" by fastforce
      note q' = q[unfolded cron_fingerprint_def]
      show ?thesis
      proof (cases "\<exists>s. gr = Inr (Confirmed s)")
        case False
        then have "db_crons (ct_db st') = db_crons (ct_db st)" using e g c True q' gf
          by (auto simp: control_set_enabled_def Let_def split: sum.splits SetEnabledGate.splits)
        then show ?thesis using new by auto
      next
        case conf: True
        have tok: "token \<noteq> None" using conf q
          by (cases token) (auto simp: require_or_confirm_def Let_def split: prod.splits sum.splits)
        have e1: "control_confirmed env now c k (st\<lparr> ct_db := db, ct_tokens := ts \<rparr>) = (r, st')"
          using e g c True q' conf by (auto simp: control_set_enabled_def Let_def)
        from confirmed_enables[OF e1 _ _ new] show ?thesis
          using wf1 gf row tok q conf True by auto
      qed
    qed
  qed
qed

lemma upsert_tokens:
  assumes e: "control_upsert env now u st = (r, st')"
  shows "ct_tokens st' = (case r of Inr x \<Rightarrow> if uo_requires_reconfirmation x
          then snd (invalidate_cron (cu_id u) (ct_tokens st)) else ct_tokens st | Inl _ \<Rightarrow> ct_tokens st)"
  using e by (cases rule: control_upsert_cases) auto

lemma disable_tokens: "control_disable env now k st = (r, st') \<Longrightarrow>
    ct_tokens st' = snd (invalidate_cron k (ct_tokens st))"
  by (auto simp: control_disable_def Let_def reread_facts(3) split: sum.splits prod.splits)

lemma confirmed_tokens: "control_confirmed env now c k st = (r, st') \<Longrightarrow> ct_tokens st' = ct_tokens st"
  by (auto simp: control_confirmed_def reread_facts(3) split: sum.splits prod.splits)

lemma set_enabled_tokens:
  assumes e: "control_set_enabled env now rnd k en token t st = (r, st')"
  shows "ct_tokens st' = (case fst (cron_get k (ct_db st)) of
            Inr (Some c) \<Rightarrow>
              if en then snd (require_or_confirm rnd k token (build_confirmation_summary env now c)
                (cron_fingerprint env c) t (ct_tokens st))
              else snd (invalidate_cron k (ct_tokens st))
          | _ \<Rightarrow> ct_tokens st)"
proof -
  obtain r0 db where g: "cron_get k (ct_db st) = (r0, db)" by fastforce
  show ?thesis
  proof (cases "\<exists>c. r0 = Inr (Some c)")
    case False
    then show ?thesis using e g by (auto simp: control_set_enabled_def split: sum.splits option.splits)
  next
    case True
    then obtain c where c: "r0 = Inr (Some c)" by blast
    obtain gr ts where q: "require_or_confirm rnd k token (build_confirmation_summary env now c)
          (cron_fingerprint env c) t (ct_tokens st) = (gr, ts)" by fastforce
    show ?thesis
    proof (cases en)
      case True
      then show ?thesis using e g c q q[unfolded cron_fingerprint_def]
        by (auto simp: control_set_enabled_def Let_def confirmed_tokens split: sum.splits SetEnabledGate.splits)
    next
      case False
      then show ?thesis using e g c by (simp add: control_set_enabled_def disable_tokens)
    qed
  qed
qed

lemma token_calls_sound:
  assumes e: "control_op env now op st = (r, st')"
  shows "ct_tokens st' = foldl token_step (ct_tokens st) (token_calls env now op st)"
proof (cases op)
  case (OpUpsert u)
  obtain r1 where u: "control_upsert env now u st = (r1, st')"
    using e OpUpsert by (cases "control_upsert env now u st") (simp add: control_op_def)
  show ?thesis using upsert_tokens[OF u] u
    by (cases r1) (simp_all add: OpUpsert token_calls_def token_step_def)
next
  case (OpSetEnabled rnd k en token t)
  obtain r1 where u: "control_set_enabled env now rnd k en token t st = (r1, st')"
    using e OpSetEnabled by (cases "control_set_enabled env now rnd k en token t st") (simp add: control_op_def)
  show ?thesis using set_enabled_tokens[OF u]
    by (auto simp: OpSetEnabled token_calls_def token_step_def split: sum.splits option.splits)
next
  case (OpDelete k)
  then show ?thesis using e
    by (auto simp: control_op_def token_calls_def control_delete_def token_step_def Let_def
        split: sum.splits prod.splits)
qed

text \<open>A relation between databases that the four statements of a mutation compose to
  holds across every mutation.\<close>

locale control_evolution = db_evolution +
  assumes read: "cron_get k d = (r1, d') \<Longrightarrow> R d d'"
    and upsert: "cron_upsert u d = (r2, d') \<Longrightarrow> R d d'"
    and set_enabled: "cron_set_enabled k en d = (r3, d') \<Longrightarrow> R d d'"
    and delete: "cron_delete k d = (r3, d') \<Longrightarrow> R d d'"
begin

lemma reread: "reread k st = (r, st') \<Longrightarrow> R (ct_db st) (ct_db st')"
  by (auto simp: reread_def dest: read split: prod.splits sum.splits option.splits)

lemma control_upsert:
  assumes "control_upsert env now u st = (r, st')"
  shows "R (ct_db st) (ct_db st')"
proof -
  obtain r1 d1 where g: "cron_get (cu_id u) (ct_db st) = (r1, d1)" by fastforce
  have "ct_db st' = ct_db st \<or> ct_db st' = d1 \<or> (\<exists>x. ct_db st' = snd (cron_upsert x d1))"
    using assms g
    by (auto simp: control_upsert_def split: sum.splits prod.splits if_splits) (metis snd_conv)+
  then show ?thesis using read[OF g] refl trans[OF read[OF g] upsert[OF surjective_pairing]] by auto
qed

lemma control_disable:
  assumes e: "control_disable env now k st = (r, st')"
  shows "R (ct_db st) (ct_db st')"
proof -
  obtain r1 db where d: "cron_set_enabled k False (ct_db st) = (r1, db)" by fastforce
  show ?thesis using e d set_enabled[OF d]
    by (cases r1) (auto simp: control_disable_def Let_def dest!: reread intro: trans)
qed

lemma control_confirmed:
  assumes e: "control_confirmed env now c k st = (r, st')"
  shows "R (ct_db st) (ct_db st')"
proof -
  obtain r1 db where d: "cron_set_enabled k True (ct_db st) = (r1, db)" by fastforce
  show ?thesis using e d set_enabled[OF d] refl
    by (auto simp: control_confirmed_def split: sum.splits prod.splits dest!: reread intro: trans)
qed

lemma control_set_enabled:
  assumes e: "control_set_enabled env now rnd k en token t st = (r, st')"
  shows "R (ct_db st) (ct_db st')"
proof -
  obtain r0 db where g: "cron_get k (ct_db st) = (r0, db)" by fastforce
  note db = read[OF g]
  show ?thesis
  proof (cases "\<exists>c. r0 = Inr (Some c)")
    case False
    then show ?thesis using e g db by (auto simp: control_set_enabled_def split: sum.splits option.splits)
  next
    case True
    then obtain c where c: "r0 = Inr (Some c)" by blast
    show ?thesis
    proof (cases en)
      case True
      then show ?thesis using e g c db
        by (auto simp: control_set_enabled_def Let_def split: sum.splits SetEnabledGate.splits prod.splits
            dest!: control_confirmed intro: trans)
    next
      case False
      then show ?thesis using e g c db
        by (auto simp: control_set_enabled_def dest!: control_disable intro: trans)
    qed
  qed
qed

lemma control_op:
  assumes e: "control_op env now op st = (r, st')"
  shows "R (ct_db st) (ct_db st')"
proof (cases op)
  case (OpUpsert u)
  then show ?thesis using e control_upsert[of env now u st "fst (control_upsert env now u st)"]
    by (cases "control_upsert env now u st") (simp add: control_op_def)
next
  case (OpSetEnabled rnd k en token t)
  then show ?thesis
    using e control_set_enabled[of env now rnd k en token t st "fst (control_set_enabled env now rnd k en token t st)"]
    by (cases "control_set_enabled env now rnd k en token t st") (simp add: control_op_def)
next
  case (OpDelete k)
  obtain r1 db where d: "cron_delete k (ct_db st) = (r1, db)" by fastforce
  then show ?thesis using e d OpDelete delete[OF d]
    by (cases r1) (auto simp: control_op_def control_delete_def Let_def)
qed

end

lemma get_ok: "cron_get k db = (r, db') \<Longrightarrow> db_ok db \<Longrightarrow> db_ok db'"
  by (drule cron_get_facts) simp

interpretation ok_ctl: control_evolution "\<lambda>d d'. db_ok d \<longrightarrow> db_ok d'"
  by unfold_locales (auto intro: get_ok upsert_ok set_enabled_ok delete_ok)

lemma control_op_enables:
  assumes e: "control_op env now op st = (r, st')" and wf: "crons_wf (ct_db st)"
    and can: "canonical_op env op"
    and new: "row_of (ct_db st') j = Some c'" "cr_enabled c' \<noteq> 0"
  shows "(\<exists>c0. row_of (ct_db st) j = Some c0 \<and> cr_enabled c0 \<noteq> 0
      \<and> cron_to_security_snapshot env c0 = cron_to_security_snapshot env c')
    \<or> (\<exists>rnd tok t c g ts. op = OpSetEnabled rnd j True (Some tok) t \<and> row_of (ct_db st) j = Some c
        \<and> cron_to_security_snapshot env c' = cron_to_security_snapshot env c
        \<and> require_or_confirm rnd j (Some tok) (build_confirmation_summary env now c) (cron_fingerprint env c) t
            (ct_tokens st) = (Inr g, ts))"
proof (cases op)
  case (OpUpsert u)
  then have "control_upsert env now u st = (fst (control_upsert env now u st), st')"
    using e by (cases "control_upsert env now u st") (simp add: control_op_def)
  from upsert_enables[OF this] show ?thesis
    using can new unfolding OpUpsert canonical_op_def no_new_enabled_def by simp
next
  case (OpSetEnabled rnd k en token t)
  then have "control_set_enabled env now rnd k en token t st = (fst (control_set_enabled env now rnd k en token t st), st')"
    using e by (cases "control_set_enabled env now rnd k en token t st") (simp add: control_op_def)
  from set_enabled_enables[OF this wf new] show ?thesis unfolding OpSetEnabled by blast
next
  case (OpDelete k)
  then have "control_delete env now k st = (fst (control_delete env now k st), st')"
    using e by (cases "control_delete env now k st") (simp add: control_op_def)
  from delete_enables[OF this] show ?thesis using new unfolding no_new_enabled_def by blast
qed

text \<open>The invariant of a history: the database is consistent, the token store is the
  one of the logged calls, every issued token carries the summary and fingerprint
  of one row, and every enabled cron was confirmed.\<close>

definition was_confirmed :: "TokenOp list \<Rightarrow> str \<Rightarrow> nat \<Rightarrow> bool" where
  "was_confirmed calls k fp \<longleftrightarrow> (\<exists>pre mid post tok s0 t0 rnd s1 t1.
      calls = pre @ Gate (Some tok) k None s0 fp t0 # mid @ Gate rnd k (Some tok) s1 fp t1 # post
    \<and> t1 < t0 + CONFIRMATION_TOKEN_TTL \<and> (\<forall>op \<in> set mid. \<not> retires tok k op))"

definition honest_calls :: "Env \<Rightarrow> TokenOp list \<Rightarrow> bool" where
  "honest_calls env calls \<longleftrightarrow> (\<forall>rnd k tok s fp t. Gate rnd k tok s fp t \<in> set calls \<longrightarrow>
     (\<exists>c now. fp = cron_fingerprint env c \<and> s = build_confirmation_summary env now c))"

lemma honest_append: "honest_calls env (xs @ ys) = (honest_calls env xs \<and> honest_calls env ys)"
  unfolding honest_calls_def set_append Un_iff by blast

lemma honest_token_calls: "honest_calls env (token_calls env now op st)"
  unfolding honest_calls_def token_calls_def
  by (cases op) (auto split: sum.splits option.splits if_splits)

lemma was_confirmed_mono: "was_confirmed calls k fp \<Longrightarrow> was_confirmed (calls @ more_calls) k fp"
  unfolding was_confirmed_def by fastforce

lemma confirm_logged:
  assumes "require_or_confirm rnd k (Some tok) s fp t (token_run calls) = (Inr g, ts)"
  shows "was_confirmed (calls @ [Gate rnd k (Some tok) s fp t]) k fp"
proof -
  obtain p where p: "map_of (token_run calls) tok = Some p" "t < pc_expires_at p" "pc_cron_id p = k"
    "pc_fingerprint p = fp" using confirmed_facts [OF assms] by blast
  from pending_was_issued [OF p(1)] p obtain pre post t0 where
    "calls = pre @ Gate (Some tok) k None (pc_summary p) fp t0 # post"
    "t < t0 + CONFIRMATION_TOKEN_TTL" "\<forall>op \<in> set post. \<not> retires tok k op" by auto
  then show ?thesis unfolding was_confirmed_def by fastforce
qed

lemma fingerprint_cong:
  "cron_to_security_snapshot env c = cron_to_security_snapshot env c' \<Longrightarrow>
   cron_fingerprint env c = cron_fingerprint env c'"
  by (simp add: cron_fingerprint_def)

definition history_inv :: "Env \<Rightarrow> Control \<Rightarrow> TokenOp list \<Rightarrow> bool" where
  "history_inv env st calls \<longleftrightarrow> db_ok (ct_db st) \<and> ct_tokens st = token_run calls \<and> honest_calls env calls
     \<and> (\<forall>k c. row_of (ct_db st) k = Some c \<longrightarrow> cr_enabled c \<noteq> 0 \<longrightarrow> was_confirmed calls k (cron_fingerprint env c))"

lemma history_inv_op:
  assumes inv: "history_inv env st calls" and can: "canonical_op env op"
    and e: "control_op env now op st = (r, st')"
  shows "history_inv env st' (calls @ token_calls env now op st)"
proof -
  have wf: "crons_wf (ct_db st)" using inv by (simp add: history_inv_def db_ok_def db_core_def)
  have toks: "ct_tokens st = token_run calls" using inv by (simp add: history_inv_def)
  have "was_confirmed (calls @ token_calls env now op st) k (cron_fingerprint env c')"
    if new: "row_of (ct_db st') k = Some c'" "cr_enabled c' \<noteq> 0" for k c'
    using control_op_enables[OF e wf can new]
  proof (elim disjE exE conjE)
    fix c0 assume c0: "row_of (ct_db st) k = Some c0" "cr_enabled c0 \<noteq> 0"
      "cron_to_security_snapshot env c0 = cron_to_security_snapshot env c'"
    then have "was_confirmed calls k (cron_fingerprint env c')"
      using inv fingerprint_cong unfolding history_inv_def by metis
    then show ?thesis by (rule was_confirmed_mono)
  next
    fix rnd tok t c g ts
    assume op: "op = OpSetEnabled rnd k True (Some tok) t" and c: "row_of (ct_db st) k = Some c"
      and sn: "cron_to_security_snapshot env c' = cron_to_security_snapshot env c"
      and q: "require_or_confirm rnd k (Some tok) (build_confirmation_summary env now c) (cron_fingerprint env c) t
            (ct_tokens st) = (Inr g, ts)"
    obtain r0 db where g: "cron_get k (ct_db st) = (r0, db)" by fastforce
    show ?thesis
    proof (cases r0)
      case (Inr a)
      then have "r0 = Inr (Some c)" using c cron_get_facts[OF g] by simp
      then have "token_calls env now op st =
          [Gate rnd k (Some tok) (build_confirmation_summary env now c) (cron_fingerprint env c) t]"
        using g by (simp add: op token_calls_def)
      then show ?thesis using confirm_logged q toks fingerprint_cong[OF sn] by simp
    next
      case (Inl a)
      then have "db_crons (ct_db st') = db_crons (ct_db st)" using e g cron_get_facts[OF g]
        by (auto simp: op control_op_def control_set_enabled_def)
      then have "was_confirmed calls k (cron_fingerprint env c')" using inv new unfolding history_inv_def by simp
      then show ?thesis by (rule was_confirmed_mono)
    qed
  qed
  moreover have "honest_calls env (calls @ token_calls env now op st)"
    using inv honest_token_calls by (simp add: history_inv_def honest_append)
  moreover have "ct_tokens st' = token_run (calls @ token_calls env now op st)"
    using token_calls_sound[OF e] toks by (simp add: token_run_def)
  ultimately show ?thesis
    using inv ok_ctl.control_op[OF e] unfolding history_inv_def by blast
qed

lemma control_run_inv: "control_run env st calls \<Longrightarrow> history_inv env st calls"
proof (induction rule: control_run.induct)
  case (run_start bs ps h)
  show ?case by (simp add: history_inv_def db_ok_def db_core_def crons_wf_def runs_wf_def empty_db_def
      finished_count_def honest_calls_def token_run_def)
next
  case (run_op st calls op now r st')
  then show ?case by (intro history_inv_op) auto
next
  case (run_store st calls db')
  have wf: "crons_wf (ct_db st)" and ok: "db_ok (ct_db st)"
    using run_store.IH by (simp_all add: history_inv_def db_ok_def db_core_def)
  have "no_new_enabled env (ct_db st) db'"
    using executor_calmer[OF run_store.hyps(2)] wf by (simp add: calmer_def)
  moreover have "db_ok db'" by (rule db_step_ok[OF executor_write_step[OF run_store.hyps(2)] ok])
  moreover have "was_confirmed calls k (cron_fingerprint env c')"
    if "row_of db' k = Some c'" "cr_enabled c' \<noteq> 0" for k c'
  proof -
    from that \<open>no_new_enabled env (ct_db st) db'\<close> obtain c where c: "row_of (ct_db st) k = Some c"
      "cr_enabled c \<noteq> 0" "cron_to_security_snapshot env c = cron_to_security_snapshot env c'"
      unfolding no_new_enabled_def by blast
    then show ?thesis using run_store.IH fingerprint_cong[OF c(3)] unfolding history_inv_def by metis
  qed
  ultimately show ?case using run_store.IH unfolding history_inv_def by simp
next
  case (run_heap st calls h)
  then show ?case by (simp add: history_inv_def)
qed

section \<open>Properties\<close>


definition demo_env :: Env where
  "demo_env = \<lparr> en_chrono = chrono_std, en_schedule = (\<lambda>_. Inr (schedule half_hours)),
     en_tz = (\<lambda>_. Some fallback_zone), en_hash = (\<lambda>x. 7), en_json = Some,
     en_parse_lex = (\<lambda>_. None), en_format_lex = (\<lambda>_. []), en_rfc3339 = (\<lambda>_. []), en_usd = (\<lambda>_. []) \<rparr>"

definition demo_control :: Control where
  "demo_control = \<lparr> ct_db = demo_db, ct_tokens = [],
     ct_heap = Some \<lparr> s_table = new_table, s_fires = \<lparr> sent = [], remaining = None \<rparr>, s_diag = [] \<rparr> \<rparr>"

lemma demo_core: "db_core demo_db"
proof -
  have "db_step (empty_db [lit ''b1''] [(lit ''p1'', lit ''/w'')]) demo_db"
    unfolding demo_db_def by (intro step_cron_upsert) (rule prod.collapse[symmetric])
  moreover have "db_ok (empty_db [lit ''b1''] [(lit ''p1'', lit ''/w'')])"
    by (simp add: db_ok_def db_core_def crons_wf_def runs_wf_def empty_db_def finished_count_def)
  ultimately show ?thesis using db_step_ok by (simp add: db_ok_def)
qed


text \<open>C1. No cron runs unattended without a confirmation of its content.  In every
  history, mutations of crons, writes of the executor and failing statements
  included, an enabled cron was confirmed: a token was issued for it, presented
  less than five minutes later without having been presented before, and no
  invalidation of the cron in between; at both calls the fingerprint was the one of
  the cron's present sensitive fields, and if the hash has no collision the prompt
  that was shown when the token was issued is the beginning of its present prompt.\<close>

theorem enabled_crons_were_confirmed:
  assumes "control_run env st calls" and "map_of (db_crons (ct_db st)) k = Some c" and "cr_enabled c \<noteq> 0"
  shows "\<exists>pre mid post tok s0 t0 rnd s1 t1.
      calls = pre @ Gate (Some tok) k None s0 (cron_fingerprint env c) t0
                  # mid @ Gate rnd k (Some tok) s1 (cron_fingerprint env c) t1 # post
    \<and> t1 < t0 + CONFIRMATION_TOKEN_TTL \<and> (\<forall>op \<in> set mid. \<not> retires tok k op)
    \<and> (inj (en_hash env) \<longrightarrow> cs_prompt_preview s0 = take 64 (cr_prompt c))"
proof -
  note inv = control_run_inv[OF assms(1), unfolded history_inv_def]
  obtain pre mid post tok s0 t0 rnd s1 t1 where
    d: "calls = pre @ Gate (Some tok) k None s0 (cron_fingerprint env c) t0
                  # mid @ Gate rnd k (Some tok) s1 (cron_fingerprint env c) t1 # post"
      "t1 < t0 + CONFIRMATION_TOKEN_TTL" "\<forall>op \<in> set mid. \<not> retires tok k op"
    using inv assms(2,3) unfolding was_confirmed_def by metis
  obtain c0 now where c0: "cron_fingerprint env c = cron_fingerprint env c0"
    "s0 = build_confirmation_summary env now c0"
    using inv unfolding honest_calls_def d(1) by (metis in_set_conv_decomp)
  have "cs_prompt_preview s0 = take 64 (cr_prompt c)" if "inj (en_hash env)"
  proof -
    have "cr_prompt c = cr_prompt c0"
      using c0(1) that unfolding cron_fingerprint_def sensitive_fingerprint_def
      by (auto simp: cron_to_security_snapshot_def dest!: injD)
    then show ?thesis by (simp add: c0(2) build_confirmation_summary_def PROMPT_PREVIEW_CHARS_def)
  qed
  with d show ?thesis by blast
qed

definition demo_history :: "ControlOp list" where
  "demo_history = [OpUpsert demo_upsert, OpSetEnabled (Some [97]) (lit ''c1'') True None 10,
     OpSetEnabled None (lit ''c1'') True (Some [97]) 20]"

definition demo_state :: "nat \<Rightarrow> Control" where
  "demo_state n = foldl (\<lambda>st op. snd (control_op demo_env 0 op st))
     (demo_control\<lparr> ct_db := empty_db [lit ''b1''] [(lit ''p1'', lit ''/w'')] \<rparr>) (take n demo_history)"

lemma demo_control_run: "\<exists>calls. control_run demo_env (demo_state n) calls"
proof (induction n)
  case 0
  have "demo_state 0 = \<lparr> ct_db = empty_db [lit ''b1''] [(lit ''p1'', lit ''/w'')], ct_tokens = [],
      ct_heap = ct_heap demo_control \<rparr>" by (simp add: demo_state_def demo_control_def)
  then show ?case by (metis run_start)
next
  case (Suc n)
  then obtain calls where c: "control_run demo_env (demo_state n) calls" by blast
  show ?case
  proof (cases "n < length demo_history")
    case True
    then have s: "demo_state (Suc n) = snd (control_op demo_env 0 (demo_history ! n) (demo_state n))"
      by (simp add: demo_state_def take_Suc_conv_app_nth)
    have "canonical_op demo_env (demo_history ! n)"
      by (simp add: canonical_op_def demo_env_def split: ControlOp.splits)
    from run_op[OF c this, of 0] show ?thesis unfolding s by (metis prod.collapse)
  next
    case False
    then have "demo_state (Suc n) = demo_state n" by (simp add: demo_state_def)
    then show ?thesis using c by auto
  qed
qed

lemma parse_demo:
  "\<exists>spec. parse_spec (en_schedule demo_env) (en_tz demo_env) (lit ''0 2 * * *'') (lit ''UTC'') = Inr spec"
  by (simp add: demo_env_def parse_spec_def normalise_expr_def lit_def split_ws_def is_ws_def trim_def
      trim_start_def trim_end_def Let_def)

definition demo_row :: "int \<Rightarrow> Cron" where
  "demo_row e = (upsert_row [] demo_upsert None)\<lparr> cr_enabled := e \<rparr>"

lemma demo_state_1: "\<exists>h. demo_state 1 = \<lparr> ct_db = demo_db, ct_tokens = [], ct_heap = h \<rparr>"
proof -
  obtain spec where p: "parse_spec (en_schedule demo_env) (en_tz demo_env) (lit ''0 2 * * *'') (lit ''UTC'') = Inr spec"
    using parse_demo by blast
  have u: "demo_upsert\<lparr> cu_enabled := False \<rparr> = demo_upsert" by (simp add: demo_upsert_def)
  have d: "decide_upsert_security False None (upsert_to_security_snapshot demo_upsert)
      = Inr \<lparr> enabled_after_upsert = False, requires_reconfirmation = False, changed_fields = [] \<rparr>"
    by (simp add: decide_upsert_security_def validate_def demo_upsert_def upsert_to_security_snapshot_def
        str_len_def lit_def utf8_width_def MAX_PROMPT_BYTES_def)
  have w: "cron_upsert demo_upsert (empty_db [lit ''b1''] [(lit ''p1'', lit ''/w'')]) = (Inr (demo_row 0), demo_db)"
    by (simp add: demo_db_def cron_upsert_def cron_get_def empty_db_def demo_row_def demo_upsert_def upsert_row_def
        cron_checks_def Let_def run_stmt_def stmt_def sql_real_def)
  have ids: "cu_cron_expr demo_upsert = lit ''0 2 * * *''" "cu_tz demo_upsert = lit ''UTC''"
    "db_io (empty_db x y) = []" "db_crons (empty_db x y) = []" "cr_enabled (demo_row 0) = 0" for x y
    by (simp_all add: demo_upsert_def empty_db_def demo_row_def upsert_row_def)
  show ?thesis
    by (simp add: demo_state_def demo_history_def control_op_def control_upsert_def ids p cron_get_def d u w
        reconcile_def demo_control_def)
qed

lemma demo_db_facts: "map_of (db_crons demo_db) (lit ''c1'') = Some (demo_row 0)" "db_io demo_db = []" "crons_wf demo_db"
  by (simp_all add: demo_db_def cron_upsert_def cron_get_def empty_db_def demo_row_def demo_upsert_def upsert_row_def
        cron_checks_def Let_def run_stmt_def stmt_def sql_real_def crons_wf_def)

lemma demo_state_2: "\<exists>h s. demo_state 2 = \<lparr> ct_db = demo_db, ct_tokens = [([97],
    \<lparr> pc_cron_id = lit ''c1'', pc_expires_at = 10 + CONFIRMATION_TOKEN_TTL, pc_summary = s, pc_fingerprint = 7 \<rparr>)], ct_heap = h \<rparr>"
proof -
  obtain h where h: "demo_state 1 = \<lparr> ct_db = demo_db, ct_tokens = [], ct_heap = h \<rparr>" using demo_state_1 by blast
  have s2: "demo_state 2 = snd (control_op demo_env 0 (OpSetEnabled (Some [97]) (lit ''c1'') True None 10) (demo_state 1))"
    by (simp add: demo_state_def demo_history_def numeral_2_eq_2)
  have hash: "en_hash demo_env x = 7" for x by (simp add: demo_env_def)
  show ?thesis unfolding s2 h
    by (simp add: control_op_def control_set_enabled_def cron_get_def demo_db_facts Let_def require_or_confirm_def
        issue_def prune_expired_def sensitive_fingerprint_def hash)
qed

lemma demo_state_3: "\<exists>c. map_of (db_crons (ct_db (demo_state 3))) (lit ''c1'') = Some c \<and> cr_enabled c = 1"
proof -
  obtain h s where h: "demo_state 2 = \<lparr> ct_db = demo_db, ct_tokens = [([97],
    \<lparr> pc_cron_id = lit ''c1'', pc_expires_at = 10 + CONFIRMATION_TOKEN_TTL, pc_summary = s, pc_fingerprint = 7 \<rparr>)], ct_heap = h \<rparr>"
    using demo_state_2 by blast
  obtain spec where p: "parse_spec (en_schedule demo_env) (en_tz demo_env) (lit ''0 2 * * *'') (lit ''UTC'') = Inr spec"
    using parse_demo by blast
  obtain r db where w: "cron_set_enabled (lit ''c1'') True demo_db = (r, db)" by fastforce
  have "isl r = False" using w demo_db_facts by (auto simp: cron_set_enabled_def split: prod.splits)
  then obtain b where b: "r = Inr b" by (cases r) auto
  have row: "map_of (db_crons db) (lit ''c1'') = Some (relabel demo_db True (demo_row 0))"
    using set_enabled_facts[OF demo_db_facts(3) w] b demo_db_facts(1) by simp
  have ids: "cr_cron_expr (demo_row 0) = lit ''0 2 * * *''" "cr_tz (demo_row 0) = lit ''UTC''"
    by (simp_all add: demo_row_def demo_upsert_def)
  have hash: "en_hash demo_env x = 7" for x by (simp add: demo_env_def)
  have s3: "demo_state 3 = snd (control_op demo_env 0 (OpSetEnabled None (lit ''c1'') True (Some [97]) 20) (demo_state 2))"
    by (simp add: demo_state_def demo_history_def numeral_2_eq_2 numeral_3_eq_3)
  have "db_crons (ct_db (demo_state 3)) = db_crons db"
    unfolding s3
    by (simp add: h control_op_def control_set_enabled_def cron_get_def demo_db_facts Let_def require_or_confirm_def
        sensitive_fingerprint_def hash CONFIRMATION_TOKEN_TTL_def control_confirmed_def parse_cron_spec_def ids p w b
        reread_facts(1)[OF prod.collapse[symmetric]] split: sum.splits prod.splits)
  then show ?thesis using row by simp
qed

lemma enabled_crons_were_confirmed_witness:
  "\<exists>c calls. map_of (db_crons (ct_db (demo_state 3))) (lit ''c1'') = Some c \<and> cr_enabled c = 1
    \<and> (\<exists>tok s0 t0. Gate (Some tok) (lit ''c1'') None s0 (cron_fingerprint demo_env c) t0 \<in> set calls)"
proof -
  obtain calls where r: "control_run demo_env (demo_state 3) calls" using demo_control_run by blast
  obtain c where c: "map_of (db_crons (ct_db (demo_state 3))) (lit ''c1'') = Some c" "cr_enabled c = 1"
    using demo_state_3 by blast
  from enabled_crons_were_confirmed[OF r c(1)] c(2) obtain pre mid post tok s0 t0 rnd s1 t1 where
    "calls = pre @ Gate (Some tok) (lit ''c1'') None s0 (cron_fingerprint demo_env c) t0
                  # mid @ Gate rnd (lit ''c1'') (Some tok) s1 (cron_fingerprint demo_env c) t1 # post" by auto
  then show ?thesis using c by (intro exI[of _ c] exI[of _ calls]) auto
qed

end
