(* ===== verification/Adapters.thy ===== *)
theory Adapters
  imports Prelude "HOL-Library.Sublist"
begin

text \<open>
  Model of the backend adapters of \<open>la-adapter\<close> (\<open>lib.rs\<close>, \<open>claude.rs\<close>, \<open>codex.rs\<close>,
  \<open>opencode.rs\<close>): what a session request becomes on the command line, what is typed
  into a running backend, and how the output of a probe is classified.  Paths and
  operating-system strings are code points, as in the prelude; lower-casing is a
  parameter.  The walks over the session stores of the backends are not modelled.
\<close>

section \<open>Data\<close>

record AdapterDescriptor =
  ad_id :: str
  ad_display_name :: str
  ad_default_program :: str
  ad_docs_url :: str

datatype StdinMode = Pty | NullSink

record PtyHints =
  ph_cols :: nat
  ph_rows :: nat
  ph_raw_mode :: bool

definition default_pty :: PtyHints where
  "default_pty = \<lparr> ph_cols = 120, ph_rows = 32, ph_raw_mode = False \<rparr>"

record SpawnRequest =
  rq_program_override :: "str option"
  rq_extra_args :: "str list"
  rq_cwd :: str
  rq_prompt :: "str option"
  rq_env :: "(str \<times> str) list"
  rq_pty :: PtyHints
  rq_stdin_mode :: StdinMode

definition new_request :: "str \<Rightarrow> SpawnRequest" where
  "new_request cwd = \<lparr> rq_program_override = None, rq_extra_args = [], rq_cwd = cwd,
     rq_prompt = None, rq_env = [], rq_pty = default_pty, rq_stdin_mode = Pty \<rparr>"

record SpawnSpec =
  sp_program :: str
  sp_args :: "str list"
  sp_env :: "(str \<times> str) list"
  sp_cwd :: str
  sp_pty :: PtyHints
  sp_stdin_mode :: StdinMode

datatype StopSignal = Interrupt | Terminate | Kill

datatype StopAction =
    SendInput str
  | StopSignal StopSignal
  | AwaitExit nat

datatype ProbeFailure =
    PfSpawn str
  | PfWait str
  | PfTimeout str
  | PfExit str str
  | PfVersion str

datatype ProbeResult =
    Available str
  | NotInstalled str
  | Unauthenticated str
  | ProbeError ProbeFailure

section \<open>Spawning\<close>

definition resolved_program :: "str \<Rightarrow> str option \<Rightarrow> str option \<Rightarrow> str" where
  "resolved_program default_program configured req_override =
     (case req_override of Some p \<Rightarrow> p
      | None \<Rightarrow> (case configured of Some p \<Rightarrow> p | None \<Rightarrow> default_program))"

text \<open>The terminal hint: what the caller sets wins.\<close>

definition spec_env :: "SpawnRequest \<Rightarrow> (str \<times> str) list" where
  "spec_env req =
     (if list_ex (\<lambda>(k, _). k = lit ''TERM'') (rq_env req) then []
      else [(lit ''TERM'', lit ''xterm-256color'')]) @ rq_env req"

definition spec_of :: "str \<Rightarrow> str list \<Rightarrow> SpawnRequest \<Rightarrow> SpawnSpec" where
  "spec_of program args req =
     \<lparr> sp_program = program, sp_args = args @ rq_extra_args req, sp_env = spec_env req,
       sp_cwd = rq_cwd req, sp_pty = rq_pty req, sp_stdin_mode = rq_stdin_mode req \<rparr>"

definition claude_spawn_spec :: "str option \<Rightarrow> SpawnRequest \<Rightarrow> SpawnSpec" where
  "claude_spawn_spec configured req =
     spec_of (resolved_program (lit ''claude'') configured (rq_program_override req))
       (case rq_stdin_mode req of
          NullSink \<Rightarrow> (case rq_prompt req of Some p \<Rightarrow> [lit ''--print'', p] | None \<Rightarrow> [])
        | Pty \<Rightarrow> []) req"

definition codex_spawn_spec :: "str option \<Rightarrow> SpawnRequest \<Rightarrow> SpawnSpec" where
  "codex_spawn_spec configured req =
     spec_of (resolved_program (lit ''codex'') configured (rq_program_override req))
       (case rq_stdin_mode req of
          NullSink \<Rightarrow> (case rq_prompt req of
              Some p \<Rightarrow> [lit ''exec'', lit ''--json'', lit ''--cd'', rq_cwd req, p] | None \<Rightarrow> [])
        | Pty \<Rightarrow> if rq_cwd req \<noteq> [] then [lit ''--cd'', rq_cwd req] else []) req"

definition opencode_spawn_spec :: "str option \<Rightarrow> SpawnRequest \<Rightarrow> SpawnSpec" where
  "opencode_spawn_spec configured req =
     spec_of (resolved_program (lit ''opencode'') configured (rq_program_override req))
       (case rq_stdin_mode req of
          NullSink \<Rightarrow> (case rq_prompt req of
              Some p \<Rightarrow> [lit ''run'', lit ''--format'', lit ''json'']
                 @ (if rq_cwd req \<noteq> [] then [lit ''--dir'', rq_cwd req] else []) @ [p]
            | None \<Rightarrow> [])
        | Pty \<Rightarrow> if rq_cwd req \<noteq> [] then [rq_cwd req] else []) req"

section \<open>Input and stopping\<close>

text \<open>Claude submits on a carriage return, the others on a line feed.\<close>

definition claude_encode_user_input :: "str \<Rightarrow> str" where "claude_encode_user_input text = text @ [13]"
definition codex_encode_user_input :: "str \<Rightarrow> str" where "codex_encode_user_input text = text @ [10]"
definition opencode_encode_user_input :: "str \<Rightarrow> str" where "opencode_encode_user_input text = text @ [10]"

definition default_signal_only :: "StopAction list" where
  "default_signal_only = [StopSignal Terminate, AwaitExit 2, StopSignal Kill]"

definition claude_graceful_stop :: "StopAction list" where
  "claude_graceful_stop = [SendInput (lit ''/exit'' @ [13]), AwaitExit 3] @ default_signal_only"

definition codex_graceful_stop :: "StopAction list" where "codex_graceful_stop = default_signal_only"
definition opencode_graceful_stop :: "StopAction list" where "opencode_graceful_stop = default_signal_only"

section \<open>Probing\<close>

text \<open>The first word that is a version: two or more dotted numbers, a leading v and
  everything after a dash aside.\<close>

definition numeric :: "str \<Rightarrow> bool" where
  "numeric p \<longleftrightarrow> p \<noteq> [] \<and> list_all is_digit p"

definition version_token :: "str \<Rightarrow> str option" where
  "version_token raw =
     (let tok = (case raw of c # cs \<Rightarrow> if c = 118 \<or> c = 86 then cs else raw | [] \<Rightarrow> raw);
          parts = split_on 46 (hd (split_on 45 tok))
      in if list_all numeric parts \<and> length parts \<ge> 2 then Some tok else None)"

fun find_map :: "('a \<Rightarrow> 'b option) \<Rightarrow> 'a list \<Rightarrow> 'b option" where
  "find_map f [] = None"
| "find_map f (x # xs) = (case f x of Some y \<Rightarrow> Some y | None \<Rightarrow> find_map f xs)"

definition parse_version :: "str \<Rightarrow> str option" where
  "parse_version s = find_map version_token (split_ws s)"

definition contains :: "str \<Rightarrow> str \<Rightarrow> bool" where
  "contains hay needle \<longleftrightarrow> list_ex (\<lambda>t. strip_prefix needle t \<noteq> None) (suffixes hay)"

definition mentions :: "(str \<Rightarrow> str) \<Rightarrow> str list \<Rightarrow> str \<Rightarrow> str \<Rightarrow> bool" where
  "mentions lower needles out err \<longleftrightarrow>
     list_ex (\<lambda>n. contains (lower out) n \<or> contains (lower err) n) needles"

definition claude_needles :: "str list" where
  "claude_needles = map lit [''not logged in'', ''not authenticated'', ''unauthenticated'',
     ''please log in'', ''run `claude login`'', ''run \"claude login\"'', ''auth required'']"

definition codex_needles :: "str list" where
  "codex_needles = map lit [''not logged in'', ''not authenticated'', ''unauthenticated'',
     ''please log in'', ''please login'', ''run `codex login`'', ''run \"codex login\"'',
     ''codex login'', ''auth required'']"

definition opencode_needles :: "str list" where
  "opencode_needles = map lit [''not logged in'', ''not authenticated'', ''unauthenticated'',
     ''no credentials'', ''0 credentials'', ''please log in'', ''please login'',
     ''run `opencode auth login`'', ''run \"opencode auth login\"'', ''opencode auth login'',
     ''auth required'']"

text \<open>What became of a child process that a probe started.\<close>

datatype ChildRun =
    NotFound
  | SpawnError str
  | WaitError str
  | TimedOut
  | Ended str str bool

text \<open>The \<open>--version\<close> probe; all three adapters have it, with their own texts.\<close>

definition probe_version :: "(str \<Rightarrow> str) \<Rightarrow> str list \<Rightarrow> str \<Rightarrow> str \<Rightarrow> ChildRun \<Rightarrow> ProbeResult" where
  "probe_version lower needles docs_url program run =
     (case run of
        NotFound \<Rightarrow> NotInstalled program
      | SpawnError e \<Rightarrow> ProbeError (PfSpawn e)
      | WaitError e \<Rightarrow> ProbeError (PfWait e)
      | TimedOut \<Rightarrow> ProbeError (PfTimeout program)
      | Ended out err success \<Rightarrow>
          if mentions lower needles out err then Unauthenticated docs_url
          else if \<not> success then ProbeError (PfExit program (trim err))
          else (case parse_version out of
                  Some version \<Rightarrow> Available version
                | None \<Rightarrow> ProbeError (PfVersion (trim out))))"

text \<open>The second probe of codex (\<open>login status\<close>) and opencode (\<open>auth list\<close>).\<close>

definition second_probe_unauth :: "(str \<Rightarrow> str) \<Rightarrow> str list \<Rightarrow> ChildRun \<Rightarrow> bool option" where
  "second_probe_unauth lower needles run =
     (case run of Ended out err _ \<Rightarrow> Some (mentions lower needles out err) | _ \<Rightarrow> None)"

definition claude_probe :: "(str \<Rightarrow> str) \<Rightarrow> str \<Rightarrow> str \<Rightarrow> ChildRun \<Rightarrow> ProbeResult" where
  "claude_probe lower docs program run = probe_version lower claude_needles docs program run"

definition two_step_probe ::
    "(str \<Rightarrow> str) \<Rightarrow> str list \<Rightarrow> str \<Rightarrow> str \<Rightarrow> ChildRun \<Rightarrow> ChildRun \<Rightarrow> ProbeResult" where
  "two_step_probe lower needles docs program run second =
     (case probe_version lower needles docs program run of
        Available v \<Rightarrow> if second_probe_unauth lower needles second = Some True
          then Unauthenticated docs else Available v
      | r \<Rightarrow> r)"

definition codex_probe :: "(str \<Rightarrow> str) \<Rightarrow> str \<Rightarrow> str \<Rightarrow> ChildRun \<Rightarrow> ChildRun \<Rightarrow> ProbeResult" where
  "codex_probe lower = two_step_probe lower codex_needles"

definition opencode_probe :: "(str \<Rightarrow> str) \<Rightarrow> str \<Rightarrow> str \<Rightarrow> ChildRun \<Rightarrow> ChildRun \<Rightarrow> ProbeResult" where
  "opencode_probe lower = two_step_probe lower opencode_needles"

section \<open>The contract of an adapter\<close>

locale agent_adapter =
  fixes spec :: "SpawnRequest \<Rightarrow> SpawnSpec" and encode :: "str \<Rightarrow> str"
  assumes passes_through: "sp_cwd (spec req) = rq_cwd req" "sp_pty (spec req) = rq_pty req"
      "sp_stdin_mode (spec req) = rq_stdin_mode req"
    and caller_args_last: "suffix (rq_extra_args req) (sp_args (spec req))"
    and env_of: "sp_env (spec req) = spec_env req"
    and override_wins: "rq_program_override req = Some p \<Longrightarrow> sp_program (spec req) = p"
    and prompt_on_command_line: "rq_stdin_mode req = NullSink \<Longrightarrow> rq_prompt req = Some p
      \<Longrightarrow> p \<in> set (sp_args (spec req))"
    and prompt_not_on_terminal: "rq_stdin_mode req = Pty \<Longrightarrow> spec (req\<lparr> rq_prompt := x \<rparr>) = spec req"
    and encode_prefix: "\<exists>c. encode t = t @ [c] \<and> (c = 13 \<or> c = 10)"
begin

lemma term_set: "\<exists>v. (lit ''TERM'', v) \<in> set (sp_env (spec req))"
  by (auto simp: env_of spec_env_def list_ex_iff)

lemma caller_env_kept: "suffix (rq_env req) (sp_env (spec req))"
  by (auto simp: env_of spec_env_def intro!: suffix_ConsI)

lemma encode_inj: "encode s = encode t \<Longrightarrow> s = t"
  using encode_prefix[of s] encode_prefix[of t] by auto

end

interpretation claude: agent_adapter "claude_spawn_spec configured" claude_encode_user_input for configured
  by unfold_locales (auto simp: claude_spawn_spec_def spec_of_def spec_env_def resolved_program_def
      claude_encode_user_input_def intro!: suffix_ConsI split: StdinMode.splits option.splits)

interpretation codex: agent_adapter "codex_spawn_spec configured" codex_encode_user_input for configured
  by unfold_locales (auto simp: codex_spawn_spec_def spec_of_def spec_env_def resolved_program_def
      codex_encode_user_input_def intro!: suffix_ConsI split: StdinMode.splits option.splits)

interpretation opencode: agent_adapter "opencode_spawn_spec configured" opencode_encode_user_input for configured
  by unfold_locales (auto simp: opencode_spawn_spec_def spec_of_def spec_env_def resolved_program_def
      opencode_encode_user_input_def intro!: suffix_ConsI split: StdinMode.splits option.splits)

section \<open>Reading the output\<close>

text \<open>Codex and opencode cut their output into lines; what follows the last line feed
  is carried over to the next chunk.  The loop takes one line per turn.\<close>

record ParserState =
  partial :: "nat list"

datatype AdapterEvent = Passthrough "nat list"

fun take_line :: "nat list \<Rightarrow> (nat list \<times> nat list) option" where
  "take_line [] = None"
| "take_line (b # bs) = (if b = 10 then Some ([b], bs)
     else map_option (\<lambda>(line, rest). (b # line, rest)) (take_line bs))"

lemma take_line_shorter: "take_line bs = Some (line, rest) \<Longrightarrow> length rest < length bs"
  by (induction bs arbitrary: line) (auto split: if_splits simp: less_SucI)

function lines_loop :: "nat list \<Rightarrow> AdapterEvent list \<times> nat list" where
  "lines_loop bs = (case take_line bs of
     None \<Rightarrow> ([], bs)
   | Some (line, rest) \<Rightarrow> (let (events, left) = lines_loop rest in (Passthrough line # events, left)))"
  by auto
termination by (relation "measure length") (auto dest: take_line_shorter)

declare lines_loop.simps [simp del]

definition codex_parse_chunk :: "nat list \<Rightarrow> ParserState \<Rightarrow> AdapterEvent list \<times> ParserState" where
  "codex_parse_chunk chunk st =
     (if chunk = [] \<and> partial st = [] then ([], st)
      else let (events, left) = lines_loop (partial st @ chunk) in (events, st\<lparr> partial := left \<rparr>))"

definition opencode_parse_chunk :: "nat list \<Rightarrow> ParserState \<Rightarrow> AdapterEvent list \<times> ParserState" where
  "opencode_parse_chunk chunk st =
     (if chunk = [] \<and> partial st = [] then ([], st)
      else let (events, left) = lines_loop (partial st @ chunk) in (events, st\<lparr> partial := left \<rparr>))"

text \<open>Claude keeps the trait's default: a chunk is one event.\<close>

definition claude_parse_chunk :: "nat list \<Rightarrow> ParserState \<Rightarrow> AdapterEvent list \<times> ParserState" where
  "claude_parse_chunk chunk st = (if chunk = [] then [] else [Passthrough chunk], st)"

fun feed :: "(nat list \<Rightarrow> ParserState \<Rightarrow> AdapterEvent list \<times> ParserState)
    \<Rightarrow> nat list list \<Rightarrow> ParserState \<Rightarrow> AdapterEvent list \<times> ParserState" where
  "feed parse [] st = ([], st)"
| "feed parse (c # cs) st =
     (let (es, st1) = parse c st; (es', st2) = feed parse cs st1 in (es @ es', st2))"

fun payload :: "AdapterEvent \<Rightarrow> nat list" where "payload (Passthrough b) = b"

section \<open>Properties\<close>

lemma contains_infix: "contains (pre @ needle @ post) needle"
proof -
  have "needle @ post \<in> set (suffixes (pre @ needle @ post))" by (simp add: suffix_def)
  moreover have "strip_prefix needle (needle @ post) \<noteq> None" by (simp add: strip_prefix_append)
  ultimately show ?thesis unfolding contains_def list_ex_iff by (rule bexI[rotated])
qed

lemma show_nat_tens: "0 < n \<Longrightarrow> \<exists>pre. show_nat (10 * n) = pre @ [48]"
  by (subst show_nat.simps) auto

text \<open>The probe of opencode takes a user for logged out whose credential list has
  ten, twenty, ... entries: the needle for an empty list occurs in the output.\<close>

theorem opencode_round_count_unauthenticated:
  assumes n: "0 < n"
    and ready: "probe_version lower opencode_needles docs program run = Available v"
    and listing: "lower out = pre @ show_nat (10 * n) @ lit '' credentials'' @ post"
  shows "opencode_probe lower docs program run (Ended out err success) = Unauthenticated docs"
proof -
  obtain ds where "show_nat (10 * n) = ds @ [48]" using show_nat_tens[OF n] by blast
  then have "lower out = (pre @ ds) @ lit ''0 credentials'' @ post" by (simp add: listing lit_def)
  then have "contains (lower out) (lit ''0 credentials'')" by (simp only: contains_infix)
  moreover have "lit ''0 credentials'' \<in> set opencode_needles" by (simp add: opencode_needles_def)
  ultimately have "mentions lower opencode_needles out err" by (auto simp: mentions_def list_ex_iff)
  then show ?thesis
    by (simp add: opencode_probe_def two_step_probe_def ready second_probe_unauth_def)
qed

lemma opencode_round_count_unauthenticated_witness:
  "opencode_probe (\<lambda>s. s) (lit ''docs'') (lit ''opencode'') (Ended (lit ''1.2.3'') [] True)
     (Ended (lit ''10 credentials'') [] True) = Unauthenticated (lit ''docs'')"
proof -
  have ready: "probe_version (\<lambda>s. s) opencode_needles (lit ''docs'') (lit ''opencode'')
      (Ended (lit ''1.2.3'') [] True) = Available (lit ''1.2.3'')"
    by (simp add: probe_version_def mentions_def opencode_needles_def contains_def lit_def parse_version_def
        split_ws_def version_token_def numeric_def is_ws_def is_digit_def)
  have ten: "show_nat (10 * 1) = [49, 48]"
    by (subst show_nat.simps, subst show_nat.simps) simp
  have "lit ''10 credentials'' = [] @ show_nat (10 * 1) @ lit '' credentials'' @ []"
    unfolding ten by (simp add: lit_def)
  then show ?thesis
    by (rule opencode_round_count_unauthenticated [OF zero_less_one ready])
qed

lemma take_line_facts:
  "take_line bs = None \<longleftrightarrow> 10 \<notin> set bs"
  "take_line bs = Some (line, rest) \<Longrightarrow> bs = line @ rest \<and> (\<exists>l. line = l @ [10] \<and> 10 \<notin> set l)"
  by (induction bs arbitrary: line) (auto split: if_splits)

lemma take_line_append:
  "take_line bs = Some (line, rest) \<Longrightarrow> take_line (bs @ cs) = Some (line, rest @ cs)"
  by (induction bs arbitrary: line) (auto split: if_splits)

lemma lines_loop_append:
  "lines_loop (bs @ cs) = (let (e1, l) = lines_loop bs; (e2, l') = lines_loop (l @ cs) in (e1 @ e2, l'))"
proof (induction bs rule: lines_loop.induct)
  case (1 bs)
  show ?case
  proof (cases "take_line bs")
    case None
    then show ?thesis by (simp add: lines_loop.simps[of bs])
  next
    case (Some lr)
    obtain line rest where lr: "lr = (line, rest)" by (cases lr)
    note t = Some[unfolded lr]
    show ?thesis
      using 1[OF t refl] take_line_append[OF t, of cs]
      by (simp add: lines_loop.simps[of bs] lines_loop.simps[of "bs @ cs"] t Let_def split_beta)
  qed
qed

lemma lines_loop_facts:
  "concat (map payload (fst (lines_loop bs))) @ snd (lines_loop bs) = bs \<and> 10 \<notin> set (snd (lines_loop bs))
   \<and> (\<forall>e \<in> set (fst (lines_loop bs)). \<exists>l. payload e = l @ [10] \<and> 10 \<notin> set l)"
proof (induction bs rule: lines_loop.induct)
  case (1 bs)
  show ?case
  proof (cases "take_line bs")
    case None
    then show ?thesis using take_line_facts(1)[of bs] by (simp add: lines_loop.simps[of bs] None)
  next
    case (Some lr)
    obtain line rest where lr: "lr = (line, rest)" by (cases lr)
    note t = Some[unfolded lr]
    have b: "lines_loop bs = (Passthrough line # fst (lines_loop rest), snd (lines_loop rest))"
      by (simp add: lines_loop.simps[of bs] t split_beta)
    show ?thesis using 1[OF t refl] take_line_facts(2)[OF t] unfolding b by auto
  qed
qed

lemma codex_chunk: "10 \<notin> set (partial st) \<Longrightarrow>
    codex_parse_chunk c st = (let (es, l) = lines_loop (partial st @ c) in (es, st\<lparr> partial := l \<rparr>))"
  by (auto simp: codex_parse_chunk_def lines_loop.simps[of "[]"])

lemma feed_codex:
  "10 \<notin> set (partial st) \<Longrightarrow> feed codex_parse_chunk cs st =
     (let (es, l) = lines_loop (partial st @ concat cs) in (es, st\<lparr> partial := l \<rparr>))"
proof (induction cs arbitrary: st)
  case Nil
  then have "lines_loop (partial st) = ([], partial st)"
    by (simp add: lines_loop.simps[of "partial st"] take_line_facts(1)[THEN iffD2])
  then show ?case by simp
next
  case (Cons c cs)
  let ?l = "snd (lines_loop (partial st @ c))"
  have "10 \<notin> set (partial (st\<lparr> partial := ?l \<rparr>))" using lines_loop_facts[of "partial st @ c"] by simp
  from Cons.IH[OF this] show ?case
    using lines_loop_append[of "partial st @ c" "concat cs"]
    by (simp add: codex_chunk[OF Cons.prems] Let_def split_beta)
qed

text \<open>However the output of codex arrives in chunks, the events are its complete
  lines, each with its line feed and in order, and what is left over is the unfinished
  line: nothing is lost, repeated or cut elsewhere.  Opencode's parser does the same.\<close>

theorem output_lines_chunk_independent:
  "(let (es, st) = feed codex_parse_chunk chunks \<lparr> partial = [] \<rparr> in
      es = fst (lines_loop (concat chunks))
      \<and> concat (map payload es) @ partial st = concat chunks \<and> 10 \<notin> set (partial st)
      \<and> list_all (\<lambda>e. \<exists>l. payload e = l @ [10] \<and> 10 \<notin> set l) es)
   \<and> feed opencode_parse_chunk chunks \<lparr> partial = [] \<rparr> = feed codex_parse_chunk chunks \<lparr> partial = [] \<rparr>"
proof -
  have "opencode_parse_chunk = codex_parse_chunk" by (intro ext) (simp add: opencode_parse_chunk_def codex_parse_chunk_def)
  then show ?thesis
    using lines_loop_facts[of "concat chunks"] feed_codex[of "\<lparr> partial = [] \<rparr>" chunks]
    by (simp add: Let_def split_beta list_all_iff)
qed

end
