(* ===== verification/Json_Value.thy ===== *)
theory Json_Value
  imports Prelude
begin

text \<open>
  JSON values as \<open>serde_json::Value\<close> holds them, and the pieces of serde's derived readers
  that the wire types share: a struct is read from an object, unknown keys ignored, or
  from an array with its fields in order.  An integer outside 64 bits and every number
  with a fraction is a float, kept as its text.
\<close>

datatype json =
    JNull | JBool bool | JInt int | JFloat str | JString str
  | JArray "json list" | JObject "(str \<times> json) list"

text \<open>The fields of a struct, by name or by position.\<close>

fun struct_fields :: "str list \<Rightarrow> json \<Rightarrow> json option list option" where
  "struct_fields names (JObject m) = Some (map (map_of m) names)"
| "struct_fields names (JArray xs) =
     (if length xs \<le> length names
      then Some (map Some xs @ replicate (length names - length xs) None) else None)"
| "struct_fields names _ = None"

text \<open>Readers of fields.  \<open>None\<close> is a field that is not there; an \<open>Option\<close> takes null for
  nothing.\<close>

fun read_str :: "json option \<Rightarrow> str option" where
  "read_str (Some (JString s)) = Some s"
| "read_str _ = None"

fun read_bool :: "json option \<Rightarrow> bool option" where
  "read_bool (Some (JBool b)) = Some b"
| "read_bool _ = None"

fun read_int :: "int \<Rightarrow> int \<Rightarrow> json option \<Rightarrow> int option" where
  "read_int lo hi (Some (JInt n)) = (if lo \<le> n \<and> n \<le> hi then Some n else None)"
| "read_int lo hi _ = None"

definition read_i32 :: "json option \<Rightarrow> int option" where "read_i32 = read_int (- (2 ^ 31)) (2 ^ 31 - 1)"
definition read_i64 :: "json option \<Rightarrow> int option" where "read_i64 = read_int (- (2 ^ 63)) (2 ^ 63 - 1)"
definition read_u16 :: "json option \<Rightarrow> int option" where "read_u16 = read_int 0 (2 ^ 16 - 1)"
definition read_u32 :: "json option \<Rightarrow> int option" where "read_u32 = read_int 0 (2 ^ 32 - 1)"
definition read_u64 :: "json option \<Rightarrow> int option" where "read_u64 = read_int 0 (2 ^ 64 - 1)"

fun read_opt :: "(json option \<Rightarrow> 'a option) \<Rightarrow> json option \<Rightarrow> 'a option option" where
  "read_opt rd None = Some None"
| "read_opt rd (Some v) = (if v = JNull then Some None else map_option Some (rd (Some v)))"

definition read_default :: "'a \<Rightarrow> (json option \<Rightarrow> 'a option) \<Rightarrow> json option \<Rightarrow> 'a option" where
  "read_default d rd f = (if f = None then Some d else rd f)"

fun read_value :: "json option \<Rightarrow> json option" where "read_value f = f"

fun traverse :: "('a \<Rightarrow> 'b option) \<Rightarrow> 'a list \<Rightarrow> 'b list option" where
  "traverse f [] = Some []"
| "traverse f (x # xs) = (case f x of None \<Rightarrow> None | Some y \<Rightarrow> map_option ((#) y) (traverse f xs))"

fun read_list :: "(json option \<Rightarrow> 'a option) \<Rightarrow> json option \<Rightarrow> 'a list option" where
  "read_list rd (Some (JArray xs)) = traverse (\<lambda>x. rd (Some x)) xs"
| "read_list rd _ = None"

text \<open>Writing: \<open>skip_serializing_if = Option::is_none\<close>.\<close>

definition opt_entry :: "str \<Rightarrow> json option \<Rightarrow> (str \<times> json) list" where
  "opt_entry k v = (case v of None \<Rightarrow> [] | Some x \<Rightarrow> [(k, x)])"

named_theorems json_simps

declare opt_entry_def [json_simps] read_default_def [json_simps]

lemma traverse_map: "(\<forall>x\<in>set xs. f (g x) = Some x) \<Longrightarrow> traverse f (map g xs) = Some xs"
  by (induction xs) auto

lemma traverse_Some: "traverse f xs = Some ys \<Longrightarrow> length ys = length xs"
  by (induction xs arbitrary: ys) (auto split: option.splits)

lemma read_strings [json_simps]: "traverse (\<lambda>x. read_str (Some x)) (map JString ss) = Some ss"
  by (simp add: traverse_map)

lemma read_opt_value [json_simps]: "v \<noteq> JNull \<Longrightarrow> read_opt read_value (Some v) = Some (Some v)"
  by simp

end
