(* ===== verification/Notifications.thy ===== *)
theory Notifications
  imports Json_Value
begin

text \<open>
  Payloads of the notifications a daemon pushes, from \<open>la-proto/src/notifications.rs\<close>, and
  how serde writes and reads them.  The output and gap payloads are in \<open>Frame_Codec\<close> and
  \<open>Output_Hub\<close>.
\<close>

section \<open>Enumerations on the wire\<close>

text \<open>A variant without fields is its name; serde also reads an object whose only key is the
  name and whose value is null.\<close>

definition enum_name :: "(str \<times> 'a) list \<Rightarrow> 'a \<Rightarrow> str" where
  "enum_name table x = (case find (\<lambda>p. snd p = x) table of Some (n, _) \<Rightarrow> n | None \<Rightarrow> [])"

fun read_enum :: "(str \<times> 'a) list \<Rightarrow> json option \<Rightarrow> 'a option" where
  "read_enum table (Some (JString n)) = map_of table n"
| "read_enum table (Some (JObject [(n, JNull)])) = map_of table n"
| "read_enum table _ = None"

datatype SessionState = Starting | Running | Waiting | Exited | Errored | Archived

definition session_states :: "(str \<times> SessionState) list" where
  "session_states = [(lit ''starting'', Starting), (lit ''running'', Running), (lit ''waiting'', Waiting),
     (lit ''exited'', Exited), (lit ''errored'', Errored), (lit ''archived'', Archived)]"

datatype BackendHealthStatus =
  BhAvailable | BhNotInstalled | BhUnauthenticated | BhProtocolDrift | BhError

definition backend_statuses :: "(str \<times> BackendHealthStatus) list" where
  "backend_statuses = [(lit ''available'', BhAvailable), (lit ''not_installed'', BhNotInstalled),
     (lit ''unauthenticated'', BhUnauthenticated), (lit ''protocol_drift'', BhProtocolDrift),
     (lit ''error'', BhError)]"

section \<open>Payloads\<close>

record SessionStateParams =
  ss_session_id :: str
  ss_state :: SessionState
  ss_exit_code :: "int option"
  ss_reason :: "str option"

record CronFired =
  cf_cron_id :: str
  cf_run_id :: str
  cf_fired_at :: str
  cf_status :: str

record BackendHealth =
  bh_id :: str
  bh_display_name :: str
  bh_status :: BackendHealthStatus
  bh_version :: "str option"
  bh_reason :: "str option"
  bh_docs_url :: "str option"
  bh_last_probed_at :: str

record DaemonHealthParams =
  dh_queue_depth :: nat
  dh_running :: nat
  dh_errors_last_5m :: nat
  dh_backends :: "BackendHealth list"
  dh_managed_by :: "str option"

record SchedulerHealthParams =
  sh_queue_depth :: nat
  sh_running_global :: nat
  sh_running_per_cron :: "(str \<times> nat) list"
  sh_throttled_by_loadavg :: bool
  sh_errors_last_5m :: nat
  sh_next_fire :: "(str \<times> str) option"

record WorktreeChangedParams =
  wc_session_id :: str
  wc_kind :: str
  wc_affected_files :: "str list"
  wc_generated_at :: str

record WorktreeCommitCreatedParams =
  wm_session_id :: str
  wm_commit_sha :: str
  wm_summary :: str
  wm_files_changed :: nat
  wm_generated_at :: str

section \<open>Writing\<close>

definition opt_str :: "str \<Rightarrow> str option \<Rightarrow> (str \<times> json) list" where
  "opt_str k s = opt_entry k (map_option JString s)"

definition nat_value :: "nat \<Rightarrow> json" where "nat_value n = JInt (int n)"

definition session_state_value :: "SessionStateParams \<Rightarrow> json" where
  "session_state_value p = JObject ([(lit ''session_id'', JString (ss_session_id p)),
     (lit ''state'', JString (enum_name session_states (ss_state p)))]
     @ opt_entry (lit ''exit_code'') (map_option JInt (ss_exit_code p)) @ opt_str (lit ''reason'') (ss_reason p))"

definition cron_fired_value :: "CronFired \<Rightarrow> json" where
  "cron_fired_value p = JObject [(lit ''cron_id'', JString (cf_cron_id p)),
     (lit ''run_id'', JString (cf_run_id p)), (lit ''fired_at'', JString (cf_fired_at p)),
     (lit ''status'', JString (cf_status p))]"

definition backend_health_value :: "BackendHealth \<Rightarrow> json" where
  "backend_health_value p = JObject ([(lit ''id'', JString (bh_id p)),
     (lit ''display_name'', JString (bh_display_name p)),
     (lit ''status'', JString (enum_name backend_statuses (bh_status p)))]
     @ opt_str (lit ''version'') (bh_version p) @ opt_str (lit ''reason'') (bh_reason p)
     @ opt_str (lit ''docs_url'') (bh_docs_url p)
     @ (if bh_last_probed_at p = [] then [] else [(lit ''last_probed_at'', JString (bh_last_probed_at p))]))"

definition daemon_health_value :: "DaemonHealthParams \<Rightarrow> json" where
  "daemon_health_value p = JObject ([(lit ''queue_depth'', nat_value (dh_queue_depth p)),
     (lit ''running'', nat_value (dh_running p)), (lit ''errors_last_5m'', nat_value (dh_errors_last_5m p))]
     @ (if dh_backends p = [] then [] else [(lit ''backends'', JArray (map backend_health_value (dh_backends p)))])
     @ opt_str (lit ''managed_by'') (dh_managed_by p))"

definition scheduler_health_value :: "SchedulerHealthParams \<Rightarrow> json" where
  "scheduler_health_value p = JObject ([(lit ''queue_depth'', nat_value (sh_queue_depth p)),
     (lit ''running_global'', nat_value (sh_running_global p)),
     (lit ''running_per_cron'', JObject (map (\<lambda>(k, n). (k, nat_value n)) (sh_running_per_cron p))),
     (lit ''throttled_by_loadavg'', JBool (sh_throttled_by_loadavg p)),
     (lit ''errors_last_5m'', nat_value (sh_errors_last_5m p))]
     @ opt_entry (lit ''next_fire'') (map_option (\<lambda>(c, a).
         JObject [(lit ''cron_id'', JString c), (lit ''at'', JString a)]) (sh_next_fire p)))"

definition worktree_changed_value :: "WorktreeChangedParams \<Rightarrow> json" where
  "worktree_changed_value p = JObject [(lit ''session_id'', JString (wc_session_id p)),
     (lit ''kind'', JString (wc_kind p)), (lit ''affected_files'', JArray (map JString (wc_affected_files p))),
     (lit ''generated_at'', JString (wc_generated_at p))]"

definition worktree_commit_value :: "WorktreeCommitCreatedParams \<Rightarrow> json" where
  "worktree_commit_value p = JObject [(lit ''session_id'', JString (wm_session_id p)),
     (lit ''commit_sha'', JString (wm_commit_sha p)), (lit ''summary'', JString (wm_summary p)),
     (lit ''files_changed'', nat_value (wm_files_changed p)),
     (lit ''generated_at'', JString (wm_generated_at p))]"

section \<open>Reading\<close>

definition read_session_state :: "json \<Rightarrow> SessionStateParams option" where
  "read_session_state v =
     (case struct_fields (map lit [''session_id'', ''state'', ''exit_code'', ''reason'']) v of
        Some [i, st, c, r] \<Rightarrow>
          (case (read_str i, read_enum session_states st, read_opt read_i32 c, read_opt read_str r) of
             (Some i, Some st, Some c, Some r) \<Rightarrow>
               Some \<lparr> ss_session_id = i, ss_state = st, ss_exit_code = c, ss_reason = r \<rparr>
           | _ \<Rightarrow> None)
      | _ \<Rightarrow> None)"

definition read_cron_fired :: "json \<Rightarrow> CronFired option" where
  "read_cron_fired v =
     (case struct_fields (map lit [''cron_id'', ''run_id'', ''fired_at'', ''status'']) v of
        Some [c, r, f, s] \<Rightarrow> (case (read_str c, read_str r, read_str f, read_str s) of
            (Some c, Some r, Some f, Some s) \<Rightarrow>
              Some \<lparr> cf_cron_id = c, cf_run_id = r, cf_fired_at = f, cf_status = s \<rparr>
          | _ \<Rightarrow> None)
      | _ \<Rightarrow> None)"

lemma read_state_name [json_simps]:
  "map_of session_states (enum_name session_states st) = Some st"
  by (cases st) (simp_all add: session_states_def enum_name_def lit_eq_iff)

lemma read_session_state_value:
  assumes "\<And>c. ss_exit_code p = Some c \<Longrightarrow> - (2 ^ 31) \<le> c \<and> c < 2 ^ 31"
  shows "read_session_state (session_state_value p) = Some p"
  using assms
  by (cases p; cases "ss_exit_code p"; cases "ss_reason p")
    (auto simp: read_session_state_def session_state_value_def opt_str_def json_simps read_i32_def lit_eq_iff)

lemma read_cron_fired_value: "read_cron_fired (cron_fired_value p) = Some p"
  by (cases p) (simp add: read_cron_fired_def cron_fired_value_def lit_eq_iff)

end
