(* ===== verification/Run_Executor.thy ===== *)
theory Run_Executor
  imports Cron_Control Adapters Notifications
begin

text \<open>
  Model of \<open>la-daemon/src/scheduler.rs\<close>: the executor that turns a fire of the
  scheduler into a run, the watcher that ends it, the seeding of the scheduler at
  start, the manual trigger and the health report.  A fire is processed in one
  step, under the admission lock.  \<open>None\<close> is a panic of the task: the failure
  backoff of a cron is parsed by the scheduler's parser, which panics on some texts,
  and chrono panics when a time leaves its range.
\<close>

section \<open>Surroundings\<close>

text \<open>What a manager's spawn answers: an error, with the session row it may leave
  behind, or the session it started.\<close>

datatype SpawnResult = SpawnFailed str "str option" | Spawned str

text \<open>What one call reads from outside the daemon: the clocks, the random run id, the
  load average, the registered backends, the session manager, serde_json's parser and
  the printing of numbers and quoted texts.\<close>

record World =
  w_now :: instant
  w_mono :: nat
  w_new_id :: str
  w_loadavg :: "f64 option"
  w_registered :: "str \<Rightarrow> bool"
  w_spawn :: "str \<Rightarrow> str \<Rightarrow> SpawnRequest \<Rightarrow> SpawnResult"
  w_json :: "str \<Rightarrow> json option"
  w_decimals :: "nat \<Rightarrow> f64 \<Rightarrow> str"
  w_debug :: "str \<Rightarrow> str"

definition as_u32 :: "int \<Rightarrow> nat" where "as_u32 x = nat (x mod 2 ^ 32)"

definition show_int :: "int \<Rightarrow> str" where
  "show_int i = (if i < 0 then lit ''-'' @ show_nat (nat (- i)) else show_nat (nat i))"

section \<open>State\<close>

record Watcher =
  wt_run_id :: str
  wt_session_id :: str
  wt_cron :: Cron
  wt_trace_id :: "str option"
  wt_max_runtime :: "nat option"

text \<open>\<open>ex_missed\<close> and \<open>ex_throttled_secs\<close> are the two counters that a fire increments,
  \<open>ex_fired\<close> what was published on the bus.\<close>

record Exec =
  ex_db :: Db
  ex_heap :: handle
  ex_running_global :: nat
  ex_running_per_cron :: "(str \<times> nat) list"
  ex_errors_window :: "nat list"
  ex_throttled_by_loadavg :: bool
  ex_watchers :: "Watcher list"
  ex_fired :: "CronFired list"
  ex_missed :: "str list"
  ex_throttled_secs :: nat

section \<open>Counters\<close>

definition bump_running_for_cron :: "str \<Rightarrow> (str \<times> nat) list \<Rightarrow> (str \<times> nat) list" where
  "bump_running_for_cron k m =
     AList.update k (sat_add u32_max (case map_of m k of Some n \<Rightarrow> n | None \<Rightarrow> 0) 1) m"

definition decrement_for_cron :: "str \<Rightarrow> (str \<times> nat) list \<Rightarrow> (str \<times> nat) list" where
  "decrement_for_cron k m =
     (case map_of m k of
        None \<Rightarrow> m
      | Some n \<Rightarrow> if n - 1 = 0 then AList.delete k m else AList.update k (n - 1) m)"

definition decrement_global :: "Exec \<Rightarrow> Exec" where
  "decrement_global ex = ex\<lparr> ex_running_global := ex_running_global ex - 1 \<rparr>"

definition decrement_global_and_cron :: "str \<Rightarrow> Exec \<Rightarrow> Exec" where
  "decrement_global_and_cron k ex =
     (decrement_global ex)\<lparr> ex_running_per_cron := decrement_for_cron k (ex_running_per_cron ex) \<rparr>"

definition reserve_slot :: "str \<Rightarrow> Exec \<Rightarrow> Exec" where
  "reserve_slot k ex =
     ex\<lparr> ex_running_global := sat_add u32_max (ex_running_global ex) 1,
         ex_running_per_cron := bump_running_for_cron k (ex_running_per_cron ex) \<rparr>"

text \<open>The rolling window of failures, on the monotonic clock.\<close>

definition ERRORS_WINDOW :: nat where "ERRORS_WINDOW = 5 * 60 * nanos_per_sec"

definition prune_error_window :: "nat \<Rightarrow> nat list \<Rightarrow> nat list" where
  "prune_error_window now w = (if now < ERRORS_WINDOW then w else dropWhile (\<lambda>t. t < now - ERRORS_WINDOW) w)"

definition push_error_event :: "nat \<Rightarrow> nat list \<Rightarrow> nat list" where
  "push_error_event now w = prune_error_window now (w @ [now])"

section \<open>Admission\<close>

definition parse_failure_backoff_or_default :: "str \<Rightarrow> FailureBackoff option" where
  "parse_failure_backoff_or_default s =
     map_option (\<lambda>r. case r of Inl _ \<Rightarrow> default_backoff | Inr b \<Rightarrow> b) (parse_backoff s)"

definition cron_to_quota :: "Cron \<Rightarrow> CronQuota option" where
  "cron_to_quota c = map_option (\<lambda>b.
     \<lparr> max_concurrent_runs = as_u32 (max (cr_max_concurrent_runs c) 0),
       max_runs_per_day = as_u32 (max (cr_max_runs_per_day c) 0),
       max_runtime_s = as_u32 (max (cr_max_runtime_s c) 0),
       cost_budget_usd_per_day = cr_cost_budget c,
       pause_on_consecutive_failures = as_u32 (max (cr_pause_on_failures c) 0),
       consecutive_failures = as_u32 (max (cr_consecutive_failures c) 0),
       failure_backoff = Some b, enabled = (cr_enabled c \<noteq> 0) \<rparr>)
     (parse_failure_backoff_or_default (cr_failure_backoff c))"

definition DAY :: int where "DAY = 24 * 3600 * int nanos_per_sec"

definition build_snapshot ::
    "Env \<Rightarrow> World \<Rightarrow> Cron \<Rightarrow> instant \<Rightarrow> nat \<Rightarrow> Db \<Rightarrow> ((StorageError + QuotaSnapshot) \<times> Db) option" where
  "build_snapshot env w cron now global db =
     map_option (\<lambda>since_dt.
       let since = en_format_lex env since_dt; k = cr_id cron in
       then_do (count_running_for_cron k db) (\<lambda>running db.
       then_do (count_since_for_cron k since db) (\<lambda>runs db.
       then_do (sum_cost_since_for_cron k since db) (\<lambda>cost db.
       then_do (last_terminal_failure_at_for_cron k db) (\<lambda>lf db.
         (Inr \<lparr> running_for_cron = as_u32 (int running), running_global = global,
                window_runs_today = as_u32 (int runs), window_cost_today = cost,
                current_loadavg_1m = w_loadavg w, now_at = now,
                last_terminal_failure_at = Option.bind lf (en_parse_lex env) \<rparr>, db))))))
     (checked_add (en_chrono env) now (- DAY))"

definition error_detail :: "Env \<Rightarrow> World \<Rightarrow> AdmissionDecision \<Rightarrow> str" where
  "error_detail env w d = (case d of
       Admit \<Rightarrow> []
     | RefusePaused \<Rightarrow> lit ''cron is disabled (likely auto-paused on consecutive failures)''
     | RefuseConcurrentPerCron l n \<Rightarrow>
         lit ''max_concurrent_runs='' @ show_nat l @ lit '' reached (in_flight='' @ show_nat n @ lit '')''
     | RefuseConcurrentGlobal l n \<Rightarrow>
         lit ''global_max_concurrent_runs='' @ show_nat l @ lit '' reached (in_flight='' @ show_nat n @ lit '')''
     | RefuseRunsPerDay l u \<Rightarrow>
         lit ''max_runs_per_day='' @ show_nat l @ lit '' reached (used='' @ show_nat u @ lit '')''
     | RefuseBudgetExceeded l u \<Rightarrow>
         lit ''cost_budget_usd_per_day='' @ w_decimals w 4 l @ lit '' exceeded (used='' @ w_decimals w 4 u @ lit '')''
     | RefuseDeferLoadavg t s \<Rightarrow>
         lit ''cpu_load_throttle='' @ w_decimals w 2 t @ lit '' exceeded (loadavg_1m='' @ w_decimals w 2 s @ lit '')''
     | RefuseDeferBackoff r n \<Rightarrow>
         lit ''failure_backoff deferring until '' @ en_rfc3339 env r
           @ lit '' (consecutive_failures='' @ show_nat n @ lit '')'')"

section \<open>Spawning a run\<close>

datatype AdmitError =
    AeStorage StorageError
  | AdapterMissing str
  | ProjectMissing str
  | AeSpawn str

definition project_root :: "str \<Rightarrow> Db \<Rightarrow> (StorageError + str option) \<times> Db" where
  "project_root k = run_stmt (\<lambda>db. Inr (map_of (db_projects db) k, db))"

definition finish_run_with_error :: "Env \<Rightarrow> World \<Rightarrow> str \<Rightarrow> str \<Rightarrow> str \<Rightarrow> str \<Rightarrow> Db \<Rightarrow> Db" where
  "finish_run_with_error env w run_id status kind detail db =
     snd (run_finish run_id
       \<lparr> rf_finished_at = en_format_lex env (w_now w), rf_status = status, rf_exit_code = None,
         rf_cost_usd_est = None, rf_error_kind = Some kind, rf_error_detail = Some detail,
         rf_tail_log = None \<rparr> db)"

text \<open>The strings of the array \<open>args\<close> in the spawn arguments.\<close>

definition extra_args :: "json option \<Rightarrow> str list" where
  "extra_args j =
     (case j of
        Some (JObject kvs) \<Rightarrow>
          (case map_of (rev kvs) (lit ''args'') of
             Some (JArray vs) \<Rightarrow> List.map_filter (\<lambda>v. case v of JString s \<Rightarrow> Some s | _ \<Rightarrow> None) vs
           | _ \<Rightarrow> [])
      | _ \<Rightarrow> [])"

definition cron_request :: "World \<Rightarrow> Cron \<Rightarrow> str \<Rightarrow> SpawnRequest" where
  "cron_request w cron dir =
     (new_request dir)\<lparr> rq_prompt := Some (cr_prompt cron), rq_stdin_mode := Pty,
        rq_extra_args := extra_args (w_json w (cr_spawn_args cron)) \<rparr>"

definition session_row :: "SpawnResult \<Rightarrow> Db \<Rightarrow> Db" where
  "session_row r db = (case r of
       Spawned sid \<Rightarrow> db\<lparr> db_sessions := sid # db_sessions db \<rparr>
     | SpawnFailed _ (Some sid) \<Rightarrow> db\<lparr> db_sessions := sid # db_sessions db \<rparr>
     | SpawnFailed _ None \<Rightarrow> db)"

definition new_watcher :: "Cron \<Rightarrow> str \<Rightarrow> str \<Rightarrow> str option \<Rightarrow> Watcher option" where
  "new_watcher cron run_id sid trace = map_option (\<lambda>q.
     \<lparr> wt_run_id = run_id, wt_session_id = sid, wt_cron = cron, wt_trace_id = trace,
       wt_max_runtime = max_runtime q \<rparr>) (cron_to_quota cron)"

definition spawned_run ::
    "Env \<Rightarrow> Cron \<Rightarrow> FireEvent \<Rightarrow> str \<Rightarrow> str \<Rightarrow> str option \<Rightarrow> Exec \<Rightarrow> Exec option" where
  "spawned_run env cron fire run_id sid trace ex =
     (let db = snd (run_update_status run_id (lit ''running'')
                 (snd (run_attach_session run_id sid (ex_db ex))))
      in map_option (\<lambda>wt. ex\<lparr> ex_db := db,
           ex_fired := ex_fired ex @ [\<lparr> cf_cron_id = cr_id cron, cf_run_id = run_id,
              cf_fired_at = en_rfc3339 env (fe_fired_at fire), cf_status = lit ''running'' \<rparr>],
           ex_watchers := ex_watchers ex @ [wt] \<rparr>)
         (new_watcher cron run_id sid trace))"

definition admit_and_spawn_with_id ::
    "Env \<Rightarrow> World \<Rightarrow> Cron \<Rightarrow> FireEvent \<Rightarrow> str option \<Rightarrow> Exec \<Rightarrow> ((AdmitError + str) \<times> Exec) option" where
  "admit_and_spawn_with_id env w cron fire trace ex =
     (let ex1 = reserve_slot (cr_id cron) ex;
          run_id = w_new_id w;
          refuse = (\<lambda>err db. Some (Inl err, decrement_global_and_cron (cr_id cron) (ex1\<lparr> ex_db := db \<rparr>)))
      in case run_create
            \<lparr> nr_id = run_id, nr_cron_id = Some (cr_id cron), nr_session_id = None,
              nr_scheduled_at = en_format_lex env (fe_scheduled_at fire),
              nr_started_at = Some (en_format_lex env (fe_fired_at fire)),
              nr_status = lit ''spawning'', nr_coalesced_count = int (max (fe_coalesced_count fire) 1) \<rparr>
            (ex_db ex1) of
        (Inl e, db) \<Rightarrow> refuse (AeStorage e) db
      | (Inr _, db) \<Rightarrow>
        if \<not> w_registered w (cr_backend_id cron)
        then refuse (AdapterMissing (cr_backend_id cron))
               (finish_run_with_error env w run_id (lit ''failed'') (lit ''adapter_missing'')
                  (lit ''backend '' @ w_debug w (cr_backend_id cron) @ lit '' not registered'') db)
        else (case project_root (cr_project_id cron) db of
          (Inr (Some dir), db) \<Rightarrow>
            (case w_spawn w (cr_backend_id cron) (cr_project_id cron) (cron_request w cron dir) of
               SpawnFailed msg row \<Rightarrow>
                 refuse (AeSpawn msg) (finish_run_with_error env w run_id (lit ''failed'')
                   (lit ''spawn_failed'') msg (session_row (SpawnFailed msg row) db))
             | Spawned sid \<Rightarrow>
                 map_option (\<lambda>ex2. (Inr run_id, ex2))
                   (spawned_run env cron fire run_id sid trace
                      (ex1\<lparr> ex_db := session_row (Spawned sid) db \<rparr>)))
        | (_, db) \<Rightarrow>
            refuse (ProjectMissing (cr_project_id cron))
              (finish_run_with_error env w run_id (lit ''failed'') (lit ''project_missing'')
                 (lit ''project '' @ cr_project_id cron @ lit '' not found'') db)))"

definition write_rejected_audit ::
    "Env \<Rightarrow> World \<Rightarrow> Cron \<Rightarrow> FireEvent \<Rightarrow> AdmissionDecision \<Rightarrow> Db \<Rightarrow> Db" where
  "write_rejected_audit env w cron fire d db =
     (case (rejected_status d, error_kind d) of
        (Some status, Some kind) \<Rightarrow>
          snd (run_create_rejected
            \<lparr> rj_id = w_new_id w, rj_cron_id = cr_id cron,
              rj_scheduled_at = en_format_lex env (fe_scheduled_at fire), rj_status = status,
              rj_coalesced_count = int (max (fe_coalesced_count fire) 1), rj_error_kind = kind,
              rj_error_detail = error_detail env w d \<rparr> db)
      | _ \<Rightarrow> db)"

definition persist_fire_watermark :: "Env \<Rightarrow> Cron \<Rightarrow> FireEvent \<Rightarrow> Db \<Rightarrow> Db" where
  "persist_fire_watermark env cron fire db =
     snd (mark_fired (cr_id cron) (en_format_lex env (fe_fired_at fire))
       (case parse_cron_spec env cron of
          Inr (spec, _, _) \<Rightarrow> map_option (en_format_lex env) (next_after spec (fe_fired_at fire))
        | Inl _ \<Rightarrow> None) db)"

section \<open>Processing a fire\<close>

definition mode_label :: "StorageError + Cron option \<Rightarrow> str" where
  "mode_label r = (case r of
       Inr (Some c) \<Rightarrow>
         if cr_catchup_mode c = lit ''skip'' then lit ''skip''
         else if cr_catchup_mode c = lit ''replay'' then lit ''replay'' else lit ''coalesce''
     | _ \<Rightarrow> lit ''coalesce'')"

definition num_milliseconds :: "int \<Rightarrow> int" where
  "num_milliseconds d = (if d < 0 then - ((- d) div 1000000) else d div 1000000)"

text \<open>What the fire adds to the counter of throttled seconds: the cast truncates.\<close>

definition throttled_secs :: "FireEvent \<Rightarrow> nat" where
  "throttled_secs fire = nat (max (num_milliseconds (fe_fired_at fire - fe_scheduled_at fire)) 0) div 1000"

definition note_throttle :: "AdmissionDecision \<Rightarrow> FireEvent \<Rightarrow> Exec \<Rightarrow> Exec" where
  "note_throttle d fire ex =
     (let throttled = (error_kind d = Some (lit ''quota_cpu_load_throttle'')) in
      ex\<lparr> ex_throttled_by_loadavg := throttled,
          ex_throttled_secs := ex_throttled_secs ex + (if throttled then throttled_secs fire else 0) \<rparr>)"

text \<open>The decision, with the state in which it was taken.\<close>

definition decide_fire ::
    "Env \<Rightarrow> GlobalQuota \<Rightarrow> World \<Rightarrow> Cron \<Rightarrow> instant \<Rightarrow> Exec \<Rightarrow> ((StorageError + AdmissionDecision) \<times> Exec) option" where
  "decide_fire env g w cron now ex =
     (case build_snapshot env w cron now (ex_running_global ex) (ex_db ex) of
        None \<Rightarrow> None
      | Some (Inl e, db) \<Rightarrow> Some (Inl e, ex\<lparr> ex_db := db \<rparr>)
      | Some (Inr snap, db) \<Rightarrow>
          map_option (\<lambda>q. (Inr (evaluate_admission (en_chrono env) q g snap), ex\<lparr> ex_db := db \<rparr>))
            (cron_to_quota cron))"

definition process_fire ::
    "Env \<Rightarrow> GlobalQuota \<Rightarrow> World \<Rightarrow> str \<Rightarrow> FireEvent \<Rightarrow> Exec \<Rightarrow> Exec option" where
  "process_fire env g w trace fire ex =
     (let (mode, db) = cron_get (fe_cron_id fire) (ex_db ex);
          ex1 = ex\<lparr> ex_missed := ex_missed ex @
            (if fe_coalesced_count fire > 1 \<or> fe_catchup_truncated fire then [mode_label mode] else []) \<rparr>
      in case cron_get (fe_cron_id fire) db of
        (Inr (Some cron), db) \<Rightarrow>
          (case decide_fire env g w cron (fe_fired_at fire) (ex1\<lparr> ex_db := db \<rparr>) of
             None \<Rightarrow> None
           | Some (Inl _, ex2) \<Rightarrow> Some ex2
           | Some (Inr d, ex2) \<Rightarrow>
               map_option (\<lambda>ex3. ex3\<lparr> ex_db := persist_fire_watermark env cron fire (ex_db ex3) \<rparr>)
                 (let ex2 = note_throttle d fire ex2 in
                  if d = Admit then map_option snd (admit_and_spawn_with_id env w cron fire (Some trace) ex2)
                  else if is_deferral d then Some ex2
                  else Some (ex2\<lparr> ex_db := write_rejected_audit env w cron fire d (ex_db ex2) \<rparr>)))
      | (_, db) \<Rightarrow> Some (ex1\<lparr> ex_db := db \<rparr>))"

text \<open>The manual trigger of a cron.\<close>

datatype RunNowOutcome =
    Admitted str
  | Refused str str

datatype CronOpError =
    CoNotFound str
  | CoInvalidExpr str
  | CoInvalidTz str
  | CoStorage StorageError
  | CoAdmit AdmitError
  | CoOther SchedError

definition run_now ::
    "Env \<Rightarrow> GlobalQuota \<Rightarrow> World \<Rightarrow> str \<Rightarrow> Exec \<Rightarrow> ((CronOpError + RunNowOutcome) \<times> Exec) option" where
  "run_now env g w k ex =
     (case cron_get k (ex_db ex) of
        (Inl e, db) \<Rightarrow> Some (Inl (CoStorage e), ex\<lparr> ex_db := db \<rparr>)
      | (Inr None, db) \<Rightarrow> Some (Inl (CoNotFound k), ex\<lparr> ex_db := db \<rparr>)
      | (Inr (Some cron), db) \<Rightarrow>
          (let fire = \<lparr> fe_cron_id = cr_id cron, fe_scheduled_at = w_now w, fe_fired_at = w_now w,
                        fe_coalesced_count = 1, fe_catchup_truncated = False \<rparr>
           in case decide_fire env g w cron (w_now w) (ex\<lparr> ex_db := db \<rparr>) of
                None \<Rightarrow> None
              | Some (Inl e, ex2) \<Rightarrow> Some (Inl (CoStorage e), ex2)
              | Some (Inr d, ex2) \<Rightarrow>
                  if d = Admit then
                    map_option (\<lambda>(r, ex3). (map_sum CoAdmit Admitted r, ex3))
                      (admit_and_spawn_with_id env w cron fire None ex2)
                  else
                    Some (Inr (Refused (case error_kind d of Some t \<Rightarrow> t | None \<Rightarrow> lit ''quota_unknown'')
                                 (error_detail env w d)),
                          if is_deferral d then ex2
                          else ex2\<lparr> ex_db := write_rejected_audit env w cron fire d (ex_db ex2) \<rparr>)))"

section \<open>Watching a run\<close>

text \<open>Each second the watcher reads the session row: its state and exit code, or
  nothing if it is gone or the read failed.\<close>

datatype SessionPoll = Polled str "int option" | Unreadable

record TerminalOutcome =
  to_status :: str
  to_exit_code :: "int option"
  to_error_kind :: "str option"
  to_error_detail :: "str option"

definition poll_outcome :: "str \<Rightarrow> SessionPoll \<Rightarrow> TerminalOutcome option" where
  "poll_outcome sid p = (case p of
       Unreadable \<Rightarrow> Some \<lparr> to_status = lit ''failed'', to_exit_code = None,
          to_error_kind = Some (lit ''session_missing''),
          to_error_detail = Some (lit ''session '' @ sid @ lit '' vanished'') \<rparr>
     | Polled state code \<Rightarrow>
         if state = lit ''exited'' then Some (case code of
              None \<Rightarrow> \<lparr> to_status = lit ''failed'', to_exit_code = code,
                 to_error_kind = Some (lit ''signaled''),
                 to_error_detail = Some (lit ''session exited without a code'') \<rparr>
            | Some c \<Rightarrow> if c = 0
                then \<lparr> to_status = lit ''completed'', to_exit_code = code, to_error_kind = None, to_error_detail = None \<rparr>
                else \<lparr> to_status = lit ''failed'', to_exit_code = code,
                   to_error_kind = Some (lit ''exit_code''),
                   to_error_detail = Some (lit ''exit code '' @ show_int c) \<rparr>)
         else if state = lit ''errored'' then Some \<lparr> to_status = lit ''failed'', to_exit_code = code,
            to_error_kind = Some (lit ''session_errored''), to_error_detail = None \<rparr>
         else None)"

text \<open>The loop, over what each read returns and the time elapsed at its end; the flag
  tells that the session was sent a termination signal.  \<open>None\<close>: still running after
  the given reads.\<close>

fun watch :: "str \<Rightarrow> nat option \<Rightarrow> (SessionPoll \<times> nat) list \<Rightarrow> (TerminalOutcome \<times> bool) option" where
  "watch sid max_rt [] = None"
| "watch sid max_rt ((p, elapsed) # polls) =
     (case poll_outcome sid p of
        Some out \<Rightarrow> Some (out, False)
      | None \<Rightarrow>
          (case max_rt of
             Some rt \<Rightarrow>
               if elapsed \<ge> rt
               then Some (\<lparr> to_status = lit ''timed_out'', to_exit_code = None,
                       to_error_kind = Some (lit ''max_runtime_exceeded''),
                       to_error_detail = Some (lit ''max_runtime_s='' @ show_nat (rt div nanos_per_sec) @ lit '' exceeded'') \<rparr>, True)
               else watch sid max_rt polls
           | None \<Rightarrow> watch sid max_rt polls))"

definition failed_status :: "str \<Rightarrow> bool" where
  "failed_status s \<longleftrightarrow> s = lit ''failed'' \<or> s = lit ''timed_out''"

text \<open>The failure counter, the mirror of the scheduler and the automatic pause.\<close>

definition record_failure :: "Env \<Rightarrow> World \<Rightarrow> Cron \<Rightarrow> Db \<Rightarrow> handle \<Rightarrow> (Db \<times> handle) option" where
  "record_failure env w cron db h =
     (case bump_consecutive_failures (cr_id cron) db of
        (Inr (Some after), db) \<Rightarrow>
          map_option (\<lambda>b.
            (if should_auto_pause (as_u32 (max (cr_pause_on_failures cron) 0)) (as_u32 after)
             then snd (pause_for_failures (cr_id cron) db) else db,
             snd (handle_update_backoff_state (en_chrono env) (w_now w) (cr_id cron) (Some b)
                    (Some (w_now w)) (as_u32 after) h)))
            (parse_failure_backoff_or_default (cr_failure_backoff cron))
      | (_, db) \<Rightarrow> Some (db, h))"

definition record_outcome :: "Env \<Rightarrow> World \<Rightarrow> Cron \<Rightarrow> str \<Rightarrow> Db \<Rightarrow> handle \<Rightarrow> (Db \<times> handle) option" where
  "record_outcome env w cron status db h =
     (if failed_status status then record_failure env w cron db h
      else if status = lit ''completed'' then
        Some (snd (reset_consecutive_failures (cr_id cron) db),
              snd (handle_clear_backoff_state (en_chrono env) (w_now w) (cr_id cron) h))
      else Some (db, h))"

definition watcher_done :: "Env \<Rightarrow> World \<Rightarrow> Watcher \<Rightarrow> TerminalOutcome \<Rightarrow> Exec \<Rightarrow> Exec option" where
  "watcher_done env w wt out ex =
     (let db = snd (run_finish (wt_run_id wt)
            \<lparr> rf_finished_at = en_format_lex env (w_now w), rf_status = to_status out,
              rf_exit_code = to_exit_code out, rf_cost_usd_est = None,
              rf_error_kind = to_error_kind out, rf_error_detail = to_error_detail out,
              rf_tail_log = map_option (\<lambda>tid. lit ''# trace_id='' @ tid @ [10]) (wt_trace_id wt) \<rparr> (ex_db ex))
      in map_option (\<lambda>(db, h).
           decrement_global_and_cron (cr_id (wt_cron wt))
             (ex\<lparr> ex_db := db, ex_heap := h,
                  ex_errors_window := (if failed_status (to_status out)
                     then push_error_event (w_mono w) (ex_errors_window ex) else ex_errors_window ex),
                  ex_watchers := remove1 wt (ex_watchers ex) \<rparr>))
         (record_outcome env w (wt_cron wt) (to_status out) db (ex_heap ex)))"

section \<open>Starting the services\<close>

datatype SchedulerStartError =
    SsStorage StorageError
  | SsCronSeed str SchedError

text \<open>The failure state a restarted daemon gives back to the scheduler.\<close>

definition seed_backoff :: "Env \<Rightarrow> instant \<Rightarrow> Cron \<Rightarrow> Db \<Rightarrow> handle \<Rightarrow> ((StorageError + unit) \<times> Db \<times> handle) option" where
  "seed_backoff env now cron db h =
     (if cr_consecutive_failures cron > 0 then
        Option.bind (parse_failure_backoff_or_default (cr_failure_backoff cron)) (\<lambda>b.
          case last_terminal_failure_at_for_cron (cr_id cron) db of
            (Inl e, db) \<Rightarrow> Some (Inl e, db, h)
          | (Inr lf, db) \<Rightarrow> Some (Inr (), db,
              snd (handle_update_backoff_state (en_chrono env) now (cr_id cron) (Some b)
                     (Option.bind lf (en_parse_lex env)) (as_u32 (cr_consecutive_failures cron)) h)))
      else Some (Inr (), db, h))"

fun seed_loop ::
    "Env \<Rightarrow> instant \<Rightarrow> Cron list \<Rightarrow> Db \<Rightarrow> handle \<Rightarrow> ((SchedulerStartError + unit) \<times> Db \<times> handle) option" where
  "seed_loop env now [] db h = Some (Inr (), db, h)"
| "seed_loop env now (cron # rest) db h =
     (if cr_enabled cron = 0 then seed_loop env now rest db h
      else case parse_cron_spec env cron of
        Inl _ \<Rightarrow> seed_loop env now rest db h
      | Inr (spec, mode, interval) \<Rightarrow>
          (case handle_upsert (en_chrono env) now (cr_id cron) spec mode interval
                 (Option.bind (cr_last_fired_at cron) (en_parse_lex env)) h of
             (Inl e, h) \<Rightarrow> Some (Inl (SsCronSeed (cr_id cron) e), db, h)
           | (Inr _, h) \<Rightarrow>
               Option.bind (seed_backoff env now cron db h) (\<lambda>(r, db, h).
                 case r of Inl e \<Rightarrow> Some (Inl (SsStorage e), db, h)
                 | Inr _ \<Rightarrow> seed_loop env now rest db h)))"

definition seed_crons_into_scheduler ::
    "Env \<Rightarrow> instant \<Rightarrow> Db \<Rightarrow> handle \<Rightarrow> ((SchedulerStartError + unit) \<times> Db \<times> handle) option" where
  "seed_crons_into_scheduler env now db h =
     (case cron_list db of
        (Inl e, db) \<Rightarrow> Some (Inl (SsStorage e), db, h)
      | (Inr crons, db) \<Rightarrow> seed_loop env now crons db h)"

section \<open>The health report\<close>

definition snapshot_running_per_cron :: "(str \<times> nat) list \<Rightarrow> (str \<times> nat) list" where
  "snapshot_running_per_cron m = sort_key fst (filter (\<lambda>(_, n). n > 0) m)"

definition publish_scheduler_health :: "Env \<Rightarrow> World \<Rightarrow> nat \<Rightarrow> Exec \<Rightarrow> SchedulerHealthParams \<times> Exec" where
  "publish_scheduler_health env w queued ex =
     (let window = prune_error_window (w_mono w) (ex_errors_window ex);
          (r, h) = handle_snapshot (en_chrono env) (w_now w) (ex_heap ex)
      in (\<lparr> sh_queue_depth = queued, sh_running_global = ex_running_global ex,
            sh_running_per_cron = snapshot_running_per_cron (ex_running_per_cron ex),
            sh_throttled_by_loadavg = ex_throttled_by_loadavg ex,
            sh_errors_last_5m = as_u32 (int (length window)),
            sh_next_fire = (case r of Inr (e # _) \<Rightarrow> Some (he_id e, en_rfc3339 env (fire_at e)) | _ \<Rightarrow> None) \<rparr>,
          ex\<lparr> ex_errors_window := window, ex_heap := h \<rparr>))"

text \<open>The preview of \<open>crons.dry_run\<close>.\<close>

fun dry_run_loop :: "CronSpec \<Rightarrow> nat \<Rightarrow> instant \<Rightarrow> instant list" where
  "dry_run_loop spec 0 cursor = []"
| "dry_run_loop spec (Suc n) cursor =
     (case next_after spec cursor of Some t \<Rightarrow> t # dry_run_loop spec n t | None \<Rightarrow> [])"

definition dry_run_fires :: "Env \<Rightarrow> instant \<Rightarrow> str \<Rightarrow> str \<Rightarrow> nat \<Rightarrow> CronOpError + instant list" where
  "dry_run_fires env now expr zone wanted =
     (case parse_spec (en_schedule env) (en_tz env) expr zone of
        Inl (InvalidExpr _ reason) \<Rightarrow> Inl (CoInvalidExpr reason)
      | Inl (InvalidTimezone z) \<Rightarrow> Inl (CoInvalidTz z)
      | Inl other \<Rightarrow> Inl (CoOther other)
      | Inr spec \<Rightarrow> Inr (dry_run_loop spec (min wanted 20) now))"

end
