(* ===== verification/Run_History.thy ===== *)
theory Run_History
  imports Run_Executor
begin

text \<open>
  The executor over time.  A history interleaves fires, manual triggers, runs that
  end, health reports and mutations of crons, with failing statements and a
  scheduler that does anything.  The relations between databases (\<open>gentle\<close>, \<open>good\<close>)
  and between states (the locale \<open>exec_evolution\<close>) are what every operation composes
  to; the invariant of the executor and the fate of unwatched runs are instances.
\<close>

section \<open>The counters count the watchers\<close>

text \<open>A map of counters that counts the members of a list of cron ids.\<close>

definition counts :: "(str \<times> nat) list \<Rightarrow> str list \<Rightarrow> bool" where
  "counts m ks \<longleftrightarrow> distinct (map fst m)
     \<and> (\<forall>k. map_of m k = (if k \<in> set ks then Some (count_list ks k) else None))"

lemma counts_empty: "counts [] []"
  by (simp add: counts_def)

lemma count_list_le: "count_list ks k \<le> length ks"
  by (induction ks) auto

lemma count_list_remove1: "count_list (remove1 x xs) k = count_list xs k - (if k = x then 1 else 0)"
  by (induction xs) auto

lemma counts_bump:
  assumes "counts m ks" and "length ks < u32_max"
  shows "counts (bump_running_for_cron k m) (k # ks)"
proof -
  have "count_list ks k < u32_max" using count_list_le[of ks k] assms(2) by simp
  then have "sat_add u32_max (case map_of m k of Some n \<Rightarrow> n | None \<Rightarrow> 0) 1 = count_list (k # ks) k"
    using assms(1) by (auto simp: counts_def sat_add_def count_list_0_iff)
  then show ?thesis
    using assms(1) by (auto simp: counts_def bump_running_for_cron_def update_conv' distinct_update)
qed

lemma counts_decrement:
  assumes "counts m ks" and k: "k \<in> set ks"
  shows "counts (decrement_for_cron k m) (remove1 k ks)"
proof -
  have n: "map_of m k = Some (count_list ks k)" using assms by (simp add: counts_def)
  have r: "count_list (remove1 k ks) j = (if j = k then count_list ks k - 1 else count_list ks j)" for j
    by (simp add: count_list_remove1)
  have mem: "j \<in> set (remove1 k ks) \<longleftrightarrow> (if j = k then 1 < count_list ks k else j \<in> set ks)" for j
    using r[of j] count_list_0_iff[of "remove1 k ks" j] count_list_0_iff[of ks j] by auto
  have d: "distinct (map fst m)" and c: "map_of m j = (if j \<in> set ks then Some (count_list ks j) else None)" for j
    using assms(1) by (auto simp: counts_def)
  have pos: "0 < count_list ks k" using k count_list_0_iff[of ks k] by simp
  show ?thesis
    unfolding counts_def mem r
    using d pos by (auto simp: decrement_for_cron_def n c update_conv' delete_conv' distinct_update distinct_delete)
qed

lemma counts_cong: "(\<And>k. count_list ks k = count_list ks' k) \<Longrightarrow> counts m ks = counts m ks'"
proof -
  assume eq: "\<And>k. count_list ks k = count_list ks' k"
  have "k \<in> set ks \<longleftrightarrow> k \<in> set ks'" for k using eq[of k] by (metis count_list_0_iff)
  then show ?thesis by (simp add: counts_def eq)
qed

lemma counts_sum:
  assumes "counts m ks"
  shows "sum_list (map snd m) = length ks"
proof -
  have d: "distinct (map fst m)" and c: "\<And>k. map_of m k = (if k \<in> set ks then Some (count_list ks k) else None)"
    using assms by (auto simp: counts_def)
  have dom: "fst ` set m = set ks"
    unfolding dom_map_of_conv_image_fst[symmetric] by (auto simp: dom_def c split: if_splits)
  have "snd x = count_list ks (fst x)" if "x \<in> set m" for x
    using map_of_is_SomeI[OF d, of "fst x" "snd x"] that c[of "fst x"] by (simp split: if_splits)
  then have "sum_list (map snd m) = sum_list (map (count_list ks) (map fst m))"
    by (simp add: comp_def cong: map_cong)
  also have "\<dots> = sum (count_list ks) (set (map fst m))"
    by (rule sum.distinct_set_conv_list[OF d, symmetric])
  also have "\<dots> = sum (count_list ks) (set ks)" by (simp add: dom)
  also have "\<dots> = length ks" by (simp add: sum_count_set)
  finally show ?thesis .
qed

section \<open>What statements do to the runs in flight\<close>

definition inflight_of :: "str \<Rightarrow> Db \<Rightarrow> nat" where
  "inflight_of k db = length (filter (\<lambda>(_, r). rr_cron_id r = Some k \<and> in_flight r) (db_runs db))"

text \<open>A row that may end only if its key is in \<open>X\<close>, and never starts again.\<close>

definition calm_row :: "str set \<Rightarrow> str \<Rightarrow> RunRecord \<Rightarrow> RunRecord \<Rightarrow> bool" where
  "calm_row X i r r' \<longleftrightarrow> (in_flight r' \<longrightarrow> in_flight r)
     \<and> (rr_cron_id r' = rr_cron_id r \<or> rr_cron_id r' = None)
     \<and> (i \<notin> X \<and> in_flight r \<longrightarrow> in_flight r')"

definition same_limits :: "Db \<Rightarrow> Db \<Rightarrow> bool" where
  "same_limits d d' \<longleftrightarrow> (\<forall>k. map_option cr_max_concurrent_runs (row_of d' k)
     = map_option cr_max_concurrent_runs (row_of d k))"

text \<open>No run starts, runs outside \<open>X\<close> stay in flight; with \<open>B\<close>, no limit changes.\<close>

definition gentle :: "bool \<Rightarrow> str set \<Rightarrow> Db \<Rightarrow> Db \<Rightarrow> bool" where
  "gentle B X d d' \<longleftrightarrow>
     (\<exists>F added. db_runs d' = map (\<lambda>(i, r). (i, F i r)) (db_runs d) @ added
        \<and> (\<forall>i r. calm_row X i r (F i r)) \<and> (\<forall>(i, r) \<in> set added. \<not> in_flight r))
     \<and> (B \<longrightarrow> same_limits d d')"

lemma calm_row_refl [simp]: "calm_row X i r r"
  by (simp add: calm_row_def)

lemma calm_row_trans: "calm_row X i r r' \<Longrightarrow> calm_row X i r' r'' \<Longrightarrow> calm_row X i r r''"
  unfolding calm_row_def by (intro conjI) (blast, metis, blast)

lemma gentleI:
  assumes "db_runs d' = map (\<lambda>(i, r). (i, F i r)) (db_runs d) @ added"
    and "\<And>i r. calm_row X i r (F i r)" "\<And>i r. (i, r) \<in> set added \<Longrightarrow> \<not> in_flight r"
    and "B \<Longrightarrow> same_limits d d'"
  shows "gentle B X d d'"
proof -
  have "\<forall>i r. calm_row X i r (F i r)" "\<forall>(i, r) \<in> set added. \<not> in_flight r" "B \<longrightarrow> same_limits d d'"
    using assms(2-4) by auto
  with assms(1) show ?thesis
    unfolding gentle_def by (intro conjI exI[where x = F] exI[where x = added]) assumption+
qed

lemma gentleE:
  assumes "gentle B X d d'"
  obtains F added where "db_runs d' = map (\<lambda>(i, r). (i, F i r)) (db_runs d) @ added"
    "\<And>i r. calm_row X i r (F i r)" "\<And>i r. (i, r) \<in> set added \<Longrightarrow> \<not> in_flight r"
    "B \<Longrightarrow> same_limits d d'"
proof -
  obtain F added where "db_runs d' = map (\<lambda>(i, r). (i, F i r)) (db_runs d) @ added"
    "\<forall>i r. calm_row X i r (F i r)" "\<forall>(i, r) \<in> set added. \<not> in_flight r" "B \<longrightarrow> same_limits d d'"
    using assms unfolding gentle_def by blast
  then show ?thesis by (intro that[of F added]) auto
qed

lemma gentle_same:
  assumes "db_runs d' = db_runs d" and "B \<Longrightarrow> same_limits d d'"
  shows "gentle B X d d'"
  by (rule gentleI[where F = "\<lambda>_ r. r" and added = "[]"]) (use assms in simp_all)

lemma same_limits_crons: "db_crons d' = db_crons d \<Longrightarrow> same_limits d d'"
  by (simp add: same_limits_def)

lemma gentle_frame: "db_runs d' = db_runs d \<Longrightarrow> db_crons d' = db_crons d \<Longrightarrow> gentle B X d d'"
  by (rule gentle_same) (simp_all add: same_limits_crons)

lemma same_limits_trans: "same_limits d d' \<Longrightarrow> same_limits d' d'' \<Longrightarrow> same_limits d d''"
  by (simp add: same_limits_def)

lemma gentle_trans:
  assumes "gentle B X d d'" "gentle B X d' d''"
  shows "gentle B X d d''"
proof -
  obtain F ad where F: "db_runs d' = map (\<lambda>(i, r). (i, F i r)) (db_runs d) @ ad"
    "\<And>i r. calm_row X i r (F i r)" "\<And>i r. (i, r) \<in> set ad \<Longrightarrow> \<not> in_flight r" "B \<Longrightarrow> same_limits d d'"
    by (rule gentleE[OF assms(1)]) (rule that)
  obtain F' ad' where F': "db_runs d'' = map (\<lambda>(i, r). (i, F' i r)) (db_runs d') @ ad'"
    "\<And>i r. calm_row X i r (F' i r)" "\<And>i r. (i, r) \<in> set ad' \<Longrightarrow> \<not> in_flight r" "B \<Longrightarrow> same_limits d' d''"
    by (rule gentleE[OF assms(2)]) (rule that)
  show ?thesis
  proof (rule gentleI[where F = "\<lambda>i r. F' i (F i r)" and added = "map (\<lambda>(i, r). (i, F' i r)) ad @ ad'"])
    show "db_runs d'' = map (\<lambda>(i, r). (i, F' i (F i r))) (db_runs d) @ map (\<lambda>(i, r). (i, F' i r)) ad @ ad'"
      by (simp add: F(1) F'(1) comp_def split_beta)
    show "\<not> in_flight r" if m: "(i, r) \<in> set (map (\<lambda>(i, r). (i, F' i r)) ad @ ad')" for i r
    proof -
      consider r0 where "(i, r0) \<in> set ad" "r = F' i r0" | "(i, r) \<in> set ad'" using m by auto
      then show ?thesis
      proof cases
        case 1
        then show ?thesis using F(3)[OF 1(1)] F'(2)[of i r0] by (simp add: calm_row_def)
      qed (rule F'(3))
    qed
  qed (use calm_row_trans[OF F(2) F'(2)] F(4) F'(4) same_limits_trans in blast)+
qed

interpretation gentle_ev: db_evolution "gentle B X" for B X
  by unfold_locales (auto intro: gentle_frame gentle_trans)

lemma gentle_mono:
  assumes "gentle B X d d'" "C \<Longrightarrow> B" "X \<subseteq> Y"
  shows "gentle C Y d d'"
  using assms(1)
proof (rule gentleE)
  fix F added
  assume F: "db_runs d' = map (\<lambda>(i, r). (i, F i r)) (db_runs d) @ added" "\<And>i r. calm_row X i r (F i r)"
    "\<And>i r. (i, r) \<in> set added \<Longrightarrow> \<not> in_flight r" "B \<Longrightarrow> same_limits d d'"
  have "calm_row Y i r (F i r)" for i r using F(2)[of i r] assms(3) by (auto simp: calm_row_def)
  then show ?thesis by (rule gentleI[OF F(1) _ F(3)]) (use F(4) assms(2) in auto)
qed

lemma sql_update_zero: "fst (sql_update k c f rows) = 0 \<Longrightarrow> snd (sql_update k c f rows) = rows"
  by (auto simp: sql_update_def filter_empty_conv split_beta intro!: map_idI)

lemma gentle_update_runs:
  assumes u: "update_runs k c f d = (n, d')"
    and c: "\<And>r. 0 < n \<Longrightarrow> (k, r) \<in> set (db_runs d) \<Longrightarrow> c r \<Longrightarrow> calm_row X k r (f r)"
  shows "gentle B X d d'"
proof (cases "n = 0")
  case True
  then have "db_runs d' = db_runs d"
    using u sql_update_zero[of k c f "db_runs d"] by (auto simp: update_runs_def split: prod.splits)
  then show ?thesis by (rule gentle_frame) (rule update_runs_frame(4)[OF u])
next
  case False
  let ?F = "\<lambda>i r. if i = k \<and> c r \<and> calm_row X k r (f r) then f r else r"
  show ?thesis
  proof (rule gentleI[where F = ?F and added = "[]"])
    show "db_runs d' = map (\<lambda>(i, r). (i, ?F i r)) (db_runs d) @ []"
      using u c False by (auto simp: update_runs_def sql_update_def)
  qed (use same_limits_crons[OF update_runs_frame(4)[OF u]] in auto)
qed

lemma gentle_runs_stmt:
  assumes "run_stmt (\<lambda>db. let (n, db') = update_runs k c f db in
        if n > 0 \<and> P db then Inl CONSTRAINT else Inr (h n, db')) db = (r, db')"
    and "\<And>r d. \<not> P d \<Longrightarrow> (k, r) \<in> set (db_runs db) \<Longrightarrow> c r \<Longrightarrow> calm_row X k r (f r)"
  shows "gentle B X db db'"
  using assms(1)
proof (cases rule: run_stmtE)
  case (ok a)
  obtain n d where u: "update_runs k c f (adv db) = (n, d)" by (cases "update_runs k c f (adv db)")
  then have "n = 0 \<or> \<not> P (adv db)" "d = db'" using ok by (auto split: if_splits)
  then have "gentle B X (adv db) db'"
    using gentle_update_runs[OF u, of X B] assms(2) by auto
  then show ?thesis using gentle_ev.io gentle_ev.trans by blast
qed (simp add: gentle_ev.io)

lemma gentle_status:
  assumes "run_update_status k (lit ''running'') db = (r, db')"
    and "\<And>r. (k, r) \<in> set (db_runs db) \<Longrightarrow> in_flight r"
  shows "gentle B X db db'"
  using assms(1) unfolding run_update_status_def
  by (rule gentle_runs_stmt) (use assms(2) in \<open>auto simp: calm_row_def in_flight_def\<close>)

lemma gentle_attach: "run_attach_session k s db = (r, db') \<Longrightarrow> gentle B X db db'"
  unfolding run_attach_session_def
  by (erule gentle_runs_stmt) (simp add: calm_row_def in_flight_def)

lemma finish_row_ended: "\<not> in_flight (finish_row f r)"
  by (simp add: in_flight_def finish_row_def)

lemma gentle_finish:
  assumes "run_finish k f db = (r, db')" and "k \<in> X"
  shows "gentle B X db db'"
  using assms(1) unfolding run_finish_def
proof (rule gentle_ev.then_do)
  fix a d
  assume "run_stmt (\<lambda>db. let (n, db') = update_runs k (\<lambda>r. rr_finished_at r = None) (finish_row f) db
         in if n > 0 \<and> rf_status f \<notin> set run_statuses then Inl CONSTRAINT else Inr (n, db')) db = (a, d)"
  then show "gentle B X db d"
    by (rule gentle_runs_stmt[where h = "\<lambda>n. n"]) (use assms(2) finish_row_ended in \<open>simp add: calm_row_def finish_row_def\<close>)
next
  fix n d
  assume "(if n > 0 then (Inr True, count_terminal (rf_status f) d)
     else then_do (run_get k d)
       (\<lambda>r db. (Inr (case r of None \<Rightarrow> False | Some row \<Rightarrow> same_finish f row), db))) = (r, db')"
  then show "gentle B X d db'"
    by (auto simp: count_terminal_def run_get_def split: if_splits
        intro!: gentle_frame elim!: gentle_ev.then_do dest!: read_same)
qed

lemma gentle_read: "run_stmt (\<lambda>d. Inr (g d, d)) db = (r, db') \<Longrightarrow> gentle B X db db'"
  by (drule read_same) (auto intro: gentle_frame)

lemma gentle_fetch: "run_fetch k db = (r, db') \<Longrightarrow> gentle B X db db'"
  unfolding run_fetch_def run_get_def
  by (erule gentle_ev.then_do) (auto intro: gentle_read gentle_frame)

lemma upd_crons_limits:
  assumes "update_crons k c f d = (n, d')" "\<And>r. cr_max_concurrent_runs (f r) = cr_max_concurrent_runs r"
  shows "same_limits d d'"
  unfolding same_limits_def
proof
  fix j
  have d': "db_crons d' = snd (sql_update k c (\<lambda>r. (f r)\<lparr> cr_updated_at := db_now d \<rparr>) (db_crons d))"
    using assms(1) by (auto simp: update_crons_def split: prod.splits)
  show "map_option cr_max_concurrent_runs (row_of d' j) = map_option cr_max_concurrent_runs (row_of d j)"
    unfolding d' sql_update_get by (cases "j = k"; cases "row_of d k") (simp_all add: assms(2))
qed

lemma gentle_upd_crons:
  assumes "run_stmt (\<lambda>db. let (n, db') = update_crons k c f db in Inr (h n, db')) db = (r, db')"
    and "\<And>r. cr_max_concurrent_runs (f r) = cr_max_concurrent_runs r"
  shows "gentle B X db db'"
  using assms(1)
proof (cases rule: run_stmtE)
  case (ok a)
  obtain n d where u: "update_crons k c f (adv db) = (n, d)" by (cases "update_crons k c f (adv db)")
  have "same_limits (adv db) d" by (rule upd_crons_limits[OF u assms(2)])
  then have "gentle B X (adv db) d" by (rule gentle_same[OF update_crons_frame(4)[OF u]])
  then have "gentle B X (adv db) db'" using ok u by simp
  then show ?thesis by (rule gentle_ev.trans[OF gentle_ev.io])
qed (simp add: gentle_ev.io)

lemma gentle_mark_fired: "mark_fired k l nf db = (r, db') \<Longrightarrow> gentle B X db db'"
  unfolding mark_fired_def by (erule gentle_upd_crons) simp

lemma gentle_reset: "reset_consecutive_failures k db = (r, db') \<Longrightarrow> gentle B X db db'"
  unfolding reset_consecutive_failures_def by (erule gentle_upd_crons) simp

lemma gentle_pause: "pause_for_failures k db = (r, db') \<Longrightarrow> gentle B X db db'"
  unfolding pause_for_failures_def by (erule gentle_upd_crons) simp

lemma gentle_set_enabled: "cron_set_enabled k en db = (r, db') \<Longrightarrow> gentle B X db db'"
  unfolding cron_set_enabled_def by (erule gentle_upd_crons) simp

lemma gentle_bump: "bump_consecutive_failures k db = (r, db') \<Longrightarrow> gentle B X db db'"
  unfolding bump_consecutive_failures_def
proof (erule gentle_ev.then_do)
  fix a d
  assume "run_stmt (\<lambda>db. Inr (update_crons k (\<lambda>_. True)
         (\<lambda>r. r\<lparr> cr_consecutive_failures := cr_consecutive_failures r + 1 \<rparr>) db)) db = (a, d)"
  then have "run_stmt (\<lambda>db. let (n, db') = update_crons k (\<lambda>_. True)
         (\<lambda>r. r\<lparr> cr_consecutive_failures := cr_consecutive_failures r + 1 \<rparr>) db in Inr (n, db')) db = (a, d)"
    by (simp add: split_beta)
  then show "gentle B X db d" by (rule gentle_upd_crons[where h = "\<lambda>n. n"]) simp
qed (auto intro: gentle_read)

lemma gentle_count_terminal: "gentle B X d (count_terminal st d)"
  by (rule gentle_frame) (simp_all add: count_terminal_def)

lemma gentle_insert:
  assumes "insert_run row d = Inr (u, d')" "\<not> in_flight row"
  shows "gentle B X d d'"
  by (rule gentleI[where F = "\<lambda>_ r. r" and added = "[(rr_id row, row)]"])
     (use assms insert_run_facts(3)[OF assms(1)] in \<open>auto intro: same_limits_crons\<close>)

lemma gentle_create_rejected: "run_create_rejected j db = (r, db') \<Longrightarrow> gentle B X db db'"
  unfolding run_create_rejected_def
proof (erule gentle_ev.then_do)
  fix a d
  let ?row = "\<lparr> rr_id = rj_id j, rr_cron_id = Some (rj_cron_id j), rr_session_id = None,
          rr_scheduled_at = rj_scheduled_at j, rr_started_at = None,
          rr_finished_at = Some (rj_scheduled_at j), rr_status = rj_status j, rr_exit_code = None,
          rr_coalesced_count = max (rj_coalesced_count j) 1, rr_cost_usd_est = None,
          rr_error_kind = Some (rj_error_kind j), rr_error_detail = Some (rj_error_detail j),
          rr_tail_log = None \<rparr>"
  assume "run_stmt (insert_run ?row) db = (a, d)"
  then show "gentle B X db d"
    by (rule gentle_ev.run_stmt) (auto intro: gentle_insert simp: in_flight_def)
next
  fix u d
  assume "run_fetch (rj_id j) (count_terminal (rj_status j) d) = (r, db')"
  then show "gentle B X d db'"
    using gentle_fetch gentle_count_terminal gentle_ev.trans by blast
qed

lemma gentle_cron_get: "cron_get k db = (r, db') \<Longrightarrow> gentle B X db db'"
  unfolding cron_get_def by (rule gentle_read)

lemma gentle_cron_upsert: "cron_upsert u db = (r, db') \<Longrightarrow> gentle False X db db'"
  unfolding cron_upsert_def
proof (erule gentle_ev.then_do)
  fix a d
  assume "run_stmt (\<lambda>db. let row = upsert_row (db_now db) u (map_of (db_crons db) (cu_id u)) in
         if cron_checks db row then Inr ((), db\<lparr> db_crons := AList.update (cu_id u) row (db_crons db) \<rparr>)
         else Inl CONSTRAINT) db = (a, d)"
  then show "gentle False X db d"
    by (rule gentle_ev.run_stmt) (auto simp: Let_def split: if_splits intro: gentle_same)
qed (auto elim!: gentle_ev.then_do intro: gentle_cron_get gentle_frame)

lemma gentle_delete: "cron_delete k db = (r, db') \<Longrightarrow> gentle False X db db'"
  unfolding cron_delete_def
proof (erule gentle_ev.run_stmt)
  fix d a and d' :: Db
  assume a: "(if map_of (db_crons d) k = None then Inr (False, d)
     else Inr (True, d\<lparr> db_crons := AList.delete k (db_crons d),
            db_runs := map (\<lambda>(i, r). (i, if rr_cron_id r = Some k then r\<lparr> rr_cron_id := None \<rparr> else r))
                         (db_runs d) \<rparr>)) = Inr (a, d')"
  show "gentle False X d d'"
  proof (cases "map_of (db_crons d) k = None")
    case False
    then show ?thesis
      by (intro gentleI[where F = "\<lambda>i r. if rr_cron_id r = Some k then r\<lparr> rr_cron_id := None \<rparr> else r" and added = "[]"])
         (use a in \<open>auto simp: calm_row_def in_flight_def\<close>)
  qed (use a in \<open>auto intro: gentle_frame\<close>)
qed

section \<open>The runs that are watched\<close>

definition runs_inv :: "(str \<Rightarrow> nat) \<Rightarrow> str list \<Rightarrow> Db \<Rightarrow> bool" where
  "runs_inv cap rids db \<longleftrightarrow> distinct rids
     \<and> (\<forall>i \<in> set rids. \<exists>r. map_of (db_runs db) i = Some r \<and> in_flight r)
     \<and> (\<forall>k. inflight_of k db \<le> cap k)"

lemma map_of_rows: "map_of (map (\<lambda>(i, r). (i, F i r)) rows @ added) i =
    (case map_of rows i of None \<Rightarrow> map_of added i | Some r \<Rightarrow> Some (F i r))"
  by (induction rows) (auto split: option.splits)

lemma gentle_row:
  assumes "gentle B X d d'" "map_of (db_runs d) i = Some r"
  obtains r' where "map_of (db_runs d') i = Some r'" "calm_row X i r r'"
  using assms(1)
proof (rule gentleE)
  fix F added
  assume "db_runs d' = map (\<lambda>(i, r). (i, F i r)) (db_runs d) @ added" "\<And>i r. calm_row X i r (F i r)"
  then show thesis using that[of "F i r"] by (simp only: map_of_rows assms(2) option.case)
qed

lemma length_filter_mono: "(\<And>x. Q x \<Longrightarrow> P x) \<Longrightarrow> length (filter Q xs) \<le> length (filter P xs)"
  by (induction xs) auto

lemma calm_row_in: "calm_row X i r r' \<Longrightarrow> rr_cron_id r' = Some k \<and> in_flight r' \<Longrightarrow> rr_cron_id r = Some k \<and> in_flight r"
  unfolding calm_row_def by (elim conjE disjE) simp_all

lemma gentle_inflight:
  assumes "gentle B X d d'"
  shows "inflight_of k d' \<le> inflight_of k d"
  using assms
proof (rule gentleE)
  fix F added
  let ?P = "\<lambda>(i, r). rr_cron_id r = Some k \<and> in_flight r"
  assume F: "db_runs d' = map (\<lambda>(i, r). (i, F i r)) (db_runs d) @ added" "\<And>i r. calm_row X i r (F i r)"
    "\<And>i r. (i, r) \<in> set added \<Longrightarrow> \<not> in_flight r"
  have step: "?P (i, F i r) \<Longrightarrow> ?P (i, r)" for i r
    unfolding prod.case by (rule calm_row_in[OF F(2)])
  have "length (filter ?P (map (\<lambda>(i, r). (i, F i r)) (db_runs d))) \<le> length (filter ?P (db_runs d))"
    unfolding filter_map length_map
  proof (rule length_filter_mono)
    fix x assume "(?P \<circ> (\<lambda>(i, r). (i, F i r))) x"
    then show "?P x" using step[of "fst x" "snd x"] by (simp only: comp_def split_beta fst_conv snd_conv)
  qed
  moreover have "filter ?P added = []" using F(3) by (auto simp: filter_empty_conv)
  ultimately show ?thesis by (simp add: inflight_of_def F(1))
qed

lemma runs_inv_gentle:
  assumes "runs_inv cap rids d" "gentle B X d d'" "set rids \<inter> X = {}"
  shows "runs_inv cap rids d'"
proof -
  have "\<exists>r. map_of (db_runs d') i = Some r \<and> in_flight r" if i: "i \<in> set rids" for i
  proof -
    obtain r where r: "map_of (db_runs d) i = Some r" "in_flight r"
      using assms(1) i by (auto simp: runs_inv_def)
    obtain r' where "map_of (db_runs d') i = Some r'" "calm_row X i r r'"
      by (rule gentle_row[OF assms(2) r(1)])
    then show ?thesis using r(2) i assms(3) by (auto simp: calm_row_def)
  qed
  moreover have "inflight_of k d' \<le> cap k" for k
    using assms(1) le_trans[OF gentle_inflight[OF assms(2), of k]] by (simp add: runs_inv_def)
  ultimately show ?thesis using assms(1) by (simp add: runs_inv_def)
qed

lemma runs_inv_subset:
  "runs_inv cap rids d \<Longrightarrow> set rids' \<subseteq> set rids \<Longrightarrow> distinct rids' \<Longrightarrow> runs_inv cap rids' d"
  by (auto simp: runs_inv_def)

text \<open>A run was created, or nothing happened.\<close>

definition opened :: "str \<Rightarrow> str \<Rightarrow> Db \<Rightarrow> Db \<Rightarrow> bool" where
  "opened rid k d d' \<longleftrightarrow> (\<exists>row. map_of (db_runs d) rid = None \<and> db_runs d' = db_runs d @ [(rid, row)]
     \<and> in_flight row \<and> rr_cron_id row = Some k \<and> db_crons d' = db_crons d)"

lemma opened_inv:
  assumes "runs_inv cap rids d" "opened rid k d d'" "inflight_of k d < cap k"
  shows "runs_inv cap (rid # rids) d'"
proof -
  obtain row where row: "map_of (db_runs d) rid = None" "db_runs d' = db_runs d @ [(rid, row)]"
    "in_flight row" "rr_cron_id row = Some k"
    using assms(2) by (auto simp: opened_def)
  have "rid \<notin> set rids" using assms(1) row(1) by (auto simp: runs_inv_def)
  moreover have "inflight_of j d' \<le> cap j" for j
    using assms(1,3) row by (auto simp: inflight_of_def runs_inv_def split: if_splits)
  ultimately show ?thesis
    using assms(1) row by (auto simp: runs_inv_def map_add_Some_iff)
qed

lemma fetch_adv:
  assumes "run_fetch k d = (r, d')"
  shows "d' = adv d"
proof -
  obtain x d1 where g: "run_get k d = (x, d1)" by (cases "run_get k d")
  then have "d1 = adv d" unfolding run_get_def by (auto dest: read_same)
  then show ?thesis using assms g by (cases x) (simp_all add: run_fetch_def)
qed

lemma run_create_opened:
  assumes "run_create n db = (r, d)" "nr_cron_id n = Some k" "nr_status n = lit ''spawning''"
  shows "gentle B {} db d \<and> isl r \<or> opened (nr_id n) k db d"
proof -
  let ?row = "\<lparr> rr_id = nr_id n, rr_cron_id = nr_cron_id n, rr_session_id = nr_session_id n,
          rr_scheduled_at = nr_scheduled_at n, rr_started_at = nr_started_at n,
          rr_finished_at = None, rr_status = nr_status n, rr_exit_code = None,
          rr_coalesced_count = nr_coalesced_count n, rr_cost_usd_est = None,
          rr_error_kind = None, rr_error_detail = None, rr_tail_log = None \<rparr>"
  obtain r1 d1 where s: "run_stmt (insert_run ?row) db = (r1, d1)" by (cases "run_stmt (insert_run ?row) db")
  then show ?thesis
  proof (cases rule: run_stmtE)
    case (fail e)
    then have "r = Inl e" "d = adv db" using assms(1) s by (auto simp: run_create_def)
    then show ?thesis by (simp add: gentle_ev.io)
  next
    case (ok u)
    then have "run_fetch (nr_id n) d1 = (r, d)" using assms(1) s by (simp add: run_create_def)
    then have "d = adv d1" by (rule fetch_adv)
    then have "db_runs d = db_runs d1 \<and> db_crons d = db_crons d1" by simp
    then show ?thesis
      using insert_run_facts[OF ok(2)] assms(2,3) by (auto simp: opened_def in_flight_def)
  qed
qed

definition live_runs :: "str \<Rightarrow> Exec \<Rightarrow> nat" where
  "live_runs k ex = length (filter (\<lambda>wt. case map_of (db_runs (ex_db ex)) (wt_run_id wt) of
       Some r \<Rightarrow> rr_cron_id r = Some k | None \<Rightarrow> False) (ex_watchers ex))"

lemma live_le_inflight:
  assumes "runs_inv cap (map wt_run_id (ex_watchers ex)) (ex_db ex)"
  shows "live_runs k ex \<le> inflight_of k (ex_db ex)"
proof -
  let ?rows = "db_runs (ex_db ex)"
  let ?L = "filter (\<lambda>wt. case map_of ?rows (wt_run_id wt) of
       Some r \<Rightarrow> rr_cron_id r = Some k | None \<Rightarrow> False) (ex_watchers ex)"
  let ?R = "filter (\<lambda>(_, r). rr_cron_id r = Some k \<and> in_flight r) ?rows"
  have d: "distinct (map wt_run_id ?L)"
    using assms by (simp add: runs_inv_def distinct_map_filter)
  have "set (map wt_run_id ?L) \<subseteq> set (map fst ?R)"
  proof
    fix i assume "i \<in> set (map wt_run_id ?L)"
    then obtain wt r where wt: "wt \<in> set (ex_watchers ex)" "i = wt_run_id wt"
      "map_of ?rows i = Some r" "rr_cron_id r = Some k"
      by (auto split: option.splits)
    have "in_flight r" using assms wt by (force simp: runs_inv_def)
    then have "(i, r) \<in> set ?R" using map_of_SomeD[OF wt(3)] wt(4) by simp
    then show "i \<in> set (map fst ?R)" by (force intro: image_eqI[where x = "(i, r)"])
  qed
  then have "card (set (map wt_run_id ?L)) \<le> length (map fst ?R)"
    by (meson card_length card_mono finite_set le_trans)
  then show ?thesis using distinct_card[OF d] by (simp add: live_runs_def inflight_of_def)
qed

text \<open>A change of the database that ends only the runs of \<open>X\<close>.\<close>

definition good :: "str set \<Rightarrow> Db \<Rightarrow> Db \<Rightarrow> bool" where
  "good X d d' \<longleftrightarrow> gentle True X d d' \<and> (db_ok d \<longrightarrow> db_ok d')"

interpretation good_ev: db_evolution "good X" for X
  by unfold_locales (auto simp: good_def intro: gentle_ev.refl gentle_ev.trans gentle_ev.io)

lemma good_mono: "good X d d' \<Longrightarrow> X \<subseteq> Y \<Longrightarrow> good Y d d'"
  by (auto simp: good_def intro: gentle_mono)

lemma good_ops:
  "run_stmt (\<lambda>d. Inr (g d, d)) db = (r0, db') \<Longrightarrow> good X db db'"
  "mark_fired k l nf db = (r1, db') \<Longrightarrow> good X db db'"
  "reset_consecutive_failures k db = (r1, db') \<Longrightarrow> good X db db'"
  "pause_for_failures k db = (r1, db') \<Longrightarrow> good X db db'"
  "bump_consecutive_failures k db = (r2, db') \<Longrightarrow> good X db db'"
  "run_attach_session k s db = (r1, db') \<Longrightarrow> good X db db'"
  "run_create_rejected j db = (r3, db') \<Longrightarrow> good X db db'"
  "run_finish k f db = (r1, db') \<Longrightarrow> k \<in> X \<Longrightarrow> good X db db'"
  unfolding good_def
  by (auto intro: gentle_read gentle_mark_fired gentle_reset gentle_pause gentle_bump gentle_attach
      gentle_create_rejected gentle_finish read_ok mark_fired_ok reset_ok pause_ok
      bump_ok attach_ok create_rejected_ok finish_ok)

lemma count_rows_facts:
  "count_rows P db = (r, db') \<Longrightarrow> db' = adv db \<and> (\<forall>n. r = Inr n \<longrightarrow> n = length (filter (\<lambda>(_, r). P r) (db_runs db)))"
  unfolding count_rows_def by (drule read_same) simp

lemma build_snapshot_facts:
  assumes "build_snapshot env w cron now g db = Some (r, db')"
  shows "good X db db'" "db_runs db' = db_runs db" "db_crons db' = db_crons db"
    and "r = Inr snap \<Longrightarrow> running_for_cron snap = as_u32 (int (inflight_of (cr_id cron) db))
      \<and> running_global snap = g \<and> now_at snap = now
      \<and> (\<exists>since. checked_add (en_chrono env) now (- DAY) = Some since
          \<and> window_runs_today snap = as_u32 (int (length (filter (\<lambda>(_, x). in_window (cr_id cron) (en_format_lex env since) x)
              (db_runs db)))))"
proof -
  obtain since where since: "checked_add (en_chrono env) now (- DAY) = Some since"
    using assms by (auto simp: build_snapshot_def)
  define k where "k = cr_id cron"
  define s where "s = en_format_lex env since"
  obtain r1 d1 where a1: "count_running_for_cron k db = (r1, d1)" by fastforce
  obtain r2 d2 where a2: "count_since_for_cron k s d1 = (r2, d2)" by fastforce
  obtain r3 d3 where a3: "sum_cost_since_for_cron k s d2 = (r3, d3)" by fastforce
  obtain r4 d4 where a4: "last_terminal_failure_at_for_cron k d3 = (r4, d4)" by fastforce
  note f1 = count_rows_facts[OF a1[unfolded count_running_for_cron_def]]
    and f2 = count_rows_facts[OF a2[unfolded count_since_for_cron_def]]
    and f3 = read_same[OF a3[unfolded sum_cost_since_for_cron_def]]
    and f4 = read_same[OF a4[unfolded last_terminal_failure_at_for_cron_def]]
  have g: "good X db d1" "good X db d2" "good X db d3" "good X db d4"
    using f1 f2 f3 f4 good_ev.io good_ev.trans by metis+
  have out: "(r, db') = then_do (r1, d1) (\<lambda>running db. then_do (count_since_for_cron k s db) (\<lambda>runs db.
       then_do (sum_cost_since_for_cron k s db) (\<lambda>cost db.
       then_do (last_terminal_failure_at_for_cron k db) (\<lambda>lf db.
         (Inr \<lparr> running_for_cron = as_u32 (int running), running_global = g,
                window_runs_today = as_u32 (int runs), window_cost_today = cost,
                current_loadavg_1m = w_loadavg w, now_at = now,
                last_terminal_failure_at = Option.bind lf (en_parse_lex env) \<rparr>, db)))))"
    using assms by (simp add: build_snapshot_def since Let_def k_def[symmetric] s_def[symmetric] a1)
  have db': "db' = d1 \<or> db' = d2 \<or> db' = d3 \<or> db' = d4"
    using out by (cases r1; cases r2; cases r3; cases r4) (simp_all add: a2 a3 a4)
  then show "good X db db'" using g by blast
  show "db_runs db' = db_runs db" "db_crons db' = db_crons db" using db' f1 f2 f3 f4 by auto
  assume "r = Inr snap"
  then have "\<exists>n1 n2. r1 = Inr n1 \<and> r2 = Inr n2 \<and> running_for_cron snap = as_u32 (int n1)
      \<and> running_global snap = g \<and> now_at snap = now \<and> window_runs_today snap = as_u32 (int n2)"
    using out by (cases r1; cases r2; cases r3; cases r4) (auto simp: a2 a3 a4)
  then show "running_for_cron snap = as_u32 (int (inflight_of (cr_id cron) db))
      \<and> running_global snap = g \<and> now_at snap = now
      \<and> (\<exists>since. checked_add (en_chrono env) now (- DAY) = Some since
          \<and> window_runs_today snap = as_u32 (int (length (filter (\<lambda>(_, x). in_window (cr_id cron) (en_format_lex env since) x)
              (db_runs db)))))"
    using f1 f2 since by (auto simp: inflight_of_def k_def s_def)
qed

lemma cron_to_quota_fields:
  "cron_to_quota cron = Some q \<Longrightarrow>
    max_concurrent_runs q = as_u32 (max (cr_max_concurrent_runs cron) 0)
    \<and> max_runs_per_day q = as_u32 (max (cr_max_runs_per_day cron) 0)
    \<and> enabled q = (cr_enabled cron \<noteq> 0) \<and> max_runtime_s q = as_u32 (max (cr_max_runtime_s cron) 0)"
  by (auto simp: cron_to_quota_def)

lemma admit_bounds:
  assumes "evaluate_admission ch q g s = Admit"
  shows "enabled q" "global_max_concurrent_runs g > 0 \<Longrightarrow> running_global s < global_max_concurrent_runs g"
    "running_for_cron s < max_concurrent_runs q" "window_runs_today s < max_runs_per_day q"
  using assms by (auto simp: evaluate_admission_def split: if_splits)

lemma decide_fire_facts:
  assumes "decide_fire env g w cron now ex = Some (r, ex')"
  shows "\<exists>db. ex' = ex\<lparr> ex_db := db \<rparr> \<and> good X (ex_db ex) db \<and> db_runs db = db_runs (ex_db ex)
      \<and> db_crons db = db_crons (ex_db ex)"
    and "r = Inr d \<Longrightarrow> \<exists>q snap. cron_to_quota cron = Some q
      \<and> d = evaluate_admission (en_chrono env) q g snap
      \<and> running_for_cron snap = as_u32 (int (inflight_of (cr_id cron) (ex_db ex)))
      \<and> running_global snap = ex_running_global ex \<and> now_at snap = now
      \<and> (\<exists>since. checked_add (en_chrono env) now (- DAY) = Some since
          \<and> window_runs_today snap = as_u32 (int (length (filter (\<lambda>(_, x). in_window (cr_id cron) (en_format_lex env since) x)
              (db_runs (ex_db ex))))))"
proof -
  obtain sr db where s: "build_snapshot env w cron now (ex_running_global ex) (ex_db ex) = Some (sr, db)"
    using assms by (cases "build_snapshot env w cron now (ex_running_global ex) (ex_db ex)") (auto simp: decide_fire_def)
  have ex': "ex' = ex\<lparr> ex_db := db \<rparr>" using assms s by (auto simp: decide_fire_def split: sum.splits)
  show "\<exists>db. ex' = ex\<lparr> ex_db := db \<rparr> \<and> good X (ex_db ex) db \<and> db_runs db = db_runs (ex_db ex)
      \<and> db_crons db = db_crons (ex_db ex)"
    using ex' build_snapshot_facts(1-3)[OF s] by blast
  assume "r = Inr d"
  then obtain q snap where "sr = Inr snap" "cron_to_quota cron = Some q"
      "d = evaluate_admission (en_chrono env) q g snap"
    using assms s by (auto simp: decide_fire_def split: sum.splits)
  then show "\<exists>q snap. cron_to_quota cron = Some q
      \<and> d = evaluate_admission (en_chrono env) q g snap
      \<and> running_for_cron snap = as_u32 (int (inflight_of (cr_id cron) (ex_db ex)))
      \<and> running_global snap = ex_running_global ex \<and> now_at snap = now
      \<and> (\<exists>since. checked_add (en_chrono env) now (- DAY) = Some since
          \<and> window_runs_today snap = as_u32 (int (length (filter (\<lambda>(_, x). in_window (cr_id cron) (en_format_lex env since) x)
              (db_runs (ex_db ex))))))"
    using build_snapshot_facts(4)[OF s] by blast
qed

section \<open>What a fire does\<close>

lemma good_frame:
  "db_runs d' = db_runs d \<Longrightarrow> db_crons d' = db_crons d \<Longrightarrow> (db_ok d \<Longrightarrow> db_ok d') \<Longrightarrow> good X d d'"
  by (simp add: good_def gentle_frame)

lemma session_row_good: "good X db (session_row r db)"
proof (rule good_frame)
  show "db_ok db \<Longrightarrow> db_ok (session_row r db)"
    by (auto simp: session_row_def split: SpawnResult.splits option.splits intro: db_step_ok[OF step_session])
qed (auto simp: session_row_def split: SpawnResult.splits option.splits)

lemma finish_error_good: "rid \<in> X \<Longrightarrow> good X db (finish_run_with_error env w rid st ek ed db)"
  unfolding finish_run_with_error_def by (metis good_ops(8) prod.collapse)

lemma in_flight_row:
  assumes "db_ok d" "opened rid k d0 d1" "good {} d1 d" "(rid, r) \<in> set (db_runs d)"
  shows "in_flight r"
proof -
  obtain row where row: "map_of (db_runs d1) rid = Some row" "in_flight row"
    using assms(2) by (auto simp: opened_def map_add_Some_iff)
  obtain r' where "map_of (db_runs d) rid = Some r'" "calm_row {} rid row r'"
    using assms(3) gentle_row[OF _ row(1)] unfolding good_def by metis
  moreover have "map_of (db_runs d) rid = Some r"
    using assms(1,4) by (simp add: db_ok_def db_core_def runs_wf_def)
  ultimately show ?thesis using row(2) by (simp add: calm_row_def)
qed

text \<open>The run was created, and then at most ended.\<close>

definition created :: "str set \<Rightarrow> str \<Rightarrow> str \<Rightarrow> Db \<Rightarrow> Db \<Rightarrow> bool" where
  "created X rid k d d' \<longleftrightarrow> (\<exists>d1. opened rid k d d1 \<and> db_ok d1 \<and> good X d1 d')"

lemma spawned_run_facts:
  assumes "spawned_run env cron fire rid sid tr ex = Some ex'"
    and "created {} rid k d (ex_db ex)"
  shows "\<exists>db wt. ex' = ex\<lparr> ex_db := db,
           ex_fired := ex_fired ex @ [\<lparr> cf_cron_id = cr_id cron, cf_run_id = rid,
              cf_fired_at = en_rfc3339 env (fe_fired_at fire), cf_status = lit ''running'' \<rparr>],
           ex_watchers := ex_watchers ex @ [wt] \<rparr>
    \<and> new_watcher cron rid sid tr = Some wt \<and> created {} rid k d db"
proof -
  obtain r1 d1 where a: "run_attach_session rid sid (ex_db ex) = (r1, d1)" by fastforce
  obtain r2 d2 where u: "run_update_status rid (lit ''running'') d1 = (r2, d2)" by fastforce
  obtain d0 where d0: "opened rid k d d0" "db_ok d0" "good {} d0 (ex_db ex)"
    using assms(2) by (auto simp: created_def)
  have g1: "good {} d0 d1" using good_ev.trans[OF d0(3) good_ops(6)[OF a]] .
  then have "db_ok d1" using d0(2) by (simp add: good_def)
  then have "good {} d1 d2"
    unfolding good_def using gentle_status[OF u] in_flight_row[OF _ d0(1) g1] update_status_ok[OF u] by blast
  then have "created {} rid k d d2"
    using d0(1,2) good_ev.trans[OF g1] by (auto simp: created_def)
  then show ?thesis using assms(1) by (auto simp: spawned_run_def Let_def a u)
qed

lemma admit_facts:
  assumes adm: "admit_and_spawn_with_id env w cron fire tr ex = Some (r, ex')" and ok: "db_ok (ex_db ex)"
  defines "rid \<equiv> w_new_id w" and "k \<equiv> cr_id cron"
  shows "(\<exists>e db. r = Inl e \<and> ex' = decrement_global_and_cron k (reserve_slot k ex\<lparr> ex_db := db \<rparr>)
        \<and> (good {} (ex_db ex) db \<or> created {rid} rid k (ex_db ex) db))
    \<or> (\<exists>db wt sid. r = Inr rid \<and> ex' = reserve_slot k ex\<lparr> ex_db := db,
           ex_fired := ex_fired ex @ [\<lparr> cf_cron_id = k, cf_run_id = rid,
              cf_fired_at = en_rfc3339 env (fe_fired_at fire), cf_status = lit ''running'' \<rparr>],
           ex_watchers := ex_watchers ex @ [wt] \<rparr>
        \<and> new_watcher cron rid sid tr = Some wt \<and> created {} rid k (ex_db ex) db)"
proof -
  let ?n = "\<lparr> nr_id = w_new_id w, nr_cron_id = Some (cr_id cron), nr_session_id = None,
              nr_scheduled_at = en_format_lex env (fe_scheduled_at fire),
              nr_started_at = Some (en_format_lex env (fe_fired_at fire)),
              nr_status = lit ''spawning'', nr_coalesced_count = int (max (fe_coalesced_count fire) 1) \<rparr>"
  have keep: "ex_db (reserve_slot k ex) = ex_db ex" "ex_fired (reserve_slot k ex) = ex_fired ex"
    "ex_watchers (reserve_slot k ex) = ex_watchers ex" by (simp_all add: reserve_slot_def)
  obtain cr d1 where c: "run_create ?n (ex_db ex) = (cr, d1)" by fastforce
  have d1ok: "db_ok d1" by (rule create_ok[OF c ok])
  have op: "good {} (ex_db ex) d1 \<and> isl cr \<or> opened rid k (ex_db ex) d1"
    using run_create_opened[OF c] d1ok by (auto simp: good_def rid_def k_def)
  have cre: "created X rid k (ex_db ex) d'" if "opened rid k (ex_db ex) d1" "good X d1 d'" for X d'
    using that d1ok by (auto simp: created_def)
  have fin: "good {rid} d1 (finish_run_with_error env w rid st ek ed d')" if "good {} d1 d'" for st ek ed d'
    by (rule good_ev.trans[OF good_mono[OF that] finish_error_good]) simp_all
  show ?thesis
  proof (cases cr)
    case (Inl e)
    then have "r = Inl (AeStorage e)" "ex' = decrement_global_and_cron k (reserve_slot k ex\<lparr> ex_db := d1 \<rparr>)"
      using adm c by (simp_all add: admit_and_spawn_with_id_def Let_def keep(1) k_def[symmetric])
    then show ?thesis using op cre[of "{rid}" d1] good_ev.refl by auto
  next
    case (Inr x)
    then have o: "opened rid k (ex_db ex) d1" using op by simp
    show ?thesis
    proof (cases "w_registered w (cr_backend_id cron)")
      case False
      then show ?thesis using adm c Inr cre[OF o fin[OF good_ev.refl]]
        by (auto simp: admit_and_spawn_with_id_def Let_def keep(1) k_def[symmetric] rid_def[symmetric])
    next
      case True
      obtain pr d2 where p: "project_root (cr_project_id cron) d1 = (pr, d2)" by fastforce
      have g2: "good {} d1 d2" using p unfolding project_root_def by (rule good_ops(1))
      note unf = admit_and_spawn_with_id_def Let_def keep(1) k_def[symmetric] rid_def[symmetric]
      consider (dir) dir where "pr = Inr (Some dir)" | (bad) "pr = Inr None \<or> isl pr"
        by (cases pr; cases "projr pr") auto
      then show ?thesis
      proof cases
        case bad
        then show ?thesis
          using adm c Inr True p cre[OF o fin[OF g2]] by (auto simp: unf split: sum.splits)
      next
        case (dir dir)
        let ?sr = "w_spawn w (cr_backend_id cron) (cr_project_id cron) (cron_request w cron dir)"
        have g3: "good {} d1 (session_row ?sr d2)" by (rule good_ev.trans[OF g2 session_row_good])
        show ?thesis
        proof (cases ?sr)
          case (SpawnFailed msg row)
          then show ?thesis
            using adm c Inr True p dir cre[OF o fin[OF g3]] by (auto simp: unf)
        next
          case (Spawned sid)
          let ?ex1 = "reserve_slot k ex\<lparr> ex_db := session_row (Spawned sid) d2 \<rparr>"
          have "created {} rid k (ex_db ex) (ex_db ?ex1)" using cre[OF o g3] Spawned by simp
          moreover have "spawned_run env cron fire rid sid tr ?ex1 = Some ex' \<and> r = Inr rid"
            using adm c Inr True p dir Spawned by (auto simp: unf)
          ultimately show ?thesis
            using spawned_run_facts[of env cron fire rid sid tr ?ex1 ex' k "ex_db ex"] by (auto simp: keep k_def[symmetric])
        qed
      qed
    qed
  qed
qed

section \<open>The invariant of the executor\<close>

text \<open>\<open>cap k\<close> bounds every \<open>max_concurrent_runs\<close> the cron \<open>k\<close> has had.\<close>

definition within_caps :: "(str \<Rightarrow> nat) \<Rightarrow> Db \<Rightarrow> bool" where
  "within_caps cap db \<longleftrightarrow> (\<forall>k c. row_of db k = Some c \<longrightarrow> cr_max_concurrent_runs c \<le> int (cap k))"

definition caps_ok :: "GlobalQuota \<Rightarrow> (str \<Rightarrow> nat) \<Rightarrow> bool" where
  "caps_ok g cap \<longleftrightarrow> 0 < global_max_concurrent_runs g \<and> global_max_concurrent_runs g \<le> u32_max
     \<and> (\<forall>k. cap k \<le> u32_max)"

abbreviation watched_crons :: "Exec \<Rightarrow> str list" where
  "watched_crons ex \<equiv> map (\<lambda>wt. cr_id (wt_cron wt)) (ex_watchers ex)"

definition exec_inv :: "GlobalQuota \<Rightarrow> (str \<Rightarrow> nat) \<Rightarrow> Exec \<Rightarrow> bool" where
  "exec_inv g cap ex \<longleftrightarrow> db_ok (ex_db ex) \<and> within_caps cap (ex_db ex)
     \<and> runs_inv cap (map wt_run_id (ex_watchers ex)) (ex_db ex)
     \<and> counts (ex_running_per_cron ex) (watched_crons ex)
     \<and> ex_running_global ex = length (ex_watchers ex)
     \<and> length (ex_watchers ex) \<le> global_max_concurrent_runs g"

lemma exec_invD:
  assumes "exec_inv g cap ex"
  shows "db_ok (ex_db ex)" "within_caps cap (ex_db ex)" "runs_inv cap (map wt_run_id (ex_watchers ex)) (ex_db ex)"
    "counts (ex_running_per_cron ex) (watched_crons ex)" "ex_running_global ex = length (ex_watchers ex)"
    "length (ex_watchers ex) \<le> global_max_concurrent_runs g"
  using assms by (auto simp: exec_inv_def)

lemma within_same:
  assumes "within_caps cap d" "same_limits d d'"
  shows "within_caps cap d'"
  unfolding within_caps_def
proof (intro allI impI)
  fix k c' assume c': "row_of d' k = Some c'"
  then obtain c where "row_of d k = Some c" "cr_max_concurrent_runs c' = cr_max_concurrent_runs c"
    using assms(2)[unfolded same_limits_def, rule_format, of k] by (cases "row_of d k") auto
  then show "cr_max_concurrent_runs c' \<le> int (cap k)" using assms(1) by (simp add: within_caps_def)
qed

lemma good_within: "good X d d' \<Longrightarrow> within_caps cap d \<Longrightarrow> within_caps cap d'"
  unfolding good_def gentle_def using within_same by blast

lemma exec_inv_good:
  assumes "exec_inv g cap ex" "good X (ex_db ex) (ex_db ex')" "wt_run_id ` set (ex_watchers ex) \<inter> X = {}"
    and "ex_watchers ex' = ex_watchers ex" "ex_running_global ex' = ex_running_global ex"
      "ex_running_per_cron ex' = ex_running_per_cron ex"
  shows "exec_inv g cap ex'"
proof -
  note inv = exec_invD[OF assms(1)]
  have "runs_inv cap (map wt_run_id (ex_watchers ex)) (ex_db ex')"
    by (rule runs_inv_gentle[OF inv(3), of True X]) (use assms(2,3) in \<open>auto simp: good_def\<close>)
  then show ?thesis
    using inv good_within[OF assms(2) inv(2)] assms(2,4-6) by (simp add: exec_inv_def good_def)
qed

lemma as_u32_small: "n \<le> u32_max \<Longrightarrow> as_u32 (int n) = n"
  by (simp add: as_u32_def u32_max_def)

lemma as_u32_le: "0 \<le> x \<Longrightarrow> int (as_u32 x) \<le> x"
  by (simp add: as_u32_def zmod_le_nonneg_dividend)

text \<open>What the gate has checked when it admits.\<close>

lemma admitted_bounds:
  assumes inv: "exec_inv g cap ex" and caps: "caps_ok g cap"
    and cron: "row_of (ex_db ex) k = Some cron"
    and d: "decide_fire env g w cron now ex = Some (Inr Admit, ex')"
  shows "cr_enabled cron \<noteq> 0" "int (inflight_of k (ex_db ex)) < cr_max_concurrent_runs cron"
    "inflight_of k (ex_db ex) < cap k" "length (ex_watchers ex) < global_max_concurrent_runs g"
    "\<exists>since. checked_add (en_chrono env) now (- DAY) = Some since
      \<and> as_u32 (int (length (filter (\<lambda>(_, x). in_window k (en_format_lex env since) x) (db_runs (ex_db ex)))))
        < as_u32 (max (cr_max_runs_per_day cron) 0)"
proof -
  have k: "cr_id cron = k" using exec_invD(1)[OF inv] cron db_coreD(3) by (auto simp: db_ok_def)
  obtain q snap where q: "cron_to_quota cron = Some q" "Admit = evaluate_admission (en_chrono env) q g snap"
    "running_for_cron snap = as_u32 (int (inflight_of k (ex_db ex)))"
    "running_global snap = ex_running_global ex"
    and since: "\<exists>since. checked_add (en_chrono env) now (- DAY) = Some since
          \<and> window_runs_today snap = as_u32 (int (length (filter (\<lambda>(_, x). in_window k (en_format_lex env since) x)
              (db_runs (ex_db ex)))))"
    using decide_fire_facts(2)[OF d refl] unfolding k by blast
  note f = cron_to_quota_fields[OF q(1)] and b = admit_bounds[OF q(2)[symmetric]]
  show "cr_enabled cron \<noteq> 0" using b(1) f by simp
  have le: "inflight_of k (ex_db ex) \<le> cap k" using exec_invD(3)[OF inv] by (simp add: runs_inv_def)
  then have "inflight_of k (ex_db ex) < as_u32 (max (cr_max_concurrent_runs cron) 0)"
    using b(3) f q(3) caps as_u32_small[of "inflight_of k (ex_db ex)"]
    by (simp add: caps_ok_def) (metis le_trans)
  then show lt: "int (inflight_of k (ex_db ex)) < cr_max_concurrent_runs cron"
    using as_u32_le[of "max (cr_max_concurrent_runs cron) 0"] by linarith
  then show "inflight_of k (ex_db ex) < cap k"
    using exec_invD(2)[OF inv] cron unfolding within_caps_def by force
  show "length (ex_watchers ex) < global_max_concurrent_runs g"
    using b(2) q(4) exec_invD(5)[OF inv] caps by (simp add: caps_ok_def)
  show "\<exists>since. checked_add (en_chrono env) now (- DAY) = Some since
      \<and> as_u32 (int (length (filter (\<lambda>(_, x). in_window k (en_format_lex env since) x) (db_runs (ex_db ex)))))
        < as_u32 (max (cr_max_runs_per_day cron) 0)"
    using since b(4) f by auto
qed

lemma exec_inv_release:
  assumes inv: "exec_inv g cap ex" and caps: "caps_ok g cap"
    and room: "length (ex_watchers ex) < global_max_concurrent_runs g"
    and db: "exec_inv g cap (ex\<lparr> ex_db := db \<rparr>)"
  shows "exec_inv g cap (decrement_global_and_cron k (reserve_slot k ex\<lparr> ex_db := db \<rparr>))"
proof -
  have lt: "length (watched_crons ex) < u32_max" using room caps by (simp add: caps_ok_def)
  have "counts (decrement_for_cron k (bump_running_for_cron k (ex_running_per_cron ex))) (watched_crons ex)"
    using counts_decrement[OF counts_bump[OF exec_invD(4)[OF inv] lt], of k k] by simp
  moreover have "sat_add u32_max (ex_running_global ex) 1 - 1 = length (ex_watchers ex)"
    using exec_invD(5)[OF inv] lt by (simp add: sat_add_def)
  ultimately show ?thesis
    using exec_invD[OF db] exec_invD(5)[OF inv]
    by (simp add: exec_inv_def decrement_global_and_cron_def decrement_global_def reserve_slot_def)
qed

lemma exec_inv_spawn:
  assumes inv: "exec_inv g cap ex" and caps: "caps_ok g cap"
    and room: "length (ex_watchers ex) < global_max_concurrent_runs g" "inflight_of k (ex_db ex) < cap k"
    and cre: "created {} rid k (ex_db ex) db" and wt: "wt_run_id wt = rid" "cr_id (wt_cron wt) = k"
  shows "exec_inv g cap (reserve_slot k ex\<lparr> ex_db := db, ex_fired := x, ex_watchers := ex_watchers ex @ [wt] \<rparr>)"
proof -
  have lt: "length (watched_crons ex) < u32_max" using room caps by (simp add: caps_ok_def)
  obtain d1 where d1: "opened rid k (ex_db ex) d1" "db_ok d1" "good {} d1 db"
    using cre by (auto simp: created_def)
  have "runs_inv cap (rid # map wt_run_id (ex_watchers ex)) d1"
    by (rule opened_inv[OF exec_invD(3)[OF inv] d1(1) room(2)])
  then have "runs_inv cap (rid # map wt_run_id (ex_watchers ex)) db"
    by (rule runs_inv_gentle) (use d1(3) in \<open>auto simp: good_def\<close>)
  then have r: "runs_inv cap (map wt_run_id (ex_watchers ex @ [wt])) db"
    by (rule runs_inv_subset) (use \<open>runs_inv cap (rid # map wt_run_id (ex_watchers ex)) db\<close> wt(1) in
        \<open>auto simp: runs_inv_def\<close>)
  have "within_caps cap d1" using exec_invD(2)[OF inv] d1(1) by (auto simp: within_caps_def opened_def)
  then have "within_caps cap db" by (rule good_within[OF d1(3)])
  moreover have "counts (bump_running_for_cron k (ex_running_per_cron ex)) (watched_crons ex @ [k])"
    using counts_bump[OF exec_invD(4)[OF inv] lt, of k]
    by (subst counts_cong[where ks' = "k # watched_crons ex"]) simp_all
  ultimately show ?thesis
    using r d1(2,3) wt(2) exec_invD(5)[OF inv] room(1) lt
    by (simp add: exec_inv_def good_def reserve_slot_def sat_add_def)
qed

lemma exec_inv_admit:
  assumes inv: "exec_inv g cap ex" and caps: "caps_ok g cap"
    and room: "length (ex_watchers ex) < global_max_concurrent_runs g"
      "inflight_of (cr_id cron) (ex_db ex) < cap (cr_id cron)"
    and adm: "admit_and_spawn_with_id env w cron fire tr ex = Some (r, ex')"
  shows "exec_inv g cap ex'"
proof -
  let ?k = "cr_id cron" and ?rid = "w_new_id w"
  have ok: "db_ok (ex_db ex)" by (rule exec_invD(1)[OF inv])
  from admit_facts[OF adm ok] consider
    (refused) db where "ex' = decrement_global_and_cron ?k (reserve_slot ?k ex\<lparr> ex_db := db \<rparr>)"
      "good {} (ex_db ex) db \<or> created {?rid} ?rid ?k (ex_db ex) db"
  | (spawned) db wt sid x where "ex' = reserve_slot ?k ex\<lparr> ex_db := db, ex_fired := x,
           ex_watchers := ex_watchers ex @ [wt] \<rparr>"
      "new_watcher cron ?rid sid tr = Some wt" "created {} ?rid ?k (ex_db ex) db"
    by auto
  then show ?thesis
  proof cases
    case refused
    have "exec_inv g cap (ex\<lparr> ex_db := db \<rparr>)"
      using refused(2)
    proof
      assume "good {} (ex_db ex) db"
      then show ?thesis by (intro exec_inv_good[OF inv, of "{}"]) simp_all
    next
      assume "created {?rid} ?rid ?k (ex_db ex) db"
      then obtain d1 where d1: "opened ?rid ?k (ex_db ex) d1" "db_ok d1" "good {?rid} d1 db"
        by (auto simp: created_def)
      have r1: "runs_inv cap (?rid # map wt_run_id (ex_watchers ex)) d1"
        by (rule opened_inv[OF exec_invD(3)[OF inv] d1(1) room(2)])
      then have "runs_inv cap (map wt_run_id (ex_watchers ex)) d1" "?rid \<notin> wt_run_id ` set (ex_watchers ex)"
        by (auto simp: runs_inv_def)
      then have "exec_inv g cap (ex\<lparr> ex_db := d1 \<rparr>)"
        using inv d1(1,2) by (auto simp: exec_inv_def within_caps_def opened_def)
      then show ?thesis
        by (rule exec_inv_good[where X = "{?rid}"])
           (use d1(3) \<open>?rid \<notin> wt_run_id ` set (ex_watchers ex)\<close> in simp_all)
    qed
    then show ?thesis unfolding refused(1) by (rule exec_inv_release[OF inv caps room(1)])
  next
    case spawned
    have "wt_run_id wt = ?rid" "cr_id (wt_cron wt) = ?k" using spawned(2) by (auto simp: new_watcher_def)
    then show ?thesis unfolding spawned(1) by (intro exec_inv_spawn[OF inv caps room spawned(3)])
  qed
qed

lemma exec_inv_decided:
  assumes inv: "exec_inv g cap ex" and caps: "caps_ok g cap"
    and row: "row_of (ex_db ex) k = Some cron"
    and d: "decide_fire env g w cron now ex = Some (Inr Admit, ex1)"
    and ex2: "ex_db ex2 = ex_db ex1" "ex_watchers ex2 = ex_watchers ex1"
      "ex_running_global ex2 = ex_running_global ex1" "ex_running_per_cron ex2 = ex_running_per_cron ex1"
    and adm: "admit_and_spawn_with_id env w cron fire tr ex2 = Some (r, ex')"
  shows "exec_inv g cap ex'"
proof -
  obtain db where db: "ex1 = ex\<lparr> ex_db := db \<rparr>" "good {} (ex_db ex) db" "db_runs db = db_runs (ex_db ex)"
    using decide_fire_facts(1)[OF d] by blast
  have inv2: "exec_inv g cap ex2"
    by (rule exec_inv_good[OF inv, of "{}"]) (use ex2 db in simp_all)
  have k: "cr_id cron = k" using exec_invD(1)[OF inv] row db_coreD(3) by (auto simp: db_ok_def)
  note b = admitted_bounds[OF inv caps row d]
  show ?thesis
  proof (rule exec_inv_admit[OF inv2 caps _ _ adm])
    show "length (ex_watchers ex2) < global_max_concurrent_runs g" using b(4) ex2(2) db(1) by simp
    show "inflight_of (cr_id cron) (ex_db ex2) < cap (cr_id cron)"
      using b(3) ex2(1) db(1,3) k by (simp add: inflight_of_def)
  qed
qed

lemma watermark_good: "good {} db (persist_fire_watermark env cron fire db)"
  unfolding persist_fire_watermark_def by (rule good_ops(2)[OF surjective_pairing])

lemma cron_get_good: "cron_get k db = (r, db') \<Longrightarrow> good {} db db' \<and> db_crons db' = db_crons db"
  unfolding cron_get_def by (auto dest: read_same intro: good_ops(1))

text \<open>A relation between states of the executor that every statement on audit rows and
  every admission compose to holds across a fire and across a manual trigger.\<close>

locale exec_evolution =
  fixes R :: "Exec \<Rightarrow> Exec \<Rightarrow> bool" and g :: GlobalQuota
  assumes trans: "R ex ex' \<Longrightarrow> R ex' ex'' \<Longrightarrow> R ex ex''"
    and quiet: "good {} (ex_db ex) (ex_db ex') \<Longrightarrow> ex_watchers ex' = ex_watchers ex \<Longrightarrow>
      ex_running_global ex' = ex_running_global ex \<Longrightarrow> ex_running_per_cron ex' = ex_running_per_cron ex \<Longrightarrow> R ex ex'"
    and admission: "row_of (ex_db ex) k = Some cron \<Longrightarrow>
      decide_fire env g w cron now ex = Some (Inr Admit, ex1) \<Longrightarrow>
      ex_db ex2 = ex_db ex1 \<Longrightarrow> ex_watchers ex2 = ex_watchers ex1 \<Longrightarrow>
      ex_running_global ex2 = ex_running_global ex1 \<Longrightarrow> ex_running_per_cron ex2 = ex_running_per_cron ex1 \<Longrightarrow>
      admit_and_spawn_with_id env w cron fire tr ex2 = Some (r, ex') \<Longrightarrow> R ex ex'"
begin

lemma decided: "decide_fire env g w cron now ex = Some (r, ex') \<Longrightarrow> R ex ex'"
proof -
  assume "decide_fire env g w cron now ex = Some (r, ex')"
  from decide_fire_facts(1)[OF this] obtain db where "ex' = ex\<lparr> ex_db := db \<rparr>" "good {} (ex_db ex) db" by blast
  then show ?thesis by (intro quiet) simp_all
qed

lemma audited: "R ex (ex\<lparr> ex_db := write_rejected_audit env w cron fire d (ex_db ex) \<rparr>)"
proof (rule quiet)
  show "good {} (ex_db ex) (ex_db (ex\<lparr> ex_db := write_rejected_audit env w cron fire d (ex_db ex) \<rparr>))"
    by (auto simp: write_rejected_audit_def split: option.splits
        intro: good_ev.refl good_ops(7)[OF surjective_pairing])
qed simp_all

lemma process_fire:
  assumes p: "process_fire env g w tr fire ex = Some ex'"
  shows "R ex ex'"
proof -
  obtain m d0 where g0: "cron_get (fe_cron_id fire) (ex_db ex) = (m, d0)" by fastforce
  obtain c d1 where g1: "cron_get (fe_cron_id fire) d0 = (c, d1)" by fastforce
  define ex1 where "ex1 = ex\<lparr> ex_missed := ex_missed ex @
      (if fe_coalesced_count fire > 1 \<or> fe_catchup_truncated fire then [mode_label m] else []), ex_db := d1 \<rparr>"
  have "good {} (ex_db ex) d1" using cron_get_good[OF g0] cron_get_good[OF g1] good_ev.trans by blast
  then have R1: "R ex ex1" by (intro quiet) (simp_all add: ex1_def)
  show ?thesis
  proof (cases "\<exists>cron. c = Inr (Some cron)")
    case False
    then have "ex' = ex1" using p g0 g1
      by (auto simp: process_fire_def ex1_def Let_def split: sum.splits option.splits)
    then show ?thesis using R1 by simp
  next
    case True
    then obtain cron where cron: "c = Inr (Some cron)" by blast
    have row: "row_of (ex_db ex1) (fe_cron_id fire) = Some cron"
      using cron_get_facts[OF g1] cron_get_good[OF g1] cron by (simp add: ex1_def)
    obtain dr ex2 where d: "decide_fire env g w cron (fe_fired_at fire) ex1 = Some (dr, ex2)"
      using p g0 g1 cron by (auto simp: process_fire_def ex1_def Let_def split: option.splits)
    note R2 = decided[OF d]
    show ?thesis
    proof (cases dr)
      case (Inl e)
      then have "ex' = ex2" using p g0 g1 cron d by (auto simp: process_fire_def ex1_def Let_def)
      then show ?thesis using trans[OF R1 R2] by simp
    next
      case (Inr dec)
      let ?ex2 = "note_throttle dec fire ex2"
      have keep: "ex_db ?ex2 = ex_db ex2" "ex_watchers ?ex2 = ex_watchers ex2"
        "ex_running_global ?ex2 = ex_running_global ex2" "ex_running_per_cron ?ex2 = ex_running_per_cron ex2"
        by (simp_all add: note_throttle_def Let_def)
      obtain ex3 where ex3: "ex' = ex3\<lparr> ex_db := persist_fire_watermark env cron fire (ex_db ex3) \<rparr>"
        "(if dec = Admit then map_option snd (admit_and_spawn_with_id env w cron fire (Some tr) ?ex2)
          else if is_deferral dec then Some ?ex2
          else Some (?ex2\<lparr> ex_db := write_rejected_audit env w cron fire dec (ex_db ?ex2) \<rparr>)) = Some ex3"
        using p g0 g1 cron d Inr by (auto simp: process_fire_def ex1_def Let_def)
      have R3: "R ex2 ?ex2" by (rule quiet) (simp_all add: keep good_ev.refl)
      have "R ex1 ex3"
      proof (cases "dec = Admit")
        case True
        then obtain r where "admit_and_spawn_with_id env w cron fire (Some tr) ?ex2 = Some (r, ex3)"
          using ex3(2) by auto
        then show ?thesis using admission[OF row] d Inr True keep by blast
      next
        case False
        then show ?thesis using ex3(2) trans[OF R2 R3] trans[OF trans[OF R2 R3] audited] by (auto split: if_splits)
      qed
      moreover have "R ex3 ex'" unfolding ex3(1) by (rule quiet) (simp_all add: watermark_good)
      ultimately show ?thesis using trans[OF trans[OF R1]] by blast
    qed
  qed
qed

lemma run_now:
  assumes p: "run_now env g w k ex = Some (r, ex')"
  shows "R ex ex'"
proof -
  obtain c d1 where g1: "cron_get k (ex_db ex) = (c, d1)" by fastforce
  define ex1 where "ex1 = ex\<lparr> ex_db := d1 \<rparr>"
  have R1: "R ex ex1" using cron_get_good[OF g1] by (intro quiet) (simp_all add: ex1_def)
  show ?thesis
  proof (cases "\<exists>cron. c = Inr (Some cron)")
    case False
    then have "ex' = ex1" using p g1 by (auto simp: run_now_def ex1_def split: sum.splits option.splits)
    then show ?thesis using R1 by simp
  next
    case True
    then obtain cron where cron: "c = Inr (Some cron)" by blast
    have row: "row_of (ex_db ex1) k = Some cron"
      using cron_get_facts[OF g1] cron_get_good[OF g1] cron by (simp add: ex1_def)
    obtain dr ex2 where d: "decide_fire env g w cron (w_now w) ex1 = Some (dr, ex2)"
      using p g1 cron by (auto simp: run_now_def ex1_def Let_def split: option.splits)
    note R2 = decided[OF d]
    have "R ex1 ex'"
    proof (cases dr)
      case (Inl e)
      then have "ex' = ex2" using p g1 cron d by (auto simp: run_now_def ex1_def Let_def)
      then show ?thesis using R2 by simp
    next
      case (Inr dec)
      show ?thesis using p g1 cron d Inr R2 trans[OF R2 audited] admission[OF row _ refl refl refl refl]
        by (auto simp: run_now_def ex1_def Let_def split: if_splits)
    qed
    then show ?thesis by (rule trans[OF R1])
  qed
qed

end

interpretation inv_ev: exec_evolution "\<lambda>ex ex'. caps_ok g cap \<and> exec_inv g cap ex \<longrightarrow> exec_inv g cap ex'" g for g cap
proof unfold_locales
  fix ex ex' :: Exec
  assume "good {} (ex_db ex) (ex_db ex')" "ex_watchers ex' = ex_watchers ex"
    "ex_running_global ex' = ex_running_global ex" "ex_running_per_cron ex' = ex_running_per_cron ex"
  then show "caps_ok g cap \<and> exec_inv g cap ex \<longrightarrow> exec_inv g cap ex'"
    by (auto intro: exec_inv_good[of g cap ex "{}"])
qed (auto intro: exec_inv_decided)

lemma record_outcome_good:
  assumes "record_outcome env w cron st db h = Some (db', h')"
  shows "good {} db db'"
proof -
  obtain r1 d1 where b: "bump_consecutive_failures (cr_id cron) db = (r1, d1)" by fastforce
  have g1: "good {} db d1" by (rule good_ops(5)[OF b])
  have g2: "good {} d1 (snd (pause_for_failures (cr_id cron) d1))" by (rule good_ops(4)[OF surjective_pairing])
  have g3: "good {} db (snd (reset_consecutive_failures (cr_id cron) db))"
    by (rule good_ops(3)[OF surjective_pairing])
  have "db' = d1 \<or> db' = snd (pause_for_failures (cr_id cron) d1)
      \<or> db' = snd (reset_consecutive_failures (cr_id cron) db) \<or> db' = db"
    using assms b by (auto simp: record_outcome_def record_failure_def split: if_splits sum.splits option.splits)
  then show ?thesis using g1 g3 good_ev.trans[OF g1 g2] good_ev.refl by metis
qed

lemma remove1_keys:
  assumes "distinct (map f xs)" "x \<in> set xs"
  shows "f x \<notin> f ` set (remove1 x xs)" "distinct (map f (remove1 x xs))"
    "f ` set (remove1 x xs) \<subseteq> f ` set xs"
proof -
  show sub: "f ` set (remove1 x xs) \<subseteq> f ` set xs" using set_remove1_subset by fast
  show "distinct (map f (remove1 x xs))"
    using assms(1) by (auto simp: distinct_map inj_on_def)
  show "f x \<notin> f ` set (remove1 x xs)"
    using assms by (auto simp: distinct_map dest: inj_onD)
qed

lemma count_map_remove1:
  "x \<in> set xs \<Longrightarrow> count_list (map f (remove1 x xs)) k = count_list (remove1 (f x) (map f xs)) k"
proof (induction xs)
  case (Cons y ys)
  have "count_list (map f ys) (f x) = 0 \<longleftrightarrow> f x \<notin> set (map f ys)" by (rule count_list_0_iff)
  then show ?case using Cons by (cases "x = y") (auto simp: count_list_remove1)
qed simp

lemma watcher_done_inv:
  assumes inv: "exec_inv g cap ex" and wt: "wt \<in> set (ex_watchers ex)"
    and p: "watcher_done env w wt out ex = Some ex'"
  shows "exec_inv g cap ex'"
proof -
  let ?f = "\<lparr> rf_finished_at = en_format_lex env (w_now w), rf_status = to_status out,
              rf_exit_code = to_exit_code out, rf_cost_usd_est = None,
              rf_error_kind = to_error_kind out, rf_error_detail = to_error_detail out,
              rf_tail_log = map_option (\<lambda>tid. lit ''# trace_id='' @ tid @ [10]) (wt_trace_id wt) \<rparr>"
  let ?ws = "remove1 wt (ex_watchers ex)" and ?k = "cr_id (wt_cron wt)"
  define db1 where "db1 = snd (run_finish (wt_run_id wt) ?f (ex_db ex))"
  obtain db h where o: "record_outcome env w (wt_cron wt) (to_status out) db1 (ex_heap ex) = Some (db, h)"
    using p unfolding watcher_done_def Let_def db1_def[symmetric] by auto
  have ex': "ex_db ex' = db" "ex_watchers ex' = ?ws" "ex_running_global ex' = ex_running_global ex - 1"
    "ex_running_per_cron ex' = decrement_for_cron ?k (ex_running_per_cron ex)"
    using p o unfolding watcher_done_def Let_def db1_def[symmetric]
    by (auto simp: decrement_global_and_cron_def decrement_global_def)
  have g1: "good {wt_run_id wt} (ex_db ex) db1"
    unfolding db1_def by (rule good_ops(8)[OF surjective_pairing]) simp
  have g: "good {wt_run_id wt} (ex_db ex) db"
    by (rule good_ev.trans[OF g1 good_mono[OF record_outcome_good[OF o]]]) simp
  note i = exec_invD[OF inv]
  have d: "distinct (map wt_run_id (ex_watchers ex))" using i(3) by (simp add: runs_inv_def)
  have sub: "set (map wt_run_id ?ws) \<inter> {wt_run_id wt} = {}" "distinct (map wt_run_id ?ws)"
    "set (map wt_run_id ?ws) \<subseteq> set (map wt_run_id (ex_watchers ex))"
    using remove1_keys[OF d wt] by auto
  have "runs_inv cap (map wt_run_id ?ws) db"
    by (rule runs_inv_gentle[OF runs_inv_subset[OF i(3) sub(3,2)], of True "{wt_run_id wt}"])
       (use g sub(1) in \<open>simp_all add: good_def\<close>)
  moreover have "counts (decrement_for_cron ?k (ex_running_per_cron ex)) (map (\<lambda>wt. cr_id (wt_cron wt)) ?ws)"
  proof (subst counts_cong)
    show "count_list (map (\<lambda>wt. cr_id (wt_cron wt)) ?ws) k = count_list (remove1 ?k (watched_crons ex)) k" for k
      by (rule count_map_remove1[OF wt])
    show "counts (decrement_for_cron ?k (ex_running_per_cron ex)) (remove1 ?k (watched_crons ex))"
      by (rule counts_decrement[OF i(4)]) (use wt in auto)
  qed
  ultimately show ?thesis
    using i good_within[OF g i(2)] g wt
    by (simp add: exec_inv_def ex' length_remove1 good_def)
qed

section \<open>Runs that nobody watches\<close>

text \<open>Runs in flight without a watcher stay so.\<close>

definition unwatched_kept :: "Exec \<Rightarrow> Exec \<Rightarrow> bool" where
  "unwatched_kept ex ex' \<longleftrightarrow> (\<forall>i r. map_of (db_runs (ex_db ex)) i = Some r \<and> in_flight r
       \<and> i \<notin> wt_run_id ` set (ex_watchers ex) \<longrightarrow>
     (\<exists>r'. map_of (db_runs (ex_db ex')) i = Some r' \<and> calm_row {} i r r'
       \<and> i \<notin> wt_run_id ` set (ex_watchers ex')))"

lemma unwatched_kept_trans:
  assumes "unwatched_kept ex ex'" "unwatched_kept ex' ex''"
  shows "unwatched_kept ex ex''"
  unfolding unwatched_kept_def
proof (intro allI impI, elim conjE)
  fix i r
  assume r: "map_of (db_runs (ex_db ex)) i = Some r" "in_flight r" "i \<notin> wt_run_id ` set (ex_watchers ex)"
  obtain r' where r': "map_of (db_runs (ex_db ex')) i = Some r'" "calm_row {} i r r'"
      "i \<notin> wt_run_id ` set (ex_watchers ex')"
    using assms(1) r unfolding unwatched_kept_def by blast
  have "in_flight r'" using r'(2) r(2) by (simp add: calm_row_def)
  then obtain r'' where "map_of (db_runs (ex_db ex'')) i = Some r''" "calm_row {} i r' r''"
      "i \<notin> wt_run_id ` set (ex_watchers ex'')"
    using assms(2) r' unfolding unwatched_kept_def by blast
  then show "\<exists>r''. map_of (db_runs (ex_db ex'')) i = Some r'' \<and> calm_row {} i r r''
      \<and> i \<notin> wt_run_id ` set (ex_watchers ex'')"
    using calm_row_trans[OF r'(2)] by blast
qed

lemma calm_row_other: "calm_row X i r r' \<Longrightarrow> i \<notin> X \<Longrightarrow> calm_row {} i r r'"
  by (simp add: calm_row_def)

lemma unwatched_kept_gentle:
  assumes "gentle B X (ex_db ex) (ex_db ex')" "X \<subseteq> wt_run_id ` set (ex_watchers ex)"
    "set (ex_watchers ex') \<subseteq> set (ex_watchers ex)"
  shows "unwatched_kept ex ex'"
  unfolding unwatched_kept_def
proof (intro allI impI, elim conjE)
  fix i r
  assume r: "map_of (db_runs (ex_db ex)) i = Some r" "i \<notin> wt_run_id ` set (ex_watchers ex)"
  obtain r' where "map_of (db_runs (ex_db ex')) i = Some r'" "calm_row X i r r'"
    by (rule gentle_row[OF assms(1) r(1)])
  moreover have "i \<notin> X" "i \<notin> wt_run_id ` set (ex_watchers ex')" using assms(2,3) r(2) by blast+
  ultimately show "\<exists>r'. map_of (db_runs (ex_db ex')) i = Some r' \<and> calm_row {} i r r'
      \<and> i \<notin> wt_run_id ` set (ex_watchers ex')"
    using calm_row_other by blast
qed

lemma created_row:
  assumes "created X rid k d d'" "map_of (db_runs d) i = Some r" "X \<subseteq> {rid}"
  shows "i \<noteq> rid \<and> (\<exists>r'. map_of (db_runs d') i = Some r' \<and> calm_row {} i r r')"
proof -
  obtain d1 where d1: "opened rid k d d1" "good X d1 d'" using assms(1) by (auto simp: created_def)
  have i: "i \<noteq> rid" "map_of (db_runs d1) i = Some r"
    using d1(1) assms(2) by (auto simp: opened_def map_add_Some_iff)
  obtain r' where "map_of (db_runs d') i = Some r'" "calm_row X i r r'"
    using gentle_row[OF _ i(2)] d1(2) unfolding good_def by blast
  then show ?thesis using i(1) assms(3) calm_row_other[of X i r r'] by blast
qed

lemma unwatched_kept_admit:
  assumes adm: "admit_and_spawn_with_id env w cron fire tr ex = Some (r, ex')" and ok: "db_ok (ex_db ex)"
  shows "unwatched_kept ex ex' \<and> db_ok (ex_db ex')"
proof -
  let ?k = "cr_id cron" and ?rid = "w_new_id w"
  let ?P = "\<lambda>X. (good {} (ex_db ex) (ex_db ex') \<and> ex_watchers ex' = ex_watchers ex \<or> created X ?rid ?k (ex_db ex) (ex_db ex'))
      \<and> (\<forall>wt \<in> set (ex_watchers ex'). wt \<in> set (ex_watchers ex) \<or> wt_run_id wt = ?rid)"
  have "?P {?rid} \<or> ?P {}"
    using admit_facts[OF adm ok]
    by (auto simp: decrement_global_and_cron_def decrement_global_def reserve_slot_def new_watcher_def)
  then obtain X where X: "X \<subseteq> {?rid}" "?P X" by blast
  define db where "db = ex_db ex'"
  have db: "ex_db ex' = db" "X \<subseteq> {?rid}"
      "good {} (ex_db ex) db \<and> ex_watchers ex' = ex_watchers ex \<or> created X ?rid ?k (ex_db ex) db"
      "\<forall>wt \<in> set (ex_watchers ex'). wt \<in> set (ex_watchers ex) \<or> wt_run_id wt = ?rid"
    using X by (simp_all add: db_def)
  show ?thesis
  proof (cases "created X ?rid ?k (ex_db ex) db")
    case True
    have "unwatched_kept ex ex'"
      unfolding unwatched_kept_def
    proof (intro allI impI, elim conjE)
      fix i r
      assume r: "map_of (db_runs (ex_db ex)) i = Some r" "i \<notin> wt_run_id ` set (ex_watchers ex)"
      from created_row[OF True r(1) db(2)] show "\<exists>r'. map_of (db_runs (ex_db ex')) i = Some r'
          \<and> calm_row {} i r r' \<and> i \<notin> wt_run_id ` set (ex_watchers ex')"
        using r(2) db(1,4) by auto
    qed
    moreover have "db_ok db" using True by (auto simp: created_def good_def)
    ultimately show ?thesis using db(1) by simp
  next
    case False
    then have "good {} (ex_db ex) (ex_db ex')" "ex_watchers ex' = ex_watchers ex" using db by auto
    then show ?thesis using ok unwatched_kept_gentle[of True "{}" ex ex'] by (simp add: good_def)
  qed
qed

interpretation unwatched_ev: exec_evolution
  "\<lambda>ex ex'. db_ok (ex_db ex) \<longrightarrow> unwatched_kept ex ex' \<and> db_ok (ex_db ex')" g for g
proof unfold_locales
  fix ex ex' :: Exec
  assume "good {} (ex_db ex) (ex_db ex')" "ex_watchers ex' = ex_watchers ex"
  then show "db_ok (ex_db ex) \<longrightarrow> unwatched_kept ex ex' \<and> db_ok (ex_db ex')"
    using unwatched_kept_gentle[of True "{}" ex ex'] by (auto simp: good_def)
next
  fix ex k cron env w now ex1 ex2 fire tr r ex' and g :: GlobalQuota
  assume a: "decide_fire env g w cron now ex = Some (Inr Admit, ex1)" "ex_db ex2 = ex_db ex1"
    "ex_watchers ex2 = ex_watchers ex1" "admit_and_spawn_with_id env w cron fire tr ex2 = Some (r, ex')"
  obtain db where db: "ex1 = ex\<lparr> ex_db := db \<rparr>" "good {} (ex_db ex) db"
    using decide_fire_facts(1)[OF a(1)] by blast
  have k: "unwatched_kept ex ex2"
    by (rule unwatched_kept_gentle[of True "{}"]) (use a db in \<open>simp_all add: good_def\<close>)
  show "db_ok (ex_db ex) \<longrightarrow> unwatched_kept ex ex' \<and> db_ok (ex_db ex')"
    using unwatched_kept_admit[OF a(4)] unwatched_kept_trans[OF k] db(2) a(2) db(1) by (simp add: good_def)
qed (auto intro: unwatched_kept_trans)

section \<open>Histories of the executor\<close>

text \<open>The state at start, on the database that an earlier daemon left.\<close>

definition exec_start :: "Db \<Rightarrow> handle \<Rightarrow> Exec" where
  "exec_start db h = \<lparr> ex_db = db, ex_heap = h, ex_running_global = 0, ex_running_per_cron = [],
     ex_errors_window = [], ex_throttled_by_loadavg = False, ex_watchers = [], ex_fired = [],
     ex_missed = [], ex_throttled_secs = 0 \<rparr>"

text \<open>Fires, manual triggers, runs that end, health reports and mutations of crons, in
  any order, while time passes, statements fail and the scheduler works.\<close>

inductive exec_step :: "Env \<Rightarrow> GlobalQuota \<Rightarrow> (str \<Rightarrow> nat) \<Rightarrow> Exec \<Rightarrow> Exec \<Rightarrow> bool" for env g cap where
  st_fire: "process_fire env g w tr fire ex = Some ex' \<Longrightarrow> exec_step env g cap ex ex'"
| st_manual: "run_now env g w k ex = Some (r, ex') \<Longrightarrow> exec_step env g cap ex ex'"
| st_ended: "wt \<in> set (ex_watchers ex) \<Longrightarrow>
    watch (wt_session_id wt) (wt_max_runtime wt) polls = Some (out, sig) \<Longrightarrow>
    watcher_done env w wt out ex = Some ex' \<Longrightarrow> exec_step env g cap ex ex'"
| st_health: "publish_scheduler_health env w q ex = (params, ex') \<Longrightarrow> exec_step env g cap ex ex'"
| st_control: "control_op env now op \<lparr> ct_db = ex_db ex, ct_tokens = ts, ct_heap = ex_heap ex \<rparr> = (rc, st) \<Longrightarrow>
    within_caps cap (ct_db st) \<Longrightarrow>
    exec_step env g cap ex (ex\<lparr> ex_db := ct_db st, ex_heap := ct_heap st \<rparr>)"
| st_session: "exec_step env g cap ex (ex\<lparr> ex_db := (ex_db ex)\<lparr> db_sessions := s # db_sessions (ex_db ex) \<rparr> \<rparr>)"
| st_world: "exec_step env g cap ex (ex\<lparr> ex_db := (ex_db ex)\<lparr> db_now := t, db_io := io \<rparr>, ex_heap := h \<rparr>)"

inductive exec_run :: "Env \<Rightarrow> GlobalQuota \<Rightarrow> (str \<Rightarrow> nat) \<Rightarrow> Exec \<Rightarrow> bool" for env g cap where
  er_start: "db_ok db \<Longrightarrow> within_caps cap db \<Longrightarrow> \<forall>k. inflight_of k db \<le> cap k \<Longrightarrow>
    exec_run env g cap (exec_start db h)"
| er_step: "exec_run env g cap ex \<Longrightarrow> exec_step env g cap ex ex' \<Longrightarrow> exec_run env g cap ex'"

interpretation gentle_ctl: control_evolution "gentle False X" for X
  by unfold_locales (auto intro: gentle_cron_get gentle_cron_upsert gentle_set_enabled gentle_delete)

lemma step_control_facts:
  assumes "control_op env now op \<lparr> ct_db = db, ct_tokens = ts, ct_heap = h \<rparr> = (rc, st)"
  shows "gentle False {} db (ct_db st)" "db_ok db \<Longrightarrow> db_ok (ct_db st)"
  using gentle_ctl.control_op[OF assms] ok_ctl.control_op[OF assms] by simp_all

lemma exec_inv_control:
  assumes "exec_inv g cap ex" "gentle False {} (ex_db ex) db" "db_ok db" "within_caps cap db"
  shows "exec_inv g cap (ex\<lparr> ex_db := db, ex_heap := h \<rparr>)"
  using exec_invD[OF assms(1)] runs_inv_gentle[OF exec_invD(3)[OF assms(1)] assms(2)] assms(3,4)
  by (simp add: exec_inv_def)

lemma world_good:
  "good {} db (db\<lparr> db_now := t, db_io := io \<rparr>)" "good {} db (db\<lparr> db_sessions := s # db_sessions db \<rparr>)"
  by (rule good_frame; simp add: env_ok db_step_ok[OF step_session])+

lemma health_keeps:
  "publish_scheduler_health env w q ex = (params, ex') \<Longrightarrow>
   ex_db ex' = ex_db ex \<and> ex_watchers ex' = ex_watchers ex \<and> ex_running_global ex' = ex_running_global ex
   \<and> ex_running_per_cron ex' = ex_running_per_cron ex"
  by (auto simp: publish_scheduler_health_def Let_def split: prod.splits)

lemma exec_step_inv:
  assumes "exec_step env g cap ex ex'" "caps_ok g cap" "exec_inv g cap ex"
  shows "exec_inv g cap ex'"
  using assms
proof (induction rule: exec_step.induct)
  case (st_health w q ex params ex')
  then show ?case using health_keeps[OF st_health(1)] by (simp add: exec_inv_def)
next
  case (st_control now op ex ts rc st)
  then show ?case
    using step_control_facts[OF st_control(1)] by (intro exec_inv_control) (auto dest: exec_invD(1))
next
  case (st_session ex s)
  then show ?case by (intro exec_inv_good[OF st_session(2), of "{}"]) (simp_all add: world_good)
next
  case (st_world ex h io t)
  then show ?case by (intro exec_inv_good[OF st_world(2), of "{}"]) (simp_all add: world_good)
next
  case (st_ended wt ex polls out sig w ex')
  show ?case by (rule watcher_done_inv[OF st_ended(5,1,3)])
next
  case (st_fire w tr fire ex ex')
  then show ?case using inv_ev.process_fire[OF st_fire(1), of cap] by simp
next
  case (st_manual w k ex r ex')
  then show ?case using inv_ev.run_now[OF st_manual(1), of cap] by simp
qed

lemma exec_run_inv: "exec_run env g cap ex \<Longrightarrow> caps_ok g cap \<Longrightarrow> exec_inv g cap ex"
proof (induction rule: exec_run.induct)
  case (er_start db h)
  then show ?case by (simp add: exec_inv_def exec_start_def counts_empty runs_inv_def)
qed (rule exec_step_inv)

lemma watcher_done_unwatched:
  assumes "watcher_done env w wt out ex = Some ex'" "wt \<in> set (ex_watchers ex)"
  shows "unwatched_kept ex ex' \<and> (db_ok (ex_db ex) \<longrightarrow> db_ok (ex_db ex'))"
proof -
  let ?f = "\<lparr> rf_finished_at = en_format_lex env (w_now w), rf_status = to_status out,
              rf_exit_code = to_exit_code out, rf_cost_usd_est = None,
              rf_error_kind = to_error_kind out, rf_error_detail = to_error_detail out,
              rf_tail_log = map_option (\<lambda>tid. lit ''# trace_id='' @ tid @ [10]) (wt_trace_id wt) \<rparr>"
  define db1 where "db1 = snd (run_finish (wt_run_id wt) ?f (ex_db ex))"
  obtain db h where o: "record_outcome env w (wt_cron wt) (to_status out) db1 (ex_heap ex) = Some (db, h)"
    and ex': "ex_db ex' = db" "ex_watchers ex' = remove1 wt (ex_watchers ex)"
    using assms(1) unfolding watcher_done_def Let_def db1_def[symmetric]
    by (auto simp: decrement_global_and_cron_def decrement_global_def)
  have g1: "good {wt_run_id wt} (ex_db ex) db1"
    unfolding db1_def by (rule good_ops(8)[OF surjective_pairing]) simp
  have g: "good {wt_run_id wt} (ex_db ex) (ex_db ex')"
    unfolding ex' by (rule good_ev.trans[OF g1 good_mono[OF record_outcome_good[OF o]]]) simp
  show ?thesis
    using unwatched_kept_gentle[of True "{wt_run_id wt}" ex ex'] g assms(2) ex'(2) set_remove1_subset[of wt "ex_watchers ex"]
    by (auto simp: good_def)
qed

lemma exec_step_unwatched:
  assumes "exec_step env g cap ex ex'" "db_ok (ex_db ex)"
  shows "unwatched_kept ex ex' \<and> db_ok (ex_db ex')"
  using assms
proof (induction rule: exec_step.induct)
  case (st_health w q ex params ex')
  then show ?case
    using health_keeps[OF st_health(1)] unwatched_kept_gentle[of True "{}" ex ex'] by (simp add: gentle_ev.refl)
next
  case (st_control now op ex ts rc st)
  then show ?case using step_control_facts[OF st_control(1)]
      unwatched_kept_gentle[of False "{}" ex "ex\<lparr> ex_db := ct_db st, ex_heap := ct_heap st \<rparr>"] by simp
next
  case (st_session ex s)
  then show ?case using world_good(2)[of "ex_db ex" s]
      unwatched_kept_gentle[of True "{}" ex "ex\<lparr> ex_db := (ex_db ex)\<lparr> db_sessions := s # db_sessions (ex_db ex) \<rparr> \<rparr>"]
    by (simp add: good_def)
next
  case (st_world ex h io t)
  then show ?case using world_good(1)[of "ex_db ex" io t]
      unwatched_kept_gentle[of True "{}" ex "ex\<lparr> ex_db := (ex_db ex)\<lparr> db_now := t, db_io := io \<rparr>, ex_heap := h \<rparr>"]
    by (simp add: good_def)
next
  case (st_ended wt ex polls out sig w ex')
  then show ?case using watcher_done_unwatched[OF st_ended(3,1)] by simp
next
  case (st_fire w tr fire ex ex')
  then show ?case using unwatched_ev.process_fire[OF st_fire(1)] by simp
next
  case (st_manual w k ex r ex')
  then show ?case using unwatched_ev.run_now[OF st_manual(1)] by simp
qed

section \<open>A fire when no statement fails\<close>

text \<open>What the gate sees of a database.\<close>

definition gate_view :: "Env \<Rightarrow> World \<Rightarrow> Cron \<Rightarrow> instant \<Rightarrow> instant \<Rightarrow> nat \<Rightarrow> Db \<Rightarrow> QuotaSnapshot" where
  "gate_view env w cron now since g db =
     (let k = cr_id cron; mine = filter (\<lambda>(_, r). in_window k (en_format_lex env since) r) (db_runs db) in
      \<lparr> running_for_cron = as_u32 (int (inflight_of k db)), running_global = g,
        window_runs_today = as_u32 (int (length mine)),
        window_cost_today = sum_costs (map (rr_cost_usd_est \<circ> snd) mine),
        current_loadavg_1m = w_loadavg w, now_at = now,
        last_terminal_failure_at = Option.bind
          (max_text (List.map_filter (rr_finished_at \<circ> snd)
            (filter (\<lambda>(_, r). rr_cron_id r = Some k \<and> rr_status r \<in> {lit ''failed'', lit ''timed_out''})
              (db_runs db)))) (en_parse_lex env) \<rparr>)"

lemma decide_fire_io:
  assumes "db_io (ex_db ex) = []" "cron_to_quota cron = Some q" "checked_add (en_chrono env) now (- DAY) = Some since"
  shows "decide_fire env g w cron now ex = Some (Inr (evaluate_admission (en_chrono env) q g
      (gate_view env w cron now since (ex_running_global ex) (ex_db ex))), ex)"
  by (simp add: decide_fire_def build_snapshot_def assms gate_view_def Let_def count_running_for_cron_def
      count_since_for_cron_def count_rows_def sum_cost_since_for_cron_def last_terminal_failure_at_for_cron_def
      inflight_of_def)

lemma sql_update_last:
  assumes "map_of rows k = None"
  shows "sql_update k c f (rows @ [(k, r)]) = (if c r then (1, rows @ [(k, f r)]) else (0, rows @ [(k, r)]))"
proof -
  have "i \<noteq> k" if "(i, r) \<in> set rows" for i r
    using that assms by (force simp: map_of_eq_None_iff)
  then have "filter (\<lambda>(i, r). i = k \<and> c r) rows = []"
    "map (\<lambda>(i, r). if i = k \<and> c r then (i, f r) else (i, r)) rows = rows"
    by (auto simp: filter_empty_conv intro!: map_idI)
  then show ?thesis by (simp add: sql_update_def)
qed

text \<open>The row of a fired cron.\<close>

definition fired_row :: "Env \<Rightarrow> Db \<Rightarrow> FireEvent \<Rightarrow> Cron \<Rightarrow> Cron" where
  "fired_row env db fire c =
     (let t = en_format_lex env (fe_fired_at fire);
          nf = (case parse_cron_spec env c of
             Inr (spec, _, _) \<Rightarrow> map_option (en_format_lex env) (next_after spec (fe_fired_at fire)) | Inl _ \<Rightarrow> None)
      in if (case cr_last_fired_at c of None \<Rightarrow> True | Some l \<Rightarrow> l < t \<or> l = t \<and> cr_next_fire_at c = nf)
         then c\<lparr> cr_last_fired_at := Some t, cr_next_fire_at := nf, cr_updated_at := db_now db \<rparr> else c)"

lemma watermark_io:
  assumes "db_io db = []" "crons_wf db" "row_of db (cr_id c) = Some c"
  shows "row_of (persist_fire_watermark env c fire db) j =
      (if j = cr_id c then Some (fired_row env db fire c) else row_of db j)"
    and "db_runs (persist_fire_watermark env c fire db) = db_runs db"
    and "db_metrics (persist_fire_watermark env c fire db) = db_metrics db"
proof -
  define t where "t = en_format_lex env (fe_fired_at fire)"
  define nf where "nf = (case parse_cron_spec env c of
     Inr (spec, _, _) \<Rightarrow> map_option (en_format_lex env) (next_after spec (fe_fired_at fire)) | Inl _ \<Rightarrow> None)"
  let ?c = "\<lambda>r. case cr_last_fired_at r of None \<Rightarrow> True | Some l \<Rightarrow> l < t \<or> l = t \<and> cr_next_fire_at r = nf"
  let ?f = "\<lambda>r. r\<lparr> cr_last_fired_at := Some t, cr_next_fire_at := nf \<rparr>"
  obtain n d where u: "update_crons (cr_id c) ?c ?f db = (n, d)" by (cases "update_crons (cr_id c) ?c ?f db")
  have p: "persist_fire_watermark env c fire db = d"
    using u by (simp add: persist_fire_watermark_def mark_fired_def assms(1) t_def[symmetric] nf_def[symmetric])
  show "row_of (persist_fire_watermark env c fire db) j =
      (if j = cr_id c then Some (fired_row env db fire c) else row_of db j)"
    unfolding p crons_tbl.upd_get[OF assms(2) u]
    by (simp add: assms(3) fired_row_def t_def[symmetric] nf_def[symmetric] Let_def)
  show "db_runs (persist_fire_watermark env c fire db) = db_runs db"
    "db_metrics (persist_fire_watermark env c fire db) = db_metrics db"
    unfolding p using update_crons_frame[OF u] by simp_all
qed

definition audit_row :: "Env \<Rightarrow> World \<Rightarrow> Cron \<Rightarrow> FireEvent \<Rightarrow> AdmissionDecision \<Rightarrow> RunRecord" where
  "audit_row env w c fire d =
     \<lparr> rr_id = w_new_id w, rr_cron_id = Some (cr_id c), rr_session_id = None,
       rr_scheduled_at = en_format_lex env (fe_scheduled_at fire), rr_started_at = None,
       rr_finished_at = Some (en_format_lex env (fe_scheduled_at fire)),
       rr_status = the (rejected_status d), rr_exit_code = None,
       rr_coalesced_count = int (max (fe_coalesced_count fire) 1), rr_cost_usd_est = None,
       rr_error_kind = error_kind d, rr_error_detail = Some (error_detail env w d), rr_tail_log = None \<rparr>"

definition started_row :: "Env \<Rightarrow> World \<Rightarrow> Cron \<Rightarrow> FireEvent \<Rightarrow> str option \<Rightarrow> RunRecord" where
  "started_row env w c fire sid =
     \<lparr> rr_id = w_new_id w, rr_cron_id = Some (cr_id c), rr_session_id = sid,
       rr_scheduled_at = en_format_lex env (fe_scheduled_at fire),
       rr_started_at = Some (en_format_lex env (fe_fired_at fire)), rr_finished_at = None,
       rr_status = (if sid = None then lit ''spawning'' else lit ''running''), rr_exit_code = None,
       rr_coalesced_count = int (max (fe_coalesced_count fire) 1), rr_cost_usd_est = None,
       rr_error_kind = None, rr_error_detail = None, rr_tail_log = None \<rparr>"

lemma refusal_fields:
  assumes "d \<noteq> Admit"
  obtains st ek where "rejected_status d = Some st" "error_kind d = Some ek" "st \<in> set run_statuses"
  using assms that by (cases d) (auto simp: run_statuses_def)

lemma audit_io:
  assumes io: "db_io db = []" and new: "map_of (db_runs db) (w_new_id w) = None"
    and row: "row_of db (cr_id c) = Some c" and d: "d \<noteq> Admit"
  shows "write_rejected_audit env w c fire d db
    = count_terminal (the (rejected_status d)) (db\<lparr> db_runs := db_runs db @ [(w_new_id w, audit_row env w c fire d)] \<rparr>)"
proof -
  obtain st ek where f: "rejected_status d = Some st" "error_kind d = Some ek" "st \<in> set run_statuses"
    using refusal_fields[OF d] .
  have m: "max (int (max (fe_coalesced_count fire) 1)) 1 = int (max (fe_coalesced_count fire) 1)" by simp
  have "run_checks db (audit_row env w c fire d)"
    using f row by (simp add: run_checks_def audit_row_def)
  then have "insert_run (audit_row env w c fire d) db
      = Inr ((), db\<lparr> db_runs := db_runs db @ [(w_new_id w, audit_row env w c fire d)] \<rparr>)"
    using new by (simp add: insert_run_def audit_row_def)
  then show ?thesis
    using new by (simp add: write_rejected_audit_def f run_create_rejected_def m io audit_row_def run_fetch_def run_get_def
        count_terminal_def map_add_Some_iff)
qed

lemma admit_io:
  assumes io: "db_io (ex_db ex) = []" and new: "map_of (db_runs (ex_db ex)) (w_new_id w) = None"
    and row: "row_of (ex_db ex) (cr_id c) = Some c"
    and quota: "cron_to_quota c = Some q"
    and reg: "w_registered w (cr_backend_id c)" and dir: "map_of (db_projects (ex_db ex)) (cr_project_id c) = Some dir"
    and sp: "w_spawn w (cr_backend_id c) (cr_project_id c) (cron_request w c dir) = Spawned sid"
  shows "admit_and_spawn_with_id env w c fire tr ex = Some (Inr (w_new_id w),
    reserve_slot (cr_id c) ex\<lparr> ex_db := (ex_db ex)\<lparr>
        db_runs := db_runs (ex_db ex) @ [(w_new_id w, started_row env w c fire (Some sid))],
        db_sessions := sid # db_sessions (ex_db ex) \<rparr>,
      ex_fired := ex_fired ex @ [\<lparr> cf_cron_id = cr_id c, cf_run_id = w_new_id w,
          cf_fired_at = en_rfc3339 env (fe_fired_at fire), cf_status = lit ''running'' \<rparr>],
      ex_watchers := ex_watchers ex @ [\<lparr> wt_run_id = w_new_id w, wt_session_id = sid, wt_cron = c,
          wt_trace_id = tr, wt_max_runtime = max_runtime q \<rparr>] \<rparr>)"
proof -
  let ?db = "ex_db ex" and ?rid = "w_new_id w" and ?r0 = "started_row env w c fire None"
  let ?d1 = "?db\<lparr> db_runs := db_runs ?db @ [(?rid, ?r0)] \<rparr>"
  let ?d2 = "?d1\<lparr> db_sessions := sid # db_sessions ?db \<rparr>"
  let ?r1 = "?r0\<lparr> rr_session_id := Some sid \<rparr>"
  have "run_checks ?db ?r0" using row by (simp add: run_checks_def started_row_def run_statuses_def)
  then have ins: "insert_run ?r0 ?db = Inr ((), ?d1)" using new by (simp add: insert_run_def started_row_def)
  then have create: "run_create \<lparr> nr_id = ?rid, nr_cron_id = Some (cr_id c), nr_session_id = None,
              nr_scheduled_at = en_format_lex env (fe_scheduled_at fire),
              nr_started_at = Some (en_format_lex env (fe_fired_at fire)),
              nr_status = lit ''spawning'', nr_coalesced_count = int (max (fe_coalesced_count fire) 1) \<rparr> ?db
      = (Inr ?r0, ?d1)"
    using new by (simp add: run_create_def io started_row_def run_fetch_def run_get_def map_add_def)
  have keep: "ex_db (reserve_slot k ex) = ?db" "ex_fired (reserve_slot k ex) = ex_fired ex"
    "ex_watchers (reserve_slot k ex) = ex_watchers ex" for k by (simp_all add: reserve_slot_def)
  have root: "project_root (cr_project_id c) ?d1 = (Inr (Some dir), ?d1)" by (simp add: project_root_def io dir)
  have attach: "run_attach_session ?rid sid ?d2
      = (Inr True, ?d2\<lparr> db_runs := db_runs ?db @ [(?rid, ?r1)] \<rparr>)"
    using sql_update_last[OF new]
    by (simp add: run_attach_session_def io update_runs_def started_row_def)
  have status: "run_update_status ?rid (lit ''running'') (?d2\<lparr> db_runs := db_runs ?db @ [(?rid, ?r1)] \<rparr>)
      = (Inr True, ?d2\<lparr> db_runs := db_runs ?db @ [(?rid, started_row env w c fire (Some sid))] \<rparr>)"
    using sql_update_last[OF new]
    by (simp add: run_update_status_def io update_runs_def started_row_def run_statuses_def)
  show ?thesis
    unfolding admit_and_spawn_with_id_def Let_def keep create
    using attach status
    by (simp add: keep reg root sp session_row_def spawned_run_def new_watcher_def quota)
qed

lemma process_fire_decided:
  assumes io: "db_io (ex_db ex) = []" and row: "row_of (ex_db ex) (fe_cron_id fire) = Some c"
    and d: "\<And>m. decide_fire env g w c (fe_fired_at fire) (ex\<lparr> ex_missed := m \<rparr>) = Some (Inr d, ex\<lparr> ex_missed := m \<rparr>)"
  obtains m where "process_fire env g w tr fire ex =
    map_option (\<lambda>ex3. ex3\<lparr> ex_db := persist_fire_watermark env c fire (ex_db ex3) \<rparr>)
      (let ex2 = note_throttle d fire (ex\<lparr> ex_missed := m \<rparr>) in
       if d = Admit then map_option snd (admit_and_spawn_with_id env w c fire (Some tr) ex2)
       else if is_deferral d then Some ex2
       else Some (ex2\<lparr> ex_db := write_rejected_audit env w c fire d (ex_db ex2) \<rparr>))"
proof -
  have g: "cron_get (fe_cron_id fire) (ex_db ex) = (Inr (Some c), ex_db ex)"
    by (simp add: cron_get_def io row)
  show thesis
    by (rule that[of "ex_missed ex @ (if fe_coalesced_count fire > 1 \<or> fe_catchup_truncated fire
        then [mode_label (Inr (Some c))] else [])"]) (simp add: process_fire_def g d Let_def)
qed

end
