(* ===== verification/Run_Properties.thy ===== *)
theory Run_Properties
  imports Run_History
begin

text \<open>
  The properties of the executor, over the histories and the step lemmas of the
  previous theory, each with a history or a state in which it is exercised.
\<close>

section \<open>A database and a world to run in\<close>

definition live_db :: "(str \<times> RunRecord) list \<Rightarrow> Db" where
  "live_db rows = (empty_db [lit ''b1''] [(lit ''p1'', lit ''/w'')])
     \<lparr> db_crons := [(lit ''c1'', demo_row 1)], db_runs := rows \<rparr>"

definition demo_world :: World where
  "demo_world = \<lparr> w_now = 0, w_mono = 0, w_new_id = lit ''r1'', w_loadavg = None, w_registered = (\<lambda>_. True),
     w_spawn = (\<lambda>_ _ _. Spawned (lit ''s1'')), w_json = (\<lambda>_. None), w_decimals = (\<lambda>_ _. []), w_debug = (\<lambda>s. s) \<rparr>"

definition demo_fire :: FireEvent where
  "demo_fire = \<lparr> fe_cron_id = lit ''c1'', fe_scheduled_at = 0, fe_fired_at = 0, fe_coalesced_count = 1,
     fe_catchup_truncated = False \<rparr>"

abbreviation demo_cap :: "str \<Rightarrow> nat" where "demo_cap \<equiv> \<lambda>_. 1"

abbreviation stranded_row :: RunRecord where
  "stranded_row \<equiv> started_row demo_env demo_world (demo_row 1) demo_fire None"

lemma demo_row_fields [simp]:
  "cr_id (demo_row e) = lit ''c1''" "cr_max_concurrent_runs (demo_row e) = 1" "cr_enabled (demo_row e) = e"
  "cr_backend_id (demo_row e) = lit ''b1''" "cr_project_id (demo_row e) = lit ''p1''"
  "cr_max_runs_per_day (demo_row e) = 5" "cr_max_runtime_s (demo_row e) = 60" "cr_cost_budget (demo_row e) = None"
  "cr_failure_backoff (demo_row e) = lit ''fixed(1m)''" "cr_pause_on_failures (demo_row e) = 2"
  "cr_consecutive_failures (demo_row e) = 0"
  by (simp_all add: demo_row_def demo_upsert_def upsert_row_def sql_real_def)

lemma live_db_fields [simp]:
  "db_io (live_db rows) = []" "db_crons (live_db rows) = [(lit ''c1'', demo_row 1)]" "db_runs (live_db rows) = rows"
  "db_projects (live_db rows) = [(lit ''p1'', lit ''/w'')]" "db_metrics (live_db rows) = []"
  by (simp_all add: live_db_def empty_db_def)

lemma live_db_ok: "db_ok (live_db [])" "db_ok (live_db [(lit ''r1'', stranded_row)])"
  by (simp_all add: db_ok_def db_core_def crons_wf_def runs_wf_def finished_count_def cron_checks_def run_checks_def
      live_db_def empty_db_def demo_row_def upsert_row_def demo_upsert_def started_row_def run_statuses_def
      demo_world_def demo_fire_def)

lemma demo_caps: "caps_ok default_global demo_cap"
  "within_caps demo_cap (live_db rows)" "\<forall>k. inflight_of k (live_db []) \<le> demo_cap k"
  "\<forall>k. inflight_of k (live_db [(i, r)]) \<le> demo_cap k"
  by (simp_all add: caps_ok_def default_global_def u32_max_def within_caps_def inflight_of_def)

lemma demo_start: "exec_run demo_env default_global demo_cap (exec_start (live_db []) None)"
  "exec_run demo_env default_global demo_cap (exec_start (live_db [(lit ''r1'', stranded_row)]) None)"
  using live_db_ok demo_caps by (auto intro: er_start)

lemma demo_backoff: "parse_failure_backoff_or_default (lit ''fixed(1m)'') = Some default_backoff"
  by (simp add: parse_failure_backoff_or_default_def parse_backoff_def lit_def trim_def trim_start_def trim_end_def
      is_ws_def Let_def)

abbreviation demo_quota :: CronQuota where
  "demo_quota \<equiv> \<lparr> max_concurrent_runs = 1, max_runs_per_day = 5, max_runtime_s = 60,
     cost_budget_usd_per_day = None, pause_on_consecutive_failures = 2, consecutive_failures = 0,
     failure_backoff = Some default_backoff, enabled = True \<rparr>"

lemma demo_quota: "cron_to_quota (demo_row 1) = Some demo_quota"
  by (simp add: cron_to_quota_def demo_backoff as_u32_def)

lemma demo_since: "checked_add (en_chrono demo_env) 0 (- DAY) = Some (- DAY)"
  by (simp add: demo_env_def chrono_std_def DAY_def nanos_per_sec_def)

lemma demo_admitted:
  "evaluate_admission (en_chrono demo_env) demo_quota default_global
     (gate_view demo_env demo_world (demo_row 1) 0 (- DAY) 0 (live_db [])) = Admit"
  by (simp add: evaluate_admission_def backoff_retry_after_def gate_view_def inflight_of_def Let_def
      as_u32_def default_global_def demo_world_def)

definition demo_started :: Exec where
  "demo_started = the (process_fire demo_env default_global demo_world [] demo_fire (exec_start (live_db []) None))"

lemma demo_started:
  "process_fire demo_env default_global demo_world [] demo_fire (exec_start (live_db []) None) = Some demo_started"
  "map wt_run_id (ex_watchers demo_started) = [lit ''r1'']"
  "db_runs (ex_db demo_started) = [(lit ''r1'', started_row demo_env demo_world (demo_row 1) demo_fire (Some (lit ''s1'')))]"
proof -
  let ?ex = "exec_start (live_db []) None"
  have row: "row_of (ex_db ?ex) (fe_cron_id demo_fire) = Some (demo_row 1)" and io: "db_io (ex_db ?ex) = []"
    by (simp_all add: exec_start_def demo_fire_def)
  have t: "fe_fired_at demo_fire = 0" by (simp add: demo_fire_def)
  have dec: "decide_fire demo_env default_global demo_world (demo_row 1) (fe_fired_at demo_fire) (?ex\<lparr> ex_missed := m \<rparr>)
      = Some (Inr Admit, ?ex\<lparr> ex_missed := m \<rparr>)" for m
    using decide_fire_io[of "?ex\<lparr> ex_missed := m \<rparr>", OF _ demo_quota demo_since] demo_admitted
    by (simp add: exec_start_def t)
  obtain m where p: "process_fire demo_env default_global demo_world [] demo_fire ?ex =
    map_option (\<lambda>ex3. ex3\<lparr> ex_db := persist_fire_watermark demo_env (demo_row 1) demo_fire (ex_db ex3) \<rparr>)
      (map_option snd (admit_and_spawn_with_id demo_env demo_world (demo_row 1) demo_fire (Some [])
        (note_throttle Admit demo_fire (?ex\<lparr> ex_missed := m \<rparr>))))"
    by (rule process_fire_decided[OF io row dec]) simp
  let ?ex2 = "note_throttle Admit demo_fire (?ex\<lparr> ex_missed := m \<rparr>)"
  let ?rows = "[(lit ''r1'', started_row demo_env demo_world (demo_row 1) demo_fire (Some (lit ''s1'')))]"
  let ?db = "(live_db [])\<lparr> db_runs := ?rows, db_sessions := lit ''s1'' # db_sessions (live_db []) \<rparr>"
  have keep: "ex_db ?ex2 = live_db []" "ex_watchers ?ex2 = []"
    by (simp_all add: note_throttle_def exec_start_def Let_def)
  have w: "w_new_id demo_world = lit ''r1''" "w_registered demo_world x" "w_spawn demo_world x y z = Spawned (lit ''s1'')" for x y z
    by (simp_all add: demo_world_def)
  obtain ex2 where adm: "admit_and_spawn_with_id demo_env demo_world (demo_row 1) demo_fire (Some []) ?ex2 = Some (Inr (lit ''r1''), ex2)"
    and ex2: "ex_db ex2 = ?db" "map wt_run_id (ex_watchers ex2) = [lit ''r1'']"
    by (rule that, rule admit_io[of ?ex2 demo_world "demo_row 1" demo_quota "lit ''/w''" "lit ''s1''" demo_env demo_fire "Some []",
      unfolded keep w live_db_fields demo_row_fields append_Nil, OF refl _ _ demo_quota]) (simp_all add: w)
  have mark: "db_runs (persist_fire_watermark demo_env (demo_row 1) demo_fire ?db) = ?rows"
    by (subst watermark_io(2)) (simp_all add: crons_wf_def)
  show d: "process_fire demo_env default_global demo_world [] demo_fire ?ex = Some demo_started"
    unfolding demo_started_def p by (simp add: adm)
  show "map wt_run_id (ex_watchers demo_started) = [lit ''r1'']" "db_runs (ex_db demo_started) = ?rows"
    unfolding demo_started_def p by (simp_all add: adm ex2 mark)
qed

section \<open>Concurrency limits\<close>

text \<open>C5. The executor's two counters are exact.  In every history, with failing
  statements and mutations of crons in between, the global counter is the number of
  runs being watched, which never exceeds the global limit, and the counters per
  cron add up to it.\<close>

theorem running_counters_agree:
  assumes "exec_run env g cap ex" and "caps_ok g cap"
  shows "ex_running_global ex = length (ex_watchers ex)
    \<and> sum_list (map snd (ex_running_per_cron ex)) = length (ex_watchers ex)
    \<and> (\<forall>k. map_of (ex_running_per_cron ex) k =
        (case length (filter (\<lambda>wt. cr_id (wt_cron wt) = k) (ex_watchers ex)) of 0 \<Rightarrow> None | Suc n \<Rightarrow> Some (Suc n)))
    \<and> length (ex_watchers ex) \<le> global_max_concurrent_runs g"
proof -
  note inv = exec_invD[OF exec_run_inv[OF assms]]
  have n: "length (filter (\<lambda>wt. cr_id (wt_cron wt) = k) (ex_watchers ex)) = count_list (watched_crons ex) k" for k
    by (simp add: count_list_eq_length_filter filter_map comp_def eq_commute)
  have "map_of (ex_running_per_cron ex) k =
      (case count_list (watched_crons ex) k of 0 \<Rightarrow> None | Suc n \<Rightarrow> Some (Suc n))" for k
    using inv(4) count_list_0_iff[of "watched_crons ex" k]
    by (cases "count_list (watched_crons ex) k") (simp_all only: counts_def if_True if_False nat.case, simp_all)
  then show ?thesis using inv(5,6) counts_sum[OF inv(4)] by (simp add: n)
qed

lemma demo_started_run: "exec_run demo_env default_global demo_cap demo_started"
  using er_step[OF demo_start(1) st_fire[OF demo_started(1)]] .

lemma running_counters_agree_witness:
  "ex_running_global demo_started = 1 \<and> sum_list (map snd (ex_running_per_cron demo_started)) = 1"
  using running_counters_agree[OF demo_started_run demo_caps(1)] arg_cong[OF demo_started(2), of length] by simp



section \<open>Runs that a crash leaves behind\<close>

text \<open>C15. A run that is in flight and has no watcher, as a daemon that was killed
  leaves it in the database, stays in flight whatever happens, and while it belongs
  to its cron and the cron allows one run at a time, no fire and no manual trigger
  of the cron is admitted.\<close>

theorem stranded_run_blocks_cron:
  assumes run: "exec_run env g cap ex" and caps: "caps_ok g cap"
    and stuck: "map_of (db_runs (ex_db ex)) i = Some r" "in_flight r" "i \<notin> wt_run_id ` set (ex_watchers ex)"
    and later: "(exec_step env g cap)\<^sup>*\<^sup>* ex ex'"
  shows "\<exists>r'. map_of (db_runs (ex_db ex')) i = Some r' \<and> in_flight r'
    \<and> (\<forall>k c w now ex2. rr_cron_id r' = Some k \<and> row_of (ex_db ex') k = Some c \<and> cr_max_concurrent_runs c \<le> 1
        \<longrightarrow> decide_fire env g w c now ex' \<noteq> Some (Inr Admit, ex2))"
proof -
  have ok: "db_ok (ex_db ex)" using exec_invD(1)[OF exec_run_inv[OF run caps]] .
  from later have "unwatched_kept ex ex' \<and> db_ok (ex_db ex') \<and> exec_run env g cap ex'"
  proof (induction rule: rtranclp_induct)
    case base
    then show ?case using run ok unwatched_kept_gentle[of True "{}" ex ex] by (simp add: gentle_ev.refl)
  next
    case (step y z)
    then show ?case
      using exec_step_unwatched[OF step(2)] unwatched_kept_trans[of ex y z] er_step[of env g cap y z] by blast
  qed
  then have kept: "unwatched_kept ex ex'" and inv: "exec_inv g cap ex'" using exec_run_inv[OF _ caps] by auto
  obtain r' where r': "map_of (db_runs (ex_db ex')) i = Some r'" "calm_row {} i r r'"
    using kept stuck unfolding unwatched_kept_def by blast
  then have live: "in_flight r'" using stuck(2) by (simp add: calm_row_def)
  have "decide_fire env g w c now ex' \<noteq> Some (Inr Admit, ex2)"
    if k: "rr_cron_id r' = Some k" "row_of (ex_db ex') k = Some c" "cr_max_concurrent_runs c \<le> 1" for k c w now ex2
  proof
    assume "decide_fire env g w c now ex' = Some (Inr Admit, ex2)"
    then have "int (inflight_of k (ex_db ex')) < 1" using admitted_bounds(2)[OF inv caps k(2)] k(3) by fastforce
    then have "filter (\<lambda>(_, r). rr_cron_id r = Some k \<and> in_flight r) (db_runs (ex_db ex')) = []"
      by (simp add: inflight_of_def)
    then show False using map_of_SomeD[OF r'(1)] k(1) live by (auto simp: filter_empty_conv)
  qed
  then show ?thesis using r'(1) live by blast
qed

lemma stranded_run_blocks_cron_witness:
  "\<forall>w now ex2. decide_fire demo_env default_global w (demo_row 1) now
     (exec_start (live_db [(lit ''r1'', stranded_row)]) None) \<noteq> Some (Inr Admit, ex2)"
proof -
  let ?ex = "exec_start (live_db [(lit ''r1'', stranded_row)]) None"
  have row: "map_of (db_runs (ex_db ?ex)) (lit ''r1'') = Some stranded_row" "lit ''r1'' \<notin> wt_run_id ` set (ex_watchers ?ex)"
    by (simp_all add: exec_start_def)
  have live: "in_flight stranded_row" "rr_cron_id stranded_row = Some (lit ''c1'')"
    by (simp_all add: in_flight_def started_row_def)
  have cron: "row_of (ex_db ?ex) (lit ''c1'') = Some (demo_row 1)" by (simp add: exec_start_def)
  show ?thesis
    using stranded_run_blocks_cron[OF demo_start(2) demo_caps(1) row(1) live(1) row(2) rtranclp.rtrancl_refl]
      row(1) live(2) cron by auto
qed

section \<open>The watcher\<close>

text \<open>A run with a time limit ends.  Once the watcher has read the session at or
  past the limit it has stopped; the read that decides is the first that finds the
  session ended or unreadable, or the limit reached, and the termination signal goes
  out exactly when it is the limit that decides.  The status is one of three, and
  completed means that the session exited with code zero.\<close>

theorem watch_stops:
  assumes "rt \<le> e"
  shows "\<exists>p' e' out. find (\<lambda>(p, e). poll_outcome sid p \<noteq> None \<or> rt \<le> e) (polls @ [(p, e)]) = Some (p', e')
    \<and> watch sid (Some rt) (polls @ [(p, e)]) = Some (out, poll_outcome sid p' = None)
    \<and> (case poll_outcome sid p' of Some o' \<Rightarrow> out = o'
       | None \<Rightarrow> to_status out = lit ''timed_out'' \<and> to_exit_code out = None
           \<and> to_error_kind out = Some (lit ''max_runtime_exceeded''))
    \<and> to_status out \<in> {lit ''completed'', lit ''failed'', lit ''timed_out''}
    \<and> (to_status out = lit ''completed'' \<longleftrightarrow> p' = Polled (lit ''exited'') (Some 0))"
  (is "\<exists>p' e' out. ?Q polls p' e' out")
proof (induction polls)
  case Nil
  then show ?case using assms
    by (auto simp: poll_outcome_def split: SessionPoll.splits option.splits if_splits)
next
  case (Cons x xs)
  obtain p0 e0 where x: "x = (p0, e0)" by (cases x)
  show ?case
  proof (cases "poll_outcome sid p0 = None \<and> e0 < rt")
    case True
    then show ?thesis using Cons by (simp add: x)
  next
    case False
    then show ?thesis
      by (auto simp: x poll_outcome_def split: SessionPoll.splits option.splits if_splits)
  qed
qed

lemma watch_stops_witness:
  "\<exists>out. watch [115] (Some 5) [(Polled (lit ''running'') None, 1), (Polled (lit ''running'') None, 6)] = Some (out, True)
    \<and> to_status out = lit ''timed_out''"
  using watch_stops[of 5 6 "[115]" "[(Polled (lit ''running'') None, 1)]" "Polled (lit ''running'') None"]
  by (auto simp: poll_outcome_def lit_def)

section \<open>The end of a run\<close>

text \<open>One cron gets a new row, the rest of the database stays.\<close>

definition recron :: "str \<Rightarrow> Cron \<Rightarrow> Db \<Rightarrow> Db \<Rightarrow> bool" where
  "recron k c' d d' \<longleftrightarrow> row_of d' k = Some c' \<and> (\<forall>j. j \<noteq> k \<longrightarrow> row_of d' j = row_of d j)
     \<and> db_runs d' = db_runs d \<and> db_io d' = db_io d \<and> db_now d' = db_now d \<and> crons_wf d'"

lemma recron_update:
  assumes "crons_wf d" "row_of d k = Some c" "update_crons k P f d = (n, d')"
  shows "recron k (if P c then (f c)\<lparr> cr_updated_at := db_now d \<rparr> else c) d d'"
  using crons_tbl.upd_get[OF assms(1,3)] crons_tbl.upd_wf[OF assms(1,3)] update_crons_frame[OF assms(3)] assms(2,3)
  by (auto simp: recron_def update_crons_def split: prod.splits)

lemma bump_io:
  assumes "db_io d = []" "crons_wf d" "row_of d k = Some c"
  obtains d' where "bump_consecutive_failures k d = (Inr (Some (cr_consecutive_failures c + 1)), d')"
    "recron k (c\<lparr> cr_consecutive_failures := cr_consecutive_failures c + 1, cr_updated_at := db_now d \<rparr>) d d'"
proof -
  let ?f = "\<lambda>r. r\<lparr> cr_consecutive_failures := cr_consecutive_failures r + 1 \<rparr>"
  obtain n d' where u: "update_crons k (\<lambda>_. True) ?f d = (n, d')" by fastforce
  have r: "recron k ((?f c)\<lparr> cr_updated_at := db_now d \<rparr>) d d'" using recron_update[OF assms(2,3) u] by simp
  show thesis by (rule that[OF _ r[simplified]]) (use r in \<open>simp add: bump_consecutive_failures_def assms(1) u recron_def\<close>)
qed

lemma pause_io:
  assumes "db_io d = []" "crons_wf d" "row_of d k = Some c"
  shows "recron k (if cr_enabled c = 1 \<and> cr_pause_on_failures c > 0 \<and> cr_consecutive_failures c \<ge> cr_pause_on_failures c
      then c\<lparr> cr_enabled := 0, cr_updated_at := db_now d \<rparr> else c) d (snd (pause_for_failures k d))"
proof -
  let ?P = "\<lambda>r. cr_enabled r = 1 \<and> cr_pause_on_failures r > 0 \<and> cr_consecutive_failures r \<ge> cr_pause_on_failures r"
  obtain n d' where u: "update_crons k ?P (\<lambda>r. r\<lparr> cr_enabled := 0 \<rparr>) d = (n, d')" by fastforce
  show ?thesis using recron_update[OF assms(2,3) u] by (simp add: pause_for_failures_def assms(1) u)
qed

lemma reset_io:
  assumes "db_io d = []" "crons_wf d" "row_of d k = Some c"
  shows "recron k (if cr_consecutive_failures c \<noteq> 0
      then c\<lparr> cr_consecutive_failures := 0, cr_updated_at := db_now d \<rparr> else c) d (snd (reset_consecutive_failures k d))"
proof -
  obtain n d' where u: "update_crons k (\<lambda>r. cr_consecutive_failures r \<noteq> 0) (\<lambda>r. r\<lparr> cr_consecutive_failures := 0 \<rparr>) d = (n, d')"
    by fastforce
  show ?thesis using recron_update[OF assms(2,3) u] by (simp add: reset_consecutive_failures_def assms(1) u)
qed

lemma finish_io:
  assumes "db_io d = []" "runs_wf d" "map_of (db_runs d) i = Some r" "rr_finished_at r = None"
    "rf_status f \<in> set run_statuses"
  shows "map_of (db_runs (snd (run_finish i f d))) i = Some (finish_row f r)"
    "db_crons (snd (run_finish i f d)) = db_crons d" "db_io (snd (run_finish i f d)) = []"
    "db_now (snd (run_finish i f d)) = db_now d"
proof -
  obtain n d' where u: "update_runs i (\<lambda>r. rr_finished_at r = None) (finish_row f) d = (n, d')" by fastforce
  have n: "0 < n" using runs_tbl.upd_hit[OF assms(2) u] assms(3,4) by blast
  have g: "map_of (db_runs d') i = Some (finish_row f r)" using runs_tbl.upd_get[OF assms(2) u] assms(3,4) by simp
  have "db_io d' = db_io d" "db_now d' = db_now d" using u by (auto simp: update_runs_def split: prod.splits)
  then have e: "snd (run_finish i f d) = count_terminal (rf_status f) d'"
    using u n assms(1,5) by (simp add: run_finish_def)
  show "map_of (db_runs (snd (run_finish i f d))) i = Some (finish_row f r)"
    "db_crons (snd (run_finish i f d)) = db_crons d" "db_io (snd (run_finish i f d)) = []"
    "db_now (snd (run_finish i f d)) = db_now d"
    unfolding e using g update_runs_frame[OF u] \<open>db_io d' = db_io d\<close> \<open>db_now d' = db_now d\<close> assms(1)
    by (simp_all add: count_terminal_def)
qed

definition pauses :: "Cron \<Rightarrow> Cron \<Rightarrow> bool" where
  "pauses cron c \<longleftrightarrow>
     should_auto_pause (as_u32 (max (cr_pause_on_failures cron) 0)) (as_u32 (cr_consecutive_failures c + 1))
     \<and> cr_enabled c = 1 \<and> cr_pause_on_failures c > 0 \<and> cr_consecutive_failures c + 1 \<ge> cr_pause_on_failures c"

definition outcome_row :: "str \<Rightarrow> Cron \<Rightarrow> Cron \<Rightarrow> Cron \<Rightarrow> bool" where
  "outcome_row st cron c c' \<longleftrightarrow>
     cr_consecutive_failures c' = (if failed_status st then cr_consecutive_failures c + 1
        else if st = lit ''completed'' then 0 else cr_consecutive_failures c)
     \<and> cr_enabled c' = (if failed_status st \<and> pauses cron c then 0 else cr_enabled c)
     \<and> c'\<lparr> cr_consecutive_failures := cr_consecutive_failures c, cr_enabled := cr_enabled c,
          cr_updated_at := cr_updated_at c \<rparr> = c"

lemma outcome_failed:
  assumes "failed_status st"
  shows "outcome_row st cron c
    (if pauses cron c then c\<lparr> cr_enabled := 0, cr_consecutive_failures := cr_consecutive_failures c + 1, cr_updated_at := t \<rparr>
     else c\<lparr> cr_consecutive_failures := cr_consecutive_failures c + 1, cr_updated_at := t \<rparr>)"
  using assms by (simp add: outcome_row_def)

lemma record_outcome_io:
  assumes io: "db_io d = []" "crons_wf d" "row_of d (cr_id cron) = Some c"
    and parse: "parse_failure_backoff_or_default (cr_failure_backoff cron) = Some b"
  obtains d' h' c' where "record_outcome env w cron st d h = Some (d', h')"
    "recron (cr_id cron) c' d d'" "outcome_row st cron c c'"
proof -
  let ?k = "cr_id cron"
  consider "failed_status st" | "\<not> failed_status st" "st = lit ''completed''" | "\<not> failed_status st" "st \<noteq> lit ''completed''"
    by blast
  then show thesis
  proof cases
    case 1
    let ?c1 = "c\<lparr> cr_consecutive_failures := cr_consecutive_failures c + 1, cr_updated_at := db_now d \<rparr>"
    let ?auto = "should_auto_pause (as_u32 (max (cr_pause_on_failures cron) 0)) (as_u32 (cr_consecutive_failures c + 1))"
    obtain d1 where d1: "bump_consecutive_failures ?k d = (Inr (Some (cr_consecutive_failures c + 1)), d1)"
      "recron ?k ?c1 d d1"
      by (rule bump_io[OF io])
    have w1: "db_io d1 = []" "crons_wf d1" "row_of d1 ?k = Some ?c1" "db_now d1 = db_now d"
      using d1(2) io(1) by (simp_all add: recron_def)
    note pz = pause_io[OF w1(1-3)]
    define d2 where "d2 = (if ?auto then snd (pause_for_failures ?k d1) else d1)"
    obtain h' where o: "record_outcome env w cron st d h = Some (d2, h')"
      using 1 d1(1) parse by (auto simp: record_outcome_def record_failure_def d2_def)
    have "recron ?k (if pauses cron c then c\<lparr> cr_enabled := 0, cr_consecutive_failures := cr_consecutive_failures c + 1,
         cr_updated_at := db_now d \<rparr> else ?c1) d d2"
      using pz d1(2) by (auto simp: d2_def recron_def pauses_def w1(4))
    then show thesis using that[OF o] outcome_failed[OF 1] by blast
  next
    case 2
    have "outcome_row st cron c (if cr_consecutive_failures c \<noteq> 0
      then c\<lparr> cr_consecutive_failures := 0, cr_updated_at := db_now d \<rparr> else c)"
      using 2 by (simp add: outcome_row_def)
    then show thesis using that[OF _ reset_io[OF io]] 2 by (simp add: record_outcome_def)
  next
    case 3
    have "outcome_row st cron c c" using 3 by (simp add: outcome_row_def)
    then show thesis using that[of d h c] 3 io by (simp add: record_outcome_def recron_def)
  qed
qed

text \<open>C16. What the end of a run does when no statement fails.  The row gets the
  outcome, a failure or timeout adds one to the failure counter of the cron and
  disables it when the counter reaches its limit, a success resets the counter, and
  nothing else changes in any cron.\<close>

theorem run_end_bookkeeping:
  assumes io: "db_io (ex_db ex) = []" and ok: "db_ok (ex_db ex)"
    and cron: "row_of (ex_db ex) (cr_id (wt_cron wt)) = Some c"
    and row: "map_of (db_runs (ex_db ex)) (wt_run_id wt) = Some r" "rr_finished_at r = None"
    and st: "to_status out \<in> set run_statuses"
    and parse: "parse_failure_backoff_or_default (cr_failure_backoff (wt_cron wt)) = Some b"
  shows "\<exists>ex' r' c'. watcher_done env w wt out ex = Some ex'
    \<and> map_of (db_runs (ex_db ex')) (wt_run_id wt) = Some r'
    \<and> rr_status r' = to_status out \<and> rr_exit_code r' = to_exit_code out
    \<and> rr_finished_at r' = Some (en_format_lex env (w_now w))
    \<and> row_of (ex_db ex') (cr_id (wt_cron wt)) = Some c'
    \<and> outcome_row (to_status out) (wt_cron wt) c c'
    \<and> (\<forall>j. j \<noteq> cr_id (wt_cron wt) \<longrightarrow> row_of (ex_db ex') j = row_of (ex_db ex) j)"
proof -
  let ?k = "cr_id (wt_cron wt)" and ?s = "to_status out"
  let ?f = "\<lparr> rf_finished_at = en_format_lex env (w_now w), rf_status = ?s,
              rf_exit_code = to_exit_code out, rf_cost_usd_est = None,
              rf_error_kind = to_error_kind out, rf_error_detail = to_error_detail out,
              rf_tail_log = map_option (\<lambda>tid. lit ''# trace_id='' @ tid @ [10]) (wt_trace_id wt) \<rparr>"
  define db where "db = snd (run_finish (wt_run_id wt) ?f (ex_db ex))"
  have wf: "runs_wf (ex_db ex)" "crons_wf (ex_db ex)" using ok db_coreD(1,2) by (auto simp: db_ok_def)
  note fin = finish_io[of "ex_db ex", OF io wf(1) row, of ?f, folded db_def]
  have db: "db_io db = []" "crons_wf db" "row_of db ?k = Some c" "db_crons db = db_crons (ex_db ex)"
    "map_of (db_runs db) (wt_run_id wt) = Some (finish_row ?f r)"
    using fin st wf(2) cron by (simp_all add: crons_wf_def)
  obtain d' h c' where o: "record_outcome env w (wt_cron wt) ?s db (ex_heap ex) = Some (d', h)"
    "recron ?k c' db d'" "outcome_row ?s (wt_cron wt) c c'"
    by (rule record_outcome_io[OF db(1-3) parse])
  show ?thesis
    using o db(4,5) unfolding watcher_done_def Let_def db_def[symmetric]
    by (auto simp: recron_def decrement_global_and_cron_def decrement_global_def finish_row_def)
qed

lemma run_end_bookkeeping_witness:
  "\<exists>ex'. watcher_done demo_env demo_world
      \<lparr> wt_run_id = lit ''r1'', wt_session_id = lit ''s1'', wt_cron = demo_row 1, wt_trace_id = None, wt_max_runtime = None \<rparr>
      \<lparr> to_status = lit ''failed'', to_exit_code = Some 1, to_error_kind = None, to_error_detail = None \<rparr>
      (exec_start (live_db [(lit ''r1'', stranded_row)]) None) = Some ex'
    \<and> map_option cr_consecutive_failures (row_of (ex_db ex') (lit ''c1'')) = Some 1"
proof -
  let ?wt = "\<lparr> wt_run_id = lit ''r1'', wt_session_id = lit ''s1'', wt_cron = demo_row 1, wt_trace_id = None, wt_max_runtime = None \<rparr>"
  let ?out = "\<lparr> to_status = lit ''failed'', to_exit_code = Some 1, to_error_kind = None, to_error_detail = None \<rparr>"
  let ?ex = "exec_start (live_db [(lit ''r1'', stranded_row)]) None"
  have ex: "ex_db ?ex = live_db [(lit ''r1'', stranded_row)]" by (simp add: exec_start_def)
  have st: "to_status ?out \<in> set run_statuses" "rr_finished_at stranded_row = None"
    by (simp_all add: run_statuses_def started_row_def)
  show ?thesis
    using run_end_bookkeeping[of ?ex ?wt "demo_row 1" stranded_row ?out default_backoff demo_env demo_world] live_db_ok(2) st
    by (fastforce simp: ex demo_backoff outcome_row_def failed_status_def)
qed

section \<open>A fire\<close>

text \<open>C8. What a fire does when no statement fails and the spawn succeeds.  The gate is
  asked about the database as it is; admitted, it adds exactly one running row with
  its session and starts exactly one watcher; refused for good it adds one audit row
  and counts it; deferred it adds nothing.  In each case the watermark of the fired
  cron is stored, no other cron is touched, and the throttling flag tells whether the
  load average was the reason.\<close>

theorem fire_outcome:
  assumes io: "db_io (ex_db ex) = []" and ok: "db_ok (ex_db ex)"
    and row: "row_of (ex_db ex) (fe_cron_id fire) = Some c"
    and quota: "cron_to_quota c = Some q"
    and since: "checked_add (en_chrono env) (fe_fired_at fire) (- DAY) = Some since"
    and new: "map_of (db_runs (ex_db ex)) (w_new_id w) = None"
    and reg: "w_registered w (cr_backend_id c)" and dir: "map_of (db_projects (ex_db ex)) (cr_project_id c) = Some dir"
    and sp: "w_spawn w (cr_backend_id c) (cr_project_id c) (cron_request w c dir) = Spawned sid"
    and d: "d = evaluate_admission (en_chrono env) q g
      (gate_view env w c (fe_fired_at fire) since (ex_running_global ex) (ex_db ex))"
  shows "\<exists>ex'. process_fire env g w tr fire ex = Some ex'
    \<and> db_runs (ex_db ex') = db_runs (ex_db ex) @
        (if d = Admit then [(w_new_id w, started_row env w c fire (Some sid))]
         else if is_deferral d then [] else [(w_new_id w, audit_row env w c fire d)])
    \<and> map wt_run_id (ex_watchers ex') = map wt_run_id (ex_watchers ex) @ (if d = Admit then [w_new_id w] else [])
    \<and> db_metrics (ex_db ex') = db_metrics (ex_db ex) @
        (if d = Admit \<or> is_deferral d then [] else [cron_status_label (the (rejected_status d))])
    \<and> ex_throttled_by_loadavg ex' = (error_kind d = Some (lit ''quota_cpu_load_throttle''))
    \<and> (\<forall>j. row_of (ex_db ex') j =
        (if j = fe_cron_id fire then Some (fired_row env (ex_db ex) fire c) else row_of (ex_db ex) j))"
proof -
  have k: "cr_id c = fe_cron_id fire" and wf: "crons_wf (ex_db ex)"
    using ok row db_coreD(1,3) by (auto simp: db_ok_def)
  have dec: "decide_fire env g w c (fe_fired_at fire) (ex\<lparr> ex_missed := m \<rparr>) = Some (Inr d, ex\<lparr> ex_missed := m \<rparr>)" for m
    using decide_fire_io[of "ex\<lparr> ex_missed := m \<rparr>", OF _ quota since] io by (simp add: d)
  obtain m where p: "process_fire env g w tr fire ex =
    map_option (\<lambda>ex3. ex3\<lparr> ex_db := persist_fire_watermark env c fire (ex_db ex3) \<rparr>)
      (let ex2 = note_throttle d fire (ex\<lparr> ex_missed := m \<rparr>) in
       if d = Admit then map_option snd (admit_and_spawn_with_id env w c fire (Some tr) ex2)
       else if is_deferral d then Some ex2
       else Some (ex2\<lparr> ex_db := write_rejected_audit env w c fire d (ex_db ex2) \<rparr>))"
    by (rule process_fire_decided[OF io row dec])
  let ?ex2 = "note_throttle d fire (ex\<lparr> ex_missed := m \<rparr>)"
  have keep: "ex_db ?ex2 = ex_db ex" "ex_watchers ?ex2 = ex_watchers ex"
    "ex_throttled_by_loadavg ?ex2 = (error_kind d = Some (lit ''quota_cpu_load_throttle''))"
    by (simp_all add: note_throttle_def Let_def)
  have mark: "row_of (persist_fire_watermark env c fire db) j =
      (if j = fe_cron_id fire then Some (fired_row env (ex_db ex) fire c) else row_of (ex_db ex) j)"
      "db_runs (persist_fire_watermark env c fire db) = db_runs db"
      "db_metrics (persist_fire_watermark env c fire db) = db_metrics db"
    if "db_io db = []" "db_crons db = db_crons (ex_db ex)" "db_now db = db_now (ex_db ex)" for db j
    using watermark_io[of db c env fire] that wf row k
    by (simp_all add: crons_wf_def fired_row_def Let_def)
  consider "d = Admit" | "d \<noteq> Admit" "is_deferral d" | "d \<noteq> Admit" "\<not> is_deferral d" by blast
  then show ?thesis
  proof cases
    case 1
    have "admit_and_spawn_with_id env w c fire (Some tr) ?ex2 = Some (Inr (w_new_id w),
      reserve_slot (cr_id c) ?ex2\<lparr> ex_db := (ex_db ex)\<lparr>
          db_runs := db_runs (ex_db ex) @ [(w_new_id w, started_row env w c fire (Some sid))],
          db_sessions := sid # db_sessions (ex_db ex) \<rparr>,
        ex_fired := ex_fired ?ex2 @ [\<lparr> cf_cron_id = cr_id c, cf_run_id = w_new_id w,
            cf_fired_at = en_rfc3339 env (fe_fired_at fire), cf_status = lit ''running'' \<rparr>],
        ex_watchers := ex_watchers ex @ [\<lparr> wt_run_id = w_new_id w, wt_session_id = sid, wt_cron = c,
            wt_trace_id = Some tr, wt_max_runtime = max_runtime q \<rparr>] \<rparr>)"
      using admit_io[of ?ex2 w c q dir sid env fire "Some tr"] io new row k quota reg dir sp by (simp add: keep)
    then show ?thesis using 1 p mark(1) mark(2,3) io keep(3) by (simp add: reserve_slot_def keep(1,2) note_throttle_def Let_def)
  next
    case 2
    then show ?thesis using p mark io by (simp add: keep)
  next
    case 3
    have "write_rejected_audit env w c fire d (ex_db ex) = count_terminal (the (rejected_status d))
        ((ex_db ex)\<lparr> db_runs := db_runs (ex_db ex) @ [(w_new_id w, audit_row env w c fire d)] \<rparr>)"
      by (rule audit_io) (use io new row k 3 in simp_all)
    then show ?thesis using p 3 mark io by (simp add: keep count_terminal_def)
  qed
qed

lemma fire_outcome_witness:
  "\<exists>ex'. process_fire demo_env default_global demo_world [] demo_fire (exec_start (live_db []) None) = Some ex'
    \<and> map fst (db_runs (ex_db ex')) = [lit ''r1''] \<and> map wt_run_id (ex_watchers ex') = [lit ''r1'']"
proof -
  let ?ex = "exec_start (live_db []) None"
  have ex: "ex_db ?ex = live_db []" "ex_watchers ?ex = []" "ex_running_global ?ex = 0" by (simp_all add: exec_start_def)
  have w: "w_new_id demo_world = lit ''r1''" "w_registered demo_world x" "w_spawn demo_world x y z = Spawned (lit ''s1'')"
    "fe_cron_id demo_fire = lit ''c1''" "fe_fired_at demo_fire = 0" for x y z
    by (simp_all add: demo_world_def demo_fire_def)
  show ?thesis
    using fire_outcome[of ?ex demo_fire "demo_row 1" demo_quota demo_env "- DAY" demo_world "lit ''/w''" "lit ''s1''"
        Admit default_global "[]"] live_db_ok(1) demo_quota demo_since demo_admitted
    by (auto simp: ex w)
qed

section \<open>A text that stops the executor\<close>

text \<open>A cron whose stored failure backoff makes the scheduler's parser panic takes
  the executor down: every fire of it, and every manual trigger, panics before the
  admission is decided, whatever the state of the daemon.\<close>

theorem backoff_text_stops_executor:
  assumes "db_io (ex_db ex) = []" and "row_of (ex_db ex) k = Some c" and "cr_id c = k"
    and "parse_backoff (cr_failure_backoff c) = None" and "fe_cron_id fire = k"
  shows "process_fire env g w tr fire ex = None \<and> run_now env g w k ex = None"
proof -
  have q: "cron_to_quota c = None" using assms(4) by (simp add: cron_to_quota_def parse_failure_backoff_or_default_def)
  have snap: "build_snapshot env w c now n (ex_db ex) = None \<or> (\<exists>s. build_snapshot env w c now n (ex_db ex) = Some (Inr s, ex_db ex))" for now n
    by (cases "checked_add (en_chrono env) now (- DAY)") (auto simp: build_snapshot_def count_running_for_cron_def
        count_since_for_cron_def sum_cost_since_for_cron_def last_terminal_failure_at_for_cron_def count_rows_def
        assms(1) Let_def)
  have d: "decide_fire env g w c now ex2 = None" if "ex_db ex2 = ex_db ex" for now ex2
    using snap[of now "ex_running_global ex2"] q that by (auto simp: decide_fire_def)
  have get: "cron_get k (ex_db ex) = (Inr (Some c), ex_db ex)" using assms(1,2) by (simp add: cron_get_def)
  show ?thesis by (simp add: process_fire_def run_now_def get d assms(3,5) Let_def)
qed

lemma bad_backoff: "parse_backoff (lit ''expo(1'' @ [233] @ lit '',2,60s)'') = None"
  by (simp add: parse_backoff_def parse_duration_def lit_def trim_def trim_start_def trim_end_def is_ws_def Let_def
      utf8_width_def bind_outcome_def strip_suffix_def)

lemma backoff_text_stops_executor_witness:
  "process_fire demo_env default_global demo_world [] demo_fire
     (exec_start ((live_db [])\<lparr> db_crons := [(lit ''c1'',
        (demo_row 1)\<lparr> cr_failure_backoff := lit ''expo(1'' @ [233] @ lit '',2,60s)'' \<rparr>)] \<rparr>) None) = None"
proof -
  let ?c = "(demo_row 1)\<lparr> cr_failure_backoff := lit ''expo(1'' @ [233] @ lit '',2,60s)'' \<rparr>"
  let ?ex = "exec_start ((live_db [])\<lparr> db_crons := [(lit ''c1'', ?c)] \<rparr>) None"
  have "db_io (ex_db ?ex) = []" "row_of (ex_db ?ex) (lit ''c1'') = Some ?c" "cr_id ?c = lit ''c1''"
    by (simp_all add: exec_start_def)
  then show ?thesis
    using backoff_text_stops_executor[of ?ex "lit ''c1''" ?c demo_fire demo_env default_global demo_world "[]"] bad_backoff
    by (simp add: demo_fire_def)
qed

section \<open>The prompt of a cron\<close>

text \<open>The prompt of a cron does not reach the agent.  The request that the executor
  makes asks for a terminal, and for each of the three adapters the command line,
  environment and program it turns into are those of the same cron with any other
  prompt; the only other channel, the adapter's encoding of user input, is not called
  by the daemon.\<close>

theorem cron_prompt_not_in_spec:
  "claude_spawn_spec p (cron_request w c dir) = claude_spawn_spec p (cron_request w (c\<lparr> cr_prompt := x \<rparr>) dir)
   \<and> codex_spawn_spec p (cron_request w c dir) = codex_spawn_spec p (cron_request w (c\<lparr> cr_prompt := x \<rparr>) dir)
   \<and> opencode_spawn_spec p (cron_request w c dir) = opencode_spawn_spec p (cron_request w (c\<lparr> cr_prompt := x \<rparr>) dir)"
  by (simp add: claude_spawn_spec_def codex_spawn_spec_def opencode_spawn_spec_def spec_of_def spec_env_def
      cron_request_def new_request_def resolved_program_def)

section \<open>Starting the scheduler\<close>

lemma backoff_update_lookup:
  "heap_lookup (snd (handle_update_backoff_state ch now k b lf n h)) j = heap_lookup h j"
  by (cases h) (auto simp: handle_update_backoff_state_def handle_call_def apply_command_def apply_backoff_update_def
      set_backoff_def refresh_next_fire_def push_fire_def table_get_def heap_lookup_def update_conv' Let_def
      split: option.splits prod.splits)

lemma seed_backoff_lookup:
  "seed_backoff env now c db h = Some (r, db', h') \<Longrightarrow> heap_lookup h' j = heap_lookup h j"
  by (cases "last_terminal_failure_at_for_cron (cr_id c) db"; cases "fst (last_terminal_failure_at_for_cron (cr_id c) db)")
     (auto simp: seed_backoff_def backoff_update_lookup bind_eq_Some_conv split: if_splits)

text \<open>What the scheduler should hold for a row.\<close>

definition wanted_entry :: "Env \<Rightarrow> Cron \<Rightarrow> (CronSpec \<times> CatchupMode) option" where
  "wanted_entry env c = (if cr_enabled c = 0 then None
     else case parse_cron_spec env c of Inl _ \<Rightarrow> None | Inr (spec, mode, _) \<Rightarrow> Some (spec, mode))"

lemma seed_loop_installs:
  assumes "seed_loop env now crons db h = Some (Inr (), db', h')" "distinct (map cr_id crons)"
  shows "heap_lookup h' k = (case find (\<lambda>c. cr_id c = k) crons of
      Some c \<Rightarrow> (case wanted_entry env c of None \<Rightarrow> heap_lookup h k | Some e \<Rightarrow> Some e)
    | None \<Rightarrow> heap_lookup h k)"
  using assms
proof (induction env now crons db h rule: seed_loop.induct)
  case (2 env now cron rest db h)
  have fresh: "find (\<lambda>c. cr_id c = cr_id cron) rest = None" using 2(5) by (simp add: find_None_iff) (metis imageI)
  show ?case
  proof (cases "wanted_entry env cron")
    case None
    then have "seed_loop env now rest db h = Some (Inr (), db', h')"
      using 2(4) by (auto simp: wanted_entry_def split: if_splits sum.splits prod.splits)
    then show ?thesis using 2 None fresh
      by (auto simp: wanted_entry_def split: if_splits sum.splits prod.splits)
  next
    case (Some e)
    then obtain spec mode i where p: "cr_enabled cron \<noteq> 0" "parse_cron_spec env cron = Inr (spec, mode, i)" "e = (spec, mode)"
      by (auto simp: wanted_entry_def split: if_splits sum.splits)
    obtain v h1 where u: "handle_upsert (en_chrono env) now (cr_id cron) spec mode i
        (Option.bind (cr_last_fired_at cron) (en_parse_lex env)) h = (Inr v, h1)"
      using 2(4) p by (auto split: prod.splits sum.splits)
    obtain db2 h2 where b: "seed_backoff env now cron db h1 = Some (Inr (), db2, h2)"
      "seed_loop env now rest db2 h2 = Some (Inr (), db', h')"
      using 2(4) p u by (auto simp: bind_eq_Some_conv split: sum.splits) (metis old.unit.exhaust sum.exhaust)
    have l: "heap_lookup h2 j = (if j = cr_id cron then Some e else heap_lookup h j)" for j
      using seed_backoff_lookup[OF b(1)] sched_heap.install_ok[OF u] p(3) by simp
    have "distinct (map cr_id rest)" using 2(5) by simp
    note ih = 2(3)[OF p(1,2) refl refl u[symmetric] refl b(1) refl refl refl b(2) this]
    show ?thesis using ih l fresh Some by (auto split: option.splits)
  qed
qed simp

lemma find_key:
  assumes "distinct (map cr_id xs)" "c \<in> set xs"
  shows "find (\<lambda>x. cr_id x = cr_id c) xs = Some c"
  using assms by (induction xs) force+

text \<open>A restarted daemon gives the scheduler exactly the crons that are to run.  When
  the seeding succeeds, the scheduler holds an entry for a cron if and only if its row
  is enabled and its expression and zone parse, and then with the spec and the
  catch-up mode of the row.\<close>

theorem seed_installs_enabled:
  assumes run: "seed_crons_into_scheduler env now db h = Some (Inr (), db', h')"
    and ok: "db_core db" and new: "\<And>k. heap_lookup h k = None"
  shows "heap_lookup h' k = Option.bind (row_of db k) (wanted_entry env)"
proof -
  let ?crons = "sort_key (\<lambda>r. [cr_name r, cr_id r]) (map snd (db_crons db))"
  note wf = db_coreD(1)[OF ok, unfolded crons_wf_def]
  have ids: "cr_id c = i" if "(i, c) \<in> set (db_crons db)" for i c
    using db_coreD(3)[OF ok] map_of_is_SomeI[OF wf that] by blast
  have "map cr_id (map snd (db_crons db)) = map fst (db_crons db)" using ids by auto
  then have "distinct (map cr_id (map snd (db_crons db)))" using wf by metis
  then have d: "distinct (map cr_id ?crons)"
    by (simp only: distinct_map distinct_sort set_sort)
  obtain db1 where s: "seed_loop env now ?crons db1 h = Some (Inr (), db', h')"
    using run by (cases "db_io db"; cases "hd (db_io db)")
      (auto simp: seed_crons_into_scheduler_def cron_list_def run_stmt_def stmt_def)
  have f: "find (\<lambda>c. cr_id c = k) ?crons = row_of db k"
  proof (cases "row_of db k")
    case None
    then have "k \<notin> fst ` set (db_crons db)" by (simp add: map_of_eq_None_iff)
    then show ?thesis using None ids by (force simp: find_None_iff)
  next
    case (Some c)
    then have "cr_id c = k" "c \<in> set ?crons" using db_coreD(3)[OF ok] map_of_SomeD[OF Some] by force+
    then show ?thesis using find_key[OF d, of c] Some by simp
  qed
  show ?thesis using seed_loop_installs[OF s d, of k] new unfolding f by (auto split: option.splits)
qed

lemma seed_installs_enabled_witness:
  "\<exists>db' h' spec. seed_crons_into_scheduler demo_env 0 (live_db []) (ct_heap demo_control) = Some (Inr (), db', h')
     \<and> heap_lookup h' (lit ''c1'') = Some (spec, Skip)"
proof -
  obtain spec where p: "parse_cron_spec demo_env (demo_row 1) = Inr (spec, Skip, REPLAY_INTERVAL_FLOOR)"
    using parse_demo by (auto simp: parse_cron_spec_def demo_row_def upsert_row_def demo_upsert_def catchup_mode_from_str_def)
  have lf: "cr_last_fired_at (demo_row 1) = None" by (simp add: demo_row_def upsert_row_def demo_upsert_def)
  have empty: "\<forall>k. heap_lookup (ct_heap demo_control) k = None"
    by (simp add: demo_control_def heap_lookup_def table_get_def new_table_def)
  obtain v h' where u: "handle_upsert (en_chrono demo_env) 0 (lit ''c1'') spec Skip REPLAY_INTERVAL_FLOOR None (ct_heap demo_control)
      = (Inr v, h')"
    by (rule that) (simp add: handle_upsert_def handle_call_def apply_command_def install_entry_def demo_control_def
        table_upsert_def Let_def; rule refl)
  have s: "seed_crons_into_scheduler demo_env 0 (live_db []) (ct_heap demo_control) = Some (Inr (), live_db [], h')"
    by (simp add: seed_crons_into_scheduler_def cron_list_def p lf u seed_backoff_def)
  have "wanted_entry demo_env (demo_row 1) = Some (spec, Skip)" by (simp add: wanted_entry_def p)
  then have "heap_lookup h' (lit ''c1'') = Some (spec, Skip)"
    using seed_installs_enabled[OF s _ empty[rule_format], of "lit ''c1''"] live_db_ok(1) by (simp add: db_ok_def)
  then show ?thesis using s by blast
qed

section \<open>The health report\<close>

lemma sum_positive: "sum_list (map snd (filter (\<lambda>(_, n). 0 < n) m)) = sum_list (map snd (m :: (str \<times> nat) list))"
  by (induction m) auto

text \<open>The health report is consistent in every history: the crons are listed in
  order, each once and with at least one run, and their numbers add up to the global
  number, which is within the limit; the next fire is one that no other entry of the
  scheduler precedes.\<close>

theorem health_report_consistent:
  assumes "exec_run env g cap ex" and "caps_ok g cap" and "publish_scheduler_health env w queued ex = (p, ex')"
  shows "sh_running_global p = sum_list (map snd (sh_running_per_cron p))
    \<and> sh_running_global p \<le> global_max_concurrent_runs g
    \<and> sorted (map fst (sh_running_per_cron p)) \<and> distinct (map fst (sh_running_per_cron p))
    \<and> (\<forall>(k, n) \<in> set (sh_running_per_cron p). 0 < n)
    \<and> (\<forall>s. ex_heap ex = Some s \<longrightarrow>
        (case snapshot (s_table s) of [] \<Rightarrow> sh_next_fire p = None
         | e # es \<Rightarrow> sh_next_fire p = Some (he_id e, en_rfc3339 env (fire_at e)) \<and> (\<forall>e' \<in> set es. e \<le> e')))"
proof -
  note inv = exec_invD[OF exec_run_inv[OF assms(1,2)]]
  have p: "sh_running_global p = ex_running_global ex"
    "sh_running_per_cron p = sort_key fst (filter (\<lambda>(_, n). 0 < n) (ex_running_per_cron ex))"
    using assms(3) by (auto simp: publish_scheduler_health_def snapshot_running_per_cron_def Let_def split: prod.splits)
  have m: "mset (sh_running_per_cron p) = mset (filter (\<lambda>(_, n). 0 < n) (ex_running_per_cron ex))"
    by (simp add: p(2))
  have sum: "sum_list (map snd (sh_running_per_cron p)) = length (ex_watchers ex)"
    using counts_sum[OF inv(4)] sum_positive[of "ex_running_per_cron ex"] arg_cong[OF m, of "\<lambda>x. sum_mset (image_mset snd x)"]
    by (simp only: mset_map[symmetric] sum_mset_sum_list length_map)
  have "distinct (map fst (filter (\<lambda>(_, n). 0 < n) (ex_running_per_cron ex)))"
    using inv(4) by (simp add: counts_def distinct_map_filter)
  then have d: "distinct (map fst (sh_running_per_cron p))"
    using arg_cong[OF m, of "image_mset fst"] by (metis mset_eq_imp_distinct_iff mset_map)
  have nf: "case snapshot (s_table s) of [] \<Rightarrow> sh_next_fire p = None
      | e # es \<Rightarrow> sh_next_fire p = Some (he_id e, en_rfc3339 env (fire_at e)) \<and> (\<forall>e' \<in> set es. e \<le> e')"
    if s: "ex_heap ex = Some s" for s
  proof -
    have "sorted (snapshot (s_table s))" by (simp add: snapshot_def)
    moreover have "sh_next_fire p = (case snapshot (s_table s) of e # _ \<Rightarrow> Some (he_id e, en_rfc3339 env (fire_at e)) | [] \<Rightarrow> None)"
      using assms(3) by (auto simp: publish_scheduler_health_def handle_snapshot_def handle_call_def apply_command_def
          s Let_def split: list.splits)
    ultimately show ?thesis by (cases "snapshot (s_table s)") auto
  qed
  show ?thesis using sum inv(5,6) d nf by (auto simp: p)
qed

lemma health_report_consistent_witness:
  "sum_list (map snd (sh_running_per_cron (fst (publish_scheduler_health demo_env demo_world 0 demo_started)))) \<le> 8"
  using health_report_consistent[OF demo_started_run demo_caps(1) prod.collapse[symmetric], of demo_world 0]
  by (auto simp: default_global_def)

end
