(* ===== verification/Run_Archive.thy ===== *)
theory Run_Archive
  imports Storage_Repos
begin

text \<open>
  Model of \<open>RunsRepo::archive_older_than_days\<close> (\<open>la-storage/src/repos.rs\<close>): finished runs
  older than the retention are appended to compressed files, one per month, and then
  deleted, in batches.  An archive file is a sequence of compressed frames; a write
  that breaks off leaves a torn frame, behind which a decoder reads nothing.  SQLite's
  date arithmetic and the outcomes of the writes are parameters.
\<close>

section \<open>State\<close>

datatype Segment = Frame "RunRecord list" | Torn

record Archive =
  ar_db :: Db
  ar_files :: "str \<Rightarrow> Segment list"

text \<open>What becomes of one append: everything synced, a complete frame whose sync failed,
  a torn frame, or nothing written.\<close>

datatype Append = Synced | Unsynced | TornWrite | NotOpened

datatype ArchiveError = ArSql StorageError | ArIo

record RunsArchiveOutcome =
  ao_archived_rows :: nat
  ao_archive_files :: nat

section \<open>Operations\<close>

definition ARCHIVE_BATCH_SIZE :: nat where "ARCHIVE_BATCH_SIZE = 500"

definition archive_month_key :: "str \<Rightarrow> str" where
  "archive_month_key scheduled_at =
     (let digits = take 6 (filter is_digit scheduled_at)
      in if length digits = 6 then digits else lit ''unknown'')"

definition archivable :: "str \<Rightarrow> RunRecord \<Rightarrow> bool" where
  "archivable cutoff r \<longleftrightarrow> (case rr_finished_at r of None \<Rightarrow> False | Some f \<Rightarrow> f < cutoff)
     \<and> rr_status r \<in> set (map lit [''completed'', ''failed'', ''timed_out'', ''cancelled'', ''budget_exceeded''])"

text \<open>WHERE finished_at \<open><\<close> cutoff AND status IN \<open>\<dots>\<close> ORDER BY finished_at, id LIMIT 500.\<close>

definition select_batch :: "str \<Rightarrow> Db \<Rightarrow> (str \<times> RunRecord) list" where
  "select_batch cutoff db =
     take ARCHIVE_BATCH_SIZE (sort_key (\<lambda>(i, r). [the (rr_finished_at r), i])
       (filter (\<lambda>(_, r). archivable cutoff r) (db_runs db)))"

definition by_month :: "(str \<times> RunRecord) list \<Rightarrow> (str \<times> RunRecord list) list" where
  "by_month rows =
     (let key = (\<lambda>(_, r). archive_month_key (rr_scheduled_at r)) in
      map (\<lambda>m. (m, map snd (filter (\<lambda>x. key x = m) rows))) (sort (remdups (map key rows))))"

definition append_runs_archive :: "Append \<Rightarrow> str \<Rightarrow> RunRecord list \<Rightarrow> (str \<Rightarrow> Segment list) \<Rightarrow> bool \<times> (str \<Rightarrow> Segment list)" where
  "append_runs_archive o1 month rows files =
     (case o1 of
        Synced \<Rightarrow> (True, files(month := files month @ [Frame rows]))
      | Unsynced \<Rightarrow> (False, files(month := files month @ [Frame rows]))
      | TornWrite \<Rightarrow> (False, files(month := files month @ [Torn]))
      | NotOpened \<Rightarrow> (False, files))"

text \<open>The outcomes are consumed one per append; without one the append succeeds.\<close>

fun append_months ::
    "Append list \<Rightarrow> (str \<times> RunRecord list) list \<Rightarrow> (str \<Rightarrow> Segment list) \<Rightarrow> bool \<times> Append list \<times> (str \<Rightarrow> Segment list)" where
  "append_months os [] files = (True, os, files)"
| "append_months os ((month, rows) # more_months) files =
     (let (ok, files1) = append_runs_archive (case os of [] \<Rightarrow> Synced | x # _ \<Rightarrow> x) month rows files in
      if ok then append_months (tl os) more_months files1 else (False, tl os, files1))"

definition delete_runs :: "str list \<Rightarrow> Db \<Rightarrow> (StorageError + unit) \<times> Db" where
  "delete_runs ids = run_stmt (\<lambda>db. Inr ((), db\<lparr> db_runs := filter (\<lambda>(i, _). i \<notin> set ids) (db_runs db) \<rparr>))"

text \<open>One batch: the rows archived and whether another batch follows.\<close>

definition archive_batch ::
    "(str \<Rightarrow> str) \<Rightarrow> Append list \<Rightarrow> Archive \<Rightarrow> (ArchiveError + (str \<times> RunRecord) list) \<times> Append list \<times> Archive" where
  "archive_batch cutoff os st =
     (case run_stmt (\<lambda>db. Inr (select_batch (cutoff (db_now db)) db, db)) (ar_db st) of
        (Inl e, db) \<Rightarrow> (Inl (ArSql e), os, st\<lparr> ar_db := db \<rparr>)
      | (Inr rows, db) \<Rightarrow>
          if rows = [] then (Inr [], os, st\<lparr> ar_db := db \<rparr>)
          else (let (ok, os1, files) = append_months os (by_month rows) (ar_files st);
                    st1 = st\<lparr> ar_db := db, ar_files := files \<rparr>
                in if \<not> ok then (Inl ArIo, os1, st1)
                   else (case delete_runs (map fst rows) db of
                       (Inl e, db1) \<Rightarrow> (Inl (ArSql e), os1, st1\<lparr> ar_db := db1 \<rparr>)
                     | (Inr _, db1) \<Rightarrow> (Inr rows, os1, st1\<lparr> ar_db := db1 \<rparr>))))"

lemma select_batch_set: "x \<in> set (select_batch cutoff db) \<Longrightarrow> x \<in> set (db_runs db) \<and> archivable cutoff (snd x)"
  by (auto simp: select_batch_def dest!: in_set_takeD)

lemma delete_runs_result:
  "delete_runs ids db = (Inr u, db') \<Longrightarrow> db_runs db' = filter (\<lambda>(i, _). i \<notin> set ids) (db_runs db)"
  "delete_runs ids db = (Inl e, db') \<Longrightarrow> db_runs db' = db_runs db"
  unfolding delete_runs_def by (erule run_stmtE; force)+

lemma archive_batch_shrinks:
  assumes "archive_batch cutoff os st = (Inr rows, os', st')" "rows \<noteq> []"
  shows "length (db_runs (ar_db st')) < length (db_runs (ar_db st))"
proof -
  obtain db where s: "run_stmt (\<lambda>db. Inr (select_batch (cutoff (db_now db)) db, db)) (ar_db st) = (Inr rows, db)"
    and d: "fst (delete_runs (map fst rows) db) \<noteq> Inl e" and st': "ar_db st' = snd (delete_runs (map fst rows) db)" for e
    using assms by (auto simp: archive_batch_def Let_def split: prod.splits sum.splits if_splits)
  have r: "rows = select_batch (cutoff (db_now db)) db" "db_runs db = db_runs (ar_db st)"
    using s by (auto elim!: run_stmtE)
  obtain u d1 where del: "delete_runs (map fst rows) db = (Inr u, d1)"
    using d by (cases "delete_runs (map fst rows) db"; cases "fst (delete_runs (map fst rows) db)") auto
  have "db_runs (ar_db st') = filter (\<lambda>(i, _). i \<notin> set (map fst rows)) (db_runs (ar_db st))"
    using st' r(2) delete_runs_result(1)[OF del] by (simp add: del)
  moreover obtain x where "x \<in> set rows" using assms(2) by (cases rows) auto
  then have "x \<in> set (db_runs (ar_db st))" using r select_batch_set by metis
  ultimately show ?thesis using \<open>x \<in> set rows\<close> by (force intro!: length_filter_less[of x])
qed

function archive_loop ::
    "(str \<Rightarrow> str) \<Rightarrow> Append list \<Rightarrow> nat \<Rightarrow> str list \<Rightarrow> Archive \<Rightarrow> (ArchiveError + RunsArchiveOutcome) \<times> Archive" where
  "archive_loop cutoff os n touched st =
     (case archive_batch cutoff os st of
        (Inl e, _, st1) \<Rightarrow> (Inl e, st1)
      | (Inr rows, os1, st1) \<Rightarrow>
          (let n1 = n + length rows;
               touched1 = fold List.insert (map fst (by_month rows)) touched
           in if rows \<noteq> [] \<and> \<not> length rows < ARCHIVE_BATCH_SIZE
              then archive_loop cutoff os1 n1 touched1 st1
              else (Inr \<lparr> ao_archived_rows = n1, ao_archive_files = length touched1 \<rparr>, st1)))"
  by auto
termination
  by (relation "measure (\<lambda>(_, _, _, _, st). length (db_runs (ar_db st)))")
     (auto intro!: archive_batch_shrinks[OF sym])

declare archive_loop.simps [simp del]

text \<open>The cutoff is datetime('now', '-N days'), N at least one.\<close>

definition archive_older_than_days ::
    "(int \<Rightarrow> str \<Rightarrow> str) \<Rightarrow> bool \<Rightarrow> Append list \<Rightarrow> int \<Rightarrow> Archive \<Rightarrow> (ArchiveError + RunsArchiveOutcome) \<times> Archive" where
  "archive_older_than_days days_before dir_ok os retention_days st =
     (if dir_ok then archive_loop (days_before (max retention_days 1)) os 0 [] st else (Inl ArIo, st))"

section \<open>Nothing is lost\<close>

text \<open>What a reader recovers from a file: the frames before the first torn one.\<close>

fun readable :: "Segment list \<Rightarrow> RunRecord list" where
  "readable [] = []"
| "readable (Frame rows # segs) = rows @ readable segs"
| "readable (Torn # segs) = []"

lemma readable_append: "Torn \<notin> set segs \<Longrightarrow> readable (segs @ more_segs) = readable segs @ readable more_segs"
  by (induction segs rule: readable.induct) auto

lemma readable_prefix: "set (readable segs) \<subseteq> set (readable (segs @ more_segs))"
  by (induction segs rule: readable.induct) auto

text \<open>Files only grow; only a torn write, which ends the pass, damages one.\<close>

definition clean :: "(str \<Rightarrow> Segment list) \<Rightarrow> bool" where "clean files \<longleftrightarrow> (\<forall>m. Torn \<notin> set (files m))"

definition grown :: "(str \<Rightarrow> Segment list) \<Rightarrow> (str \<Rightarrow> Segment list) \<Rightarrow> bool" where
  "grown files files' \<longleftrightarrow> (\<forall>m. \<exists>segs. files' m = files m @ segs)"

lemma grown_refl [simp]: "grown f f" by (simp add: grown_def)

lemma grown_trans: "grown f g \<Longrightarrow> grown g h \<Longrightarrow> grown f h"
  unfolding grown_def by (metis append.assoc)

lemma append_grown: "append_runs_archive o1 m rows files = (ok, files') \<Longrightarrow> grown files files'"
  by (auto simp: append_runs_archive_def grown_def split: Append.splits)

lemma append_whole:
  "append_runs_archive o1 m rows files = (True, files') \<Longrightarrow> files' = files(m := files m @ [Frame rows])"
  by (auto simp: append_runs_archive_def split: Append.splits)

lemma append_months_grown: "append_months os ms files = (ok, os', files') \<Longrightarrow> grown files files'"
  by (induction os ms files rule: append_months.induct)
     (auto simp: Let_def split: prod.splits if_splits dest!: append_grown intro: grown_trans)

lemma append_months_ok:
  assumes "append_months os ms files = (True, os', files')" "clean files"
  shows "clean files' \<and> (\<forall>(m, rows) \<in> set ms. set rows \<subseteq> set (readable (files' m)))"
  using assms
proof (induction os ms files rule: append_months.induct)
  case (2 os month rows ms files)
  obtain files1 where a: "append_runs_archive (case os of [] \<Rightarrow> Synced | x # _ \<Rightarrow> x) month rows files = (True, files1)"
    "append_months (tl os) ms files1 = (True, os', files')"
    using 2(2) by (auto simp: Let_def split: prod.splits if_splits)
  have c: "clean files1" using append_whole[OF a(1)] 2(3) by (auto simp: clean_def)
  have "set rows \<subseteq> set (readable (files1 month))"
    using append_whole[OF a(1)] 2(3) by (simp add: readable_append clean_def)
  also have "\<dots> \<subseteq> set (readable (files' month))"
    using append_months_grown[OF a(2)] readable_prefix by (metis grown_def)
  finally have "set rows \<subseteq> set (readable (files' month))" .
  moreover have "clean files' \<and> (\<forall>(m, rows) \<in> set ms. set rows \<subseteq> set (readable (files' m)))"
    using 2(1)[OF _ _ _ a(2) c] a(1) by simp
  ultimately show ?case by simp
qed simp

lemma by_month_covers: "x \<in> set rows \<Longrightarrow> \<exists>(m, rs) \<in> set (by_month rows). m = archive_month_key (rr_scheduled_at (snd x)) \<and> snd x \<in> set rs"
  by (cases x) (force simp: by_month_def Let_def image_iff split_beta)

text \<open>A row is kept, or it was old and finished and can be read back.\<close>

definition kept_or_archived :: "(str \<Rightarrow> str) \<Rightarrow> Archive \<Rightarrow> Archive \<Rightarrow> bool" where
  "kept_or_archived cutoff st st' \<longleftrightarrow> (\<forall>x \<in> set (db_runs (ar_db st)). x \<in> set (db_runs (ar_db st'))
     \<or> archivable (cutoff (db_now (ar_db st))) (snd x)
       \<and> snd x \<in> set (readable (ar_files st' (archive_month_key (rr_scheduled_at (snd x))))))
     \<and> (\<exists>P. db_runs (ar_db st') = filter P (db_runs (ar_db st)))
     \<and> grown (ar_files st) (ar_files st') \<and> db_now (ar_db st') = db_now (ar_db st)"

lemma same_key: "distinct (map fst xs) \<Longrightarrow> x \<in> set xs \<Longrightarrow> y \<in> set xs \<Longrightarrow> fst x = fst y \<Longrightarrow> x = y"
  by (cases x; cases y) (auto dest: eq_key_imp_eq_value)

lemma remove_keys:
  assumes "distinct (map fst xs)" "set rows \<subseteq> set xs"
  shows "set (filter (\<lambda>(i, _). i \<notin> set (map fst rows)) xs) = set xs - set rows"
proof -
  have "fst x \<in> fst ` set rows \<longleftrightarrow> x \<in> set rows" if "x \<in> set xs" for x
    using same_key[OF assms(1) that] assms(2) by (auto simp: image_iff)
  then show ?thesis by (auto simp: split_beta)
qed

lemma archive_batch_cases:
  assumes "archive_batch cutoff os st = (r, os', st')"
  obtains (none) e where "r = Inl e" "db_runs (ar_db st') = db_runs (ar_db st)" "db_now (ar_db st') = db_now (ar_db st)"
      "grown (ar_files st) (ar_files st')"
    | (full) rows where "r = Inr rows" "rows = select_batch (cutoff (db_now (ar_db st))) (ar_db st)"
      "append_months os (by_month rows) (ar_files st) = (True, os', ar_files st')"
      "db_runs (ar_db st') = filter (\<lambda>(i, _). i \<notin> set (map fst rows)) (db_runs (ar_db st))"
      "db_now (ar_db st') = db_now (ar_db st)"
proof -
  obtain r1 db where s: "run_stmt (\<lambda>db. Inr (select_batch (cutoff (db_now db)) db, db)) (ar_db st) = (r1, db)" by fastforce
  then have db: "db_runs db = db_runs (ar_db st)" "db_now db = db_now (ar_db st)"
    and r1: "r1 = Inr rows \<Longrightarrow> rows = select_batch (cutoff (db_now (ar_db st))) (ar_db st)" for rows
    by (auto elim!: run_stmtE simp: select_batch_def)
  have now: "db_now (snd (delete_runs ids db)) = db_now (ar_db st)" for ids
    using db(2) by (cases "delete_runs ids db") (auto simp: delete_runs_def elim!: run_stmtE)
  show thesis
  proof (cases r1)
    case (Inl e)
    then show thesis using assms s db by (intro none) (auto simp: archive_batch_def)
  next
    case (Inr rows)
    obtain ok os1 files where a: "append_months os (by_month rows) (ar_files st) = (ok, os1, files)"
      by (cases "append_months os (by_month rows) (ar_files st)")
    show thesis
    proof (cases "rows = []")
      case True
      have "by_month [] = []" by (simp add: by_month_def)
      then show thesis using assms s db r1[OF Inr] True Inr by (intro full) (auto simp: archive_batch_def)
    next
      case False
      obtain r2 db2 where d: "delete_runs (map fst rows) db = (r2, db2)" by fastforce
      show thesis
      proof (cases "ok \<and> (\<exists>u. r2 = Inr u)")
        case True
        then obtain u where u: "r2 = Inr u" by blast
        have "r = Inr rows" "os' = os1" "ar_files st' = files" "ar_db st' = db2"
          using assms s Inr False a d True u by (auto simp: archive_batch_def)
        then show thesis
          using full r1[OF Inr] a True delete_runs_result(1)[OF d[unfolded u]] db(1) now[of "map fst rows"] d by simp
      next
        case nok: False
        have "grown (ar_files st) files" by (rule append_months_grown[OF a])
        moreover have "ar_files st' = files \<and> db_runs (ar_db st') = db_runs db \<and> db_now (ar_db st') = db_now db \<and> (\<exists>e. r = Inl e)"
        proof (cases ok)
          case True
          then obtain e where e: "r2 = Inl e" using nok by (cases r2) auto
          then show ?thesis
            using assms s Inr False a d True delete_runs_result(2)[of "map fst rows" db e db2] db now[of "map fst rows"]
            by (auto simp: archive_batch_def)
        next
          case False
          then show ?thesis using assms s Inr \<open>rows \<noteq> []\<close> a by (auto simp: archive_batch_def)
        qed
        ultimately show thesis using none db by metis
      qed
    qed
  qed
qed

lemma archive_batch_keeps:
  assumes b: "archive_batch cutoff os st = (r, os', st')" and c: "clean (ar_files st)" and wf: "runs_wf (ar_db st)"
  shows "kept_or_archived cutoff st st'" "runs_wf (ar_db st')" "r = Inr rows \<Longrightarrow> clean (ar_files st')"
proof -
  have "kept_or_archived cutoff st st' \<and> runs_wf (ar_db st') \<and> (r = Inr rows \<longrightarrow> clean (ar_files st'))"
    using b
  proof (cases rule: archive_batch_cases)
    case (none e)
    then show ?thesis using wf by (auto simp: kept_or_archived_def runs_wf_def intro!: exI[of _ "\<lambda>_. True"])
  next
    case (full batch)
    note files = append_months_ok[OF full(3) c]
    have "x \<in> set (db_runs (ar_db st')) \<or> archivable (cutoff (db_now (ar_db st))) (snd x)
       \<and> snd x \<in> set (readable (ar_files st' (archive_month_key (rr_scheduled_at (snd x)))))"
      if x: "x \<in> set (db_runs (ar_db st))" for x
    proof (cases "fst x \<in> set (map fst batch)")
      case False
      then show ?thesis using x by (simp add: full(4) split_beta)
    next
      case True
      then obtain y where y: "y \<in> set batch" "fst y = fst x" by auto
      have "y \<in> set (db_runs (ar_db st))" "archivable (cutoff (db_now (ar_db st))) (snd y)"
        using select_batch_set[of y] y(1) full(2) by auto
      moreover have "x = y"
        using same_key[OF wf[unfolded runs_wf_def] x \<open>y \<in> set (db_runs (ar_db st))\<close>] y(2) by simp
      ultimately show ?thesis using by_month_covers[OF y(1)] files by fastforce
    qed
    moreover have "runs_wf (ar_db st')"
      using wf full(4) by (simp add: runs_wf_def distinct_map_filter)
    moreover have "grown (ar_files st) (ar_files st')" by (rule append_months_grown[OF full(3)])
    moreover have "\<exists>P. db_runs (ar_db st') = filter P (db_runs (ar_db st))" using full(4) by blast
    ultimately show ?thesis using files full(5) by (auto simp: kept_or_archived_def)
  qed
  then show "kept_or_archived cutoff st st'" "runs_wf (ar_db st')" "r = Inr rows \<Longrightarrow> clean (ar_files st')" by auto
qed

lemma kept_trans:
  assumes "kept_or_archived cutoff st st1" "kept_or_archived cutoff st1 st2"
  shows "kept_or_archived cutoff st st2"
proof -
  have "readable (ar_files st1 m) \<noteq> [] \<longrightarrow> set (readable (ar_files st1 m)) \<subseteq> set (readable (ar_files st2 m))" for m
    using assms(2) readable_prefix unfolding kept_or_archived_def grown_def by metis
  then have r: "z \<in> set (readable (ar_files st1 m)) \<Longrightarrow> z \<in> set (readable (ar_files st2 m))" for z m by force
  obtain P Q where "db_runs (ar_db st1) = filter P (db_runs (ar_db st))" "db_runs (ar_db st2) = filter Q (db_runs (ar_db st1))"
    using assms by (auto simp: kept_or_archived_def)
  then have "\<exists>P. db_runs (ar_db st2) = filter P (db_runs (ar_db st))" by auto
  moreover have "grown (ar_files st) (ar_files st2)" using assms grown_trans unfolding kept_or_archived_def by blast
  ultimately show ?thesis using assms r unfolding kept_or_archived_def by auto
qed

lemma archive_pass_keeps:
  assumes "clean (ar_files st)" and "runs_wf (ar_db st)"
    and "archive_older_than_days days_before dir_ok os retention st = (r, st')"
  shows "kept_or_archived (days_before (max retention 1)) st st'"
proof (cases dir_ok)
  case False
  then have "st' = st" using assms(3) by (simp add: archive_older_than_days_def)
  moreover have "db_runs (ar_db st) = filter (\<lambda>_. True) (db_runs (ar_db st))" by simp
  ultimately show ?thesis unfolding kept_or_archived_def by (metis grown_refl)
next
  case True
  define cutoff where "cutoff = days_before (max retention 1)"
  have "archive_loop cutoff os n touched st = (r, st') \<Longrightarrow> kept_or_archived cutoff st st'" for n touched
    using assms(1,2)
  proof (induction cutoff os n touched st rule: archive_loop.induct)
    case (1 cutoff os n touched st)
    obtain r1 os1 st1 where b: "archive_batch cutoff os st = (r1, os1, st1)" by (cases "archive_batch cutoff os st")
    note keep = archive_batch_keeps[OF b 1(3,4)]
    show ?case
    proof (cases "\<exists>rows. r1 = Inr rows \<and> rows \<noteq> [] \<and> \<not> length rows < ARCHIVE_BATCH_SIZE")
      case True
      then obtain rows where rows: "r1 = Inr rows" "rows \<noteq> []" "\<not> length rows < ARCHIVE_BATCH_SIZE" by blast
      let ?t = "fold List.insert (map fst (by_month rows)) touched"
      have l: "archive_loop cutoff os1 (n + length rows) ?t st1 = (r, st')"
        using 1(2) rows b by (simp add: archive_loop.simps[of cutoff os n touched st])
      have c: "rows \<noteq> [] \<and> \<not> length rows < ARCHIVE_BATCH_SIZE" using rows by blast
      show ?thesis
        by (rule kept_trans[OF keep(1) 1(1)[OF b[unfolded rows(1), symmetric] refl refl refl refl c l keep(3)[OF rows(1)] keep(2)]])
    next
      case False
      then have "st' = st1" using 1(2) b by (cases r1) (auto simp: archive_loop.simps[of cutoff os n touched st] Let_def)
      then show ?thesis using keep(1) by simp
    qed
  qed
  then show ?thesis using assms(3) True by (simp add: archive_older_than_days_def cutoff_def)
qed


section \<open>A pass that succeeds\<close>

lemma card_split: "finite D \<Longrightarrow> S \<subseteq> D \<Longrightarrow> card D = card S + card (D - S)"
  by (simp add: card_Diff_subset card_mono finite_subset)

lemma select_batch_short:
  assumes "length (select_batch cutoff db) < ARCHIVE_BATCH_SIZE"
  shows "set (select_batch cutoff db) = {x \<in> set (db_runs db). archivable cutoff (snd x)}"
  using assms by (auto simp: select_batch_def min_def split: if_splits)

text \<open>A pass that reports success has archived every run that was due and counted
  them.  When no other error comes in between, the runs left in the database are
  exactly those that are unfinished, recent, or in a state that is never archived.\<close>

theorem archive_complete:
  assumes "clean (ar_files st)" and "runs_wf (ar_db st)"
    and "archive_older_than_days days_before dir_ok os retention st = (Inr out, st')"
  shows "let due = archivable (days_before (max retention 1) (db_now (ar_db st))) in
    set (db_runs (ar_db st')) = {x \<in> set (db_runs (ar_db st)). \<not> due (snd x)}
    \<and> ao_archived_rows out = card {x \<in> set (db_runs (ar_db st)). due (snd x)}"
proof -
  define cutoff where "cutoff = days_before (max retention 1)"
  let ?due = "\<lambda>st. {x \<in> set (db_runs (ar_db st)). archivable (cutoff (db_now (ar_db st))) (snd x)}"
  have "archive_loop cutoff os n touched st = (Inr out, st') \<Longrightarrow>
      set (db_runs (ar_db st')) = set (db_runs (ar_db st)) - ?due st \<and> ao_archived_rows out = n + card (?due st)" for n touched
    using assms(1,2)
  proof (induction cutoff os n touched st rule: archive_loop.induct)
    case (1 cutoff os n touched st)
    let ?due = "\<lambda>st. {x \<in> set (db_runs (ar_db st)). archivable (cutoff (db_now (ar_db st))) (snd x)}"
    obtain r1 os1 st1 where b: "archive_batch cutoff os st = (r1, os1, st1)" by (cases "archive_batch cutoff os st")
    note keep = archive_batch_keeps[OF b 1(3,4)]
    obtain rows where rows: "r1 = Inr rows" using 1(2) b by (cases r1) (auto simp: archive_loop.simps[of cutoff os n touched st])
    note r = b[unfolded rows]
    from r have d: "rows = select_batch (cutoff (db_now (ar_db st))) (ar_db st)"
      "db_runs (ar_db st1) = filter (\<lambda>(i, _). i \<notin> set (map fst rows)) (db_runs (ar_db st))"
      "db_now (ar_db st1) = db_now (ar_db st)"
      by (cases rule: archive_batch_cases; simp)+
    have sub: "set rows \<subseteq> ?due st" using select_batch_set d(1) by auto
    have wf: "distinct (map fst (db_runs (ar_db st)))" using 1(4) by (simp add: runs_wf_def)
    have left: "set (db_runs (ar_db st1)) = set (db_runs (ar_db st)) - set rows"
      unfolding d(2) by (rule remove_keys[OF wf]) (use sub in blast)
    have "distinct (db_runs (ar_db st))" using wf by (simp add: distinct_map)
    then have "distinct rows" unfolding d(1) select_batch_def by simp
    then have n: "card (set rows) = length rows" by (rule distinct_card)
    show ?case
    proof (cases "rows \<noteq> [] \<and> \<not> length rows < ARCHIVE_BATCH_SIZE")
      case True
      let ?t = "fold List.insert (map fst (by_month rows)) touched"
      have l: "archive_loop cutoff os1 (n + length rows) ?t st1 = (Inr out, st')"
        using 1(2) True r by (simp add: archive_loop.simps[of cutoff os n touched st])
      have due: "?due st1 = ?due st - set rows" using left d(3) by auto
      have "set (db_runs (ar_db st')) = set (db_runs (ar_db st1)) - ?due st1
          \<and> ao_archived_rows out = n + length rows + card (?due st1)"
        by (rule 1(1)[OF r[symmetric] refl refl refl refl True l keep(3)[OF rows] keep(2)])
      moreover have "card (?due st) = card (set rows) + card (?due st - set rows)"
        by (rule card_split[OF _ sub]) simp
      moreover have "set (db_runs (ar_db st1)) - ?due st1 = set (db_runs (ar_db st)) - ?due st"
        unfolding due unfolding left using sub by blast
      ultimately show ?thesis unfolding due n by simp
    next
      case False
      then have "length rows < ARCHIVE_BATCH_SIZE" by (auto simp: ARCHIVE_BATCH_SIZE_def)
      then have all: "set rows = ?due st" using select_batch_short d(1) by metis
      have "st' = st1" "ao_archived_rows out = n + length rows"
        using 1(2) r False by (auto simp: archive_loop.simps[of cutoff os n touched st] Let_def)
      then show ?thesis using left all n by simp
    qed
  qed
  moreover have "archive_loop cutoff os 0 [] st = (Inr out, st')"
    using assms(3) by (simp add: archive_older_than_days_def cutoff_def split: if_splits)
  ultimately have "set (db_runs (ar_db st')) = set (db_runs (ar_db st)) - ?due st \<and> ao_archived_rows out = 0 + card (?due st)"
    by blast
  then show ?thesis unfolding cutoff_def Let_def by auto
qed

section \<open>A file that was torn\<close>

text \<open>A torn frame costs the runs that are archived behind it.  If the file of a
  month is damaged by a write that broke off, a later pass over a single due run of
  that month succeeds, deletes the run, and leaves it unreadable: the file is neither
  checked nor repaired before it is appended to.\<close>

theorem torn_archive_loses_runs:
  assumes "db_io (ar_db st) = []" and "db_runs (ar_db st) = [(i, r)]"
    and "archivable (days_before (max retention 1) (db_now (ar_db st))) r"
    and "ar_files st (archive_month_key (rr_scheduled_at r)) = segs @ [Torn]"
    and "r \<notin> set (readable segs)"
  shows "\<exists>out st'. archive_older_than_days days_before True [] retention st = (Inr out, st')
    \<and> ao_archived_rows out = 1 \<and> db_runs (ar_db st') = []
    \<and> r \<notin> set (readable (ar_files st' (archive_month_key (rr_scheduled_at r))))"
proof -
  have sel: "select_batch (days_before (max retention 1) (db_now (ar_db st))) (ar_db st) = [(i, r)]"
    using assms(2,3) by (simp add: select_batch_def ARCHIVE_BATCH_SIZE_def)
  have "readable (segs @ [Torn] @ more_segs) = readable (segs @ [Torn])" for more_segs
    by (induction segs rule: readable.induct) auto
  moreover have "set (readable (segs @ [Torn])) = set (readable segs)"
    by (induction segs rule: readable.induct) auto
  ultimately have gone: "r \<notin> set (readable ((segs @ [Torn]) @ more_segs))" for more_segs
    using assms(5) by (metis append.assoc)
  show ?thesis
    using gone assms(1,2,4) sel
    by (simp add: archive_older_than_days_def archive_loop.simps[of _ "[]" 0] archive_batch_def by_month_def
        append_runs_archive_def delete_runs_def ARCHIVE_BATCH_SIZE_def)
qed

section \<open>The admission gate does not notice\<close>

lemma filter_kept:
  assumes "ys = filter P xs" "\<And>x. x \<in> set xs \<Longrightarrow> Q x \<Longrightarrow> x \<in> set ys"
  shows "filter Q ys = filter Q xs"
  using assms by (auto intro!: filter_cong)

text \<open>Archiving does not touch what the admission gate reads.  For every window that
  begins at or after the cutoff, the runs and the cost counted for a cron are the same
  before and after, and so are its runs in flight, if no run is scheduled after it
  has finished.\<close>

theorem archive_keeps_gate_figures:
  assumes "clean (ar_files st)" and "runs_wf (ar_db st)"
    and "archive_older_than_days days_before dir_ok os retention st = (r, st')"
    and "days_before (max retention 1) (db_now (ar_db st)) \<le> since"
    and "\<And>i x f. (i, x) \<in> set (db_runs (ar_db st)) \<Longrightarrow> rr_finished_at x = Some f \<Longrightarrow> rr_scheduled_at x \<le> f"
    and "db_io (ar_db st) = []" and "db_io (ar_db st') = []"
  shows "fst (count_since_for_cron c since (ar_db st')) = fst (count_since_for_cron c since (ar_db st))
    \<and> fst (sum_cost_since_for_cron c since (ar_db st')) = fst (sum_cost_since_for_cron c since (ar_db st))
    \<and> fst (count_running_for_cron c (ar_db st')) = fst (count_running_for_cron c (ar_db st))"
proof -
  note keep = archive_pass_keeps[OF assms(1-3), unfolded kept_or_archived_def]
  obtain P where P: "db_runs (ar_db st') = filter P (db_runs (ar_db st))" using keep by blast
  have w: "filter (\<lambda>(_, x). in_window c since x) (db_runs (ar_db st')) = filter (\<lambda>(_, x). in_window c since x) (db_runs (ar_db st))"
    by (rule filter_kept[OF P])
       (use keep assms(4,5) in \<open>fastforce simp: archivable_def in_window_def split: option.splits\<close>)
  have f: "filter (\<lambda>(_, x). rr_cron_id x = Some c \<and> in_flight x) (db_runs (ar_db st'))
      = filter (\<lambda>(_, x). rr_cron_id x = Some c \<and> in_flight x) (db_runs (ar_db st))"
    by (rule filter_kept[OF P]) (use keep in \<open>fastforce simp: archivable_def in_flight_def split: option.splits\<close>)
  show ?thesis
    using w f assms(6,7)
    by (simp add: count_since_for_cron_def sum_cost_since_for_cron_def count_running_for_cron_def count_rows_def)
qed

section \<open>Witnesses\<close>

definition old_run :: RunRecord where
  "old_run = \<lparr> rr_id = lit ''r1'', rr_cron_id = None, rr_session_id = None, rr_scheduled_at = lit ''2020-01-02'',
     rr_started_at = None, rr_finished_at = Some (lit ''2020-01-03''), rr_status = lit ''completed'', rr_exit_code = Some 0,
     rr_coalesced_count = 1, rr_cost_usd_est = None, rr_error_kind = None, rr_error_detail = None, rr_tail_log = None \<rparr>"

definition old_store :: "(str \<Rightarrow> Segment list) \<Rightarrow> Archive" where
  "old_store files = \<lparr> ar_db = (empty_db [] [])\<lparr> db_runs := [(lit ''r1'', old_run)] \<rparr>, ar_files = files \<rparr>"

lemma old_store_facts:
  "db_runs (ar_db (old_store files)) = [(lit ''r1'', old_run)]" "db_io (ar_db (old_store files)) = []"
  "ar_files (old_store files) = files" "runs_wf (ar_db (old_store files))"
  "archivable (lit ''2024'') old_run" "archive_month_key (rr_scheduled_at old_run) = lit ''202001''"
  by (simp_all add: old_store_def empty_db_def runs_wf_def archivable_def old_run_def lit_def
      archive_month_key_def is_digit_def)

lemma old_pass:
  "\<exists>out st'. archive_older_than_days (\<lambda>_ _. lit ''2024'') True [] 90 (old_store (\<lambda>_. [])) = (Inr out, st')
    \<and> db_io (ar_db st') = []"
proof -
  have "select_batch (lit ''2024'') (ar_db (old_store (\<lambda>_. []))) = [(lit ''r1'', old_run)]"
    by (simp add: select_batch_def old_store_facts ARCHIVE_BATCH_SIZE_def)
  then show ?thesis
    by (simp add: archive_older_than_days_def archive_loop.simps[of _ "[]" 0] archive_batch_def by_month_def
        append_runs_archive_def delete_runs_def ARCHIVE_BATCH_SIZE_def old_store_facts)
qed


lemma archive_complete_witness:
  "\<exists>out st'. archive_older_than_days (\<lambda>_ _. lit ''2024'') True [] 90 (old_store (\<lambda>_. [])) = (Inr out, st')
    \<and> ao_archived_rows out = 1 \<and> db_runs (ar_db st') = []"
proof -
  obtain out st' where o: "archive_older_than_days (\<lambda>_ _. lit ''2024'') True [] 90 (old_store (\<lambda>_. [])) = (Inr out, st')"
    using old_pass by blast
  note c = archive_complete[OF _ old_store_facts(4) o, unfolded Let_def old_store_facts]
  have "{x \<in> set [(lit ''r1'', old_run)]. archivable (lit ''2024'') (snd x)} = {(lit ''r1'', old_run)}"
    using old_store_facts(5) by auto
  then have "set (db_runs (ar_db st')) = {} \<and> ao_archived_rows out = 1"
    using c old_store_facts(5) by (auto simp: clean_def)
  then show ?thesis using o by simp
qed

lemma torn_archive_loses_runs_witness:
  "\<exists>out st'. archive_older_than_days (\<lambda>_ _. lit ''2024'') True [] 90 (old_store (\<lambda>_. [Torn])) = (Inr out, st')
    \<and> db_runs (ar_db st') = [] \<and> old_run \<notin> set (readable (ar_files st' (lit ''202001'')))"
  using torn_archive_loses_runs[of "old_store (\<lambda>_. [Torn])" "lit ''r1''" old_run "\<lambda>_ _. lit ''2024''" 90 "[]"]
    old_store_facts by fastforce

lemma archive_keeps_gate_figures_witness:
  "\<exists>out st'. archive_older_than_days (\<lambda>_ _. lit ''2024'') True [] 90 (old_store (\<lambda>_. [])) = (Inr out, st')
    \<and> fst (count_since_for_cron (lit ''c1'') (lit ''2024'') (ar_db st'))
      = fst (count_since_for_cron (lit ''c1'') (lit ''2024'') (ar_db (old_store (\<lambda>_. []))))"
proof -
  obtain out st' where o: "archive_older_than_days (\<lambda>_ _. lit ''2024'') True [] 90 (old_store (\<lambda>_. [])) = (Inr out, st')"
    "db_io (ar_db st') = []"
    using old_pass by blast
  have "rr_scheduled_at old_run \<le> f" if "rr_finished_at old_run = Some f" for f
    using that by (auto simp: old_run_def lit_def)
  then show ?thesis
    using archive_keeps_gate_figures[OF _ old_store_facts(4) o(1) _ _ old_store_facts(2) o(2), of "lit ''2024''" "lit ''c1''"]
      o old_store_facts(1,3) by (simp add: clean_def)
qed

end
