(* ===== verification/Session_Store.thy ===== *)
theory Session_Store
  imports Storage_Repos Frame_Codec
begin

text \<open>
  Model of the repositories of backends, projects, sessions and settings of
  \<open>la-storage/src/repos.rs\<close>, over the tables of \<open>migrations/0001\<close> to \<open>0003\<close>.  They share
  one database with the repositories of \<open>Storage_Repos\<close>, whose state is the field
  \<open>st_db\<close>; the keys that the tables crons and runs refer to are kept in step by
  \<open>sync\<close>.  A statement that fails has no effect.  The files of spilled transcripts are
  part of the state; \<open>Transcripts\<close> holds their operations.
\<close>

section \<open>Rows\<close>

record Backend =
  be_id :: str
  be_display_name :: str
  be_version :: "str option"
  be_available :: int
  be_last_probed_at :: str

record BackendUpsert =
  bu_id :: str
  bu_display_name :: str
  bu_version :: "str option"
  bu_available :: bool

record Project =
  pj_id :: str
  pj_root_path :: str
  pj_display_name :: str
  pj_vcs :: "str option"
  pj_created_at :: str

record NewProject =
  np_id :: str
  np_root_path :: str
  np_display_name :: str
  np_vcs :: "str option"

record Session =
  se_id :: str
  se_project_id :: str
  se_backend_id :: str
  se_external_id :: "str option"
  se_title :: "str option"
  se_state :: str
  se_exit_code :: "int option"
  se_pid :: "int option"
  se_worktree_path :: "str option"
  se_worktree_branch :: "str option"
  se_base_branch :: "str option"
  se_spawn_args :: str
  se_origin :: str
  se_transcript_path :: "str option"
  se_transcript_bytes :: int
  se_created_at :: str
  se_updated_at :: str
  se_archived_at :: "str option"
  se_hook_status :: "str option"
  se_external_path :: "str option"

record NewSession =
  ns_id :: str
  ns_project_id :: str
  ns_backend_id :: str
  ns_external_id :: "str option"
  ns_title :: "str option"
  ns_state :: str
  ns_pid :: "int option"
  ns_worktree_path :: "str option"
  ns_worktree_branch :: "str option"
  ns_base_branch :: "str option"
  ns_spawn_args :: str
  ns_origin :: str
  ns_hook_status :: "str option"
  ns_external_path :: "str option"

datatype ChunkKind = Stdout | Stderr | Input | Event

fun chunk_kind_str :: "ChunkKind \<Rightarrow> str" where
  "chunk_kind_str Stdout = lit ''stdout''"
| "chunk_kind_str Stderr = lit ''stderr''"
| "chunk_kind_str Input = lit ''input''"
| "chunk_kind_str Event = lit ''event''"

record SessionChunk =
  ch_session_id :: str
  ch_seq :: int
  ch_ts :: str
  ch_kind :: str
  ch_data :: bytes

section \<open>The store\<close>

text \<open>A spill file is a sequence of the JSON texts of chunks, of broken-off texts, and
  of line ends.\<close>

datatype Piece = Text SessionChunk | Part | Newline

text \<open>What becomes of one write to a spill file: synced; complete but the sync failed;
  broken off after so many pieces, or inside the text that follows them; nothing done.\<close>

datatype Write = Written | Unsynced | Broken nat bool | NotOpened

record Store =
  st_db :: Db
  st_backends :: "(str \<times> Backend) list"
  st_projects :: "(str \<times> Project) list"
  st_sessions :: "(str \<times> Session) list"
  st_chunks :: "SessionChunk list"
  st_settings :: "(str \<times> str) list"
  st_schema_meta :: "(str \<times> str) list option"
  st_files :: "str \<Rightarrow> Piece list option"
  st_writes :: "Write list"
  st_data_dir :: str
  st_spill_bytes :: int

definition store_now :: "Store \<Rightarrow> str" where "store_now s = db_now (st_db s)"

definition sync :: "Store \<Rightarrow> Store" where
  "sync s = s\<lparr> st_db := (st_db s)\<lparr> db_backends := map fst (st_backends s),
       db_projects := map (\<lambda>(i, p). (i, pj_root_path p)) (st_projects s),
       db_sessions := map fst (st_sessions s) \<rparr> \<rparr>"

definition sql :: "(Store \<Rightarrow> StorageError + 'a \<times> Store) \<Rightarrow> Store \<Rightarrow> (StorageError + 'a) \<times> Store" where
  "sql f s = (case stmt (st_db s) of
       (Some e, db) \<Rightarrow> (Inl e, s\<lparr> st_db := db \<rparr>)
     | (None, db) \<Rightarrow> (let s1 = s\<lparr> st_db := db \<rparr> in
         case f s1 of Inl e \<Rightarrow> (Inl e, s1) | Inr (a, s2) \<Rightarrow> (Inr a, s2)))"

text \<open>An operation on crons and runs, in the store.\<close>

definition on_db :: "(Db \<Rightarrow> (StorageError + 'a) \<times> Db) \<Rightarrow> Store \<Rightarrow> (StorageError + 'a) \<times> Store" where
  "on_db f s = (case f (st_db s) of (r, db) \<Rightarrow> (r, s\<lparr> st_db := db \<rparr>))"

section \<open>BackendsRepo\<close>

definition backend_upsert :: "BackendUpsert \<Rightarrow> Store \<Rightarrow> (StorageError + unit) \<times> Store" where
  "backend_upsert b = sql (\<lambda>s. Inr ((), sync (s\<lparr> st_backends := AList.update (bu_id b)
       \<lparr> be_id = bu_id b, be_display_name = bu_display_name b, be_version = bu_version b,
         be_available = (if bu_available b then 1 else 0), be_last_probed_at = store_now s \<rparr>
       (st_backends s) \<rparr>)))"

definition backend_get :: "str \<Rightarrow> Store \<Rightarrow> (StorageError + Backend option) \<times> Store" where
  "backend_get k = sql (\<lambda>s. Inr (map_of (st_backends s) k, s))"

definition backend_list :: "Store \<Rightarrow> (StorageError + Backend list) \<times> Store" where
  "backend_list = sql (\<lambda>s. Inr (sort_key be_id (map snd (st_backends s)), s))"

section \<open>ProjectsRepo\<close>

definition project_get :: "str \<Rightarrow> Store \<Rightarrow> (StorageError + Project option) \<times> Store" where
  "project_get k = sql (\<lambda>s. Inr (map_of (st_projects s) k, s))"

definition project_create :: "NewProject \<Rightarrow> Store \<Rightarrow> (StorageError + Project) \<times> Store" where
  "project_create n s =
     and_then (sql (\<lambda>s.
         if np_id n \<in> set (map fst (st_projects s))
            \<or> np_root_path n \<in> set (map (pj_root_path \<circ> snd) (st_projects s)) then Inl CONSTRAINT
         else Inr ((), sync (s\<lparr> st_projects := st_projects s @
           [(np_id n, \<lparr> pj_id = np_id n, pj_root_path = np_root_path n, pj_display_name = np_display_name n,
              pj_vcs = np_vcs n, pj_created_at = store_now s \<rparr>)] \<rparr>))) s)
       (\<lambda>_ s. and_then (project_get (np_id n) s)
         (\<lambda>r s. (case r of Some p \<Rightarrow> Inr p | None \<Rightarrow> Inl (MissingProject (np_id n)), s)))"

definition project_get_by_root_path :: "str \<Rightarrow> Store \<Rightarrow> (StorageError + Project option) \<times> Store" where
  "project_get_by_root_path p = sql (\<lambda>s. Inr (find (\<lambda>r. pj_root_path r = p) (map snd (st_projects s)), s))"

definition project_list :: "Store \<Rightarrow> (StorageError + Project list) \<times> Store" where
  "project_list = sql (\<lambda>s. Inr (sort_key pj_root_path (map snd (st_projects s)), s))"

definition project_update_display_name :: "str \<Rightarrow> str \<Rightarrow> Store \<Rightarrow> (StorageError + bool) \<times> Store" where
  "project_update_display_name k name = sql (\<lambda>s.
     let (n, rows) = sql_update k (\<lambda>_. True) (\<lambda>r. r\<lparr> pj_display_name := name \<rparr>) (st_projects s)
     in Inr (n > 0, s\<lparr> st_projects := rows \<rparr>))"

text \<open>ON DELETE RESTRICT: of sessions and of crons.\<close>

definition project_delete :: "str \<Rightarrow> Store \<Rightarrow> (StorageError + bool) \<times> Store" where
  "project_delete k = sql (\<lambda>s.
     if map_of (st_projects s) k = None then Inr (False, s)
     else if (\<exists>r\<in>set (map snd (st_sessions s)). se_project_id r = k)
           \<or> (\<exists>c\<in>set (map snd (db_crons (st_db s))). cr_project_id c = k) then Inl CONSTRAINT
     else Inr (True, sync (s\<lparr> st_projects := AList.delete k (st_projects s) \<rparr>)))"

section \<open>SessionsRepo\<close>

definition hook_statuses :: "str list" where
  "hook_statuses = map lit [''ok'', ''failed'', ''skipped'', ''timeout'']"

text \<open>The REFERENCES, CHECK and UNIQUE clauses of the sessions table, for the row of the key.\<close>

definition session_refs :: "Store \<Rightarrow> Session \<Rightarrow> bool" where
  "session_refs s r \<longleftrightarrow> se_project_id r \<in> set (map fst (st_projects s))
     \<and> se_backend_id r \<in> set (map fst (st_backends s))
     \<and> (case se_hook_status r of None \<Rightarrow> True | Some h \<Rightarrow> h \<in> set hook_statuses)"

definition same_external :: "Session \<Rightarrow> Session \<Rightarrow> bool" where
  "same_external a b \<longleftrightarrow> se_external_id a \<noteq> None \<and> se_external_id a = se_external_id b
     \<and> se_backend_id a = se_backend_id b"

definition session_row :: "str \<Rightarrow> NewSession \<Rightarrow> Session" where
  "session_row now n =
     \<lparr> se_id = ns_id n, se_project_id = ns_project_id n, se_backend_id = ns_backend_id n,
       se_external_id = ns_external_id n, se_title = ns_title n, se_state = ns_state n,
       se_exit_code = None, se_pid = ns_pid n, se_worktree_path = ns_worktree_path n,
       se_worktree_branch = ns_worktree_branch n, se_base_branch = ns_base_branch n,
       se_spawn_args = ns_spawn_args n, se_origin = ns_origin n, se_transcript_path = None,
       se_transcript_bytes = 0, se_created_at = now, se_updated_at = now, se_archived_at = None,
       se_hook_status = ns_hook_status n, se_external_path = ns_external_path n \<rparr>"

definition session_get :: "str \<Rightarrow> Store \<Rightarrow> (StorageError + Session option) \<times> Store" where
  "session_get k = sql (\<lambda>s. Inr (map_of (st_sessions s) k, s))"

definition session_create :: "NewSession \<Rightarrow> Store \<Rightarrow> (StorageError + Session) \<times> Store" where
  "session_create n s =
     and_then (sql (\<lambda>s. let r = session_row (store_now s) n in
         if ns_id n \<in> set (map fst (st_sessions s)) \<or> \<not> session_refs s r
            \<or> (\<exists>x\<in>set (map snd (st_sessions s)). same_external r x) then Inl CONSTRAINT
         else Inr ((), sync (s\<lparr> st_sessions := st_sessions s @ [(ns_id n, r)] \<rparr>))) s)
       (\<lambda>_ s. and_then (session_get (ns_id n) s)
         (\<lambda>r s. (case r of Some row \<Rightarrow> Inr row | None \<Rightarrow> Inl (MissingSession (ns_id n)), s)))"

text \<open>ORDER BY created_at DESC; SQLite does not say how it orders equal times.\<close>

definition session_list_by_project :: "str \<Rightarrow> bool \<Rightarrow> Store \<Rightarrow> (StorageError + Session list) \<times> Store" where
  "session_list_by_project p include_archived = sql (\<lambda>s.
     Inr (rev (sort_key se_created_at
       (filter (\<lambda>r. se_project_id r = p \<and> (include_archived \<or> se_archived_at r = None))
         (map snd (st_sessions s)))), s))"

definition update_sessions :: "str \<Rightarrow> (Session \<Rightarrow> Session) \<Rightarrow> Store \<Rightarrow> nat \<times> Store" where
  "update_sessions k f s =
     (let (n, rows) = sql_update k (\<lambda>_. True) (\<lambda>r. (f r)\<lparr> se_updated_at := store_now s \<rparr>) (st_sessions s)
      in (n, s\<lparr> st_sessions := rows \<rparr>))"

definition session_update :: "str \<Rightarrow> (Store \<Rightarrow> Session \<Rightarrow> Session) \<Rightarrow> Store \<Rightarrow> (StorageError + bool) \<times> Store" where
  "session_update k f = sql (\<lambda>s. let (n, s1) = update_sessions k (f s) s in Inr (n > 0, s1))"

definition session_update_state :: "str \<Rightarrow> str \<Rightarrow> int option \<Rightarrow> Store \<Rightarrow> (StorageError + bool) \<times> Store" where
  "session_update_state k state exit_code =
     session_update k (\<lambda>_ r. r\<lparr> se_state := state, se_exit_code := exit_code \<rparr>)"

definition session_update_pid :: "str \<Rightarrow> int option \<Rightarrow> Store \<Rightarrow> (StorageError + bool) \<times> Store" where
  "session_update_pid k pid = session_update k (\<lambda>_ r. r\<lparr> se_pid := pid \<rparr>)"

definition active_states :: "str list" where
  "active_states = map lit [''starting'', ''running'', ''waiting'']"

definition session_list_active :: "Store \<Rightarrow> (StorageError + Session list) \<times> Store" where
  "session_list_active = sql (\<lambda>s.
     Inr (filter (\<lambda>r. se_state r \<in> set active_states) (map snd (st_sessions s)), s))"

definition archived_before :: "str \<Rightarrow> Session \<Rightarrow> bool" where
  "archived_before cutoff r \<longleftrightarrow> (case se_archived_at r of None \<Rightarrow> False | Some a \<Rightarrow> a < cutoff)"

definition session_list_archived_older_than :: "str \<Rightarrow> Store \<Rightarrow> (StorageError + Session list) \<times> Store" where
  "session_list_archived_older_than cutoff = sql (\<lambda>s.
     Inr (filter (archived_before cutoff) (map snd (st_sessions s)), s))"

text \<open>SQLite's time arithmetic is the parameter \<open>seconds_before\<close>.\<close>

definition session_list_expired_worktrees ::
    "(int \<Rightarrow> str \<Rightarrow> str) \<Rightarrow> int \<Rightarrow> Store \<Rightarrow> (StorageError + Session list) \<times> Store" where
  "session_list_expired_worktrees seconds_before ttl = sql (\<lambda>s.
     Inr (filter (\<lambda>r. archived_before (seconds_before ttl (store_now s)) r \<and> se_worktree_path r \<noteq> None)
       (map snd (st_sessions s)), s))"

definition session_list_with_worktree :: "str \<Rightarrow> Store \<Rightarrow> (StorageError + Session list) \<times> Store" where
  "session_list_with_worktree p = sql (\<lambda>s.
     Inr (filter (\<lambda>r. se_project_id r = p \<and> se_worktree_path r \<noteq> None \<and> se_archived_at r = None)
       (map snd (st_sessions s)), s))"

definition session_clear_worktree :: "str \<Rightarrow> bool \<Rightarrow> Store \<Rightarrow> (StorageError + bool) \<times> Store" where
  "session_clear_worktree k keep_branch = session_update k (\<lambda>_ r.
     if keep_branch then r\<lparr> se_worktree_path := None \<rparr>
     else r\<lparr> se_worktree_path := None, se_worktree_branch := None \<rparr>)"

definition session_set_hook_status :: "str \<Rightarrow> str \<Rightarrow> Store \<Rightarrow> (StorageError + bool) \<times> Store" where
  "session_set_hook_status k h = sql (\<lambda>s.
     if k \<in> set (map fst (st_sessions s)) \<and> h \<notin> set hook_statuses then Inl CONSTRAINT
     else let (n, s1) = update_sessions k (\<lambda>r. r\<lparr> se_hook_status := Some h \<rparr>) s in Inr (n > 0, s1))"

definition session_archive :: "str \<Rightarrow> Store \<Rightarrow> (StorageError + bool) \<times> Store" where
  "session_archive k = session_update k (\<lambda>s r.
     r\<lparr> se_state := lit ''archived'', se_archived_at := Some (store_now s) \<rparr>)"

text \<open>Deleting a session deletes its chunks and sets the reference of its runs to NULL.\<close>

definition forget_session :: "str \<Rightarrow> RunRecord \<Rightarrow> RunRecord" where
  "forget_session k r = (if rr_session_id r = Some k then r\<lparr> rr_session_id := None \<rparr> else r)"

definition session_delete :: "str \<Rightarrow> Store \<Rightarrow> (StorageError + bool) \<times> Store" where
  "session_delete k = sql (\<lambda>s.
     if k \<notin> set (map fst (st_sessions s)) then Inr (False, s)
     else Inr (True, sync (s\<lparr> st_sessions := AList.delete k (st_sessions s),
            st_chunks := filter (\<lambda>c. ch_session_id c \<noteq> k) (st_chunks s),
            st_db := (st_db s)\<lparr> db_runs := map (\<lambda>(i, r). (i, forget_session k r)) (db_runs (st_db s)) \<rparr> \<rparr>)))"

definition session_find_by_backend_external_id ::
    "str \<Rightarrow> str \<Rightarrow> Store \<Rightarrow> (StorageError + Session option) \<times> Store" where
  "session_find_by_backend_external_id b e = sql (\<lambda>s.
     Inr (find (\<lambda>r. se_backend_id r = b \<and> se_external_id r = Some e) (map snd (st_sessions s)), s))"

section \<open>SettingsRepo\<close>

definition setting_set :: "str \<Rightarrow> str \<Rightarrow> Store \<Rightarrow> (StorageError + unit) \<times> Store" where
  "setting_set k v = sql (\<lambda>s. Inr ((), s\<lparr> st_settings := AList.update k v (st_settings s) \<rparr>))"

definition setting_get :: "str \<Rightarrow> Store \<Rightarrow> (StorageError + str option) \<times> Store" where
  "setting_get k = sql (\<lambda>s. Inr (map_of (st_settings s) k, s))"

definition setting_delete :: "str \<Rightarrow> Store \<Rightarrow> (StorageError + bool) \<times> Store" where
  "setting_delete k = sql (\<lambda>s.
     Inr (map_of (st_settings s) k \<noteq> None, s\<lparr> st_settings := AList.delete k (st_settings s) \<rparr>))"

text \<open>The table schema_meta is missing before the first migration.\<close>

definition read_schema_meta :: "str \<Rightarrow> Store \<Rightarrow> (StorageError + str option) \<times> Store" where
  "read_schema_meta k = sql (\<lambda>s. case st_schema_meta s of
       None \<Rightarrow> Inl (Sqlx (lit ''no such table: schema_meta''))
     | Some rows \<Rightarrow> Inr (map_of rows k, s))"

section \<open>Opening the database\<close>

definition CURRENT_SCHEMA_VERSION :: str where "CURRENT_SCHEMA_VERSION = lit ''4''"

definition version_gt :: "str \<Rightarrow> str \<Rightarrow> bool" where
  "version_gt found supported =
     (case (parse_uint u64_max found, parse_uint u64_max supported) of
        (Some a, Some b) \<Rightarrow> a > b
      | _ \<Rightarrow> found > supported)"

definition reject_too_new_schema :: "Store \<Rightarrow> (StorageError + unit) \<times> Store" where
  "reject_too_new_schema s =
     and_then (sql (\<lambda>s. Inr (st_schema_meta s \<noteq> None, s)) s) (\<lambda>has s.
       if \<not> has then (Inr (), s)
       else and_then (read_schema_meta (lit ''schema_version'') s) (\<lambda>v s. case v of
           None \<Rightarrow> (Inr (), s)
         | Some found \<Rightarrow>
             if version_gt found CURRENT_SCHEMA_VERSION
             then (Inl (SchemaTooNew found CURRENT_SCHEMA_VERSION), s) else (Inr (), s)))"

text \<open>Storage::open; the migrations that sqlx runs are the parameter \<open>migrate\<close>.\<close>

definition open_store ::
    "(Store \<Rightarrow> (StorageError + unit) \<times> Store) \<Rightarrow> Store \<Rightarrow> (StorageError + unit) \<times> Store" where
  "open_store migrate s =
     and_then (reject_too_new_schema s) (\<lambda>_ s. and_then (migrate s) (\<lambda>_. sql (\<lambda>s.
       case st_schema_meta s of
         None \<Rightarrow> Inl (Sqlx (lit ''no such table: schema_meta''))
       | Some rows \<Rightarrow>
           Inr ((), s\<lparr> st_schema_meta := Some (AList.update (lit ''schema_version'') CURRENT_SCHEMA_VERSION rows) \<rparr>))))"

section \<open>Statement sequences\<close>

text \<open>Another outcome of the statements to come: the store of the next statement.\<close>

definition adv_store :: "Store \<Rightarrow> Store" where
  "adv_store s = s\<lparr> st_db := adv (st_db s) \<rparr>"

lemma adv_store_simps [simp]:
  "st_db (adv_store s) = adv (st_db s)" "st_backends (adv_store s) = st_backends s"
  "st_projects (adv_store s) = st_projects s" "st_sessions (adv_store s) = st_sessions s"
  "st_chunks (adv_store s) = st_chunks s" "st_files (adv_store s) = st_files s"
  "st_writes (adv_store s) = st_writes s" "st_data_dir (adv_store s) = st_data_dir s"
  "st_spill_bytes (adv_store s) = st_spill_bytes s" "store_now (adv_store s) = store_now s"
  "st_settings (adv_store s) = st_settings s" "st_schema_meta (adv_store s) = st_schema_meta s"
  by (simp_all add: adv_store_def store_now_def)

lemma sqlE:
  assumes "sql f s = (r, s')"
  obtains (fail) e where "r = Inl e" "s' = adv_store s"
    | (ok) a where "r = Inr a" "f (adv_store s) = Inr (a, s')"
  using assms
  by (auto simp: sql_def Let_def adv_store_def dest!: stmt_adv split: prod.splits option.splits sum.splits)

lemma sql_calm [simp]:
  assumes "db_io (st_db s) = []"
  shows "sql f s = (case f s of Inl e \<Rightarrow> (Inl e, s) | Inr (a, s') \<Rightarrow> (Inr a, s'))"
  using assms by (simp add: sql_def stmt_def Let_def split: sum.splits)

text \<open>A relation between stores that statements compose to.\<close>

locale store_evolution =
  fixes R :: "Store \<Rightarrow> Store \<Rightarrow> bool"
  assumes refl: "R s s"
    and trans: "R s s' \<Longrightarrow> R s' s'' \<Longrightarrow> R s s''"
    and io: "R s (adv_store s)"
begin

lemma sql:
  assumes "sql f s = (r, s')" and "\<And>t a t'. f t = Inr (a, t') \<Longrightarrow> R t t'"
  shows "R s s'"
  using assms(1) by (cases rule: sqlE) (auto intro: io trans assms(2))

lemma read:
  assumes "sql (\<lambda>s. Inr (g s, s)) s = (r, s')"
  shows "R s s'"
  by (rule sql[OF assms]) (auto intro: refl)

lemma and_then:
  assumes "and_then p k = (r, s')" and "\<And>a t. p = (a, t) \<Longrightarrow> R s t"
    and "\<And>a t. p = (Inr a, t) \<Longrightarrow> k a t = (r, s') \<Longrightarrow> R t s'"
  shows "R s s'"
  using assms(1) by (cases rule: and_thenE) (auto intro: trans dest: assms(2,3))

end

subsection \<open>Updating session rows\<close>

lemma update_sessions_fields [simp]:
  "map_of (st_sessions (snd (update_sessions k f s))) j
    = (if j = k then map_option (\<lambda>r. (f r)\<lparr> se_updated_at := store_now s \<rparr>) (map_of (st_sessions s) j)
       else map_of (st_sessions s) j)"
  "map fst (st_sessions (snd (update_sessions k f s))) = map fst (st_sessions s)"
  "st_db (snd (update_sessions k f s)) = st_db s" "st_backends (snd (update_sessions k f s)) = st_backends s"
  "st_projects (snd (update_sessions k f s)) = st_projects s" "st_chunks (snd (update_sessions k f s)) = st_chunks s"
  "st_files (snd (update_sessions k f s)) = st_files s" "st_writes (snd (update_sessions k f s)) = st_writes s"
  "st_data_dir (snd (update_sessions k f s)) = st_data_dir s"
  "st_spill_bytes (snd (update_sessions k f s)) = st_spill_bytes s"
  using sql_update_keys[of k "\<lambda>_. True" "\<lambda>r. (f r)\<lparr> se_updated_at := store_now s \<rparr>" "st_sessions s"]
    sql_update_get[of k "\<lambda>_. True" "\<lambda>r. (f r)\<lparr> se_updated_at := store_now s \<rparr>" "st_sessions s" j]
  by (simp_all add: update_sessions_def split_beta)

end
