(* ===== verification/Transcripts.thy ===== *)
theory Transcripts
  imports Session_Store
begin

text \<open>
  Model of \<open>ChunksRepo\<close> (\<open>la-storage/src/repos.rs\<close>): the transcript of a session is kept
  as rows of session_chunks until it exceeds the threshold, and then moves to a file
  with one JSON line per chunk.  An append is one transaction: its effect on the tables
  is applied at the commit, while what it wrote to the file stays whatever becomes of
  the transaction.  A crash of the process is a failed statement or write.
\<close>

section \<open>Spill files\<close>

datatype AppendOutcome = StoredInDb int | SpilledToFile int str

definition spill_path :: "str \<Rightarrow> Store \<Rightarrow> str" where
  "spill_path sid s = st_data_dir s @ lit ''/sessions/'' @ sid @ lit ''.log''"

text \<open>The lines of a file; a line is empty, one JSON text, or malformed.\<close>

fun file_lines :: "Piece list \<Rightarrow> Piece list \<Rightarrow> Piece list list" where
  "file_lines acc [] = (if acc = [] then [] else [acc])"
| "file_lines acc (Newline # ps) = acc # file_lines [] ps"
| "file_lines acc (p # ps) = file_lines (acc @ [p]) ps"

fun parse_lines :: "Piece list list \<Rightarrow> StorageError + SessionChunk list" where
  "parse_lines [] = Inr []"
| "parse_lines ([] # ls) = parse_lines ls"
| "parse_lines ([Text c] # ls) =
     (case parse_lines ls of Inl e \<Rightarrow> Inl e | Inr cs \<Rightarrow> Inr (c # cs))"
| "parse_lines (l # ls) = Inl (Json (lit ''malformed line''))"

definition read_spill_lines :: "str \<Rightarrow> Store \<Rightarrow> StorageError + SessionChunk list" where
  "read_spill_lines path s =
     (case st_files s path of None \<Rightarrow> Inr [] | Some ps \<Rightarrow> parse_lines (file_lines [] ps))"

text \<open>The outcomes of writes are consumed one per file operation; without one it succeeds.\<close>

definition spill_write :: "str \<Rightarrow> Piece list \<Rightarrow> SessionChunk list \<Rightarrow> Store \<Rightarrow> (StorageError + unit) \<times> Store" where
  "spill_write path old cs s =
     (let w = (case st_writes s of [] \<Rightarrow> Written | w # _ \<Rightarrow> w);
          s1 = s\<lparr> st_writes := tl (st_writes s) \<rparr>;
          all_lines = concat (map (\<lambda>c. [Text c, Newline]) cs);
          put = (\<lambda>ps. s1\<lparr> st_files := (st_files s1)(path := Some (old @ ps)) \<rparr>)
      in case w of
           Written \<Rightarrow> (Inr (), put all_lines)
         | Unsynced \<Rightarrow> (Inl (Io (lit ''sync'')), put all_lines)
         | Broken k inside \<Rightarrow> (Inl (Io (lit ''write'')), put (take k all_lines @ (if inside \<and> even k then [Part] else [])))
         | NotOpened \<Rightarrow> (Inl (Io (lit ''open'')), s1))"

definition append_spill_line :: "str \<Rightarrow> SessionChunk \<Rightarrow> Store \<Rightarrow> (StorageError + unit) \<times> Store" where
  "append_spill_line path c s =
     spill_write path (case st_files s path of None \<Rightarrow> [] | Some ps \<Rightarrow> ps) [c] s"

definition write_spill_file :: "str \<Rightarrow> SessionChunk list \<Rightarrow> Store \<Rightarrow> (StorageError + unit) \<times> Store" where
  "write_spill_file path cs = spill_write path [] cs"

section \<open>Appending\<close>

definition next_chunk_seq :: "SessionChunk list \<Rightarrow> int" where
  "next_chunk_seq cs = (if cs = [] then 1 else Max (set (map (\<lambda>c. ch_seq c + 1) cs)))"

definition db_chunks :: "str \<Rightarrow> Store \<Rightarrow> SessionChunk list" where
  "db_chunks sid s = sort_key ch_seq (filter (\<lambda>c. ch_session_id c = sid) (st_chunks s))"

text \<open>A statement of the transaction; its effect, applied at the commit; and the commit.\<close>

definition tx_stmt :: "Store \<Rightarrow> (StorageError + unit) \<times> Store" where
  "tx_stmt = sql (\<lambda>s. Inr ((), s))"

definition tx_commit :: "(Store \<Rightarrow> Store) \<Rightarrow> Store \<Rightarrow> (StorageError + unit) \<times> Store" where
  "tx_commit f s = and_then (tx_stmt s) (\<lambda>_. sql (\<lambda>s. Inr ((), f s)))"

definition update_transcript_bytes :: "str \<Rightarrow> int \<Rightarrow> Store \<Rightarrow> Store" where
  "update_transcript_bytes sid n s = snd (update_sessions sid (\<lambda>r. r\<lparr> se_transcript_bytes := n \<rparr>) s)"

definition mk_chunk :: "str \<Rightarrow> int \<Rightarrow> ChunkKind \<Rightarrow> bytes \<Rightarrow> Store \<Rightarrow> SessionChunk" where
  "mk_chunk sid n kind data s = \<lparr> ch_session_id = sid, ch_seq = n, ch_ts = store_now s,
     ch_kind = chunk_kind_str kind, ch_data = data \<rparr>"

definition append_to_spill ::
    "str \<Rightarrow> str \<Rightarrow> int \<Rightarrow> ChunkKind \<Rightarrow> bytes \<Rightarrow> Store \<Rightarrow> (StorageError + AppendOutcome) \<times> Store" where
  "append_to_spill path sid new_bytes kind data s =
     (case read_spill_lines path s of Inl e \<Rightarrow> (Inl e, s) | Inr cs \<Rightarrow>
       let n = next_chunk_seq cs in
       and_then (tx_stmt s) (\<lambda>_ s.
       and_then (append_spill_line path (mk_chunk sid n kind data s) s) (\<lambda>_ s.
       and_then (tx_commit (update_transcript_bytes sid new_bytes) s) (\<lambda>_ s.
         (Inr (SpilledToFile n path), s)))))"

definition spill_now ::
    "str \<Rightarrow> int \<Rightarrow> ChunkKind \<Rightarrow> bytes \<Rightarrow> Store \<Rightarrow> (StorageError + AppendOutcome) \<times> Store" where
  "spill_now sid new_bytes kind data s =
     (let path = spill_path sid s in
      and_then (tx_stmt s) (\<lambda>_ s.
      let rows = db_chunks sid s; n = next_chunk_seq rows in
      and_then (tx_stmt s) (\<lambda>_ s.
      and_then (write_spill_file path (rows @ [mk_chunk sid n kind data s]) s) (\<lambda>_ s.
      and_then (tx_stmt s) (\<lambda>_ s.
      and_then (tx_commit (\<lambda>s. snd (update_sessions sid
          (\<lambda>r. r\<lparr> se_transcript_path := Some path, se_transcript_bytes := new_bytes \<rparr>)
          (s\<lparr> st_chunks := filter (\<lambda>c. ch_session_id c \<noteq> sid) (st_chunks s) \<rparr>))) s) (\<lambda>_ s.
        (Inr (SpilledToFile n path), s)))))))"

definition append_row ::
    "str \<Rightarrow> int \<Rightarrow> ChunkKind \<Rightarrow> bytes \<Rightarrow> Store \<Rightarrow> (StorageError + AppendOutcome) \<times> Store" where
  "append_row sid new_bytes kind data s =
     and_then (tx_stmt s) (\<lambda>_ s.
     let rows = db_chunks sid s;
         n = (if rows = [] then 0 else Max (set (map ch_seq rows))) + 1;
         c = mk_chunk sid n kind data s
     in and_then (tx_commit (\<lambda>s. update_transcript_bytes sid new_bytes (s\<lparr> st_chunks := st_chunks s @ [c] \<rparr>)) s)
       (\<lambda>_ s. (Inr (StoredInDb n), s)))"

definition chunk_append ::
    "str \<Rightarrow> ChunkKind \<Rightarrow> bytes \<Rightarrow> Store \<Rightarrow> (StorageError + AppendOutcome) \<times> Store" where
  "chunk_append sid kind data s =
     and_then (tx_stmt s) (\<lambda>_ s.
     and_then (session_get sid s) (\<lambda>r s. case r of
         None \<Rightarrow> (Inl (MissingSession sid), s)
       | Some session \<Rightarrow>
           let new_bytes = se_transcript_bytes session + int (length data) in
           (case se_transcript_path session of
              Some path \<Rightarrow> append_to_spill path sid new_bytes kind data s
            | None \<Rightarrow>
                if new_bytes > st_spill_bytes s then spill_now sid new_bytes kind data s
                else append_row sid new_bytes kind data s)))"

section \<open>Listing\<close>

text \<open>The two reads of a listing are separate statements: the row with its file, and the
  chunks of the table.\<close>

definition list_spilled :: "str \<Rightarrow> Store \<Rightarrow> (StorageError + SessionChunk list) \<times> Store" where
  "list_spilled sid s =
     and_then (session_get sid s) (\<lambda>r s. case r of
         None \<Rightarrow> (Inr [], s)
       | Some session \<Rightarrow> (case se_transcript_path session of
             None \<Rightarrow> (Inr [], s)
           | Some path \<Rightarrow> (read_spill_lines path s, s)))"

definition list_rows :: "str \<Rightarrow> SessionChunk list \<Rightarrow> Store \<Rightarrow> (StorageError + SessionChunk list) \<times> Store" where
  "list_rows sid cs = sql (\<lambda>s. Inr (sort_key ch_seq (cs @ db_chunks sid s), s))"

definition chunk_list :: "str \<Rightarrow> Store \<Rightarrow> (StorageError + SessionChunk list) \<times> Store" where
  "chunk_list sid s = and_then (list_spilled sid s) (list_rows sid)"

section \<open>The abstract transcript\<close>

text \<open>The chunks of a session as an abstract list; where they are kept is hidden.\<close>

definition total_bytes :: "SessionChunk list \<Rightarrow> int" where
  "total_bytes cs = sum_list (map (int \<circ> length \<circ> ch_data) cs)"

definition holds :: "str \<Rightarrow> SessionChunk list \<Rightarrow> Store \<Rightarrow> bool" where
  "holds sid cs s \<longleftrightarrow> map ch_seq cs = map int [1..<length cs + 1]
     \<and> (\<exists>r. map_of (st_sessions s) sid = Some r \<and> se_transcript_bytes r = total_bytes cs
        \<and> (case se_transcript_path r of
             None \<Rightarrow> db_chunks sid s = cs
           | Some p \<Rightarrow> p = spill_path sid s \<and> db_chunks sid s = []
               \<and> st_files s p = Some (concat (map (\<lambda>c. [Text c, Newline]) cs))))"

definition calm_store :: "Store \<Rightarrow> bool" where
  "calm_store s \<longleftrightarrow> db_io (st_db s) = [] \<and> st_writes s = []"

lemma file_lines_whole: "file_lines [] (concat (map (\<lambda>c. [Text c, Newline]) cs)) = map (\<lambda>c. [Text c]) cs"
  by (induction cs) simp_all

lemma parse_whole: "parse_lines (map (\<lambda>c. [Text c]) cs) = Inr cs"
  by (induction cs) simp_all

lemma sort_key_snoc: "\<forall>x\<in>set xs. f x \<le> f c \<Longrightarrow> sort_key f (xs @ [c]) = sort_key f xs @ [c]"
proof (induction xs)
  case (Cons x xs)
  have "insort_key f x (ys @ [c]) = insort_key f x ys @ [c]" if "\<forall>y\<in>set (x # ys). f y \<le> f c" for ys
    using that by (induction ys) auto
  from this[of "sort_key f xs"] Cons show ?case by simp
qed simp

lemma next_chunk_seq_holds:
  assumes "map ch_seq cs = map int [1..<length cs + 1]"
  shows "next_chunk_seq cs = int (length cs) + 1"
    and "cs \<noteq> [] \<Longrightarrow> Max (set (map ch_seq cs)) = int (length cs)"
proof -
  have s: "set (map ch_seq cs) = int ` {1..<length cs + 1}" using assms by (metis set_map set_upt)
  show m: "Max (set (map ch_seq cs)) = int (length cs)" if "cs \<noteq> []"
    unfolding s by (rule Max_eqI) (use that in \<open>auto simp: image_iff Suc_le_eq\<close>)
  have "set (map (\<lambda>c. ch_seq c + 1) cs) = (\<lambda>n. n + 1) ` set (map ch_seq cs)" by auto
  then show "next_chunk_seq cs = int (length cs) + 1"
    using m mono_Max_commute[of "\<lambda>n::int. n + 1" "set (map ch_seq cs)"]
    by (auto simp: next_chunk_seq_def mono_def)
qed

section \<open>Appending without failures\<close>

lemma spill_path_inj [simp]: "spill_path a s = spill_path b s \<longleftrightarrow> a = b"
  by (simp add: spill_path_def)

lemma spill_path_cong: "st_data_dir s' = st_data_dir s \<Longrightarrow> spill_path a s' = spill_path a s"
  by (simp add: spill_path_def)

lemma calm_tx [simp]:
  assumes "db_io (st_db s) = []"
  shows "tx_stmt s = (Inr (), s)" and "tx_commit f s = (Inr (), f s)"
  using assms by (simp_all add: tx_stmt_def tx_commit_def)

lemma total_bytes_snoc [simp]: "total_bytes (cs @ [c]) = total_bytes cs + int (length (ch_data c))"
  by (simp add: total_bytes_def)

lemma holds_seqs: "holds sid cs s \<Longrightarrow> map ch_seq cs = map int [1..<length cs + 1]"
  by (simp add: holds_def)

lemma seqs_snoc:
  "map ch_seq cs = map int [1..<length cs + 1] \<Longrightarrow>
   map ch_seq (cs @ [mk_chunk sid (int (length cs) + 1) kind data s]) = map int [1..<length (cs @ [mk_chunk sid (int (length cs) + 1) kind data s]) + 1]"
  by (simp add: mk_chunk_def)

lemma seqs_bound: "map ch_seq cs = map int [1..<length cs + 1] \<Longrightarrow> \<forall>c\<in>set cs. ch_seq c \<le> int (length cs) + 1"
proof
  fix c assume "map ch_seq cs = map int [1..<length cs + 1]" "c \<in> set cs"
  then have "ch_seq c \<in> set (map int [1..<length cs + 1])" by (metis image_eqI list.set_map)
  then show "ch_seq c \<le> int (length cs) + 1" by auto
qed

lemma db_chunks_set: "set (db_chunks sid s) = {c \<in> set (st_chunks s). ch_session_id c = sid}"
  by (auto simp: db_chunks_def)

lemma db_chunks_snoc:
  assumes "\<forall>x\<in>set (db_chunks sid s). ch_seq x \<le> ch_seq c" "ch_session_id c = sid"
  shows "sort_key ch_seq (filter (\<lambda>x. ch_session_id x = sid) (st_chunks s @ [c])) = db_chunks sid s @ [c]"
proof -
  have "\<forall>x\<in>set (filter (\<lambda>x. ch_session_id x = sid) (st_chunks s)). ch_seq x \<le> ch_seq c"
    using assms by (auto simp: db_chunks_set)
  from sort_key_snoc[OF this] show ?thesis using assms(2) by (simp add: db_chunks_def)
qed

lemma db_chunks_simps [simp]:
  "db_chunks x (snd (update_sessions k f s)) = db_chunks x s"
  "db_chunks x (s\<lparr> st_chunks := filter (\<lambda>c. ch_session_id c \<noteq> k) (st_chunks s) \<rparr>) = (if x = k then [] else db_chunks x s)"
  "ch_session_id c \<noteq> x \<Longrightarrow> db_chunks x (s\<lparr> st_chunks := st_chunks s @ [c] \<rparr>) = db_chunks x s"
  "db_chunks x (s\<lparr> st_files := fs, st_chunks := cs \<rparr>) = db_chunks x (s\<lparr> st_chunks := cs \<rparr>)"
  by (auto simp: db_chunks_def intro!: arg_cong[of _ _ "sort_key ch_seq"] filter_cong)

text \<open>Every session but the one appended to keeps its row, chunks and file.\<close>

definition others_keep :: "str \<Rightarrow> Store \<Rightarrow> Store \<Rightarrow> bool" where
  "others_keep sid s s' \<longleftrightarrow> st_data_dir s' = st_data_dir s \<and> (\<forall>x. x \<noteq> sid \<longrightarrow>
     map_of (st_sessions s') x = map_of (st_sessions s) x \<and> db_chunks x s' = db_chunks x s
     \<and> st_files s' (spill_path x s) = st_files s (spill_path x s))"

lemma others_keep_holds: "others_keep sid s s' \<Longrightarrow> x \<noteq> sid \<Longrightarrow> holds x cs s \<Longrightarrow> holds x cs s'"
  using spill_path_cong[of s' s x] by (auto simp: others_keep_def holds_def split: option.splits)

text \<open>The three ways of appending, each extending the abstract transcript by one chunk.\<close>

lemma append_row_holds:
  assumes calm: "calm_store s" and h: "holds sid cs s"
    and r: "map_of (st_sessions s) sid = Some r" "se_transcript_path r = None"
    and c_def: "c = mk_chunk sid (int (length cs) + 1) kind data s"
  shows "\<exists>s'. append_row sid (se_transcript_bytes r + int (length data)) kind data s
      = (Inr (StoredInDb (int (length cs) + 1)), s')
    \<and> holds sid (cs @ [c]) s' \<and> calm_store s' \<and> others_keep sid s s'"
proof -
  have db: "db_chunks sid s = cs" and b: "se_transcript_bytes r = total_bytes cs"
    and q: "map ch_seq cs = map int [1..<length cs + 1]"
    using h r by (auto simp: holds_def)
  have n: "(if cs = [] then 0 else Max (set (map ch_seq cs))) + 1 = int (length cs) + 1"
    using next_chunk_seq_holds(2)[OF q] by simp
  define s' where "s' = update_transcript_bytes sid (total_bytes cs + int (length data)) (s\<lparr> st_chunks := st_chunks s @ [c] \<rparr>)"
  have c: "ch_session_id c = sid" "ch_data c = data" by (simp_all add: c_def mk_chunk_def)
  have e: "append_row sid (se_transcript_bytes r + int (length data)) kind data s = (Inr (StoredInDb (int (length cs) + 1)), s')"
    using calm by (simp only: append_row_def calm_store_def calm_tx and_then_simps Let_def db n b c_def s'_def)
  have "\<forall>x\<in>set (db_chunks sid s). ch_seq x \<le> ch_seq c"
    using seqs_bound[OF q] db by (simp add: c_def mk_chunk_def)
  from db_chunks_snoc[OF this c(1)] have "db_chunks sid s' = cs @ [c]"
    unfolding s'_def update_transcript_bytes_def db_chunks_simps(1) db by (simp add: db_chunks_def)
  then have "holds sid (cs @ [c]) s'"
    using seqs_snoc[OF q, of sid kind data s] r b c
    by (simp add: holds_def s'_def update_transcript_bytes_def c_def[symmetric])
  moreover have "calm_store s' \<and> others_keep sid s s'"
    using calm c by (simp add: calm_store_def others_keep_def s'_def update_transcript_bytes_def)
  ultimately show ?thesis using e by blast
qed

lemma spill_write_calm:
  assumes "st_writes s = []"
  shows "spill_write path old cs s
    = (Inr (), s\<lparr> st_files := (st_files s)(path := Some (old @ concat (map (\<lambda>c. [Text c, Newline]) cs))) \<rparr>)"
  using assms by (simp add: spill_write_def Let_def)

lemma db_chunks_files [simp]: "db_chunks x (s\<lparr> st_files := f \<rparr>) = db_chunks x s"
  by (simp add: db_chunks_def)

lemma spill_now_holds:
  assumes calm: "calm_store s" and h: "holds sid cs s"
    and r: "map_of (st_sessions s) sid = Some r" "se_transcript_path r = None"
    and c_def: "c = mk_chunk sid (int (length cs) + 1) kind data s"
  shows "\<exists>s'. spill_now sid (se_transcript_bytes r + int (length data)) kind data s
      = (Inr (SpilledToFile (int (length cs) + 1) (spill_path sid s)), s')
    \<and> holds sid (cs @ [c]) s' \<and> calm_store s' \<and> others_keep sid s s'"
proof -
  have db: "db_chunks sid s = cs" and b: "se_transcript_bytes r = total_bytes cs"
    and q: "map ch_seq cs = map int [1..<length cs + 1]"
    using h r by (auto simp: holds_def)
  let ?p = "spill_path sid s"
  define s1 where "s1 = s\<lparr> st_files := (st_files s)(?p := Some (concat (map (\<lambda>c. [Text c, Newline]) (cs @ [c])))) \<rparr>"
  define s' where "s' = snd (update_sessions sid
      (\<lambda>r. r\<lparr> se_transcript_path := Some ?p, se_transcript_bytes := total_bytes cs + int (length data) \<rparr>)
      (s1\<lparr> st_chunks := filter (\<lambda>c. ch_session_id c \<noteq> sid) (st_chunks s1) \<rparr>))"
  have c: "ch_data c = data" by (simp add: c_def mk_chunk_def)
  have io: "db_io (st_db s) = []" "st_writes s = []" "db_io (st_db s1) = []"
    using calm by (simp_all add: calm_store_def s1_def)
  have "write_spill_file ?p (cs @ [c]) s = (Inr (), s1)"
    by (simp add: write_spill_file_def spill_write_calm[OF io(2)] s1_def)
  then have e: "spill_now sid (se_transcript_bytes r + int (length data)) kind data s
      = (Inr (SpilledToFile (int (length cs) + 1) ?p), s')"
    by (simp only: spill_now_def Let_def calm_tx[OF io(1)] calm_tx[OF io(3)] and_then_simps db b
        next_chunk_seq_holds(1)[OF q] c_def[symmetric] s'_def)
  have "db_chunks sid s' = []" by (simp add: s'_def)
  then have "holds sid (cs @ [c]) s'"
    using seqs_snoc[OF q, of sid kind data s] r c
    by (simp add: holds_def s'_def s1_def c_def[symmetric] spill_path_def)
  moreover have "x \<noteq> sid \<Longrightarrow> db_chunks x s' = db_chunks x s" for x
    using db_chunks_simps(1,2)[of x] by (simp add: s'_def) (simp add: s1_def)
  then have "calm_store s' \<and> others_keep sid s s'"
    using calm by (simp add: others_keep_def) (simp add: calm_store_def s'_def s1_def)
  ultimately show ?thesis using e by blast
qed

lemma append_to_spill_holds:
  assumes calm: "calm_store s" and h: "holds sid cs s"
    and r: "map_of (st_sessions s) sid = Some r" "se_transcript_path r = Some path"
    and c_def: "c = mk_chunk sid (int (length cs) + 1) kind data s"
  shows "\<exists>s'. append_to_spill path sid (se_transcript_bytes r + int (length data)) kind data s
      = (Inr (SpilledToFile (int (length cs) + 1) path), s')
    \<and> holds sid (cs @ [c]) s' \<and> calm_store s' \<and> others_keep sid s s'"
proof -
  have p: "path = spill_path sid s" and b: "se_transcript_bytes r = total_bytes cs" and db: "db_chunks sid s = []"
    and f: "st_files s path = Some (concat (map (\<lambda>c. [Text c, Newline]) cs))"
    and q: "map ch_seq cs = map int [1..<length cs + 1]"
    using h r by (auto simp: holds_def)
  define s1 where "s1 = s\<lparr> st_files := (st_files s)(path := Some (concat (map (\<lambda>c. [Text c, Newline]) (cs @ [c])))) \<rparr>"
  define s' where "s' = update_transcript_bytes sid (total_bytes cs + int (length data)) s1"
  have c: "ch_data c = data" by (simp add: c_def mk_chunk_def)
  have io: "db_io (st_db s) = []" "st_writes s = []" "db_io (st_db s1) = []"
    using calm by (simp_all add: calm_store_def s1_def)
  have rd: "read_spill_lines path s = Inr cs"
    by (simp add: read_spill_lines_def f file_lines_whole parse_whole)
  have "append_spill_line path c s = (Inr (), s1)"
    by (simp add: append_spill_line_def f spill_write_calm[OF io(2)] s1_def)
  then have e: "append_to_spill path sid (se_transcript_bytes r + int (length data)) kind data s
      = (Inr (SpilledToFile (int (length cs) + 1) path), s')"
    by (simp only: append_to_spill_def rd sum.case Let_def calm_tx[OF io(1)] calm_tx[OF io(3)] and_then_simps b
        next_chunk_seq_holds(1)[OF q] c_def[symmetric] s'_def)
  have "holds sid (cs @ [c]) s'"
    using seqs_snoc[OF q, of sid kind data s] r c p db
    by (simp add: holds_def s'_def s1_def c_def[symmetric] spill_path_def update_transcript_bytes_def)
  moreover have "calm_store s' \<and> others_keep sid s s'"
    using calm p by (auto simp: calm_store_def others_keep_def s'_def s1_def update_transcript_bytes_def)
  ultimately show ?thesis using e by blast
qed

lemma chunk_append_holds:
  assumes calm: "calm_store s" and h: "holds sid cs s"
    and c: "c = mk_chunk sid (int (length cs) + 1) kind data s"
  shows "\<exists>out s'. chunk_append sid kind data s = (Inr out, s')
    \<and> holds sid (cs @ [c]) s' \<and> calm_store s' \<and> others_keep sid s s'"
proof -
  obtain r where r: "map_of (st_sessions s) sid = Some r" using h by (auto simp: holds_def)
  have io: "db_io (st_db s) = []" using calm by (simp add: calm_store_def)
  show ?thesis
  proof (cases "se_transcript_path r")
    case None
    then show ?thesis
      using append_row_holds[OF calm h r None c] spill_now_holds[OF calm h r None c] r io
      by (cases "st_spill_bytes s < se_transcript_bytes r + int (length data)")
         (auto simp: chunk_append_def session_get_def Let_def)
  next
    case (Some path)
    then show ?thesis
      using append_to_spill_holds[OF calm h r Some c] r io
      by (auto simp: chunk_append_def session_get_def Let_def)
  qed
qed

lemma chunk_list_holds:
  assumes "calm_store s" "holds sid cs s"
  shows "chunk_list sid s = (Inr cs, s)"
proof -
  have q: "map ch_seq cs = map int [1..<length cs + 1]" using assms(2) by (simp add: holds_def)
  then have "sorted (map ch_seq cs)" unfolding q by (simp add: sorted_map del: upt_Suc)
  then have "sort_key ch_seq cs = cs" by (rule sort_key_id_if_sorted)
  then show ?thesis
    using assms
    by (auto simp: chunk_list_def list_spilled_def list_rows_def session_get_def calm_store_def holds_def
        read_spill_lines_def file_lines_whole parse_whole split: option.splits)
qed

section \<open>The transcript is a list\<close>

definition append_all :: "(str \<times> ChunkKind \<times> bytes) list \<Rightarrow> Store \<Rightarrow> Store" where
  "append_all ops s = fold (\<lambda>(sid, kind, data) s. snd (chunk_append sid kind data s)) ops s"

lemma append_all_holds:
  assumes "calm_store s" "\<And>x. x \<in> fst ` set ops \<Longrightarrow> \<exists>cs. holds x cs s" "holds sid cs s"
  shows "\<exists>new. holds sid (cs @ new) (append_all ops s) \<and> calm_store (append_all ops s)
    \<and> map (\<lambda>c. (ch_kind c, ch_data c)) new
      = map (\<lambda>(_, k, d). (chunk_kind_str k, d)) (filter (\<lambda>op. fst op = sid) ops)"
  using assms
proof (induction ops arbitrary: s cs)
  case Nil
  then show ?case by (intro exI[of _ "[]"]) (simp add: append_all_def)
next
  case (Cons op ops)
  obtain x k d where op: "op = (x, k, d)" by (cases op)
  obtain xs where x: "holds x xs s" using Cons.prems(2)[of x] op by auto
  obtain out s1 where e: "chunk_append x k d s = (Inr out, s1)" and s1: "calm_store s1" "others_keep x s s1"
    and h: "holds x (xs @ [mk_chunk x (int (length xs) + 1) k d s]) s1"
    using chunk_append_holds[OF Cons.prems(1) x refl] by blast
  have all: "append_all (op # ops) s = append_all ops s1" by (simp add: append_all_def op e)
  have still: "\<exists>cs. holds y cs s1" if "y \<in> fst ` set ops" for y
  proof -
    from Cons.prems(2)[of y] that obtain ys where "holds y ys s" by auto
    then show ?thesis using others_keep_holds[OF s1(2), of y ys] h by blast
  qed
  show ?case
  proof (cases "x = sid")
    case True
    have cs: "xs = cs"
      using chunk_list_holds[OF Cons.prems(1) x] chunk_list_holds[OF Cons.prems(1,3)] True by simp
    let ?c = "mk_chunk x (int (length xs) + 1) k d s"
    obtain new where "holds sid ((cs @ [?c]) @ new) (append_all ops s1)" "calm_store (append_all ops s1)"
      "map (\<lambda>c. (ch_kind c, ch_data c)) new
        = map (\<lambda>(_, k, d). (chunk_kind_str k, d)) (filter (\<lambda>op. fst op = sid) ops)"
      using Cons.IH[OF s1(1) still, of "cs @ [?c]"] h True cs by blast
    then show ?thesis
      unfolding all using True op by (intro exI[of _ "?c # new"]) (simp add: mk_chunk_def)
  next
    case False
    have f: "filter (\<lambda>op. fst op = sid) (op # ops) = filter (\<lambda>op. fst op = sid) ops" using False op by simp
    have "holds sid cs s1" by (rule others_keep_holds[OF s1(2) _ Cons.prems(3)]) (use False in simp)
    then obtain new where "holds sid (cs @ new) (append_all ops s1)" "calm_store (append_all ops s1)"
      "map (\<lambda>c. (ch_kind c, ch_data c)) new
        = map (\<lambda>(_, k, d). (chunk_kind_str k, d)) (filter (\<lambda>op. fst op = sid) ops)"
      using Cons.IH[OF s1(1) still] by blast
    then show ?thesis unfolding all f by blast
  qed
qed

text \<open>C18. A transcript is a list.  However appends of several sessions are interleaved,
  and wherever the threshold makes the chunks of each move to a file, listing a session
  returns exactly what was appended to it, in order and numbered from one.\<close>

theorem transcript_is_what_was_appended:
  assumes "calm_store s" and "\<And>x. x \<in> fst ` set ops \<Longrightarrow> holds x [] s" and "holds sid [] s"
  shows "\<exists>cs. chunk_list sid (append_all ops s) = (Inr cs, append_all ops s)
    \<and> map (\<lambda>c. (ch_kind c, ch_data c)) cs
      = map (\<lambda>(_, k, d). (chunk_kind_str k, d)) (filter (\<lambda>op. fst op = sid) ops)
    \<and> map ch_seq cs = map int [1..<length cs + 1]"
proof -
  obtain cs where "holds sid cs (append_all ops s)" "calm_store (append_all ops s)"
    "map (\<lambda>c. (ch_kind c, ch_data c)) cs
      = map (\<lambda>(_, k, d). (chunk_kind_str k, d)) (filter (\<lambda>op. fst op = sid) ops)"
    using append_all_holds[OF assms(1) _ assms(3), of ops] assms(2) by auto
  then show ?thesis using chunk_list_holds holds_seqs by blast
qed

section \<open>Reading while a transcript moves\<close>

text \<open>A listing that overlaps the move of the transcript to its file returns nothing.
  It reads the row before the move and the table after it, so it sees neither the file
  nor the chunks, although every chunk is stored before and after.\<close>

theorem listing_misses_moving_transcript:
  assumes "calm_store s" "holds sid cs s"
    and "map_of (st_sessions s) sid = Some r" "se_transcript_path r = None"
    and "se_transcript_bytes r + int (length data) > st_spill_bytes s"
  shows "\<exists>out s' c. list_spilled sid s = (Inr [], s) \<and> chunk_append sid kind data s = (Inr out, s')
    \<and> list_rows sid [] s' = (Inr [], s')
    \<and> chunk_list sid s = (Inr cs, s) \<and> chunk_list sid s' = (Inr (cs @ [c]), s')"
proof -
  have io: "db_io (st_db s) = []" using assms(1) by (simp add: calm_store_def)
  let ?c = "mk_chunk sid (int (length cs) + 1) kind data s"
  obtain s' where s': "spill_now sid (se_transcript_bytes r + int (length data)) kind data s
      = (Inr (SpilledToFile (int (length cs) + 1) (spill_path sid s)), s')"
    "holds sid (cs @ [?c]) s'" "calm_store s'"
    using spill_now_holds[OF assms(1-4) refl] by blast
  have e: "chunk_append sid kind data s = (Inr (SpilledToFile (int (length cs) + 1) (spill_path sid s)), s')"
    using s'(1) assms(3-5) io by (simp add: chunk_append_def session_get_def Let_def)
  have "db_chunks sid s' = []"
  proof -
    have "s' = snd (spill_now sid (se_transcript_bytes r + int (length data)) kind data s)" by (simp add: s'(1))
    then show ?thesis
      using assms(1) by (simp add: spill_now_def Let_def calm_store_def write_spill_file_def spill_write_calm)
  qed
  then have "list_rows sid [] s' = (Inr [], s')"
    using s'(3) by (simp add: list_rows_def calm_store_def)
  then show ?thesis
    using e chunk_list_holds[OF assms(1,2)] chunk_list_holds[OF s'(3,2)] assms(3,4) io
    by (auto simp: list_spilled_def session_get_def)
qed

text \<open>A transcript whose file is missing, as in a restored backup of the database,
  reads as empty without an error, and the next chunk gets the number one again.\<close>

theorem missing_file_restarts_transcript:
  assumes "calm_store s" "map_of (st_sessions s) sid = Some r" "se_transcript_path r = Some p"
    and "st_files s p = None" "db_chunks sid s = []"
  shows "chunk_list sid s = (Inr [], s) \<and> (\<exists>s'. chunk_append sid kind data s = (Inr (SpilledToFile 1 p), s'))"
proof -
  have "read_spill_lines p s = Inr []" using assms(4) by (simp add: read_spill_lines_def)
  then show ?thesis
    using assms
    by (simp add: chunk_list_def list_spilled_def list_rows_def session_get_def calm_store_def
        chunk_append_def append_to_spill_def append_spill_line_def spill_write_calm next_chunk_seq_def Let_def)
qed

section \<open>Witnesses\<close>

definition demo_session :: "str \<Rightarrow> Session" where
  "demo_session sid = session_row (lit ''2026'') \<lparr> ns_id = sid, ns_project_id = lit ''p'', ns_backend_id = lit ''claude'',
     ns_external_id = None, ns_title = None, ns_state = lit ''running'', ns_pid = None, ns_worktree_path = None,
     ns_worktree_branch = None, ns_base_branch = None, ns_spawn_args = [], ns_origin = lit ''user'',
     ns_hook_status = None, ns_external_path = None \<rparr>"

definition demo_store :: Store where
  "demo_store = sync \<lparr> st_db = empty_db [] [],
     st_backends = [(lit ''claude'', \<lparr> be_id = lit ''claude'', be_display_name = [], be_version = None, be_available = 1, be_last_probed_at = [] \<rparr>)],
     st_projects = [(lit ''p'', \<lparr> pj_id = lit ''p'', pj_root_path = [], pj_display_name = [], pj_vcs = None, pj_created_at = [] \<rparr>)],
     st_sessions = [(lit ''s1'', demo_session (lit ''s1''))], st_chunks = [], st_settings = [], st_schema_meta = Some [],
     st_files = Map.empty, st_writes = [], st_data_dir = lit ''/d'', st_spill_bytes = 3 \<rparr>"

lemma demo_store_facts:
  "calm_store demo_store" "holds (lit ''s1'') [] demo_store" "st_spill_bytes demo_store = 3"
  "map_of (st_sessions demo_store) (lit ''s1'') = Some (demo_session (lit ''s1''))"
  "se_transcript_path (demo_session x) = None" "se_transcript_bytes (demo_session x) = 0"
  by (simp_all add: calm_store_def demo_store_def sync_def empty_db_def holds_def demo_session_def session_row_def
      db_chunks_def total_bytes_def)

lemma transcript_is_what_was_appended_witness:
  "\<exists>cs. chunk_list (lit ''s1'') (append_all [(lit ''s1'', Stdout, [1, 2]), (lit ''s1'', Input, [3, 4])] demo_store)
      = (Inr cs, append_all [(lit ''s1'', Stdout, [1, 2]), (lit ''s1'', Input, [3, 4])] demo_store)
    \<and> map (\<lambda>c. (ch_kind c, ch_data c)) cs = [(lit ''stdout'', [1, 2]), (lit ''input'', [3, 4])]"
  using transcript_is_what_was_appended[OF demo_store_facts(1) _ demo_store_facts(2),
      of "[(lit ''s1'', Stdout, [1, 2]), (lit ''s1'', Input, [3, 4])]"] demo_store_facts(2)
  by auto

lemma listing_misses_moving_transcript_witness:
  "\<exists>out s'. chunk_append (lit ''s1'') Stdout [1, 2, 3, 4] demo_store = (Inr out, s')
    \<and> list_rows (lit ''s1'') [] s' = (Inr [], s')"
  using listing_misses_moving_transcript[OF demo_store_facts(1,2,4,5), of "[1, 2, 3, 4]" Stdout]
  by (auto simp: demo_store_facts)

lemma missing_file_restarts_transcript_witness:
  "\<exists>s'. chunk_append (lit ''s1'') Stdout [1] (snd (update_sessions (lit ''s1'')
      (\<lambda>r. r\<lparr> se_transcript_path := Some (lit ''/d/s1.log'') \<rparr>) demo_store)) = (Inr (SpilledToFile 1 (lit ''/d/s1.log'')), s')"
proof -
  let ?s = "snd (update_sessions (lit ''s1'') (\<lambda>r. r\<lparr> se_transcript_path := Some (lit ''/d/s1.log'') \<rparr>) demo_store)"
  have "calm_store ?s" "st_files ?s (lit ''/d/s1.log'') = None" "db_chunks (lit ''s1'') ?s = []"
    using demo_store_facts(1,2) by (simp_all add: calm_store_def holds_def demo_store_facts demo_store_def sync_def)
  then show ?thesis
    using missing_file_restarts_transcript[of ?s "lit ''s1''" _ "lit ''/d/s1.log''" Stdout "[1]"] demo_store_facts(4)
    by (simp del: lit_eq_iff)
qed

end
