(* ===== verification/Store_History.thy ===== *)
theory Store_History
  imports Transcripts
begin

text \<open>
  Histories of the database: what holds after any sequence of the operations of
  \<open>Storage_Repos\<close>, \<open>Session_Store\<close> and \<open>Transcripts\<close>, with any outcome of the statements
  and of the writes to spill files.
\<close>

section \<open>Steps\<close>

text \<open>A statement that only reads has the effect of \<open>tx_stmt\<close>, whatever it returns.\<close>

inductive store_step :: "Store \<Rightarrow> Store \<Rightarrow> bool" where
  env: "store_step s (s\<lparr> st_db := (st_db s)\<lparr> db_now := t, db_io := io \<rparr>, st_writes := ws \<rparr>)"
| crons_and_runs: "db_step (st_db s) db \<Longrightarrow> db_sessions db = db_sessions (st_db s) \<Longrightarrow> store_step s (s\<lparr> st_db := db \<rparr>)"
| reading: "tx_stmt s = (r1, s') \<Longrightarrow> store_step s s'"
| backend_upsert: "backend_upsert b s = (r1, s') \<Longrightarrow> store_step s s'"
| project_create: "project_create n s = (r2, s') \<Longrightarrow> store_step s s'"
| project_rename: "project_update_display_name k name s = (r3, s') \<Longrightarrow> store_step s s'"
| project_delete: "project_delete k s = (r3, s') \<Longrightarrow> store_step s s'"
| create: "session_create m s = (r4, s') \<Longrightarrow> store_step s s'"
| state: "session_update_state k st code s = (r3, s') \<Longrightarrow> store_step s s'"
| pid: "session_update_pid k p s = (r3, s') \<Longrightarrow> store_step s s'"
| clear_worktree: "session_clear_worktree k keep s = (r3, s') \<Longrightarrow> store_step s s'"
| hook_status: "session_set_hook_status k h s = (r3, s') \<Longrightarrow> store_step s s'"
| archive: "session_archive k s = (r3, s') \<Longrightarrow> store_step s s'"
| delete: "session_delete k s = (r3, s') \<Longrightarrow> store_step s s'"
| setting_set: "setting_set k v s = (r1, s') \<Longrightarrow> store_step s s'"
| setting_delete: "setting_delete k s = (r3, s') \<Longrightarrow> store_step s s'"
| append: "chunk_append sid kind data s = (r5, s') \<Longrightarrow> store_step s s'"
| listing: "chunk_list sid s = (r6, s') \<Longrightarrow> store_step s s'"

section \<open>The constraints of the tables\<close>

definition keyed :: "(str \<times> 'r) list \<Rightarrow> bool" where "keyed rows \<longleftrightarrow> distinct (map fst rows)"

definition sessions_ok :: "Store \<Rightarrow> bool" where
  "sessions_ok s \<longleftrightarrow> keyed (st_sessions s)
     \<and> (\<forall>k r. map_of (st_sessions s) k = Some r \<longrightarrow> se_id r = k \<and> session_refs s r
          \<and> (\<forall>p. se_transcript_path r = Some p \<longrightarrow> p = spill_path k s))
     \<and> (\<forall>j k a b. map_of (st_sessions s) j = Some a \<longrightarrow> map_of (st_sessions s) k = Some b
          \<longrightarrow> same_external a b \<longrightarrow> j = k)"

definition store_ok :: "Store \<Rightarrow> bool" where
  "store_ok s \<longleftrightarrow> keyed (st_backends s) \<and> keyed (st_projects s) \<and> sessions_ok s
     \<and> (\<forall>c\<in>set (st_chunks s). ch_session_id c \<in> set (map fst (st_sessions s)))
     \<and> sync s = s \<and> db_ok (st_db s)"

subsection \<open>The tables of crons and runs\<close>

definition db_keys :: "Db \<Rightarrow> str list \<times> (str \<times> str) list" where
  "db_keys db = (db_backends db, db_projects db)"

interpretation keys: db_evolution "\<lambda>d d'. db_keys d' = db_keys d"
  by unfold_locales (simp_all add: db_keys_def)

lemma keys_simps [simp]:
  "db_keys (db\<lparr> db_crons := c \<rparr>) = db_keys db" "db_keys (db\<lparr> db_runs := r \<rparr>) = db_keys db"
  "db_keys (db\<lparr> db_metrics := m \<rparr>) = db_keys db" "db_keys (count_terminal st db) = db_keys db"
  "db_keys (snd (update_crons k p f db)) = db_keys db" "db_keys (snd (update_runs k q g db)) = db_keys db"
  "db_keys (db\<lparr> db_now := t, db_io := io \<rparr>) = db_keys db" "db_keys (db\<lparr> db_sessions := ss \<rparr>) = db_keys db"
  by (simp_all add: db_keys_def count_terminal_def update_crons_def update_runs_def split_beta)

lemma keys_stmt:
  assumes "run_stmt f db = (r, db')" and "\<And>d a d'. f d = Inr (a, d') \<Longrightarrow> db_keys d' = db_keys d"
  shows "db_keys db' = db_keys db"
  using assms by (rule keys.run_stmt)

lemma keys_then:
  assumes "then_do p k = (x, db')" and "\<And>a d. p = (a, d) \<Longrightarrow> db_keys d = db_keys db"
    and "\<And>a d. p = (Inr a, d) \<Longrightarrow> k a d = (x, db') \<Longrightarrow> db_keys db' = db_keys d"
  shows "db_keys db' = db_keys db"
  using assms by (rule keys.then_do)

lemma keys_update:
  "update_crons k p f d = (n, d') \<Longrightarrow> db_keys d' = db_keys d"
  "update_runs k q g d = (n, d') \<Longrightarrow> db_keys d' = db_keys d"
  using keys_simps(5)[of k p f d] keys_simps(6)[of k q g d] by auto

lemma keys_read: "run_stmt (\<lambda>d. Inr (g d, d)) db = (r, db') \<Longrightarrow> db_keys db' = db_keys db"
  by (rule keys_stmt) auto

lemma keys_fetch: "run_fetch k db = (r, db') \<Longrightarrow> db_keys db' = db_keys db"
  unfolding run_fetch_def run_get_def by (rule keys_then) (auto dest: keys_read)

lemma db_step_keys: "db_step db db' \<Longrightarrow> db_keys db' = db_keys db"
proof (induction rule: db_step.induct)
  case (step_cron_upsert u db r db')
  then show ?case unfolding cron_upsert_def cron_get_def
    by (rule keys_then)
      (auto elim!: keys_stmt keys_then dest: keys_read simp: Let_def split: if_splits)
next
  case (step_bump k db r db')
  then show ?case unfolding bump_consecutive_failures_def
    by (rule keys_then) (auto elim!: keys_stmt dest: keys_read keys_update)
next
  case (step_create n db r db')
  then show ?case unfolding run_create_def
    by (rule keys_then) (auto elim!: keys_stmt dest: keys_fetch simp: insert_run_def split: if_splits)
next
  case (step_reject j db r db')
  then show ?case unfolding run_create_rejected_def
    by (rule keys_then) (auto elim!: keys_stmt dest: keys_fetch simp: insert_run_def split: if_splits)
next
  case (step_finish k f db r db')
  then show ?case unfolding run_finish_def
    by (rule keys_then)
      (auto elim!: keys_stmt keys_then dest: keys_read keys_update simp: run_get_def split: if_splits prod.splits)
qed (auto elim!: keys_stmt dest: keys_update split: prod.splits if_splits
    simp: mark_fired_def cron_set_enabled_def reset_consecutive_failures_def pause_for_failures_def
      run_attach_session_def run_update_status_def cron_delete_def)

subsection \<open>The tables of sessions\<close>

lemma sync_iff:
  "sync s = s \<longleftrightarrow> db_backends (st_db s) = map fst (st_backends s)
     \<and> db_projects (st_db s) = map (\<lambda>(i, p). (i, pj_root_path p)) (st_projects s)
     \<and> db_sessions (st_db s) = map fst (st_sessions s)"
proof
  assume "sync s = s"
  then have "db_backends (st_db (sync s)) = db_backends (st_db s)" "db_projects (st_db (sync s)) = db_projects (st_db s)"
    "db_sessions (st_db (sync s)) = db_sessions (st_db s)" by simp_all
  then show "db_backends (st_db s) = map fst (st_backends s)
     \<and> db_projects (st_db s) = map (\<lambda>(i, p). (i, pj_root_path p)) (st_projects s)
     \<and> db_sessions (st_db s) = map fst (st_sessions s)"
    by (simp add: sync_def)
qed (simp add: sync_def)

lemma sync_fields [simp]:
  "st_backends (sync s) = st_backends s" "st_projects (sync s) = st_projects s" "st_sessions (sync s) = st_sessions s"
  "st_chunks (sync s) = st_chunks s" "st_files (sync s) = st_files s" "st_data_dir (sync s) = st_data_dir s"
  "sync (sync s) = sync s" "db_crons (st_db (sync s)) = db_crons (st_db s)" "db_runs (st_db (sync s)) = db_runs (st_db s)"
  "db_metrics (st_db (sync s)) = db_metrics (st_db s)" "db_sessions (st_db (sync s)) = map fst (st_sessions s)"
  "db_backends (st_db (sync s)) = map fst (st_backends s)"
  "fst ` set (db_projects (st_db (sync s))) = fst ` set (st_projects s)"
  by (simp_all add: sync_def image_image split_beta)

lemma store_okD:
  assumes "store_ok s"
  shows "keyed (st_backends s)" "keyed (st_projects s)" "sessions_ok s" "sync s = s" "db_ok (st_db s)"
    "\<And>c. c \<in> set (st_chunks s) \<Longrightarrow> ch_session_id c \<in> set (map fst (st_sessions s))"
    "db_sessions (st_db s) = map fst (st_sessions s)" "db_backends (st_db s) = map fst (st_backends s)"
    "fst ` set (db_projects (st_db s)) = fst ` set (st_projects s)"
  using assms by (auto simp: store_ok_def sync_iff split_beta image_image)

lemma sessions_okD:
  assumes "sessions_ok s" "map_of (st_sessions s) k = Some r"
  shows "se_id r = k" "session_refs s r" "se_transcript_path r = Some p \<Longrightarrow> p = spill_path k s"
    "map_of (st_sessions s) j = Some a \<Longrightarrow> same_external a r \<Longrightarrow> j = k"
  using assms by (auto simp: sessions_ok_def)

text \<open>Transfer of the constraints of crons and runs to other sets of keys.\<close>

lemma db_ok_transfer:
  assumes "db_ok d" "db_crons d' = db_crons d" "db_runs d' = db_runs d" "db_metrics d' = db_metrics d"
    and "\<And>k c. map_of (db_crons d) k = Some c \<Longrightarrow> cron_checks d c \<Longrightarrow> cron_checks d' c"
    and "\<And>k r. map_of (db_runs d) k = Some r \<Longrightarrow> run_checks d r \<Longrightarrow> run_checks d' r"
  shows "db_ok d'"
proof -
  have "finished_count d' = finished_count d" by (simp add: finished_count_def assms)
  then show ?thesis
    using assms by (auto simp: db_ok_def db_core_def crons_wf_def runs_wf_def)
qed

lemma sync_db_ok:
  assumes "db_ok (st_db s)" "db_crons (st_db t) = db_crons (st_db s)" "db_runs (st_db t) = db_runs (st_db s)"
    "db_metrics (st_db t) = db_metrics (st_db s)"
    and "\<And>k c. map_of (db_crons (st_db s)) k = Some c \<Longrightarrow> cron_checks (st_db s) c
        \<Longrightarrow> cr_project_id c \<in> fst ` set (st_projects t) \<and> cr_backend_id c \<in> set (map fst (st_backends t))"
    and "\<And>k r i. map_of (db_runs (st_db s)) k = Some r \<Longrightarrow> rr_session_id r = Some i
        \<Longrightarrow> i \<in> set (db_sessions (st_db s)) \<Longrightarrow> i \<in> set (map fst (st_sessions t))"
  shows "db_ok (st_db (sync t))"
proof (rule db_ok_transfer[OF assms(1)])
  fix k c assume "map_of (db_crons (st_db s)) k = Some c" "cron_checks (st_db s) c"
  then show "cron_checks (st_db (sync t)) c" using assms(5)[of k c] by (simp add: cron_checks_def)
next
  fix k r assume "map_of (db_runs (st_db s)) k = Some r" "run_checks (st_db s) r"
  then show "run_checks (st_db (sync t)) r"
    using assms(2) assms(6)[of k r] by (auto simp: run_checks_def split: option.splits)
qed (use assms in simp_all)

section \<open>What an append can do\<close>

text \<open>Two stores that differ in spill files and in the outcomes to come only.\<close>

definition quiet :: "Store \<Rightarrow> Store \<Rightarrow> bool" where
  "quiet s s' \<longleftrightarrow> (\<exists>io fs ws. s' = s\<lparr> st_db := (st_db s)\<lparr> db_io := io \<rparr>, st_files := fs, st_writes := ws \<rparr>)"

lemma quietI: "quiet s s" "quiet s (adv_store s)"
  unfolding quiet_def adv_store_def adv_def
  by (intro exI[of _ "db_io (st_db s)"] exI[of _ "st_files s"] exI[of _ "st_writes s"], simp)
     (intro exI[of _ "tl (db_io (st_db s))"] exI[of _ "st_files s"] exI[of _ "st_writes s"], simp)

lemma quiet_trans: "quiet s t \<Longrightarrow> quiet t u \<Longrightarrow> quiet s u"
  unfolding quiet_def by fastforce

lemma quiet_fields:
  assumes "quiet s t"
  shows "st_sessions t = st_sessions s" "st_chunks t = st_chunks s" "st_data_dir t = st_data_dir s"
    "store_now t = store_now s" "st_projects t = st_projects s" "st_backends t = st_backends s"
    "db_chunks x t = db_chunks x s" "spill_path x t = spill_path x s" "db_keys (st_db t) = db_keys (st_db s)"
    "st_spill_bytes t = st_spill_bytes s"
  using assms by (auto simp: quiet_def store_now_def db_chunks_def spill_path_def db_keys_def)

definition old_pieces :: "str \<Rightarrow> Store \<Rightarrow> Piece list" where
  "old_pieces path s = (case st_files s path of None \<Rightarrow> [] | Some ps \<Rightarrow> ps)"

lemma spill_write_cases:
  assumes "spill_write path old cs s = (r, t)"
  obtains (whole) "r = Inr ()" "quiet s t" "st_files t = (st_files s)(path := Some (old @ concat (map (\<lambda>c. [Text c, Newline]) cs)))"
    | (part) e ps where "r = Inl e" "quiet s t" "st_files t = (st_files s)(path := Some (old @ ps))"
    | (kept) e where "r = Inl e" "quiet s t" "st_files t = st_files s"
proof -
  have q: "quiet s (s\<lparr> st_writes := ws \<rparr>)" "quiet s (s\<lparr> st_writes := ws, st_files := fs \<rparr>)" for ws fs
    unfolding quiet_def
    by (intro exI[of _ "db_io (st_db s)"] exI[of _ "st_files s"] exI[of _ ws], simp)
       (intro exI[of _ "db_io (st_db s)"] exI[of _ fs] exI[of _ ws], simp)
  show ?thesis
    using assms whole part kept q
    by (cases "case st_writes s of [] \<Rightarrow> Written | w # _ \<Rightarrow> w") (auto simp: spill_write_def Let_def)
qed

lemma tx_stmtE:
  assumes "tx_stmt s = (r, t)"
  shows "t = adv_store s"
  using assms unfolding tx_stmt_def by (auto elim: sqlE)

lemma tx_commitE:
  assumes "tx_commit f s = (r, s')"
  obtains (fail) e where "r = Inl e" "quiet s s'" "st_files s' = st_files s"
    | (ok) t where "r = Inr ()" "quiet s t" "st_files t = st_files s" "s' = f t"
proof -
  from assms show ?thesis unfolding tx_commit_def
  proof (cases rule: and_thenE)
    case (fail e)
    then show ?thesis using that(1) tx_stmtE[OF fail(1)] by (simp add: quietI)
  next
    case (ok a s1)
    have s1: "s1 = adv_store s" by (rule tx_stmtE[OF ok(1)])
    have q: "quiet s (adv_store s1)" unfolding s1 by (rule quiet_trans[OF quietI(2) quietI(2)])
    show ?thesis
    proof (cases rule: sqlE[OF ok(2)])
      case (1 e)
      then show ?thesis using that(1) q s1 by simp
    next
      case (2 b)
      then show ?thesis using that(2)[of "adv_store s1"] q s1 by simp
    qed
  qed
qed

text \<open>The effects of an append: none but on the outcomes; a write to the file of the
  session and nothing else; a row; the move to a file; a line of the file.\<close>

inductive append_effect :: "str \<Rightarrow> ChunkKind \<Rightarrow> bytes \<Rightarrow> Store \<Rightarrow> StorageError + AppendOutcome \<Rightarrow> Store \<Rightarrow> bool"
  for sid kind data s where
  nothing: "quiet s s' \<Longrightarrow> st_files s' = st_files s \<Longrightarrow> append_effect sid kind data s (Inl e) s'"
| wrote_spill: "map_of (st_sessions s) sid = Some r \<Longrightarrow> se_transcript_path r = None \<Longrightarrow> quiet s s'
    \<Longrightarrow> st_files s' = (st_files s)(spill_path sid s := Some ps) \<Longrightarrow> append_effect sid kind data s (Inl e) s'"
| wrote_line: "map_of (st_sessions s) sid = Some r \<Longrightarrow> se_transcript_path r = Some path \<Longrightarrow> quiet s s'
    \<Longrightarrow> read_spill_lines path s = Inr cs
    \<Longrightarrow> st_files s' = (st_files s)(path := Some (old_pieces path s @ ps)) \<Longrightarrow> append_effect sid kind data s (Inl e) s'"
| row: "map_of (st_sessions s) sid = Some r \<Longrightarrow> se_transcript_path r = None \<Longrightarrow> quiet s t \<Longrightarrow> st_files t = st_files s
    \<Longrightarrow> n = (if db_chunks sid s = [] then 0 else Max (set (map ch_seq (db_chunks sid s)))) + 1
    \<Longrightarrow> s' = update_transcript_bytes sid (se_transcript_bytes r + int (length data))
          (t\<lparr> st_chunks := st_chunks t @ [mk_chunk sid n kind data t] \<rparr>)
    \<Longrightarrow> append_effect sid kind data s (Inr (StoredInDb n)) s'"
| spilled: "map_of (st_sessions s) sid = Some r \<Longrightarrow> se_transcript_path r = None \<Longrightarrow> quiet s t
    \<Longrightarrow> path = spill_path sid s \<Longrightarrow> n = next_chunk_seq (db_chunks sid s)
    \<Longrightarrow> st_files t = (st_files s)(path :=
          Some (concat (map (\<lambda>c. [Text c, Newline]) (db_chunks sid s @ [mk_chunk sid n kind data s]))))
    \<Longrightarrow> s' = snd (update_sessions sid (\<lambda>x. x\<lparr> se_transcript_path := Some path,
              se_transcript_bytes := se_transcript_bytes r + int (length data) \<rparr>)
            (t\<lparr> st_chunks := filter (\<lambda>c. ch_session_id c \<noteq> sid) (st_chunks t) \<rparr>))
    \<Longrightarrow> append_effect sid kind data s (Inr (SpilledToFile n path)) s'"
| line: "map_of (st_sessions s) sid = Some r \<Longrightarrow> se_transcript_path r = Some path \<Longrightarrow> quiet s t
    \<Longrightarrow> read_spill_lines path s = Inr cs \<Longrightarrow> n = next_chunk_seq cs
    \<Longrightarrow> st_files t = (st_files s)(path := Some (old_pieces path s @ [Text (mk_chunk sid n kind data s), Newline]))
    \<Longrightarrow> s' = update_transcript_bytes sid (se_transcript_bytes r + int (length data)) t
    \<Longrightarrow> append_effect sid kind data s (Inr (SpilledToFile n path)) s'"

inductive_cases append_okE: "append_effect sid kind data s (Inr out) s'"

lemma quiet_chunk: "quiet s t \<Longrightarrow> mk_chunk sid n kind data t = mk_chunk sid n kind data s"
  by (simp add: mk_chunk_def quiet_fields)

lemma append_row_effect:
  assumes "append_row sid (se_transcript_bytes r + int (length data)) kind data t0 = (x, s')"
    and t0: "quiet s t0" "st_files t0 = st_files s"
    and r: "map_of (st_sessions s) sid = Some r" "se_transcript_path r = None"
  shows "append_effect sid kind data s x s'"
  using assms(1) unfolding append_row_def Let_def
proof (cases rule: and_thenE)
  case (fail e)
  then show ?thesis using tx_stmtE[OF fail(1)] quiet_trans[OF t0(1) quietI(2)] t0(2)
    by (simp add: append_effect.nothing)
next
  case (ok u t1)
  have t1: "quiet s t1" "st_files t1 = st_files s"
    using tx_stmtE[OF ok(1)] quiet_trans[OF t0(1) quietI(2)] t0(2) by simp_all
  note q = quiet_fields[OF t1(1)]
  let ?n = "(if db_chunks sid s = [] then 0 else Max (set (map ch_seq (db_chunks sid s)))) + 1"
  from ok(2) show ?thesis
  proof (cases rule: and_thenE)
    case (fail e)
    then show ?thesis
      using t1 by (elim tx_commitE) (auto intro: append_effect.nothing quiet_trans)
  next
    case (ok u2 t2)
    from ok(1) show ?thesis
    proof (cases rule: tx_commitE)
      case (ok t)
      have "quiet s t" using quiet_trans[OF t1(1) ok(2)] .
      then have "mk_chunk sid ?n kind data t1 = mk_chunk sid ?n kind data t"
        using quiet_chunk[OF t1(1)] quiet_chunk[of s t] by simp
      then have "x = Inr (StoredInDb ?n)" "s' = update_transcript_bytes sid (se_transcript_bytes r + int (length data))
          (t\<lparr> st_chunks := st_chunks t @ [mk_chunk sid ?n kind data t] \<rparr>)"
        using \<open>(Inr (StoredInDb _), t2) = (x, s')\<close> ok(4) unfolding q(7) by auto
      moreover have "st_files t = st_files s" using ok(3) t1(2) by simp
      ultimately show ?thesis
        using append_effect.row[OF r \<open>quiet s t\<close> _ refl refl] by simp
    qed simp
  qed
qed

lemma commit_effect:
  assumes "and_then (tx_commit f t1) (\<lambda>_ s. (Inr out, s)) = (x, s')"
  obtains (fail) e where "x = Inl e" "quiet t1 s'" "st_files s' = st_files t1"
    | (ok) t where "x = Inr out" "quiet t1 t" "st_files t = st_files t1" "s' = f t"
  using assms
proof (cases rule: and_thenE)
  case (ok a s1)
  from ok(1) show ?thesis by (cases rule: tx_commitE) (use ok(2) that in auto)
qed (elim tx_commitE; use that(1) in simp)

lemma append_to_spill_effect:
  assumes "append_to_spill path sid (se_transcript_bytes r + int (length data)) kind data t0 = (x, s')"
    and t0: "quiet s t0" "st_files t0 = st_files s"
    and r: "map_of (st_sessions s) sid = Some r" "se_transcript_path r = Some path"
  shows "append_effect sid kind data s x s'"
proof (cases "read_spill_lines path t0")
  case (Inl e)
  then show ?thesis using assms by (auto simp: append_to_spill_def intro: append_effect.nothing)
next
  case (Inr cs)
  have cs: "read_spill_lines path s = Inr cs" using Inr t0(2) by (simp add: read_spill_lines_def)
  let ?n = "next_chunk_seq cs"
  from assms(1) have a: "and_then (tx_stmt t0) (\<lambda>_ s.
       and_then (append_spill_line path (mk_chunk sid ?n kind data s) s) (\<lambda>_ s.
       and_then (tx_commit (update_transcript_bytes sid (se_transcript_bytes r + int (length data))) s) (\<lambda>_ s.
         (Inr (SpilledToFile ?n path), s)))) = (x, s')"
    by (simp add: append_to_spill_def Inr Let_def)
  then show ?thesis
  proof (cases rule: and_thenE)
    case (fail e)
    then show ?thesis using tx_stmtE[OF fail(1)] quiet_trans[OF t0(1) quietI(2)] t0(2)
      by (simp add: append_effect.nothing)
  next
    case (ok u t1)
    have t1: "quiet s t1" "st_files t1 = st_files s"
      using tx_stmtE[OF ok(1)] quiet_trans[OF t0(1) quietI(2)] t0(2) by simp_all
    let ?c = "mk_chunk sid ?n kind data s"
    have w: "append_spill_line path (mk_chunk sid ?n kind data t1) t1 = spill_write path (old_pieces path s) [?c] t1"
      by (simp add: append_spill_line_def old_pieces_def t1(2) quiet_chunk[OF t1(1)])
    from ok(2)[unfolded w] show ?thesis
    proof (cases rule: and_thenE)
      case (fail e)
      from fail(1) show ?thesis
        by (cases rule: spill_write_cases)
           (use fail(2) t1 quiet_trans[OF t1(1)] append_effect.nothing append_effect.wrote_line[OF r _ cs] in auto)
    next
      case (ok u t2)
      from ok(1) have t2: "quiet s t2" "st_files t2 = (st_files s)(path := Some (old_pieces path s @ [Text ?c, Newline]))"
        using quiet_trans[OF t1(1)] t1(2) by (auto elim!: spill_write_cases)
      from ok(2) show ?thesis
      proof (cases rule: commit_effect)
        case (fail e)
        then show ?thesis using append_effect.wrote_line[OF r _ cs, of s'] t2 quiet_trans[OF t2(1)] by simp
      next
        case (ok t)
        then show ?thesis using append_effect.line[OF r _ cs refl, of t] t2 quiet_trans[OF t2(1)] by simp
      qed
    qed
  qed
qed

lemma spill_now_effect:
  assumes "spill_now sid (se_transcript_bytes r + int (length data)) kind data t0 = (x, s')"
    and t0: "quiet s t0" "st_files t0 = st_files s"
    and r: "map_of (st_sessions s) sid = Some r" "se_transcript_path r = None"
  shows "append_effect sid kind data s x s'"
proof -
  let ?p = "spill_path sid s" and ?n = "next_chunk_seq (db_chunks sid s)"
  let ?c = "mk_chunk sid ?n kind data s"
  let ?f = "\<lambda>s. snd (update_sessions sid (\<lambda>x. x\<lparr> se_transcript_path := Some ?p,
      se_transcript_bytes := se_transcript_bytes r + int (length data) \<rparr>)
      (s\<lparr> st_chunks := filter (\<lambda>c. ch_session_id c \<noteq> sid) (st_chunks s) \<rparr>))"
  have none: "quiet s (adv_store u)" "st_files (adv_store u) = st_files s" if "quiet s u" "st_files u = st_files s" for u
    using that quiet_trans[OF that(1) quietI(2)] by simp_all
  from assms(1)[unfolded spill_now_def Let_def quiet_fields(8)[OF t0(1)]] show ?thesis
  proof (cases rule: and_thenE)
    case (fail e)
    then show ?thesis using tx_stmtE[OF fail(1)] none[OF t0] by (simp add: append_effect.nothing)
  next
    case (ok u t1)
    have t1: "quiet s t1" "st_files t1 = st_files s" using tx_stmtE[OF ok(1)] none[OF t0] by simp_all
    note c1 = quiet_fields(7)[OF t1(1)]
    from ok(2)[unfolded c1] show ?thesis
    proof (cases rule: and_thenE)
      case (fail e)
      then show ?thesis using tx_stmtE[OF fail(1)] none[OF t1] by (simp add: append_effect.nothing)
    next
      case (ok u t2)
      have t2: "quiet s t2" "st_files t2 = st_files s" using tx_stmtE[OF ok(1)] none[OF t1] by simp_all
      from ok(2)[unfolded write_spill_file_def quiet_chunk[OF t2(1)]] show ?thesis
      proof (cases rule: and_thenE)
        case (fail e)
        from fail(1) show ?thesis
          by (cases rule: spill_write_cases)
             (use fail(2) t2 quiet_trans[OF t2(1)] append_effect.nothing append_effect.wrote_spill[OF r] in auto)
      next
        case (ok u t3)
        from ok(1) have t3: "quiet s t3"
          "st_files t3 = (st_files s)(?p := Some (concat (map (\<lambda>c. [Text c, Newline]) (db_chunks sid s @ [?c]))))"
          using quiet_trans[OF t2(1)] t2(2) by (auto elim!: spill_write_cases)
        from ok(2) show ?thesis
        proof (cases rule: and_thenE)
          case (fail e)
          then show ?thesis
            using tx_stmtE[OF fail(1)] quiet_trans[OF t3(1) quietI(2)] t3(2) append_effect.wrote_spill[OF r, of s'] by simp
        next
          case (ok u t4)
          have t4: "quiet s t4" "st_files t4 = st_files t3"
            using tx_stmtE[OF ok(1)] quiet_trans[OF t3(1) quietI(2)] by simp_all
          from ok(2) show ?thesis
          proof (cases rule: commit_effect)
            case (fail e)
            then show ?thesis using append_effect.wrote_spill[OF r, of s'] t3 t4 quiet_trans[OF t4(1)] by simp
          next
            case (ok t)
            then show ?thesis
              using append_effect.spilled[OF r, of t] t3 t4 quiet_trans[OF t4(1)] by simp
          qed
        qed
      qed
    qed
  qed
qed

lemma chunk_append_effect:
  assumes "chunk_append sid kind data s = (x, s')"
  shows "append_effect sid kind data s x s'"
  using assms unfolding chunk_append_def
proof (cases rule: and_thenE)
  case (fail e)
  then show ?thesis using tx_stmtE[OF fail(1)] quietI(2)[of s] by (simp add: append_effect.nothing)
next
  case (ok u t1)
  have t1: "t1 = adv_store s" by (rule tx_stmtE[OF ok(1)])
  have q: "quiet s t2" "st_files t2 = st_files s" if "t2 = adv_store t1" for t2
    using that t1 quiet_trans[OF quietI(2) quietI(2)] by simp_all
  from ok(2) show ?thesis
  proof (cases rule: and_thenE)
    case (fail e)
    then have "s' = adv_store t1" unfolding session_get_def by (auto elim!: sqlE)
    then show ?thesis using fail q by (simp add: append_effect.nothing)
  next
    case (ok r t2)
    then have t2: "t2 = adv_store t1" and r: "r = map_of (st_sessions s) sid"
      unfolding session_get_def by (auto elim!: sqlE simp: t1)
    note q2 = q[OF t2]
    show ?thesis
    proof (cases r)
      case None
      then show ?thesis using ok(2) q2 by (auto intro: append_effect.nothing)
    next
      case (Some row)
      then have m: "map_of (st_sessions s) sid = Some row" using r by simp
      show ?thesis
      proof (cases "se_transcript_path row")
        case None
        then show ?thesis
          using ok(2) Some append_row_effect[OF _ q2 m None] spill_now_effect[OF _ q2 m None]
          by (auto simp: Let_def split: if_splits)
      next
        case p: (Some path)
        then show ?thesis using ok(2) Some append_to_spill_effect[OF _ q2 m p] by (simp add: Let_def)
      qed
    qed
  qed
qed

section \<open>Every step keeps the constraints\<close>

lemma quiet_db_ok: "quiet s t \<Longrightarrow> db_ok (st_db s) \<Longrightarrow> db_ok (st_db t)"
  using env_ok[where db = "st_db s" and t = "db_now (st_db s)"] by (auto simp: quiet_def)

lemma session_refs_cong:
  "st_projects t = st_projects s \<Longrightarrow> st_backends t = st_backends s \<Longrightarrow> session_refs t r = session_refs s r"
  by (simp add: session_refs_def)

lemma sessions_ok_cong:
  assumes "st_sessions t = st_sessions s" "st_projects t = st_projects s" "st_backends t = st_backends s"
    "st_data_dir t = st_data_dir s"
  shows "sessions_ok t = sessions_ok s"
  using assms session_refs_cong[of t s] spill_path_cong[of t s] by (simp add: sessions_ok_def)

lemma quiet_store_ok:
  assumes "quiet s t" "store_ok s"
  shows "store_ok t"
proof -
  note q = quiet_fields[OF assms(1)]
  have "sync t = t"
    using assms store_okD(4)[OF assms(2)] by (auto simp: sync_iff quiet_def)
  then show ?thesis
    using assms(2) sessions_ok_cong[OF q(1,5,6,3)] quiet_db_ok[OF assms(1)]
    by (simp add: store_ok_def q)
qed

lemma adv_store_ok: "store_ok s \<Longrightarrow> store_ok (adv_store s)"
  by (rule quiet_store_ok[OF quietI(2)])

interpretation ok_store: store_evolution "\<lambda>s s'. store_ok s \<longrightarrow> store_ok s'"
  by unfold_locales (auto intro: adv_store_ok)

lemma sql_ok:
  assumes "sql f s = (r, s')" "store_ok s" "\<And>t a t'. store_ok t \<Longrightarrow> f t = Inr (a, t') \<Longrightarrow> store_ok t'"
  shows "store_ok s'"
  using ok_store.sql[OF assms(1)] assms(2,3) by blast

lemma and_then_ok:
  assumes "and_then p k = (r, s')" "\<And>a t. p = (a, t) \<Longrightarrow> store_ok t"
    and "\<And>a t. p = (Inr a, t) \<Longrightarrow> k a t = (r, s') \<Longrightarrow> store_ok t \<Longrightarrow> store_ok s'"
  shows "store_ok s'"
  using assms(1) by (cases rule: and_thenE) (auto intro: assms(2,3))

lemma sql_read_ok: "sql (\<lambda>s. Inr (g s, s)) s = (r, s') \<Longrightarrow> store_ok s \<Longrightarrow> store_ok s'"
  using ok_store.read by blast

lemma update_sessions_ok:
  assumes ok: "store_ok s"
    and f: "\<And>r. map_of (st_sessions s) k = Some r \<Longrightarrow> se_id (f r) = se_id r \<and> se_project_id (f r) = se_project_id r
      \<and> se_backend_id (f r) = se_backend_id r \<and> se_external_id (f r) = se_external_id r
      \<and> se_transcript_path (f r) \<in> {se_transcript_path r, Some (spill_path k s)}
      \<and> (se_hook_status (f r) = se_hook_status r \<or> se_hook_status (f r) \<in> Some ` set hook_statuses)"
  shows "store_ok (snd (update_sessions k f s))"
proof -
  let ?s = "snd (update_sessions k f s)"
  note so = store_okD(3)[OF ok]
  have p: "spill_path j ?s = spill_path j s" for j by (simp add: spill_path_def)
  have refs: "session_refs ?s r = session_refs s r" for r by (simp add: session_refs_def)
  have stays: "\<exists>x. map_of (st_sessions s) j = Some x \<and> se_id r = se_id x \<and> session_refs ?s r
      \<and> se_backend_id r = se_backend_id x \<and> se_external_id r = se_external_id x
      \<and> (\<forall>q. se_transcript_path r = Some q \<longrightarrow> q = spill_path j s)"
    if "map_of (st_sessions ?s) j = Some r" for j r
  proof -
    from that obtain x where x: "map_of (st_sessions s) j = Some x"
      "r = (if j = k then (f x)\<lparr> se_updated_at := store_now s \<rparr> else x)"
      by (auto split: if_splits)
    then show ?thesis
      using f[of x] sessions_okD[OF so x(1)] by (cases "j = k") (auto simp: refs session_refs_def)
  qed
  have "sessions_ok ?s"
    unfolding sessions_ok_def
  proof (intro conjI allI impI)
    show "keyed (st_sessions ?s)" using so by (simp add: keyed_def sessions_ok_def)
    fix k1 r assume "map_of (st_sessions ?s) k1 = Some r"
    from stays[OF this] show "se_id r = k1" "session_refs ?s r" "\<And>q. se_transcript_path r = Some q \<Longrightarrow> q = spill_path k1 ?s"
      using sessions_okD(1)[OF so] p by auto
  next
    fix j k1 a b
    assume "map_of (st_sessions ?s) j = Some a" "map_of (st_sessions ?s) k1 = Some b" and e: "same_external a b"
    then obtain x y where "map_of (st_sessions s) j = Some x" "map_of (st_sessions s) k1 = Some y" "same_external x y"
      using stays[of j a] stays[of k1 b] unfolding same_external_def by fastforce
    then show "j = k1" using sessions_okD(4)[OF so] by blast
  qed
  moreover have "sync ?s = ?s" using store_okD(4)[OF ok] by (simp add: sync_iff)
  ultimately show ?thesis using ok by (simp add: store_ok_def)
qed

lemma session_update_ok:
  assumes "session_update k f s = (r, s')" "store_ok s"
    and "\<And>t x. se_id (f t x) = se_id x \<and> se_project_id (f t x) = se_project_id x
      \<and> se_backend_id (f t x) = se_backend_id x \<and> se_external_id (f t x) = se_external_id x
      \<and> se_transcript_path (f t x) = se_transcript_path x \<and> se_hook_status (f t x) = se_hook_status x"
  shows "store_ok s'"
  using assms(1,2) unfolding session_update_def
proof (rule sql_ok)
  fix t a t'
  assume "store_ok t" "(let (n, s1) = update_sessions k (f t) t in Inr (0 < n, s1)) = Inr (a, t')"
  then show "store_ok t'"
    using update_sessions_ok[of t k "f t"] assms(3) by (auto simp: split_beta Let_def)
qed

lemma append_ok:
  assumes "chunk_append sid kind data s = (x, s')" "store_ok s"
  shows "store_ok s'"
proof -
  have grown: "store_ok (t\<lparr> st_chunks := cs \<rparr>)"
    if "store_ok t" "\<forall>c\<in>set cs. ch_session_id c \<in> set (map fst (st_sessions t))" for t cs
  proof -
    have "sessions_ok (t\<lparr> st_chunks := cs \<rparr>) = sessions_ok t" by (rule sessions_ok_cong) simp_all
    moreover have "sync (t\<lparr> st_chunks := cs \<rparr>) = t\<lparr> st_chunks := cs \<rparr>" using store_okD(4)[OF that(1)] by (simp add: sync_iff)
    ultimately show ?thesis using that by (simp add: store_ok_def)
  qed
  from chunk_append_effect[OF assms(1)] show ?thesis
  proof (cases rule: append_effect.cases)
    case (row r t n)
    have t: "store_ok t" by (rule quiet_store_ok[OF row(4) assms(2)])
    have k: "sid \<in> set (map fst (st_sessions t))"
      using row(2) quiet_fields(1)[OF row(4)] by (auto dest!: map_of_SomeD intro: rev_image_eqI)
    have "store_ok (t\<lparr> st_chunks := st_chunks t @ [mk_chunk sid n kind data t] \<rparr>)"
      by (rule grown[OF t]) (use k store_okD(6)[OF t] in \<open>auto simp: mk_chunk_def\<close>)
    then show ?thesis unfolding row(7) update_transcript_bytes_def by (rule update_sessions_ok) simp
  next
    case (spilled r t path n)
    have t: "store_ok t" by (rule quiet_store_ok[OF spilled(4) assms(2)])
    have "store_ok (t\<lparr> st_chunks := filter (\<lambda>c. ch_session_id c \<noteq> sid) (st_chunks t) \<rparr>)"
      by (rule grown[OF t]) (use store_okD(6)[OF t] in auto)
    then show ?thesis unfolding spilled(8)
      by (rule update_sessions_ok) (use spilled(5) quiet_fields(8)[OF spilled(4)] in \<open>simp add: spill_path_def\<close>)
  next
    case (line r path t cs n)
    have t: "store_ok t" by (rule quiet_store_ok[OF line(4) assms(2)])
    then show ?thesis unfolding line(8) update_transcript_bytes_def by (rule update_sessions_ok) simp
  qed (auto intro: quiet_store_ok assms)
qed

lemma session_created_ok:
  assumes "session_create n s = (x, s')" "store_ok s"
  shows "store_ok s'"
  using assms(1) unfolding session_create_def session_get_def
proof (rule and_then_ok)
  fix a t
  assume "sql (\<lambda>s. let r = session_row (store_now s) n in
         if ns_id n \<in> set (map fst (st_sessions s)) \<or> \<not> session_refs s r
            \<or> (\<exists>x\<in>set (map snd (st_sessions s)). same_external r x) then Inl CONSTRAINT
         else Inr ((), sync (s\<lparr> st_sessions := st_sessions s @ [(ns_id n, r)] \<rparr>))) s = (a, t)"
  then show "store_ok t"
  proof (rule sql_ok[OF _ assms(2)])
    fix t a t'
    let ?r = "session_row (store_now t) n"
    let ?s = "t\<lparr> st_sessions := st_sessions t @ [(ns_id n, ?r)] \<rparr>"
    assume ok: "store_ok t" and "(let r = session_row (store_now t) n in
         if ns_id n \<in> set (map fst (st_sessions t)) \<or> \<not> session_refs t r
            \<or> (\<exists>x\<in>set (map snd (st_sessions t)). same_external r x) then Inl CONSTRAINT
         else Inr ((), sync (t\<lparr> st_sessions := st_sessions t @ [(ns_id n, r)] \<rparr>))) = Inr (a, t')"
    then have new: "ns_id n \<notin> set (map fst (st_sessions t))" "session_refs t ?r"
      and ext: "\<And>x. x \<in> set (map snd (st_sessions t)) \<Longrightarrow> \<not> same_external ?r x" and t': "t' = sync ?s"
      by (auto simp: Let_def split: if_splits)
    note so = store_okD(3)[OF ok]
    have m: "map_of (st_sessions ?s) k = (if k = ns_id n then Some ?r else map_of (st_sessions t) k)" for k
      using map_of_eq_None_iff[of "st_sessions t" "ns_id n"] new(1)
      by (cases "map_of (st_sessions t) k") (auto simp: map_add_def)
    have old: "\<not> same_external ?r x" "\<not> same_external x ?r" if "map_of (st_sessions t) k = Some x" for k x
    proof -
      have "x \<in> set (map snd (st_sessions t))" using map_of_SomeD[OF that] by force
      then show "\<not> same_external ?r x" "\<not> same_external x ?r" using ext[of x] by (auto simp: same_external_def)
    qed
    have rr: "se_id ?r = ns_id n" "se_transcript_path ?r = None" by (simp_all add: session_row_def)
    have refs: "session_refs ?s x = session_refs t x" for x by (rule session_refs_cong) simp_all
    have "sessions_ok ?s"
      unfolding sessions_ok_def m
    proof (intro conjI allI impI)
      show "keyed (st_sessions ?s)" using so new(1) by (auto simp: keyed_def sessions_ok_def)
    qed (use so old new(2) rr refs in \<open>auto simp: sessions_ok_def spill_path_def split: if_splits\<close>)
    then have "sessions_ok (sync ?s)" by (subst sessions_ok_cong[of "sync ?s" ?s]) simp_all
    moreover have "db_ok (st_db (sync ?s))"
      by (rule sync_db_ok[OF store_okD(5)[OF ok]])
         (use store_okD(7,8,9)[OF ok] in \<open>auto simp: cron_checks_def\<close>)
    ultimately show "store_ok t'" using ok store_okD(6)[OF ok] unfolding t' by (auto simp: store_ok_def)
  qed
next
  fix a t
  assume "and_then (sql (\<lambda>s. Inr (map_of (st_sessions s) (ns_id n), s)) t)
     (\<lambda>r s. (case r of None \<Rightarrow> Inl (MissingSession (ns_id n)) | Some row \<Rightarrow> Inr row, s)) = (x, s')" "store_ok t"
  then show "store_ok s'" by (auto elim!: and_then_ok dest: sql_read_ok)
qed

lemma forget_session_id [simp]: "rr_id (forget_session k r) = rr_id r"
  by (simp add: forget_session_def)

lemma delete_session_ok:
  assumes "session_delete k s = (x, s')" "store_ok s"
  shows "store_ok s'"
  using assms unfolding session_delete_def
proof (rule sql_ok)
  fix t t' :: Store and a
  let ?t1 = "t\<lparr> st_sessions := AList.delete k (st_sessions t),
      st_chunks := filter (\<lambda>c. ch_session_id c \<noteq> k) (st_chunks t),
      st_db := (st_db t)\<lparr> db_runs := map (\<lambda>(i, r). (i, forget_session k r)) (db_runs (st_db t)) \<rparr> \<rparr>"
  assume ok: "store_ok t" and e: "(if k \<notin> set (map fst (st_sessions t)) then Inr (False, t)
     else Inr (True, sync ?t1)) = Inr (a, t')"
  show "store_ok t'"
  proof (cases "k \<in> set (map fst (st_sessions t))")
    case False
    then show ?thesis using ok e by simp
  next
    case True
    then have t': "t' = sync ?t1" using e by simp
    note so = store_okD(3)[OF ok] and db = store_okD(5)[OF ok]
    have m: "map_of (st_sessions ?t1) j = (if j = k then None else map_of (st_sessions t) j)" for j
      by (simp add: delete_conv')
    have keys: "set (map fst (st_sessions ?t1)) = set (map fst (st_sessions t)) - {k}"
      using delete_keys[of k "st_sessions t"] by auto
    have "sessions_ok ?t1"
      unfolding sessions_ok_def m
      using so distinct_delete[of "st_sessions t" k]
      by (auto simp: sessions_ok_def keyed_def session_refs_def spill_path_def split: if_splits)
    then have s1: "sessions_ok (sync ?t1)" by (subst sessions_ok_cong[of "sync ?t1" ?t1]) simp_all
    let ?d = "(st_db t)\<lparr> db_runs := map (\<lambda>(i, r). (i, forget_session k r)) (db_runs (st_db t)) \<rparr>"
    have rm: "map_of (db_runs (st_db (sync ?t1))) j = map_option (forget_session k) (map_of (db_runs (st_db t)) j)" for j
      by (simp add: map_of_map)
    have fin: "finished_count (st_db (sync ?t1)) = finished_count (st_db t)"
    proof -
      have "length (filter (\<lambda>(_, r). rr_finished_at r \<noteq> None) (map (\<lambda>(i, r). (i, forget_session k r)) xs))
          = length (filter (\<lambda>(_, r). rr_finished_at r \<noteq> None) xs)" for xs
        by (induction xs) (simp_all add: split_beta forget_session_def del: not_None_eq)
      then show ?thesis by (simp add: finished_count_def)
    qed
    have cc: "cron_checks (st_db (sync ?t1)) c = cron_checks (st_db t) c" for c
      using store_okD(8,9)[OF ok] by (simp add: cron_checks_def)
    have rc: "run_checks (st_db t) r \<Longrightarrow> run_checks (st_db (sync ?t1)) (forget_session k r)" for r
      using store_okD(7)[OF ok] keys by (auto simp: run_checks_def forget_session_def split: option.splits)
    have core: "db_core (st_db (sync ?t1))"
      using db cc rc unfolding db_ok_def db_core_def rm
      by (auto simp: crons_wf_def runs_wf_def split_beta comp_def simp del: map_of_eq_Some_iff)
    have "length (db_metrics (st_db (sync ?t1))) = finished_count (st_db (sync ?t1))"
      unfolding fin using db by (simp add: db_ok_def)
    then have "db_ok (st_db (sync ?t1))" using core by (simp add: db_ok_def)
    moreover have "\<forall>c\<in>set (st_chunks (sync ?t1)). ch_session_id c \<in> set (map fst (st_sessions (sync ?t1)))"
      using store_okD(6)[OF ok] keys by auto
    ultimately show ?thesis using ok s1 unfolding t' by (simp add: store_ok_def)
  qed
qed

lemma backend_upsert_ok:
  assumes "backend_upsert b s = (x, s')" "store_ok s"
  shows "store_ok s'"
  using assms unfolding backend_upsert_def
proof (rule sql_ok)
  fix t t' :: Store and a
  let ?row = "\<lparr> be_id = bu_id b, be_display_name = bu_display_name b, be_version = bu_version b,
         be_available = (if bu_available b then 1 else 0), be_last_probed_at = store_now t \<rparr>"
  let ?t1 = "t\<lparr> st_backends := AList.update (bu_id b) ?row (st_backends t) \<rparr>"
  assume ok: "store_ok t" and "Inr ((), sync ?t1) = Inr (a, t')"
  then have t': "t' = sync ?t1" by simp
  have keys: "set (map fst (st_backends ?t1)) = insert (bu_id b) (set (map fst (st_backends t)))"
    by (simp add: dom_update[unfolded dom_map_of_conv_image_fst] image_comp)
  note so = store_okD(3)[OF ok]
  have "session_refs t r \<Longrightarrow> session_refs ?t1 r" for r using keys by (auto simp: session_refs_def)
  then have "sessions_ok ?t1" using so by (auto simp: sessions_ok_def spill_path_def)
  then have "sessions_ok (sync ?t1)" by (subst sessions_ok_cong[of "sync ?t1" ?t1]) simp_all
  moreover have "db_ok (st_db (sync ?t1))"
    by (rule sync_db_ok[OF store_okD(5)[OF ok]])
       (use store_okD(7,8,9)[OF ok] keys in \<open>auto simp: cron_checks_def\<close>)
  moreover have "keyed (st_backends ?t1)" using store_okD(1)[OF ok] by (simp add: keyed_def distinct_update)
  ultimately show "store_ok t'" using ok store_okD(6)[OF ok] unfolding t' by (simp add: store_ok_def)
qed

lemma project_change_ok:
  assumes ok: "store_ok t" and k: "keyed ps"
    and s: "\<And>r. r \<in> set (map snd (st_sessions t)) \<Longrightarrow> se_project_id r \<in> set (map fst (st_projects t)) \<Longrightarrow> se_project_id r \<in> set (map fst ps)"
    and c: "\<And>c. c \<in> set (map snd (db_crons (st_db t))) \<Longrightarrow> cr_project_id c \<in> fst ` set (st_projects t) \<Longrightarrow> cr_project_id c \<in> fst ` set ps"
  shows "store_ok (sync (t\<lparr> st_projects := ps \<rparr>))"
proof -
  let ?t1 = "t\<lparr> st_projects := ps \<rparr>"
  note so = store_okD(3)[OF ok]
  have "sessions_ok ?t1"
    unfolding sessions_ok_def
  proof (intro conjI allI impI)
    show "keyed (st_sessions ?t1)" using so by (simp add: sessions_ok_def)
    fix j r assume m: "map_of (st_sessions ?t1) j = Some r"
    then have m': "map_of (st_sessions t) j = Some r" by simp
    have "r \<in> set (map snd (st_sessions t))" using map_of_SomeD[OF m'] by force
    then show "session_refs ?t1 r" "se_id r = j" "\<And>p. se_transcript_path r = Some p \<Longrightarrow> p = spill_path j ?t1"
      using s[of r] sessions_okD(1-3)[OF so m'] by (auto simp: session_refs_def spill_path_def)
  qed (use so in \<open>auto simp: sessions_ok_def\<close>)
  then have "sessions_ok (sync ?t1)" by (subst sessions_ok_cong[of "sync ?t1" ?t1]) simp_all
  moreover have "db_ok (st_db (sync ?t1))"
  proof (rule sync_db_ok[OF store_okD(5)[OF ok]])
    fix i x assume "map_of (db_crons (st_db t)) i = Some x" "cron_checks (st_db t) x"
    moreover from this have "x \<in> set (map snd (db_crons (st_db t)))" by (auto dest!: map_of_SomeD intro: rev_image_eqI)
    ultimately show "cr_project_id x \<in> fst ` set (st_projects ?t1) \<and> cr_backend_id x \<in> set (map fst (st_backends ?t1))"
      using c[of x] store_okD(8,9)[OF ok] by (auto simp: cron_checks_def)
  qed (use store_okD(7)[OF ok] in auto)
  ultimately show ?thesis using ok k store_okD(6)[OF ok] by (simp add: store_ok_def)
qed

lemma project_create_ok:
  assumes "project_create n s = (x, s')" "store_ok s"
  shows "store_ok s'"
  using assms(1) unfolding project_create_def project_get_def
proof (rule and_then_ok)
  fix a t
  assume "sql (\<lambda>s. if np_id n \<in> set (map fst (st_projects s))
            \<or> np_root_path n \<in> set (map (pj_root_path \<circ> snd) (st_projects s)) then Inl CONSTRAINT
         else Inr ((), sync (s\<lparr> st_projects := st_projects s @
           [(np_id n, \<lparr> pj_id = np_id n, pj_root_path = np_root_path n, pj_display_name = np_display_name n,
              pj_vcs = np_vcs n, pj_created_at = store_now s \<rparr>)] \<rparr>))) s = (a, t)"
  then show "store_ok t"
    by (rule sql_ok[OF _ assms(2)])
       (auto split: if_splits intro!: project_change_ok dest: store_okD(2) simp: keyed_def)
next
  fix a t
  assume "and_then (sql (\<lambda>s. Inr (map_of (st_projects s) (np_id n), s)) t)
     (\<lambda>r s. (case r of None \<Rightarrow> Inl (MissingProject (np_id n)) | Some p \<Rightarrow> Inr p, s)) = (x, s')" "store_ok t"
  then show "store_ok s'" by (auto elim!: and_then_ok dest: sql_read_ok)
qed

lemma project_delete_ok:
  assumes "project_delete k s = (x, s')" "store_ok s"
  shows "store_ok s'"
  using assms unfolding project_delete_def
proof (rule sql_ok)
  fix t t' :: Store and a
  assume ok: "store_ok t" and e: "(if map_of (st_projects t) k = None then Inr (False, t)
     else if (\<exists>r\<in>set (map snd (st_sessions t)). se_project_id r = k)
           \<or> (\<exists>c\<in>set (map snd (db_crons (st_db t))). cr_project_id c = k) then Inl CONSTRAINT
     else Inr (True, sync (t\<lparr> st_projects := AList.delete k (st_projects t) \<rparr>))) = Inr (a, t')"
  have "keyed (AList.delete k (st_projects t))"
    using store_okD(2)[OF ok] by (simp add: keyed_def distinct_delete)
  moreover have "fst ` set (AList.delete k (st_projects t)) = fst ` set (st_projects t) - {k}"
    using delete_keys[of k "st_projects t"] by (metis set_map set_removeAll)
  moreover have "set (map fst (AList.delete k (st_projects t))) = set (map fst (st_projects t)) - {k}"
    using delete_keys[of k "st_projects t"] by (metis set_removeAll)
  ultimately have d: "(\<forall>r\<in>set (map snd (st_sessions t)). se_project_id r \<noteq> k)
      \<Longrightarrow> (\<forall>c\<in>set (map snd (db_crons (st_db t))). cr_project_id c \<noteq> k)
      \<Longrightarrow> store_ok (sync (t\<lparr> st_projects := AList.delete k (st_projects t) \<rparr>))"
    using project_change_ok[OF ok, of "AList.delete k (st_projects t)"] by blast
  show "store_ok t'"
    using e ok d by (auto split: if_splits)
qed

lemma project_rename_ok:
  assumes "project_update_display_name k name s = (x, s')" "store_ok s"
  shows "store_ok s'"
  using assms unfolding project_update_display_name_def
proof (rule sql_ok)
  fix t t' :: Store and a
  let ?ps = "snd (sql_update k (\<lambda>_. True) (\<lambda>r. r\<lparr> pj_display_name := name \<rparr>) (st_projects t))"
  assume ok: "store_ok t" and "(let (n, rows) = sql_update k (\<lambda>_. True) (\<lambda>r. r\<lparr> pj_display_name := name \<rparr>) (st_projects t)
     in Inr (0 < n, t\<lparr> st_projects := rows \<rparr>)) = Inr (a, t')"
  then have t': "t' = t\<lparr> st_projects := ?ps \<rparr>" by (simp add: split_beta Let_def)
  have ks: "map fst ?ps = map fst (st_projects t)" by (rule sql_update_keys)
  then have f: "fst ` set ?ps = fst ` set (st_projects t)" by (metis set_map)
  have "map (\<lambda>(i, p). (i, pj_root_path p)) ?ps = map (\<lambda>(i, p). (i, pj_root_path p)) (st_projects t)"
    by (auto simp: sql_update_def)
  then have "sync (t\<lparr> st_projects := ?ps \<rparr>) = t\<lparr> st_projects := ?ps \<rparr>" using store_okD(4)[OF ok] by (simp add: sync_iff)
  moreover have "store_ok (sync (t\<lparr> st_projects := ?ps \<rparr>))"
    by (rule project_change_ok[OF ok]) (use ks f store_okD(2)[OF ok] in \<open>simp_all add: keyed_def\<close>)
  ultimately show "store_ok t'" unfolding t' by simp
qed

lemma hook_status_ok:
  assumes "session_set_hook_status k h s = (x, s')" "store_ok s"
  shows "store_ok s'"
  using assms unfolding session_set_hook_status_def
proof (rule sql_ok)
  fix t t' :: Store and a
  assume ok: "store_ok t" and e: "(if k \<in> set (map fst (st_sessions t)) \<and> h \<notin> set hook_statuses then Inl CONSTRAINT
     else let (n, s1) = update_sessions k (\<lambda>r. r\<lparr> se_hook_status := Some h \<rparr>) t in Inr (0 < n, s1)) = Inr (a, t')"
  then have t': "t' = snd (update_sessions k (\<lambda>r. r\<lparr> se_hook_status := Some h \<rparr>) t)"
    and h: "k \<in> set (map fst (st_sessions t)) \<Longrightarrow> h \<in> set hook_statuses"
    by (auto simp: split_beta Let_def split: if_splits)
  show "store_ok t'" unfolding t'
    by (rule update_sessions_ok[OF ok]) (use h in \<open>force dest: map_of_SomeD\<close>)
qed

lemma settings_ok: "store_ok (t\<lparr> st_settings := v \<rparr>) = store_ok t"
proof -
  have "sessions_ok (t\<lparr> st_settings := v \<rparr>) = sessions_ok t" by (rule sessions_ok_cong) simp_all
  then show ?thesis by (simp add: store_ok_def sync_iff)
qed

lemma list_ok:
  assumes "chunk_list sid s = (x, s')" "store_ok s"
  shows "store_ok s'"
  using assms(1) unfolding chunk_list_def
proof (rule and_then_ok)
  fix a t assume "list_spilled sid s = (a, t)"
  then show "store_ok t" unfolding list_spilled_def session_get_def
    by (rule and_then_ok) (auto intro: sql_read_ok assms(2) split: option.splits)
qed (auto simp: list_rows_def dest: sql_read_ok)

lemma env_store_ok:
  "store_ok (s\<lparr> st_db := (st_db s)\<lparr> db_now := t, db_io := io \<rparr>, st_writes := ws \<rparr>) = store_ok s"
  (is "store_ok ?u = _")
proof -
  have "sessions_ok ?u = sessions_ok s" by (rule sessions_ok_cong) simp_all
  then show ?thesis by (simp add: store_ok_def sync_iff env_ok)
qed

lemma store_step_ok:
  assumes "store_step s s'" "store_ok s"
  shows "store_ok s'"
  using assms
proof (induction rule: store_step.induct)
  case env
  then show ?case by (simp add: env_store_ok)
next
  case (crons_and_runs s db)
  have "sessions_ok (s\<lparr> st_db := db \<rparr>) = sessions_ok s" by (rule sessions_ok_cong) simp_all
  then show ?case
    using crons_and_runs db_step_ok[OF crons_and_runs(1)] db_step_keys[OF crons_and_runs(1)]
    by (auto simp: store_ok_def sync_iff db_keys_def)
next
  case (setting_set k v s r s')
  then show ?case unfolding setting_set_def by (elim sql_ok) (auto simp: settings_ok)
next
  case (setting_delete k s r s')
  then show ?case unfolding setting_delete_def by (elim sql_ok) (auto simp: settings_ok)
qed (auto intro: sql_read_ok backend_upsert_ok project_create_ok project_rename_ok project_delete_ok session_created_ok
    hook_status_ok delete_session_ok append_ok list_ok session_update_ok
    simp: tx_stmt_def session_update_state_def session_update_pid_def session_clear_worktree_def session_archive_def)

end
