(* ===== verification/Transcript_History.thy ===== *)
theory Transcript_History
  imports Store_History
begin

text \<open>
  What the histories of \<open>Store_History\<close> do to the transcript of one session: a chunk that
  was acknowledged stays, and a file that cannot be read blocks its session.
\<close>

section \<open>The transcript of one session\<close>

text \<open>All that a step can change of the transcript of a session.\<close>

definition transcript_of :: "str \<Rightarrow> Store \<Rightarrow> str option option \<times> SessionChunk list \<times> Piece list option \<times> str" where
  "transcript_of sid s = (map_option se_transcript_path (map_of (st_sessions s) sid),
     filter (\<lambda>c. ch_session_id c = sid) (st_chunks s), st_files s (spill_path sid s), st_data_dir s)"

definition present :: "str \<Rightarrow> Store \<Rightarrow> bool" where
  "present sid s \<longleftrightarrow> map_of (st_sessions s) sid \<noteq> None"

lemma transcript_cong:
  assumes "map_of (st_sessions s') sid = map_of (st_sessions s) sid" "st_chunks s' = st_chunks s"
    "st_files s' = st_files s" "st_data_dir s' = st_data_dir s"
  shows "transcript_of sid s' = transcript_of sid s"
  using assms spill_path_cong[OF assms(4)] by (simp add: transcript_of_def)

lemma transcript_update:
  assumes "\<And>r. se_transcript_path (f r) = se_transcript_path r"
  shows "transcript_of sid (snd (update_sessions k f s)) = transcript_of sid s"
  using assms by (auto simp: transcript_of_def spill_path_def option.map_comp comp_def)

lemma transcript_sync [simp]: "transcript_of sid (sync s) = transcript_of sid s"
  by (rule transcript_cong) simp_all

lemma transcript_adv [simp]: "transcript_of sid (adv_store s) = transcript_of sid s"
  by (rule transcript_cong) simp_all

lemma sql_transcript:
  assumes "sql f s = (r, s')" "\<And>a t. f (adv_store s) = Inr (a, t) \<Longrightarrow> transcript_of sid t = transcript_of sid (adv_store s)"
  shows "transcript_of sid s' = transcript_of sid s"
  using assms(1) by (cases rule: sqlE) (auto dest: assms(2))

lemma read_transcript: "sql (\<lambda>s. Inr (g s, s)) s = (r, s') \<Longrightarrow> transcript_of sid s' = transcript_of sid s"
  by (erule sql_transcript) auto

lemma session_update_transcript:
  assumes "session_update k f s = (r, s')" "\<And>t x. se_transcript_path (f t x) = se_transcript_path x"
  shows "transcript_of sid s' = transcript_of sid s"
  using assms(1) unfolding session_update_def
  by (rule sql_transcript) (auto simp: Let_def split_beta transcript_update assms(2))

lemma and_then_transcript:
  assumes "and_then p k = (r, s')" "\<And>a t. p = (a, t) \<Longrightarrow> transcript_of sid t = transcript_of sid s"
    and "\<And>a t. p = (Inr a, t) \<Longrightarrow> k a t = (r, s') \<Longrightarrow> transcript_of sid s' = transcript_of sid t"
  shows "transcript_of sid s' = transcript_of sid s"
  using assms(1)
proof (cases rule: and_thenE)
  case (ok a t)
  then show ?thesis using assms(2)[OF ok(1)] assms(3)[OF ok] by simp
qed (auto simp: assms(2))

lemma append_other_transcript:
  assumes "append_effect k kind data s x s'" "sessions_ok s" "sid \<noteq> k"
  shows "transcript_of sid s' = transcript_of sid s"
  using assms(1)
proof (cases rule: append_effect.cases)
  case (row r t n)
  show ?thesis
    unfolding row(7) update_transcript_bytes_def using row(4,5) assms(3) quiet_fields[OF row(4)]
    by (subst transcript_update) (auto simp: transcript_of_def spill_path_def mk_chunk_def)
next
  case (spilled r t path n)
  have "filter (\<lambda>c. ch_session_id c = sid) (filter (\<lambda>c. ch_session_id c \<noteq> k) cs) = filter (\<lambda>c. ch_session_id c = sid) cs" for cs
    using assms(3) by (auto intro: filter_cong)
  then show ?thesis
    unfolding spilled(8) using spilled(5,7) assms(3) quiet_fields[OF spilled(4)]
    by (auto simp: transcript_of_def spill_path_def)
next
  case (line r path t cs n)
  have "path = spill_path k s" using sessions_okD(3)[OF assms(2) line(2)] line(3) by simp
  then show ?thesis
    unfolding line(8) update_transcript_bytes_def using line(7) assms(3) quiet_fields[OF line(4)]
    by (subst transcript_update) (auto simp: transcript_of_def spill_path_def)
next
  case (wrote_line r path cs ps e)
  have "path = spill_path k s" using sessions_okD(3)[OF assms(2) wrote_line(2)] wrote_line(3) by simp
  then show ?thesis using wrote_line assms(3) quiet_fields[OF wrote_line(4)] by (auto simp: transcript_of_def spill_path_def)
next
  case (wrote_spill r ps e)
  then show ?thesis using assms(3) quiet_fields[OF wrote_spill(4)] by (auto simp: transcript_of_def spill_path_def)
qed (auto simp: transcript_of_def spill_path_def quiet_fields)

text \<open>Only an append to the session itself, or its deletion, changes its transcript.\<close>

lemma create_transcript:
  assumes "session_create n s = (x, s')" "present sid s"
  shows "transcript_of sid s' = transcript_of sid s"
  using assms(1) unfolding session_create_def session_get_def
proof (rule and_then_transcript)
  fix a t assume "sql (\<lambda>s. let r = session_row (store_now s) n in
       if ns_id n \<in> set (map fst (st_sessions s)) \<or> \<not> session_refs s r
          \<or> (\<exists>x\<in>set (map snd (st_sessions s)). same_external r x) then Inl CONSTRAINT
       else Inr ((), sync (s\<lparr> st_sessions := st_sessions s @ [(ns_id n, r)] \<rparr>))) s = (a, t)"
  then show "transcript_of sid t = transcript_of sid s"
  proof (rule sql_transcript)
    fix b u
    let ?a = "adv_store s"
    let ?u = "?a\<lparr> st_sessions := st_sessions ?a @ [(ns_id n, session_row (store_now ?a) n)] \<rparr>"
    assume "(let r = session_row (store_now ?a) n in
       if ns_id n \<in> set (map fst (st_sessions ?a)) \<or> \<not> session_refs ?a r
          \<or> (\<exists>x\<in>set (map snd (st_sessions ?a)). same_external r x) then Inl CONSTRAINT
       else Inr ((), sync (?a\<lparr> st_sessions := st_sessions ?a @ [(ns_id n, r)] \<rparr>))) = Inr (b, u)"
    then have u: "u = sync ?u" by (auto simp: Let_def split: if_splits)
    have "map_of (st_sessions ?u) sid = map_of (st_sessions ?a) sid"
      using assms(2) by (auto simp: present_def map_add_def split: option.splits)
    then show "transcript_of sid u = transcript_of sid ?a"
      unfolding u transcript_sync by (rule transcript_cong) simp_all
  qed
next
  fix a t assume "and_then (sql (\<lambda>s. Inr (map_of (st_sessions s) (ns_id n), s)) t)
     (\<lambda>r s. (case r of None \<Rightarrow> Inl (MissingSession (ns_id n)) | Some row \<Rightarrow> Inr row, s)) = (x, s')"
  then show "transcript_of sid s' = transcript_of sid t"
    by (rule and_then_transcript) (auto dest: read_transcript)
qed

lemma project_create_transcript:
  assumes "project_create n s = (x, s')"
  shows "transcript_of sid s' = transcript_of sid s"
  using assms unfolding project_create_def project_get_def
proof (rule and_then_transcript)
  fix a t assume "sql (\<lambda>s. if np_id n \<in> set (map fst (st_projects s))
            \<or> np_root_path n \<in> set (map (pj_root_path \<circ> snd) (st_projects s)) then Inl CONSTRAINT
         else Inr ((), sync (s\<lparr> st_projects := st_projects s @
           [(np_id n, \<lparr> pj_id = np_id n, pj_root_path = np_root_path n, pj_display_name = np_display_name n,
              pj_vcs = np_vcs n, pj_created_at = store_now s \<rparr>)] \<rparr>))) s = (a, t)"
  then show "transcript_of sid t = transcript_of sid s"
    by (rule sql_transcript) (auto intro: transcript_cong split: if_splits)
next
  fix a t assume "and_then (sql (\<lambda>s. Inr (map_of (st_projects s) (np_id n), s)) t)
     (\<lambda>r s. (case r of None \<Rightarrow> Inl (MissingProject (np_id n)) | Some p \<Rightarrow> Inr p, s)) = (x, s')"
  then show "transcript_of sid s' = transcript_of sid t"
    by (rule and_then_transcript) (auto dest: read_transcript)
qed

lemma delete_transcript:
  assumes "session_delete k s = (x, s')" "present sid s" "present sid s'"
  shows "transcript_of sid s' = transcript_of sid s"
  using assms(1) unfolding session_delete_def
proof (cases rule: sqlE)
  case (ok b)
  let ?a = "adv_store s"
  let ?u = "?a\<lparr> st_sessions := AList.delete k (st_sessions ?a),
      st_chunks := filter (\<lambda>c. ch_session_id c \<noteq> k) (st_chunks ?a),
      st_db := (st_db ?a)\<lparr> db_runs := map (\<lambda>(i, r). (i, forget_session k r)) (db_runs (st_db ?a)) \<rparr> \<rparr>"
  show ?thesis
  proof (cases "k \<in> set (map fst (st_sessions s))")
    case False
    then show ?thesis using ok(2) by auto
  next
    case True
    then have s': "s' = sync ?u" using ok(2) by simp
    have k: "k \<noteq> sid" using assms(3) unfolding s' present_def by (auto simp: delete_conv')
    have "filter (\<lambda>c. ch_session_id c = sid) (filter (\<lambda>c. ch_session_id c \<noteq> k) cs) = filter (\<lambda>c. ch_session_id c = sid) cs" for cs
      using k by (auto intro: filter_cong)
    then show ?thesis unfolding s' transcript_sync using k by (simp add: transcript_of_def spill_path_def delete_conv')
  qed
qed simp

lemma list_transcript:
  assumes "chunk_list k s = (x, s')"
  shows "transcript_of sid s' = transcript_of sid s"
  using assms unfolding chunk_list_def
proof (rule and_then_transcript)
  fix a t assume "list_spilled k s = (a, t)"
  then show "transcript_of sid t = transcript_of sid s" unfolding list_spilled_def session_get_def
    by (rule and_then_transcript) (auto dest: read_transcript split: option.splits)
qed (auto simp: list_rows_def dest: read_transcript)

lemma step_transcript:
  assumes "store_step s s'" "store_ok s" "present sid s" "present sid s'"
  shows "transcript_of sid s' = transcript_of sid s \<or> (\<exists>kind data x. append_effect sid kind data s x s')"
  using assms(1)
proof (cases rule: store_step.cases)
  case (append k kind data x)
  note e = chunk_append_effect[OF append]
  show ?thesis
  proof (cases "sid = k")
    case True
    then show ?thesis using e by (intro disjI2 exI) simp
  next
    case False
    then show ?thesis by (intro disjI1 append_other_transcript[OF e store_okD(3)[OF assms(2)]])
  qed
next
  case (hook_status k h x)
  then have "transcript_of sid s' = transcript_of sid s" unfolding session_set_hook_status_def
    by (rule sql_transcript) (auto simp: Let_def split_beta transcript_update split: if_splits)
  then show ?thesis ..
next
  case (project_rename k n x)
  then have "transcript_of sid s' = transcript_of sid s" unfolding project_update_display_name_def
    by (rule sql_transcript) (auto simp: Let_def split_beta intro: transcript_cong)
  then show ?thesis ..
next
  case (project_delete k x)
  then have "transcript_of sid s' = transcript_of sid s" unfolding project_delete_def
    by (rule sql_transcript) (auto intro: transcript_cong split: if_splits)
  then show ?thesis ..
next
  case (backend_upsert b x)
  then have "transcript_of sid s' = transcript_of sid s" unfolding backend_upsert_def
    by (rule sql_transcript) (auto intro: transcript_cong)
  then show ?thesis ..
next
  case (setting_set k v x)
  then have "transcript_of sid s' = transcript_of sid s" unfolding setting_set_def
    by (rule sql_transcript) (auto intro: transcript_cong)
  then show ?thesis ..
next
  case (setting_delete k x)
  then have "transcript_of sid s' = transcript_of sid s" unfolding setting_delete_def
    by (rule sql_transcript) (auto intro: transcript_cong)
  then show ?thesis ..
next
  case (create n x)
  then show ?thesis using create_transcript assms(3) by blast
next
  case (delete k x)
  then show ?thesis using delete_transcript assms(3,4) by blast
next
  case (project_create n x)
  then show ?thesis using project_create_transcript by blast
next
  case (listing k x)
  then show ?thesis using list_transcript by blast
next
  case (reading x)
  then have "transcript_of sid s' = transcript_of sid s"
    unfolding tx_stmt_def by (rule read_transcript)
  then show ?thesis ..
next
  case (state k st code x)
  then have "transcript_of sid s' = transcript_of sid s"
    unfolding session_update_state_def by (rule session_update_transcript) simp
  then show ?thesis ..
next
  case (pid k p x)
  then have "transcript_of sid s' = transcript_of sid s"
    unfolding session_update_pid_def by (rule session_update_transcript) simp
  then show ?thesis ..
next
  case (clear_worktree k keep x)
  then have "transcript_of sid s' = transcript_of sid s"
    unfolding session_clear_worktree_def by (rule session_update_transcript) simp
  then show ?thesis ..
next
  case (archive k x)
  then have "transcript_of sid s' = transcript_of sid s"
    unfolding session_archive_def by (rule session_update_transcript) simp
  then show ?thesis ..
next
  case env
  then have "transcript_of sid s' = transcript_of sid s" by (simp add: transcript_of_def spill_path_def)
  then show ?thesis ..
next
  case (crons_and_runs db)
  then have "transcript_of sid s' = transcript_of sid s" by (simp add: transcript_of_def spill_path_def)
  then show ?thesis ..
qed

section \<open>Acknowledged chunks\<close>

text \<open>The chunk is stored: in the table, or in the file if the transcript has one.\<close>

definition recorded :: "SessionChunk \<Rightarrow> Store \<Rightarrow> bool" where
  "recorded c s \<longleftrightarrow> (case transcript_of (ch_session_id c) s of
       (Some None, cs, _, _) \<Rightarrow> c \<in> set cs
     | (Some (Some p), _, Some ps, _) \<Rightarrow> Text c \<in> set ps
     | _ \<Rightarrow> False)"

lemma transcript_bytes [simp]: "transcript_of sid (update_transcript_bytes k n s) = transcript_of sid s"
  unfolding update_transcript_bytes_def by (rule transcript_update) simp

text \<open>The transcript after each kind of append.\<close>

lemma after_row:
  assumes "quiet s t" "st_files t = st_files s" "map_of (st_sessions s) sid = Some r" "se_transcript_path r = None"
  shows "transcript_of sid (t\<lparr> st_chunks := cs \<rparr>)
    = (Some None, filter (\<lambda>c. ch_session_id c = sid) cs, st_files s (spill_path sid s), st_data_dir s)"
  using assms(2-4) quiet_fields(1,3)[OF assms(1)] by (simp add: transcript_of_def spill_path_def)

lemma after_spill:
  assumes "quiet s t" "map_of (st_sessions s) sid = Some r" "st_files t (spill_path sid s) = Some ps"
  shows "transcript_of sid (snd (update_sessions sid
      (\<lambda>x. x\<lparr> se_transcript_path := Some (spill_path sid s), se_transcript_bytes := n \<rparr>) (t\<lparr> st_chunks := cs \<rparr>)))
    = (Some (Some (spill_path sid s)), filter (\<lambda>c. ch_session_id c = sid) cs, Some ps, st_data_dir s)"
  using assms(2,3) quiet_fields(1,3)[OF assms(1)] by (simp add: transcript_of_def spill_path_def)

lemma after_line:
  assumes "quiet s t" "map_of (st_sessions s) sid = Some r" "st_files t = (st_files s)(spill_path sid s := Some ps)"
  shows "transcript_of sid t = (Some (se_transcript_path r), filter (\<lambda>c. ch_session_id c = sid) (st_chunks s), Some ps, st_data_dir s)"
  using assms(2,3) quiet_fields(1-3)[OF assms(1)] by (simp add: transcript_of_def spill_path_def)

lemma recordedD:
  assumes "recorded c s" "map_of (st_sessions s) (ch_session_id c) = Some r"
  shows "se_transcript_path r = None \<Longrightarrow> c \<in> set (st_chunks s)"
    and "se_transcript_path r = Some p \<Longrightarrow> Text c \<in> set (old_pieces (spill_path (ch_session_id c) s) s)"
  using assms by (auto simp: recorded_def transcript_of_def old_pieces_def split: option.splits)

lemma append_recorded:
  assumes "append_effect sid kind data s x s'" "sessions_ok s" "ch_session_id c = sid" "recorded c s"
  shows "recorded c s'"
  using assms(1)
proof (cases rule: append_effect.cases)
  case (row r t n)
  have "c \<in> set (st_chunks t)" using recordedD(1)[OF assms(4)] row(2,3) quiet_fields(2)[OF row(4)] assms(3) by simp
  then show ?thesis
    using after_row[OF row(4,5,2,3), of "st_chunks t @ [mk_chunk sid n kind data t]"] assms(3)
    by (auto simp: recorded_def row(7))
next
  case (spilled r t path n)
  have "c \<in> set (db_chunks sid s)" using recordedD(1)[OF assms(4)] spilled(2,3) assms(3) by (simp add: db_chunks_set)
  then show ?thesis
    using after_spill[OF spilled(4,2), of _ "se_transcript_bytes r + int (length data)"] assms(3) spilled(5,7)
    by (auto simp: recorded_def spilled(8))
next
  case (line r path t cs n)
  have p: "path = spill_path sid s" using sessions_okD(3)[OF assms(2) line(2)] line(3) by simp
  then have "Text c \<in> set (old_pieces path s)" using recordedD(2)[OF assms(4)] line(2,3) assms(3) by simp
  then show ?thesis
    using after_line[OF line(4,2) line(7)[unfolded p]] assms(3) line(3) p
    by (auto simp: recorded_def line(8))
next
  case (wrote_line r path cs ps e)
  have p: "path = spill_path sid s" using sessions_okD(3)[OF assms(2) wrote_line(2)] wrote_line(3) by simp
  then have "Text c \<in> set (old_pieces path s)" using recordedD(2)[OF assms(4)] wrote_line(2,3) assms(3) by simp
  then show ?thesis
    using after_line[OF wrote_line(4,2) wrote_line(6)[unfolded p]] assms(3) wrote_line(3) p
    by (auto simp: recorded_def)
next
  case (wrote_spill r ps e)
  have "c \<in> set (st_chunks s)" using recordedD(1)[OF assms(4)] wrote_spill(2,3) assms(3) by simp
  then show ?thesis
    using after_line[OF wrote_spill(4,2,5)] assms(3) wrote_spill(3)
    by (auto simp: recorded_def)
next
  case (nothing e)
  then have "transcript_of (ch_session_id c) s' = transcript_of (ch_session_id c) s"
    by (auto simp: transcript_of_def spill_path_def quiet_fields)
  then show ?thesis using assms(4) by (simp add: recorded_def)
qed

lemma recorded_present: "recorded c s \<Longrightarrow> present (ch_session_id c) s"
  by (auto simp: recorded_def present_def transcript_of_def split: option.splits)

lemma step_recorded:
  assumes "store_step s s'" "store_ok s" "recorded c s" "present (ch_session_id c) s'"
  shows "recorded c s'"
  using step_transcript[OF assms(1,2) recorded_present[OF assms(3)] assms(4)]
proof
  assume "transcript_of (ch_session_id c) s' = transcript_of (ch_session_id c) s"
  then show ?thesis using assms(3) by (simp add: recorded_def)
next
  assume "\<exists>kind data x. append_effect (ch_session_id c) kind data s x s'"
  then show ?thesis using append_recorded[OF _ store_okD(3)[OF assms(2)] refl assms(3)] by blast
qed

text \<open>Histories in which the session is never deleted.\<close>

definition kept_step :: "str \<Rightarrow> Store \<Rightarrow> Store \<Rightarrow> bool" where
  "kept_step sid s s' \<longleftrightarrow> store_step s s' \<and> present sid s'"

lemma history_recorded:
  assumes "(kept_step (ch_session_id c))\<^sup>*\<^sup>* s s'" "store_ok s" "recorded c s"
  shows "store_ok s' \<and> recorded c s'"
  using assms by (induction rule: rtranclp_induct) (auto simp: kept_step_def intro: store_step_ok step_recorded)

lemma acknowledged_recorded:
  assumes "chunk_append sid kind data s = (Inr out, s')" "sessions_ok s"
  shows "\<exists>c. recorded c s' \<and> ch_session_id c = sid \<and> ch_kind c = chunk_kind_str kind \<and> ch_data c = data
    \<and> out \<in> {StoredInDb (ch_seq c)} \<union> range (SpilledToFile (ch_seq c))"
  using chunk_append_effect[OF assms(1)]
proof (cases rule: append_effect.cases)
  case (row r t n)
  let ?c = "mk_chunk sid n kind data t"
  have m: "ch_session_id ?c = sid" "ch_kind ?c = chunk_kind_str kind" "ch_data ?c = data" "ch_seq ?c = n"
    by (simp_all add: mk_chunk_def)
  have "recorded ?c s'"
    using after_row[OF row(4,5,2,3), of "st_chunks t @ [?c]"] m(1) by (auto simp: recorded_def row(7))
  then show ?thesis using m row(1) by (intro exI[of _ ?c]) simp
next
  case (spilled r t path n)
  let ?c = "mk_chunk sid n kind data s"
  have m: "ch_session_id ?c = sid" "ch_kind ?c = chunk_kind_str kind" "ch_data ?c = data" "ch_seq ?c = n"
    by (simp_all add: mk_chunk_def)
  have "recorded ?c s'"
    using after_spill[OF spilled(4,2), of _ "se_transcript_bytes r + int (length data)"] m(1) spilled(5,7)
    by (auto simp: recorded_def spilled(8))
  then show ?thesis using m spilled(1) by (intro exI[of _ ?c]) simp
next
  case (line r path t cs n)
  let ?c = "mk_chunk sid n kind data s"
  have m: "ch_session_id ?c = sid" "ch_kind ?c = chunk_kind_str kind" "ch_data ?c = data" "ch_seq ?c = n"
    by (simp_all add: mk_chunk_def)
  have p: "path = spill_path sid s" using sessions_okD(3)[OF assms(2) line(2)] line(3) by simp
  have "recorded ?c s'"
    using after_line[OF line(4,2) line(7)[unfolded p]] m(1) line(3) p by (auto simp: recorded_def line(8))
  then show ?thesis using m line(1) by (intro exI[of _ ?c]) simp
qed

lemma parse_complete: "parse_lines ls = Inr cs \<Longrightarrow> Text c \<in> set (concat ls) \<Longrightarrow> c \<in> set cs"
  by (induction ls arbitrary: cs rule: parse_lines.induct) (fastforce split: sum.splits)+

lemma file_lines_pieces: "Text c \<in> set acc \<or> Text c \<in> set ps \<Longrightarrow> Text c \<in> set (concat (file_lines acc ps))"
  by (induction acc ps rule: file_lines.induct) auto

lemma listed_if_recorded:
  assumes "recorded c s" "sessions_ok s" "chunk_list (ch_session_id c) s = (Inr cs, s')"
  shows "c \<in> set cs"
proof -
  let ?sid = "ch_session_id c"
  obtain r where r: "map_of (st_sessions s) ?sid = Some r"
    using recorded_present[OF assms(1)] by (auto simp: present_def)
  from assms(3) obtain hd_cs t where h: "list_spilled ?sid s = (Inr hd_cs, t)" and t: "list_rows ?sid hd_cs t = (Inr cs, s')"
    unfolding chunk_list_def by (auto elim!: and_thenE)
  from t have cs: "set cs = set hd_cs \<union> set (db_chunks ?sid t)"
    unfolding list_rows_def by (auto elim!: sqlE simp: db_chunks_def)
  have tq: "t = adv_store s" and hd_cs: "(case se_transcript_path r of None \<Rightarrow> Inr [] | Some p \<Rightarrow> read_spill_lines p (adv_store s)) = Inr hd_cs"
    using h r unfolding list_spilled_def session_get_def
    by (auto elim!: and_thenE sqlE split: option.splits)
  show ?thesis
  proof (cases "se_transcript_path r")
    case None
    then show ?thesis using recordedD(1)[OF assms(1) r] cs tq by (simp add: db_chunks_set)
  next
    case (Some p)
    then have p: "p = spill_path ?sid s" using sessions_okD(3)[OF assms(2) r] by simp
    then have x: "Text c \<in> set (old_pieces p s)" using recordedD(2)[OF assms(1) r] Some by simp
    then obtain ps where ps: "st_files s p = Some ps" "Text c \<in> set ps"
      by (cases "st_files s p") (auto simp: old_pieces_def)
    then have "parse_lines (file_lines [] ps) = Inr hd_cs" using hd_cs Some by (simp add: read_spill_lines_def)
    from parse_complete[OF this] file_lines_pieces ps(2) have "c \<in> set hd_cs" by blast
    then show ?thesis using cs by simp
  qed
qed


section \<open>A file that cannot be read\<close>

definition blocked :: "str \<Rightarrow> Store \<Rightarrow> bool" where
  "blocked sid s \<longleftrightarrow> (\<exists>p cs ps d e. transcript_of sid s = (Some (Some p), cs, Some ps, d)
     \<and> parse_lines (file_lines [] ps) = Inl e)"

lemma read_spill_adv [simp]: "read_spill_lines p (adv_store s) = read_spill_lines p s"
  by (simp add: read_spill_lines_def)

lemma blockedD:
  assumes "blocked sid s" "sessions_ok s" "map_of (st_sessions s) sid = Some r"
  shows "se_transcript_path r = Some (spill_path sid s)" "\<exists>e. read_spill_lines (spill_path sid s) s = Inl e"
proof -
  from assms(1) obtain p ps e where "se_transcript_path r = Some p" "st_files s (spill_path sid s) = Some ps"
    "parse_lines (file_lines [] ps) = Inl e"
    by (auto simp: blocked_def transcript_of_def assms(3))
  then show "se_transcript_path r = Some (spill_path sid s)" "\<exists>e. read_spill_lines (spill_path sid s) s = Inl e"
    using sessions_okD(3)[OF assms(2,3)] by (simp_all add: read_spill_lines_def)
qed

lemma blocked_append:
  assumes "append_effect sid kind data s x s'" "blocked sid s" "sessions_ok s"
  shows "(\<exists>e. x = Inl e) \<and> transcript_of sid s' = transcript_of sid s"
proof -
  have none: "se_transcript_path r \<noteq> None" "se_transcript_path r = Some p \<Longrightarrow> read_spill_lines p s \<noteq> Inr cs"
    if "map_of (st_sessions s) sid = Some r" for r p cs
    using blockedD[OF assms(2,3) that] by (simp, metis option.inject sum.distinct(1))
  from assms(1) show ?thesis
proof (cases rule: append_effect.cases)
  case (nothing e)
  then show ?thesis by (auto simp: transcript_of_def spill_path_def quiet_fields)
qed (use none in auto)
qed

lemma history_blocked:
  assumes "(kept_step sid)\<^sup>*\<^sup>* s s'" "store_ok s" "blocked sid s"
  shows "store_ok s' \<and> blocked sid s'"
  using assms
proof (induction rule: rtranclp_induct)
  case (step t u)
  then have t: "store_ok t" "blocked sid t" and tu: "store_step t u" "present sid u" by (simp_all add: kept_step_def)
  have "present sid t" using t(2) by (auto simp: blocked_def present_def transcript_of_def)
  then have "transcript_of sid u = transcript_of sid t"
    using step_transcript[OF tu(1) t(1) _ tu(2)] blocked_append[OF _ t(2) store_okD(3)[OF t(1)]] by blast
  then show ?case using t store_step_ok[OF tu(1)] by (simp add: blocked_def)
qed simp

lemma blocked_fails:
  assumes "blocked sid s" "store_ok s"
  shows "\<exists>e. fst (chunk_append sid kind data s) = Inl e" "\<exists>e. fst (chunk_list sid s) = Inl e"
proof -
  note so = store_okD(3)[OF assms(2)]
  obtain x s' where e: "chunk_append sid kind data s = (x, s')" by fastforce
  show "\<exists>e. fst (chunk_append sid kind data s) = Inl e"
    using blocked_append[OF chunk_append_effect[OF e] assms(1) so] e by simp
  obtain r where r: "map_of (st_sessions s) sid = Some r"
    using assms(1) by (auto simp: blocked_def transcript_of_def)
  note b = blockedD[OF assms(1) so r]
  obtain y t where l: "list_spilled sid s = (y, t)" by fastforce
  have "\<exists>err. y = Inl err"
    using l unfolding list_spilled_def session_get_def
    by (elim and_thenE sqlE) (use b(2) in \<open>auto simp: r b(1)\<close>)
  then show "\<exists>e. fst (chunk_list sid s) = Inl e" unfolding chunk_list_def l by auto
qed

lemma torn_line: "parse_lines (file_lines acc (ps @ [Part])) \<noteq> Inr cs"
proof (induction acc ps arbitrary: cs rule: file_lines.induct)
  case (1 acc)
  then show ?case by (cases acc rule: parse_lines.cases[of "[x]" for x]) (cases acc; auto)+
next
  case (2 acc ps)
  have "parse_lines (acc # ls) = Inr cs \<Longrightarrow> \<exists>ds. parse_lines ls = Inr ds" for ls cs
    by (cases "acc # ls" rule: parse_lines.cases) (auto split: sum.splits)
  with 2 show ?case by (simp, blast)
qed simp_all

text \<open>A torn line ends a transcript.  If the write of one line to the file of a
  session breaks off inside the line, then in every history after it, every append to
  the session and every listing of it fails, until the session is deleted.\<close>

theorem torn_line_blocks_session:
  assumes "store_ok s" and "map_of (st_sessions s) sid = Some r" and "se_transcript_path r = Some p"
    and "read_spill_lines p s = Inr old" and "db_io (st_db s) = []" and "st_writes s = Broken 0 True # ws"
  shows "\<exists>e s1. chunk_append sid kind data s = (Inl e, s1)
    \<and> (\<forall>s2. (kept_step sid)\<^sup>*\<^sup>* s1 s2 \<longrightarrow>
         (\<forall>kind data. \<exists>e. fst (chunk_append sid kind data s2) = Inl e) \<and> (\<exists>e. fst (chunk_list sid s2) = Inl e))"
proof -
  have p: "p = spill_path sid s" using sessions_okD(3)[OF store_okD(3)[OF assms(1)] assms(2,3)] .
  let ?s1 = "s\<lparr> st_writes := ws, st_files := (st_files s)(p := Some (old_pieces p s @ [Part])) \<rparr>"
  have e: "chunk_append sid kind data s = (Inl (Io (lit ''write'')), ?s1)"
    using assms(2-6)
    by (simp add: chunk_append_def session_get_def append_to_spill_def Let_def append_spill_line_def
        spill_write_def old_pieces_def)
  obtain e1 where "parse_lines (file_lines [] (old_pieces p s @ [Part])) = Inl e1"
    using torn_line[of "[]" "old_pieces p s"] by (cases "parse_lines (file_lines [] (old_pieces p s @ [Part]))") auto
  then have "blocked sid ?s1"
    using assms(2,3) p by (simp add: blocked_def transcript_of_def spill_path_def)
  moreover have "store_ok ?s1" using append_ok[OF e assms(1)] .
  ultimately show ?thesis using e history_blocked blocked_fails by blast
qed

section \<open>The tables\<close>

definition empty_store :: "str \<Rightarrow> int \<Rightarrow> Store" where
  "empty_store dir spill_bytes = \<lparr> st_db = empty_db [] [], st_backends = [], st_projects = [], st_sessions = [],
     st_chunks = [], st_settings = [], st_schema_meta = Some [], st_files = Map.empty, st_writes = [],
     st_data_dir = dir, st_spill_bytes = spill_bytes \<rparr>"

lemma empty_store_ok: "store_ok (empty_store dir n)"
  by (simp add: store_ok_def empty_store_def keyed_def sessions_ok_def sync_iff empty_db_def db_ok_def db_core_def
      crons_wf_def runs_wf_def finished_count_def)

lemma history_ok: "store_step\<^sup>*\<^sup>* s s' \<Longrightarrow> store_ok s \<Longrightarrow> store_ok s'"
  by (induction rule: rtranclp_induct) (auto intro: store_step_ok)


lemma find_in: "find P xs = Some x \<Longrightarrow> P x \<and> x \<in> set xs"
  by (induction xs) (auto split: if_splits)

text \<open>An import is idempotent.  A session that is recorded for a backend and an
  external id is the one the lookup finds, and no other can be created for them.\<close>

theorem import_finds_the_session:
  assumes "store_ok s" and "map_of (st_sessions s) k = Some r" and "se_external_id r = Some e" and "db_io (st_db s) = []"
  shows "session_find_by_backend_external_id (se_backend_id r) e s = (Inr (Some r), s)
    \<and> (\<forall>n. ns_backend_id n = se_backend_id r \<longrightarrow> ns_external_id n = Some e \<longrightarrow> session_create n s = (Inl CONSTRAINT, s))"
proof -
  note so = store_okD(3)[OF assms(1)]
  have in_rows: "r \<in> set (map snd (st_sessions s))" using map_of_SomeD[OF assms(2)] by force
  let ?P = "\<lambda>x. se_backend_id x = se_backend_id r \<and> se_external_id x = Some e"
  obtain x where x: "find ?P (map snd (st_sessions s)) = Some x"
    using in_rows assms(3) by (cases "find ?P (map snd (st_sessions s))") (auto simp: find_None_iff)
  then have P: "?P x" and "x \<in> set (map snd (st_sessions s))"
    using find_in by fast+
  then obtain j where "(j, x) \<in> set (st_sessions s)" by auto
  then have j: "map_of (st_sessions s) j = Some x" using so by (simp add: sessions_ok_def keyed_def)
  then have "j = k" using sessions_okD(4)[OF so assms(2) j] P assms(3) by (simp add: same_external_def)
  then have "x = r" using j assms(2) by simp
  moreover have "same_external (session_row (store_now s) n) r"
    if "ns_backend_id n = se_backend_id r" "ns_external_id n = Some e" for n
    using that assms(3) by (simp add: same_external_def session_row_def)
  ultimately show ?thesis
    using x assms(4) in_rows
    by (auto simp: session_find_by_backend_external_id_def session_create_def Let_def simp del: set_map)
qed

text \<open>A database of a newer version is refused before anything is written to it; one
  of the current or an older version is not.\<close>

theorem newer_schema_refused:
  assumes "st_schema_meta s = Some [(lit ''schema_version'', show_nat v)]" and "v \<le> u64_max" and "db_io (st_db s) = []"
  shows "(v > 4 \<longrightarrow> open_store migrate s = (Inl (SchemaTooNew (show_nat v) CURRENT_SCHEMA_VERSION), s))
    \<and> (v \<le> 4 \<longrightarrow> reject_too_new_schema s = (Inr (), s))"
proof -
  have "show_nat 4 = lit ''4''" by (simp add: lit_def show_nat.simps)
  then have "parse_uint u64_max (lit ''4'') = Some 4"
    using parse_show_nat[of 4 u64_max] by (simp add: u64_max_val)
  then have "version_gt (show_nat v) CURRENT_SCHEMA_VERSION \<longleftrightarrow> v > 4"
    using assms(2) by (simp add: version_gt_def CURRENT_SCHEMA_VERSION_def)
  then show ?thesis
    using assms(1,3) by (simp_all add: open_store_def reject_too_new_schema_def read_schema_meta_def)
qed

section \<open>Witnesses\<close>

lemma demo_store_ok: "store_ok demo_store"
  by (simp add: store_ok_def demo_store_def keyed_def sessions_ok_def sync_iff db_ok_def db_core_def
      crons_wf_def runs_wf_def finished_count_def sync_def empty_db_def session_refs_def demo_session_def session_row_def)


definition demo_spilled :: Store where
  "demo_spilled = snd (chunk_append (lit ''s1'') Stdout [1, 2, 3, 4] demo_store)"

lemma demo_spilled_facts:
  "store_ok demo_spilled" "db_io (st_db demo_spilled) = []"
  "\<exists>r. map_of (st_sessions demo_spilled) (lit ''s1'') = Some r \<and> se_transcript_path r = Some (lit ''/d/sessions/s1.log'')
     \<and> read_spill_lines (lit ''/d/sessions/s1.log'') demo_spilled \<in> range Inr"
proof -
  obtain s1 where s1: "spill_now (lit ''s1'') 4 Stdout [1, 2, 3, 4] demo_store = (Inr (SpilledToFile 1 (spill_path (lit ''s1'') demo_store)), s1)"
    "holds (lit ''s1'') [mk_chunk (lit ''s1'') 1 Stdout [1, 2, 3, 4] demo_store] s1" "calm_store s1" "others_keep (lit ''s1'') demo_store s1"
    using spill_now_holds[OF demo_store_facts(1,2,4) demo_store_facts(5) refl, of "[1, 2, 3, 4]" Stdout]
    by (auto simp: demo_store_facts)
  have e: "chunk_append (lit ''s1'') Stdout [1, 2, 3, 4] demo_store = (Inr (SpilledToFile 1 (spill_path (lit ''s1'') demo_store)), s1)"
    using s1(1) demo_store_facts(1) by (simp add: chunk_append_def session_get_def demo_store_facts calm_store_def)
  then have s: "demo_spilled = s1" by (simp add: demo_spilled_def)
  show "store_ok demo_spilled" using append_ok[OF e demo_store_ok] s by simp
  show "db_io (st_db demo_spilled) = []" using s1(3) s by (simp add: calm_store_def)
  have "s1 = snd (spill_now (lit ''s1'') 4 Stdout [1, 2, 3, 4] demo_store)" by (simp add: s1(1))
  then have "\<exists>r. map_of (st_sessions s1) (lit ''s1'') = Some r \<and> se_transcript_path r = Some (spill_path (lit ''s1'') demo_store)"
    using demo_store_facts(1,4) by (simp add: spill_now_def Let_def calm_store_def write_spill_file_def spill_write_calm)
  moreover have "spill_path (lit ''s1'') demo_store = lit ''/d/sessions/s1.log''"
    by (simp add: spill_path_def demo_store_def sync_def lit_def)
  ultimately show "\<exists>r. map_of (st_sessions demo_spilled) (lit ''s1'') = Some r \<and> se_transcript_path r = Some (lit ''/d/sessions/s1.log'')
     \<and> read_spill_lines (lit ''/d/sessions/s1.log'') demo_spilled \<in> range Inr"
    using s1(2) unfolding s holds_def by (auto simp: read_spill_lines_def file_lines_whole parse_whole)
qed

lemma torn_line_blocks_session_witness:
  "\<exists>e s1. chunk_append (lit ''s1'') Stdout [5] (demo_spilled\<lparr> st_writes := [Broken 0 True] \<rparr>) = (Inl e, s1)
    \<and> (\<exists>e. fst (chunk_list (lit ''s1'') s1) = Inl e)"
proof -
  let ?s = "demo_spilled\<lparr> st_writes := [Broken 0 True] \<rparr>"
  obtain r cs where r: "map_of (st_sessions demo_spilled) (lit ''s1'') = Some r"
    "se_transcript_path r = Some (lit ''/d/sessions/s1.log'')" "read_spill_lines (lit ''/d/sessions/s1.log'') demo_spilled = Inr cs"
    using demo_spilled_facts(3) by auto
  have "quiet demo_spilled ?s" unfolding quiet_def
    by (intro exI[of _ "db_io (st_db demo_spilled)"] exI[of _ "st_files demo_spilled"] exI[of _ "[Broken 0 True]"]) simp
  then have "store_ok ?s" using demo_spilled_facts(1) by (rule quiet_store_ok)
  moreover have "read_spill_lines (lit ''/d/sessions/s1.log'') ?s = Inr cs" using r(3) by (simp add: read_spill_lines_def)
  ultimately show ?thesis
    using torn_line_blocks_session[of ?s "lit ''s1''" r "lit ''/d/sessions/s1.log''" cs "[]" Stdout "[5]"] r demo_spilled_facts(2)
    by (auto dest!: spec[where x = "s1" for s1])
qed


definition demo_imported :: Store where
  "demo_imported = snd (session_create \<lparr> ns_id = lit ''s2'', ns_project_id = lit ''p'', ns_backend_id = lit ''claude'',
     ns_external_id = Some (lit ''x''), ns_title = None, ns_state = lit ''exited'', ns_pid = None, ns_worktree_path = None,
     ns_worktree_branch = None, ns_base_branch = None, ns_spawn_args = [], ns_origin = lit ''import'',
     ns_hook_status = None, ns_external_path = None \<rparr> demo_store)"

lemma import_finds_the_session_witness:
  "\<exists>r. se_id r = lit ''s2'' \<and> session_find_by_backend_external_id (lit ''claude'') (lit ''x'') demo_imported = (Inr (Some r), demo_imported)"
proof -
  have ok: "store_ok demo_imported" unfolding demo_imported_def
    using session_created_ok[OF surjective_pairing demo_store_ok] .
  have "\<exists>r. map_of (st_sessions demo_imported) (lit ''s2'') = Some r \<and> se_external_id r = Some (lit ''x'')
      \<and> se_backend_id r = lit ''claude'' \<and> se_id r = lit ''s2''" "db_io (st_db demo_imported) = []"
    by (simp_all add: demo_imported_def session_create_def session_get_def demo_store_def sync_def empty_db_def
        Let_def session_refs_def session_row_def same_external_def demo_session_def)
  then show ?thesis using import_finds_the_session[OF ok] by metis
qed

lemma newer_schema_refused_witness:
  "open_store (\<lambda>s. (Inr (), s)) (demo_store\<lparr> st_schema_meta := Some [(lit ''schema_version'', show_nat 5)] \<rparr>)
    = (Inl (SchemaTooNew (show_nat 5) CURRENT_SCHEMA_VERSION), demo_store\<lparr> st_schema_meta := Some [(lit ''schema_version'', show_nat 5)] \<rparr>)"
  by (rule newer_schema_refused[THEN conjunct1, rule_format])
     (use demo_store_facts(1) in \<open>simp_all add: widths calm_store_def\<close>)

end
