(* ===== verification/Wire_Errors.thy ===== *)
theory Wire_Errors
  imports Frame_Codec
begin

text \<open>
  The classes of errors that cross the IPC boundary and their numeric codes, from
  \<open>la-proto/src/lib.rs\<close>.
\<close>

datatype ErrorKind =
    Parse | InvalidRequest | MethodNotFound | InvalidParams
  | Internal | Server | NotInitialized | UnsupportedProtocolVersion
  | SessionNotFound | WriterLocked | NotAttached | ReplayOutOfRange
  | SessionBusy | PayloadTooLarge | UnknownEventTopic | AdapterNotInstalled
  | AdapterUnauthenticated | AdapterSpawnFailed | AdapterProtocolDrift | AdapterUnsupportedOption
  | WorktreeNotAGitRepo | WorktreeBusy | WorktreeBranchCollision | WorktreeIo
  | WorktreeGitUnavailable | WorktreeProvisionFailed | WorktreeUnavailable | WorktreeDiffTooLarge
  | WorktreeHunkStale | WorktreeCommitHookFailed | WorktreeCommitEmpty | WorktreePatchRejected
  | WorktreeEditorUnavailable | WorktreeDiscardUnconfirmed | StorageBusy | StorageConflict
  | StorageFailed | CronNotFound | CronInvalidExpr | CronBudgetExceeded
  | CronInvalidTz | CronConfirmationRequired | CronPromptTooLarge

text \<open>ErrorKind::code, with the constants of the module error_codes.\<close>

fun rpc_code :: "ErrorKind \<Rightarrow> int" where
  "rpc_code Parse = - 32700"
| "rpc_code InvalidRequest = - 32600"
| "rpc_code MethodNotFound = - 32601"
| "rpc_code InvalidParams = - 32602"
| "rpc_code Internal = - 32603"
| "rpc_code Server = - 32099"
| "rpc_code NotInitialized = - 33001"
| "rpc_code UnsupportedProtocolVersion = - 33002"
| "rpc_code SessionNotFound = - 33003"
| "rpc_code WriterLocked = - 33004"
| "rpc_code NotAttached = - 33005"
| "rpc_code ReplayOutOfRange = - 33006"
| "rpc_code SessionBusy = - 33007"
| "rpc_code PayloadTooLarge = - 33008"
| "rpc_code UnknownEventTopic = - 33009"
| "rpc_code AdapterNotInstalled = - 33101"
| "rpc_code AdapterUnauthenticated = - 33102"
| "rpc_code AdapterSpawnFailed = - 33103"
| "rpc_code AdapterProtocolDrift = - 33104"
| "rpc_code AdapterUnsupportedOption = - 33105"
| "rpc_code WorktreeNotAGitRepo = - 33110"
| "rpc_code WorktreeBusy = - 33111"
| "rpc_code WorktreeBranchCollision = - 33112"
| "rpc_code WorktreeIo = - 33113"
| "rpc_code WorktreeGitUnavailable = - 33114"
| "rpc_code WorktreeProvisionFailed = - 33119"
| "rpc_code WorktreeUnavailable = - 33120"
| "rpc_code WorktreeDiffTooLarge = - 33121"
| "rpc_code WorktreeHunkStale = - 33122"
| "rpc_code WorktreeCommitHookFailed = - 33123"
| "rpc_code WorktreeCommitEmpty = - 33124"
| "rpc_code WorktreePatchRejected = - 33125"
| "rpc_code WorktreeEditorUnavailable = - 33126"
| "rpc_code WorktreeDiscardUnconfirmed = - 33127"
| "rpc_code StorageBusy = - 33201"
| "rpc_code StorageConflict = - 33202"
| "rpc_code StorageFailed = - 33203"
| "rpc_code CronNotFound = - 33301"
| "rpc_code CronInvalidExpr = - 33302"
| "rpc_code CronBudgetExceeded = - 33303"
| "rpc_code CronInvalidTz = - 33304"
| "rpc_code CronConfirmationRequired = - 33305"
| "rpc_code CronPromptTooLarge = - 33306"

text \<open>The ranges of the table: JSON-RPC's own codes, the one code of the range left to
  implementations, and the subsystems.\<close>

definition code_ranges :: "(int \<times> int) list" where
  "code_ranges = [(-32700, -32600), (-32099, -32000), (-33099, -33001), (-33109, -33101),
     (-33119, -33110), (-33129, -33120), (-33299, -33201), (-33399, -33301)]"

lemma code_in_range: "list_ex (\<lambda>(lo, hi). lo \<le> rpc_code k \<and> rpc_code k \<le> hi) code_ranges"
  by (cases k) (simp_all add: code_ranges_def)

lemma code_inj: "rpc_code j = rpc_code k \<longleftrightarrow> j = k"
  by (cases j; cases k; simp)

end
