(* ===== verification/Core_Errors.thy ===== *)
theory Core_Errors
  imports Wire_Errors Adapters Storage_Repos
begin

text \<open>
  The errors of \<open>la-core\<close> (\<open>la-core/src/error.rs\<close>), with the errors of the layers below that
  they wrap, and the class under which the dispatcher reports each of them.
\<close>

datatype AdapterError =
    AeNotInstalled str
  | AeUnauthenticated str
  | AeSpawnFailed str
  | AeUnsupportedOption str
  | AeProtocolDrift str
  | AeTransient str

datatype PtyError =
    OpenPty str
  | SpawnPty str
  | Reader str
  | Writer str
  | Resize str
  | SignalPty str
  | WaitPty str
  | WriterClosed
  | NoPid
  | ShellWrapping str
  | JoinPty str

datatype CoreError =
    Adapter AdapterError
  | PtyFailed PtyError
  | Storage StorageError
  | Ipc IpcError
  | SessionNotFound str
  | WriterLocked nat
  | NotAttached
  | SessionBusy
  | InternalError str
  | NotAGitRepo str
  | WorktreeBusy str
  | BranchCollision str
  | WorktreeIo str
  | GitUnavailable str
  | WorktreeProvision str
  | WorktreeUnavailable str
  | WorktreeDiffTooLarge nat
  | WorktreeHunkStale
  | WorktreeCommitHookFailed str
  | WorktreeCommitEmpty
  | WorktreePatchRejected str
  | WorktreeEditorUnavailable
  | WorktreeDiscardUnconfirmed

fun kind :: "CoreError \<Rightarrow> ErrorKind" where
  "kind (Adapter (AeNotInstalled _)) = AdapterNotInstalled"
| "kind (Adapter (AeUnauthenticated _)) = AdapterUnauthenticated"
| "kind (Adapter (AeSpawnFailed _)) = AdapterSpawnFailed"
| "kind (Adapter (AeUnsupportedOption _)) = AdapterUnsupportedOption"
| "kind (Adapter (AeProtocolDrift _)) = AdapterProtocolDrift"
| "kind (Adapter (AeTransient _)) = Internal"
| "kind (PtyFailed _) = AdapterSpawnFailed"
| "kind (Storage (Busy _)) = StorageBusy"
| "kind (Storage (MissingSession _)) = Wire_Errors.SessionNotFound"
| "kind (Storage (MissingProject _)) = Internal"
| "kind (Storage _) = StorageFailed"
| "kind (Ipc _) = Internal"
| "kind (SessionNotFound _) = Wire_Errors.SessionNotFound"
| "kind (WriterLocked _) = Wire_Errors.WriterLocked"
| "kind NotAttached = Wire_Errors.NotAttached"
| "kind SessionBusy = Wire_Errors.SessionBusy"
| "kind (InternalError _) = Internal"
| "kind (NotAGitRepo _) = WorktreeNotAGitRepo"
| "kind (WorktreeBusy _) = Wire_Errors.WorktreeBusy"
| "kind (BranchCollision _) = WorktreeBranchCollision"
| "kind (WorktreeIo _) = Wire_Errors.WorktreeIo"
| "kind (GitUnavailable _) = WorktreeGitUnavailable"
| "kind (WorktreeProvision _) = WorktreeProvisionFailed"
| "kind (WorktreeUnavailable _) = Wire_Errors.WorktreeUnavailable"
| "kind (WorktreeDiffTooLarge _) = Wire_Errors.WorktreeDiffTooLarge"
| "kind WorktreeHunkStale = Wire_Errors.WorktreeHunkStale"
| "kind (WorktreeCommitHookFailed _) = Wire_Errors.WorktreeCommitHookFailed"
| "kind WorktreeCommitEmpty = Wire_Errors.WorktreeCommitEmpty"
| "kind (WorktreePatchRejected _) = Wire_Errors.WorktreePatchRejected"
| "kind WorktreeEditorUnavailable = Wire_Errors.WorktreeEditorUnavailable"
| "kind WorktreeDiscardUnconfirmed = Wire_Errors.WorktreeDiscardUnconfirmed"

text \<open>The codes kept for a worktree that cannot be provided.\<close>

definition provision_error :: "CoreError \<Rightarrow> bool" where
  "provision_error e \<longleftrightarrow> -33119 \<le> rpc_code (kind e) \<and> rpc_code (kind e) \<le> -33110"

lemma provision_errors [simp]:
  "provision_error (NotAGitRepo x)" "provision_error (WorktreeBusy x)" "provision_error (BranchCollision x)"
  "provision_error (WorktreeIo x)" "provision_error (GitUnavailable x)" "provision_error (WorktreeProvision x)"
  by (simp_all add: provision_error_def)

end
