(* ===== verification/Utf8.thy ===== *)
theory Utf8
  imports Frame_Codec
begin

text \<open>
  The conversions between bytes and text that the code takes from Rust's standard
  library: \<open>str::as_bytes\<close>, \<open>str::from_utf8\<close> and \<open>String::from_utf8_lossy\<close>, which puts U+FFFD
  in the place of every maximal prefix of an invalid sequence, and the ASCII case
  conversion.
\<close>

section \<open>Encoding\<close>

definition utf8_char :: "nat \<Rightarrow> bytes" where
  "utf8_char c =
     (if c < 128 then [of_nat c]
      else if c < 2048 then [of_nat (192 + c div 64), of_nat (128 + c mod 64)]
      else if c < 65536 then
        [of_nat (224 + c div 4096), of_nat (128 + c div 64 mod 64), of_nat (128 + c mod 64)]
      else [of_nat (240 + c div 262144), of_nat (128 + c div 4096 mod 64),
            of_nat (128 + c div 64 mod 64), of_nat (128 + c mod 64)])"

definition as_bytes :: "str \<Rightarrow> bytes" where
  "as_bytes s = concat (map utf8_char s)"

text \<open>Unicode scalar values: what a char can hold.\<close>

definition scalar :: "nat \<Rightarrow> bool" where
  "scalar c \<longleftrightarrow> c < 55296 \<or> (57344 \<le> c \<and> c < 1114112)"

section \<open>Decoding\<close>

text \<open>The values a second byte may have after a leading byte.\<close>

definition second_ok :: "nat \<Rightarrow> nat \<Rightarrow> bool" where
  "second_ok a b \<longleftrightarrow> (if a = 224 then 160 else if a = 240 then 144 else 128) \<le> b
     \<and> b \<le> (if a = 237 then 159 else if a = 244 then 143 else 191)"

definition cont_ok :: "nat \<Rightarrow> bool" where "cont_ok b \<longleftrightarrow> 128 \<le> b \<and> b \<le> 191"

text \<open>The character at the front, or none, and the number of bytes it takes.\<close>

definition utf8_next :: "nat \<Rightarrow> nat list \<Rightarrow> nat option \<times> nat" where
  "utf8_next a bs =
     (if a < 128 then (Some a, 1)
      else if 194 \<le> a \<and> a \<le> 223 then
        (case bs of b # _ \<Rightarrow> if second_ok a b then (Some ((a - 192) * 64 + (b - 128)), 2) else (None, 1)
         | [] \<Rightarrow> (None, 1))
      else if 224 \<le> a \<and> a \<le> 239 then
        (case bs of b # c # _ \<Rightarrow>
            if \<not> second_ok a b then (None, 1) else if \<not> cont_ok c then (None, 2)
            else (Some ((a - 224) * 4096 + (b - 128) * 64 + (c - 128)), 3)
         | [b] \<Rightarrow> (None, if second_ok a b then 2 else 1)
         | [] \<Rightarrow> (None, 1))
      else if 240 \<le> a \<and> a \<le> 244 then
        (case bs of b # c # d # _ \<Rightarrow>
            if \<not> second_ok a b then (None, 1) else if \<not> cont_ok c then (None, 2)
            else if \<not> cont_ok d then (None, 3)
            else (Some ((a - 240) * 262144 + (b - 128) * 4096 + (c - 128) * 64 + (d - 128)), 4)
         | [b, c] \<Rightarrow> (None, if \<not> second_ok a b then 1 else if \<not> cont_ok c then 2 else 3)
         | [b] \<Rightarrow> (None, if second_ok a b then 2 else 1)
         | [] \<Rightarrow> (None, 1))
      else (None, 1))"

lemma utf8_next_width: "1 \<le> snd (utf8_next a bs)" "snd (utf8_next a bs) \<le> Suc (length bs)"
  unfolding utf8_next_def by (auto split: list.splits)

function from_utf8 :: "bytes \<Rightarrow> str option" where
  "from_utf8 [] = Some []"
| "from_utf8 (a # bs) =
     (case utf8_next (unat a) (map unat bs) of
        (None, _) \<Rightarrow> None
      | (Some c, n) \<Rightarrow> map_option (Cons c) (from_utf8 (drop (n - 1) bs)))"
  by pat_completeness auto
termination by (relation "measure length") auto

function from_utf8_lossy :: "bytes \<Rightarrow> str" where
  "from_utf8_lossy [] = []"
| "from_utf8_lossy (a # bs) =
     (case utf8_next (unat a) (map unat bs) of
        (c, n) \<Rightarrow> (case c of Some c \<Rightarrow> c | None \<Rightarrow> 65533) # from_utf8_lossy (drop (n - 1) bs))"
  by pat_completeness auto
termination by (relation "measure length") auto

section \<open>Case\<close>

definition ascii_lower :: "str \<Rightarrow> str" where
  "ascii_lower s = map (\<lambda>c. if 65 \<le> c \<and> c \<le> 90 then c + 32 else c) s"

section \<open>Properties\<close>

lemma unat_lit: "n < 256 \<Longrightarrow> unat (of_nat n :: 8 word) = n"
  by (simp add: unat_of_nat take_bit_eq_mod)

lemma next2: "2 \<le> x \<Longrightarrow> x < 32 \<Longrightarrow> y < 64 \<Longrightarrow> utf8_next (192 + x) ((128 + y) # r) = (Some (x * 64 + y), 2)"
  by (auto simp: utf8_next_def second_ok_def)

lemma next3:
  assumes "x < 16" "y < 64" "z < 64" "x = 0 \<longrightarrow> 32 \<le> y" "x = 13 \<longrightarrow> y < 32"
  shows "utf8_next (224 + x) ((128 + y) # (128 + z) # r) = (Some (x * 4096 + y * 64 + z), 3)"
  using assms by (auto simp: utf8_next_def second_ok_def cont_ok_def)

lemma next4:
  assumes "x < 5" "y < 64" "z < 64" "u < 64" "x = 0 \<longrightarrow> 16 \<le> y" "x = 4 \<longrightarrow> y < 16"
  shows "utf8_next (240 + x) ((128 + y) # (128 + z) # (128 + u) # r)
    = (Some (x * 262144 + y * 4096 + z * 64 + u), 4)"
  using assms by (auto simp: utf8_next_def second_ok_def cont_ok_def)

lemma scalar_next:
  assumes "scalar c"
  shows "\<exists>a bs. utf8_char c = a # bs
    \<and> (\<forall>rest. utf8_next (unat a) (map unat (bs @ rest)) = (Some c, Suc (length bs)))"
proof -
  have c: "c < 1114112" using assms by (auto simp: scalar_def)
  have d: "c div 64 mod 64 < 64" "c mod 64 < 64" "c div 4096 mod 64 < 64" by simp_all
  have e: "c div 64 = c div 4096 * 64 + c div 64 mod 64"
    using div_mult_mod_eq[of "c div 64" 64] by (simp flip: div_mult2_eq)
  have f: "c div 4096 = c div 262144 * 64 + c div 4096 mod 64"
    using div_mult_mod_eq[of "c div 4096" 64] by (simp flip: div_mult2_eq)
  have g: "c = c div 64 * 64 + c mod 64" by simp
  consider "c < 128" | "128 \<le> c" "c < 2048" | "2048 \<le> c" "c < 65536" | "65536 \<le> c" by linarith
  then show ?thesis
  proof cases
    case 1
    then show ?thesis by (simp add: utf8_char_def utf8_next_def unat_lit)
  next
    case 2
    then have h: "2 \<le> c div 64" "c div 64 < 32" by auto
    show ?thesis using 2 d h next2[OF h d(2)] by (simp add: utf8_char_def unat_lit del: of_nat_add)
  next
    case 3
    then have h: "c div 4096 < 16" "c div 4096 = 0 \<longrightarrow> 32 \<le> c div 64 mod 64"
      "c div 4096 = 13 \<longrightarrow> c div 64 mod 64 < 32"
      using assms e g by (auto simp: scalar_def)
    have "c div 4096 * 4096 + c div 64 mod 64 * 64 + c mod 64 = c" using e g by linarith
    moreover have "utf8_char c = [of_nat (224 + c div 4096), of_nat (128 + c div 64 mod 64), of_nat (128 + c mod 64)]"
      using 3 by (simp add: utf8_char_def)
    ultimately show ?thesis using d h(1) next3[OF h(1) d(1,2) h(2,3)]
      by (simp add: unat_lit del: of_nat_add)
  next
    case 4
    then have h: "c div 262144 < 5" "c div 262144 = 0 \<longrightarrow> 16 \<le> c div 4096 mod 64"
      "c div 262144 = 4 \<longrightarrow> c div 4096 mod 64 < 16"
      using c e f g by linarith+
    have "c div 262144 * 262144 + c div 4096 mod 64 * 4096 + c div 64 mod 64 * 64 + c mod 64 = c"
      using e f g by linarith
    then show ?thesis using 4 d h(1) next4[OF h(1) d(3,1,2) h(2,3)]
      by (simp add: utf8_char_def unat_lit del: of_nat_add)
  qed
qed

lemma from_utf8_char:
  assumes "scalar c"
  shows "from_utf8 (utf8_char c @ bs) = map_option (Cons c) (from_utf8 bs)"
    "from_utf8_lossy (utf8_char c @ bs) = c # from_utf8_lossy bs"
proof -
  obtain a rest where u: "utf8_char c = a # rest"
    and n: "utf8_next (unat a) (map unat (rest @ bs)) = (Some c, Suc (length rest))"
    using scalar_next[OF assms] by blast
  show "from_utf8 (utf8_char c @ bs) = map_option (Cons c) (from_utf8 bs)"
    "from_utf8_lossy (utf8_char c @ bs) = c # from_utf8_lossy bs"
    using n by (simp_all add: u)
qed

lemma from_utf8_as_bytes [simp]: "list_all scalar s \<Longrightarrow> from_utf8 (as_bytes s) = Some s"
  by (induction s) (simp_all add: as_bytes_def from_utf8_char)

lemma lossy_as_bytes [simp]: "list_all scalar s \<Longrightarrow> from_utf8_lossy (as_bytes s) = s"
  by (induction s) (simp_all add: as_bytes_def from_utf8_char)

lemma as_bytes_simps [simp]:
  "as_bytes [] = []" "as_bytes (c # s) = utf8_char c @ as_bytes s" "as_bytes (s @ t) = as_bytes s @ as_bytes t"
  by (simp_all add: as_bytes_def)

text \<open>An ASCII byte in front is the character in front of the text.\<close>

lemma from_utf8_ascii:
  assumes "unat a < 128"
  shows "from_utf8 (a # bs) = map_option (Cons (unat a)) (from_utf8 bs)"
  using assms by (simp add: utf8_next_def)

lemma from_utf8_first:
  assumes "from_utf8 bs = Some (c # s)" "c < 128"
  shows "\<exists>b rest. bs = b # rest \<and> unat b = c \<and> from_utf8 rest = Some s"
proof (cases bs)
  case (Cons a rest)
  show ?thesis
  proof (cases "unat a < 128")
    case True
    show ?thesis using assms from_utf8_ascii[OF True, of rest] unfolding Cons
      by (cases "from_utf8 rest") (simp_all del: from_utf8.simps)
  next
    case False
    have "\<And>b l n. utf8_next (unat a) l = (Some b, n) \<Longrightarrow> 128 \<le> b"
      using False by (auto simp: utf8_next_def second_ok_def cont_ok_def split: list.splits if_splits)
    then show ?thesis using assms Cons by (fastforce split: prod.splits option.splits)
  qed
qed (use assms in simp)

end
