(* ===== verification/Git_Commands.thy ===== *)
theory Git_Commands
  imports Core_Errors Utf8
begin

text \<open>
  Model of \<open>la-core/src/worktree/git.rs\<close>: the git commands that the worktree manager and
  the diff engine issue, and how their failures are classified.  What git, the file
  system and other processes do is a parameter, the record \<open>Host\<close> of functions on a
  world of any type.  A \<open>Shell\<close> is that world together with the list of the git commands
  issued so far, newest last, which the code does not keep and which the properties
  speak of.
\<close>

section \<open>The surroundings\<close>

text \<open>What becomes of one git process.\<close>

datatype GitRun =
    GitMissing
  | GitSpawnError str
  | GitStdinError str
  | GitWaitError str
  | GitTimeout
  | GitExited bytes bytes "int option"

text \<open>What becomes of the post-create hook.\<close>

datatype HookRun = HookNotSpawned | HookEnded "int option" | HookWaitFailed | HookTimedOut

record 'w Host =
  ho_git :: "str \<Rightarrow> str list \<Rightarrow> bytes option \<Rightarrow> 'w \<Rightarrow> GitRun \<times> 'w"
  ho_exists :: "str \<Rightarrow> 'w \<Rightarrow> bool"
  ho_create_dir_all :: "str \<Rightarrow> 'w \<Rightarrow> str option \<times> 'w"
  ho_remove_dir_all :: "str \<Rightarrow> 'w \<Rightarrow> 'w"
  ho_remove_file :: "str \<Rightarrow> 'w \<Rightarrow> 'w"
  ho_file_len :: "str \<Rightarrow> 'w \<Rightarrow> nat option"
  ho_file_mode :: "str \<Rightarrow> 'w \<Rightarrow> nat option"
  ho_read :: "str \<Rightarrow> 'w \<Rightarrow> str + bytes"
  ho_hook :: "str \<Rightarrow> str \<Rightarrow> (str \<times> str) list \<Rightarrow> nat \<Rightarrow> 'w \<Rightarrow> HookRun \<times> 'w"
  ho_canonicalize :: "str \<Rightarrow> 'w \<Rightarrow> str option"
  ho_env_var :: "str \<Rightarrow> 'w \<Rightarrow> str option"
  ho_which :: "str \<Rightarrow> 'w \<Rightarrow> bool"
  ho_spawn :: "str list \<Rightarrow> 'w \<Rightarrow> (str + nat) \<times> 'w"

record GitCall =
  gc_repo :: str
  gc_args :: "str list"
  gc_stdin :: "bytes option"

record 'w Shell =
  sh_world :: 'w
  sh_calls :: "GitCall list"

section \<open>Texts\<close>

definition MAX_STDERR_BYTES :: nat where "MAX_STDERR_BYTES = 4 * 1024"

text \<open>The longest prefix of whole characters within so many bytes.\<close>

fun take_bytes :: "nat \<Rightarrow> str \<Rightarrow> str" where
  "take_bytes n [] = []"
| "take_bytes n (c # s) = (if utf8_width c \<le> n then c # take_bytes (n - utf8_width c) s else [])"

definition trim_stderr :: "str \<Rightarrow> str" where
  "trim_stderr stderr =
     (let trimmed = trim stderr in
      if str_len trimmed \<le> MAX_STDERR_BYTES then trimmed
      else take_bytes MAX_STDERR_BYTES trimmed @ [8230])"

definition stderr_means_busy :: "str \<Rightarrow> bool" where
  "stderr_means_busy stderr =
     (let s = ascii_lower stderr in
      contains s (lit ''is already checked out at'') \<or> contains s (lit ''index.lock''))"

definition stderr_means_already_gone :: "str \<Rightarrow> bool" where
  "stderr_means_already_gone stderr =
     (let s = ascii_lower stderr in
      contains s (lit ''is not a working tree'') \<or> contains s (lit ''not a working tree'')
      \<or> contains s (lit ''does not exist''))"

definition extract_quoted :: "str \<Rightarrow> str option" where
  "extract_quoted s =
     (case split_on 39 s of _ # inside # _ \<Rightarrow> if inside = [] then None else Some inside | _ \<Rightarrow> None)"

definition classify_add_error :: "str \<Rightarrow> CoreError" where
  "classify_add_error stderr =
     (let s = ascii_lower stderr in
      if contains s (lit ''not a git repository'') \<or> contains s (lit ''is not a working tree'')
         \<or> contains s (lit ''is outside repository'') then NotAGitRepo (trim_stderr stderr)
      else if contains s (lit ''already exists'') \<and> contains s (lit ''branch'')
      then BranchCollision (case extract_quoted stderr of Some b \<Rightarrow> b | None \<Rightarrow> lit ''<unknown>'')
      else if stderr_means_busy stderr then WorktreeBusy (trim_stderr stderr)
      else if contains s (lit ''permission denied'') \<or> contains s (lit ''no space left'')
         \<or> contains s (lit ''unable to create'') \<or> contains s (lit ''read-only file system'')
      then WorktreeIo (trim_stderr stderr)
      else WorktreeProvision (trim_stderr stderr))"

definition split_once :: "nat \<Rightarrow> str \<Rightarrow> (str \<times> str) option" where
  "split_once c s = (if c \<in> set s then Some (takeWhile ((\<noteq>) c) s, tl (dropWhile ((\<noteq>) c) s)) else None)"

definition short_branch_name :: "str \<Rightarrow> str" where
  "short_branch_name full_ref =
     (case strip_prefix (lit ''refs/heads/'') full_ref of Some rest \<Rightarrow> rest
      | None \<Rightarrow> (case strip_prefix (lit ''refs/remotes/'') full_ref of
            Some rest \<Rightarrow> (case split_once 47 rest of Some (_, branch) \<Rightarrow> branch | None \<Rightarrow> rest)
          | None \<Rightarrow> full_ref))"

subsection \<open>Hexadecimal digits\<close>

definition is_hex :: "nat \<Rightarrow> bool" where
  "is_hex c \<longleftrightarrow> is_digit c \<or> (65 \<le> c \<and> c \<le> 70) \<or> (97 \<le> c \<and> c \<le> 102)"

definition hex_digit :: "nat \<Rightarrow> nat" where "hex_digit n = (if n < 10 then 48 + n else 87 + n)"

text \<open>The format 02x.\<close>

definition hex2 :: "8 word \<Rightarrow> str" where "hex2 b = [hex_digit (unat b div 16), hex_digit (unat b mod 16)]"

lemma hex_digit_hex: "n < 16 \<Longrightarrow> is_hex (hex_digit n)"
  by (auto simp: is_hex_def is_digit_def hex_digit_def)

lemma hex2_hex: "list_all is_hex (hex2 b)"
proof -
  have "unat b div 16 < 16" using unsigned_less[of b, where 'a=nat] by simp
  then show ?thesis by (simp add: hex2_def hex_digit_hex)
qed

section \<open>Running git\<close>

record GitOutput =
  go_stdout :: str
  go_stderr :: str
  go_success :: bool
  go_stdout_bytes :: bytes
  go_exit_code :: "int option"

definition git_result :: "str list \<Rightarrow> GitRun \<Rightarrow> CoreError + GitOutput" where
  "git_result args run = (case run of
       GitMissing \<Rightarrow> Inl (GitUnavailable (lit ''the `git` binary was not found on $PATH''))
     | GitSpawnError e \<Rightarrow> Inl (WorktreeIo e)
     | GitStdinError e \<Rightarrow> Inl (WorktreeIo e)
     | GitWaitError e \<Rightarrow> Inl (WorktreeIo e)
     | GitTimeout \<Rightarrow> Inl (WorktreeProvision (lit ''git '' @ join (lit '' '') args @ lit '' timed out after 30s''))
     | GitExited out err code \<Rightarrow> Inr
         \<lparr> go_stdout = from_utf8_lossy out, go_stderr = from_utf8_lossy err, go_success = (code = Some 0),
           go_stdout_bytes = out, go_exit_code = code \<rparr>)"

definition run_git_with_stdin ::
    "'w Host \<Rightarrow> str \<Rightarrow> str list \<Rightarrow> bytes option \<Rightarrow> 'w Shell \<Rightarrow> (CoreError + GitOutput) \<times> 'w Shell" where
  "run_git_with_stdin H repo args stdin sh =
     (let (run, w) = ho_git H repo args stdin (sh_world sh)
      in (git_result args run, \<lparr> sh_world = w,
            sh_calls = sh_calls sh @ [\<lparr> gc_repo = repo, gc_args = args, gc_stdin = stdin \<rparr>] \<rparr>))"

definition run_git :: "'w Host \<Rightarrow> str \<Rightarrow> str list \<Rightarrow> 'w Shell \<Rightarrow> (CoreError + GitOutput) \<times> 'w Shell" where
  "run_git H repo args = run_git_with_stdin H repo args None"

text \<open>A command of which only the success matters.\<close>

definition provision_failed :: "GitOutput \<Rightarrow> CoreError" where
  "provision_failed out = WorktreeProvision (trim_stderr (go_stderr out))"

section \<open>The commands\<close>

definition head_ref :: "'w Host \<Rightarrow> str \<Rightarrow> GitOutput \<Rightarrow> 'w Shell \<Rightarrow> (CoreError + str) \<times> 'w Shell" where
  "head_ref H repo origin sh =
     (if go_success origin then (Inr (trim (go_stdout origin)), sh)
      else and_then (run_git H repo (map lit [''symbolic-ref'', ''HEAD'']) sh) (\<lambda>local sh.
        if go_success local then (Inr (trim (go_stdout local)), sh)
        else and_then (run_git H repo (map lit [''rev-parse'', ''--git-dir'']) sh) (\<lambda>probe sh.
          (Inl (if go_success probe then provision_failed local else NotAGitRepo repo), sh))))"

definition resolve_base_branch :: "'w Host \<Rightarrow> str \<Rightarrow> 'w Shell \<Rightarrow> (CoreError + str \<times> str) \<times> 'w Shell" where
  "resolve_base_branch H repo sh =
     and_then (run_git H repo (map lit [''symbolic-ref'', ''refs/remotes/origin/HEAD'']) sh) (\<lambda>origin sh.
     and_then (head_ref H repo origin sh) (\<lambda>full_ref sh.
     and_then (run_git H repo [lit ''rev-parse'', full_ref] sh) (\<lambda>sha sh.
       (if go_success sha then Inr (short_branch_name full_ref, trim (go_stdout sha))
        else Inl (provision_failed sha), sh))))"

definition worktree_add :: "'w Host \<Rightarrow> str \<Rightarrow> str \<Rightarrow> str \<Rightarrow> str \<Rightarrow> 'w Shell \<Rightarrow> (CoreError + unit) \<times> 'w Shell" where
  "worktree_add H repo wt_path branch base_sha sh =
     and_then (run_git H repo [lit ''worktree'', lit ''add'', wt_path, lit ''-b'', branch, base_sha] sh)
       (\<lambda>out sh. (if go_success out then Inr () else Inl (classify_add_error (go_stderr out)), sh))"

definition worktree_remove :: "'w Host \<Rightarrow> str \<Rightarrow> str \<Rightarrow> bool \<Rightarrow> 'w Shell \<Rightarrow> (CoreError + unit) \<times> 'w Shell" where
  "worktree_remove H repo wt_path force sh =
     and_then (run_git H repo
         (if force then [lit ''worktree'', lit ''remove'', lit ''--force'', wt_path]
          else [lit ''worktree'', lit ''remove'', wt_path]) sh)
       (\<lambda>out sh. (if go_success out then Inr ()
          else if stderr_means_already_gone (go_stderr out) then Inr ()
          else if stderr_means_busy (go_stderr out) then Inl (WorktreeBusy (trim_stderr (go_stderr out)))
          else Inl (provision_failed out), sh))"

definition delete_args :: "str \<Rightarrow> bool \<Rightarrow> str list" where
  "delete_args branch force = [lit ''branch'', if force then lit ''-D'' else lit ''-d'', branch]"

definition branch_delete :: "'w Host \<Rightarrow> str \<Rightarrow> str \<Rightarrow> bool \<Rightarrow> 'w Shell \<Rightarrow> (CoreError + unit) \<times> 'w Shell" where
  "branch_delete H repo branch force sh =
     and_then (run_git H repo (delete_args branch force) sh)
       (\<lambda>out sh. (if go_success out then Inr ()
          else if contains (go_stderr out) (lit ''not found'')
            \<or> contains (go_stderr out) (lit ''no branch named'')
            \<or> contains (go_stderr out) (lit ''not a valid'') then Inr ()
          else Inl (provision_failed out), sh))"

definition count_args :: "str \<Rightarrow> str \<Rightarrow> str list" where
  "count_args base branch = [lit ''rev-list'', lit ''--count'', base @ lit ''..'' @ branch]"

definition branch_has_commits_beyond ::
    "'w Host \<Rightarrow> str \<Rightarrow> str \<Rightarrow> str \<Rightarrow> 'w Shell \<Rightarrow> (CoreError + bool) \<times> 'w Shell" where
  "branch_has_commits_beyond H repo branch base_branch sh =
     and_then (run_git H repo (count_args base_branch branch) sh)
       (\<lambda>out sh. (if \<not> go_success out then Inl (provision_failed out)
          else Inr (case parse_uint u64_max (trim (go_stdout out)) of Some n \<Rightarrow> n > 0 | None \<Rightarrow> False), sh))"

definition worktree_prune :: "'w Host \<Rightarrow> str \<Rightarrow> 'w Shell \<Rightarrow> (CoreError + unit) \<times> 'w Shell" where
  "worktree_prune H repo sh =
     and_then (run_git H repo (map lit [''worktree'', ''prune'']) sh)
       (\<lambda>out sh. (if go_success out then Inr () else Inl (provision_failed out), sh))"

section \<open>Properties\<close>

lemma take_bytes_le: "str_len (take_bytes n s) \<le> n"
  by (induction n s rule: take_bytes.induct) (auto simp: str_len_def)

text \<open>The text of an error that is reported to a client has at most 4096 bytes, and
  three more for the mark that stands for what was cut off.\<close>

theorem trim_stderr_bounded: "str_len (trim_stderr stderr) \<le> MAX_STDERR_BYTES + 3"
  using take_bytes_le[of MAX_STDERR_BYTES "trim stderr"]
  by (simp add: trim_stderr_def Let_def str_len_def utf8_width_def)

lemma classify_provision [simp]: "provision_error (classify_add_error stderr)"
  by (simp add: classify_add_error_def Let_def)

lemma git_result_errors: "git_result args run = Inl e \<Longrightarrow> provision_error e"
  by (auto simp: git_result_def split: GitRun.splits)

lemma run_git_calls [simp]:
  "sh_calls (snd (run_git_with_stdin H repo args stdin sh))
    = sh_calls sh @ [\<lparr> gc_repo = repo, gc_args = args, gc_stdin = stdin \<rparr>]"
  by (simp add: run_git_with_stdin_def split_beta)

lemma and_then_pure [simp]: "snd (and_then p (\<lambda>a s. (g a, s))) = snd p"
  by (cases p; cases "fst p") auto

definition call :: "str \<Rightarrow> str list \<Rightarrow> GitCall" where
  "call repo args = \<lparr> gc_repo = repo, gc_args = args, gc_stdin = None \<rparr>"

definition remove_args :: "str \<Rightarrow> bool \<Rightarrow> str list" where
  "remove_args path force = (if force then [lit ''worktree'', lit ''remove'', lit ''--force'', path]
     else [lit ''worktree'', lit ''remove'', path])"

definition add_args :: "str \<Rightarrow> str \<Rightarrow> str \<Rightarrow> str list" where
  "add_args path branch sha = [lit ''worktree'', lit ''add'', path, lit ''-b'', branch, sha]"

lemma command_calls [simp]:
  "sh_calls (snd (run_git H repo args sh)) = sh_calls sh @ [call repo args]"
  "sh_calls (snd (worktree_add H repo path b sha sh)) = sh_calls sh @ [call repo (add_args path b sha)]"
  "sh_calls (snd (worktree_remove H repo path force sh)) = sh_calls sh @ [call repo (remove_args path force)]"
  "sh_calls (snd (branch_delete H repo b force sh)) = sh_calls sh @ [call repo (delete_args b force)]"
  "sh_calls (snd (branch_has_commits_beyond H repo b base sh)) = sh_calls sh @ [call repo (count_args base b)]"
  by (simp_all add: run_git_def call_def worktree_add_def worktree_remove_def branch_delete_def
      branch_has_commits_beyond_def remove_args_def add_args_def)

lemma args_differ [simp]:
  "remove_args p f \<noteq> delete_args b g" "delete_args b g \<noteq> remove_args p f"
  "count_args base c \<noteq> delete_args b g" "delete_args b g \<noteq> count_args base c"
  "remove_args p f \<noteq> count_args base c"
  by (simp_all add: remove_args_def delete_args_def count_args_def)

lemma run_git_errors: "run_git H repo args sh = (Inl e, sh') \<Longrightarrow> provision_error e"
  by (auto simp: run_git_def run_git_with_stdin_def split_beta dest: git_result_errors)

lemma command_errors:
  "fst (worktree_add H repo path b sha sh) = Inl e \<Longrightarrow> provision_error e"
  "fst (worktree_remove H repo path force sh) = Inl e \<Longrightarrow> provision_error e"
  "fst (branch_delete H repo b force sh) = Inl e \<Longrightarrow> provision_error e"
  by (auto simp: worktree_add_def worktree_remove_def branch_delete_def and_then_def provision_failed_def
      split: prod.splits sum.splits if_splits dest: run_git_errors)

section \<open>Relations between shells\<close>

text \<open>A relation that every command and every effect on files respects.\<close>

locale shell_evolution =
  fixes R :: "'w Shell \<Rightarrow> 'w Shell \<Rightarrow> bool"
  assumes refl: "R sh sh"
    and trans: "R sh sh' \<Longrightarrow> R sh' sh'' \<Longrightarrow> R sh sh''"
    and git: "R sh (snd (run_git_with_stdin H repo args stdin sh))"
    and world: "R sh (sh\<lparr> sh_world := w \<rparr>)"
begin

lemma run: "R sh (snd (run_git H repo args sh))"
  by (simp add: run_git_def git)

lemma and_then:
  assumes "R sh (snd p)" "\<And>a t. p = (Inr a, t) \<Longrightarrow> R t (snd (k a t))"
  shows "R sh (snd (and_then p k))"
  using assms by (cases p; cases "fst p") (auto intro: trans)

end

interpretation calls_grow: shell_evolution "\<lambda>sh sh'. prefix (sh_calls sh) (sh_calls sh')"
  by unfold_locales (auto intro: prefix_order.trans)

end
