(* ===== verification/Worktrees.thy ===== *)
theory Worktrees
  imports Git_Commands Session_Store
begin

text \<open>
  Model of \<open>la-core/src/worktree/manager.rs\<close>: where the worktree of a session lies, how it
  is created and rolled back, the post-create hook, and the two ways it is torn down, by
  the archiving of a session and by the sweep of expired worktrees.  The sweep works on
  the session rows of \<open>Session_Store\<close>.  SHA-256 is a parameter.
\<close>

section \<open>Paths\<close>

text \<open>Path::join and Path::parent, for paths without dot segments.\<close>

definition path_join :: "str \<Rightarrow> str \<Rightarrow> str" where
  "path_join a b = (if b \<noteq> [] \<and> hd b = 47 then b else if a = [] \<or> last a = 47 then a @ b else a @ 47 # b)"

definition path_parent :: "str \<Rightarrow> str option" where
  "path_parent p = (let q = trim_end_char 47 p in
     if q = [] then None
     else let d = rev (dropWhile ((\<noteq>) 47) (rev q)); e = trim_end_char 47 d
       in Some (if e = [] \<and> d \<noteq> [] then [47] else e))"

text \<open>Path::file_name.\<close>

definition path_file_name :: "str \<Rightarrow> str option" where
  "path_file_name p =
     (let cs = filter (\<lambda>c. c \<noteq> [] \<and> c \<noteq> lit ''.'') (split_on 47 p)
      in if cs = [] \<or> last cs = lit ''..'' then None else Some (last cs))"

section \<open>Data\<close>

definition POST_CREATE_HOOK_TIMEOUT :: nat where "POST_CREATE_HOOK_TIMEOUT = 60 * 10 ^ 9"

definition HOOK_RELATIVE_PATH :: str where "HOOK_RELATIVE_PATH = lit ''.lazyagents/hooks/post-create.sh''"

datatype HookStatus = HookOk | HookFailed | HookTimeout | HookSkipped

fun hook_status_str :: "HookStatus \<Rightarrow> str" where
  "hook_status_str HookOk = lit ''ok''"
| "hook_status_str HookFailed = lit ''failed''"
| "hook_status_str HookTimeout = lit ''timeout''"
| "hook_status_str HookSkipped = lit ''skipped''"

datatype CleanupMode = KeepBranchIfDirty | Remove | Force

record WorktreePlan =
  pl_path :: str
  pl_branch :: str
  pl_base_branch :: str
  pl_base_sha :: str

record WorktreeHandle =
  wh_repo_root :: str
  wh_worktree_path :: str
  wh_branch :: str
  wh_base_branch :: str

record WorktreeManager =
  wm_root :: str
  wm_hook_timeout :: nat

definition for_state_dir :: "str \<Rightarrow> WorktreeManager" where
  "for_state_dir state_dir =
     \<lparr> wm_root = path_join state_dir (lit ''worktrees''), wm_hook_timeout = POST_CREATE_HOOK_TIMEOUT \<rparr>"

definition path_for :: "WorktreeManager \<Rightarrow> str \<Rightarrow> str \<Rightarrow> str" where
  "path_for m slug sid = path_join (path_join (wm_root m) slug) sid"

definition short_sid :: "str \<Rightarrow> str" where "short_sid sid = take 16 (filter is_hex sid)"

definition branch_name_for :: "str \<Rightarrow> str" where "branch_name_for sid = lit ''la/session-'' @ sid"

definition slug_char :: "nat \<Rightarrow> bool" where
  "slug_char c \<longleftrightarrow> is_digit c \<or> (65 \<le> c \<and> c \<le> 90) \<or> (97 \<le> c \<and> c \<le> 122) \<or> c = 95 \<or> c = 46 \<or> c = 45"

definition project_slug :: "(bytes \<Rightarrow> bytes) \<Rightarrow> 'w Host \<Rightarrow> str \<Rightarrow> 'w \<Rightarrow> str" where
  "project_slug sha256 H repo_root w =
     (let p = (case ho_canonicalize H repo_root w of Some p \<Rightarrow> p | None \<Rightarrow> repo_root);
          basename = (case path_file_name p of Some b \<Rightarrow> b | None \<Rightarrow> lit ''repo'');
          mapped = map (\<lambda>c. if slug_char c then c else 95) basename;
          cleaned = (if mapped = [] then lit ''repo'' else mapped)
      in cleaned @ 45 # concat (map hex2 (take 4 (sha256 (as_bytes p)))))"

section \<open>Creation\<close>

definition rollback :: "'w Host \<Rightarrow> str \<Rightarrow> str \<Rightarrow> str \<Rightarrow> 'w Shell \<Rightarrow> 'w Shell" where
  "rollback H repo_root path branch sh =
     (let sh1 = snd (worktree_remove H repo_root path True sh);
          sh2 = snd (branch_delete H repo_root branch True sh1)
      in if ho_exists H path (sh_world sh2) then sh2\<lparr> sh_world := ho_remove_dir_all H path (sh_world sh2) \<rparr> else sh2)"

definition create_parent :: "'w Host \<Rightarrow> str \<Rightarrow> 'w Shell \<Rightarrow> (CoreError + unit) \<times> 'w Shell" where
  "create_parent H path sh = (case path_parent path of
       None \<Rightarrow> (Inr (), sh)
     | Some parent \<Rightarrow> (case ho_create_dir_all H parent (sh_world sh) of
         (e, w) \<Rightarrow> (case e of Some e \<Rightarrow> Inl (WorktreeIo e) | None \<Rightarrow> Inr (), sh\<lparr> sh_world := w \<rparr>)))"

definition create :: "'w Host \<Rightarrow> WorktreeManager \<Rightarrow> str \<Rightarrow> str \<Rightarrow> str \<Rightarrow> str \<times> str \<Rightarrow> 'w Shell
    \<Rightarrow> (CoreError + WorktreePlan) \<times> 'w Shell" where
  "create H m repo_root slug sid base sh =
     (let short = short_sid sid; path = path_for m slug short; branch = branch_name_for short
      in and_then (create_parent H path sh) (\<lambda>_ sh.
        if ho_exists H path (sh_world sh)
        then (Inl (WorktreeBusy (lit ''worktree path already exists: '' @ path)), sh)
        else case worktree_add H repo_root path branch (snd base) sh of
            (Inr _, sh) \<Rightarrow> (Inr \<lparr> pl_path = path, pl_branch = branch, pl_base_branch = fst base, pl_base_sha = snd base \<rparr>, sh)
          | (Inl e, sh) \<Rightarrow> (Inl e, rollback H repo_root path branch sh)))"

section \<open>The hook\<close>

text \<open>A regular file with an execute bit.\<close>

definition hook_is_runnable :: "'w Host \<Rightarrow> str \<Rightarrow> 'w \<Rightarrow> bool" where
  "hook_is_runnable H path w = (case ho_file_mode H path w of
       None \<Rightarrow> False
     | Some mode \<Rightarrow> odd mode \<or> odd (mode div 8) \<or> odd (mode div 64))"

definition hook_env :: "WorktreePlan \<Rightarrow> str \<Rightarrow> str \<Rightarrow> str \<Rightarrow> (str \<times> str) list" where
  "hook_env plan adapter_kind sid repo_root =
     [(lit ''LA_SESSION_ID'', sid), (lit ''LA_ADAPTER_KIND'', adapter_kind), (lit ''LA_BRANCH'', pl_branch plan),
      (lit ''LA_BASE_BRANCH'', pl_base_branch plan), (lit ''LA_BASE_SHA'', pl_base_sha plan),
      (lit ''LA_PROJECT_ROOT'', repo_root), (lit ''LA_WORKTREE_PATH'', pl_path plan)]"

definition run_hook :: "'w Host \<Rightarrow> str \<Rightarrow> nat \<Rightarrow> str \<Rightarrow> (str \<times> str) list \<Rightarrow> 'w \<Rightarrow> HookStatus \<times> 'w" where
  "run_hook H path timeout cwd env w = (case ho_hook H path cwd env timeout w of (run, w) \<Rightarrow>
     (case run of
        HookEnded c \<Rightarrow> if c = Some 0 then HookOk else HookFailed
      | HookTimedOut \<Rightarrow> HookTimeout
      | _ \<Rightarrow> HookFailed, w))"

definition run_post_create_hook ::
    "'w Host \<Rightarrow> WorktreeManager \<Rightarrow> str \<Rightarrow> WorktreePlan \<Rightarrow> str \<Rightarrow> str \<Rightarrow> 'w \<Rightarrow> HookStatus \<times> 'w" where
  "run_post_create_hook H m repo_root plan adapter_kind sid w =
     (let hook_path = path_join repo_root HOOK_RELATIVE_PATH in
      if \<not> hook_is_runnable H hook_path w then (HookSkipped, w)
      else run_hook H hook_path (wm_hook_timeout m) (pl_path plan) (hook_env plan adapter_kind sid repo_root) w)"

section \<open>Removal\<close>

definition remove_retry :: "'w Host \<Rightarrow> WorktreeHandle \<Rightarrow> bool \<Rightarrow> 'w Shell \<Rightarrow> (CoreError + unit) \<times> 'w Shell" where
  "remove_retry H h force sh =
     (case worktree_remove H (wh_repo_root h) (wh_worktree_path h) force sh of
        (Inl (WorktreeBusy e), sh) \<Rightarrow>
          if force then (Inl (WorktreeBusy e), sh)
          else worktree_remove H (wh_repo_root h) (wh_worktree_path h) True sh
      | other \<Rightarrow> other)"

definition keep_branch :: "'w Host \<Rightarrow> WorktreeHandle \<Rightarrow> CleanupMode \<Rightarrow> 'w Shell \<Rightarrow> bool \<times> 'w Shell" where
  "keep_branch H h mode sh = (case mode of
       KeepBranchIfDirty \<Rightarrow>
         (case branch_has_commits_beyond H (wh_repo_root h) (wh_branch h) (wh_base_branch h) sh of
            (Inr has_extra, sh) \<Rightarrow> (has_extra, sh)
          | (Inl e, sh) \<Rightarrow> (True, sh))
     | Remove \<Rightarrow> (False, sh)
     | Force \<Rightarrow> (False, sh))"

definition cleanup :: "'w Host \<Rightarrow> WorktreeHandle \<Rightarrow> CleanupMode \<Rightarrow> 'w Shell \<Rightarrow> (CoreError + bool) \<times> 'w Shell" where
  "cleanup H h mode sh =
     and_then (remove_retry H h (mode = Force) sh) (\<lambda>_ sh.
       let sh1 = (if ho_exists H (wh_worktree_path h) (sh_world sh)
                  then sh\<lparr> sh_world := ho_remove_dir_all H (wh_worktree_path h) (sh_world sh) \<rparr> else sh)
       in case keep_branch H h mode sh1 of (keep, sh) \<Rightarrow>
         if keep then (Inr True, sh)
         else and_then (branch_delete H (wh_repo_root h) (wh_branch h) True sh) (\<lambda>_ sh. (Inr False, sh)))"

definition prune_orphans :: "'w Host \<Rightarrow> str \<Rightarrow> 'w Shell \<Rightarrow> 'w Shell" where
  "prune_orphans H repo_root sh = snd (worktree_prune H repo_root sh)"

definition handle_from_row :: "str \<Rightarrow> str \<Rightarrow> str \<Rightarrow> str \<Rightarrow> WorktreeHandle" where
  "handle_from_row repo_root path branch base_branch =
     \<lparr> wh_repo_root = repo_root, wh_worktree_path = path, wh_branch = branch, wh_base_branch = base_branch \<rparr>"

subsection \<open>The sweep\<close>

datatype Swept = SweptOk | SweptErr | SweptSkipped

definition sweep_row :: "'w Host \<Rightarrow> Session \<Rightarrow> Store \<times> 'w Shell \<Rightarrow> Swept \<times> Store \<times> 'w Shell" where
  "sweep_row H row = (\<lambda>(s, sh).
     case (se_worktree_path row, se_worktree_branch row, se_base_branch row) of
       (Some path, Some branch, Some base) \<Rightarrow>
         (case project_get (se_project_id row) s of
            (Inr (Some p), s) \<Rightarrow>
              (case cleanup H (handle_from_row (pj_root_path p) path branch base) Force sh of
                 (Inr _, sh) \<Rightarrow> (SweptOk, snd (session_clear_worktree (se_id row) False s), sh)
               | (Inl e, sh) \<Rightarrow> (SweptErr, s, sh))
          | (_, s) \<Rightarrow> (SweptSkipped, snd (session_clear_worktree (se_id row) False s), sh))
     | _ \<Rightarrow> (SweptSkipped, snd (session_clear_worktree (se_id row) False s), sh))"

fun sweep_rows :: "'w Host \<Rightarrow> Session list \<Rightarrow> nat \<times> nat \<Rightarrow> Store \<times> 'w Shell \<Rightarrow> (nat \<times> nat) \<times> Store \<times> 'w Shell" where
  "sweep_rows H [] n st = (n, st)"
| "sweep_rows H (row # rows) (good, bad) st =
     (case sweep_row H row st of (r, st) \<Rightarrow>
        sweep_rows H rows (if r = SweptOk then good + 1 else good, if r = SweptErr then bad + 1 else bad) st)"

definition sweep_expired ::
    "(int \<Rightarrow> str \<Rightarrow> str) \<Rightarrow> 'w Host \<Rightarrow> nat \<Rightarrow> Store \<times> 'w Shell \<Rightarrow> (nat \<times> nat) \<times> Store \<times> 'w Shell" where
  "sweep_expired seconds_before H ttl = (\<lambda>(s, sh).
     case session_list_expired_worktrees seconds_before (int (min (ttl div 10 ^ 9) (2 ^ 63 - 1))) s of
       (Inl e, s) \<Rightarrow> ((0, 0), s, sh)
     | (Inr rows, s) \<Rightarrow> sweep_rows H rows (0, 0) (s, sh))"

section \<open>Properties\<close>

subsection \<open>Names\<close>

text \<open>The directory of a project is named by characters that need no quoting, with eight
  hexadecimal digits at the end: it is one path component, never the parent or the current
  directory, so that the worktrees of a project lie below the root of the manager.\<close>

theorem project_slug_shape:
  assumes len: "\<And>bs. length (sha256 bs) = 32"
  shows "\<exists>name digits. project_slug sha256 H repo_root w = name @ 45 # digits
    \<and> name \<noteq> [] \<and> list_all slug_char name \<and> length digits = 8 \<and> list_all is_hex digits
    \<and> path_file_name (project_slug sha256 H repo_root w) = Some (project_slug sha256 H repo_root w)"
proof -
  define name where "name = (let p = (case ho_canonicalize H repo_root w of Some p \<Rightarrow> p | None \<Rightarrow> repo_root);
      basename = (case path_file_name p of Some b \<Rightarrow> b | None \<Rightarrow> lit ''repo'');
      mapped = map (\<lambda>c. if slug_char c then c else 95) basename
    in if mapped = [] then lit ''repo'' else mapped)"
  define bs where "bs = sha256 (as_bytes (case ho_canonicalize H repo_root w of Some p \<Rightarrow> p | None \<Rightarrow> repo_root))"
  define digits where "digits = concat (map hex2 (take 4 bs))"
  have slug: "project_slug sha256 H repo_root w = name @ 45 # digits"
    by (simp add: project_slug_def name_def digits_def bs_def Let_def)
  have name: "name \<noteq> []" "list_all slug_char name"
    by (auto simp: name_def Let_def list_all_iff slug_char_def is_digit_def lit_def)
  obtain b1 b2 b3 b4 where "take 4 bs = [b1, b2, b3, b4]"
    using len[of "as_bytes (case ho_canonicalize H repo_root w of Some p \<Rightarrow> p | None \<Rightarrow> repo_root)"]
    by (auto simp: bs_def[symmetric] numeral_eq_Suc length_Suc_conv)
  then have digits: "length digits = 8" "list_all is_hex digits"
    using hex2_hex by (auto simp: digits_def) (simp_all add: hex2_def)
  have "47 \<notin> set (name @ 45 # digits)"
    using name digits by (auto simp: list_all_iff slug_char_def is_hex_def is_digit_def)
  moreover have "length (name @ 45 # digits) > 2" using digits by simp
  then have "name @ 45 # digits \<noteq> lit ''.''" "name @ 45 # digits \<noteq> lit ''..''"
    by (auto simp: lit_def dest: arg_cong[of _ _ length])
  ultimately have "path_file_name (name @ 45 # digits) = Some (name @ 45 # digits)"
    by (simp add: path_file_name_def split_on_no_sep)
  then show ?thesis using slug name digits by (intro exI[of _ name] exI[of _ digits]) simp
qed

text \<open>Every status is one that the sessions table admits.\<close>

lemma hook_status_storable: "hook_status_str h \<in> set hook_statuses"
  by (cases h) (simp_all add: hook_statuses_def)

subsection \<open>Creation\<close>

text \<open>Whatever git and the file system do, a creation that fails reports one of the
  codes from -33119 to -33110 that clients know for worktrees.\<close>

theorem create_error_codes:
  assumes "fst (create H m repo_root slug sid base sh) = Inl e"
  shows "-33119 \<le> rpc_code (kind e) \<and> rpc_code (kind e) \<le> -33110"
proof -
  have "provision_error e"
    using assms command_errors(1)[of H repo_root]
    by (auto simp: create_def create_parent_def Let_def and_then_def split: prod.splits sum.splits if_splits option.splits)
       (metis fst_conv)+
  then show ?thesis by (simp add: provision_error_def)
qed

lemma create_parent_calls: "create_parent H path sh = (r, sh') \<Longrightarrow> sh_calls sh' = sh_calls sh"
  by (auto simp: create_parent_def split: option.splits prod.splits)

lemma rollback_calls:
  "sh_calls (rollback H repo path b sh)
    = sh_calls sh @ [call repo (remove_args path True), call repo (delete_args b True)]"
  by (simp add: rollback_def Let_def)

text \<open>A creation that fails because its branch exists already, which the documentation
  takes for damaged state, goes on to remove the worktree path by force and to delete that
  branch, with whatever commits it carries: the rollback does not tell a branch that this
  call has created from one that was there before.\<close>

theorem collision_deletes_existing_branch:
  assumes "fst (create H m repo_root slug sid base sh) = Inl (BranchCollision b)"
  shows "sh_calls (snd (create H m repo_root slug sid base sh)) = sh_calls sh @
    [call repo_root (add_args (path_for m slug (short_sid sid)) (branch_name_for (short_sid sid)) (snd base)),
     call repo_root (remove_args (path_for m slug (short_sid sid)) True),
     call repo_root (delete_args (branch_name_for (short_sid sid)) True)]"
proof -
  let ?path = "path_for m slug (short_sid sid)" and ?branch = "branch_name_for (short_sid sid)"
  obtain r1 sh1 where p: "create_parent H ?path sh = (r1, sh1)" by force
  obtain r2 sh2 where a: "worktree_add H repo_root ?path ?branch (snd base) sh1 = (r2, sh2)" by force
  have "sh_calls sh2 = sh_calls sh1 @ [call repo_root (add_args ?path ?branch (snd base))]"
    using command_calls(2)[of H repo_root ?path ?branch "snd base" sh1] by (simp add: a)
  moreover have "r1 = Inr ()"
    using assms p by (cases r1) (auto simp: create_def Let_def create_parent_def split: option.splits prod.splits)
  moreover have "\<not> ho_exists H ?path (sh_world sh1)" "r2 = Inl (BranchCollision b)"
    using assms by (auto simp: create_def Let_def p a calculation(2) split: sum.splits if_splits)
  ultimately show ?thesis
    by (simp add: create_def Let_def p a rollback_calls create_parent_calls[OF p])
qed

subsection \<open>Removal\<close>

lemma remove_retry_calls:
  "\<exists>cs. sh_calls (snd (remove_retry H h force sh)) = sh_calls sh @ cs
    \<and> (\<forall>c\<in>set cs. \<exists>f. c = call (wh_repo_root h) (remove_args (wh_worktree_path h) f))"
proof -
  obtain r sh1 where w: "worktree_remove H (wh_repo_root h) (wh_worktree_path h) force sh = (r, sh1)" by force
  have c1: "sh_calls sh1 = sh_calls sh @ [call (wh_repo_root h) (remove_args (wh_worktree_path h) force)]"
    using command_calls(3)[of H "wh_repo_root h" "wh_worktree_path h" force sh] by (simp add: w)
  show ?thesis
  proof (cases "(\<exists>e. r = Inl (WorktreeBusy e)) \<and> \<not> force")
    case True
    then have "remove_retry H h force sh = worktree_remove H (wh_repo_root h) (wh_worktree_path h) True sh1"
      unfolding remove_retry_def w by auto
    then show ?thesis using c1 by auto
  next
    case False
    then have "remove_retry H h force sh = (r, sh1)"
      unfolding remove_retry_def w by (auto split: sum.splits CoreError.splits)
    then show ?thesis using c1 by auto
  qed
qed

text \<open>A reply to the question after commits beyond the base that leaves room for some.\<close>

definition may_be_ahead :: "GitRun \<Rightarrow> bool" where
  "may_be_ahead run \<longleftrightarrow> (case git_result [] run of
       Inl _ \<Rightarrow> True
     | Inr out \<Rightarrow> \<not> go_success out \<or> (\<exists>n. parse_uint u64_max (trim (go_stdout out)) = Some n \<and> n > 0))"

lemma keep_branch_ahead:
  assumes "\<And>w. may_be_ahead (fst (ho_git H (wh_repo_root h) (count_args (wh_base_branch h) (wh_branch h)) None w))"
  shows "fst (keep_branch H h KeepBranchIfDirty sh)"
  using assms[of "sh_world sh"]
  by (auto simp: keep_branch_def branch_has_commits_beyond_def run_git_def run_git_with_stdin_def may_be_ahead_def
      git_result_def and_then_def split: prod.splits sum.splits GitRun.splits option.splits if_splits)

lemma keep_branch_calls:
  "sh_calls (snd (keep_branch H h mode sh))
    = sh_calls sh @ (if mode = KeepBranchIfDirty
        then [call (wh_repo_root h) (count_args (wh_base_branch h) (wh_branch h))] else [])"
proof -
  obtain r sh1 where "branch_has_commits_beyond H (wh_repo_root h) (wh_branch h) (wh_base_branch h) sh = (r, sh1)" by force
  then show ?thesis
    using command_calls(5)[of H "wh_repo_root h" "wh_branch h" "wh_base_branch h" sh]
    by (cases mode; cases r) (auto simp: keep_branch_def)
qed

text \<open>C20. The clean-up that archiving asks for never deletes a branch of which git says that
  it has commits beyond its base, or of which git fails to say how many it has, whatever
  else git and the file system answer.\<close>

theorem cleanup_keeps_unmerged_branch:
  assumes "\<And>w. may_be_ahead (fst (ho_git H (wh_repo_root h) (count_args (wh_base_branch h) (wh_branch h)) None w))"
  shows "\<exists>cs. sh_calls (snd (cleanup H h KeepBranchIfDirty sh)) = sh_calls sh @ cs
    \<and> (\<forall>c\<in>set cs. \<forall>b force. gc_args c \<noteq> delete_args b force)
    \<and> fst (cleanup H h KeepBranchIfDirty sh) \<noteq> Inr False"
proof -
  obtain r sh1 where m: "remove_retry H h False sh = (r, sh1)" by force
  obtain cs where cs: "sh_calls sh1 = sh_calls sh @ cs"
    "\<forall>c\<in>set cs. \<exists>f. c = call (wh_repo_root h) (remove_args (wh_worktree_path h) f)"
    using remove_retry_calls[of H h False sh] by (auto simp: m)
  let ?sh2 = "if ho_exists H (wh_worktree_path h) (sh_world sh1)
    then sh1\<lparr> sh_world := ho_remove_dir_all H (wh_worktree_path h) (sh_world sh1) \<rparr> else sh1"
  obtain keep sh3 where k: "keep_branch H h KeepBranchIfDirty ?sh2 = (keep, sh3)" by force
  have keep: "keep" using keep_branch_ahead[OF assms, of ?sh2] by (simp add: k)
  have "sh_calls sh3 = sh_calls sh @ cs @ [call (wh_repo_root h) (count_args (wh_base_branch h) (wh_branch h))]"
    using keep_branch_calls[of H h KeepBranchIfDirty ?sh2] cs(1) unfolding k by (simp split: if_splits)
  then have "\<exists>ds. sh_calls (snd (cleanup H h KeepBranchIfDirty sh)) = sh_calls sh @ ds
      \<and> set ds \<subseteq> insert (call (wh_repo_root h) (count_args (wh_base_branch h) (wh_branch h))) (set cs)
      \<and> fst (cleanup H h KeepBranchIfDirty sh) \<noteq> Inr False"
    using keep cs(1) by (cases r) (auto simp: cleanup_def m Let_def k)
  then show ?thesis using cs(2) by (fastforce simp: call_def)
qed

subsection \<open>The sweep\<close>

lemma cleanup_force_calls:
  "\<exists>cs. sh_calls (snd (cleanup H h Force sh)) = sh_calls sh @ cs \<and> (\<forall>c\<in>set cs. \<forall>base b. gc_args c \<noteq> count_args base b)"
proof -
  obtain r sh1 where m: "remove_retry H h True sh = (r, sh1)" by force
  obtain cs where cs: "sh_calls sh1 = sh_calls sh @ cs"
    "\<forall>c\<in>set cs. \<exists>f. c = call (wh_repo_root h) (remove_args (wh_worktree_path h) f)"
    using remove_retry_calls[of H h True sh] by (auto simp: m)
  show ?thesis
  proof (cases r)
    case Inl
    then show ?thesis using cs by (intro exI[of _ cs]) (auto simp: cleanup_def m call_def)
  next
    case Inr
    then have "sh_calls (snd (cleanup H h Force sh)) = sh_calls sh @ cs @ [call (wh_repo_root h) (delete_args (wh_branch h) True)]"
      using cs(1) by (simp add: cleanup_def m Let_def keep_branch_def)
    then show ?thesis using cs(2)
      by (intro exI[of _ "cs @ [call (wh_repo_root h) (delete_args (wh_branch h) True)]"]) (auto simp: call_def)
  qed
qed

lemma clear_worktree_frame:
  assumes "db_io (st_db s) = []"
  shows "db_io (st_db (snd (session_clear_worktree k keep s))) = []"
    "st_projects (snd (session_clear_worktree k keep s)) = st_projects s"
  using assms by (simp_all add: session_clear_worktree_def session_update_def split_beta)

lemma calm_get: "db_io (st_db s) = [] \<Longrightarrow> project_get k s = (Inr (map_of (st_projects s) k), s)"
  by (simp add: project_get_def)

lemma sweep_row_cases:
  assumes "db_io (st_db s) = []"
  shows "snd (sweep_row H row (s, sh)) = (snd (session_clear_worktree (se_id row) False s), sh)
    \<or> (\<exists>h s'. s' \<in> {s, snd (session_clear_worktree (se_id row) False s)}
         \<and> snd (sweep_row H row (s, sh)) = (s', snd (cleanup H h Force sh)))"
proof (cases "\<exists>path b base p. se_worktree_path row = Some path \<and> se_worktree_branch row = Some b
    \<and> se_base_branch row = Some base \<and> map_of (st_projects s) (se_project_id row) = Some p")
  case True
  then obtain path b base p where row: "se_worktree_path row = Some path" "se_worktree_branch row = Some b"
    "se_base_branch row = Some base" "map_of (st_projects s) (se_project_id row) = Some p" by blast
  obtain r sh1 where c: "cleanup H (handle_from_row (pj_root_path p) path b base) Force sh = (r, sh1)" by force
  show ?thesis
    using row by (intro disjI2 exI[of _ "handle_from_row (pj_root_path p) path b base"])
      (cases r; simp add: sweep_row_def calm_get[OF assms] c)
next
  case False
  then have "snd (sweep_row H row (s, sh)) = (snd (session_clear_worktree (se_id row) False s), sh)"
    by (cases "se_worktree_path row"; cases "se_worktree_branch row"; cases "se_base_branch row";
        cases "map_of (st_projects s) (se_project_id row)") (simp_all add: sweep_row_def calm_get[OF assms])
  then show ?thesis by blast
qed

lemma sweep_row_frame:
  assumes "db_io (st_db s) = []" "sweep_row H row (s, sh) = (r, s', sh')"
  shows "db_io (st_db s') = []" "st_projects s' = st_projects s"
    "\<exists>cs. sh_calls sh' = sh_calls sh @ cs \<and> (\<forall>c\<in>set cs. \<forall>base b. gc_args c \<noteq> count_args base b)"
  using sweep_row_cases[OF assms(1), of H row sh] clear_worktree_frame[OF assms(1)] assms(1) cleanup_force_calls[of H _ sh]
  unfolding assms(2) by auto

text \<open>A git that removes every worktree it is told to remove by force.\<close>

definition removes_by_force :: "'w Host \<Rightarrow> bool" where
  "removes_by_force H \<longleftrightarrow>
     (\<forall>repo path w. \<exists>out err. fst (ho_git H repo (remove_args path True) None w) = GitExited out err (Some 0))"

lemma sweep_row_deletes:
  assumes "db_io (st_db s) = []" "removes_by_force H" "sweep_row H row (s, sh) = (r, s', sh')"
    and "se_worktree_path row = Some path" "se_worktree_branch row = Some b" "se_base_branch row = Some base"
    and "map_of (st_projects s) (se_project_id row) = Some p"
  shows "\<exists>cs. sh_calls sh' = sh_calls sh @ cs @ [call (pj_root_path p) (delete_args b True)]"
proof -
  let ?h = "handle_from_row (pj_root_path p) path b base"
  obtain out err where "fst (ho_git H (pj_root_path p) (remove_args path True) None (sh_world sh)) = GitExited out err (Some 0)"
    using assms(2) unfolding removes_by_force_def by blast
  then have "fst (remove_retry H ?h True sh) = Inr ()"
    by (auto simp: remove_retry_def worktree_remove_def run_git_def run_git_with_stdin_def split_beta git_result_def
        handle_from_row_def remove_args_def)
  moreover obtain r1 sh1 where m: "remove_retry H ?h True sh = (r1, sh1)" by force
  ultimately have "r1 = Inr ()" by simp
  obtain cs where cs: "sh_calls sh1 = sh_calls sh @ cs"
    using remove_retry_calls[of H ?h True sh] by (auto simp: m)
  obtain r2 sh2 where c: "cleanup H ?h Force sh = (r2, sh2)" by force
  have "sh_calls (snd (cleanup H ?h Force sh)) = sh_calls sh1 @ [call (pj_root_path p) (delete_args b True)]"
    using m \<open>r1 = Inr ()\<close> by (simp add: cleanup_def Let_def keep_branch_def) (simp add: handle_from_row_def)
  moreover have "sh' = sh2"
    using assms(3-7) by (cases r2) (auto simp: sweep_row_def calm_get[OF assms(1)] c)
  ultimately show ?thesis using cs by (simp add: c)
qed

lemma sweep_rows_calls:
  assumes "db_io (st_db s) = []" "removes_by_force H"
  shows "\<exists>cs. sh_calls (snd (snd (sweep_rows H rows n (s, sh)))) = sh_calls sh @ cs
      \<and> (\<forall>c\<in>set cs. \<forall>base b. gc_args c \<noteq> count_args base b)
      \<and> (\<forall>row\<in>set rows. \<forall>path b base p. se_worktree_path row = Some path
           \<longrightarrow> se_worktree_branch row = Some b \<longrightarrow> se_base_branch row = Some base
           \<longrightarrow> map_of (st_projects s) (se_project_id row) = Some p
           \<longrightarrow> call (pj_root_path p) (delete_args b True) \<in> set cs)"
  using assms(1)
proof (induction rows arbitrary: n s sh)
  case (Cons row rows)
  obtain r s1 sh1 where r: "sweep_row H row (s, sh) = (r, s1, sh1)" by (cases "sweep_row H row (s, sh)") auto
  note frame = sweep_row_frame[OF Cons.prems r]
  obtain cs1 where cs1: "sh_calls sh1 = sh_calls sh @ cs1" "\<forall>c\<in>set cs1. \<forall>base b. gc_args c \<noteq> count_args base b"
    using frame(3) by blast
  obtain n1 where n1: "sweep_rows H (row # rows) n (s, sh) = sweep_rows H rows n1 (s1, sh1)"
    by (cases n) (auto simp: r)
  obtain cs2 where cs2: "sh_calls (snd (snd (sweep_rows H rows n1 (s1, sh1)))) = sh_calls sh1 @ cs2"
    "\<forall>c\<in>set cs2. \<forall>base b. gc_args c \<noteq> count_args base b"
    "\<forall>row\<in>set rows. \<forall>path b base p. se_worktree_path row = Some path
         \<longrightarrow> se_worktree_branch row = Some b \<longrightarrow> se_base_branch row = Some base
         \<longrightarrow> map_of (st_projects s1) (se_project_id row) = Some p
         \<longrightarrow> call (pj_root_path p) (delete_args b True) \<in> set cs2"
    using Cons.IH[OF frame(1), of n1 sh1] by blast
  have here: "call (pj_root_path p) (delete_args b True) \<in> set cs1"
    if "se_worktree_path row = Some path" "se_worktree_branch row = Some b"
      "se_base_branch row = Some base" "map_of (st_projects s) (se_project_id row) = Some p" for path b base p
    using sweep_row_deletes[OF Cons.prems assms(2) r that] cs1(1) by auto
  have "\<forall>row'\<in>set (row # rows). \<forall>path b base p. se_worktree_path row' = Some path
         \<longrightarrow> se_worktree_branch row' = Some b \<longrightarrow> se_base_branch row' = Some base
         \<longrightarrow> map_of (st_projects s) (se_project_id row') = Some p
         \<longrightarrow> call (pj_root_path p) (delete_args b True) \<in> set (cs1 @ cs2)"
    using cs2(3) here frame(2) by (metis UnCI set_append set_ConsD)
  then show ?case
    unfolding n1 cs2(1) cs1(1) using cs1(2) cs2(2) by (intro exI[of _ "cs1 @ cs2"]) auto
qed auto

text \<open>The sweep deletes by force the branch of every expired worktree it removes, without
  asking git for commits beyond the base: a branch with unmerged commits, which the
  clean-up of archiving preserves, is lost when the worktree could not be removed then
  and expires.\<close>

theorem sweep_deletes_unmerged_branch:
  assumes calm: "db_io (st_db s) = []" and force: "removes_by_force H"
    and row: "(k, row) \<in> set (st_sessions s)"
      "archived_before (seconds_before (int (min (ttl div 10 ^ 9) (2 ^ 63 - 1))) (store_now s)) row"
      "se_worktree_path row = Some path" "se_worktree_branch row = Some b" "se_base_branch row = Some base"
    and project: "map_of (st_projects s) (se_project_id row) = Some p"
  shows "\<exists>cs. sh_calls (snd (snd (sweep_expired seconds_before H ttl (s, sh)))) = sh_calls sh @ cs
    \<and> (\<forall>c\<in>set cs. \<forall>base b. gc_args c \<noteq> count_args base b)
    \<and> call (pj_root_path p) (delete_args b True) \<in> set cs"
proof -
  let ?rows = "filter (\<lambda>r. archived_before (seconds_before (int (min (ttl div 10 ^ 9) (2 ^ 63 - 1))) (store_now s)) r
     \<and> se_worktree_path r \<noteq> None) (map snd (st_sessions s))"
  have "row \<in> set ?rows" using row by force
  moreover have "sweep_expired seconds_before H ttl (s, sh) = sweep_rows H ?rows (0, 0) (s, sh)"
    using calm by (simp add: sweep_expired_def session_list_expired_worktrees_def)
  moreover obtain cs where "sh_calls (snd (snd (sweep_rows H ?rows (0, 0) (s, sh)))) = sh_calls sh @ cs"
    "\<forall>c\<in>set cs. \<forall>base b. gc_args c \<noteq> count_args base b"
    "\<forall>row\<in>set ?rows. \<forall>path b base p. se_worktree_path row = Some path
         \<longrightarrow> se_worktree_branch row = Some b \<longrightarrow> se_base_branch row = Some base
         \<longrightarrow> map_of (st_projects s) (se_project_id row) = Some p
         \<longrightarrow> call (pj_root_path p) (delete_args b True) \<in> set cs"
    using sweep_rows_calls[OF calm force, of ?rows "(0, 0)" sh] by (elim exE conjE)
  ultimately show ?thesis using row(3-5) project by auto
qed

section \<open>Worked examples\<close>

text \<open>A host on which git answers by its arguments and no file exists.\<close>

definition demo_host :: "(str list \<Rightarrow> GitRun) \<Rightarrow> unit Host" where
  "demo_host reply =
     \<lparr> ho_git = (\<lambda>repo args stdin w. (reply args, w)), ho_exists = (\<lambda>_ _. False),
       ho_create_dir_all = (\<lambda>_ w. (None, w)), ho_remove_dir_all = (\<lambda>_ w. w), ho_remove_file = (\<lambda>_ w. w),
       ho_file_len = (\<lambda>_ _. None), ho_file_mode = (\<lambda>_ _. None), ho_read = (\<lambda>_ _. Inl []),
       ho_hook = (\<lambda>_ _ _ _ w. (HookNotSpawned, w)), ho_canonicalize = (\<lambda>_ _. None), ho_env_var = (\<lambda>_ _. None),
       ho_which = (\<lambda>_ _. False), ho_spawn = (\<lambda>_ w. (Inl [], w)) \<rparr>"

definition demo_shell :: "unit Shell" where "demo_shell = \<lparr> sh_world = (), sh_calls = [] \<rparr>"

lemma project_slug_shape_witness:
  "\<exists>name digits. project_slug (\<lambda>_. replicate 32 0) (demo_host (\<lambda>_. GitMissing)) (lit ''/r'') () = name @ 45 # digits
    \<and> length digits = 8"
  using project_slug_shape[of "\<lambda>_. replicate 32 0" "demo_host (\<lambda>_. GitMissing)" "lit ''/r''" "()"] by auto

lemma create_error_codes_witness:
  "-33119 \<le> rpc_code (kind (GitUnavailable (lit ''the `git` binary was not found on $PATH'')))"
proof -
  have "fst (create (demo_host (\<lambda>_. GitMissing)) (for_state_dir []) [] [] [] ([], []) demo_shell)
      = Inl (GitUnavailable (lit ''the `git` binary was not found on $PATH''))"
    by (simp add: create_def create_parent_def Let_def demo_host_def demo_shell_def worktree_add_def run_git_def
        run_git_with_stdin_def git_result_def split: option.splits)
  then show ?thesis by (rule conjunct1[OF create_error_codes])
qed

lemma collision_deletes_existing_branch_witness:
  "\<exists>path. sh_calls (snd (create (demo_host (\<lambda>_. GitExited [] (as_bytes (lit ''branch already exists'')) (Some 128)))
      (for_state_dir []) (lit ''/r'') [] (lit ''a1'') (lit ''main'', lit ''c0'') demo_shell))
    = [call (lit ''/r'') (add_args path (lit ''la/session-a1'') (lit ''c0'')),
       call (lit ''/r'') (remove_args path True), call (lit ''/r'') (delete_args (lit ''la/session-a1'') True)]"
proof -
  let ?H = "demo_host (\<lambda>_. GitExited [] (as_bytes (lit ''branch already exists'')) (Some 128))"
  have scalars: "list_all scalar (lit ''branch already exists'')" by (simp add: lit_def scalar_def)
  have "classify_add_error (lit ''branch already exists'') = BranchCollision (lit ''<unknown>'')"
    by (simp add: classify_add_error_def contains_def ascii_lower_def lit_def extract_quoted_def)
  then have "fst (create ?H (for_state_dir []) (lit ''/r'') [] (lit ''a1'') (lit ''main'', lit ''c0'') demo_shell)
      = Inl (BranchCollision (lit ''<unknown>''))"
    by (simp add: create_def create_parent_def Let_def demo_host_def demo_shell_def worktree_add_def run_git_def
        run_git_with_stdin_def git_result_def lossy_as_bytes[OF scalars] split: option.splits)
  note collision_deletes_existing_branch[OF this]
  moreover have "branch_name_for (short_sid (lit ''a1'')) = lit ''la/session-a1''"
    by (simp add: branch_name_for_def short_sid_def is_hex_def is_digit_def lit_def)
  ultimately show ?thesis by (simp add: demo_shell_def) blast
qed

lemma cleanup_keeps_unmerged_branch_witness:
  "fst (cleanup (demo_host (\<lambda>args. GitExited (as_bytes (lit ''2'')) [] (Some 0)))
      (handle_from_row (lit ''/r'') (lit ''/w'') (lit ''b'') (lit ''main'')) KeepBranchIfDirty demo_shell) \<noteq> Inr False"
proof -
  have "may_be_ahead (GitExited (as_bytes (lit ''2'')) [] (Some 0))"
    by (simp add: may_be_ahead_def git_result_def lit_def scalar_def trim_def trim_start_def trim_end_def is_ws_def
        parse_uint_def is_digit_def digits_val_def u64_max_def del: as_bytes_simps)
  then show ?thesis
    using cleanup_keeps_unmerged_branch[of "demo_host (\<lambda>args. GitExited (as_bytes (lit ''2'')) [] (Some 0))"
        "handle_from_row (lit ''/r'') (lit ''/w'') (lit ''b'') (lit ''main'')" demo_shell]
    by (auto simp: demo_host_def)
qed

definition expired_session :: Session where
  "expired_session = (session_row [] \<lparr> ns_id = lit ''s'', ns_project_id = lit ''p'', ns_backend_id = lit ''claude'',
      ns_external_id = None, ns_title = None, ns_state = lit ''archived'', ns_pid = None,
      ns_worktree_path = Some (lit ''/w''), ns_worktree_branch = Some (lit ''la/session-1''),
      ns_base_branch = Some (lit ''main''), ns_spawn_args = [], ns_origin = [], ns_hook_status = None,
      ns_external_path = None \<rparr>)\<lparr> se_archived_at := Some [] \<rparr>"

definition expired_store :: Store where
  "expired_store = \<lparr> st_db = (empty_db [] [])\<lparr> db_now := lit ''2026'' \<rparr>, st_backends = [],
     st_projects = [(lit ''p'', \<lparr> pj_id = lit ''p'', pj_root_path = lit ''/r'', pj_display_name = [], pj_vcs = None, pj_created_at = [] \<rparr>)],
     st_sessions = [(lit ''s'', expired_session)], st_chunks = [], st_settings = [], st_schema_meta = None,
     st_files = Map.empty, st_writes = [], st_data_dir = [], st_spill_bytes = 0 \<rparr>"

lemma expired_facts:
  "db_io (st_db expired_store) = []" "(lit ''s'', expired_session) \<in> set (st_sessions expired_store)"
  "archived_before (store_now expired_store) expired_session"
  "se_worktree_path expired_session = Some (lit ''/w'')" "se_worktree_branch expired_session = Some (lit ''la/session-1'')"
  "se_base_branch expired_session = Some (lit ''main'')"
  "\<exists>p. map_of (st_projects expired_store) (se_project_id expired_session) = Some p \<and> pj_root_path p = lit ''/r''"
  by (simp_all add: expired_store_def expired_session_def session_row_def empty_db_def archived_before_def store_now_def)
     (simp add: lit_def)

text \<open>Git would have said that the branch has two commits of its own.\<close>

lemma sweep_deletes_unmerged_branch_witness:
  "call (lit ''/r'') (delete_args (lit ''la/session-1'') True)
    \<in> set (sh_calls (snd (snd (sweep_expired (\<lambda>_ t. t)
        (demo_host (\<lambda>args. GitExited (as_bytes (lit ''2'')) [] (Some 0))) 0 (expired_store, demo_shell)))))"
proof -
  have force: "removes_by_force (demo_host (\<lambda>args. GitExited (as_bytes (lit ''2'')) [] (Some 0)))"
    by (simp add: removes_by_force_def demo_host_def)
  obtain p where p: "map_of (st_projects expired_store) (se_project_id expired_session) = Some p" "pj_root_path p = lit ''/r''"
    using expired_facts(7) by blast
  show ?thesis
    using sweep_deletes_unmerged_branch[where seconds_before = "\<lambda>_ t. t" and ttl = 0,
        OF expired_facts(1) force expired_facts(2,3,4,5,6) p(1), of demo_shell] p(2) by auto
qed

end
