(* ===== verification/Diff_Parser.thy ===== *)
theory Diff_Parser
  imports Git_Commands
begin

text \<open>
  Model of \<open>la-core/src/worktree/parser.rs\<close>: the parser of unified diffs, which records for
  every file and every hunk the range of bytes it was read from, and the fingerprint by
  which clients name a hunk.  SHA-256 is a parameter.
\<close>

section \<open>Data\<close>

datatype LineOrigin = Context | Add | Delete

record ParsedLine =
  pl_origin :: LineOrigin
  pl_content :: str
  pl_no_newline :: bool

record ParsedHunk =
  hk_header :: str
  hk_old_start :: nat
  hk_old_count :: nat
  hk_new_start :: nat
  hk_new_count :: nat
  hk_lines :: "ParsedLine list"
  hk_body_range :: "nat \<times> nat"

record ParsedFile =
  pf_new_path :: str
  pf_old_path :: "str option"
  pf_is_binary :: bool
  pf_hunks :: "ParsedHunk list"
  pf_header_range :: "nat \<times> nat"
  pf_mode_change :: "(nat \<times> nat) option"

section \<open>Headers\<close>

definition starts_with :: "str \<Rightarrow> str \<Rightarrow> bool" where
  "starts_with s p \<longleftrightarrow> strip_prefix p s \<noteq> None"

text \<open>str::split_once for a text.\<close>

fun break_on :: "str \<Rightarrow> str \<Rightarrow> (str \<times> str) option" where
  "break_on p [] = (if p = [] then Some ([], []) else None)"
| "break_on p (c # s) = (case strip_prefix p (c # s) of
       Some r \<Rightarrow> Some ([], r)
     | None \<Rightarrow> map_option (\<lambda>(a, b). (c # a, b)) (break_on p s))"

text \<open>u32::from_str_radix(_, 8).\<close>

definition parse_octal :: "str \<Rightarrow> nat option" where
  "parse_octal s =
     (let ds = (case s of [] \<Rightarrow> [] | c # cs \<Rightarrow> if c = 43 then cs else s);
          v = foldl (\<lambda>acc c. acc * 8 + (c - 48)) 0 ds
      in if ds = [] \<or> \<not> list_all (\<lambda>c. 48 \<le> c \<and> c \<le> 55) ds then None
         else if v \<le> u32_max then Some v else None)"

definition parse_count :: "str \<Rightarrow> nat \<times> nat" where
  "parse_count s = (let num = (\<lambda>t. case parse_uint u32_max t of Some n \<Rightarrow> n | None \<Rightarrow> 0) in
     case split_once 44 s of Some (a, b) \<Rightarrow> (num a, num b) | None \<Rightarrow> (num s, 1))"

definition empty_hunk :: "str \<Rightarrow> nat \<times> nat \<Rightarrow> nat \<times> nat \<Rightarrow> ParsedHunk" where
  "empty_hunk header old new =
     \<lparr> hk_header = header, hk_old_start = fst old, hk_old_count = snd old, hk_new_start = fst new,
       hk_new_count = snd new, hk_lines = [], hk_body_range = (0, 0) \<rparr>"

definition parse_hunk_header :: "str \<Rightarrow> ParsedHunk option" where
  "parse_hunk_header line =
     (let trimmed = trim_end_char 10 line in
      case strip_prefix (lit ''@@'') trimmed of
        None \<Rightarrow> None
      | Some rest \<Rightarrow>
          (let body = trim_start rest;
               range_part = (case break_on (lit ''@@'') body of Some (a, _) \<Rightarrow> a | None \<Rightarrow> body)
           in case split_ws range_part of
                n # p # _ \<Rightarrow> (case (strip_prefix [45] n, strip_prefix [43] p) of
                    (Some neg, Some pos) \<Rightarrow> Some (empty_hunk trimmed (parse_count neg) (parse_count pos))
                  | _ \<Rightarrow> None)
              | _ \<Rightarrow> None))"

definition strip_or :: "str \<Rightarrow> str \<Rightarrow> str" where
  "strip_or p s = (case strip_prefix p s of Some r \<Rightarrow> r | None \<Rightarrow> s)"

definition parse_diff_header :: "str \<Rightarrow> str option \<times> str" where
  "parse_diff_header line = (case strip_prefix (lit ''diff --git '') line of
       None \<Rightarrow> (None, [])
     | Some rest \<Rightarrow> (case split_ws (trim_end_char 10 rest) of
         a # b # _ \<Rightarrow> (Some (strip_or (lit ''a/'') a), strip_or (lit ''b/'') b)
       | _ \<Rightarrow> (None, [])))"

text \<open>One line of the extended header of a file.\<close>

definition set_if :: "'a option \<Rightarrow> ('a \<Rightarrow> 'b \<Rightarrow> 'b) \<Rightarrow> 'b \<Rightarrow> 'b" where
  "set_if x f b = (case x of Some a \<Rightarrow> f a b | None \<Rightarrow> b)"

definition header_line :: "str \<Rightarrow> ParsedFile \<Rightarrow> ParsedFile" where
  "header_line s file =
     (let f1 = set_if (strip_prefix (lit ''rename from '') s) (\<lambda>r f. f\<lparr> pf_old_path := Some r \<rparr>) file;
          f2 = set_if (strip_prefix (lit ''rename to '') s) (\<lambda>r f. f\<lparr> pf_new_path := r \<rparr>) f1;
          f3 = set_if (strip_prefix (lit ''copy from '') s) (\<lambda>r f. f\<lparr> pf_old_path := Some r \<rparr>) f2;
          f4 = set_if (strip_prefix (lit ''copy to '') s) (\<lambda>r f. f\<lparr> pf_new_path := r \<rparr>) f3;
          f5 = set_if (Option.bind (strip_prefix (lit ''old mode '') s) (\<lambda>r. parse_octal (trim r)))
                 (\<lambda>m f. f\<lparr> pf_mode_change := Some (m, case pf_mode_change f of Some c \<Rightarrow> snd c | None \<Rightarrow> 0) \<rparr>) f4;
          f6 = set_if (Option.bind (strip_prefix (lit ''new mode '') s) (\<lambda>r. parse_octal (trim r)))
                 (\<lambda>m f. f\<lparr> pf_mode_change := Some (case pf_mode_change f of Some c \<Rightarrow> fst c | None \<Rightarrow> 0, m) \<rparr>) f5
      in if starts_with s (lit ''Binary files '') \<and> contains s (lit '' differ'') then f6\<lparr> pf_is_binary := True \<rparr> else f6)"

section \<open>The parser\<close>

record Parser =
  ps_files :: "ParsedFile list"
  ps_file :: "ParsedFile option"
  ps_hunk :: "(ParsedHunk \<times> nat) option"

definition flush_hunk :: "nat \<Rightarrow> Parser \<Rightarrow> Parser" where
  "flush_hunk cursor p = (case (ps_file p, ps_hunk p) of
       (Some f, Some (h, start)) \<Rightarrow>
         p\<lparr> ps_file := Some (f\<lparr> pf_hunks := pf_hunks f @ [h\<lparr> hk_body_range := (start, cursor) \<rparr>] \<rparr>), ps_hunk := None \<rparr>
     | _ \<Rightarrow> p\<lparr> ps_hunk := None \<rparr>)"

definition flush_file :: "Parser \<Rightarrow> Parser" where
  "flush_file p = (case ps_file p of
       Some f \<Rightarrow> p\<lparr> ps_files := ps_files p @ [f], ps_file := None \<rparr>
     | None \<Rightarrow> p)"

text \<open>One line of the body of a hunk: the marker decides.\<close>

definition body_line :: "bytes \<Rightarrow> ParsedHunk \<Rightarrow> ParsedHunk" where
  "body_line line h = (case line of
       [] \<Rightarrow> h
     | c # rest \<Rightarrow>
         (let add = (\<lambda>origin. h\<lparr> hk_lines := hk_lines h @
                 [\<lparr> pl_origin = origin, pl_content = from_utf8_lossy rest, pl_no_newline = False \<rparr>] \<rparr>) in
          if c = 32 then add Context else if c = 43 then add Add else if c = 45 then add Delete
          else if c = 92 then
            (if hk_lines h = [] then h
             else h\<lparr> hk_lines := butlast (hk_lines h) @ [(last (hk_lines h))\<lparr> pl_no_newline := True \<rparr>] \<rparr>)
          else h))"

definition line_str :: "bytes \<Rightarrow> str" where
  "line_str line = (case from_utf8 line of Some s \<Rightarrow> s | None \<Rightarrow> [])"

definition new_file :: "nat \<Rightarrow> str \<Rightarrow> ParsedFile" where
  "new_file cursor s = (case parse_diff_header s of (old, new) \<Rightarrow>
     \<lparr> pf_new_path = new, pf_old_path = old, pf_is_binary = False, pf_hunks = [],
       pf_header_range = (cursor, cursor), pf_mode_change = None \<rparr>)"

definition open_hunk :: "nat \<Rightarrow> str \<Rightarrow> Parser \<Rightarrow> Parser" where
  "open_hunk cursor s p = (let p = flush_hunk cursor p in
     case ps_file p of
       None \<Rightarrow> p
     | Some f \<Rightarrow> p\<lparr> ps_file := Some (f\<lparr> pf_header_range := (fst (pf_header_range f), cursor) \<rparr>),
         ps_hunk := map_option (\<lambda>h. (h\<lparr> hk_body_range := (cursor, cursor) \<rparr>, cursor)) (parse_hunk_header s) \<rparr>)"

definition parse_line :: "nat \<Rightarrow> nat \<Rightarrow> bytes \<Rightarrow> Parser \<Rightarrow> Parser" where
  "parse_line cursor next_cursor line p =
     (let s = line_str line in
      if starts_with s (lit ''diff --git '') then
        (flush_file (flush_hunk cursor p))\<lparr> ps_file := Some (new_file cursor s) \<rparr>
      else if ps_file p \<noteq> None \<and> ps_hunk p = None \<and> \<not> starts_with s (lit ''@@'') then
        p\<lparr> ps_file := map_option (\<lambda>f. header_line s (f\<lparr> pf_header_range := (fst (pf_header_range f), next_cursor) \<rparr>))
             (ps_file p) \<rparr>
      else if starts_with s (lit ''@@'') \<and> \<not> starts_with s (lit ''@@@'') then open_hunk cursor s p
      else p\<lparr> ps_hunk := map_option (\<lambda>(h, start). (body_line line h, start)) (ps_hunk p) \<rparr>)"

text \<open>The loop over the buffer, of which \<open>rest\<close> is what lies behind the cursor.\<close>

function parse_loop :: "nat \<Rightarrow> bytes \<Rightarrow> Parser \<Rightarrow> nat \<times> Parser" where
  "parse_loop cursor rest p =
     (if rest = [] then (cursor, p)
      else let line = takeWhile (\<lambda>b. b \<noteq> 10) rest;
               n = length line + (if dropWhile (\<lambda>b. b \<noteq> 10) rest = [] then 0 else 1)
           in parse_loop (cursor + n) (drop n rest) (parse_line cursor (cursor + n) line p))"
  by auto
termination
proof (relation "measure (\<lambda>(c, rest, p). length rest)", goal_cases)
  case (2 cursor rest p line n)
  then have "n > 0" by (cases rest) auto
  then show ?case using 2(1) by (cases rest) auto
qed simp

declare parse_loop.simps [simp del]

definition parse_diff :: "bytes \<Rightarrow> ParsedFile list" where
  "parse_diff buf =
     (case parse_loop 0 buf \<lparr> ps_files = [], ps_file = None, ps_hunk = None \<rparr> of
        (cursor, p) \<Rightarrow> ps_files (flush_file (flush_hunk cursor p)))"

section \<open>Fingerprints\<close>

definition compute_hunk_id :: "(bytes \<Rightarrow> bytes) \<Rightarrow> str \<Rightarrow> nat \<Rightarrow> nat \<Rightarrow> bytes \<Rightarrow> str" where
  "compute_hunk_id sha256 path old_start old_count body_bytes =
     concat (map hex2 (take 8 (sha256 (as_bytes path @ 0 # as_bytes (show_nat old_start) @ 0 #
       as_bytes (show_nat old_count) @ 0 # sha256 body_bytes))))"

section \<open>What the parser makes of a diff of one file\<close>

subsection \<open>Lines\<close>

definition text_of :: "bytes list \<Rightarrow> bytes" where
  "text_of lines = concat (map (\<lambda>l. l @ [10]) lines)"

lemma text_of_simps [simp]:
  "text_of [] = []" "text_of (l # ls) = l @ 10 # text_of ls" "text_of (ls @ ms) = text_of ls @ text_of ms"
  by (simp_all add: text_of_def)

fun run_lines :: "nat \<Rightarrow> bytes list \<Rightarrow> Parser \<Rightarrow> Parser" where
  "run_lines cursor [] p = p"
| "run_lines cursor (l # ls) p =
     run_lines (cursor + length l + 1) ls (parse_line cursor (cursor + length l + 1) l p)"

lemma run_lines_append:
  "run_lines cursor (ls @ ms) p = run_lines (cursor + length (text_of ls)) ms (run_lines cursor ls p)"
  by (induction ls arbitrary: cursor p) (simp_all add: ac_simps)

lemma parse_loop_line:
  assumes "10 \<notin> set l"
  shows "parse_loop cursor (l @ 10 # rest) p
    = parse_loop (cursor + length l + 1) rest (parse_line cursor (cursor + length l + 1) l p)"
proof -
  have "takeWhile (\<lambda>b. b \<noteq> 10) (l @ 10 # rest) = l" "dropWhile (\<lambda>b. b \<noteq> 10) (l @ 10 # rest) = 10 # rest"
    using assms by (auto simp: takeWhile_append dropWhile_append)
  then show ?thesis by (subst parse_loop.simps) (simp add: Let_def)
qed

lemma parse_loop_lines:
  "\<forall>l\<in>set ls. 10 \<notin> set l \<Longrightarrow> parse_loop cursor (text_of ls) p = (cursor + length (text_of ls), run_lines cursor ls p)"
proof (induction ls arbitrary: cursor p)
  case Nil
  then show ?case by (subst parse_loop.simps) simp
next
  case (Cons l ls)
  then have l: "10 \<notin> set l" by simp
  show ?case using Cons.IH[of "cursor + length l + 1"] Cons.prems
    by (simp add: parse_loop_line[OF l] ac_simps)
qed

text \<open>A diff: the lines of the header of its file, and the header line and the body lines
  of every hunk.\<close>

type_synonym hunk_text = "bytes \<times> bytes list"

definition header_ok :: "bytes list \<Rightarrow> bool" where
  "header_ok pre \<longleftrightarrow> pre \<noteq> [] \<and> (\<forall>l\<in>set pre. 10 \<notin> set l) \<and> starts_with (line_str (hd pre)) (lit ''diff --git '')
     \<and> (\<forall>l\<in>set (tl pre). \<not> starts_with (line_str l) (lit ''diff --git '') \<and> \<not> starts_with (line_str l) (lit ''@@''))"

definition marked :: "bytes \<Rightarrow> bool" where
  "marked l \<longleftrightarrow> l \<noteq> [] \<and> hd l \<in> {32, 43, 45, 92} \<and> 10 \<notin> set l"

definition hunk_ok :: "hunk_text \<Rightarrow> bool" where
  "hunk_ok h \<longleftrightarrow> 10 \<notin> set (fst h) \<and> starts_with (line_str (fst h)) (lit ''@@'')
     \<and> \<not> starts_with (line_str (fst h)) (lit ''@@@'') \<and> parse_hunk_header (line_str (fst h)) \<noteq> None
     \<and> list_all marked (snd h)"

definition hunk_bytes :: "hunk_text \<Rightarrow> bytes" where "hunk_bytes h = text_of (fst h # snd h)"

definition diff_bytes :: "bytes list \<Rightarrow> hunk_text list \<Rightarrow> bytes" where
  "diff_bytes pre hs = text_of pre @ concat (map hunk_bytes hs)"

text \<open>What the parser keeps of one hunk that lies at a position.\<close>

definition read_hunk :: "nat \<Rightarrow> hunk_text \<Rightarrow> ParsedHunk" where
  "read_hunk pos h =
     (foldl (\<lambda>k l. body_line l k) (the (parse_hunk_header (line_str (fst h)))) (snd h))
       \<lparr> hk_body_range := (pos, pos + length (hunk_bytes h)) \<rparr>"

fun read_hunks :: "nat \<Rightarrow> hunk_text list \<Rightarrow> ParsedHunk list" where
  "read_hunks pos [] = []"
| "read_hunks pos (h # hs) = read_hunk pos h # read_hunks (pos + length (hunk_bytes h)) hs"

lemma marked_start:
  assumes "marked l" "p \<noteq> []" "hd p \<notin> {32, 43, 45, 92}"
  shows "\<not> starts_with (line_str l) p"
proof (cases "from_utf8 l")
  case (Some s)
  obtain b r where l: "l = b # r" "b \<in> {32, 43, 45, 92}" using assms(1) by (cases l) (auto simp: marked_def)
  then have "unat b < 128" by auto
  then obtain t where "s = unat b # t" using Some from_utf8_ascii[of b r] by (auto simp: l simp del: from_utf8.simps)
  then show ?thesis using assms(2,3) l(2) Some
    by (cases p) (auto simp: line_str_def starts_with_def strip_prefix_Some_iff)
qed (use assms in \<open>auto simp: line_str_def starts_with_def strip_prefix_Some_iff\<close>)

lemma marked_line:
  assumes "marked l" "ps_hunk p = Some (h, start)"
  shows "parse_line cursor nx l p = p\<lparr> ps_hunk := Some (body_line l h, start) \<rparr>"
  using marked_start[OF assms(1), of "lit ''diff --git ''"] marked_start[OF assms(1), of "lit ''@@''"] assms(2)
  by (simp add: parse_line_def Let_def lit_def)

lemma run_body:
  assumes "list_all marked ls" "ps_hunk p = Some (h, start)"
  shows "run_lines cursor ls p = p\<lparr> ps_hunk := Some (foldl (\<lambda>k l. body_line l k) h ls, start) \<rparr>"
  using assms by (induction ls arbitrary: cursor p h) (auto simp: marked_line)

subsection \<open>The header\<close>

definition read_header :: "bytes list \<Rightarrow> ParsedFile" where
  "read_header pre = foldl (\<lambda>f l. header_line (line_str l) f) (new_file 0 (line_str (hd pre))) (tl pre)"

lemma set_if_range:
  assumes "\<And>a. g a (f\<lparr> pf_header_range := r \<rparr>) = (g a f)\<lparr> pf_header_range := r \<rparr>"
  shows "set_if x g (f\<lparr> pf_header_range := r \<rparr>) = (set_if x g f)\<lparr> pf_header_range := r \<rparr>"
  using assms by (simp add: set_if_def split: option.splits)

lemma header_line_range [simp]:
  "header_line s (f\<lparr> pf_header_range := r \<rparr>) = (header_line s f)\<lparr> pf_header_range := r \<rparr>"
  by (simp add: header_line_def Let_def set_if_range)

lemma header_line_fields [simp]:
  "pf_header_range (header_line s f) = pf_header_range f" "pf_hunks (header_line s f) = pf_hunks f"
  by (simp_all add: header_line_def Let_def set_if_def split: option.splits)

lemma read_header_hunks [simp]: "pf_hunks (read_header pre) = []"
proof -
  have "pf_hunks (foldl (\<lambda>f l. header_line (line_str l) f) f ls) = pf_hunks f" for f ls
    by (induction ls arbitrary: f) simp_all
  then show ?thesis by (simp add: read_header_def new_file_def split: prod.splits)
qed

lemma run_header_lines:
  assumes "\<forall>l\<in>set ls. \<not> starts_with (line_str l) (lit ''diff --git '') \<and> \<not> starts_with (line_str l) (lit ''@@'')"
    and "fst (pf_header_range f) = a"
  shows "run_lines cursor ls \<lparr> ps_files = fs, ps_file = Some (f\<lparr> pf_header_range := (a, b) \<rparr>), ps_hunk = None \<rparr>
    = \<lparr> ps_files = fs, ps_file = Some ((foldl (\<lambda>f l. header_line (line_str l) f) f ls)
        \<lparr> pf_header_range := (a, if ls = [] then b else cursor + length (text_of ls)) \<rparr>), ps_hunk = None \<rparr>"
  using assms
proof (induction ls arbitrary: cursor f b)
  case (Cons l ls)
  have "parse_line cursor (cursor + length l + 1) l
      \<lparr> ps_files = fs, ps_file = Some (f\<lparr> pf_header_range := (a, b) \<rparr>), ps_hunk = None \<rparr>
    = \<lparr> ps_files = fs, ps_file = Some ((header_line (line_str l) f)\<lparr> pf_header_range := (a, cursor + length l + 1) \<rparr>),
        ps_hunk = None \<rparr>"
    using Cons.prems by (simp add: parse_line_def Let_def)
  then show ?case using Cons.IH[of "header_line (line_str l) f" "cursor + length l + 1"] Cons.prems
    by (simp add: ac_simps)
qed simp

lemma run_header:
  assumes "header_ok pre"
  shows "run_lines 0 pre \<lparr> ps_files = [], ps_file = None, ps_hunk = None \<rparr>
    = \<lparr> ps_files = [], ps_file = Some ((read_header pre)\<lparr> pf_header_range := (0, if tl pre = [] then 0 else length (text_of pre)) \<rparr>),
        ps_hunk = None \<rparr>"
proof -
  obtain l ls where pre: "pre = l # ls" using assms by (cases pre) (auto simp: header_ok_def)
  have "parse_line 0 (0 + length l + 1) l \<lparr> ps_files = [], ps_file = None, ps_hunk = None \<rparr>
      = \<lparr> ps_files = [], ps_file = Some ((new_file 0 (line_str l))\<lparr> pf_header_range := (0, 0) \<rparr>), ps_hunk = None \<rparr>"
    using assms by (simp add: pre header_ok_def parse_line_def Let_def flush_file_def flush_hunk_def new_file_def split: prod.splits)
  then show ?thesis
    using run_header_lines[of ls "new_file 0 (line_str l)" 0 "0 + length l + 1" "[]" 0] assms
    by (simp add: pre header_ok_def read_header_def new_file_def ac_simps split: prod.splits)
qed

subsection \<open>The hunks\<close>

lemma body_line_range [simp]:
  "body_line l (h\<lparr> hk_body_range := r \<rparr>) = (body_line l h)\<lparr> hk_body_range := r \<rparr>"
  by (simp add: body_line_def Let_def split: list.splits)

lemma body_lines_range:
  "foldl (\<lambda>k l. body_line l k) (h\<lparr> hk_body_range := r \<rparr>) ls = (foldl (\<lambda>k l. body_line l k) h ls)\<lparr> hk_body_range := r \<rparr>"
  by (induction ls arbitrary: h) simp_all

lemma at_not_diff: "starts_with s (lit ''@@'') \<Longrightarrow> \<not> starts_with s (lit ''diff --git '')"
  by (auto simp: starts_with_def strip_prefix_Some_iff lit_def)

lemma run_hunk:
  assumes "hunk_ok h" "flush_hunk pos p = p0" "ps_file p0 = Some f"
  shows "flush_hunk (pos + length (hunk_bytes h)) (run_lines pos (fst h # snd h) p)
    = p0\<lparr> ps_file := Some (f\<lparr> pf_header_range := (fst (pf_header_range f), pos), pf_hunks := pf_hunks f @ [read_hunk pos h] \<rparr>) \<rparr>"
proof -
  obtain k where k: "parse_hunk_header (line_str (fst h)) = Some k" using assms(1) by (auto simp: hunk_ok_def)
  have no: "ps_hunk p0 = None" using assms(2) by (auto simp: flush_hunk_def split: option.splits)
  have "parse_line pos (pos + length (fst h) + 1) (fst h) p = open_hunk pos (line_str (fst h)) p"
    using assms(1) at_not_diff by (simp add: parse_line_def Let_def hunk_ok_def)
  also have "\<dots> = p0\<lparr> ps_file := Some (f\<lparr> pf_header_range := (fst (pf_header_range f), pos) \<rparr>),
      ps_hunk := Some (k\<lparr> hk_body_range := (pos, pos) \<rparr>, pos) \<rparr>"
    by (simp add: open_hunk_def assms(2,3) k)
  finally have "run_lines pos (fst h # snd h) p = p0\<lparr> ps_file := Some (f\<lparr> pf_header_range := (fst (pf_header_range f), pos) \<rparr>),
      ps_hunk := Some (foldl (\<lambda>k l. body_line l k) (k\<lparr> hk_body_range := (pos, pos) \<rparr>) (snd h), pos) \<rparr>"
    using run_body[of "snd h"] assms(1) by (simp add: hunk_ok_def)
  then show ?thesis using no by (simp add: flush_hunk_def read_hunk_def k body_lines_range)
qed

definition last_start :: "nat \<Rightarrow> nat \<Rightarrow> hunk_text list \<Rightarrow> nat" where
  "last_start b pos hs = (if hs = [] then b else pos + length (concat (map hunk_bytes (butlast hs))))"

lemma run_hunks:
  assumes "list_all hunk_ok hs" "flush_hunk pos p = p0" "ps_file p0 = Some f"
  shows "flush_hunk (pos + length (concat (map hunk_bytes hs))) (run_lines pos (concat (map (\<lambda>h. fst h # snd h) hs)) p)
    = p0\<lparr> ps_file := Some (f\<lparr> pf_header_range := (fst (pf_header_range f), last_start (snd (pf_header_range f)) pos hs),
        pf_hunks := pf_hunks f @ read_hunks pos hs \<rparr>) \<rparr>"
  using assms
proof (induction hs arbitrary: pos p p0 f)
  case Nil
  then show ?case by (simp add: last_start_def)
next
  case (Cons h hs)
  let ?n = "length (hunk_bytes h)"
  let ?f = "f\<lparr> pf_header_range := (fst (pf_header_range f), pos), pf_hunks := pf_hunks f @ [read_hunk pos h] \<rparr>"
  have one: "flush_hunk (pos + ?n) (run_lines pos (fst h # snd h) p) = p0\<lparr> ps_file := Some ?f \<rparr>"
    using run_hunk[of h pos p p0 f] Cons.prems by simp
  have "run_lines pos (concat (map (\<lambda>h. fst h # snd h) (h # hs))) p
      = run_lines (pos + ?n) (concat (map (\<lambda>h. fst h # snd h) hs)) (run_lines pos (fst h # snd h) p)"
    using run_lines_append[of pos "fst h # snd h"] by (simp add: hunk_bytes_def del: run_lines.simps)
  then show ?case
    using Cons.IH[OF _ one, of ?f] Cons.prems(1)
    by (simp add: ac_simps last_start_def del: run_lines.simps)
qed

subsection \<open>The whole diff\<close>

definition read_file :: "bytes list \<Rightarrow> hunk_text list \<Rightarrow> ParsedFile" where
  "read_file pre hs = (read_header pre)
     \<lparr> pf_header_range := (0, last_start (if tl pre = [] then 0 else length (text_of pre)) (length (text_of pre)) hs),
       pf_hunks := read_hunks (length (text_of pre)) hs \<rparr>"

lemma text_of_hunks: "text_of (concat (map (\<lambda>h. fst h # snd h) hs)) = concat (map hunk_bytes hs)"
  by (induction hs) (simp_all add: hunk_bytes_def)

lemma diff_bytes_lines: "diff_bytes pre hs = text_of (pre @ concat (map (\<lambda>h. fst h # snd h) hs))"
  by (simp add: diff_bytes_def text_of_hunks)

lemma parse_diff_bytes:
  assumes "header_ok pre" "list_all hunk_ok hs"
  shows "parse_diff (diff_bytes pre hs) = [read_file pre hs]"
proof -
  let ?init = "\<lparr> ps_files = [], ps_file = None, ps_hunk = None \<rparr>"
  let ?lines = "concat (map (\<lambda>h. fst h # snd h) hs)" and ?n = "length (text_of pre)"
  have "\<forall>l\<in>set (pre @ ?lines). 10 \<notin> set l"
    using assms by (auto simp: header_ok_def hunk_ok_def marked_def list_all_iff)
  then have "parse_loop 0 (diff_bytes pre hs) ?init
      = (?n + length (concat (map hunk_bytes hs)), run_lines ?n ?lines (run_lines 0 pre ?init))"
    by (simp only: diff_bytes_lines parse_loop_lines run_lines_append) (simp add: text_of_hunks)
  moreover define p0 where "p0 = run_lines 0 pre ?init"
  moreover have p0: "flush_hunk ?n p0 = p0" "ps_file p0 = Some ((read_header pre)
      \<lparr> pf_header_range := (0, if tl pre = [] then 0 else ?n) \<rparr>)" "ps_files p0 = []"
    unfolding p0_def run_header[OF assms(1)] by (simp_all add: flush_hunk_def)
  ultimately show ?thesis
    using run_hunks[OF assms(2) p0(1,2)] by (simp add: parse_diff_def flush_file_def p0 read_file_def)
qed

text \<open>Slices of the buffer.\<close>

definition slice :: "bytes \<Rightarrow> nat \<times> nat \<Rightarrow> bytes" where
  "slice buf r = take (snd r - fst r) (drop (fst r) buf)"

lemma slice_append [simp]: "slice (a @ b @ c) (length a, length a + length b) = b"
  by (simp add: slice_def)

lemma slice_hunks:
  "map (\<lambda>k. slice (a @ concat (map hunk_bytes hs) @ c) (hk_body_range k)) (read_hunks (length a) hs) = map hunk_bytes hs"
proof (induction hs arbitrary: a)
  case (Cons h hs)
  have "slice (a @ hunk_bytes h @ concat (map hunk_bytes hs) @ c) (hk_body_range (read_hunk (length a) h)) = hunk_bytes h"
    using slice_append[of a "hunk_bytes h"] by (simp add: read_hunk_def)
  then show ?case using Cons.IH[of "a @ hunk_bytes h"] by simp
qed simp

lemma read_file_slices:
  "map (\<lambda>k. slice (diff_bytes pre hs) (hk_body_range k)) (pf_hunks (read_file pre hs)) = map hunk_bytes hs"
  "hs \<noteq> [] \<Longrightarrow> slice (diff_bytes pre hs) (pf_header_range (read_file pre hs))
     = text_of pre @ concat (map hunk_bytes (butlast hs))"
proof -
  show "map (\<lambda>k. slice (diff_bytes pre hs) (hk_body_range k)) (pf_hunks (read_file pre hs)) = map hunk_bytes hs"
    using slice_hunks[of "text_of pre" hs "[]"] by (simp add: diff_bytes_def read_file_def)
  assume "hs \<noteq> []"
  then have "diff_bytes pre hs = [] @ (text_of pre @ concat (map hunk_bytes (butlast hs))) @ hunk_bytes (last hs)"
    by (cases hs rule: rev_cases) (simp_all add: diff_bytes_def)
  then show "slice (diff_bytes pre hs) (pf_header_range (read_file pre hs)) = text_of pre @ concat (map hunk_bytes (butlast hs))"
    using slice_append[of "[]" "text_of pre @ concat (map hunk_bytes (butlast hs))" "hunk_bytes (last hs)"] \<open>hs \<noteq> []\<close>
    by (simp add: read_file_def last_start_def)
qed


section \<open>A worked example\<close>

lemma lit_scalar [simp]: "list_all scalar (lit s)"
proof -
  have "(of_char c :: nat) < 256" for c by (subst of_char_mod_256[symmetric]) simp
  then have "(of_char c :: nat) < 55296" for c by (rule less_trans) simp
  then have "scalar (of_char c)" for c by (simp add: scalar_def)
  then show ?thesis by (simp add: lit_def list_all_iff)
qed

lemma line_str_lit [simp]: "line_str (as_bytes (lit s)) = lit s"
  by (simp add: line_str_def)

definition demo_pre :: "bytes list" where
  "demo_pre = map (as_bytes \<circ> lit) [''diff --git a/f b/f'', ''--- a/f'', ''+++ b/f'']"

definition demo_hunks :: "hunk_text list" where
  "demo_hunks = [(as_bytes (lit ''@@ -1 +1 @@''), [as_bytes (lit ''-a''), as_bytes (lit ''+b'')]),
     (as_bytes (lit ''@@ -9 +9 @@''), [as_bytes (lit ''-c''), as_bytes (lit ''+d'')])]"

lemma demo_header: "header_ok demo_pre"
  by (simp add: header_ok_def demo_pre_def starts_with_def) (simp add: lit_def utf8_char_def)

lemma demo_headers:
  "parse_hunk_header (lit ''@@ -1 +1 @@'') = Some (empty_hunk (lit ''@@ -1 +1 @@'') (1, 1) (1, 1))"
  "parse_hunk_header (lit ''@@ -9 +9 @@'') = Some (empty_hunk (lit ''@@ -9 +9 @@'') (9, 1) (9, 1))"
  by (simp_all add: parse_hunk_header_def lit_def trim_end_char_def trim_start_def is_ws_def split_ws_def
      parse_count_def split_once_def parse_uint_def is_digit_def digits_val_def u32_max_def)

lemma demo_hunks_ok: "list_all hunk_ok demo_hunks"
  by (simp add: demo_hunks_def hunk_ok_def demo_headers starts_with_def)
     (simp add: lit_def utf8_char_def marked_def)


end
