(* ===== verification/Diff_Engine.thy ===== *)
theory Diff_Engine
  imports Worktrees Diff_Parser
begin

text \<open>
  Model of \<open>la-core/src/worktree/diff.rs\<close>: the status of a worktree, the diff of one file,
  the staging, unstaging and discarding of hunks, the commit and the launch of an
  editor.  git and the file system are those of \<open>Git_Commands\<close>.  The operations that
  change a worktree hold the lock of their session from beginning to end, so each is one
  step here.
\<close>

section \<open>Data\<close>

datatype FileStatus = Added | Modified | Deleted | Renamed | Copied | Untracked | Conflicted

datatype FileKind = TextFile | Binary | Submodule | Symlink

record PorcelainEntry =
  pe_path :: str
  pe_old_path :: "str option"
  pe_status :: FileStatus
  pe_kind :: FileKind
  pe_staged_hunks :: nat
  pe_unstaged_hunks :: nat
  pe_mode_change :: "(nat \<times> nat) option"

record FileEntry =
  fe_path :: str
  fe_old_path :: "str option"
  fe_status :: FileStatus
  fe_kind :: FileKind
  fe_staged_hunks :: nat
  fe_unstaged_hunks :: nat
  fe_size_bytes :: nat
  fe_mode_change :: "(nat \<times> nat) option"

record StatusSnapshot =
  ss_branch :: str
  ss_base_branch :: "str option"
  ss_head :: str
  ss_ahead :: nat
  ss_behind :: nat
  ss_files :: "FileEntry list"

record TruncationOutcome =
  to_reason :: str
  to_size_bytes :: nat
  to_hint :: str

record Hunk =
  hu_hunk_id :: str
  hu_staged :: bool
  hu_old_start :: nat
  hu_old_count :: nat
  hu_new_start :: nat
  hu_new_count :: nat
  hu_header :: str
  hu_lines :: "ParsedLine list"

record DiffOutcome =
  do_file :: FileEntry
  do_hunks :: "Hunk list"
  do_truncated :: "TruncationOutcome option"

record MutationOutcome =
  mo_applied :: "str list"
  mo_rejected :: "(str \<times> str) list"
  mo_status :: "FileEntry list"
  mo_affected_files :: "str list"

record CommitOutcome =
  co_commit_sha :: str
  co_summary :: str
  co_files_changed :: nat

record LaunchOutcome =
  lo_launched :: bool
  lo_command :: str
  lo_pid :: "nat option"

datatype MutationKind = Stage | Unstage | Discard

record DiffEngine =
  de_worktree_path :: str
  de_base_branch :: "str option"

definition MAX_INLINE_DIFF_BYTES :: nat where "MAX_INLINE_DIFF_BYTES = 5 * 1024 * 1024"

section \<open>Status\<close>

definition classify_xy :: "nat \<Rightarrow> nat \<Rightarrow> FileStatus" where
  "classify_xy x y = (let primary = if x \<noteq> 46 then x else y in
     if primary = 65 then Added else if primary = 77 then Modified else if primary = 68 then Deleted
     else if primary = 82 then Renamed else if primary = 67 then Copied else if primary = 85 then Conflicted
     else Modified)"

definition classify_kind :: "str \<Rightarrow> str \<Rightarrow> FileKind" where
  "classify_kind mh mi = (let mode = if mi \<noteq> lit ''000000'' then mi else mh in
     if mode = lit ''160000'' then Submodule else if mode = lit ''120000'' then Symlink else TextFile)"

definition parse_mode_change :: "str \<Rightarrow> str \<Rightarrow> (nat \<times> nat) option" where
  "parse_mode_change mh mi = (case (parse_octal mh, parse_octal mi) of
       (Some h, Some i) \<Rightarrow> if h \<noteq> 0 \<and> i \<noteq> 0 \<and> h \<noteq> i then Some (h, i) else None
     | _ \<Rightarrow> None)"

definition is_score :: "str \<Rightarrow> bool" where
  "is_score t = (case t of [] \<Rightarrow> False | c # cs \<Rightarrow> (c = 82 \<or> c = 67) \<and> list_all is_digit cs)"

definition char_at :: "nat \<Rightarrow> str \<Rightarrow> nat" where
  "char_at i s = (if i < length s then s ! i else 46)"

definition parse_change_v2 :: "str \<Rightarrow> bool \<Rightarrow> PorcelainEntry option" where
  "parse_change_v2 rest is_rename = (case split_ws rest of
       xy # sub # mh # mi # mw # hh # hi # tokens \<Rightarrow>
         (let path_tokens = (if is_rename \<and> tokens \<noteq> [] \<and> is_score (hd tokens) then tl tokens else tokens);
              x = char_at 0 xy; y = char_at 1 xy
          in if path_tokens = [] then None
             else Some \<lparr> pe_path = join (lit '' '') path_tokens, pe_old_path = None, pe_status = classify_xy x y,
               pe_kind = classify_kind mh mi, pe_staged_hunks = (if x = 46 then 0 else 1),
               pe_unstaged_hunks = (if y = 46 then 0 else 1), pe_mode_change = parse_mode_change mh mi \<rparr>)
     | _ \<Rightarrow> None)"

definition plain_entry :: "str \<Rightarrow> FileStatus \<Rightarrow> nat \<Rightarrow> PorcelainEntry" where
  "plain_entry path status unstaged =
     \<lparr> pe_path = path, pe_old_path = None, pe_status = status, pe_kind = TextFile, pe_staged_hunks = 0,
       pe_unstaged_hunks = unstaged, pe_mode_change = None \<rparr>"

text \<open>One record of the output: the entries so far and whether the next record is the old
  path of a rename.\<close>

definition porcelain_record :: "bytes \<Rightarrow> PorcelainEntry list \<times> bool \<Rightarrow> PorcelainEntry list \<times> bool" where
  "porcelain_record r = (\<lambda>(out, expecting_old_path).
     if r = [] then (out, expecting_old_path)
     else case from_utf8 r of
       None \<Rightarrow> (out, expecting_old_path)
     | Some s \<Rightarrow>
         if expecting_old_path then
           (if out = [] then out else butlast out @ [(last out)\<lparr> pe_old_path := Some s \<rparr>], False)
         else case split_once 32 s of
             None \<Rightarrow> (out, False)
           | Some (tag, rest) \<Rightarrow>
               if tag = lit ''1'' then
                 (case parse_change_v2 rest False of Some e \<Rightarrow> (out @ [e], False) | None \<Rightarrow> (out, False))
               else if tag = lit ''2'' then
                 (case parse_change_v2 rest True of Some e \<Rightarrow> (out @ [e], True) | None \<Rightarrow> (out, False))
               else if tag = lit ''?'' then (out @ [plain_entry rest Untracked 1], False)
               else if tag = lit ''u'' then
                 (if split_ws rest = [] then out else out @ [plain_entry (last (split_ws rest)) Conflicted 0], False)
               else (out, False))"

fun split_nul :: "bytes \<Rightarrow> bytes list" where
  "split_nul [] = [[]]"
| "split_nul (b # bs) = (if b = 0 then [] # split_nul bs else (b # hd (split_nul bs)) # tl (split_nul bs))"

definition parse_porcelain_v2 :: "bytes \<Rightarrow> PorcelainEntry list" where
  "parse_porcelain_v2 buf = fst (foldl (\<lambda>st r. porcelain_record r st) ([], False) (split_nul buf))"

definition head_sha :: "'w Host \<Rightarrow> DiffEngine \<Rightarrow> 'w Shell \<Rightarrow> (CoreError + str) \<times> 'w Shell" where
  "head_sha H E sh = and_then (run_git H (de_worktree_path E) (map lit [''rev-parse'', ''HEAD'']) sh)
     (\<lambda>out sh. (Inr (if go_success out then trim (go_stdout out) else []), sh))"

definition current_branch :: "'w Host \<Rightarrow> DiffEngine \<Rightarrow> 'w Shell \<Rightarrow> (CoreError + str) \<times> 'w Shell" where
  "current_branch H E sh =
     and_then (run_git H (de_worktree_path E) (map lit [''rev-parse'', ''--abbrev-ref'', ''HEAD'']) sh)
       (\<lambda>out sh. (Inr (if go_success out then trim (go_stdout out) else lit ''HEAD''), sh))"

definition ahead_behind :: "'w Host \<Rightarrow> DiffEngine \<Rightarrow> str \<Rightarrow> str \<Rightarrow> 'w Shell \<Rightarrow> (nat \<times> nat) option \<times> 'w Shell" where
  "ahead_behind H E branch base sh =
     (case run_git H (de_worktree_path E)
         [lit ''rev-list'', lit ''--left-right'', lit ''--count'', base @ lit ''...'' @ branch] sh of
        (Inl e, sh) \<Rightarrow> (None, sh)
      | (Inr out, sh) \<Rightarrow>
          (if \<not> go_success out then None
           else case split_ws (go_stdout out) of
               b # a # _ \<Rightarrow> (case (parse_uint u32_max b, parse_uint u32_max a) of
                   (Some behind, Some ahead) \<Rightarrow> Some (ahead, behind) | _ \<Rightarrow> None)
             | _ \<Rightarrow> None, sh))"

definition file_entry :: "'w Host \<Rightarrow> DiffEngine \<Rightarrow> 'w \<Rightarrow> PorcelainEntry \<Rightarrow> FileEntry" where
  "file_entry H E w e =
     \<lparr> fe_path = pe_path e, fe_old_path = pe_old_path e, fe_status = pe_status e, fe_kind = pe_kind e,
       fe_staged_hunks = pe_staged_hunks e, fe_unstaged_hunks = pe_unstaged_hunks e,
       fe_size_bytes = (if pe_status e = Deleted then 0
         else case ho_file_len H (path_join (de_worktree_path E) (pe_path e)) w of Some n \<Rightarrow> n | None \<Rightarrow> 0),
       fe_mode_change = pe_mode_change e \<rparr>"

definition status :: "'w Host \<Rightarrow> DiffEngine \<Rightarrow> 'w Shell \<Rightarrow> (CoreError + StatusSnapshot) \<times> 'w Shell" where
  "status H E sh =
     and_then (head_sha H E sh) (\<lambda>head sh.
     and_then (current_branch H E sh) (\<lambda>branch sh.
     and_then (run_git H (de_worktree_path E)
         (map lit [''status'', ''--porcelain=v2'', ''-z'', ''--untracked-files=normal'']) sh) (\<lambda>porcelain sh.
       if \<not> go_success porcelain then (Inl (provision_failed porcelain), sh)
       else let files = map (file_entry H E (sh_world sh)) (parse_porcelain_v2 (go_stdout_bytes porcelain)) in
         case (case de_base_branch E of
                 Some base \<Rightarrow> (case ahead_behind H E branch base sh of
                     (Some n, sh) \<Rightarrow> (n, sh) | (None, sh) \<Rightarrow> ((0, 0), sh))
               | None \<Rightarrow> ((0, 0), sh)) of
           ((ahead, behind), sh) \<Rightarrow>
             (Inr \<lparr> ss_branch = branch, ss_base_branch = de_base_branch E, ss_head = head, ss_ahead = ahead,
                ss_behind = behind, ss_files = files \<rparr>, sh))))"

section \<open>Diffs\<close>

text \<open>The text of a hunk from which its fingerprint is computed.\<close>

definition origin_char :: "LineOrigin \<Rightarrow> nat" where
  "origin_char o1 = (case o1 of Context \<Rightarrow> 32 | Add \<Rightarrow> 43 | Delete \<Rightarrow> 45)"

definition line_body :: "ParsedLine \<Rightarrow> str" where
  "line_body l = origin_char (pl_origin l) # pl_content l @ 10 #
     (if pl_no_newline l then 92 # lit '' No newline at end of file'' @ [10] else [])"

definition hunk_body :: "ParsedHunk \<Rightarrow> str" where
  "hunk_body h = hk_header h @ 10 # concat (map line_body (hk_lines h))"

definition hunk_id :: "(bytes \<Rightarrow> bytes) \<Rightarrow> ParsedFile \<Rightarrow> ParsedHunk \<Rightarrow> str" where
  "hunk_id sha256 f h =
     compute_hunk_id sha256 (pf_new_path f) (hk_old_start h) (hk_old_count h) (as_bytes (hunk_body h))"

definition build_hunks :: "(bytes \<Rightarrow> bytes) \<Rightarrow> ParsedFile \<Rightarrow> bool \<Rightarrow> Hunk list" where
  "build_hunks sha256 f staged = map (\<lambda>h.
     \<lparr> hu_hunk_id = hunk_id sha256 f h, hu_staged = staged, hu_old_start = hk_old_start h,
       hu_old_count = hk_old_count h, hu_new_start = hk_new_start h, hu_new_count = hk_new_count h,
       hu_header = hk_header h, hu_lines = hk_lines h \<rparr>) (pf_hunks f)"

definition diff_args :: "bool \<Rightarrow> str \<Rightarrow> str list" where
  "diff_args staged path =
     map lit [''diff'', ''--no-color'', ''--no-ext-diff'', ''--find-renames'', ''-U3'']
       @ (if staged then [lit ''--cached''] else []) @ [lit ''--'', path]"

definition raw_diff :: "'w Host \<Rightarrow> DiffEngine \<Rightarrow> str \<Rightarrow> bool \<Rightarrow> 'w Shell \<Rightarrow> (CoreError + bytes) \<times> 'w Shell" where
  "raw_diff H E path staged sh =
     and_then (run_git H (de_worktree_path E) (diff_args staged path) sh) (\<lambda>out sh.
       (if \<not> go_success out \<and> go_exit_code out \<noteq> Some 1 then Inl (provision_failed out)
        else Inr (go_stdout_bytes out), sh))"

definition git_diff :: "'w Host \<Rightarrow> DiffEngine \<Rightarrow> str \<Rightarrow> bool \<Rightarrow> 'w Shell \<Rightarrow> (CoreError + ParsedFile list) \<times> 'w Shell" where
  "git_diff H E path staged sh = and_then (raw_diff H E path staged sh) (\<lambda>buf sh. (Inr (parse_diff buf), sh))"

fun split_inclusive :: "str \<Rightarrow> str list" where
  "split_inclusive [] = []"
| "split_inclusive (c # s) = (if c = 10 then [c] # split_inclusive s
     else case split_inclusive s of [] \<Rightarrow> [[c]] | l # ls \<Rightarrow> (c # l) # ls)"

fun added_lines :: "str list \<Rightarrow> str" where
  "added_lines [] = []"
| "added_lines (l # ls) =
     (if ls = [] \<and> last l \<noteq> 10 then 43 # l @ 10 # 92 # lit '' No newline at end of file'' @ [10]
      else 43 # l @ (if last l \<noteq> 10 then [10] else []) @ added_lines ls)"

definition untracked_head :: "str \<Rightarrow> string \<Rightarrow> str" where
  "untracked_head p index =
     lit ''diff --git a/'' @ p @ lit '' b/'' @ p @ 10 # lit ''new file mode 100644'' @ 10 # lit index @ [10]"

definition untracked_diff :: "str \<Rightarrow> bytes \<Rightarrow> str" where
  "untracked_diff p contents = (case from_utf8 contents of
       None \<Rightarrow> untracked_head p ''index 0000000..0000000'' @ lit ''Binary files /dev/null and b/'' @ p @ lit '' differ'' @ [10]
     | Some text \<Rightarrow>
         (let lines = split_inclusive text; n = length lines;
              head = untracked_head p ''index 0000000..1111111'' @ lit ''--- /dev/null'' @ 10 # lit ''+++ b/'' @ p @ [10]
          in if n = 0 then head
             else head @ lit ''@@ -0,0 +1,'' @ show_nat (n mod 2 ^ 32) @ lit '' @@'' @ 10 # added_lines lines))"

definition diff_untracked :: "'w Host \<Rightarrow> DiffEngine \<Rightarrow> str \<Rightarrow> 'w Shell \<Rightarrow> (CoreError + ParsedFile list) \<times> 'w Shell" where
  "diff_untracked H E path sh =
     (case ho_read H (path_join (de_worktree_path E) path) (sh_world sh) of
        Inl e \<Rightarrow> (Inl (WorktreeIo e), sh)
      | Inr contents \<Rightarrow> (Inr (parse_diff (as_bytes (untracked_diff path contents))), sh))"

definition truncated :: "FileEntry \<Rightarrow> string \<Rightarrow> nat \<Rightarrow> DiffOutcome" where
  "truncated entry reason len =
     \<lparr> do_file = entry, do_hunks = [], do_truncated =
         Some \<lparr> to_reason = lit reason, to_size_bytes = len, to_hint = lit ''open_in_editor'' \<rparr> \<rparr>"

definition missing_entry :: "str \<Rightarrow> nat \<Rightarrow> FileEntry" where
  "missing_entry path len =
     \<lparr> fe_path = path, fe_old_path = None, fe_status = Modified, fe_kind = TextFile, fe_staged_hunks = 0,
       fe_unstaged_hunks = 0, fe_size_bytes = len, fe_mode_change = None \<rparr>"

definition diff_file :: "(bytes \<Rightarrow> bytes) \<Rightarrow> 'w Host \<Rightarrow> DiffEngine \<Rightarrow> str \<Rightarrow> bool \<Rightarrow> 'w Shell
    \<Rightarrow> (CoreError + DiffOutcome) \<times> 'w Shell" where
  "diff_file sha256 H E path staged sh =
     (let len = (case ho_file_len H (path_join (de_worktree_path E) path) (sh_world sh) of Some n \<Rightarrow> n | None \<Rightarrow> 0) in
      and_then (status H E sh) (\<lambda>snapshot sh.
        let entry = (case find (\<lambda>f. fe_path f = path) (ss_files snapshot) of
              Some f \<Rightarrow> f | None \<Rightarrow> missing_entry path len) in
        if fe_kind entry = Binary then (Inr (truncated entry ''binary'' len), sh)
        else if fe_kind entry = Submodule then (Inr (truncated entry ''submodule'' len), sh)
        else if len > MAX_INLINE_DIFF_BYTES then (Inr (truncated entry ''too_large'' len), sh)
        else and_then (if fe_status entry = Untracked \<and> \<not> staged then diff_untracked H E path sh
                       else git_diff H E path staged sh) (\<lambda>parsed sh.
          (Inr \<lparr> do_file = entry,
             do_hunks = (case parsed of f # _ \<Rightarrow> build_hunks sha256 f staged | [] \<Rightarrow> []), do_truncated = None \<rparr>, sh))))"

section \<open>Staging, unstaging and discarding\<close>

definition stderr_means_patch_rejected :: "str \<Rightarrow> bool" where
  "stderr_means_patch_rejected stderr = (let s = ascii_lower stderr in
     contains s (lit ''patch does not apply'') \<or> contains s (lit ''corrupt patch'')
     \<or> contains s (lit ''error while searching for'') \<or> contains s (lit ''patch failed''))"

record Progress =
  pg_applied :: "str list"
  pg_rejected :: "(str \<times> str) list"
  pg_affected :: "str list"

definition selected_hunks :: "(bytes \<Rightarrow> bytes) \<Rightarrow> ParsedFile \<Rightarrow> str list \<Rightarrow> (ParsedHunk \<times> str) list" where
  "selected_hunks sha256 f ids =
     filter (\<lambda>(h, i). i \<in> set ids) (map (\<lambda>h. (h, hunk_id sha256 f h)) (pf_hunks f))"

text \<open>The patch: the bytes of the header range and those of the selected hunks.\<close>

definition patch_of :: "bytes \<Rightarrow> ParsedFile \<Rightarrow> (ParsedHunk \<times> str) list \<Rightarrow> bytes" where
  "patch_of buf f selected =
     slice buf (pf_header_range f) @ concat (map (\<lambda>(h, _). slice buf (hk_body_range h)) selected)"

definition apply_args :: "MutationKind \<Rightarrow> str list" where
  "apply_args mutation = lit ''apply'' # (case mutation of
       Stage \<Rightarrow> [lit ''--cached''] | Unstage \<Rightarrow> map lit [''--cached'', ''--reverse''] | Discard \<Rightarrow> [lit ''--reverse''])
     @ map lit [''--whitespace=nowarn'', ''-'']"

definition apply_patch :: "(bytes \<Rightarrow> bytes) \<Rightarrow> 'w Host \<Rightarrow> DiffEngine \<Rightarrow> MutationKind \<Rightarrow> str list
    \<Rightarrow> FileEntry \<Rightarrow> bytes \<Rightarrow> Progress \<Rightarrow> 'w Shell \<Rightarrow> (CoreError + Progress) \<times> 'w Shell" where
  "apply_patch sha256 H E mutation ids entry buf pg sh =
     (case parse_diff buf of
        [] \<Rightarrow> (Inr pg, sh)
      | f # _ \<Rightarrow>
          (let selected = selected_hunks sha256 f ids in
           if selected = [] then (Inr pg, sh)
           else and_then (run_git_with_stdin H (de_worktree_path E) (apply_args mutation) (Some (patch_of buf f selected)) sh)
             (\<lambda>out sh.
               if go_success out then
                 (Inr (pg\<lparr> pg_applied := pg_applied pg @ map snd selected, pg_affected := pg_affected pg @ [fe_path entry] \<rparr>),
                  if mutation = Unstage \<and> fe_status entry = Added \<and> length selected = length (pf_hunks f)
                  then snd (run_git H (de_worktree_path E) [lit ''rm'', lit ''--cached'', lit ''--'', fe_path entry] sh)
                  else sh)
               else
                 (let reason = (if stderr_means_patch_rejected (go_stderr out) then lit ''patch_rejected'' else lit ''stale'')
                  in (Inr (pg\<lparr> pg_rejected := pg_rejected pg @ map (\<lambda>(_, i). (i, reason)) selected \<rparr>), sh)))))"

definition discard_untracked :: "(bytes \<Rightarrow> bytes) \<Rightarrow> 'w Host \<Rightarrow> DiffEngine \<Rightarrow> str list
    \<Rightarrow> FileEntry \<Rightarrow> Progress \<Rightarrow> 'w Shell \<Rightarrow> (CoreError + Progress) \<times> 'w Shell" where
  "discard_untracked sha256 H E ids entry pg sh =
     and_then (diff_untracked H E (fe_path entry) sh) (\<lambda>synth sh.
       let matched = (case synth of [] \<Rightarrow> []
             | f # _ \<Rightarrow> filter (\<lambda>i. i \<in> set ids) (map hu_hunk_id (build_hunks sha256 f False))) in
       if matched = [] then (Inr pg, sh)
       else (Inr (pg\<lparr> pg_applied := pg_applied pg @ matched, pg_affected := pg_affected pg @ [fe_path entry] \<rparr>),
             sh\<lparr> sh_world := ho_remove_file H (path_join (de_worktree_path E) (fe_path entry)) (sh_world sh) \<rparr>))"

definition intent_args :: "str \<Rightarrow> str list" where
  "intent_args path = [lit ''add'', lit ''--intent-to-add'', lit ''--'', path]"

definition mutate_file :: "(bytes \<Rightarrow> bytes) \<Rightarrow> 'w Host \<Rightarrow> DiffEngine \<Rightarrow> MutationKind \<Rightarrow> str list
    \<Rightarrow> FileEntry \<Rightarrow> Progress \<Rightarrow> 'w Shell \<Rightarrow> (CoreError + Progress) \<times> 'w Shell" where
  "mutate_file sha256 H E mutation ids entry pg sh =
     (if fe_kind entry = Binary \<or> fe_kind entry = Submodule then (Inr pg, sh)
      else if mutation = Discard \<and> fe_status entry = Untracked then discard_untracked sha256 H E ids entry pg sh
      else
        (let sh1 = (if mutation = Stage \<and> fe_status entry = Untracked
               then snd (run_git H (de_worktree_path E) (intent_args (fe_path entry)) sh) else sh)
         in and_then (raw_diff H E (fe_path entry) (mutation = Unstage) sh1)
              (\<lambda>buf sh. apply_patch sha256 H E mutation ids entry buf pg sh)))"

fun mutate_files :: "(bytes \<Rightarrow> bytes) \<Rightarrow> 'w Host \<Rightarrow> DiffEngine \<Rightarrow> MutationKind \<Rightarrow> str list
    \<Rightarrow> FileEntry list \<Rightarrow> Progress \<Rightarrow> 'w Shell \<Rightarrow> (CoreError + Progress) \<times> 'w Shell" where
  "mutate_files sha256 H E mutation ids [] pg sh = (Inr pg, sh)"
| "mutate_files sha256 H E mutation ids (entry # entries) pg sh =
     and_then (mutate_file sha256 H E mutation ids entry pg sh)
       (\<lambda>pg sh. mutate_files sha256 H E mutation ids entries pg sh)"

text \<open>The BTreeMap by path: sorted, the last of equal paths.\<close>

definition candidate_files :: "FileEntry list \<Rightarrow> FileEntry list" where
  "candidate_files files =
     map (\<lambda>p. last (filter (\<lambda>f. fe_path f = p) files)) (sort (remdups (map fe_path files)))"

definition backfill :: "str list \<Rightarrow> Progress \<Rightarrow> (str \<times> str) list" where
  "backfill ids pg = pg_rejected pg
     @ map (\<lambda>i. (i, lit ''stale'')) (filter (\<lambda>i. i \<notin> set (pg_applied pg) \<union> fst ` set (pg_rejected pg)) ids)"

definition apply_mutation :: "(bytes \<Rightarrow> bytes) \<Rightarrow> 'w Host \<Rightarrow> DiffEngine \<Rightarrow> str list \<Rightarrow> MutationKind \<Rightarrow> 'w Shell
    \<Rightarrow> (CoreError + MutationOutcome) \<times> 'w Shell" where
  "apply_mutation sha256 H E ids mutation sh =
     and_then (status H E sh) (\<lambda>snapshot sh.
       if ids = [] then
         (Inr \<lparr> mo_applied = [], mo_rejected = [], mo_status = ss_files snapshot, mo_affected_files = [] \<rparr>, sh)
       else and_then (mutate_files sha256 H E mutation ids (candidate_files (ss_files snapshot))
                \<lparr> pg_applied = [], pg_rejected = [], pg_affected = [] \<rparr> sh) (\<lambda>pg sh.
            and_then (status H E sh) (\<lambda>after sh.
              (Inr \<lparr> mo_applied = pg_applied pg, mo_rejected = backfill ids pg, mo_status = ss_files after,
                 mo_affected_files = pg_affected pg \<rparr>, sh))))"

section \<open>Committing\<close>

definition classify_commit_error :: "str \<Rightarrow> int option \<Rightarrow> CoreError" where
  "classify_commit_error stderr exit_code = (let s = ascii_lower stderr in
     if contains s (lit ''nothing to commit'') \<or> contains s (lit ''no changes added to commit'')
        \<or> contains s (lit ''nothing added to commit'') then WorktreeCommitEmpty
     else if (case exit_code of Some c \<Rightarrow> c | None \<Rightarrow> 0) \<noteq> 0 then WorktreeCommitHookFailed (trim_stderr stderr)
     else WorktreeProvision (trim_stderr stderr))"

text \<open>The first of str::lines.\<close>

definition first_line :: "str \<Rightarrow> str" where
  "first_line s = (let l = takeWhile ((\<noteq>) 10) s in
     if l \<noteq> s \<and> l \<noteq> [] \<and> last l = 13 then butlast l else l)"

definition commit :: "'w Host \<Rightarrow> DiffEngine \<Rightarrow> str \<Rightarrow> bool \<Rightarrow> 'w Shell \<Rightarrow> (CoreError + CommitOutcome) \<times> 'w Shell" where
  "commit H E message allow_empty sh =
     and_then (run_git_with_stdin H (de_worktree_path E)
         (map lit [''commit'', ''-F'', ''-''] @ (if allow_empty then [lit ''--allow-empty''] else []))
         (Some (as_bytes message)) sh) (\<lambda>out sh.
       if \<not> go_success out then (Inl (classify_commit_error (go_stderr out) (go_exit_code out)), sh)
       else and_then (head_sha H E sh) (\<lambda>sha sh.
         and_then (run_git H (de_worktree_path E)
             [lit ''diff-tree'', lit ''--no-commit-id'', lit ''--name-only'', lit ''-r'', sha] sh) (\<lambda>names sh.
           (Inr \<lparr> co_commit_sha = sha, co_summary = first_line message,
              co_files_changed = (if go_success names
                then length (filter (\<lambda>l. trim l \<noteq> []) (split_on 10 (go_stdout names))) mod 2 ^ 32 else 0) \<rparr>, sh))))"

section \<open>Editors\<close>

definition line_col_target :: "str \<Rightarrow> nat option \<Rightarrow> nat option \<Rightarrow> str" where
  "line_col_target target line column = (case (line, column) of
       (Some l, Some c) \<Rightarrow> target @ 58 # show_nat l @ 58 # show_nat c
     | (Some l, None) \<Rightarrow> target @ 58 # show_nat l
     | _ \<Rightarrow> target)"

definition editor_argv :: "str \<Rightarrow> str \<Rightarrow> nat option \<Rightarrow> nat option \<Rightarrow> str list" where
  "editor_argv editor target line column = (case split_ws editor of
       [] \<Rightarrow> []
     | program # flags \<Rightarrow>
         (let basename = ascii_lower (case path_file_name program of Some b \<Rightarrow> b | None \<Rightarrow> program);
              named = (\<lambda>names. basename \<in> set (map lit names)) in
          (program # flags) @
          (if named [''code'', ''code-insiders'', ''cursor'', ''vscodium'', ''windsurf'']
           then [lit ''--goto'', line_col_target target line column]
           else if named [''zed'', ''zeditor''] then [line_col_target target line column]
           else if named [''idea'', ''pycharm'', ''webstorm'', ''rustrover'', ''clion'']
           then (case line of Some l \<Rightarrow> [lit ''--line'', show_nat l] | None \<Rightarrow> []) @ [target]
           else if named [''vim'', ''nvim'', ''vi'', ''emacs'', ''emacsclient'']
           then (case line of Some l \<Rightarrow> [43 # show_nat l] | None \<Rightarrow> []) @ [target]
           else [target])))"

definition not_blank :: "str option \<Rightarrow> str option" where
  "not_blank v = (case v of Some s \<Rightarrow> if trim s = [] then None else Some s | None \<Rightarrow> None)"

definition choose_editor :: "'w Host \<Rightarrow> str option \<Rightarrow> 'w \<Rightarrow> str option" where
  "choose_editor H editor_override w = (case not_blank editor_override of
       Some e \<Rightarrow> Some e
     | None \<Rightarrow> (case not_blank (ho_env_var H (lit ''VISUAL'') w) of
         Some e \<Rightarrow> Some e
       | None \<Rightarrow> (case not_blank (ho_env_var H (lit ''EDITOR'') w) of
           Some e \<Rightarrow> Some e
         | None \<Rightarrow> if ho_which H (lit ''code'') w then Some (lit ''code'') else None)))"

definition open_in_editor :: "'w Host \<Rightarrow> DiffEngine \<Rightarrow> str \<Rightarrow> nat option \<Rightarrow> nat option \<Rightarrow> str option \<Rightarrow> 'w Shell
    \<Rightarrow> (CoreError + LaunchOutcome) \<times> 'w Shell" where
  "open_in_editor H E path line column editor_override sh =
     (case choose_editor H editor_override (sh_world sh) of
        None \<Rightarrow> (Inl WorktreeEditorUnavailable, sh)
      | Some editor \<Rightarrow>
          (let argv = editor_argv editor (path_join (de_worktree_path E) path) line column in
           if argv = [] then (Inl WorktreeEditorUnavailable, sh)
           else case ho_spawn H argv (sh_world sh) of
             (r, w) \<Rightarrow> ((case r of Inl e \<Rightarrow> Inl (WorktreeIo e)
                | Inr pid \<Rightarrow> Inr \<lparr> lo_launched = True, lo_command = join (lit '' '') argv, lo_pid = Some pid \<rparr>),
               sh\<lparr> sh_world := w \<rparr>)))"

section \<open>Properties\<close>

subsection \<open>Accounting\<close>

text \<open>What one file contributes: ids that were asked for.\<close>

definition progress_ok :: "str list \<Rightarrow> Progress \<Rightarrow> bool" where
  "progress_ok ids pg \<longleftrightarrow> set (pg_applied pg) \<union> fst ` set (pg_rejected pg) \<subseteq> set ids"

lemma progress_add [simp]:
  "progress_ok ids (pg\<lparr> pg_applied := pg_applied pg @ xs, pg_affected := ys \<rparr>)
    \<longleftrightarrow> progress_ok ids pg \<and> set xs \<subseteq> set ids"
  "progress_ok ids (pg\<lparr> pg_rejected := pg_rejected pg @ rs \<rparr>) \<longleftrightarrow> progress_ok ids pg \<and> fst ` set rs \<subseteq> set ids"
  by (auto simp: progress_ok_def)

lemma selected_ids [simp]:
  "snd ` set (selected_hunks sha256 f ids) \<subseteq> set ids"
  "(\<lambda>(h, i). i) ` set (selected_hunks sha256 f ids) \<subseteq> set ids"
  by (auto simp: selected_hunks_def)

lemma apply_patch_ok:
  assumes "apply_patch sha256 H E mutation ids entry buf pg sh = (Inr pg', sh')" "progress_ok ids pg"
  shows "progress_ok ids pg'"
proof (cases "parse_diff buf")
  case Nil
  then show ?thesis using assms by (simp add: apply_patch_def)
next
  case (Cons f fs)
  show ?thesis
  proof (cases "selected_hunks sha256 f ids = []")
    case False
    with assms Cons show ?thesis
      by (auto simp: apply_patch_def Let_def image_image split_beta simp del: set_map elim!: and_thenE split: if_splits)
         (auto simp: selected_hunks_def)
  qed (use assms Cons in \<open>simp add: apply_patch_def\<close>)
qed

lemma mutate_file_ok:
  assumes "mutate_file sha256 H E mutation ids entry pg sh = (Inr pg', sh')" "progress_ok ids pg"
  shows "progress_ok ids pg'"
proof -
  have "progress_ok ids pg'" if "discard_untracked sha256 H E ids entry pg sh = (Inr pg', sh')"
    using that assms(2)
    by (auto simp: discard_untracked_def Let_def elim!: and_thenE split: if_splits list.splits)
  then show ?thesis
    using assms apply_patch_ok by (auto simp: mutate_file_def Let_def elim!: and_thenE split: if_splits)
qed

lemma mutate_files_ok:
  "mutate_files sha256 H E mutation ids entries pg sh = (Inr pg', sh') \<Longrightarrow> progress_ok ids pg \<Longrightarrow> progress_ok ids pg'"
  by (induction entries arbitrary: pg sh) (auto elim!: and_thenE dest: mutate_file_ok)

lemma apply_mutation_parts:
  assumes "apply_mutation sha256 H E ids mutation sh = (Inr out, sh')" "ids \<noteq> []"
  obtains snapshot sh1 pg sh2 after where "status H E sh = (Inr snapshot, sh1)"
    "mutate_files sha256 H E mutation ids (candidate_files (ss_files snapshot))
       \<lparr> pg_applied = [], pg_rejected = [], pg_affected = [] \<rparr> sh1 = (Inr pg, sh2)"
    "status H E sh2 = (Inr after, sh')"
    "out = \<lparr> mo_applied = pg_applied pg, mo_rejected = backfill ids pg, mo_status = ss_files after,
       mo_affected_files = pg_affected pg \<rparr>"
  using assms by (auto simp: apply_mutation_def elim!: and_thenE)

text \<open>A call that stages, unstages or discards hunks and returns has answered for every
  hunk it was asked for, as applied or as rejected, and for no other.\<close>

theorem every_hunk_answered:
  assumes "apply_mutation sha256 H E ids mutation sh = (Inr out, sh')"
  shows "set (mo_applied out) \<union> fst ` set (mo_rejected out) = set ids"
proof (cases "ids = []")
  case True
  then show ?thesis using assms by (auto simp: apply_mutation_def elim!: and_thenE)
next
  case False
  obtain pg where pg: "out = \<lparr> mo_applied = pg_applied pg, mo_rejected = backfill ids pg, mo_status = mo_status out,
       mo_affected_files = pg_affected pg \<rparr>" and ok: "progress_ok ids pg"
    by (rule apply_mutation_parts[OF assms False]) (auto simp: progress_ok_def dest!: mutate_files_ok)
  have "mo_applied out = pg_applied pg" "mo_rejected out = backfill ids pg" by (subst pg, simp)+
  moreover have "fst ` set (backfill ids pg)
      = fst ` set (pg_rejected pg) \<union> (set ids - (set (pg_applied pg) \<union> fst ` set (pg_rejected pg)))"
    by (simp add: backfill_def image_Un image_image set_eq_iff)
  ultimately show ?thesis using ok by (auto simp: progress_ok_def)
qed

subsection \<open>The patch\<close>

lemma patch_of_read_file:
  assumes "hs \<noteq> []" "set (map fst selected) \<subseteq> set (pf_hunks (read_file pre hs))"
  shows "patch_of (diff_bytes pre hs) (read_file pre hs) selected
    = text_of pre @ concat (map hunk_bytes (butlast hs))
      @ concat (map (\<lambda>(h, _). slice (diff_bytes pre hs) (hk_body_range h)) selected)"
  using read_file_slices(2)[OF assms(1)] by (simp add: patch_of_def)

lemma read_hunks_length [simp]: "length (read_hunks pos hs) = length hs"
  by (induction hs arbitrary: pos) simp_all

lemma select_last:
  assumes "pf_hunks f = ks @ [k]" "\<forall>j\<in>set ks. hunk_id sha256 f j \<noteq> hunk_id sha256 f k"
  shows "selected_hunks sha256 f [hunk_id sha256 f k] = [(k, hunk_id sha256 f k)]"
  using assms by (simp add: selected_hunks_def filter_empty_conv)

text \<open>C4. Asked to stage, unstage or discard only the last hunk of a tracked file, the engine
  hands git the diff of the whole file, with all the hunks before it, and reports the last
  hunk alone as applied: the parser extends the header range of a file to the start of its
  last hunk, and the patch begins with that range.  It is right for a file with one hunk.\<close>

theorem last_hunk_applies_whole_diff:
  assumes "header_ok pre" "list_all hunk_ok hs" "pf_hunks (read_file pre hs) = ks @ [k]"
    and "\<forall>j\<in>set ks. hunk_id sha256 (read_file pre hs) j \<noteq> hunk_id sha256 (read_file pre hs) k"
    and "fe_kind entry = TextFile" "fe_status entry \<noteq> Untracked"
    and diff: "\<And>w. fst (ho_git H (de_worktree_path E) (diff_args (mutation = Unstage) (fe_path entry)) None w)
      = GitExited (diff_bytes pre hs) [] (Some 0)"
    and ok: "\<And>w. fst (ho_git H (de_worktree_path E) (apply_args mutation) (Some (diff_bytes pre hs)) w)
      = GitExited [] [] (Some 0)"
  shows "\<exists>sh' rest. mutate_file sha256 H E mutation [hunk_id sha256 (read_file pre hs) k] entry pg sh
      = (Inr (pg\<lparr> pg_applied := pg_applied pg @ [hunk_id sha256 (read_file pre hs) k],
               pg_affected := pg_affected pg @ [fe_path entry] \<rparr>), sh')
    \<and> sh_calls sh' = sh_calls sh @ [call (de_worktree_path E) (diff_args (mutation = Unstage) (fe_path entry)),
         \<lparr> gc_repo = de_worktree_path E, gc_args = apply_args mutation, gc_stdin = Some (diff_bytes pre hs) \<rparr>] @ rest"
proof -
  let ?f = "read_file pre hs"
  have "hs \<noteq> []" using assms(3) by (auto simp: read_file_def)
  then have hs: "hs = butlast hs @ [last hs]" by simp
  have "map (\<lambda>k. slice (diff_bytes pre hs) (hk_body_range k)) (ks @ [k]) = map hunk_bytes (butlast hs @ [last hs])"
    using read_file_slices(1)[of pre hs] assms(3) hs by simp
  then have "slice (diff_bytes pre hs) (hk_body_range k) = hunk_bytes (last hs)" by simp
  moreover have "concat (map hunk_bytes hs) = concat (map hunk_bytes (butlast hs)) @ hunk_bytes (last hs)"
    using \<open>hs \<noteq> []\<close> by (cases hs rule: rev_cases) simp_all
  ultimately have patch: "patch_of (diff_bytes pre hs) ?f [(k, hunk_id sha256 ?f k)] = diff_bytes pre hs"
    using patch_of_read_file[of hs "[(k, hunk_id sha256 ?f k)]" pre] \<open>hs \<noteq> []\<close> assms(3)
    by (simp add: diff_bytes_def)
  obtain w where r: "raw_diff H E (fe_path entry) (mutation = Unstage) sh
      = (Inr (diff_bytes pre hs), \<lparr> sh_world = w, sh_calls = sh_calls sh
          @ [call (de_worktree_path E) (diff_args (mutation = Unstage) (fe_path entry))] \<rparr>)"
    using diff[of "sh_world sh"]
    by (cases "ho_git H (de_worktree_path E) (diff_args (mutation = Unstage) (fe_path entry)) None (sh_world sh)")
       (simp add: raw_diff_def run_git_def run_git_with_stdin_def git_result_def call_def)
  obtain w' where "ho_git H (de_worktree_path E) (apply_args mutation) (Some (diff_bytes pre hs)) w = (GitExited [] [] (Some 0), w')"
    using ok[of w] by (cases "ho_git H (de_worktree_path E) (apply_args mutation) (Some (diff_bytes pre hs)) w") auto
  then show ?thesis
    using assms(5,6) select_last[OF assms(3,4)]
    by (simp add: mutate_file_def r apply_patch_def parse_diff_bytes[OF assms(1,2)] patch run_git_with_stdin_def
        git_result_def run_git_def split_beta Let_def)
qed

subsection \<open>Untracked files\<close>

context shell_evolution
begin

lemma status: "R sh (snd (status H E sh))"
  by (auto simp: status_def head_sha_def current_branch_def Let_def
      intro!: and_then run refl split: prod.splits option.splits)
     (auto simp: ahead_behind_def split: sum.splits prod.splits intro: run[of _ H] dest!: arg_cong[of _ _ snd])

end

lemma mutate_files_stops:
  assumes "entry \<in> set entries" "\<And>pg sh. \<exists>e. fst (mutate_file sha256 H E mutation ids entry pg sh) = Inl e"
  shows "\<exists>e. fst (mutate_files sha256 H E mutation ids entries pg sh) = Inl e"
  using assms(1)
proof (induction entries arbitrary: pg sh)
  case (Cons x xs)
  obtain r sh1 where m: "mutate_file sha256 H E mutation ids x pg sh = (r, sh1)" by force
  show ?case
  proof (cases r)
    case (Inr pg1)
    then have "x \<noteq> entry" using assms(2)[of pg sh] m by auto
    then show ?thesis using Cons by (simp add: m Inr)
  qed (simp add: m)
qed simp

text \<open>While the status lists an untracked path that cannot be read as a file, which a
  directory that git does not know is, every call that discards hunks fails, whatever
  hunks it names; what it has discarded in files that come before is not reported.\<close>

theorem unreadable_untracked_blocks_discard:
  assumes "ids \<noteq> []" "fst (status H E sh) = Inr snapshot" "entry \<in> set (candidate_files (ss_files snapshot))"
    and "fe_kind entry = TextFile" "fe_status entry = Untracked"
    and "\<And>w. ho_read H (path_join (de_worktree_path E) (fe_path entry)) w \<in> range Inl"
  shows "\<exists>e. fst (apply_mutation sha256 H E ids Discard sh) = Inl e"
proof -
  obtain sh1 where s: "status H E sh = (Inr snapshot, sh1)" using assms(2) by (cases "status H E sh") simp
  let ?pg = "\<lparr> pg_applied = [], pg_rejected = [], pg_affected = [] \<rparr>"
  have "\<exists>e. fst (mutate_file sha256 H E Discard ids entry pg sh) = Inl e" for pg sh
    using assms(4,5) assms(6)[of "sh_world sh"]
    by (auto simp: mutate_file_def discard_untracked_def diff_untracked_def)
  then obtain e where "fst (mutate_files sha256 H E Discard ids (candidate_files (ss_files snapshot)) ?pg sh1) = Inl e"
    using mutate_files_stops[OF assms(3)] by blast
  then show ?thesis
    using assms(1) by (cases "mutate_files sha256 H E Discard ids (candidate_files (ss_files snapshot)) ?pg sh1")
      (simp add: apply_mutation_def s)
qed

context shell_evolution
begin

lemma raw_diff: "R sh (snd (raw_diff H E p staged sh))"
  by (auto simp: raw_diff_def intro: run)

lemma apply_patch: "R sh (snd (apply_patch sha256 H E mutation ids entry buf pg sh))"
  by (auto simp: apply_patch_def Let_def intro!: and_then git run refl split: list.splits)

lemma mutate_file: "R sh (snd (mutate_file sha256 H E mutation ids entry pg sh))"
proof -
  have "R sh (snd (discard_untracked sha256 H E ids entry pg sh))" for sh
    by (auto simp: discard_untracked_def diff_untracked_def Let_def intro!: and_then world refl split: sum.splits)
  then show ?thesis
    by (auto simp: mutate_file_def Let_def intro!: and_then apply_patch raw_diff trans[OF run raw_diff] refl)
qed

lemma mutate_files: "R sh (snd (mutate_files sha256 H E mutation ids entries pg sh))"
  by (induction entries arbitrary: pg sh) (auto intro!: and_then mutate_file refl)

end

lemma stage_untracked:
  assumes "fe_kind entry = TextFile" "fe_status entry = Untracked"
  shows "prefix (sh_calls sh @ [call (de_worktree_path E) (intent_args (fe_path entry))])
    (sh_calls (snd (mutate_file sha256 H E Stage ids entry pg sh)))"
proof -
  let ?sh1 = "snd (run_git H (de_worktree_path E) (intent_args (fe_path entry)) sh)"
  have "prefix (sh_calls ?sh1) (sh_calls (snd (mutate_file sha256 H E Stage ids entry pg sh)))"
    using assms by (simp add: mutate_file_def del: command_calls)
      (rule calls_grow.and_then[OF calls_grow.raw_diff calls_grow.apply_patch])
  then show ?thesis by simp
qed

lemma stage_untracked_files:
  assumes "mutate_files sha256 H E Stage ids entries pg sh = (Inr pg', sh')" "entry \<in> set entries"
    "fe_kind entry = TextFile" "fe_status entry = Untracked"
  shows "\<exists>cs. prefix (sh_calls sh @ cs @ [call (de_worktree_path E) (intent_args (fe_path entry))]) (sh_calls sh')"
  using assms(1,2)
proof (induction entries arbitrary: pg sh)
  case (Cons x xs)
  obtain pg1 sh1 where m: "mutate_file sha256 H E Stage ids x pg sh = (Inr pg1, sh1)"
    and r: "mutate_files sha256 H E Stage ids xs pg1 sh1 = (Inr pg', sh')"
    using Cons.prems(1) by (auto elim!: and_thenE)
  have rest: "prefix (sh_calls sh1) (sh_calls sh')" using calls_grow.mutate_files[of sh1 sha256 H E Stage ids xs pg1] by (simp add: r)
  show ?case
  proof (cases "x = entry")
    case True
    then have "prefix (sh_calls sh @ [call (de_worktree_path E) (intent_args (fe_path entry))]) (sh_calls sh1)"
      using stage_untracked[OF assms(3,4), of sh E sha256 H ids pg] m by simp
    then show ?thesis using rest by (intro exI[of _ "[]"]) (auto intro: prefix_order.trans)
  next
    case False
    then obtain cs where "prefix (sh_calls sh1 @ cs @ [call (de_worktree_path E) (intent_args (fe_path entry))]) (sh_calls sh')"
      using Cons.IH[OF r] Cons.prems(2) by auto
    moreover obtain ds where "sh_calls sh1 = sh_calls sh @ ds"
      using calls_grow.mutate_file[of sh sha256 H E Stage ids x pg] m by (auto simp: prefix_def)
    ultimately show ?thesis by (intro exI[of _ "ds @ cs"]) simp
  qed
qed simp

text \<open>A call that stages some hunks and returns has told git to add every untracked file
  to the index as a file to be added, whether or not the call names a hunk of it.\<close>

theorem stage_marks_every_untracked_file:
  assumes "apply_mutation sha256 H E ids Stage sh = (Inr out, sh')" "ids \<noteq> []"
    and "fst (status H E sh) = Inr snapshot" "entry \<in> set (candidate_files (ss_files snapshot))"
    and "fe_kind entry = TextFile" "fe_status entry = Untracked"
  shows "call (de_worktree_path E) (intent_args (fe_path entry)) \<in> set (drop (length (sh_calls sh)) (sh_calls sh'))"
proof -
  obtain snap sh1 pg sh2 after where s: "status H E sh = (Inr snap, sh1)"
    and m: "mutate_files sha256 H E Stage ids (candidate_files (ss_files snap))
       \<lparr> pg_applied = [], pg_rejected = [], pg_affected = [] \<rparr> sh1 = (Inr pg, sh2)"
    and t: "status H E sh2 = (Inr after, sh')"
    by (rule apply_mutation_parts[OF assms(1,2)])
  have "snap = snapshot" using s assms(3) by simp
  then obtain cs where c: "prefix (sh_calls sh1 @ cs @ [call (de_worktree_path E) (intent_args (fe_path entry))]) (sh_calls sh2)"
    using stage_untracked_files[OF m _ assms(5,6)] assms(4) by blast
  moreover obtain ds where "sh_calls sh1 = sh_calls sh @ ds"
    using calls_grow.status[of sh H E] s by (auto simp: prefix_def)
  moreover have "prefix (sh_calls sh2) (sh_calls sh')" using calls_grow.status[of sh2 H E] t by simp
  ultimately show ?thesis by (auto simp: prefix_def)
qed

subsection \<open>Names with spaces\<close>

text \<open>The fields of a fingerprint that come from the name of the file.\<close>

definition plain_header :: "bytes \<Rightarrow> bool" where
  "plain_header l \<longleftrightarrow> \<not> starts_with (line_str l) (lit ''rename to '') \<and> \<not> starts_with (line_str l) (lit ''copy to '')"

definition name_line :: "str \<Rightarrow> bytes" where
  "name_line p = as_bytes (lit ''diff --git a/'' @ p @ lit '' b/'' @ p)"

lemma header_line_path: "plain_header l \<Longrightarrow> pf_new_path (header_line (line_str l) f) = pf_new_path f"
  by (auto simp: plain_header_def starts_with_def header_line_def Let_def set_if_def split: option.splits)

lemma read_header_path:
  assumes "list_all plain_header pre"
  shows "pf_new_path (read_header (l # pre)) = snd (parse_diff_header (line_str l))"
proof -
  have "pf_new_path (foldl (\<lambda>f l. header_line (line_str l) f) f pre) = pf_new_path f" for f
    using assms by (induction pre arbitrary: f) (simp_all add: header_line_path)
  then show ?thesis by (simp add: read_header_def new_file_def split: prod.splits)
qed

definition word :: "str \<Rightarrow> bool" where
  "word u \<longleftrightarrow> u \<noteq> [] \<and> list_all (\<lambda>c. \<not> is_ws c) u \<and> list_all scalar u"

lemma spaced_name_path:
  assumes "word u" "word v"
  shows "snd (parse_diff_header (line_str (name_line (u @ 32 # v)))) = strip_or (lit ''b/'') v"
proof -
  let ?fields = "[lit ''a/'' @ u, v, lit ''b/'' @ u, v]"
  have "list_all (\<lambda>f. f \<noteq> [] \<and> list_all (\<lambda>c. \<not> is_ws c) f) ?fields"
    using assms by (simp add: word_def lit_def is_ws_def)
  note fields = split_ws_join[OF this]
  have shape: "lit ''diff --git a/'' @ (u @ 32 # v) @ lit '' b/'' @ u @ 32 # v = lit ''diff --git '' @ join [32] ?fields"
    by (simp add: lit_def)
  have scalars: "list_all scalar (lit ''diff --git a/'' @ (u @ 32 # v) @ lit '' b/'' @ u @ 32 # v)"
    using assms by (simp add: word_def lit_def scalar_def)
  have "line_str (name_line (u @ 32 # v)) = lit ''diff --git '' @ join [32] ?fields"
    unfolding line_str_def name_line_def using from_utf8_as_bytes[OF scalars] by (simp only: shape option.case)
  moreover have "is_ws 10" by (simp add: is_ws_def)
  then obtain v1 c where v: "v = v1 @ [c]" "c \<noteq> 10"
    using assms(2) by (cases v rule: rev_cases) (auto simp: word_def)
  have "trim_end_char 10 (join [32] ?fields) = join [32] ?fields"
    by (simp add: trim_end_char_def v)
  ultimately show ?thesis
    using fields by (simp only: parse_diff_header_def strip_prefix_append option.case list.case snd_conv)
qed

text \<open>The fingerprint of a hunk is to name one hunk of one file, but of a file name with a
  space only the second word enters it: files that differ in the first word alone, and
  have a hunk with the same text, share its id, so that a call that names the hunk of one
  applies to both.\<close>

theorem spaced_names_share_ids:
  assumes "word u1" "word u2" "word v" "list_all plain_header pre1" "list_all plain_header pre2"
  shows "hunk_id sha256 (read_file (name_line (u1 @ 32 # v) # pre1) hs1) h
    = hunk_id sha256 (read_file (name_line (u2 @ 32 # v) # pre2) hs2) h"
  by (simp add: hunk_id_def read_file_def read_header_path[OF assms(4)] read_header_path[OF assms(5)]
      spaced_name_path[OF assms(1,3)] spaced_name_path[OF assms(2,3)])

section \<open>Worked examples\<close>

definition demo_engine :: DiffEngine where
  "demo_engine = \<lparr> de_worktree_path = lit ''/w'', de_base_branch = None \<rparr>"

definition demo_entry :: "str \<Rightarrow> FileStatus \<Rightarrow> FileEntry" where
  "demo_entry path st = (missing_entry path 0)\<lparr> fe_status := st \<rparr>"

text \<open>Here the hash function keeps its argument: the two hunks start at different lines.\<close>

lemma demo_ids:
  assumes "pf_hunks (read_file demo_pre demo_hunks) = [j, k]"
  shows "hunk_id (\<lambda>x. x) (read_file demo_pre demo_hunks) j \<noteq> hunk_id (\<lambda>x. x) (read_file demo_pre demo_hunks) k"
proof -
  have "plain_header (as_bytes (lit ''--- a/f''))" "plain_header (as_bytes (lit ''+++ b/f''))"
    by (simp_all add: plain_header_def starts_with_def) (simp_all add: lit_def)
  then have path: "pf_new_path (read_file demo_pre demo_hunks) = lit ''f''"
    using read_header_path[of "tl demo_pre" "hd demo_pre"]
    by (simp add: demo_pre_def read_file_def) (simp add: parse_diff_header_def lit_def trim_end_char_def split_ws_def is_ws_def strip_or_def)
  have range: "hk_old_start (body_line l h) = hk_old_start h" for h l
    by (simp add: body_line_def Let_def split: list.splits)
  have "hk_old_start j = 1" "hk_old_start k = 9"
    using assms by (auto simp: read_file_def demo_hunks_def read_hunk_def demo_headers range empty_hunk_def)
  moreover have "show_nat 1 = [49]" "show_nat 9 = [57]" by (subst show_nat.simps, simp)+
  ultimately show ?thesis
    by (simp add: hunk_id_def compute_hunk_id_def path) (simp add: lit_def utf8_char_def hex2_def hex_digit_def)
qed

lemma last_hunk_applies_whole_diff_witness:
  "\<exists>k sh' rest. mutate_file (\<lambda>x. x) (demo_host (\<lambda>args. GitExited (if hd args = lit ''diff'' then diff_bytes demo_pre demo_hunks else []) [] (Some 0)))
      demo_engine Discard [k] (demo_entry (lit ''f'') Modified) \<lparr> pg_applied = [], pg_rejected = [], pg_affected = [] \<rparr> demo_shell
    = (Inr \<lparr> pg_applied = [k], pg_rejected = [], pg_affected = [lit ''f''] \<rparr>, sh')
    \<and> sh_calls sh' = [call (lit ''/w'') (diff_args False (lit ''f'')),
        \<lparr> gc_repo = lit ''/w'', gc_args = apply_args Discard, gc_stdin = Some (diff_bytes demo_pre demo_hunks) \<rparr>] @ rest"
proof -
  let ?H = "demo_host (\<lambda>args. GitExited (if hd args = lit ''diff'' then diff_bytes demo_pre demo_hunks else []) [] (Some 0))"
  obtain j k where jk: "pf_hunks (read_file demo_pre demo_hunks) = [j] @ [k]"
    by (simp add: read_file_def demo_hunks_def)
  have "\<forall>x\<in>set [j]. hunk_id (\<lambda>x. x) (read_file demo_pre demo_hunks) x \<noteq> hunk_id (\<lambda>x. x) (read_file demo_pre demo_hunks) k"
    using demo_ids[of j k] jk by simp
  from last_hunk_applies_whole_diff[OF demo_header demo_hunks_ok jk this, of "demo_entry (lit ''f'') Modified" ?H demo_engine Discard
      "\<lparr> pg_applied = [], pg_rejected = [], pg_affected = [] \<rparr>" demo_shell]
  show ?thesis
    by (intro exI[of _ "hunk_id (\<lambda>x. x) (read_file demo_pre demo_hunks) k"])
      (simp add: demo_entry_def missing_entry_def demo_engine_def demo_host_def demo_shell_def diff_args_def apply_args_def)
qed

text \<open>A status with one untracked path.\<close>

definition status_host :: "string \<Rightarrow> unit Host" where
  "status_host path = demo_host (\<lambda>args. GitExited
     (if hd args = lit ''status'' then as_bytes (lit ''? '' @ lit path @ [0]) else []) [] (Some 0))"

lemma status_host_files:
  assumes "path \<in> {''a'', ''d/''}"
  shows "\<exists>snapshot. fst (status (status_host path) demo_engine sh) = Inr snapshot
    \<and> candidate_files (ss_files snapshot) = [file_entry (status_host path) demo_engine () (plain_entry (lit path) Untracked 1)]"
proof -
  have "parse_porcelain_v2 (as_bytes (lit ''? '' @ lit path @ [0])) = [plain_entry (lit path) Untracked 1]"
    using assms by (auto simp: parse_porcelain_v2_def) (simp_all add: lit_def utf8_char_def porcelain_record_def utf8_next_def split_once_def)
  then show ?thesis
    by (simp add: status_def head_sha_def current_branch_def run_git_def run_git_with_stdin_def git_result_def
        status_host_def demo_host_def demo_engine_def candidate_files_def file_entry_def plain_entry_def)
qed

lemma demo_stage:
  "\<exists>out sh'. apply_mutation (\<lambda>x. x) (status_host ''a'') demo_engine [lit ''x''] Stage demo_shell = (Inr out, sh')"
proof -
  obtain snapshot sh1 where s: "status (status_host ''a'') demo_engine demo_shell = (Inr snapshot, sh1)"
    and e: "candidate_files (ss_files snapshot) = [file_entry (status_host ''a'') demo_engine () (plain_entry (lit ''a'') Untracked 1)]"
    using status_host_files[of "''a''" demo_shell] by (cases "status (status_host ''a'') demo_engine demo_shell") auto
  have "parse_diff [] = []" by (simp add: parse_diff_def parse_loop.simps flush_file_def flush_hunk_def)
  then obtain pg sh2 where m: "mutate_files (\<lambda>x. x) (status_host ''a'') demo_engine Stage [lit ''x''] (candidate_files (ss_files snapshot))
      \<lparr> pg_applied = [], pg_rejected = [], pg_affected = [] \<rparr> sh1 = (Inr pg, sh2)"
    by (simp add: e mutate_file_def file_entry_def plain_entry_def raw_diff_def run_git_def run_git_with_stdin_def
        git_result_def status_host_def demo_host_def diff_args_def apply_patch_def)
  obtain after sh3 where "status (status_host ''a'') demo_engine sh2 = (Inr after, sh3)"
    using status_host_files[of "''a''" sh2] by (cases "status (status_host ''a'') demo_engine sh2") auto
  then show ?thesis by (simp add: apply_mutation_def s m)
qed

lemma every_hunk_answered_witness:
  "\<exists>out sh'. apply_mutation (\<lambda>x. x) (status_host ''a'') demo_engine [lit ''x''] Stage demo_shell = (Inr out, sh')
    \<and> set (mo_applied out) \<union> fst ` set (mo_rejected out) = {lit ''x''}"
proof -
  obtain out sh' where m: "apply_mutation (\<lambda>x. x) (status_host ''a'') demo_engine [lit ''x''] Stage demo_shell = (Inr out, sh')"
    using demo_stage by blast
  show ?thesis using every_hunk_answered[OF m] m by simp
qed

lemma unreadable_untracked_blocks_discard_witness:
  "\<exists>e. fst (apply_mutation (\<lambda>x. x) (status_host ''d/'') demo_engine [lit ''x''] Discard demo_shell) = Inl e"
proof -
  obtain snapshot where "fst (status (status_host ''d/'') demo_engine demo_shell) = Inr snapshot"
    "candidate_files (ss_files snapshot) = [file_entry (status_host ''d/'') demo_engine () (plain_entry (lit ''d/'') Untracked 1)]"
    using status_host_files[of "''d/''" demo_shell] by auto
  then show ?thesis
    by (intro unreadable_untracked_blocks_discard) (auto simp: file_entry_def plain_entry_def status_host_def demo_host_def)
qed

lemma stage_marks_every_untracked_file_witness:
  "\<exists>out sh'. apply_mutation (\<lambda>x. x) (status_host ''a'') demo_engine [lit ''x''] Stage demo_shell = (Inr out, sh')
    \<and> call (lit ''/w'') (intent_args (lit ''a'')) \<in> set (sh_calls sh')"
proof -
  obtain snapshot where s: "fst (status (status_host ''a'') demo_engine demo_shell) = Inr snapshot"
    and e: "candidate_files (ss_files snapshot) = [file_entry (status_host ''a'') demo_engine () (plain_entry (lit ''a'') Untracked 1)]"
    using status_host_files[of "''a''" demo_shell] by auto
  obtain out sh' where "apply_mutation (\<lambda>x. x) (status_host ''a'') demo_engine [lit ''x''] Stage demo_shell = (Inr out, sh')"
    using demo_stage by blast
  from stage_marks_every_untracked_file[OF this _ s, of "hd (candidate_files (ss_files snapshot))"] this
  show ?thesis by (auto simp: e file_entry_def plain_entry_def demo_engine_def demo_shell_def)
qed

lemma spaced_names_share_ids_witness:
  "\<forall>h. hunk_id (\<lambda>x. x) (read_file [name_line (lit ''old'' @ 32 # lit ''name'')] demo_hunks) h
    = hunk_id (\<lambda>x. x) (read_file [name_line (lit ''new'' @ 32 # lit ''name'')] demo_hunks) h"
  by (rule allI, rule spaced_names_share_ids) (simp_all add: word_def, simp_all add: lit_def is_ws_def)

end
