(* ===== verification/Json_Rpc.thy ===== *)
theory Json_Rpc
  imports Json_Value Wire_Errors
begin

text \<open>
  Model of \<open>la-proto/src/jsonrpc.rs\<close>: the JSON-RPC envelopes, how serde writes them and how
  it reads an untagged message back.
\<close>

section \<open>Envelopes\<close>

datatype RequestId = Num "64 word" | Str str | Null

record RpcError =
  er_code :: int
  er_message :: str
  er_data :: "json option"

record Request =
  req_id :: RequestId
  req_method :: str
  req_params :: "json option"

record Notification =
  nt_method :: str
  nt_params :: "json option"

datatype ResponseOutcome = Result json | Error RpcError

record Response =
  rsp_id :: RequestId
  rsp_outcome :: ResponseOutcome

datatype Message = RequestMsg Request | ResponseMsg Response | NotificationMsg Notification

definition VERSION :: json where "VERSION = JString (lit ''2.0'')"

section \<open>Errors\<close>

definition rpc_error :: "int \<Rightarrow> str \<Rightarrow> RpcError" where
  "rpc_error code message = \<lparr> er_code = code, er_message = message, er_data = None \<rparr>"

definition with_data :: "json \<Rightarrow> RpcError \<Rightarrow> RpcError" where
  "with_data d e = e\<lparr> er_data := Some d \<rparr>"

definition parse_error :: "str \<Rightarrow> RpcError" where "parse_error = rpc_error (rpc_code Parse)"
definition invalid_request :: "str \<Rightarrow> RpcError" where "invalid_request = rpc_error (rpc_code InvalidRequest)"
definition invalid_params :: "str \<Rightarrow> RpcError" where "invalid_params = rpc_error (rpc_code InvalidParams)"
definition internal_error :: "str \<Rightarrow> RpcError" where "internal_error = rpc_error (rpc_code Internal)"

definition method_not_found :: "str \<Rightarrow> RpcError" where
  "method_not_found m = rpc_error (rpc_code MethodNotFound) (lit ''method not found: '' @ m)"

text \<open>to_rpc_error: unit, which serde writes as null, attaches nothing.\<close>

definition to_rpc_error :: "ErrorKind \<Rightarrow> str \<Rightarrow> json \<Rightarrow> RpcError" where
  "to_rpc_error k message data =
     (let e = rpc_error (rpc_code k) message in if data = JNull then e else e\<lparr> er_data := Some data \<rparr>)"

section \<open>Writing\<close>

fun id_value :: "RequestId \<Rightarrow> json" where
  "id_value (Num n) = JInt (sint n)"
| "id_value (Str s) = JString s"
| "id_value Null = JNull"

definition error_value :: "RpcError \<Rightarrow> json" where
  "error_value e = JObject ([(lit ''code'', JInt (er_code e)), (lit ''message'', JString (er_message e))]
     @ opt_entry (lit ''data'') (er_data e))"

fun outcome_entry :: "ResponseOutcome \<Rightarrow> str \<times> json" where
  "outcome_entry (Result v) = (lit ''result'', v)"
| "outcome_entry (Error e) = (lit ''error'', error_value e)"

fun message_value :: "Message \<Rightarrow> json" where
  "message_value (RequestMsg r) = JObject ([(lit ''jsonrpc'', VERSION), (lit ''id'', id_value (req_id r)),
     (lit ''method'', JString (req_method r))] @ opt_entry (lit ''params'') (req_params r))"
| "message_value (ResponseMsg r) = JObject [(lit ''jsonrpc'', VERSION), (lit ''id'', id_value (rsp_id r)),
     outcome_entry (rsp_outcome r)]"
| "message_value (NotificationMsg n) = JObject ([(lit ''jsonrpc'', VERSION),
     (lit ''method'', JString (nt_method n))] @ opt_entry (lit ''params'') (nt_params n))"

section \<open>Reading\<close>

text \<open>The visitor of RequestId.  The number comes as u64 when it is not negative, and is
  cast to i64.\<close>

fun read_id :: "json option \<Rightarrow> RequestId option" where
  "read_id (Some (JInt n)) = Some (Num (word_of_int n))"
| "read_id (Some (JString s)) = Some (Str s)"
| "read_id (Some JNull) = Some Null"
| "read_id _ = None"

definition read_version :: "json option \<Rightarrow> unit option" where
  "read_version f = (case read_str f of None \<Rightarrow> None | Some s \<Rightarrow> if s = lit ''2.0'' then Some () else None)"

definition read_error :: "json option \<Rightarrow> RpcError option" where
  "read_error f = (case f of None \<Rightarrow> None | Some v \<Rightarrow>
     (case struct_fields (map lit [''code'', ''message'', ''data'']) v of
        Some [c, m, d] \<Rightarrow> (case (read_i32 c, read_str m, read_opt read_value d) of
            (Some c, Some m, Some d) \<Rightarrow> Some \<lparr> er_code = c, er_message = m, er_data = d \<rparr>
          | _ \<Rightarrow> None)
      | _ \<Rightarrow> None))"

definition read_request :: "json \<Rightarrow> Request option" where
  "read_request v =
     (case struct_fields (map lit [''jsonrpc'', ''id'', ''method'', ''params'']) v of
        Some [j, i, m, p] \<Rightarrow>
          (case (read_version j, read_id i, read_str m, read_opt read_value p) of
             (Some _, Some i, Some m, Some p) \<Rightarrow> Some \<lparr> req_id = i, req_method = m, req_params = p \<rparr>
           | _ \<Rightarrow> None)
      | _ \<Rightarrow> None)"

definition read_notification :: "json \<Rightarrow> Notification option" where
  "read_notification v =
     (case struct_fields (map lit [''jsonrpc'', ''method'', ''params'']) v of
        Some [j, m, p] \<Rightarrow>
          (case (read_version j, read_str m, read_opt read_value p) of
             (Some _, Some m, Some p) \<Rightarrow> Some \<lparr> nt_method = m, nt_params = p \<rparr>
           | _ \<Rightarrow> None)
      | _ \<Rightarrow> None)"

text \<open>The pair of options behind ResponseOutcome, from the keys that Response leaves.\<close>

definition read_outcome :: "(str \<times> json) list \<Rightarrow> ResponseOutcome option" where
  "read_outcome m =
     (case (read_opt read_value (map_of m (lit ''result'')), read_opt read_error (map_of m (lit ''error''))) of
        (Some (Some r), Some None) \<Rightarrow> Some (Result r)
      | (Some None, Some (Some e)) \<Rightarrow> Some (Error e)
      | _ \<Rightarrow> None)"

text \<open>A struct with a flattened field is only read from an object.\<close>

fun read_response :: "json \<Rightarrow> Response option" where
  "read_response (JObject m) =
     (case (read_version (map_of m (lit ''jsonrpc'')), read_id (map_of m (lit ''id'')), read_outcome m) of
        (Some _, Some i, Some oc) \<Rightarrow> Some \<lparr> rsp_id = i, rsp_outcome = oc \<rparr>
      | _ \<Rightarrow> None)"
| "read_response _ = None"

definition read_message :: "json \<Rightarrow> Message option" where
  "read_message v =
     (case read_request v of Some r \<Rightarrow> Some (RequestMsg r)
      | None \<Rightarrow> (case read_response v of Some r \<Rightarrow> Some (ResponseMsg r)
      | None \<Rightarrow> map_option NotificationMsg (read_notification v)))"

definition from_slice :: "(bytes \<Rightarrow> str + json) \<Rightarrow> bytes \<Rightarrow> RpcError + Message" where
  "from_slice parse bs =
     (case parse bs of
        Inl e \<Rightarrow> Inl (parse_error (lit ''invalid JSON: '' @ e))
      | Inr v \<Rightarrow> (case read_message v of
            Some m \<Rightarrow> Inr m
          | None \<Rightarrow> Inl (invalid_request (lit ''not a valid JSON-RPC message: '' @
              lit ''data did not match any variant of untagged enum Message''))))"

section \<open>What can be read back\<close>

text \<open>The messages that survive: an option that holds null is read as nothing, and a code
  is 32 bits.\<close>

fun outcome_ok :: "ResponseOutcome \<Rightarrow> bool" where
  "outcome_ok (Result v) \<longleftrightarrow> v \<noteq> JNull"
| "outcome_ok (Error e) \<longleftrightarrow> - (2 ^ 31) \<le> er_code e \<and> er_code e < 2 ^ 31 \<and> er_data e \<noteq> Some JNull"

fun wire_ok :: "Message \<Rightarrow> bool" where
  "wire_ok (RequestMsg r) \<longleftrightarrow> req_params r \<noteq> Some JNull"
| "wire_ok (ResponseMsg r) \<longleftrightarrow> outcome_ok (rsp_outcome r)"
| "wire_ok (NotificationMsg n) \<longleftrightarrow> nt_params n \<noteq> Some JNull"

lemma read_version_VERSION [json_simps]: "read_version (Some VERSION) = Some ()"
  by (simp add: read_version_def VERSION_def)

lemma read_id_value [json_simps]: "read_id (Some (id_value i)) = Some i"
  by (cases i) simp_all

lemma read_error_value [json_simps]:
  assumes "- (2 ^ 31) \<le> er_code e" "er_code e < 2 ^ 31" "er_data e \<noteq> Some JNull"
  shows "read_error (Some (error_value e)) = Some e"
  using assms
  by (cases "er_data e") (auto simp: read_error_def error_value_def json_simps read_i32_def lit_eq_iff)

lemma error_value_not_null [simp]: "error_value e \<noteq> JNull"
  by (simp add: error_value_def)

lemma read_outcome_result [json_simps]:
  "v \<noteq> JNull \<Longrightarrow>
   read_outcome [(lit ''jsonrpc'', j), (lit ''id'', i), (lit ''result'', v)] = Some (Result v)"
  by (simp add: read_outcome_def lit_eq_iff json_simps)

lemma read_outcome_error [json_simps]:
  "- (2 ^ 31) \<le> er_code e \<Longrightarrow> er_code e < 2 ^ 31 \<Longrightarrow> er_data e \<noteq> Some JNull \<Longrightarrow>
   read_outcome [(lit ''jsonrpc'', j), (lit ''id'', i), (lit ''error'', error_value e)] = Some (Error e)"
  by (simp add: read_outcome_def lit_eq_iff json_simps)

lemma message_fields:
  assumes "wire_ok m" shows "read_message (message_value m) = Some m"
proof (cases m)
  case (RequestMsg r)
  then show ?thesis using assms
    by (cases r; cases "req_params r")
      (auto simp: read_message_def read_request_def json_simps lit_eq_iff)
next
  case (ResponseMsg r)
  then show ?thesis using assms
    by (cases r; cases "rsp_outcome r")
      (auto simp: read_message_def read_request_def json_simps lit_eq_iff)
next
  case (NotificationMsg n)
  then show ?thesis using assms
    by (cases n; cases "nt_params n")
      (auto simp: read_message_def read_request_def read_notification_def read_version_def VERSION_def
        read_outcome_def json_simps lit_eq_iff)
qed

section \<open>Theorems\<close>

definition serde_ok :: "(bytes \<Rightarrow> str + json) \<Rightarrow> (json \<Rightarrow> bytes) \<Rightarrow> json \<Rightarrow> bool" where
  "serde_ok parse to_vec v \<longleftrightarrow> parse (to_vec v) = Inr v"

lemma from_slice_value:
  "serde_ok parse to_vec (message_value m) \<Longrightarrow> wire_ok m \<Longrightarrow>
   from_slice parse (to_vec (message_value m)) = Inr m"
  by (simp add: from_slice_def serde_ok_def message_fields)

lemma null_result_unread:
  "read_message (message_value (ResponseMsg \<lparr> rsp_id = i, rsp_outcome = Result JNull \<rparr>)) = None"
  by (simp add: read_message_def read_request_def read_outcome_def read_notification_def
      json_simps lit_eq_iff)

text \<open>A response whose result is null, which the specification allows, is written by the
  one side and refused by the other as carrying neither result nor error; and an object
  with both members, which the specification forbids, is taken as the error when its
  result is null.\<close>

theorem null_result_is_no_response:
  assumes "serde_ok parse to_vec (message_value (ResponseMsg r))" "rsp_outcome r = Result JNull"
  shows "(\<exists>msg. from_slice parse (to_vec (message_value (ResponseMsg r))) = Inl (invalid_request msg))
    \<and> read_response (JObject [(lit ''jsonrpc'', VERSION), (lit ''id'', id_value i),
         (lit ''result'', JNull), (lit ''error'', error_value (rpc_error (rpc_code k) msg))])
       = Some \<lparr> rsp_id = i, rsp_outcome = Error (rpc_error (rpc_code k) msg) \<rparr>"
proof
  have "r = \<lparr> rsp_id = rsp_id r, rsp_outcome = Result JNull \<rparr>" using assms(2) by simp
  then have "read_message (message_value (ResponseMsg r)) = None" using null_result_unread by metis
  then show "\<exists>msg. from_slice parse (to_vec (message_value (ResponseMsg r))) = Inl (invalid_request msg)"
    using assms(1) by (auto simp: from_slice_def serde_ok_def simp del: message_value.simps)
  have code: "- (2 ^ 31) \<le> rpc_code k \<and> rpc_code k < 2 ^ 31" by (cases k) simp_all
  then have "read_error (Some (error_value (rpc_error (rpc_code k) msg))) = Some (rpc_error (rpc_code k) msg)"
    by (intro read_error_value) (simp_all add: rpc_error_def)
  then show "read_response (JObject [(lit ''jsonrpc'', VERSION), (lit ''id'', id_value i),
         (lit ''result'', JNull), (lit ''error'', error_value (rpc_error (rpc_code k) msg))])
       = Some \<lparr> rsp_id = i, rsp_outcome = Error (rpc_error (rpc_code k) msg) \<rparr>"
    by (simp add: read_outcome_def lit_eq_iff json_simps)
qed

lemma null_result_is_no_response_witness:
  "\<exists>msg. from_slice (\<lambda>bs. Inr (message_value (ResponseMsg \<lparr> rsp_id = Num 1, rsp_outcome = Result JNull \<rparr>)))
     ((\<lambda>v. [1]) (message_value (ResponseMsg \<lparr> rsp_id = Num 1, rsp_outcome = Result JNull \<rparr>)))
     = Inl (invalid_request msg)"
  using null_result_is_no_response
    [where parse = "\<lambda>bs. Inr (message_value (ResponseMsg \<lparr> rsp_id = Num 1, rsp_outcome = Result JNull \<rparr>))"
      and to_vec = "\<lambda>v. [1]" and r = "\<lparr> rsp_id = Num 1, rsp_outcome = Result JNull \<rparr>"]
  by (simp add: serde_ok_def)

end
