(* ===== verification/Ipc_Connection.thy ===== *)
theory Ipc_Connection
  imports Json_Rpc
begin

text \<open>
  Model of \<open>la-ipc/src/connection.rs\<close>: messages over a byte stream, framed by the codec.  A
  connection holds what the reads of its stream will return (an empty read, or none left,
  is the end of the stream), the bytes read and not yet decoded, and what was written.
  serde_json's printer and parser are the parameters \<open>to_vec\<close> and \<open>parse\<close>.  The halves of a
  split connection are the same operations on the two parts of the state.
\<close>

record Conn =
  cn_reads :: "bytes list"
  cn_buf :: bytes
  cn_out :: bytes
  cn_open :: bool

datatype ConnError = CodecError IpcError | RpcDecode RpcError | Io str

definition fresh_conn :: "bytes list \<Rightarrow> Conn" where
  "fresh_conn rs = \<lparr> cn_reads = rs, cn_buf = [], cn_out = [], cn_open = True \<rparr>"

definition send_bytes :: "bytes \<Rightarrow> Conn \<Rightarrow> (ConnError + unit) \<times> Conn" where
  "send_bytes bs c =
     (if length bs > MAX_MESSAGE_BYTES
      then (Inl (CodecError (EncodeTooLarge (length bs) MAX_MESSAGE_BYTES)), c)
      else if \<not> cn_open c then (Inl (Io (lit ''Broken pipe'')), c)
      else case encode bs (cn_out c) of
          Inl e \<Rightarrow> (Inl (CodecError e), c)
        | Inr out \<Rightarrow> (Inr (), c\<lparr> cn_out := out \<rparr>))"

definition send :: "(json \<Rightarrow> bytes) \<Rightarrow> Message \<Rightarrow> Conn \<Rightarrow> (ConnError + unit) \<times> Conn" where
  "send to_vec m c = send_bytes (to_vec (message_value m)) c"

text \<open>Framed's next: decode from the buffer, read more while no frame is whole; at the end of
  the stream the buffer has to be empty.\<close>

definition at_eof :: "bytes \<Rightarrow> (ConnError + bytes option) \<times> bytes \<times> bytes list" where
  "at_eof buf = (if buf = [] then Inr None else Inl (Io (lit ''bytes remaining on stream'')), buf, [])"

fun next_frame :: "bytes \<Rightarrow> bytes list \<Rightarrow> (ConnError + bytes option) \<times> bytes \<times> bytes list" where
  "next_frame buf [] =
     (case decode buf of
        Inl e \<Rightarrow> (Inl (CodecError e), buf, [])
      | Inr (Some f, rest) \<Rightarrow> (Inr (Some f), rest, [])
      | Inr (None, rest) \<Rightarrow> at_eof rest)"
| "next_frame buf (r # rs) =
     (case decode buf of
        Inl e \<Rightarrow> (Inl (CodecError e), buf, r # rs)
      | Inr (Some f, rest) \<Rightarrow> (Inr (Some f), rest, r # rs)
      | Inr (None, rest) \<Rightarrow> if r = [] then at_eof rest else next_frame (rest @ r) rs)"

definition recv_message ::
    "(bytes \<Rightarrow> str + json) \<Rightarrow> Conn \<Rightarrow> (ConnError + Message option) \<times> Conn" where
  "recv_message parse c =
     (case next_frame (cn_buf c) (cn_reads c) of
        (r, buf, rs) \<Rightarrow>
          (case r of
             Inl e \<Rightarrow> Inl e
           | Inr None \<Rightarrow> Inr None
           | Inr (Some f) \<Rightarrow> (case from_slice parse f of
                 Inl e \<Rightarrow> Inl (RpcDecode e) | Inr m \<Rightarrow> Inr (Some m)),
           c\<lparr> cn_buf := buf, cn_reads := rs \<rparr>))"

section \<open>Sending and receiving\<close>

definition sendable :: "(bytes \<Rightarrow> str + json) \<Rightarrow> (json \<Rightarrow> bytes) \<Rightarrow> Message \<Rightarrow> bool" where
  "sendable parse to_vec m \<longleftrightarrow> wire_ok m \<and> serde_ok parse to_vec (message_value m)
     \<and> length (to_vec (message_value m)) \<le> MAX_MESSAGE_BYTES"

abbreviation wire :: "(json \<Rightarrow> bytes) \<Rightarrow> Message \<Rightarrow> bytes" where
  "wire to_vec m \<equiv> frame (to_vec (message_value m))"

lemma send_ok:
  "length (to_vec (message_value m)) \<le> MAX_MESSAGE_BYTES \<Longrightarrow> cn_open c \<Longrightarrow>
   send to_vec m c = (Inr (), c\<lparr> cn_out := cn_out c @ wire to_vec m \<rparr>)"
  by (simp add: send_def send_bytes_def encode_ok)

lemma next_frame_whole:
  assumes "buf @ concat rs = frame item @ rest" "[] \<notin> set rs" "length item \<le> MAX_MESSAGE_BYTES"
  shows "\<exists>buf' rs'. next_frame buf rs = (Inr (Some item), buf', rs') \<and> buf' @ concat rs' = rest
    \<and> [] \<notin> set rs'"
  using assms
proof (induction rs arbitrary: buf)
  case Nil
  then have "decode buf = Inr (Some item, rest)" using decode_frame[of item rest] by simp
  then show ?case by simp
next
  case (Cons r rs)
  have whole: "decode (buf @ r @ concat rs) = Inr (Some item, rest)"
    using Cons.prems decode_frame[of item rest] by simp
  show ?case
  proof (cases "decode buf")
    case (Inl e)
    then show ?thesis using whole decode_append_error[of buf e "r @ concat rs"] by simp
  next
    case (Inr p)
    obtain f b where p: "p = (f, b)" by (cases p)
    show ?thesis
    proof (cases f)
      case None
      then have "b = buf" using Inr p decode_waits by blast
      moreover have "(buf @ r) @ concat rs = frame item @ rest" using Cons.prems(1) by simp
      then have "\<exists>buf' rs'. next_frame (buf @ r) rs = (Inr (Some item), buf', rs')
          \<and> buf' @ concat rs' = rest \<and> [] \<notin> set rs'"
        using Cons.prems Cons.IH[of "buf @ r"] by auto
      ultimately show ?thesis using Inr p None Cons.prems(2) by auto
    next
      case (Some g)
      then have "decode (buf @ r @ concat rs) = Inr (Some g, b @ r @ concat rs)"
        using Inr p decode_append[of buf g b "r @ concat rs"] by simp
      then show ?thesis using whole Inr p Some Cons.prems(2) by auto
    qed
  qed
qed

lemma next_frame_end: "next_frame [] [] = (Inr None, [], [])"
  by (simp add: at_eof_def decode_def LENGTH_PREFIX_BYTES_def)

lemma recv_whole:
  assumes "sendable parse to_vec m" "cn_buf c @ concat (cn_reads c) = wire to_vec m @ rest"
    "[] \<notin> set (cn_reads c)"
  shows "\<exists>buf rs. recv_message parse c = (Inr (Some m), c\<lparr> cn_buf := buf, cn_reads := rs \<rparr>)
    \<and> buf @ concat rs = rest \<and> [] \<notin> set rs"
proof -
  obtain buf rs where "next_frame (cn_buf c) (cn_reads c) = (Inr (Some (to_vec (message_value m))), buf, rs)"
    "buf @ concat rs = rest" "[] \<notin> set rs"
    using next_frame_whole[OF assms(2,3)] assms(1) by (auto simp: sendable_def)
  then show ?thesis using assms(1) from_slice_value[of parse to_vec m]
    by (auto simp: recv_message_def sendable_def)
qed

primrec send_all :: "(json \<Rightarrow> bytes) \<Rightarrow> Message list \<Rightarrow> Conn \<Rightarrow> Conn" where
  "send_all to_vec [] c = c"
| "send_all to_vec (m # ms) c = send_all to_vec ms (snd (send to_vec m c))"

primrec recv_n :: "(bytes \<Rightarrow> str + json) \<Rightarrow> nat \<Rightarrow> Conn \<Rightarrow> (ConnError + Message option) list" where
  "recv_n parse 0 c = []"
| "recv_n parse (Suc n) c = (case recv_message parse c of (r, c) \<Rightarrow> r # recv_n parse n c)"

lemma send_all_out:
  "list_all (sendable parse to_vec) ms \<Longrightarrow> cn_open c \<Longrightarrow>
   cn_out (send_all to_vec ms c) = cn_out c @ concat (map (wire to_vec) ms)"
  by (induction ms arbitrary: c) (simp_all add: send_ok sendable_def)

lemma recv_all:
  "list_all (sendable parse to_vec) ms \<Longrightarrow>
   cn_buf c @ concat (cn_reads c) = concat (map (wire to_vec) ms) \<Longrightarrow> [] \<notin> set (cn_reads c) \<Longrightarrow>
   recv_n parse (length ms + 1) c = map (\<lambda>m. Inr (Some m)) ms @ [Inr None]"
proof (induction ms arbitrary: c)
  case Nil
  then have "cn_buf c = [] \<and> cn_reads c = []" by (cases "cn_reads c") auto
  then show ?case by (simp add: recv_message_def next_frame_end del: next_frame.simps)
next
  case (Cons m ms)
  then obtain buf rs where r: "recv_message parse c = (Inr (Some m), c\<lparr> cn_buf := buf, cn_reads := rs \<rparr>)"
    "buf @ concat rs = concat (map (wire to_vec) ms)" "[] \<notin> set rs"
    using recv_whole[of parse to_vec m c "concat (map (wire to_vec) ms)"] by auto
  then show ?case using Cons.IH[of "c\<lparr> cn_buf := buf, cn_reads := rs \<rparr>"] Cons.prems by simp
qed


definition demo_note :: Message where
  "demo_note = NotificationMsg \<lparr> nt_method = lit ''session.gap'', nt_params = None \<rparr>"


end
