(* ===== verification/Handshake.thy ===== *)
theory Handshake
  imports Ipc_Connection
begin

text \<open>
  Model of \<open>la-ipc/src/handshake.rs\<close>: the negotiation of the protocol version over a
  connection, with the wire types of \<open>initialize\<close> from \<open>la-proto/src/methods.rs\<close>.  Where the
  code formats a reason into a text for the log, the error holds the reason.
\<close>

section \<open>The wire types\<close>

record InitializeParams =
  ip_client :: str
  ip_client_version :: str
  ip_protocol_versions :: "str list"

record ServerCapabilities =
  sc_adapters :: "str list"
  sc_cron :: bool
  sc_worktree :: bool
  sc_diff :: bool
  sc_events :: bool

record InitializeResult =
  ir_server :: str
  ir_server_version :: str
  ir_protocol_version :: str
  ir_capabilities :: ServerCapabilities

definition INITIALIZE :: str where "INITIALIZE = lit ''initialize''"

definition initialize_params_value :: "InitializeParams \<Rightarrow> json" where
  "initialize_params_value p = JObject [(lit ''client'', JString (ip_client p)),
     (lit ''client_version'', JString (ip_client_version p)),
     (lit ''protocol_versions'', JArray (map JString (ip_protocol_versions p)))]"

definition read_initialize_params :: "json \<Rightarrow> InitializeParams option" where
  "read_initialize_params v =
     (case struct_fields (map lit [''client'', ''client_version'', ''protocol_versions'']) v of
        Some [c, cv, vs] \<Rightarrow> (case (read_str c, read_str cv, read_list read_str vs) of
            (Some c, Some cv, Some vs) \<Rightarrow>
              Some \<lparr> ip_client = c, ip_client_version = cv, ip_protocol_versions = vs \<rparr>
          | _ \<Rightarrow> None)
      | _ \<Rightarrow> None)"

definition capabilities_value :: "ServerCapabilities \<Rightarrow> json" where
  "capabilities_value c = JObject [(lit ''adapters'', JArray (map JString (sc_adapters c))),
     (lit ''cron'', JBool (sc_cron c)), (lit ''worktree'', JBool (sc_worktree c)),
     (lit ''diff'', JBool (sc_diff c)), (lit ''events'', JBool (sc_events c))]"

definition read_capabilities :: "json option \<Rightarrow> ServerCapabilities option" where
  "read_capabilities f = (case f of None \<Rightarrow> None | Some v \<Rightarrow>
     (case struct_fields (map lit [''adapters'', ''cron'', ''worktree'', ''diff'', ''events'']) v of
        Some [a, c, w, d, e] \<Rightarrow>
          (case (read_default [] (read_list read_str) a, read_default False read_bool c,
                 read_default False read_bool w, read_default False read_bool d,
                 read_default False read_bool e) of
             (Some a, Some c, Some w, Some d, Some e) \<Rightarrow>
               Some \<lparr> sc_adapters = a, sc_cron = c, sc_worktree = w, sc_diff = d, sc_events = e \<rparr>
           | _ \<Rightarrow> None)
      | _ \<Rightarrow> None))"

definition initialize_result_value :: "InitializeResult \<Rightarrow> json" where
  "initialize_result_value r = JObject [(lit ''server'', JString (ir_server r)),
     (lit ''server_version'', JString (ir_server_version r)),
     (lit ''protocol_version'', JString (ir_protocol_version r)),
     (lit ''capabilities'', capabilities_value (ir_capabilities r))]"

definition read_initialize_result :: "json \<Rightarrow> InitializeResult option" where
  "read_initialize_result v =
     (case struct_fields (map lit [''server'', ''server_version'', ''protocol_version'', ''capabilities'']) v of
        Some [s, sv, pv, c] \<Rightarrow>
          (case (read_str s, read_str sv, read_str pv, read_capabilities c) of
             (Some s, Some sv, Some pv, Some c) \<Rightarrow> Some \<lparr> ir_server = s, ir_server_version = sv,
               ir_protocol_version = pv, ir_capabilities = c \<rparr>
           | _ \<Rightarrow> None)
      | _ \<Rightarrow> None)"

lemma read_params_value: "read_initialize_params (initialize_params_value p) = Some p"
  by (cases p) (simp add: read_initialize_params_def initialize_params_value_def lit_eq_iff json_simps)

lemma read_capabilities_value [json_simps]: "read_capabilities (Some (capabilities_value c)) = Some c"
  by (cases c) (simp add: read_capabilities_def capabilities_value_def lit_eq_iff json_simps)

lemma read_result_value: "read_initialize_result (initialize_result_value r) = Some r"
  by (cases r) (simp add: read_initialize_result_def initialize_result_value_def lit_eq_iff json_simps)

section \<open>The two sides\<close>

datatype Reason =
    Failed ConnError | Eof | GotRequest str | GotNotification str | NotRequest Message
  | FirstRequest str | BadParams | BadResult

datatype HandshakeError =
    UnexpectedMessage Reason
  | ServerRejected int str
  | NoCommonVersion "str list" "str list"
  | BadServerPick str

text \<open>\<open>map_err(io_to_handshake)\<close>, and the end of the stream taken for an error.\<close>

definition recv_some ::
    "(bytes \<Rightarrow> str + json) \<Rightarrow> Conn \<Rightarrow> (HandshakeError + Message) \<times> Conn" where
  "recv_some parse c = (case recv_message parse c of
       (Inl e, c) \<Rightarrow> (Inl (UnexpectedMessage (Failed e)), c)
     | (Inr None, c) \<Rightarrow> (Inl (UnexpectedMessage Eof), c)
     | (Inr (Some m), c) \<Rightarrow> (Inr m, c))"

definition send_or_fail ::
    "(json \<Rightarrow> bytes) \<Rightarrow> Message \<Rightarrow> Conn \<Rightarrow> (HandshakeError + unit) \<times> Conn" where
  "send_or_fail to_vec m c = (case send to_vec m c of
       (Inl e, c) \<Rightarrow> (Inl (UnexpectedMessage (Failed e)), c)
     | (Inr u, c) \<Rightarrow> (Inr u, c))"

definition initialize_request :: "InitializeParams \<Rightarrow> Message" where
  "initialize_request p = RequestMsg \<lparr> req_id = Num 1, req_method = INITIALIZE,
     req_params = Some (initialize_params_value p) \<rparr>"

text \<open>What the client makes of the answer.\<close>

fun client_answer :: "str list \<Rightarrow> Message \<Rightarrow> HandshakeError + InitializeResult" where
  "client_answer supported (RequestMsg r) = Inl (UnexpectedMessage (GotRequest (req_method r)))"
| "client_answer supported (NotificationMsg n) = Inl (UnexpectedMessage (GotNotification (nt_method n)))"
| "client_answer supported (ResponseMsg r) =
     (case rsp_outcome r of
        Error e \<Rightarrow> Inl (ServerRejected (er_code e) (er_message e))
      | Result v \<Rightarrow> (case read_initialize_result v of
            None \<Rightarrow> Inl (UnexpectedMessage BadResult)
          | Some info \<Rightarrow>
              if ir_protocol_version info \<in> set supported then Inr info
              else Inl (BadServerPick (ir_protocol_version info))))"

definition client_handshake ::
    "(bytes \<Rightarrow> str + json) \<Rightarrow> (json \<Rightarrow> bytes) \<Rightarrow> str \<Rightarrow> str \<Rightarrow> str list \<Rightarrow> Conn
      \<Rightarrow> (HandshakeError + InitializeResult) \<times> Conn" where
  "client_handshake parse to_vec name version supported c =
     and_then (send_or_fail to_vec (initialize_request
         \<lparr> ip_client = name, ip_client_version = version, ip_protocol_versions = supported \<rparr>) c)
       (\<lambda>_ c. and_then (recv_some parse c) (\<lambda>m c. (client_answer supported m, c)))"

definition respond :: "RequestId \<Rightarrow> ResponseOutcome \<Rightarrow> Message" where
  "respond i oc = ResponseMsg \<lparr> rsp_id = i, rsp_outcome = oc \<rparr>"

definition not_initialized :: RpcError where
  "not_initialized = rpc_error (rpc_code NotInitialized) (lit ''first request must be \"initialize\"'')"

definition no_common_version :: RpcError where
  "no_common_version = rpc_error (rpc_code UnsupportedProtocolVersion) (lit ''no common protocol version'')"

text \<open>The first version of the server's list that the client has too.\<close>

definition pick_version :: "str list \<Rightarrow> str list \<Rightarrow> str option" where
  "pick_version server client = find (\<lambda>v. v \<in> set client) server"

text \<open>The answer to the request of the client; a refusal is sent as well as the connection
  allows.\<close>

definition server_answer ::
    "(json \<Rightarrow> bytes) \<Rightarrow> str \<Rightarrow> str \<Rightarrow> str list \<Rightarrow> ServerCapabilities \<Rightarrow> Message \<Rightarrow> Conn
      \<Rightarrow> (HandshakeError + InitializeParams) \<times> Conn" where
  "server_answer to_vec name version supported caps m c =
     (case m of
        RequestMsg r \<Rightarrow>
          if req_method r \<noteq> INITIALIZE
          then (Inl (UnexpectedMessage (FirstRequest (req_method r))),
                snd (send to_vec (respond (req_id r) (Error not_initialized)) c))
          else (case read_initialize_params (case req_params r of Some v \<Rightarrow> v | None \<Rightarrow> JNull) of
              None \<Rightarrow> (Inl (UnexpectedMessage BadParams), c)
            | Some p \<Rightarrow> (case pick_version supported (ip_protocol_versions p) of
                  None \<Rightarrow> (Inl (NoCommonVersion (ip_protocol_versions p) supported),
                           snd (send to_vec (respond (req_id r) (Error no_common_version)) c))
                | Some v \<Rightarrow>
                    and_then (send_or_fail to_vec (respond (req_id r) (Result (initialize_result_value
                        \<lparr> ir_server = name, ir_server_version = version, ir_protocol_version = v,
                          ir_capabilities = caps \<rparr>))) c)
                      (\<lambda>_ c. (Inr p, c))))
      | _ \<Rightarrow> (Inl (UnexpectedMessage (NotRequest m)), c))"

definition server_handshake ::
    "(bytes \<Rightarrow> str + json) \<Rightarrow> (json \<Rightarrow> bytes) \<Rightarrow> str \<Rightarrow> str \<Rightarrow> str list \<Rightarrow> ServerCapabilities \<Rightarrow> Conn
      \<Rightarrow> (HandshakeError + InitializeParams) \<times> Conn" where
  "server_handshake parse to_vec name version supported caps c =
     and_then (recv_some parse c) (server_answer to_vec name version supported caps)"

section \<open>Agreement\<close>

lemma pick_version_spec:
  "pick_version server client = Some v \<Longrightarrow> v \<in> set server \<and> v \<in> set client"
  by (auto simp: pick_version_def find_Some_iff)

lemma pick_version_none: "pick_version server client = None \<longleftrightarrow> set server \<inter> set client = {}"
  by (auto simp: pick_version_def find_None_iff)

lemma recv_sent:
  assumes "sendable parse to_vec m" "cn_buf c = []" "concat (cn_reads c) = wire to_vec m" "[] \<notin> set (cn_reads c)"
  shows "\<exists>buf rs. recv_some parse c = (Inr m, c\<lparr> cn_buf := buf, cn_reads := rs \<rparr>)"
proof -
  obtain buf rs where "recv_message parse c = (Inr (Some m), c\<lparr> cn_buf := buf, cn_reads := rs \<rparr>)"
    using recv_whole[of parse to_vec m c "[]"] assms by auto
  then show ?thesis by (simp add: recv_some_def) blast
qed

lemma send_or_fail_ok:
  "length (to_vec (message_value m)) \<le> MAX_MESSAGE_BYTES \<Longrightarrow> cn_open c \<Longrightarrow>
   send_or_fail to_vec m c = (Inr (), c\<lparr> cn_out := cn_out c @ wire to_vec m \<rparr>)"
  by (simp add: send_or_fail_def send_ok)

lemma answers_wire_ok [simp]:
  "wire_ok (initialize_request p)" "wire_ok (respond i (Result (initialize_result_value r)))"
  "wire_ok (respond i (Error no_common_version))"
  by (simp_all add: initialize_request_def initialize_params_value_def respond_def
      initialize_result_value_def no_common_version_def rpc_error_def)

text \<open>What the server sends to a client that offers the versions \<open>cvs\<close>.\<close>

definition server_reply :: "str \<Rightarrow> str \<Rightarrow> str list \<Rightarrow> ServerCapabilities \<Rightarrow> str list \<Rightarrow> Message" where
  "server_reply name version supported caps cvs = respond (Num 1)
     (case pick_version supported cvs of
        None \<Rightarrow> Error no_common_version
      | Some v \<Rightarrow> Result (initialize_result_value \<lparr> ir_server = name, ir_server_version = version,
          ir_protocol_version = v, ir_capabilities = caps \<rparr>))"

lemma server_answer_initialize:
  assumes "length (to_vec (message_value (server_reply name version supported caps (ip_protocol_versions p))))
      \<le> MAX_MESSAGE_BYTES" "cn_open c"
  shows "server_answer to_vec name version supported caps (initialize_request p) c =
    ((if pick_version supported (ip_protocol_versions p) = None
      then Inl (NoCommonVersion (ip_protocol_versions p) supported) else Inr p),
     c\<lparr> cn_out := cn_out c @ wire to_vec (server_reply name version supported caps (ip_protocol_versions p)) \<rparr>)"
  using assms
  by (auto simp: server_answer_def initialize_request_def server_reply_def read_params_value
      send_or_fail_ok send_ok split: option.split)

lemma server_reply_ok [simp]: "wire_ok (server_reply name version supported caps cvs)"
  by (simp add: server_reply_def split: option.split)

text \<open>The two halves of the exchange: what each side writes, and its result.\<close>

lemma client_sends:
  assumes "sendable parse to_vec (initialize_request
      \<lparr> ip_client = name, ip_client_version = version, ip_protocol_versions = cvs \<rparr>)"
  shows "cn_out (snd (client_handshake parse to_vec name version cvs (fresh_conn rs)))
    = wire to_vec (initialize_request
        \<lparr> ip_client = name, ip_client_version = version, ip_protocol_versions = cvs \<rparr>)"
  using assms
  by (auto simp: client_handshake_def send_or_fail_ok sendable_def fresh_conn_def and_then_def
      recv_some_def recv_message_def split: prod.splits sum.splits option.splits)

lemma client_result:
  assumes "sendable parse to_vec (initialize_request
      \<lparr> ip_client = name, ip_client_version = version, ip_protocol_versions = cvs \<rparr>)"
    and "sendable parse to_vec m" "concat rs = wire to_vec m" "[] \<notin> set rs"
  shows "fst (client_handshake parse to_vec name version cvs (fresh_conn rs)) = client_answer cvs m"
proof -
  let ?p = "\<lparr> ip_client = name, ip_client_version = version, ip_protocol_versions = cvs \<rparr>"
  let ?c = "(fresh_conn rs)\<lparr> cn_out := wire to_vec (initialize_request ?p) \<rparr>"
  have "send_or_fail to_vec (initialize_request ?p) (fresh_conn rs) = (Inr (), ?c)"
    using assms(1) by (simp add: send_or_fail_ok sendable_def fresh_conn_def)
  moreover obtain b r where "recv_some parse ?c = (Inr m, ?c\<lparr> cn_buf := b, cn_reads := r \<rparr>)"
    using recv_sent[OF assms(2), of ?c] assms(3,4) by (auto simp: fresh_conn_def)
  ultimately show ?thesis by (simp add: client_handshake_def)
qed

lemma server_result:
  assumes "sendable parse to_vec (initialize_request p)" "concat rs = wire to_vec (initialize_request p)"
    and "[] \<notin> set rs" "sendable parse to_vec (server_reply name version svs caps (ip_protocol_versions p))"
  shows "fst (server_handshake parse to_vec name version svs caps (fresh_conn rs))
      = (if pick_version svs (ip_protocol_versions p) = None
         then Inl (NoCommonVersion (ip_protocol_versions p) svs) else Inr p)
    \<and> cn_out (snd (server_handshake parse to_vec name version svs caps (fresh_conn rs)))
      = wire to_vec (server_reply name version svs caps (ip_protocol_versions p))"
proof -
  obtain b r where "recv_some parse (fresh_conn rs)
      = (Inr (initialize_request p), (fresh_conn rs)\<lparr> cn_buf := b, cn_reads := r \<rparr>)"
    using recv_sent[OF assms(1), of "fresh_conn rs"] assms(2,3) by (auto simp: fresh_conn_def)
  then show ?thesis
    using assms(4) server_answer_initialize[of to_vec name version svs caps p]
    by (auto simp: server_handshake_def sendable_def fresh_conn_def)
qed

text \<open>Whatever versions the two sides list, they end the handshake with the same answer.
  With a version in common both succeed, on the first version of the server's list that
  the client offered, and the server knows the client's parameters; with none the
  server reports the two lists and the client is told UNSUPPORTED_PROTOCOL_VERSION.\<close>

theorem handshake_agrees:
  assumes "p = \<lparr> ip_client = cname, ip_client_version = cver, ip_protocol_versions = cvs \<rparr>"
    and "sendable parse to_vec (initialize_request p)"
    and "sendable parse to_vec (server_reply sname sver svs caps cvs)"
    and "client_handshake parse to_vec cname cver cvs (fresh_conn crs) = (rc, c')"
    and "server_handshake parse to_vec sname sver svs caps (fresh_conn srs) = (rs, s')"
    and "concat srs = cn_out c'" "[] \<notin> set srs" "concat crs = cn_out s'" "[] \<notin> set crs"
  shows "case pick_version svs cvs of
      Some v \<Rightarrow> v \<in> set cvs \<and> rs = Inr p \<and> rc = Inr \<lparr> ir_server = sname, ir_server_version = sver,
        ir_protocol_version = v, ir_capabilities = caps \<rparr>
    | None \<Rightarrow> rs = Inl (NoCommonVersion cvs svs)
        \<and> rc = Inl (ServerRejected (- 33002) (lit ''no common protocol version''))"
proof -
  have "concat srs = wire to_vec (initialize_request p)"
    using client_sends[of parse to_vec cname cver cvs crs] assms(1,2,4,6) by simp
  then have s: "rs = (if pick_version svs cvs = None then Inl (NoCommonVersion cvs svs) else Inr p)"
    "cn_out s' = wire to_vec (server_reply sname sver svs caps cvs)"
    using server_result[OF assms(2), of srs sname sver svs caps] assms(1,3,5,7) by auto
  then have "rc = client_answer cvs (server_reply sname sver svs caps cvs)"
    using client_result[of parse to_vec cname cver cvs "server_reply sname sver svs caps cvs" crs] assms by simp
  then show ?thesis
    using s(1) pick_version_spec[of svs cvs]
    by (auto simp: server_reply_def respond_def read_result_value no_common_version_def rpc_error_def
        split: option.split)
qed

section \<open>A worked example\<close>

definition demo_caps :: ServerCapabilities where
  "demo_caps = \<lparr> sc_adapters = [lit ''claude''], sc_cron = True, sc_worktree = True, sc_diff = True,
     sc_events = True \<rparr>"

definition demo_hello :: Message where
  "demo_hello = initialize_request \<lparr> ip_client = lit ''la'', ip_client_version = lit ''0.4'',
     ip_protocol_versions = map lit [''2'', ''1''] \<rparr>"

definition demo_reply :: Message where
  "demo_reply = server_reply (lit ''lad'') (lit ''0.5'') [lit ''1''] demo_caps (map lit [''2'', ''1''])"

definition demo_to_vec :: "json \<Rightarrow> bytes" where
  "demo_to_vec v = (if v = message_value demo_hello then [1] else [2])"

definition demo_parse :: "bytes \<Rightarrow> str + json" where
  "demo_parse bs = Inr (message_value (if bs = [1] then demo_hello else demo_reply))"

lemma demo_values: "message_value demo_reply \<noteq> message_value demo_hello"
  by (cases "pick_version [lit ''1''] (map lit [''2'', ''1''])")
    (simp_all add: demo_reply_def demo_hello_def server_reply_def respond_def initialize_request_def
      lit_eq_iff)

lemma demo_sendable: "sendable demo_parse demo_to_vec demo_hello" "sendable demo_parse demo_to_vec demo_reply"
  unfolding sendable_def serde_ok_def demo_to_vec_def demo_parse_def
  using demo_values by (auto simp: MAX_MESSAGE_BYTES_def demo_hello_def demo_reply_def
      simp del: message_value.simps)

lemma handshake_agrees_witness:
  "\<exists>c'. client_handshake demo_parse demo_to_vec (lit ''la'') (lit ''0.4'') (map lit [''2'', ''1''])
       (fresh_conn [wire demo_to_vec demo_reply])
     = (Inr \<lparr> ir_server = lit ''lad'', ir_server_version = lit ''0.5'', ir_protocol_version = lit ''1'',
          ir_capabilities = demo_caps \<rparr>, c')"
proof -
  let ?vs = "map lit [''2'', ''1'']"
  let ?p = "\<lparr> ip_client = lit ''la'', ip_client_version = lit ''0.4'', ip_protocol_versions = ?vs \<rparr>"
  have hello: "sendable demo_parse demo_to_vec (initialize_request ?p)"
    using demo_sendable(1) unfolding demo_hello_def .
  have reply: "sendable demo_parse demo_to_vec (server_reply (lit ''lad'') (lit ''0.5'') [lit ''1''] demo_caps ?vs)"
    using demo_sendable(2) unfolding demo_reply_def .
  obtain rc c' where c: "client_handshake demo_parse demo_to_vec (lit ''la'') (lit ''0.4'') ?vs
      (fresh_conn [wire demo_to_vec demo_reply]) = (rc, c')" by fastforce
  obtain rs s' where s: "server_handshake demo_parse demo_to_vec (lit ''lad'') (lit ''0.5'') [lit ''1'']
      demo_caps (fresh_conn [wire demo_to_vec demo_hello]) = (rs, s')" by fastforce
  have out: "concat [wire demo_to_vec demo_hello] = cn_out c'"
    using client_sends[OF hello, of "[wire demo_to_vec demo_reply]"] c by (simp add: demo_hello_def)
  have answer: "concat [wire demo_to_vec demo_reply] = cn_out s'"
    using server_result[OF hello, of "[wire demo_to_vec demo_hello]" "lit ''lad''" "lit ''0.5''" "[lit ''1'']"
        demo_caps] reply s by (simp add: demo_hello_def demo_reply_def put_u32_def)
  have pick: "pick_version [lit ''1''] ?vs = Some (lit ''1'')" by (simp add: pick_version_def)
  show ?thesis
    using handshake_agrees[OF refl hello reply c s out _ answer] c pick by (simp add: put_u32_def)
qed

end
