(* ===== verification/Event_Bus.thy ===== *)
theory Event_Bus
  imports Notifications Output_Hub
begin

text \<open>
  Model of \<open>la-core/src/event_bus.rs\<close>: one broadcast channel for the notifications that are
  not about the output of a session.  The channel is tokio's: a receiver gets every event
  sent after it subscribed, in order, unless it falls behind by more than the capacity;
  then it is told how many it missed and goes on with the oldest that is left.
\<close>

section \<open>Topics\<close>

datatype EventTopic =
    TSessionState | TSessionOutput | TSessionGap | TCronFired | TDaemonHealth | TSchedulerHealth
  | TWorktreeChanged | TWorktreeCommit

datatype Topic =
    SessionStateTopic | SessionGapTopic | CronFiredTopic | DaemonHealthTopic | SchedulerHealthTopic
  | WorktreeChangedTopic | WorktreeCommitTopic

fun as_proto :: "Topic \<Rightarrow> EventTopic" where
  "as_proto SessionStateTopic = TSessionState"
| "as_proto SessionGapTopic = TSessionGap"
| "as_proto CronFiredTopic = TCronFired"
| "as_proto DaemonHealthTopic = TDaemonHealth"
| "as_proto SchedulerHealthTopic = TSchedulerHealth"
| "as_proto WorktreeChangedTopic = TWorktreeChanged"
| "as_proto WorktreeCommitTopic = TWorktreeCommit"

fun from_proto :: "EventTopic \<Rightarrow> Topic option" where
  "from_proto TSessionState = Some SessionStateTopic"
| "from_proto TSessionGap = Some SessionGapTopic"
| "from_proto TCronFired = Some CronFiredTopic"
| "from_proto TDaemonHealth = Some DaemonHealthTopic"
| "from_proto TSchedulerHealth = Some SchedulerHealthTopic"
| "from_proto TWorktreeChanged = Some WorktreeChangedTopic"
| "from_proto TWorktreeCommit = Some WorktreeCommitTopic"
| "from_proto TSessionOutput = None"

lemma from_as_proto [simp]: "from_proto (as_proto t) = Some t"
  by (cases t) simp_all

section \<open>Events\<close>

datatype BusEvent =
    SessionStateEvent SessionStateParams
  | SessionGapEvent SessionGapParams
  | CronFiredEvent CronFired
  | DaemonHealthEvent DaemonHealthParams
  | SchedulerHealthEvent SchedulerHealthParams
  | WorktreeChangedEvent WorktreeChangedParams
  | WorktreeCommitEvent WorktreeCommitCreatedParams

fun topic :: "BusEvent \<Rightarrow> Topic" where
  "topic (SessionStateEvent _) = SessionStateTopic"
| "topic (SessionGapEvent _) = SessionGapTopic"
| "topic (CronFiredEvent _) = CronFiredTopic"
| "topic (DaemonHealthEvent _) = DaemonHealthTopic"
| "topic (SchedulerHealthEvent _) = SchedulerHealthTopic"
| "topic (WorktreeChangedEvent _) = WorktreeChangedTopic"
| "topic (WorktreeCommitEvent _) = WorktreeCommitTopic"

section \<open>The bus\<close>

text \<open>The events sent so far, and for each receiver how many of them it has behind it.\<close>

record Bus =
  bu_capacity :: nat
  bu_sent :: "BusEvent list"
  bu_receivers :: "(nat \<times> nat) list"
  bu_fresh :: nat

definition DEFAULT_BUS_CAPACITY :: nat where "DEFAULT_BUS_CAPACITY = 256"

definition with_capacity :: "nat \<Rightarrow> Bus" where
  "with_capacity cap = \<lparr> bu_capacity = max cap 1, bu_sent = [], bu_receivers = [], bu_fresh = 0 \<rparr>"

definition bus_subscribe :: "Bus \<Rightarrow> nat \<times> Bus" where
  "bus_subscribe b = (bu_fresh b, b\<lparr> bu_receivers := (bu_fresh b, length (bu_sent b)) # bu_receivers b,
     bu_fresh := bu_fresh b + 1 \<rparr>)"

definition bus_publish :: "BusEvent \<Rightarrow> Bus \<Rightarrow> nat \<times> Bus" where
  "bus_publish e b = (length (bu_receivers b), b\<lparr> bu_sent := bu_sent b @ [e] \<rparr>)"

definition receiver_count :: "Bus \<Rightarrow> nat" where "receiver_count b = length (bu_receivers b)"

definition bus_drop :: "nat \<Rightarrow> Bus \<Rightarrow> Bus" where
  "bus_drop i b = b\<lparr> bu_receivers := AList.delete i (bu_receivers b) \<rparr>"

datatype BusRecv = Received BusEvent | Lagged nat | Nothing

definition bus_recv :: "nat \<Rightarrow> Bus \<Rightarrow> BusRecv \<times> Bus" where
  "bus_recv i b = (case map_of (bu_receivers b) i of
       None \<Rightarrow> (Nothing, b)
     | Some n \<Rightarrow>
         let behind = length (bu_sent b) - n;
             set_pos = (\<lambda>k. b\<lparr> bu_receivers := AList.update i k (bu_receivers b) \<rparr>)
         in if behind = 0 then (Nothing, b)
            else if behind > bu_capacity b
            then (Lagged (behind - bu_capacity b), set_pos (length (bu_sent b) - bu_capacity b))
            else (Received (bu_sent b ! n), set_pos (n + 1)))"

primrec bus_take :: "nat \<Rightarrow> nat \<Rightarrow> Bus \<Rightarrow> BusRecv list \<times> Bus" where
  "bus_take i 0 b = ([], b)"
| "bus_take i (Suc k) b = (case bus_recv i b of (r, b) \<Rightarrow>
     (case bus_take i k b of (rs, b) \<Rightarrow> (r # rs, b)))"

section \<open>Delivery\<close>

definition bus_inv :: "Bus \<Rightarrow> bool" where
  "bus_inv b \<longleftrightarrow> bu_capacity b > 0 \<and> (\<forall>i n. map_of (bu_receivers b) i = Some n \<longrightarrow> n \<le> length (bu_sent b))"

lemma bus_take_in_order:
  assumes "map_of (bu_receivers b) i = Some n" "n + k \<le> length (bu_sent b)"
    "length (bu_sent b) \<le> n + bu_capacity b"
  shows "fst (bus_take i k b) = map Received (take k (drop n (bu_sent b)))"
  using assms
proof (induction k arbitrary: b n)
  case (Suc k)
  let ?b = "b\<lparr> bu_receivers := AList.update i (n + 1) (bu_receivers b) \<rparr>"
  have r: "bus_recv i b = (Received (bu_sent b ! n), ?b)"
    using Suc.prems by (auto simp: bus_recv_def Let_def)
  have "fst (bus_take i k ?b) = map Received (take k (drop (n + 1) (bu_sent ?b)))"
    using Suc.prems by (intro Suc.IH) (simp_all add: update_conv')
  moreover have "drop n (bu_sent b) = bu_sent b ! n # drop (n + 1) (bu_sent b)"
    using Suc.prems by (simp add: Cons_nth_drop_Suc)
  ultimately show ?case by (cases "bus_take i k ?b") (simp add: r)
qed simp

end
