(* ===== verification/Pty_Spawn.thy ===== *)
theory Pty_Spawn
  imports Core_Errors Utf8
begin

text \<open>
  Model of the parts of \<open>la-pty/src/lib.rs\<close> that decide something: the size of a window, the
  signals, and the check that refuses to start a shell with a command string.  What the
  operating system does with a command is the parameter of \<open>pty_spawn\<close>.
\<close>

record PtySize =
  ps_rows :: nat
  ps_cols :: nat

definition default_pty_size :: PtySize where "default_pty_size = \<lparr> ps_rows = 24, ps_cols = 80 \<rparr>"

section \<open>The check of the command\<close>

definition posix_shells :: "str list" where
  "posix_shells = map lit [''sh'', ''bash'', ''dash'', ''zsh'', ''ksh'', ''fish'', ''csh'', ''tcsh'']"

definition is_posix_shell :: "str \<Rightarrow> bool" where "is_posix_shell name \<longleftrightarrow> name \<in> set posix_shells"

fun posix_shell_has_command_string_arg :: "str list \<Rightarrow> bool" where
  "posix_shell_has_command_string_arg [] = False"
| "posix_shell_has_command_string_arg (arg # args) =
     (if arg = lit ''--'' then False
      else if strip_prefix (lit ''-'') arg \<noteq> None \<and> 99 \<in> set (tl arg) then True
      else posix_shell_has_command_string_arg args)"

text \<open>What follows the last slash or backslash, in lower case.\<close>

definition program_name :: "str \<Rightarrow> str" where
  "program_name p = ascii_lower (rev (takeWhile (\<lambda>c. c \<noteq> 47 \<and> c \<noteq> 92) (rev p)))"

definition takes_command_string :: "str \<Rightarrow> str list \<Rightarrow> bool" where
  "takes_command_string program args =
     (let name = program_name program in
      if is_posix_shell name then posix_shell_has_command_string_arg args
      else if name \<in> set (map lit [''cmd'', ''cmd.exe'']) then list_ex (\<lambda>a. ascii_lower a = lit ''/c'') args
      else if name \<in> set (map lit [''powershell'', ''powershell.exe'', ''pwsh'', ''pwsh.exe''])
      then list_ex (\<lambda>a. ascii_lower a = lit ''-command'' \<or> ascii_lower a = lit ''-c'') args
      else False)"

fun reject_shell_wrapper :: "str list \<Rightarrow> PtyError + unit" where
  "reject_shell_wrapper (program # arg # args) =
     (if takes_command_string program (arg # args)
      then Inl (ShellWrapping (program @ lit '' with command-string argument'')) else Inr ())"
| "reject_shell_wrapper _ = Inr ()"

section \<open>Starting a child\<close>

text \<open>\<open>os\<close> is what opening the terminal and starting the command come to: an error, or the
  process id if the platform gives one.\<close>

definition pty_spawn :: "(SpawnSpec \<Rightarrow> PtySize \<Rightarrow> PtyError + nat option) \<Rightarrow> SpawnSpec \<Rightarrow> PtySize
    \<Rightarrow> PtyError + nat option" where
  "pty_spawn os spec sz =
     (case reject_shell_wrapper (sp_program spec # sp_args spec) of
        Inl e \<Rightarrow> Inl e | Inr _ \<Rightarrow> os spec sz)"

text \<open>The window asked for, each side falling back on the default when it is zero.\<close>

definition pty_size_from_spec :: "SpawnSpec \<Rightarrow> PtySize \<Rightarrow> PtySize" where
  "pty_size_from_spec spec d =
     \<lparr> ps_rows = (if ph_rows (sp_pty spec) > 0 then ph_rows (sp_pty spec) else ps_rows d),
       ps_cols = (if ph_cols (sp_pty spec) > 0 then ph_cols (sp_pty spec) else ps_cols d) \<rparr>"

text \<open>A shell is refused exactly when an option before the first \<open>--\<close> has the letter c: so a
  long option such as \<open>--norc\<close> counts as a command string too.\<close>

lemma shell_args:
  "posix_shell_has_command_string_arg args \<longleftrightarrow>
     (\<exists>a\<in>set (takeWhile (\<lambda>a. a \<noteq> lit ''--'') args). strip_prefix (lit ''-'') a \<noteq> None \<and> 99 \<in> set (tl a))"
  by (induction args) auto

end
