(* ===== verification/Session_Manager.thy ===== *)
theory Session_Manager
  imports Event_Bus Pty_Spawn Worktrees Store_History
begin

text \<open>
  Model of \<open>la-core/src/manager.rs\<close> and \<open>session.rs\<close>: the sessions a daemon runs.  The state is
  the store, the git shell, the event bus, the runtimes (the cells the code shares by
  reference, kept once made) and the registry of the ids that callers can reach.  A
  method is one step, but for starting a session and for the end of one, which are
  divided where another task can come between.  The output of a child, its end, the clock
  and the answers of the terminal are arguments; base64 is the parameter \<open>enc\<close>.
\<close>

section \<open>State\<close>

definition state_str :: "SessionState \<Rightarrow> str" where "state_str st = enum_name session_states st"

text \<open>\<open>rt_input\<close> and \<open>rt_size\<close> are what the terminal got; \<open>rt_pumping\<close> holds while the task that
  reads its output is in its loop.\<close>

record Runtime =
  rt_hub :: HubState
  rt_input :: "bytes list"
  rt_pid :: "nat option"
  rt_size :: PtySize
  rt_state :: SessionState
  rt_exit_code :: "int option"
  rt_writer_holder :: "SubId option"
  rt_last_output_at :: "nat option"
  rt_stdin_mode :: StdinMode
  rt_pumping :: bool

record ManagerConfig =
  mc_hub :: HubConfig
  mc_bus_capacity :: nat
  mc_waiting_idle :: nat
  mc_running_promote :: nat
  mc_initial_pty :: PtySize
  mc_persist_chunks :: bool
  mc_worktree :: "WorktreeManager option"

definition default_manager_config :: ManagerConfig where
  "default_manager_config = \<lparr> mc_hub = default_config, mc_bus_capacity = DEFAULT_BUS_CAPACITY,
     mc_waiting_idle = 2 * 10 ^ 9, mc_running_promote = 250 * 10 ^ 6, mc_initial_pty = default_pty_size,
     mc_persist_chunks = True, mc_worktree = None \<rparr>"

record 'w Manager =
  mg_store :: Store
  mg_shell :: "'w Shell"
  mg_bus :: Bus
  mg_runtimes :: "(str \<times> Runtime) list"
  mg_registry :: "str list"

definition new_manager :: "Store \<Rightarrow> 'w Shell \<Rightarrow> ManagerConfig \<Rightarrow> 'w Manager" where
  "new_manager s sh cfg = \<lparr> mg_store = s, mg_shell = sh, mg_bus = with_capacity (mc_bus_capacity cfg),
     mg_runtimes = [], mg_registry = [] \<rparr>"

text \<open>What a call takes from outside: the file system and git, SHA-256, the printer of JSON,
  the operating system's terminals and processes, and a new id.\<close>

record 'w Machine =
  ma_host :: "'w Host"
  ma_sha256 :: "bytes \<Rightarrow> bytes"
  ma_json :: "json \<Rightarrow> str"
  ma_pty :: "SpawnSpec \<Rightarrow> PtySize \<Rightarrow> PtyError + nat option"
  ma_pid_alive :: "nat \<Rightarrow> bool"
  ma_new_id :: str

record Agent =
  ag_id :: str
  ag_spawn_spec :: "SpawnRequest \<Rightarrow> AdapterError + SpawnSpec"

text \<open>Operations of the store and of the shell, in the manager.\<close>

definition on_store :: "(Store \<Rightarrow> (StorageError + 'a) \<times> Store) \<Rightarrow> 'w Manager \<Rightarrow> (CoreError + 'a) \<times> 'w Manager" where
  "on_store f m = (case f (mg_store m) of (r, s) \<Rightarrow>
     (case r of Inl e \<Rightarrow> Inl (Storage e) | Inr a \<Rightarrow> Inr a, m\<lparr> mg_store := s \<rparr>))"

definition on_shell :: "('w Shell \<Rightarrow> 'a \<times> 'w Shell) \<Rightarrow> 'w Manager \<Rightarrow> 'a \<times> 'w Manager" where
  "on_shell f m = (case f (mg_shell m) of (r, sh) \<Rightarrow> (r, m\<lparr> mg_shell := sh \<rparr>))"

definition publish_state :: "str \<Rightarrow> SessionState \<Rightarrow> int option \<Rightarrow> str option \<Rightarrow> 'w Manager \<Rightarrow> 'w Manager" where
  "publish_state sid st code reason m = m\<lparr> mg_bus := snd (bus_publish (SessionStateEvent
     \<lparr> ss_session_id = sid, ss_state = st, ss_exit_code = code, ss_reason = reason \<rparr>) (mg_bus m)) \<rparr>"

definition runtime :: "str \<Rightarrow> 'w Manager \<Rightarrow> CoreError + Runtime" where
  "runtime sid m = (if sid \<in> set (mg_registry m)
     then case map_of (mg_runtimes m) sid of Some rt \<Rightarrow> Inr rt | None \<Rightarrow> Inl (SessionNotFound sid)
     else Inl (SessionNotFound sid))"

definition put_runtime :: "str \<Rightarrow> Runtime \<Rightarrow> 'w Manager \<Rightarrow> 'w Manager" where
  "put_runtime sid rt m = m\<lparr> mg_runtimes := AList.update sid rt (mg_runtimes m) \<rparr>"

definition active_ids :: "'w Manager \<Rightarrow> str list" where "active_ids m = mg_registry m"
definition active_count :: "'w Manager \<Rightarrow> nat" where "active_count m = length (mg_registry m)"

section \<open>Starting a session\<close>

definition spawn_args_json :: "SpawnSpec \<Rightarrow> json" where
  "spawn_args_json spec = JObject [
     (lit ''program'', JString (sp_program spec)), (lit ''args'', JArray (map JString (sp_args spec))),
     (lit ''cwd'', JString (sp_cwd spec)),
     (lit ''stdin_mode'', JString (case sp_stdin_mode spec of Pty \<Rightarrow> lit ''pty'' | NullSink \<Rightarrow> lit ''null'')),
     (lit ''pty'', JObject [(lit ''cols'', nat_value (ph_cols (sp_pty spec))),
        (lit ''rows'', nat_value (ph_rows (sp_pty spec)))])]"

text \<open>The worktree of the session, with the root of its project.\<close>

definition provision :: "'w Machine \<Rightarrow> ManagerConfig \<Rightarrow> str \<Rightarrow> str option \<Rightarrow> 'w Shell
    \<Rightarrow> (CoreError + (str \<times> WorktreePlan) option) \<times> 'w Shell" where
  "provision M cfg sid opts sh = (case opts of
       None \<Rightarrow> (Inr None, sh)
     | Some repo_root \<Rightarrow> (case mc_worktree cfg of
         None \<Rightarrow> (Inl (InternalError
             (lit ''WorktreeSpawnOptions supplied but ManagerConfig.worktree is None'')), sh)
       | Some wt \<Rightarrow>
           and_then (resolve_base_branch (ma_host M) repo_root sh) (\<lambda>base sh.
           and_then (create (ma_host M) wt repo_root
               (project_slug (ma_sha256 M) (ma_host M) repo_root (sh_world sh)) sid base sh) (\<lambda>plan sh.
             (Inr (Some (repo_root, plan)), sh)))))"

definition rollback_worktree :: "'w Machine \<Rightarrow> (str \<times> WorktreePlan) option \<Rightarrow> 'w Manager \<Rightarrow> 'w Manager" where
  "rollback_worktree M plan m = (case plan of
       None \<Rightarrow> m
     | Some (repo_root, p) \<Rightarrow> snd (on_shell (cleanup (ma_host M)
         (handle_from_row repo_root (pl_path p) (pl_branch p) (pl_base_branch p)) Force) m))"

definition new_session_row ::
    "'w Machine \<Rightarrow> str \<Rightarrow> str \<Rightarrow> SpawnSpec \<Rightarrow> (str \<times> WorktreePlan) option \<Rightarrow> NewSession" where
  "new_session_row M project_id backend spec plan =
     \<lparr> ns_id = ma_new_id M, ns_project_id = project_id, ns_backend_id = backend, ns_external_id = None,
       ns_title = None, ns_state = state_str Starting, ns_pid = None,
       ns_worktree_path = map_option (\<lambda>p. pl_path (snd p)) plan,
       ns_worktree_branch = map_option (\<lambda>p. pl_branch (snd p)) plan,
       ns_base_branch = map_option (\<lambda>p. pl_base_branch (snd p)) plan,
       ns_spawn_args = ma_json M (spawn_args_json spec), ns_origin = lit ''user'',
       ns_hook_status = None, ns_external_path = None \<rparr>"

text \<open>Steps 1 to 3: the worktree, the command, the row.\<close>

definition spawn_prepare :: "'w Machine \<Rightarrow> ManagerConfig \<Rightarrow> Agent \<Rightarrow> str \<Rightarrow> SpawnRequest \<Rightarrow> str option
    \<Rightarrow> 'w Manager \<Rightarrow> (CoreError + SpawnSpec \<times> (str \<times> WorktreePlan) option) \<times> 'w Manager" where
  "spawn_prepare M cfg agent project_id request opts m =
     and_then (on_shell (provision M cfg (ma_new_id M) opts) m) (\<lambda>plan m.
       case ag_spawn_spec agent (case plan of None \<Rightarrow> request | Some (_, p) \<Rightarrow> request\<lparr> rq_cwd := pl_path p \<rparr>) of
         Inl e \<Rightarrow> (Inl (Adapter e), rollback_worktree M plan m)
       | Inr spec \<Rightarrow>
           (case on_store (session_create (new_session_row M project_id (ag_id agent) spec plan)) m of
              (Inl e, m) \<Rightarrow> (Inl e, rollback_worktree M plan m)
            | (Inr _, m) \<Rightarrow> (Inr (spec, plan), m)))"

definition fresh_runtime :: "nat option \<Rightarrow> PtySize \<Rightarrow> StdinMode \<Rightarrow> Runtime" where
  "fresh_runtime pid sz mode = \<lparr> rt_hub = new_hub, rt_input = [], rt_pid = pid, rt_size = sz,
     rt_state = Starting, rt_exit_code = None, rt_writer_holder = None, rt_last_output_at = None,
     rt_stdin_mode = mode, rt_pumping = True \<rparr>"

record SpawnedSession =
  sd_id :: str
  sd_backend :: str
  sd_project_id :: str
  sd_initial_state :: SessionState
  sd_pid :: "nat option"
  sd_worktree_path :: "str option"
  sd_worktree_branch :: "str option"
  sd_base_branch :: "str option"
  sd_hook_status :: "HookStatus option"

definition run_hook_of :: "'w Machine \<Rightarrow> ManagerConfig \<Rightarrow> str \<Rightarrow> (str \<times> WorktreePlan) option \<Rightarrow> 'w Manager
    \<Rightarrow> HookStatus option \<times> 'w Manager" where
  "run_hook_of M cfg backend plan m = (case (plan, mc_worktree cfg) of
       (Some (repo_root, p), Some wt) \<Rightarrow>
         (case run_post_create_hook (ma_host M) wt repo_root p backend (ma_new_id M) (sh_world (mg_shell m)) of
            (st, w) \<Rightarrow> (Some st, snd (on_store (session_set_hook_status (ma_new_id M) (hook_status_str st))
              (m\<lparr> mg_shell := (mg_shell m)\<lparr> sh_world := w \<rparr> \<rparr>))))
     | _ \<Rightarrow> (None, m))"

text \<open>Steps 4 to 7: the child, the registry, the event and the hook.\<close>

definition spawn_start :: "'w Machine \<Rightarrow> ManagerConfig \<Rightarrow> Agent \<Rightarrow> str \<Rightarrow> SpawnSpec
    \<Rightarrow> (str \<times> WorktreePlan) option \<Rightarrow> 'w Manager \<Rightarrow> (CoreError + SpawnedSession) \<times> 'w Manager" where
  "spawn_start M cfg agent project_id spec plan m =
     (let sid = ma_new_id M; sz = pty_size_from_spec spec (mc_initial_pty cfg) in
      case pty_spawn (ma_pty M) spec sz of
        Inl e \<Rightarrow> (Inl (PtyFailed e), if plan = None then m
            else snd (on_store (session_clear_worktree sid False) (rollback_worktree M plan m)))
      | Inr pid \<Rightarrow>
          let m1 = (case pid of None \<Rightarrow> m
                    | Some p \<Rightarrow> snd (on_store (session_update_pid sid (Some (int p))) m));
              m2 = put_runtime sid (fresh_runtime pid sz (sp_stdin_mode spec)) m1;
              m3 = m2\<lparr> mg_registry := List.insert sid (mg_registry m2) \<rparr>;
              m4 = publish_state sid Starting None None m3
          in case run_hook_of M cfg (ag_id agent) plan m4 of (hook, m5) \<Rightarrow>
            (Inr \<lparr> sd_id = sid, sd_backend = ag_id agent, sd_project_id = project_id,
                sd_initial_state = Starting, sd_pid = pid,
                sd_worktree_path = map_option (\<lambda>p. pl_path (snd p)) plan,
                sd_worktree_branch = map_option (\<lambda>p. pl_branch (snd p)) plan,
                sd_base_branch = map_option (\<lambda>p. pl_base_branch (snd p)) plan,
                sd_hook_status = hook \<rparr>, m5))"

definition spawn_with_options :: "'w Machine \<Rightarrow> ManagerConfig \<Rightarrow> Agent \<Rightarrow> str \<Rightarrow> SpawnRequest \<Rightarrow> str option
    \<Rightarrow> 'w Manager \<Rightarrow> (CoreError + SpawnedSession) \<times> 'w Manager" where
  "spawn_with_options M cfg agent project_id request opts m =
     and_then (spawn_prepare M cfg agent project_id request opts m) (\<lambda>(spec, plan) m.
       spawn_start M cfg agent project_id spec plan m)"

section \<open>Clients\<close>

record AttachOutcome =
  ao_subscription :: SubId
  ao_snapshot_seq :: nat
  ao_input_acquired :: bool

text \<open>Attaching to a runtime that was looked up before.\<close>

definition attach_runtime :: "ManagerConfig \<Rightarrow> str \<Rightarrow> nat option \<Rightarrow> bool \<Rightarrow> Runtime \<Rightarrow> 'w Manager
    \<Rightarrow> AttachOutcome \<times> 'w Manager" where
  "attach_runtime cfg sid since acquire rt m =
     (case subscribe (mc_hub cfg) since (rt_hub rt) of (sub, h) \<Rightarrow>
        let got = (acquire \<and> rt_writer_holder rt = None) in
        (\<lparr> ao_subscription = sub, ao_snapshot_seq = next_seq h - 1, ao_input_acquired = got \<rparr>,
         put_runtime sid (rt\<lparr> rt_hub := h,
           rt_writer_holder := (if got then Some sub else rt_writer_holder rt) \<rparr>) m))"

definition attach :: "ManagerConfig \<Rightarrow> str \<Rightarrow> nat option \<Rightarrow> bool \<Rightarrow> 'w Manager
    \<Rightarrow> (CoreError + AttachOutcome) \<times> 'w Manager" where
  "attach cfg sid since acquire m = (case runtime sid m of
       Inl e \<Rightarrow> (Inl e, m)
     | Inr rt \<Rightarrow> (case attach_runtime cfg sid since acquire rt m of (out, m) \<Rightarrow> (Inr out, m)))"

definition detach :: "ManagerConfig \<Rightarrow> nat \<Rightarrow> str \<Rightarrow> SubId \<Rightarrow> 'w Manager \<Rightarrow> (CoreError + unit) \<times> 'w Manager" where
  "detach cfg now sid sub m = (case runtime sid m of
       Inl e \<Rightarrow> (Inl e, m)
     | Inr rt \<Rightarrow> (Inr (), put_runtime sid (rt\<lparr>
         rt_hub := park (mc_hub cfg) now sub (rt_hub rt),
         rt_writer_holder := (if rt_writer_holder rt = Some sub then None else rt_writer_holder rt) \<rparr>) m))"

text \<open>The task that detach leaves behind, when it wakes: it holds the hub, not the registry.\<close>

definition evict_parked :: "nat \<Rightarrow> str \<Rightarrow> SubId \<Rightarrow> 'w Manager \<Rightarrow> 'w Manager" where
  "evict_parked now sid sub m = (case map_of (mg_runtimes m) sid of
       None \<Rightarrow> m
     | Some rt \<Rightarrow> put_runtime sid (rt\<lparr> rt_hub := snd (evict_if_still_parked now sub (rt_hub rt)) \<rparr>) m)"

definition resume_sub :: "ManagerConfig \<Rightarrow> str \<Rightarrow> SubId \<Rightarrow> nat option \<Rightarrow> 'w Manager
    \<Rightarrow> (CoreError + bool) \<times> 'w Manager" where
  "resume_sub cfg sid sub since m = (case runtime sid m of
       Inl e \<Rightarrow> (Inl e, m)
     | Inr rt \<Rightarrow> (case resume (mc_hub cfg) sub since (rt_hub rt) of (good, h) \<Rightarrow>
         (Inr good, put_runtime sid (rt\<lparr> rt_hub := h \<rparr>) m)))"

text \<open>\<open>io\<close> is the terminal's refusal of the bytes, if it refuses them.\<close>

definition write_input :: "ManagerConfig \<Rightarrow> str \<Rightarrow> SubId \<Rightarrow> bytes \<Rightarrow> PtyError option \<Rightarrow> 'w Manager
    \<Rightarrow> (CoreError + unit) \<times> 'w Manager" where
  "write_input cfg sid sub data io m = (case runtime sid m of
       Inl e \<Rightarrow> (Inl e, m)
     | Inr rt \<Rightarrow> (case rt_writer_holder rt of
         None \<Rightarrow> (Inl NotAttached, m)
       | Some holder \<Rightarrow>
           if holder \<noteq> sub then (Inl (WriterLocked holder), m)
           else (case io of
               Some e \<Rightarrow> (Inl (PtyFailed e), m)
             | None \<Rightarrow>
                 let m1 = put_runtime sid (rt\<lparr> rt_input := rt_input rt @ [data] \<rparr>) m in
                 (Inr (), if mc_persist_chunks cfg then snd (on_store (chunk_append sid Input data) m1)
                          else m1))))"

datatype SessionSignal = SigInt | SigTerm | SigKill

fun pty_signal :: "SessionSignal \<Rightarrow> StopSignal" where
  "pty_signal SigInt = Interrupt" | "pty_signal SigTerm = Terminate" | "pty_signal SigKill = Kill"

text \<open>\<open>os\<close> is the system call.\<close>

definition signal :: "(nat \<Rightarrow> StopSignal \<Rightarrow> PtyError option) \<Rightarrow> str \<Rightarrow> SessionSignal \<Rightarrow> 'w Manager \<Rightarrow> CoreError + unit" where
  "signal os sid sig m = (case runtime sid m of
       Inl e \<Rightarrow> Inl e
     | Inr rt \<Rightarrow> (case rt_pid rt of
         None \<Rightarrow> Inl (PtyFailed NoPid)
       | Some p \<Rightarrow> (case os p (pty_signal sig) of Some e \<Rightarrow> Inl (PtyFailed e) | None \<Rightarrow> Inr ())))"

definition resize :: "str \<Rightarrow> nat \<Rightarrow> nat \<Rightarrow> PtyError option \<Rightarrow> 'w Manager \<Rightarrow> (CoreError + unit) \<times> 'w Manager" where
  "resize sid cols rows io m = (case runtime sid m of
       Inl e \<Rightarrow> (Inl e, m)
     | Inr rt \<Rightarrow> (case io of
         Some e \<Rightarrow> (Inl (PtyFailed e), m)
       | None \<Rightarrow> (Inr (), put_runtime sid (rt\<lparr> rt_size := \<lparr> ps_rows = rows, ps_cols = cols \<rparr> \<rparr>) m)))"

section \<open>Rows\<close>

definition worktree_for :: "str \<Rightarrow> 'w Manager \<Rightarrow> (str \<times> str \<times> str option) option \<times> 'w Manager" where
  "worktree_for sid m = (case on_store (session_get sid) m of
       (Inr (Some row), m) \<Rightarrow> (case se_worktree_path row of
           None \<Rightarrow> (None, m)
         | Some wt \<Rightarrow> (case on_store (project_get (se_project_id row)) m of
               (Inr (Some p), m) \<Rightarrow> (Some (pj_root_path p, wt, se_base_branch row), m)
             | (_, m) \<Rightarrow> (None, m)))
     | (_, m) \<Rightarrow> (None, m))"

text \<open>The teardown of the worktree of an archived row; a failure keeps the three columns.\<close>

definition archive_worktree :: "'w Machine \<Rightarrow> ManagerConfig \<Rightarrow> Session option \<Rightarrow> 'w Manager \<Rightarrow> 'w Manager" where
  "archive_worktree M cfg row m = (case (mc_worktree cfg, row) of
       (Some _, Some row) \<Rightarrow>
         (case (se_worktree_path row, se_worktree_branch row, se_base_branch row) of
            (Some path, Some branch, Some base) \<Rightarrow>
              (case on_store (project_get (se_project_id row)) m of
                 (Inr (Some p), m) \<Rightarrow>
                   (case on_shell (cleanup (ma_host M) (handle_from_row (pj_root_path p) path branch base)
                        KeepBranchIfDirty) m of
                      (Inr preserved, m) \<Rightarrow> snd (on_store (session_clear_worktree (se_id row) preserved) m)
                    | (Inl e, m) \<Rightarrow> m)
               | (_, m) \<Rightarrow> m)
          | _ \<Rightarrow> m)
     | _ \<Rightarrow> m)"

definition archive :: "'w Machine \<Rightarrow> ManagerConfig \<Rightarrow> str \<Rightarrow> 'w Manager \<Rightarrow> (CoreError + unit) \<times> 'w Manager" where
  "archive M cfg sid m =
     (if sid \<in> set (mg_registry m) then (Inl SessionBusy, m)
      else and_then (on_store (session_get sid) m) (\<lambda>row m.
        and_then (on_store (session_archive sid) m) (\<lambda>archived m.
          if \<not> archived then (Inl (SessionNotFound sid), m)
          else (Inr (), publish_state sid Archived None None (archive_worktree M cfg row m)))))"

definition delete :: "str \<Rightarrow> 'w Manager \<Rightarrow> (CoreError + unit) \<times> 'w Manager" where
  "delete sid m =
     (if sid \<in> set (mg_registry m) then (Inl SessionBusy, m)
      else and_then (on_store (session_delete sid) m) (\<lambda>removed m.
        (if removed then Inr () else Inl (SessionNotFound sid), m)))"

fun reap_rows :: "(nat \<Rightarrow> bool) \<Rightarrow> Session list \<Rightarrow> nat \<Rightarrow> 'w Manager \<Rightarrow> (CoreError + nat) \<times> 'w Manager" where
  "reap_rows alive [] n m = (Inr n, m)"
| "reap_rows alive (row # rows) n m =
     (if (case se_pid row of None \<Rightarrow> False | Some pid \<Rightarrow> alive (nat (pid mod 2 ^ 32)))
      then reap_rows alive rows n m
      else and_then (on_store (session_update_state (se_id row) (state_str Exited) None) m) (\<lambda>updated m.
        if updated
        then reap_rows alive rows (n + 1)
               (publish_state (se_id row) Exited None (Some (lit ''orphan-reap'')) m)
        else reap_rows alive rows n m))"

definition reap_orphans :: "'w Machine \<Rightarrow> 'w Manager \<Rightarrow> (CoreError + nat) \<times> 'w Manager" where
  "reap_orphans M m = and_then (on_store session_list_active m) (\<lambda>rows m.
     reap_rows (ma_pid_alive M) rows 0 m)"

section \<open>The output pump\<close>

definition persist_state :: "str \<Rightarrow> SessionState \<Rightarrow> int option \<Rightarrow> 'w Manager \<Rightarrow> 'w Manager" where
  "persist_state sid st code m = snd (on_store (session_update_state sid (state_str st) code) m)"

text \<open>A transition, stored and published.\<close>

definition transition :: "str \<Rightarrow> SessionState \<Rightarrow> Runtime \<Rightarrow> 'w Manager \<Rightarrow> 'w Manager" where
  "transition sid st rt m =
     publish_state sid st None None (persist_state sid st None (put_runtime sid (rt\<lparr> rt_state := st \<rparr>) m))"

text \<open>The runtime of a pump that is in its loop.\<close>

definition pumping :: "str \<Rightarrow> 'w Manager \<Rightarrow> Runtime option" where
  "pumping sid m = (case map_of (mg_runtimes m) sid of
     Some rt \<Rightarrow> if rt_pumping rt then Some rt else None | None \<Rightarrow> None)"

definition pump_chunk ::
    "(bytes \<Rightarrow> nat list) \<Rightarrow> ManagerConfig \<Rightarrow> nat \<Rightarrow> str \<Rightarrow> bytes \<Rightarrow> 'w Manager \<Rightarrow> 'w Manager" where
  "pump_chunk enc cfg now sid data m = (case pumping sid m of
       None \<Rightarrow> m
     | Some rt \<Rightarrow>
         let rt1 = rt\<lparr> rt_last_output_at := Some now \<rparr>;
             m1 = (if rt_state rt = Starting \<or> rt_state rt = Waiting then transition sid Running rt1 m
                   else put_runtime sid rt1 m);
             rt2 = (case map_of (mg_runtimes m1) sid of Some r \<Rightarrow> r | None \<Rightarrow> rt1);
             m2 = put_runtime sid (rt2\<lparr> rt_hub := snd (publish enc (mc_hub cfg) sid data (rt_hub rt2)) \<rparr>) m1
         in if mc_persist_chunks cfg then snd (on_store (chunk_append sid Stdout data) m2) else m2)"

text \<open>The timer that takes a silent session out of Starting, and the one that looks for
  silence.\<close>

definition pump_promote :: "str \<Rightarrow> 'w Manager \<Rightarrow> 'w Manager" where
  "pump_promote sid m = (case pumping sid m of
       None \<Rightarrow> m
     | Some rt \<Rightarrow> if rt_state rt = Starting then transition sid Running rt m else m)"

definition pump_idle :: "ManagerConfig \<Rightarrow> nat \<Rightarrow> str \<Rightarrow> 'w Manager \<Rightarrow> 'w Manager" where
  "pump_idle cfg now sid m = (case pumping sid m of
       None \<Rightarrow> m
     | Some rt \<Rightarrow>
         if rt_state rt = Running
            \<and> (case rt_last_output_at rt of None \<Rightarrow> False | Some seen \<Rightarrow> now - seen \<ge> mc_waiting_idle cfg)
            \<and> rt_stdin_mode rt = Pty
         then transition sid Waiting rt m else m)"

text \<open>The end: the state, then the registry, then the hub.\<close>

definition pump_exit :: "str \<Rightarrow> int option \<Rightarrow> 'w Manager \<Rightarrow> 'w Manager" where
  "pump_exit sid code m = (case pumping sid m of
       None \<Rightarrow> m
     | Some rt \<Rightarrow> publish_state sid Exited code None (persist_state sid Exited code
         (put_runtime sid (rt\<lparr> rt_state := Exited, rt_exit_code := code, rt_pumping := False \<rparr>) m)))"

definition pump_unregister :: "str \<Rightarrow> 'w Manager \<Rightarrow> 'w Manager" where
  "pump_unregister sid m = m\<lparr> mg_registry := removeAll sid (mg_registry m) \<rparr>"

definition pump_close :: "str \<Rightarrow> 'w Manager \<Rightarrow> 'w Manager" where
  "pump_close sid m = (case map_of (mg_runtimes m) sid of
       None \<Rightarrow> m | Some rt \<Rightarrow> put_runtime sid (rt\<lparr> rt_hub := close_hub (rt_hub rt) \<rparr>) m)"

definition pump_end :: "str \<Rightarrow> int option \<Rightarrow> 'w Manager \<Rightarrow> 'w Manager" where
  "pump_end sid code m = pump_close sid (pump_unregister sid (pump_exit sid code m))"

end
