(* ===== verification/Error_Texts.thy ===== *)
theory Error_Texts
  imports Core_Errors Json_Rpc
begin

text \<open>
  What the daemon answers for an error: the texts that \<open>thiserror\<close> derives for the errors of
  \<open>la-adapter\<close>, \<open>la-pty\<close>, \<open>la-storage\<close>, \<open>la-ipc\<close> and \<open>la-core\<close>, and the conversions to
  error objects of \<open>la-daemon/src/dispatcher.rs\<close>.
\<close>

section \<open>Texts\<close>

fun adapter_text :: "AdapterError \<Rightarrow> str" where
  "adapter_text (AeNotInstalled hint) = lit ''not installed: '' @ hint"
| "adapter_text (AeUnauthenticated url) = lit ''unauthenticated; see '' @ url"
| "adapter_text (AeSpawnFailed io) = lit ''spawn failed: '' @ io"
| "adapter_text (AeUnsupportedOption n) = lit ''unsupported option: '' @ n"
| "adapter_text (AeProtocolDrift d) = lit ''backend protocol drift: '' @ d"
| "adapter_text (AeTransient d) = lit ''transient: '' @ d"

fun pty_text :: "PtyError \<Rightarrow> str" where
  "pty_text (OpenPty e) = lit ''openpty failed: '' @ e"
| "pty_text (SpawnPty e) = lit ''spawn failed: '' @ e"
| "pty_text (Reader e) = lit ''clone reader failed: '' @ e"
| "pty_text (Writer e) = lit ''take writer failed: '' @ e"
| "pty_text (Resize e) = lit ''resize failed: '' @ e"
| "pty_text (SignalPty e) = lit ''signal failed: '' @ e"
| "pty_text (WaitPty e) = lit ''wait failed: '' @ e"
| "pty_text WriterClosed = lit ''writer half closed''"
| "pty_text NoPid = lit ''child has no pid''"
| "pty_text (ShellWrapping e) = lit ''shell wrapping is not allowed: '' @ e"
| "pty_text (JoinPty e) = lit ''join error: '' @ e"

fun storage_text :: "StorageError \<Rightarrow> str" where
  "storage_text (Sqlx e) = lit ''sqlx: '' @ e"
| "storage_text (Migrate e) = lit ''migration: '' @ e"
| "storage_text (Io e) = lit ''io: '' @ e"
| "storage_text (Json e) = lit ''json: '' @ e"
| "storage_text (SqliteBackup e) = lit ''sqlite backup: '' @ e"
| "storage_text (Join e) = lit ''task join: '' @ e"
| "storage_text (Base64 e) = lit ''base64: '' @ e"
| "storage_text (MissingSession i) = lit ''missing session: '' @ i"
| "storage_text (MissingProject i) = lit ''missing project: '' @ i"
| "storage_text (MissingCron i) = lit ''missing cron: '' @ i"
| "storage_text (MissingRun i) = lit ''missing run: '' @ i"
| "storage_text (BackupSamePath p) = lit ''backup output path must not be the live database: '' @ p"
| "storage_text (SchemaTooNew f s) =
     lit ''schema version '' @ f @ lit '' is newer than supported version '' @ s"
| "storage_text (Busy n) = lit ''busy after '' @ show_nat n @ lit '' attempts''"

fun ipc_text :: "IpcError \<Rightarrow> str" where
  "ipc_text (FrameTooLarge a l) =
     lit ''frame exceeds '' @ show_nat l @ lit ''-byte limit (got '' @ show_nat a @ lit '')''"
| "ipc_text (EncodeTooLarge a l) =
     lit ''encoded JSON exceeds '' @ show_nat l @ lit ''-byte limit (got '' @ show_nat a @ lit '')''"

fun core_text :: "CoreError \<Rightarrow> str" where
  "core_text (Adapter e) = lit ''adapter: '' @ adapter_text e"
| "core_text (PtyFailed e) = lit ''pty: '' @ pty_text e"
| "core_text (Storage e) = lit ''storage: '' @ storage_text e"
| "core_text (Ipc e) = lit ''ipc: '' @ ipc_text e"
| "core_text (SessionNotFound i) = lit ''session not found: '' @ i"
| "core_text (WriterLocked h) = lit ''writer locked by sub '' @ show_nat h"
| "core_text NotAttached = lit ''session not attached''"
| "core_text SessionBusy = lit ''session still running''"
| "core_text (InternalError e) = lit ''internal: '' @ e"
| "core_text (NotAGitRepo p) = lit ''not a git repo: '' @ p"
| "core_text (WorktreeBusy r) = lit ''worktree busy: '' @ r"
| "core_text (BranchCollision b) = lit ''branch already exists: '' @ b"
| "core_text (WorktreeIo e) = lit ''worktree io: '' @ e"
| "core_text (GitUnavailable h) = lit ''git unavailable: '' @ h"
| "core_text (WorktreeProvision s) = lit ''worktree provision failed: '' @ s"
| "core_text (WorktreeUnavailable i) = lit ''worktree unavailable for session '' @ i"
| "core_text (WorktreeDiffTooLarge n) = lit ''diff too large: '' @ show_nat n @ lit '' bytes''"
| "core_text WorktreeHunkStale = lit ''all hunk ids are stale''"
| "core_text (WorktreeCommitHookFailed s) = lit ''commit hook failed: '' @ s"
| "core_text WorktreeCommitEmpty = lit ''nothing to commit''"
| "core_text (WorktreePatchRejected s) = lit ''patch rejected: '' @ s"
| "core_text WorktreeEditorUnavailable = lit ''no editor configured; set $VISUAL or $EDITOR''"
| "core_text WorktreeDiscardUnconfirmed = lit ''discard requires confirmed: true''"

section \<open>Error objects\<close>

definition core_to_rpc :: "CoreError \<Rightarrow> RpcError" where
  "core_to_rpc e = rpc_error (rpc_code (kind e)) (core_text e)"

fun storage_to_rpc :: "StorageError \<Rightarrow> RpcError" where
  "storage_to_rpc (Busy n) = rpc_error (rpc_code StorageBusy) (storage_text (Busy n))"
| "storage_to_rpc (MissingSession i) =
     rpc_error (rpc_code Wire_Errors.SessionNotFound) (lit ''missing session: '' @ i)"
| "storage_to_rpc (MissingProject i) = rpc_error (rpc_code StorageConflict) (lit ''missing project: '' @ i)"
| "storage_to_rpc e = rpc_error (rpc_code StorageFailed) (storage_text e)"

fun adapter_to_rpc :: "AdapterError \<Rightarrow> RpcError" where
  "adapter_to_rpc (AeNotInstalled hint) = rpc_error (rpc_code AdapterNotInstalled) hint"
| "adapter_to_rpc (AeUnauthenticated url) =
     rpc_error (rpc_code AdapterUnauthenticated) (lit ''not authenticated; see '' @ url)"
| "adapter_to_rpc (AeSpawnFailed io) = rpc_error (rpc_code AdapterSpawnFailed) io"
| "adapter_to_rpc (AeUnsupportedOption n) =
     rpc_error (rpc_code AdapterUnsupportedOption) (lit ''unsupported option: '' @ n)"
| "adapter_to_rpc (AeProtocolDrift d) = rpc_error (rpc_code AdapterProtocolDrift) d"
| "adapter_to_rpc (AeTransient d) = rpc_error (rpc_code AdapterSpawnFailed) d"

text \<open>The text of a failed probe is the parameter \<open>detail\<close>.\<close>

fun is_blocking :: "ProbeResult \<Rightarrow> bool" where
  "is_blocking (NotInstalled hint) = True"
| "is_blocking _ = False"

fun probe_to_rpc :: "(ProbeFailure \<Rightarrow> str) \<Rightarrow> str \<Rightarrow> ProbeResult \<Rightarrow> RpcError" where
  "probe_to_rpc detail backend (NotInstalled hint) =
     rpc_error (rpc_code AdapterNotInstalled) (backend @ lit '': '' @ hint)"
| "probe_to_rpc detail backend (Unauthenticated url) =
     rpc_error (rpc_code AdapterUnauthenticated) (backend @ lit '': not authenticated; see '' @ url)"
| "probe_to_rpc detail backend (ProbeError e) =
     rpc_error (rpc_code AdapterProtocolDrift) (backend @ lit '': '' @ detail e)"
| "probe_to_rpc detail backend (Available v) =
     rpc_error (rpc_code Internal) (backend @ lit '': probe_to_rpc called for Available '' @ [8212] @ lit '' bug'')"

text \<open>An error object tells which class of error it was made of.\<close>

lemma core_to_rpc_code: "er_code (core_to_rpc a) = er_code (core_to_rpc b) \<longleftrightarrow> kind a = kind b"
  by (simp add: core_to_rpc_def rpc_error_def code_inj)

text \<open>The store's error for a missing project has two codes: one when a handler meets it, one
  when the manager passes it on.\<close>

lemma missing_project_codes:
  "er_code (storage_to_rpc (MissingProject i)) = -33202" "er_code (core_to_rpc (Storage (MissingProject i))) = -32603"
  by (simp_all add: core_to_rpc_def rpc_error_def)

end
