(* ===== verification/Client_Sessions.thy ===== *)
theory Client_Sessions
  imports Session_Manager Error_Texts
begin

text \<open>
  Model of the connections of \<open>la-daemon/src/dispatcher.rs\<close>: what the daemon keeps for one
  client (its attachments and topics), the handlers of the requests that use it, the task
  that writes to the client, and the end of the connection.  A step of a connection works on
  the session manager and on the state of the connection.  The writer task is either waiting
  in its select, where a wake-up reaches it, or at work on an event of the bus.
\<close>

section \<open>State\<close>

record AttachmentSlot =
  sl_sub :: "SubId option"
  sl_sub_id :: SubId
  sl_backend :: str

record TopicSet =
  ts_session_state :: bool
  ts_daemon_health :: bool
  ts_scheduler_health :: bool
  ts_worktree_changed :: bool
  ts_worktree_commit :: bool
  ts_cron_fired :: bool

definition no_topics :: TopicSet where
  "no_topics = \<lparr> ts_session_state = False, ts_daemon_health = False, ts_scheduler_health = False,
     ts_worktree_changed = False, ts_worktree_commit = False, ts_cron_fired = False \<rparr>"

datatype WriterPhase = WWaiting | WBusy BusEvent | WStopped
datatype ReaderPhase = Serving | Closing | Released

text \<open>\<open>co_active\<close> and \<open>co_drains\<close> are the local map and the task set of the writer,
  \<open>co_changed\<close> the stored permit of \<open>attachments_changed\<close>, \<open>co_bus\<close> the writer's receiver and
  \<open>co_sent\<close> what the client was sent.\<close>

record ConnState =
  co_attachments :: "(str \<times> AttachmentSlot) list"
  co_topics :: TopicSet
  co_changed :: bool
  co_active :: "str list"
  co_drains :: "(str \<times> SubId) list"
  co_bus :: nat
  co_writer :: WriterPhase
  co_reader :: ReaderPhase
  co_sent :: "Message list"

definition new_conn :: "'w Manager \<Rightarrow> 'w Manager \<times> ConnState" where
  "new_conn m = (case bus_subscribe (mg_bus m) of (rx, b) \<Rightarrow>
     (m\<lparr> mg_bus := b \<rparr>, \<lparr> co_attachments = [], co_topics = no_topics, co_changed = False, co_active = [],
        co_drains = [], co_bus = rx, co_writer = WWaiting, co_reader = Serving, co_sent = [] \<rparr>))"

section \<open>Notifications\<close>

definition notification :: "str \<Rightarrow> json \<Rightarrow> Message" where
  "notification name v = NotificationMsg \<lparr> nt_method = name, nt_params = Some v \<rparr>"

definition session_output_value :: "SessionOutputParams \<Rightarrow> json" where
  "session_output_value p = JObject [(lit ''session_id'', JString (session_id p)), (lit ''seq'', nat_value (seq p)),
     (lit ''data_base64'', JString (data_base64 p))]"

definition session_gap_value :: "SessionGapParams \<Rightarrow> json" where
  "session_gap_value p = JObject [(lit ''session_id'', JString (gap_session_id p)),
     (lit ''from_seq'', nat_value (gap_from_seq p)), (lit ''to_seq'', nat_value (gap_to_seq p)),
     (lit ''dropped_bytes'', nat_value (gap_dropped_bytes p))]"

fun hub_notification :: "HubEvent \<Rightarrow> Message" where
  "hub_notification (Output p) = notification (lit ''session.output'') (session_output_value p)"
| "hub_notification (Gap p) = notification (lit ''session.gap'') (session_gap_value p)"

fun bus_notification :: "TopicSet \<Rightarrow> BusEvent \<Rightarrow> Message option" where
  "bus_notification ts (SessionStateEvent p) =
     (if ts_session_state ts then Some (notification (lit ''session.state'') (session_state_value p)) else None)"
| "bus_notification ts (DaemonHealthEvent p) =
     (if ts_daemon_health ts then Some (notification (lit ''daemon.health'') (daemon_health_value p)) else None)"
| "bus_notification ts (SchedulerHealthEvent p) =
     (if ts_scheduler_health ts then Some (notification (lit ''scheduler.health'') (scheduler_health_value p)) else None)"
| "bus_notification ts (WorktreeChangedEvent p) =
     (if ts_worktree_changed ts then Some (notification (lit ''worktree.changed'') (worktree_changed_value p)) else None)"
| "bus_notification ts (WorktreeCommitEvent p) =
     (if ts_worktree_commit ts then Some (notification (lit ''worktree.commit_created'') (worktree_commit_value p)) else None)"
| "bus_notification ts (CronFiredEvent p) =
     (if ts_cron_fired ts then Some (notification (lit ''cron.fired'') (cron_fired_value p)) else None)"
| "bus_notification ts (SessionGapEvent p) = None"

text \<open>\<open>sent\<close> tells whether the socket took the message; a failure is only logged.\<close>

definition push_out :: "bool \<Rightarrow> Message \<Rightarrow> ConnState \<Rightarrow> ConnState" where
  "push_out sent msg c = (if sent then c\<lparr> co_sent := co_sent c @ [msg] \<rparr> else c)"

definition deliver_bus_event :: "bool \<Rightarrow> BusEvent \<Rightarrow> ConnState \<Rightarrow> ConnState" where
  "deliver_bus_event sent e c =
     (case bus_notification (co_topics c) e of None \<Rightarrow> c | Some msg \<Rightarrow> push_out sent msg c)"

section \<open>Requests\<close>

record SessionsAttachParams =
  ap_session_id :: str
  ap_resume_from_seq :: "nat option"
  ap_acquire_input :: bool

record SessionsAttachResult =
  ar_session_id :: str
  ar_snapshot_seq :: nat
  ar_input_acquired :: bool
  ar_sub_token :: "str option"

text \<open>What happens to a subscription that nobody holds any more: it parks itself.\<close>

definition drop_subscription :: "ManagerConfig \<Rightarrow> nat \<Rightarrow> str \<Rightarrow> SubId \<Rightarrow> 'w Manager \<Rightarrow> 'w Manager" where
  "drop_subscription cfg now sid sub m = (case map_of (mg_runtimes m) sid of
       None \<Rightarrow> m
     | Some rt \<Rightarrow> put_runtime sid (rt\<lparr> rt_hub := park (mc_hub cfg) now sub (rt_hub rt) \<rparr>) m)"

definition drop_slot :: "ManagerConfig \<Rightarrow> nat \<Rightarrow> str \<Rightarrow> AttachmentSlot option \<Rightarrow> 'w Manager \<Rightarrow> 'w Manager" where
  "drop_slot cfg now sid slot m = (case slot of
       Some s \<Rightarrow> (case sl_sub s of Some sub \<Rightarrow> drop_subscription cfg now sid sub m | None \<Rightarrow> m)
     | None \<Rightarrow> m)"

definition handle_sessions_attach :: "ManagerConfig \<Rightarrow> nat \<Rightarrow> SessionsAttachParams \<Rightarrow> 'w Manager \<times> ConnState
    \<Rightarrow> (RpcError + SessionsAttachResult) \<times> 'w Manager \<times> ConnState" where
  "handle_sessions_attach cfg now params = (\<lambda>(m, c).
     let sid = ap_session_id params in
     case attach cfg sid (ap_resume_from_seq params) (ap_acquire_input params) m of
       (Inl e, m) \<Rightarrow> (Inl (core_to_rpc e), m, c)
     | (Inr out, m) \<Rightarrow>
         (case on_store (session_get sid) m of (row, m) \<Rightarrow>
            let backend = (case row of Inr (Some r) \<Rightarrow> se_backend_id r | _ \<Rightarrow> lit ''unknown'');
                sub = ao_subscription out;
                slot = \<lparr> sl_sub = Some sub, sl_sub_id = sub, sl_backend = backend \<rparr>
            in (Inr \<lparr> ar_session_id = sid, ar_snapshot_seq = ao_snapshot_seq out,
                  ar_input_acquired = ao_input_acquired out, ar_sub_token = None \<rparr>,
                drop_slot cfg now sid (map_of (co_attachments c) sid) m,
                c\<lparr> co_attachments := AList.update sid slot (co_attachments c), co_changed := True \<rparr>)))"

definition handle_sessions_detach :: "ManagerConfig \<Rightarrow> nat \<Rightarrow> str \<Rightarrow> 'w Manager \<times> ConnState
    \<Rightarrow> (RpcError + unit) \<times> 'w Manager \<times> ConnState" where
  "handle_sessions_detach cfg now sid = (\<lambda>(m, c).
     let slot = map_of (co_attachments c) sid;
         c1 = c\<lparr> co_attachments := AList.delete sid (co_attachments c) \<rparr>
     in case slot of
          None \<Rightarrow> (Inr (), m, c1)
        | Some s \<Rightarrow> (case detach cfg now sid (sl_sub_id s) m of
              (Inl e, m) \<Rightarrow> (Inl (core_to_rpc e), drop_slot cfg now sid slot m, c1)
            | (Inr _, m) \<Rightarrow> (Inr (), drop_slot cfg now sid slot m, c1)))"

text \<open>\<open>data\<close> is the decoded payload, or the text of the decoder's refusal.\<close>

definition handle_sessions_write :: "ManagerConfig \<Rightarrow> PtyError option \<Rightarrow> str \<Rightarrow> str + bytes
    \<Rightarrow> 'w Manager \<times> ConnState \<Rightarrow> (RpcError + unit) \<times> 'w Manager \<times> ConnState" where
  "handle_sessions_write cfg io sid data = (\<lambda>(m, c).
     case data of
       Inl e \<Rightarrow> (Inl (invalid_params (lit ''data_base64 decode: '' @ e)), m, c)
     | Inr bs \<Rightarrow> (case map_of (co_attachments c) sid of
           None \<Rightarrow> (Inl (rpc_error (rpc_code Wire_Errors.NotAttached)
                     (lit ''sessions.attach required before sessions.write'')), m, c)
         | Some slot \<Rightarrow> (case write_input cfg sid (sl_sub_id slot) bs io m of
               (Inl e, m) \<Rightarrow> (Inl (core_to_rpc e), m, c)
             | (Inr _, m) \<Rightarrow> (Inr (), m, c))))"

definition handle_sessions_signal :: "(nat \<Rightarrow> StopSignal \<Rightarrow> PtyError option) \<Rightarrow> str \<Rightarrow> SessionSignal
    \<Rightarrow> 'w Manager \<Rightarrow> RpcError + unit" where
  "handle_sessions_signal os sid sig m =
     (case signal os sid sig m of Inl e \<Rightarrow> Inl (core_to_rpc e) | Inr _ \<Rightarrow> Inr ())"

definition handle_sessions_resize :: "str \<Rightarrow> nat \<Rightarrow> nat \<Rightarrow> PtyError option \<Rightarrow> 'w Manager
    \<Rightarrow> (RpcError + unit) \<times> 'w Manager" where
  "handle_sessions_resize sid cols rows io m = (case resize sid cols rows io m of
       (Inl e, m) \<Rightarrow> (Inl (core_to_rpc e), m) | (Inr _, m) \<Rightarrow> (Inr (), m))"

definition handle_sessions_archive :: "'w Machine \<Rightarrow> ManagerConfig \<Rightarrow> str \<Rightarrow> 'w Manager \<Rightarrow> (RpcError + unit) \<times> 'w Manager" where
  "handle_sessions_archive M cfg sid m = (case archive M cfg sid m of
       (Inl e, m) \<Rightarrow> (Inl (core_to_rpc e), m) | (Inr _, m) \<Rightarrow> (Inr (), m))"

definition handle_sessions_delete :: "str \<Rightarrow> 'w Manager \<Rightarrow> (RpcError + unit) \<times> 'w Manager" where
  "handle_sessions_delete sid m = (case delete sid m of
       (Inl e, m) \<Rightarrow> (Inl (core_to_rpc e), m) | (Inr _, m) \<Rightarrow> (Inr (), m))"

subsection \<open>Topics\<close>

fun add_topic :: "EventTopic \<Rightarrow> TopicSet \<Rightarrow> TopicSet" where
  "add_topic TSessionState ts = ts\<lparr> ts_session_state := True \<rparr>"
| "add_topic TDaemonHealth ts = ts\<lparr> ts_daemon_health := True \<rparr>"
| "add_topic TSchedulerHealth ts = ts\<lparr> ts_scheduler_health := True \<rparr>"
| "add_topic TWorktreeChanged ts = ts\<lparr> ts_worktree_changed := True \<rparr>"
| "add_topic TWorktreeCommit ts = ts\<lparr> ts_worktree_commit := True \<rparr>"
| "add_topic TCronFired ts = ts\<lparr> ts_cron_fired := True \<rparr>"
| "add_topic TSessionOutput ts = ts"
| "add_topic TSessionGap ts = ts"

definition echoed :: "EventTopic \<Rightarrow> bool" where
  "echoed t \<longleftrightarrow> t \<noteq> TSessionOutput \<and> t \<noteq> TSessionGap"

text \<open>\<open>backends\<close> is the cached snapshot of the probes, \<open>managed_by\<close> the supervising service.\<close>

definition handle_events_subscribe :: "BackendHealth list \<Rightarrow> str option \<Rightarrow> bool \<Rightarrow> EventTopic list
    \<Rightarrow> 'w Manager \<times> ConnState \<Rightarrow> EventTopic list \<times> 'w Manager \<times> ConnState" where
  "handle_events_subscribe backends managed_by sent topics = (\<lambda>(m, c).
     let snapshot = (TDaemonHealth \<in> set topics \<and> \<not> ts_daemon_health (co_topics c));
         c1 = c\<lparr> co_topics := fold add_topic topics (co_topics c) \<rparr>;
         params = \<lparr> dh_queue_depth = 0, dh_running = active_count m mod 2 ^ 32,
                    dh_errors_last_5m = length (filter (\<lambda>b. bh_status b \<noteq> BhAvailable) backends) mod 2 ^ 32,
                    dh_backends = backends, dh_managed_by = managed_by \<rparr>
     in (filter echoed topics, m,
         if snapshot then push_out sent (notification (lit ''daemon.health'') (daemon_health_value params)) c1
         else c1))"

section \<open>The writer\<close>

text \<open>collect_new_subs, and the start of a task for each.  The order of a hash map does not
  matter to what is collected.\<close>

fun collect_slots :: "(str \<times> AttachmentSlot) list \<Rightarrow> str list
    \<Rightarrow> (str \<times> SubId) list \<times> (str \<times> AttachmentSlot) list \<times> str list" where
  "collect_slots [] active = ([], [], active)"
| "collect_slots ((sid, slot) # slots) active =
     (if sid \<in> set active
      then (case collect_slots slots active of (new, rest, active) \<Rightarrow> (new, (sid, slot) # rest, active))
      else (case sl_sub slot of
          None \<Rightarrow> (case collect_slots slots active of (new, rest, active) \<Rightarrow> (new, (sid, slot) # rest, active))
        | Some sub \<Rightarrow> (case collect_slots slots (sid # active) of (new, rest, active) \<Rightarrow>
            ((sid, sub) # new, (sid, slot\<lparr> sl_sub := None \<rparr>) # rest, active))))"

definition collect_new_subs :: "ConnState \<Rightarrow> ConnState" where
  "collect_new_subs c = (case collect_slots (co_attachments c) (co_active c) of (new, slots, active) \<Rightarrow>
     c\<lparr> co_attachments := slots, co_active := active, co_drains := co_drains c @ new, co_changed := False \<rparr>)"

text \<open>One turn of a task that drains a subscription: it sends the next event, or ends when the
  channel is closed and empty, or when the socket fails.\<close>

definition channel_closed :: "SubId \<Rightarrow> HubState \<Rightarrow> bool" where
  "channel_closed sub h \<longleftrightarrow> (case map_of (subs h) sub of None \<Rightarrow> True | Some e \<Rightarrow> \<not> tx_open e)"

definition end_drain :: "ManagerConfig \<Rightarrow> nat \<Rightarrow> str \<Rightarrow> SubId \<Rightarrow> 'w Manager \<times> ConnState \<Rightarrow> 'w Manager \<times> ConnState" where
  "end_drain cfg now sid sub = (\<lambda>(m, c).
     (drop_subscription cfg now sid sub m, c\<lparr> co_drains := removeAll (sid, sub) (co_drains c) \<rparr>))"

definition drain_subscription :: "ManagerConfig \<Rightarrow> nat \<Rightarrow> bool \<Rightarrow> str \<Rightarrow> SubId \<Rightarrow> 'w Manager \<times> ConnState
    \<Rightarrow> HubEvent option \<times> 'w Manager \<times> ConnState" where
  "drain_subscription cfg now sent sid sub = (\<lambda>(m, c).
     case map_of (mg_runtimes m) sid of
       None \<Rightarrow> (None, m, c)
     | Some rt \<Rightarrow>
         (case recv sub (rt_hub rt) of
            (Some ev, h) \<Rightarrow>
              let m1 = put_runtime sid (rt\<lparr> rt_hub := h \<rparr>) m in
              if sent then (Some ev, m1, push_out True (hub_notification ev) c)
              else (None, end_drain cfg now sid sub (m1, c))
          | (None, h) \<Rightarrow>
              if channel_closed sub (rt_hub rt) then (None, end_drain cfg now sid sub (m, c)) else (None, m, c)))"

text \<open>Taking an event from the bus; falling behind is passed over.\<close>

definition writer_take :: "'w Manager \<times> ConnState \<Rightarrow> 'w Manager \<times> ConnState" where
  "writer_take = (\<lambda>(m, c). case bus_recv (co_bus c) (mg_bus m) of (r, b) \<Rightarrow>
     (m\<lparr> mg_bus := b \<rparr>, case r of Received e \<Rightarrow> c\<lparr> co_writer := WBusy e \<rparr> | _ \<Rightarrow> c))"

definition writer_deliver :: "bool \<Rightarrow> ConnState \<Rightarrow> ConnState" where
  "writer_deliver sent c = (case co_writer c of
     WBusy e \<Rightarrow> (deliver_bus_event sent e c)\<lparr> co_writer := WWaiting \<rparr> | _ \<Rightarrow> c)"

section \<open>The end of a connection\<close>

text \<open>The reader leaves its loop and wakes the writer.  \<open>Notify::notify_waiters\<close> reaches only a
  task that is waiting.  A writer that stops aborts its tasks, which drops their
  subscriptions.\<close>

definition stop_writer :: "ManagerConfig \<Rightarrow> nat \<Rightarrow> 'w Manager \<times> ConnState \<Rightarrow> 'w Manager \<times> ConnState" where
  "stop_writer cfg now = (\<lambda>(m, c).
     (fold (\<lambda>(sid, sub). drop_subscription cfg now sid sub) (co_drains c) m,
      c\<lparr> co_writer := WStopped, co_drains := [] \<rparr>))"

definition close_reader :: "ManagerConfig \<Rightarrow> nat \<Rightarrow> 'w Manager \<times> ConnState \<Rightarrow> 'w Manager \<times> ConnState" where
  "close_reader cfg now = (\<lambda>(m, c).
     let c1 = c\<lparr> co_reader := Closing \<rparr>
     in if co_writer c = WWaiting then stop_writer cfg now (m, c1) else (m, c1))"

fun release_slots :: "ManagerConfig \<Rightarrow> nat \<Rightarrow> (str \<times> AttachmentSlot) list \<Rightarrow> 'w Manager \<Rightarrow> 'w Manager" where
  "release_slots cfg now [] m = m"
| "release_slots cfg now ((sid, slot) # slots) m =
     release_slots cfg now slots
       (drop_slot cfg now sid (Some slot) (snd (detach cfg now sid (sl_sub_id slot) m)))"

text \<open>The join of the writer, then the release of what the client holds.\<close>

definition release_all :: "ManagerConfig \<Rightarrow> nat \<Rightarrow> 'w Manager \<times> ConnState \<Rightarrow> 'w Manager \<times> ConnState" where
  "release_all cfg now = (\<lambda>(m, c).
     (release_slots cfg now (co_attachments c) m, c\<lparr> co_attachments := [], co_reader := Released \<rparr>))"

end
