(* ===== verification/Session_History.thy ===== *)
theory Session_History
  imports Session_Manager
begin

text \<open>
  What holds in every history of a session manager: the right to type into a session is a
  lock, a session's states follow its life cycle, and its row says the state it is in.
\<close>

section \<open>Statements that leave the state of a row alone\<close>

definition tame :: "str \<Rightarrow> Store \<Rightarrow> Store \<Rightarrow> bool" where
  "tame x s s' \<longleftrightarrow> (db_io (st_db s) = [] \<longrightarrow> db_io (st_db s') = [])
     \<and> map_option se_state (map_of (st_sessions s') x) = map_option se_state (map_of (st_sessions s) x)"

interpretation tame_ev: store_evolution "tame x" for x
  by unfold_locales (auto simp: tame_def adv_store_def adv_def)

lemma tame_read: "sql (\<lambda>s. Inr (g s, s)) s = (r, s') \<Longrightarrow> tame x s s'"
  by (rule tame_ev.read)

lemma tame_update:
  assumes "session_update k f s = (r, s')" "x \<noteq> k \<or> (\<forall>t row. se_state (f t row) = se_state row)"
  shows "tame x s s'"
  using assms(1) unfolding session_update_def
  by (rule tame_ev.sql)
    (use assms(2) in \<open>auto simp: tame_def Let_def split_beta update_sessions_fields map_option_case split: option.splits\<close>)

lemma tame_hook: "session_set_hook_status k h s = (r, s') \<Longrightarrow> tame x s s'"
  unfolding session_set_hook_status_def
  by (erule tame_ev.sql) (auto simp: tame_def Let_def split_beta map_option_case split: option.splits if_splits)

lemma tame_sync: "db_io (st_db (sync s)) = db_io (st_db s)" "st_sessions (sync s) = st_sessions s"
  by (simp_all add: sync_def)

lemma tame_create:
  assumes "session_create n s = (r, s')" "x \<noteq> ns_id n"
  shows "tame x s s'"
  using assms(1) unfolding session_create_def
proof (rule tame_ev.and_then)
  fix a t
  assume "sql (\<lambda>s. let r = session_row (store_now s) n in
      if ns_id n \<in> set (map fst (st_sessions s)) \<or> \<not> session_refs s r
         \<or> (\<exists>x\<in>set (map snd (st_sessions s)). same_external r x) then Inl CONSTRAINT
      else Inr ((), sync (s\<lparr> st_sessions := st_sessions s @ [(ns_id n, r)] \<rparr>))) s = (a, t)"
  then show "tame x s t"
    by (rule tame_ev.sql) (use assms(2) in \<open>auto simp: tame_def tame_sync Let_def map_add_def split: if_splits option.splits\<close>)
next
  fix a t
  assume "and_then (session_get (ns_id n) t)
      (\<lambda>r s. (case r of Some row \<Rightarrow> Inr row | None \<Rightarrow> Inl (MissingSession (ns_id n)), s)) = (r, s')"
  then show "tame x t s'"
    by (rule tame_ev.and_then) (auto simp: session_get_def intro: tame_read tame_ev.refl)
qed

lemma tame_delete:
  assumes "session_delete k s = (r, s')" "x \<noteq> k"
  shows "tame x s s'"
  using assms(1) unfolding session_delete_def
  by (rule tame_ev.sql)
    (use assms(2) in \<open>auto simp: tame_def tame_sync Let_def delete_conv' split: if_splits\<close>)

lemma tx_stmt_tame: "tx_stmt s = (r, s') \<Longrightarrow> tame x s s'"
  unfolding tx_stmt_def by (erule tame_ev.sql) (auto intro: tame_ev.refl)

lemma tame_commit:
  assumes "tx_commit f s = (r, s')" "\<And>t. tame x t (f t)"
  shows "tame x s s'"
  using assms(1) unfolding tx_commit_def
  by (rule tame_ev.and_then) (auto intro: tx_stmt_tame tame_ev.sql assms(2))

lemma tame_same: "st_db s' = st_db s \<Longrightarrow> st_sessions s' = st_sessions s \<Longrightarrow> tame x s s'"
  by (simp add: tame_def)

lemma tame_transcript:
  assumes "\<And>r. se_state (f r) = se_state r"
  shows "tame x s (snd (update_sessions k f s))"
  using assms by (auto simp: tame_def map_option_case split: option.splits)

lemma tame_spill_write: "spill_write p old cs s = (r, s') \<Longrightarrow> tame x s s'"
  by (auto simp: spill_write_def Let_def tame_def split: Write.splits list.splits)

lemma tame_update_bytes: "tame x t (update_transcript_bytes k n t)"
  by (simp add: update_transcript_bytes_def tame_transcript)

lemma tame_line: "append_to_spill p k n knd d t = (q, t') \<Longrightarrow> tame x t t'"
  unfolding append_to_spill_def Let_def append_spill_line_def
  by (cases "read_spill_lines p t", simp add: tame_ev.refl, simp)
    (erule tame_ev.and_then, erule tx_stmt_tame, erule tame_ev.and_then, erule tame_spill_write,
      erule tame_ev.and_then, erule tame_commit, rule tame_update_bytes, simp add: tame_ev.refl)

lemma tame_spill: "spill_now k n knd d t = (q, t') \<Longrightarrow> tame x t t'"
  unfolding spill_now_def Let_def write_spill_file_def
  by (erule tame_ev.and_then, erule tx_stmt_tame, erule tame_ev.and_then, erule tx_stmt_tame,
      erule tame_ev.and_then, erule tame_spill_write, erule tame_ev.and_then, erule tx_stmt_tame,
      erule tame_ev.and_then, erule tame_commit,
      rule tame_ev.trans[OF tame_same tame_transcript], simp, simp, simp, simp add: tame_ev.refl)

lemma tame_row: "append_row k n knd d t = (q, t') \<Longrightarrow> tame x t t'"
  unfolding append_row_def Let_def
  by (erule tame_ev.and_then, erule tx_stmt_tame, erule tame_ev.and_then, erule tame_commit,
      rule tame_ev.trans[OF tame_same tame_update_bytes], simp, simp, simp add: tame_ev.refl)

lemma tame_append:
  assumes "chunk_append k knd d s = (r, s')"
  shows "tame x s s'"
  using assms unfolding chunk_append_def
proof (elim tame_ev.and_then)
  fix a t assume "tx_stmt s = (a, t)"
  then show "tame x s t" by (rule tx_stmt_tame)
next
  fix a b t t1 assume "session_get k t = (b, t1)"
  then show "tame x t t1" unfolding session_get_def by (rule tame_read)
next
  fix a b t t1
  assume "(case b of None \<Rightarrow> (Inl (MissingSession k), t1)
      | Some session \<Rightarrow>
          let new_bytes = se_transcript_bytes session + int (length d) in
          (case se_transcript_path session of
             Some path \<Rightarrow> append_to_spill path k new_bytes knd d t1
           | None \<Rightarrow>
               if new_bytes > st_spill_bytes t1 then spill_now k new_bytes knd d t1
               else append_row k new_bytes knd d t1)) = (r, s')"
  then show "tame x t1 s'"
    by (auto simp: Let_def split: option.splits if_splits intro: tame_ev.refl tame_line tame_spill tame_row)
qed

section \<open>What a step changes\<close>

definition calm :: "'w Manager \<Rightarrow> bool" where "calm m \<longleftrightarrow> db_io (st_db (mg_store m)) = []"

definition row_state :: "str \<Rightarrow> 'w Manager \<Rightarrow> str option" where
  "row_state sid m = map_option se_state (map_of (st_sessions (mg_store m)) sid)"

text \<open>The states published for a session, oldest first.\<close>

fun state_of :: "str \<Rightarrow> BusEvent \<Rightarrow> SessionState option" where
  "state_of sid (SessionStateEvent p) = (if ss_session_id p = sid then Some (ss_state p) else None)"
| "state_of sid _ = None"

definition states :: "str \<Rightarrow> 'w Manager \<Rightarrow> SessionState list" where
  "states sid m = List.map_filter (state_of sid) (bu_sent (mg_bus m))"

text \<open>Only the shell and the store changed, and the store only in ways that leave the states of
  the rows of \<open>X\<close> alone.\<close>

definition steady :: "str set \<Rightarrow> 'w Manager \<Rightarrow> 'w Manager \<Rightarrow> bool" where
  "steady X m m' \<longleftrightarrow> mg_runtimes m' = mg_runtimes m \<and> mg_registry m' = mg_registry m \<and> mg_bus m' = mg_bus m
     \<and> (calm m \<longrightarrow> calm m') \<and> (\<forall>x\<in>X. row_state x m' = row_state x m)"

text \<open>One runtime changed, and so many states of its session were published; the row of the
  session follows the last of them.\<close>

definition moved :: "str \<Rightarrow> Runtime \<Rightarrow> SessionState list \<Rightarrow> 'w Manager \<Rightarrow> 'w Manager \<Rightarrow> bool" where
  "moved sid rt pubs m m' \<longleftrightarrow> mg_registry m' = mg_registry m
     \<and> map_of (mg_runtimes m') = (map_of (mg_runtimes m))(sid \<mapsto> rt)
     \<and> (\<forall>x. states x m' = states x m @ (if x = sid then pubs else []))
     \<and> (calm m \<longrightarrow> calm m') \<and> (\<forall>x. x \<noteq> sid \<longrightarrow> row_state x m' = row_state x m)
     \<and> (calm m \<longrightarrow> row_state sid m \<noteq> None \<longrightarrow>
          row_state sid m' = (if pubs = [] then row_state sid m else Some (state_str (last pubs))))"

lemma steady_refl: "steady X m m"
  by (simp add: steady_def)

lemma steady_trans: "steady X m m1 \<Longrightarrow> steady X m1 m2 \<Longrightarrow> steady X m m2"
  by (auto simp: steady_def)

lemma steady_mono: "steady X m m' \<Longrightarrow> Y \<subseteq> X \<Longrightarrow> steady Y m m'"
  by (auto simp: steady_def)

lemma steady_but:
  assumes "on_store f m = (r, m')" "\<And>q s' x. f (mg_store m) = (q, s') \<Longrightarrow> x \<noteq> k \<Longrightarrow> tame x (mg_store m) s'"
  shows "steady (- {k}) m m'"
proof -
  obtain q s' where f: "f (mg_store m) = (q, s')" by fastforce
  then have m': "m' = m\<lparr> mg_store := s' \<rparr>" using assms(1) by (simp add: on_store_def)
  have "\<forall>x. x \<noteq> k \<longrightarrow> tame x (mg_store m) s'" "tame (k @ [0]) (mg_store m) s'"
    using assms(2)[OF f] by auto
  then show ?thesis unfolding m' steady_def calm_def row_state_def tame_def by simp
qed

lemma steady_all:
  assumes "on_store f m = (r, m')" "\<And>q s' x. f (mg_store m) = (q, s') \<Longrightarrow> tame x (mg_store m) s'"
  shows "steady UNIV m m'"
proof -
  have "steady (- {[]}) m m'" "steady (- {[0]}) m m'" using assms by (auto intro!: steady_but)
  then show ?thesis unfolding steady_def by (metis ComplI UNIV_I not_Cons_self2 singletonD)
qed

lemma steady_snd:
  assumes "\<And>q s' x. f (mg_store m) = (q, s') \<Longrightarrow> tame x (mg_store m) s'"
  shows "steady UNIV m (snd (on_store f m))"
  using steady_all[of f m "fst (on_store f m)" "snd (on_store f m)"] assms by auto

lemma steady_shell: "on_shell f m = (r, m') \<Longrightarrow> steady X m m'"
  by (auto simp: on_shell_def steady_def calm_def row_state_def split: prod.splits)

lemma steady_rollback: "steady X m (rollback_worktree M plan m)"
proof -
  have "steady X m (snd (on_shell f m))" for f :: "'a Shell \<Rightarrow> 'b \<times> 'a Shell"
    by (rule steady_shell[of f m "fst (on_shell f m)"]) simp
  then show ?thesis by (auto simp: rollback_worktree_def steady_refl split: option.split)
qed

lemma steady_clear: "steady UNIV m (snd (on_store (session_clear_worktree k b) m))"
  unfolding session_clear_worktree_def by (rule steady_snd) (erule tame_update, simp)

lemma steady_pid: "steady UNIV m (snd (on_store (session_update_pid k p) m))"
  unfolding session_update_pid_def by (rule steady_snd) (auto elim!: tame_update)

lemma steady_append: "steady UNIV m (snd (on_store (chunk_append k knd d) m))"
  by (rule steady_snd) (auto elim!: tame_append)

lemma steady_get: "on_store (session_get k) m = (r, m') \<Longrightarrow> steady UNIV m m'"
  "on_store (project_get p) m = (q, m'') \<Longrightarrow> steady UNIV m m''"
  by (auto elim!: steady_all simp: session_get_def project_get_def intro: tame_read)

lemma steady_hook: "run_hook_of M cfg b plan m = (h, m') \<Longrightarrow> steady UNIV m m'"
proof (cases plan)
  case (Some p)
  assume run: "run_hook_of M cfg b plan m = (h, m')"
  have upd: "steady UNIV m (m\<lparr> mg_shell := sh \<rparr>)" for sh
    by (simp add: steady_def calm_def row_state_def)
  have "steady UNIV m (snd (on_store (session_set_hook_status k x) (m\<lparr> mg_shell := sh \<rparr>)))" for sh k x
    by (rule steady_trans[OF upd steady_snd]) (erule tame_hook)
  then show ?thesis using run Some
    by (auto simp: run_hook_of_def steady_refl split: option.splits prod.splits)
qed (auto simp: run_hook_of_def steady_refl)

subsection \<open>Rows that are not running\<close>

lemma steady_archive_worktree:
  "steady UNIV m (archive_worktree M cfg row m)"
proof (cases row)
  case (Some r)
  have "on_store (project_get p) m = (Inr (Some pj), m1) \<Longrightarrow>
      on_shell (cleanup (ma_host M) h KeepBranchIfDirty) m1 = (res, m2) \<Longrightarrow> steady UNIV m m2" for p pj m1 h res m2
    by (blast intro: steady_trans steady_get steady_shell)
  then show ?thesis using Some
    by (auto simp: archive_worktree_def steady_refl split: option.split prod.split sum.split
        intro: steady_get steady_trans[OF _ steady_clear])
qed (simp add: archive_worktree_def steady_refl split: option.split)

lemma states_simps [simp]:
  "states x (publish_state sid st c r m) = states x m @ (if x = sid then [st] else [])"
  "states x (m\<lparr> mg_store := s \<rparr>) = states x m" "states x (m\<lparr> mg_shell := sh \<rparr>) = states x m"
  "states x (put_runtime sid rt m) = states x m" "states x (m\<lparr> mg_registry := ids \<rparr>) = states x m"
  by (simp_all add: states_def publish_state_def bus_publish_def put_runtime_def List.map_filter_def)

lemma publish_simps [simp]:
  "mg_runtimes (publish_state sid st c r m) = mg_runtimes m" "mg_registry (publish_state sid st c r m) = mg_registry m"
  "mg_store (publish_state sid st c r m) = mg_store m" "calm (publish_state sid st c r m) = calm m"
  "row_state x (publish_state sid st c r m) = row_state x m"
  by (simp_all add: publish_state_def calm_def row_state_def)

lemma put_simps [simp]:
  "map_of (mg_runtimes (put_runtime sid rt m)) = (map_of (mg_runtimes m))(sid \<mapsto> rt)"
  "mg_registry (put_runtime sid rt m) = mg_registry m" "mg_bus (put_runtime sid rt m) = mg_bus m"
  "calm (put_runtime sid rt m) = calm m" "row_state x (put_runtime sid rt m) = row_state x m"
  "mg_store (put_runtime sid rt m) = mg_store m"
  by (simp_all add: put_runtime_def update_conv' calm_def row_state_def)

lemma steady_states: "steady X m m' \<Longrightarrow> states x m' = states x m"
  by (simp add: steady_def states_def)

subsection \<open>Moves of one runtime\<close>

lemma moved_put: "moved sid rt [] m (put_runtime sid rt m)"
  by (simp add: moved_def)

lemma moved_steady: "moved sid rt p m m1 \<Longrightarrow> steady UNIV m1 m2 \<Longrightarrow> moved sid rt p m m2"
  using steady_states[of UNIV m1 m2] by (simp add: moved_def steady_def)

lemma moved_again: "moved sid rt p m m1 \<Longrightarrow> moved sid rt' p m (put_runtime sid rt' m1)"
  by (simp add: moved_def)

lemma persist_calm:
  assumes "calm m" "row_state sid m \<noteq> None"
  shows "row_state sid (persist_state sid st code m) = Some (state_str st)"
  using assms
  by (auto simp: persist_state_def on_store_def session_update_state_def session_update_def calm_def
      row_state_def Let_def split_beta split: sum.splits)

lemma persist_steady: "steady (- {sid}) m (persist_state sid st code m)"
proof (rule steady_but[of "session_update_state sid (state_str st) code" m
      "fst (on_store (session_update_state sid (state_str st) code) m)"])
  show "on_store (session_update_state sid (state_str st) code) m
      = (fst (on_store (session_update_state sid (state_str st) code) m), persist_state sid st code m)"
    by (simp add: persist_state_def)
qed (unfold session_update_state_def, erule tame_update, simp)

lemma moved_state:
  "moved sid rt [st] m (publish_state sid st c r (persist_state sid st code (put_runtime sid rt m)))"
proof -
  let ?m = "put_runtime sid rt m"
  have s: "steady (- {sid}) ?m (persist_state sid st code ?m)" by (rule persist_steady)
  then have "row_state x (persist_state sid st code ?m) = row_state x m" if "x \<noteq> sid" for x
    using that by (simp add: steady_def)
  then show ?thesis
    using s steady_states[OF s] persist_calm[of ?m sid st code] by (simp add: moved_def steady_def)
qed

lemma moved_transition: "moved sid (rt\<lparr> rt_state := st \<rparr>) [st] m (transition sid st rt m)"
  unfolding transition_def by (rule moved_state)

section \<open>Steps and runs\<close>

text \<open>What the clients of a session see of the right to type: it is given to a new
  subscription, refused to one, given up, and used.\<close>

datatype LockEvent = Grant SubId | Refuse SubId | Release SubId | Typed SubId bytes

text \<open>An id that was never used: \<open>la_storage::new_id\<close> is a UUID.\<close>

definition unused :: "str \<Rightarrow> 'w Manager \<Rightarrow> bool" where
  "unused sid m \<longleftrightarrow> map_of (mg_runtimes m) sid = None \<and> sid \<notin> set (mg_registry m) \<and> states sid m = []"

inductive mgr_step :: "(bytes \<Rightarrow> nat list) \<Rightarrow> ManagerConfig \<Rightarrow> 'w Manager \<Rightarrow> (str \<times> LockEvent) list \<Rightarrow> 'w Manager \<Rightarrow> bool"
  for enc cfg where
  Spawn: "spawn_with_options M cfg agent p rq opts m = (r, m') \<Longrightarrow> unused (ma_new_id M) m
    \<Longrightarrow> mgr_step enc cfg m [] m'"
| Attach: "attach cfg sid since acquire m = (Inr out, m')
    \<Longrightarrow> evs = (if \<not> acquire then [] else [(sid,
          if ao_input_acquired out then Grant (ao_subscription out) else Refuse (ao_subscription out))])
    \<Longrightarrow> mgr_step enc cfg m evs m'"
| Detach: "detach cfg now sid sub m = (Inr (), m') \<Longrightarrow> mgr_step enc cfg m [(sid, Release sub)] m'"
| Evict: "mgr_step enc cfg m [] (evict_parked now sid sub m)"
| Resume: "resume_sub cfg sid sub since m = (r, m') \<Longrightarrow> mgr_step enc cfg m [] m'"
| Write: "write_input cfg sid sub data io m = (Inr (), m') \<Longrightarrow> mgr_step enc cfg m [(sid, Typed sub data)] m'"
| Resize: "resize sid cols rows io m = (r, m') \<Longrightarrow> mgr_step enc cfg m [] m'"
| Chunk: "mgr_step enc cfg m [] (pump_chunk enc cfg now sid data m)"
| Promote: "mgr_step enc cfg m [] (pump_promote sid m)"
| Idle: "mgr_step enc cfg m [] (pump_idle cfg now sid m)"
| Exit: "mgr_step enc cfg m [] (pump_exit sid code m)"
| Unregister: "map_of (mg_runtimes m) sid = Some rt \<Longrightarrow> \<not> rt_pumping rt
    \<Longrightarrow> mgr_step enc cfg m [] (pump_unregister sid m)"
| Close: "sid \<notin> set (mg_registry m) \<Longrightarrow> mgr_step enc cfg m [] (pump_close sid m)"
| Archive: "archive M cfg sid m = (r, m') \<Longrightarrow> mgr_step enc cfg m [] m'"
| Delete: "delete sid m = (r, m') \<Longrightarrow> mgr_step enc cfg m [] m'"
| Others: "m' = m\<lparr> mg_store := s, mg_shell := sh \<rparr> \<Longrightarrow> steady (set (mg_registry m)) m m' \<Longrightarrow> mgr_step enc cfg m [] m'"

inductive mgr_run :: "(bytes \<Rightarrow> nat list) \<Rightarrow> ManagerConfig \<Rightarrow> 'w Manager \<Rightarrow> (str \<times> LockEvent) list \<Rightarrow> 'w Manager \<Rightarrow> bool"
  for enc cfg m0 where
  start: "mgr_run enc cfg m0 [] m0"
| step: "mgr_run enc cfg m0 tr m \<Longrightarrow> mgr_step enc cfg m evs m' \<Longrightarrow> mgr_run enc cfg m0 (tr @ evs) m'"

section \<open>The four kinds of step\<close>

text \<open>A step changes nothing that is seen here, or starts a session, or moves one runtime, or
  ends what is left of one.\<close>

definition same_life :: "Runtime \<Rightarrow> Runtime \<Rightarrow> bool" where
  "same_life rt rt' \<longleftrightarrow> rt_state rt' = rt_state rt \<and> rt_pumping rt' = rt_pumping rt"

definition same_lock :: "Runtime \<Rightarrow> Runtime \<Rightarrow> bool" where
  "same_lock rt rt' \<longleftrightarrow> rt_writer_holder rt' = rt_writer_holder rt \<and> rt_input rt' = rt_input rt"

text \<open>The life cycle of a session.\<close>

fun legal :: "SessionState \<Rightarrow> SessionState \<Rightarrow> bool" where
  "legal Starting st \<longleftrightarrow> st = Running \<or> st = Exited"
| "legal Running st \<longleftrightarrow> st = Waiting \<or> st = Exited"
| "legal Waiting st \<longleftrightarrow> st = Running \<or> st = Exited"
| "legal Exited st \<longleftrightarrow> st = Archived"
| "legal Archived st \<longleftrightarrow> st = Archived"
| "legal Errored st \<longleftrightarrow> False"

text \<open>The lock: who may type, if anyone.\<close>

fun lock_next :: "SubId option \<Rightarrow> LockEvent \<Rightarrow> SubId option option" where
  "lock_next h (Grant s) = (if h = None then Some (Some s) else None)"
| "lock_next h (Refuse s) = (if h = None then None else Some h)"
| "lock_next h (Release s) = Some (if h = Some s then None else h)"
| "lock_next h (Typed s d) = (if h = Some s then Some h else None)"

fun typed :: "LockEvent list \<Rightarrow> bytes list" where
  "typed [] = []"
| "typed (Typed s d # es) = d # typed es"
| "typed (e # es) = typed es"

inductive kind_of_step :: "'w Manager \<Rightarrow> (str \<times> LockEvent) list \<Rightarrow> 'w Manager \<Rightarrow> bool" where
  Still: "steady (set (mg_registry m)) m m' \<Longrightarrow> kind_of_step m [] m'"
| Quiet: "map_of (mg_runtimes m) sid = Some rt \<Longrightarrow> moved sid rt' [] m m' \<Longrightarrow> same_life rt rt'
    \<Longrightarrow> evs = [] \<and> same_lock rt rt' \<or> (\<exists>e. evs = [(sid, e)]
          \<and> lock_next (rt_writer_holder rt) e = Some (rt_writer_holder rt') \<and> rt_input rt' = rt_input rt @ typed [e])
    \<Longrightarrow> kind_of_step m evs m'"
| Moved: "map_of (mg_runtimes m) sid = Some rt \<Longrightarrow> rt_pumping rt \<Longrightarrow> moved sid rt' [st] m m'
    \<Longrightarrow> legal (rt_state rt) st \<Longrightarrow> st \<noteq> Archived \<Longrightarrow> rt_state rt' = st \<Longrightarrow> rt_pumping rt' \<longleftrightarrow> st \<noteq> Exited
    \<Longrightarrow> same_lock rt rt' \<Longrightarrow> kind_of_step m [] m'"
| Started: "unused sid m \<Longrightarrow> map_of (mg_runtimes m') = (map_of (mg_runtimes m))(sid \<mapsto> rt)
    \<Longrightarrow> rt_state rt = Starting \<Longrightarrow> rt_pumping rt \<Longrightarrow> rt_writer_holder rt = None \<Longrightarrow> rt_input rt = []
    \<Longrightarrow> set (mg_registry m') = insert sid (set (mg_registry m))
    \<Longrightarrow> (\<forall>x. states x m' = states x m @ (if x = sid then [Starting] else []))
    \<Longrightarrow> calm m \<longrightarrow> calm m' \<and> row_state sid m' = Some (state_str Starting)
    \<Longrightarrow> (\<forall>x. x \<noteq> sid \<longrightarrow> row_state x m' = row_state x m) \<Longrightarrow> kind_of_step m [] m'"
| Gone: "map_of (mg_runtimes m) sid = Some rt \<Longrightarrow> \<not> rt_pumping rt \<Longrightarrow> kind_of_step m [] (pump_unregister sid m)"
| Shelved: "sid \<notin> set (mg_registry m) \<Longrightarrow> steady (set (mg_registry m)) m m1
    \<Longrightarrow> kind_of_step m [] (publish_state sid Archived None None m1)"

inductive_cases kind_of_stepE: "kind_of_step m evs m'"

lemma same_life_refl [simp]: "same_life rt rt" "same_lock rt rt"
  by (simp_all add: same_life_def same_lock_def)

lemma runtimeD: "runtime sid m = Inr rt \<Longrightarrow> map_of (mg_runtimes m) sid = Some rt \<and> sid \<in> set (mg_registry m)"
  by (auto simp: runtime_def split: if_splits option.splits)

lemma still_self: "kind_of_step m [] m"
  by (rule kind_of_step.Still) (rule steady_refl)

text \<open>A quiet move of a runtime that keeps its lock.\<close>

lemma quiet_move:
  "map_of (mg_runtimes m) sid = Some rt \<Longrightarrow> same_life rt rt' \<Longrightarrow> same_lock rt rt' \<Longrightarrow>
   kind_of_step m [] (put_runtime sid rt' m)"
  by (rule kind_of_step.Quiet[OF _ moved_put]) auto

lemma quiet_event:
  "map_of (mg_runtimes m) sid = Some rt \<Longrightarrow> moved sid rt' [] m m' \<Longrightarrow> same_life rt rt' \<Longrightarrow>
   lock_next (rt_writer_holder rt) e = Some (rt_writer_holder rt') \<Longrightarrow> rt_input rt' = rt_input rt @ typed [e] \<Longrightarrow>
   kind_of_step m [(sid, e)] m'"
  by (rule kind_of_step.Quiet) auto

lemma attach_step:
  assumes "attach cfg sid since acquire m = (Inr out, m')"
  shows "kind_of_step m (if \<not> acquire then [] else [(sid,
    if ao_input_acquired out then Grant (ao_subscription out) else Refuse (ao_subscription out))]) m'"
proof -
  obtain rt where r: "runtime sid m = Inr rt" and o: "attach_runtime cfg sid since acquire rt m = (out, m')"
    using assms by (auto simp: attach_def split: sum.splits prod.splits)
  obtain sub h where sub: "subscribe (mc_hub cfg) since (rt_hub rt) = (sub, h)" by fastforce
  let ?rt = "rt\<lparr> rt_hub := h, rt_writer_holder := (if acquire \<and> rt_writer_holder rt = None then Some sub
      else rt_writer_holder rt) \<rparr>"
  have m': "m' = put_runtime sid ?rt m" and out: "ao_subscription out = sub"
    "ao_input_acquired out = (acquire \<and> rt_writer_holder rt = None)"
    using o sub by (auto simp: attach_runtime_def Let_def)
  show ?thesis
  proof (cases acquire)
    case False
    then show ?thesis using runtimeD[OF r] unfolding m'
      by (auto intro!: quiet_move[where rt = rt] simp: same_life_def same_lock_def)
  next
    case True
    then show ?thesis using runtimeD[OF r] out unfolding m'
      by (auto intro!: quiet_event[where rt = rt, OF _ moved_put] simp: same_life_def)
  qed
qed

lemma detach_step:
  assumes "detach cfg now sid sub m = (Inr (), m')"
  shows "kind_of_step m [(sid, Release sub)] m'"
proof -
  obtain rt where "runtime sid m = Inr rt" using assms by (auto simp: detach_def split: sum.splits)
  then show ?thesis using assms runtimeD[of sid m rt]
    by (auto simp: detach_def same_life_def intro!: quiet_event[where rt = rt, OF _ moved_put])
qed

lemma write_step:
  assumes "write_input cfg sid sub data io m = (Inr (), m')"
  shows "kind_of_step m [(sid, Typed sub data)] m'"
proof -
  obtain rt where r: "runtime sid m = Inr rt" and h: "rt_writer_holder rt = Some sub" "io = None"
    using assms by (auto simp: write_input_def split: sum.splits option.splits if_splits)
  have "moved sid (rt\<lparr> rt_input := rt_input rt @ [data] \<rparr>) [] m m'"
    using assms r h moved_steady[OF moved_put steady_append]
    by (auto simp: write_input_def Let_def moved_put split: if_splits)
  then show ?thesis
    by (rule quiet_event[OF conjunct1[OF runtimeD[OF r]]]) (simp_all add: same_life_def h)
qed

lemma other_quiet_steps:
  "kind_of_step m [] (evict_parked now sid sub m)"
  "resume_sub cfg sid sub since m = (r, m') \<Longrightarrow> kind_of_step m [] m'"
  "resize sid cols rows io m = (q, m'') \<Longrightarrow> kind_of_step m [] m''"
  "kind_of_step m [] (pump_close sid m)"
  by (auto simp: evict_parked_def resume_sub_def resize_def pump_close_def still_self same_life_def same_lock_def
      split: option.splits sum.splits prod.splits intro!: quiet_move dest: runtimeD)

definition pump_inv :: "'w Manager \<Rightarrow> bool" where
  "pump_inv m \<longleftrightarrow> (\<forall>sid rt. map_of (mg_runtimes m) sid = Some rt \<longrightarrow> rt_pumping rt \<longrightarrow>
     rt_state rt \<in> {Starting, Running, Waiting})"

lemma pumpingD: "pumping sid m = Some rt \<Longrightarrow> map_of (mg_runtimes m) sid = Some rt \<and> rt_pumping rt"
  by (auto simp: pumping_def split: option.splits if_splits)

lemma transition_step:
  assumes "pumping sid m = Some rt" "legal (rt_state rt) st" "st \<noteq> Archived" "st \<noteq> Exited"
  shows "kind_of_step m [] (transition sid st rt m)"
  using pumpingD[OF assms(1)] assms(2-4)
  by (auto intro!: kind_of_step.Moved[OF _ _ moved_transition] simp: same_lock_def)

lemma promote_step: "kind_of_step m [] (pump_promote sid m)"
  by (auto simp: pump_promote_def still_self split: option.split intro!: transition_step)

lemma idle_step: "kind_of_step m [] (pump_idle cfg now sid m)"
  by (auto simp: pump_idle_def still_self split: option.split intro!: transition_step)

lemma exit_step:
  assumes "pump_inv m" shows "kind_of_step m [] (pump_exit sid code m)"
proof (cases "pumping sid m")
  case (Some rt)
  then have "rt_state rt \<in> {Starting, Running, Waiting}" using assms pumpingD[OF Some] by (auto simp: pump_inv_def)
  then have "legal (rt_state rt) Exited" by auto
  then show ?thesis using Some pumpingD[OF Some]
    by (auto simp: pump_exit_def same_lock_def intro!: kind_of_step.Moved[OF _ _ moved_state])
qed (simp add: pump_exit_def still_self)

lemma chunk_step: "kind_of_step m [] (pump_chunk enc cfg now sid data m)"
proof (cases "pumping sid m")
  case (Some rt)
  note p = pumpingD[OF Some]
  let ?rt1 = "rt\<lparr> rt_last_output_at := Some now \<rparr>"
  let ?go = "rt_state rt = Starting \<or> rt_state rt = Waiting"
  define rt2 where "rt2 = (if ?go then ?rt1\<lparr> rt_state := Running \<rparr> else ?rt1)"
  define m1 where "m1 = (if ?go then transition sid Running ?rt1 m else put_runtime sid ?rt1 m)"
  define rt3 where "rt3 = rt2\<lparr> rt_hub := snd (publish enc (mc_hub cfg) sid data (rt_hub rt2)) \<rparr>"
  have m1: "moved sid rt2 (if ?go then [Running] else []) m m1"
    unfolding m1_def rt2_def using moved_transition[where rt = ?rt1 and st = Running] moved_put[where rt = ?rt1] by auto
  then have get: "map_of (mg_runtimes m1) sid = Some rt2" by (simp add: moved_def)
  have "moved sid rt3 (if ?go then [Running] else []) m (put_runtime sid rt3 m1)"
    using m1 by (rule moved_again)
  then have mv: "moved sid rt3 (if ?go then [Running] else []) m (pump_chunk enc cfg now sid data m)"
    using Some get moved_steady[OF _ steady_append]
    by (auto simp: pump_chunk_def Let_def rt3_def m1_def[symmetric])
  show ?thesis
  proof (cases ?go)
    case True
    then show ?thesis using p mv
      by (intro kind_of_step.Moved[of m sid rt rt3 Running]) (auto simp: rt3_def rt2_def same_lock_def)
  next
    case False
    then show ?thesis using p mv
      by (intro kind_of_step.Quiet[of m sid rt rt3]) (auto simp: rt3_def rt2_def same_lock_def same_life_def)
  qed
qed (simp add: pump_chunk_def still_self)

lemma archive_step:
  assumes "archive M cfg sid m = (r, m')"
  shows "kind_of_step m [] m'"
proof (cases "sid \<in> set (mg_registry m)")
  case True
  then show ?thesis using assms by (simp add: archive_def still_self)
next
  case False
  have upd: "on_store (session_archive sid) m1 = (q, m2) \<Longrightarrow> steady (- {sid}) m1 m2" for q and m1 m2 :: "'a Manager"
    unfolding session_archive_def by (erule steady_but) (auto elim!: tame_update)
  from assms False have "and_then (on_store (session_get sid) m) (\<lambda>row m.
        and_then (on_store (session_archive sid) m) (\<lambda>archived m.
          if \<not> archived then (Inl (SessionNotFound sid), m)
          else (Inr (), publish_state sid Archived None None (archive_worktree M cfg row m)))) = (r, m')"
    by (simp add: archive_def)
  then show ?thesis
  proof (elim and_thenE)
    fix e assume "on_store (session_get sid) m = (Inl e, m')"
    then show ?thesis by (auto intro: kind_of_step.Still steady_mono[OF steady_get(1)])
  next
    fix row m1 e assume "on_store (session_get sid) m = (Inr row, m1)" "on_store (session_archive sid) m1 = (Inl e, m')"
    then have "steady (- {sid}) m m'" by (blast intro: steady_trans steady_mono[OF steady_get(1)] upd)
    then show ?thesis using False by (auto intro: kind_of_step.Still elim: steady_mono)
  next
    fix row m1 ok m2
    assume g: "on_store (session_get sid) m = (Inr row, m1)" "on_store (session_archive sid) m1 = (Inr ok, m2)"
      and rest: "(if \<not> ok then (Inl (SessionNotFound sid), m2)
          else (Inr (), publish_state sid Archived None None (archive_worktree M cfg row m2))) = (r, m')"
    have s: "steady (- {sid}) m m2" using g by (blast intro: steady_trans steady_mono[OF steady_get(1)] upd)
    have w: "steady (- {sid}) m (archive_worktree M cfg row m2)"
      using s steady_mono[OF steady_archive_worktree] by (blast intro: steady_trans)
    have sub: "set (mg_registry m) \<subseteq> - {sid}" using False by auto
    show ?thesis
      using rest kind_of_step.Still[OF steady_mono[OF s sub]] kind_of_step.Shelved[OF False steady_mono[OF w sub]]
      by (auto split: if_splits)
  qed
qed

lemma delete_step:
  assumes "delete sid m = (r, m')"
  shows "kind_of_step m [] m'"
proof (cases "sid \<in> set (mg_registry m)")
  case False
  then have "and_then (on_store (session_delete sid) m) (\<lambda>removed m.
      (if removed then Inr () else Inl (SessionNotFound sid), m)) = (r, m')"
    using assms by (simp add: delete_def)
  then obtain q where "on_store (session_delete sid) m = (q, m')" by (cases rule: and_thenE) auto
  then have "steady (- {sid}) m m'" by (rule steady_but) (erule tame_delete)
  then show ?thesis using False by (auto intro: kind_of_step.Still elim: steady_mono)
qed (use assms in \<open>simp add: delete_def still_self\<close>)

subsection \<open>Starting\<close>

lemma create_row:
  assumes "session_create n s = (Inr row, s')"
  shows "map_option se_state (map_of (st_sessions s') (ns_id n)) = Some (ns_state n)"
proof -
  have fresh: "k \<notin> fst ` set xs \<Longrightarrow> map_of xs k = None" for k :: str and xs :: "(str \<times> Session) list"
    by (simp add: map_of_eq_None_iff)
  obtain t where t: "sql (\<lambda>s. let r = session_row (store_now s) n in
         if ns_id n \<in> set (map fst (st_sessions s)) \<or> \<not> session_refs s r
            \<or> (\<exists>x\<in>set (map snd (st_sessions s)). same_external r x) then Inl CONSTRAINT
         else Inr ((), sync (s\<lparr> st_sessions := st_sessions s @ [(ns_id n, r)] \<rparr>))) s = (Inr (), t)"
    and g: "and_then (session_get (ns_id n) t)
      (\<lambda>r s. (case r of Some row \<Rightarrow> Inr row | None \<Rightarrow> Inl (MissingSession (ns_id n)), s)) = (Inr row, s')"
    using assms unfolding session_create_def by (cases rule: and_thenE) auto
  from t have "map_option se_state (map_of (st_sessions t) (ns_id n)) = Some (ns_state n)"
    by (cases rule: sqlE) (auto simp: Let_def tame_sync map_add_def session_row_def fresh split: if_splits)
  moreover have "tame (ns_id n) t s'"
    using g by (rule tame_ev.and_then) (auto simp: session_get_def intro: tame_read tame_ev.refl)
  ultimately show ?thesis by (simp add: tame_def)
qed

lemma steady_provision: "on_shell (provision M cfg sid opts) m = (r, m') \<Longrightarrow> steady X m m'"
  by (rule steady_shell)

lemma prepare_steady:
  assumes "spawn_prepare M cfg agent p rq opts m = (r, m')"
  shows "steady (- {ma_new_id M}) m m' \<and>
    (\<forall>spec plan. r = Inr (spec, plan) \<longrightarrow> row_state (ma_new_id M) m' = Some (state_str Starting))"
  using assms unfolding spawn_prepare_def
proof (cases rule: and_thenE)
  case (fail e)
  then show ?thesis using steady_provision by fastforce
next
  case (ok plan m1)
  note s1 = steady_provision[OF ok(1)]
  let ?rq = "case plan of None \<Rightarrow> rq | Some (_, p) \<Rightarrow> rq\<lparr> rq_cwd := pl_path p \<rparr>"
  show ?thesis
  proof (cases "ag_spawn_spec agent ?rq")
    case (Inl e)
    then show ?thesis using ok(2) s1 steady_rollback[of _ m1 M plan] by (auto intro: steady_trans)
  next
    case (Inr spec)
    let ?n = "new_session_row M p (ag_id agent) spec plan"
    have n: "ns_id ?n = ma_new_id M" "ns_state ?n = state_str Starting" by (simp_all add: new_session_row_def)
    obtain q m2 where c: "on_store (session_create ?n) m1 = (q, m2)" by fastforce
    then have s2: "steady (- {ma_new_id M}) m1 m2"
      by (rule steady_but) (erule tame_create, simp add: n)
    have "q = Inr row \<Longrightarrow> row_state (ma_new_id M) m2 = Some (state_str Starting)" for row
      using c create_row[of ?n "mg_store m1"] n
      by (auto simp: on_store_def row_state_def split: prod.splits sum.splits)
    moreover have "steady (- {ma_new_id M}) m m2" "steady (- {ma_new_id M}) m (rollback_worktree M plan m2)"
      using steady_trans[OF s1 s2] steady_rollback[of _ m2 M plan] by (auto intro: steady_trans)
    ultimately show ?thesis
      using ok(2) Inr c by (auto split: sum.splits)
  qed
qed

lemma start_effect:
  assumes "spawn_start M cfg agent p spec plan m = (r, m')"
  shows "(\<exists>e. r = Inl e) \<and> steady UNIV m m' \<or>
    (\<exists>rt. map_of (mg_runtimes m') = (map_of (mg_runtimes m))(ma_new_id M \<mapsto> rt)
       \<and> rt_state rt = Starting \<and> rt_pumping rt \<and> rt_writer_holder rt = None \<and> rt_input rt = []
       \<and> set (mg_registry m') = insert (ma_new_id M) (set (mg_registry m))
       \<and> (\<forall>x. states x m' = states x m @ (if x = ma_new_id M then [Starting] else []))
       \<and> (calm m \<longrightarrow> calm m') \<and> (\<forall>x. row_state x m' = row_state x m))"
proof (cases "pty_spawn (ma_pty M) spec (pty_size_from_spec spec (mc_initial_pty cfg))")
  case (Inl e)
  then show ?thesis using assms steady_rollback[of UNIV m M plan]
    by (auto simp: spawn_start_def Let_def steady_refl intro: steady_trans[OF _ steady_clear] split: if_splits)
next
  case (Inr pid)
  let ?sid = "ma_new_id M" and ?sz = "pty_size_from_spec spec (mc_initial_pty cfg)"
  define m1 where "m1 = (case pid of None \<Rightarrow> m
      | Some p \<Rightarrow> snd (on_store (session_update_pid ?sid (Some (int p))) m))"
  define rt where "rt = fresh_runtime pid ?sz (sp_stdin_mode spec)"
  define m4 where "m4 = publish_state ?sid Starting None None
      ((put_runtime ?sid rt m1)\<lparr> mg_registry := List.insert ?sid (mg_registry m1) \<rparr>)"
  have s1: "steady UNIV m m1" by (auto simp: m1_def steady_refl steady_pid split: option.split)
  obtain h m5 where h: "run_hook_of M cfg (ag_id agent) plan m4 = (h, m5)" by fastforce
  note s5 = steady_hook[OF h]
  have "m' = m5" "\<exists>x. r = Inr x"
    using assms Inr h by (auto simp: spawn_start_def Let_def m1_def m4_def rt_def)
  moreover have "map_of (mg_runtimes m4) = (map_of (mg_runtimes m))(?sid \<mapsto> rt)"
    "set (mg_registry m4) = insert ?sid (set (mg_registry m))" "calm m \<longrightarrow> calm m4"
    "\<forall>x. row_state x m4 = row_state x m" "\<forall>x. states x m4 = states x m @ (if x = ?sid then [Starting] else [])"
    using s1 steady_states[OF s1]
    by (simp_all add: m4_def steady_def calm_def row_state_def)
  ultimately show ?thesis
    using s5 steady_states[OF s5]
    by (intro disjI2 exI[of _ rt]) (auto simp: steady_def rt_def fresh_runtime_def)
qed

lemma spawn_step:
  assumes "spawn_with_options M cfg agent p rq opts m = (r, m')" "unused (ma_new_id M) m"
  shows "kind_of_step m [] m'"
  using assms(1) unfolding spawn_with_options_def
proof (cases rule: and_thenE)
  case (fail e)
  then show ?thesis using prepare_steady[OF fail(1)] assms(2)
    by (auto simp: unused_def intro: kind_of_step.Still elim!: steady_mono)
next
  case (ok a m1)
  obtain spec plan where a: "a = (spec, plan)" by (cases a)
  have s: "steady (- {ma_new_id M}) m m1" "row_state (ma_new_id M) m1 = Some (state_str Starting)"
    using prepare_steady[OF ok(1)] a by auto
  have sub: "set (mg_registry m) \<subseteq> - {ma_new_id M}" using assms(2) by (auto simp: unused_def)
  from ok(2) a have "spawn_start M cfg agent p spec plan m1 = (r, m')" by simp
  from start_effect[OF this] show ?thesis
  proof (elim disjE exE conjE)
    assume "steady UNIV m1 m'"
    then have "steady (- {ma_new_id M}) m m'" using s(1) by (blast intro: steady_trans steady_mono)
    then show ?thesis using sub by (blast intro: kind_of_step.Still steady_mono)
  next
    fix rt assume "map_of (mg_runtimes m') = (map_of (mg_runtimes m1))(ma_new_id M \<mapsto> rt)"
      "rt_state rt = Starting" "rt_pumping rt" "rt_writer_holder rt = None" "rt_input rt = []"
      "set (mg_registry m') = insert (ma_new_id M) (set (mg_registry m1))"
      "\<forall>x. states x m' = states x m1 @ (if x = ma_new_id M then [Starting] else [])"
      "calm m1 \<longrightarrow> calm m'" "\<forall>x. row_state x m' = row_state x m1"
    then show ?thesis
      using s steady_states[OF s(1)] assms(2)
      by (intro kind_of_step.Started[of "ma_new_id M" m m' rt]) (auto simp: steady_def)
  qed
qed

lemma step_kind:
  assumes "mgr_step enc cfg m evs m'" "pump_inv m"
  shows "kind_of_step m evs m'"
  using assms(1)
proof (cases rule: mgr_step.cases)
  case (Attach sid since acquire out)
  then show ?thesis using attach_step by blast
qed (use assms(2) in \<open>auto intro: spawn_step detach_step write_step other_quiet_steps promote_step idle_step
      exit_step chunk_step archive_step delete_step kind_of_step.Gone kind_of_step.Still\<close>)

end
