(* ===== verification/Session_Properties.thy ===== *)
theory Session_Properties
  imports Session_History
begin

text \<open>
  The properties of the session manager: the lock on a session's input, the life cycle of
  a session, what a session leaves behind, and the interleavings that go wrong.
\<close>

section \<open>Invariants\<close>

text \<open>The states published for a session the manager started: from Starting on, each a legal
  successor of the one before, and the last the one it is in.\<close>

definition life_ok :: "SessionState list \<Rightarrow> bool \<Rightarrow> Runtime \<Rightarrow> bool" where
  "life_ok ss reachable rt \<longleftrightarrow> successively legal ss \<and> ss \<noteq> [] \<and> hd ss = Starting
     \<and> (if rt_pumping rt
        then reachable \<and> rt_state rt \<in> {Starting, Running, Waiting} \<and> last ss = rt_state rt
        else rt_state rt = Exited \<and> last ss \<in> {Exited, Archived} \<and> (reachable \<longrightarrow> last ss = Exited))"

definition life_inv :: "'w Manager \<Rightarrow> bool" where
  "life_inv m \<longleftrightarrow> (\<forall>sid rt. map_of (mg_runtimes m) sid = Some rt \<longrightarrow>
     life_ok (states sid m) (sid \<in> set (mg_registry m)) rt)"

definition registry_inv :: "'w Manager \<Rightarrow> bool" where
  "registry_inv m \<longleftrightarrow> (\<forall>sid\<in>set (mg_registry m). map_of (mg_runtimes m) sid \<noteq> None)"

lemma lifeD: "life_inv m \<Longrightarrow> map_of (mg_runtimes m) sid = Some rt \<Longrightarrow>
    life_ok (states sid m) (sid \<in> set (mg_registry m)) rt"
  by (simp add: life_inv_def)

lemma life_pump: "life_inv m \<Longrightarrow> pump_inv m"
  unfolding pump_inv_def by (auto dest!: lifeD simp: life_ok_def)

lemma successively_snoc: "ss \<noteq> [] \<Longrightarrow> successively P (ss @ [x]) \<longleftrightarrow> successively P ss \<and> P (last ss) x"
  by (auto simp: successively_append_iff)

lemma life_ok_next:
  assumes "life_ok ss reg rt" "rt_pumping rt" "legal (rt_state rt) st" "st \<noteq> Archived"
    "rt_state rt' = st" "rt_pumping rt' \<longleftrightarrow> st \<noteq> Exited"
  shows "life_ok (ss @ [st]) reg rt'"
proof -
  have "st \<in> {Running, Waiting, Exited}" using assms(3,4) by (cases "rt_state rt") auto
  then show ?thesis using assms by (auto simp: life_ok_def successively_snoc)
qed

lemma life_ok_archived:
  "life_ok ss False rt \<Longrightarrow> life_ok (ss @ [Archived]) False rt"
  by (auto simp: life_ok_def successively_snoc split: if_splits)

lemma life_ok_same: "same_life rt rt' \<Longrightarrow> life_ok ss reg rt' = life_ok ss reg rt"
  by (simp add: life_ok_def same_life_def)

lemma life_ok_gone: "life_ok ss reg rt \<Longrightarrow> \<not> rt_pumping rt \<Longrightarrow> life_ok ss False rt"
  by (simp add: life_ok_def)

text \<open>A change of one session keeps the invariant if it keeps it for that session.\<close>

lemma life_invI:
  assumes "life_inv m" "\<And>x. x \<noteq> sid \<Longrightarrow> map_of (mg_runtimes m') x = map_of (mg_runtimes m) x
      \<and> states x m' = states x m \<and> (x \<in> set (mg_registry m') \<longleftrightarrow> x \<in> set (mg_registry m))"
    and "\<And>rt. map_of (mg_runtimes m') sid = Some rt \<Longrightarrow> life_ok (states sid m') (sid \<in> set (mg_registry m')) rt"
  shows "life_inv m'"
  unfolding life_inv_def
proof (intro allI impI)
  fix x rt assume "map_of (mg_runtimes m') x = Some rt"
  then show "life_ok (states x m') (x \<in> set (mg_registry m')) rt"
    using assms(2)[of x] assms(3)[of rt] lifeD[OF assms(1), of x rt] by (cases "x = sid") simp_all
qed

lemma life_step:
  assumes "kind_of_step m evs m'" "life_inv m"
  shows "life_inv m'"
  using assms(1)
proof (cases rule: kind_of_step.cases)
  case Still
  then show ?thesis
    using assms(2) steady_states[OF Still(2)] by (simp add: life_inv_def steady_def)
next
  case (Quiet sid rt rt')
  have "life_ok (states sid m) (sid \<in> set (mg_registry m)) rt'"
    using lifeD[OF assms(2) Quiet(1)] life_ok_same[OF Quiet(3)] by simp
  then show ?thesis using Quiet(2) by (intro life_invI[OF assms(2), of sid]) (simp_all add: moved_def)
next
  case (Moved sid rt rt' st)
  have "life_ok (states sid m @ [st]) (sid \<in> set (mg_registry m)) rt'"
    using life_ok_next[OF lifeD[OF assms(2) Moved(2)] Moved(3,5,6,7,8)] .
  then show ?thesis using Moved(4) by (intro life_invI[OF assms(2), of sid]) (simp_all add: moved_def)
next
  case (Started sid rt)
  have "states sid m = []" using Started(2) by (simp add: unused_def)
  moreover have "life_ok [Starting] True rt" using Started(4,5) by (simp add: life_ok_def)
  ultimately show ?thesis using Started(3,8,9) by (intro life_invI[OF assms(2), of sid]) simp_all
next
  case (Gone sid rt)
  then show ?thesis using life_ok_gone[OF lifeD[OF assms(2) Gone(3)] Gone(4)]
    by (intro life_invI[OF assms(2), of sid]) (simp_all add: pump_unregister_def)
next
  case (Shelved sid m1)
  have s: "states x m' = states x m @ (if x = sid then [Archived] else [])" for x
    using steady_states[OF Shelved(4)] Shelved(2) by simp
  have m: "mg_runtimes m' = mg_runtimes m" "mg_registry m' = mg_registry m"
    using Shelved(2,4) by (simp_all add: steady_def)
  show ?thesis using Shelved(3) lifeD[OF assms(2), of sid]
    by (intro life_invI[OF assms(2), of sid]) (simp_all add: s m life_ok_archived)
qed

lemma registry_step:
  assumes "kind_of_step m evs m'" "registry_inv m"
  shows "registry_inv m'"
  using assms(1)
proof (cases rule: kind_of_step.cases)
  case (Shelved sid m1)
  then show ?thesis using assms(2) by (simp add: registry_inv_def steady_def)
qed (use assms(2) in \<open>simp_all add: registry_inv_def steady_def moved_def pump_unregister_def\<close>)

lemma run_invariants:
  assumes "mgr_run enc cfg (new_manager s sh cfg) tr m"
  shows "life_inv m \<and> registry_inv m"
  using assms
proof induction
  case start
  show ?case by (simp add: life_inv_def registry_inv_def new_manager_def)
next
  case (step tr m evs m')
  then show ?case using step_kind[OF step(2)] life_step registry_step life_pump by blast
qed

section \<open>The lock on the input\<close>

text \<open>The lock as a machine on its own, and what happened to the input of one session.\<close>

primrec lock_run :: "SubId option \<Rightarrow> LockEvent list \<Rightarrow> SubId option option" where
  "lock_run h [] = Some h"
| "lock_run h (e # es) = (case lock_next h e of None \<Rightarrow> None | Some h' \<Rightarrow> lock_run h' es)"

definition events :: "str \<Rightarrow> (str \<times> LockEvent) list \<Rightarrow> LockEvent list" where
  "events sid tr = map snd (filter (\<lambda>(x, _). x = sid) tr)"

lemma lock_run_append: "lock_run h (es @ fs) = (case lock_run h es of None \<Rightarrow> None | Some h' \<Rightarrow> lock_run h' fs)"
  by (induction es arbitrary: h) (auto split: option.split)

lemma typed_append: "typed (es @ fs) = typed es @ typed fs"
  by (induction es rule: typed.induct) simp_all

lemma events_append [simp]: "events sid (tr @ evs) = events sid tr @ events sid evs"
  "events sid [] = []" "events sid [(x, e)] = (if x = sid then [e] else [])"
  by (simp_all add: events_def)

definition lock_ok :: "LockEvent list \<Rightarrow> Runtime option \<Rightarrow> bool" where
  "lock_ok es orr \<longleftrightarrow> (case orr of None \<Rightarrow> es = []
     | Some rt \<Rightarrow> lock_run None es = Some (rt_writer_holder rt) \<and> rt_input rt = typed es)"

lemma lock_ok_same: "same_lock rt rt' \<Longrightarrow> lock_ok es (Some rt') = lock_ok es (Some rt)"
  by (simp add: lock_ok_def same_lock_def)

lemma lock_ok_next:
  "lock_ok es (Some rt) \<Longrightarrow> lock_next (rt_writer_holder rt) e = Some (rt_writer_holder rt') \<Longrightarrow>
   rt_input rt' = rt_input rt @ typed [e] \<Longrightarrow> lock_ok (es @ [e]) (Some rt')"
  by (simp add: lock_ok_def lock_run_append typed_append)

definition lock_inv :: "(str \<times> LockEvent) list \<Rightarrow> 'w Manager \<Rightarrow> bool" where
  "lock_inv tr m \<longleftrightarrow> (\<forall>sid. lock_ok (events sid tr) (map_of (mg_runtimes m) sid))"

lemma lock_invI:
  assumes "lock_inv tr m" "\<And>x. x \<noteq> sid \<Longrightarrow> map_of (mg_runtimes m') x = map_of (mg_runtimes m) x \<and> events x evs = []"
    "lock_ok (events sid (tr @ evs)) (map_of (mg_runtimes m') sid)"
  shows "lock_inv (tr @ evs) m'"
  unfolding lock_inv_def
proof
  fix x show "lock_ok (events x (tr @ evs)) (map_of (mg_runtimes m') x)"
    using assms(1) assms(2)[of x] assms(3) by (cases "x = sid") (simp_all add: lock_inv_def)
qed

lemma lock_step:
  assumes "kind_of_step m evs m'" "lock_inv tr m"
  shows "lock_inv (tr @ evs) m'"
proof -
  have l: "lock_ok (events sid tr) (map_of (mg_runtimes m) sid)" for sid
    using assms(2) by (simp add: lock_inv_def)
  have same: "lock_inv tr m'" if "mg_runtimes m' = mg_runtimes m"
    using assms(2) that by (simp add: lock_inv_def)
  show ?thesis using assms(1)
  proof (cases rule: kind_of_step.cases)
    case Still then show ?thesis using same by (simp add: steady_def)
  next
    case (Quiet sid rt rt')
    from Quiet(4) have "lock_ok (events sid (tr @ evs)) (Some rt') \<and> (\<forall>x. x \<noteq> sid \<longrightarrow> events x evs = [])"
      using l[of sid] Quiet(1) lock_ok_same[of rt rt'] lock_ok_next[of "events sid tr" rt _ rt'] by auto
    then show ?thesis using Quiet(2) by (intro lock_invI[OF assms(2), of sid]) (simp_all add: moved_def)
  next
    case (Moved sid rt rt' st)
    then show ?thesis using l[of sid] lock_ok_same[OF Moved(9)]
      by (intro lock_invI[OF assms(2), of sid]) (simp_all add: moved_def)
  next
    case (Started sid rt)
    have "events sid tr = []" using l[of sid] Started(2) by (simp add: unused_def lock_ok_def)
    then show ?thesis using Started(1,3,6,7)
      by (intro lock_invI[OF assms(2), of sid]) (simp_all add: lock_ok_def)
  next
    case Gone then show ?thesis using same by (simp add: pump_unregister_def)
  next
    case Shelved then show ?thesis using same by (simp add: steady_def)
  qed
qed

section \<open>The rows\<close>

definition row_ok :: "str option \<Rightarrow> Runtime option \<Rightarrow> bool" where
  "row_ok row orr \<longleftrightarrow> (case orr of None \<Rightarrow> True | Some rt \<Rightarrow> row = Some (state_str (rt_state rt)))"

definition row_inv :: "'w Manager \<Rightarrow> bool" where
  "row_inv m \<longleftrightarrow> calm m \<and> (\<forall>sid\<in>set (mg_registry m). row_ok (row_state sid m) (map_of (mg_runtimes m) sid))"

lemma row_invI:
  assumes "row_inv m" "calm m'" "\<And>x. x \<noteq> sid \<Longrightarrow> map_of (mg_runtimes m') x = map_of (mg_runtimes m) x
      \<and> row_state x m' = row_state x m \<and> (x \<in> set (mg_registry m') \<longrightarrow> x \<in> set (mg_registry m))"
    "sid \<in> set (mg_registry m') \<Longrightarrow> row_ok (row_state sid m') (map_of (mg_runtimes m') sid)"
  shows "row_inv m'"
  unfolding row_inv_def
proof (intro conjI ballI)
  fix x assume "x \<in> set (mg_registry m')"
  then show "row_ok (row_state x m') (map_of (mg_runtimes m') x)"
    using assms(1) assms(3)[of x] assms(4) by (cases "x = sid") (simp_all add: row_inv_def)
qed (rule assms(2))

lemma row_step:
  assumes "kind_of_step m evs m'" "row_inv m"
  shows "row_inv m'"
proof -
  have c: "calm m" using assms(2) by (simp add: row_inv_def)
  have r: "row_ok (row_state sid m) (map_of (mg_runtimes m) sid)" if "sid \<in> set (mg_registry m)" for sid
    using assms(2) that by (simp add: row_inv_def)
  show ?thesis using assms(1)
  proof (cases rule: kind_of_step.cases)
    case Still then show ?thesis using assms(2) by (simp add: row_inv_def steady_def)
  next
    case (Quiet sid rt rt')
    have st: "rt_state rt' = rt_state rt" using Quiet(3) by (simp add: same_life_def)
    show ?thesis using Quiet(2) c r[of sid] Quiet(1) st
      by (intro row_invI[OF assms(2), of _ sid]) (auto simp: moved_def row_ok_def)
  next
    case (Moved sid rt rt' st)
    show ?thesis using Moved(4) c r[of sid] Moved(2,7)
      by (intro row_invI[OF assms(2), of _ sid]) (auto simp: moved_def row_ok_def)
  next
    case (Started sid rt)
    then show ?thesis using c by (intro row_invI[OF assms(2), of _ sid]) (auto simp: row_ok_def)
  next
    case (Gone sid rt)
    then show ?thesis using c
      by (intro row_invI[OF assms(2), of _ sid]) (auto simp: pump_unregister_def calm_def row_state_def)
  next
    case (Shelved sid m1)
    then show ?thesis using assms(2) by (simp add: row_inv_def steady_def)
  qed
qed

lemma run_lock_rows:
  assumes "mgr_run enc cfg (new_manager s sh cfg) tr m"
  shows "lock_inv tr m \<and> (db_io (st_db s) = [] \<longrightarrow> row_inv m)"
  using assms
proof induction
  case start
  show ?case by (simp add: lock_inv_def lock_ok_def row_inv_def new_manager_def calm_def)
next
  case (step tr m evs m')
  then have "kind_of_step m evs m'" using run_invariants step_kind life_pump by blast
  then show ?case using step.IH lock_step row_step by blast
qed

section \<open>The life cycle\<close>



text \<open>C24. The right to type into a session is a lock: in every history the grants, refusals
  and releases that clients of a session see, and the inputs that are accepted, are a run of
  the lock machine, which grants only when nobody holds the lock and lets only the holder
  type; and the terminal got exactly those inputs, in that order.\<close>

theorem input_is_locked:
  assumes "mgr_run enc cfg (new_manager s sh cfg) tr m" "map_of (mg_runtimes m) sid = Some rt"
  shows "lock_run None (events sid tr) = Some (rt_writer_holder rt) \<and> rt_input rt = typed (events sid tr)"
  using run_lock_rows[OF assms(1)] assms(2) by (auto simp: lock_inv_def lock_ok_def dest!: spec[of _ sid])



section \<open>A session archived while it starts\<close>

lemma session_update_row:
  assumes "session_update k f s = (Inr b, s')"
  shows "b \<longleftrightarrow> map_of (st_sessions s) k \<noteq> None"
    "map_of (st_sessions s') k = map_option (\<lambda>r. (f (adv_store s) r)\<lparr> se_updated_at := store_now (adv_store s) \<rparr>)
       (map_of (st_sessions s) k)"
proof -
  have n: "fst (update_sessions k g t) > 0 \<longleftrightarrow> map_of (st_sessions t) k \<noteq> None" for g t
    by (auto simp: update_sessions_def sql_update_def Let_def filter_empty_conv map_of_eq_None_iff image_iff)
      (metis fst_conv)+
  have rows: "st_sessions (adv_store s) = st_sessions s" by (simp add: adv_store_def)
  from assms[unfolded session_update_def] show "b \<longleftrightarrow> map_of (st_sessions s) k \<noteq> None"
    by (cases rule: sqlE) (use n[of _ "adv_store s"] rows in \<open>auto simp: Let_def split_beta\<close>)
  from assms[unfolded session_update_def] show
    "map_of (st_sessions s') k = map_option (\<lambda>r. (f (adv_store s) r)\<lparr> se_updated_at := store_now (adv_store s) \<rparr>)
       (map_of (st_sessions s) k)"
    by (cases rule: sqlE) (auto simp: Let_def split_beta rows)
qed

lemma archive_outcome:
  assumes "archive M cfg sid m = (Inr (), m')"
  shows "row_state sid m' = Some (lit ''archived'') \<and> (\<forall>x. states x m' = states x m @ (if x = sid then [Archived] else []))"
proof -
  from assms have "sid \<notin> set (mg_registry m)" by (auto simp: archive_def)
  with assms have "and_then (on_store (session_get sid) m) (\<lambda>row m.
        and_then (on_store (session_archive sid) m) (\<lambda>archived m.
          if \<not> archived then (Inl (SessionNotFound sid), m)
          else (Inr (), publish_state sid Archived None None (archive_worktree M cfg row m)))) = (Inr (), m')"
    by (simp add: archive_def)
  then obtain row m1 where g: "on_store (session_get sid) m = (Inr row, m1)"
    and c: "and_then (on_store (session_archive sid) m1) (\<lambda>archived m.
          if \<not> archived then (Inl (SessionNotFound sid), m)
          else (Inr (), publish_state sid Archived None None (archive_worktree M cfg row m))) = (Inr (), m')"
    by (cases rule: and_thenE) auto
  from c obtain m2 where a: "on_store (session_archive sid) m1 = (Inr True, m2)"
    and m': "m' = publish_state sid Archived None None (archive_worktree M cfg row m2)"
    by (cases rule: and_thenE) (auto split: if_splits)
  obtain s2 where s2: "session_archive sid (mg_store m1) = (Inr True, s2)" "m2 = m1\<lparr> mg_store := s2 \<rparr>"
    using a by (auto simp: on_store_def split: prod.splits sum.splits)
  have "map_option se_state (map_of (st_sessions s2) sid) = Some (lit ''archived'')"
    using session_update_row[OF s2(1)[unfolded session_archive_def]] by auto
  then have r: "row_state sid m2 = Some (lit ''archived'')" by (simp add: row_state_def s2(2))
  have "states x m2 = states x m" for x
    using steady_states[OF steady_get(1)[OF g]] by (simp add: s2(2))
  moreover note steady_archive_worktree[of m2 M cfg row] steady_states[OF steady_archive_worktree[of m2 M cfg row]]
  ultimately show ?thesis using r by (simp add: m' steady_def)
qed

text \<open>C26. Between the insertion of a session's row and its registration nothing tells archiving
  that the session is being started: it succeeds, and the session that starts afterwards can
  be reached and is starting, while its row says archived, and whoever follows its states
  reads archived before starting.\<close>

theorem archived_while_starting:
  assumes "archive M cfg (ma_new_id M) m = (Inr (), m1)"
    "spawn_start M cfg agent p spec plan m1 = (Inr out, m2)"
  shows "(\<exists>rt. runtime (ma_new_id M) m2 = Inr rt \<and> rt_state rt = Starting)
    \<and> row_state (ma_new_id M) m2 = Some (lit ''archived'')
    \<and> states (ma_new_id M) m2 = states (ma_new_id M) m @ [Archived, Starting]
    \<and> fst (archive M cfg (ma_new_id M) m2) = Inl SessionBusy"
  using archive_outcome[OF assms(1)] start_effect[OF assms(2)] by (auto simp: runtime_def archive_def)


section \<open>Orphans\<close>

text \<open>A row whose process is gone, or was never known.\<close>

definition dead :: "(nat \<Rightarrow> bool) \<Rightarrow> Session \<Rightarrow> bool" where
  "dead alive row \<longleftrightarrow> (case se_pid row of None \<Rightarrow> True | Some pid \<Rightarrow> \<not> alive (nat (pid mod 2 ^ 32)))"

definition row_view :: "'w Manager \<Rightarrow> str \<Rightarrow> (str \<times> int option) option" where
  "row_view m k = map_option (\<lambda>r. (se_state r, se_pid r)) (map_of (st_sessions (mg_store m)) k)"

lemma row_view_simps [simp]: "row_view (publish_state sid st c r m) = row_view m"
  by (simp add: row_view_def fun_eq_iff)

lemma update_state_view:
  assumes "on_store (session_update_state k st c) m = (Inr b, m1)"
  shows "b \<longleftrightarrow> row_view m k \<noteq> None" "row_view m1 k = map_option (\<lambda>(_, p). (st, p)) (row_view m k)"
    "x \<noteq> k \<Longrightarrow> row_view m1 x = row_view m x" "states x m1 = states x m"
proof -
  obtain s1 where s: "session_update_state k st c (mg_store m) = (Inr b, s1)" and m1: "m1 = m\<lparr> mg_store := s1 \<rparr>"
    using assms by (auto simp: on_store_def split: prod.splits sum.splits)
  note u = session_update_row[OF s[unfolded session_update_state_def]]
  show "b \<longleftrightarrow> row_view m k \<noteq> None" "row_view m1 k = map_option (\<lambda>(_, p). (st, p)) (row_view m k)"
    using u by (simp_all add: row_view_def m1 option.map_comp comp_def)
  show "states x m1 = states x m" by (simp add: m1)
  assume "x \<noteq> k"
  with s[unfolded session_update_state_def session_update_def] show "row_view m1 x = row_view m x"
    by (cases rule: sqlE) (auto simp: row_view_def m1 Let_def split_beta adv_store_def)
qed

lemma reap_rows_Cons: "reap_rows alive (row # rows) n m =
  (if \<not> dead alive row then reap_rows alive rows n m
   else and_then (on_store (session_update_state (se_id row) (state_str Exited) None) m) (\<lambda>updated m.
        if updated
        then reap_rows alive rows (n + 1)
               (publish_state (se_id row) Exited None (Some (lit ''orphan-reap'')) m)
        else reap_rows alive rows n m))"
  by (simp add: dead_def split: option.split)

lemma reap_rows_effect:
  assumes "reap_rows alive rows n m = (Inr n', m')" "\<forall>row\<in>set rows. row_view m (se_id row) \<noteq> None"
    "distinct (map se_id rows)"
  shows "n' = n + length (filter (dead alive) rows)
    \<and> (\<forall>k. row_view m' k = map_option (\<lambda>(st, p).
         (if k \<in> se_id ` set (filter (dead alive) rows) then lit ''exited'' else st, p)) (row_view m k))
    \<and> (\<forall>k. states k m' = states k m @ (if k \<in> se_id ` set (filter (dead alive) rows) then [Exited] else []))"
  using assms
proof (induction rows arbitrary: n m)
  case Nil
  then show ?case by (auto simp: option.map_id0[unfolded id_def] split_beta)
next
  case (Cons row rows)
  show ?case
  proof (cases "dead alive row")
    case False
    then show ?thesis using Cons.prems Cons.IH[of n m] by (simp add: reap_rows_Cons del: reap_rows.simps)
  next
    case True
    from Cons.prems(1) True have "and_then (on_store (session_update_state (se_id row) (state_str Exited) None) m)
        (\<lambda>updated m. if updated then reap_rows alive rows (n + 1)
               (publish_state (se_id row) Exited None (Some (lit ''orphan-reap'')) m)
          else reap_rows alive rows n m) = (Inr n', m')"
      by (simp add: reap_rows_Cons del: reap_rows.simps)
    then show ?thesis
    proof (cases rule: and_thenE)
      case (ok b m1)
      note v = update_state_view[OF ok(1)]
      let ?m = "publish_state (se_id row) Exited None (Some (lit ''orphan-reap'')) m1"
      have b: b using v(1) Cons.prems(2) by simp
      have "\<forall>r\<in>set rows. row_view ?m (se_id r) \<noteq> None"
        using Cons.prems(2,3) v(3) by (auto simp: image_iff)
      then have "n' = n + 1 + length (filter (dead alive) rows)
        \<and> (\<forall>k. row_view m' k = map_option (\<lambda>(st, p).
           (if k \<in> se_id ` set (filter (dead alive) rows) then lit ''exited'' else st, p)) (row_view ?m k))
        \<and> (\<forall>k. states k m' = states k ?m @ (if k \<in> se_id ` set (filter (dead alive) rows) then [Exited] else []))"
        using ok(2) b Cons.prems(3) by (intro Cons.IH) simp_all
      moreover have "se_id row \<notin> se_id ` set (filter (dead alive) rows)" using Cons.prems(3) by auto
      moreover have "state_str Exited = lit ''exited''" by (simp add: state_str_def session_states_def enum_name_def)
      moreover have "row_view m1 = (row_view m)(se_id row := map_option (\<lambda>(_, p). (state_str Exited, p)) (row_view m (se_id row)))"
        using v(2,3) by (simp add: fun_eq_iff)
      ultimately show ?thesis using True v(4)
        by (simp add: option.map_comp comp_def split_beta) (auto intro!: option.map_cong)
    qed simp
  qed
qed

text \<open>The rows of a well-formed store, by the ids they hold.\<close>

lemma store_rows:
  assumes "store_ok s"
  shows "distinct (map se_id (filter P (map snd (st_sessions s))))"
    "\<forall>r\<in>set (map snd (st_sessions s)). map_of (st_sessions s) (se_id r) = Some r"
    "map_of (st_sessions s) k = Some row \<Longrightarrow>
       k \<in> se_id ` set (filter P (map snd (st_sessions s))) \<longleftrightarrow> P row"
proof -
  have d: "distinct (map fst (st_sessions s))" and i: "\<And>k r. (k, r) \<in> set (st_sessions s) \<Longrightarrow> se_id r = k"
    using assms by (auto simp: store_ok_def sessions_ok_def keyed_def)
  have "map se_id (map snd (st_sessions s)) = map fst (st_sessions s)" using i by auto
  then show "distinct (map se_id (filter P (map snd (st_sessions s))))" using d by (metis distinct_map_filter)
  show rows: "\<forall>r\<in>set (map snd (st_sessions s)). map_of (st_sessions s) (se_id r) = Some r"
    using i d by (auto simp: map_of_is_SomeI)
  assume k: "map_of (st_sessions s) k = Some row"
  note kr = map_of_SomeD[OF k]
  show "k \<in> se_id ` set (filter P (map snd (st_sessions s))) \<longleftrightarrow> P row"
  proof
    assume "k \<in> se_id ` set (filter P (map snd (st_sessions s)))"
    then obtain r where r: "r \<in> set (map snd (st_sessions s))" "P r" "k = se_id r" by auto
    then have "r = row" using rows k by force
    then show "P row" using r(2) by simp
  next
    assume "P row"
    moreover have "row \<in> set (map snd (st_sessions s))" using kr by force
    ultimately have "se_id row \<in> se_id ` set (filter P (map snd (st_sessions s)))" by (intro imageI) simp
    then show "k \<in> se_id ` set (filter P (map snd (st_sessions s)))" using i[OF kr] by simp
  qed
qed

lemma reap_orphans_rows:
  assumes "reap_orphans M m = (Inr n, m')"
  obtains m1 where "st_sessions (mg_store m1) = st_sessions (mg_store m)" "mg_bus m1 = mg_bus m"
    "reap_rows (ma_pid_alive M) (filter (\<lambda>r. se_state r \<in> set active_states) (map snd (st_sessions (mg_store m)))) 0 m1
       = (Inr n, m')"
proof -
  from assms obtain q m1 where l: "on_store session_list_active m = (Inr q, m1)"
    and r: "reap_rows (ma_pid_alive M) q 0 m1 = (Inr n, m')"
    unfolding reap_orphans_def by (cases rule: and_thenE) auto
  from l have "q = filter (\<lambda>r. se_state r \<in> set active_states) (map snd (st_sessions (mg_store m)))"
    "st_sessions (mg_store m1) = st_sessions (mg_store m)" "mg_bus m1 = mg_bus m"
    by (auto simp: on_store_def session_list_active_def adv_store_def split: prod.splits sum.splits elim!: sqlE)
  then show ?thesis using r that by blast
qed

text \<open>C27. At start every session row in an active state whose process does not live is marked
  exited and announced, and no other: after the pass the rows in an active state are those of
  living processes.\<close>

theorem orphans_are_reaped:
  assumes "reap_orphans M m = (Inr n, m')" "store_ok (mg_store m)"
  shows "n = length (filter (\<lambda>r. se_state r \<in> set active_states \<and> dead (ma_pid_alive M) r) (map snd (st_sessions (mg_store m))))
    \<and> (\<forall>k row. map_of (st_sessions (mg_store m)) k = Some row \<longrightarrow>
         (if se_state row \<in> set active_states \<and> dead (ma_pid_alive M) row
          then row_view m' k = Some (lit ''exited'', se_pid row) \<and> states k m' = states k m @ [Exited]
          else row_view m' k = Some (se_state row, se_pid row) \<and> states k m' = states k m))"
proof -
  let ?all = "map snd (st_sessions (mg_store m))" and ?dead = "dead (ma_pid_alive M)"
  let ?rows = "filter (\<lambda>r. se_state r \<in> set active_states) ?all"
  obtain m1 where same: "st_sessions (mg_store m1) = st_sessions (mg_store m)" "mg_bus m1 = mg_bus m"
    and r: "reap_rows (ma_pid_alive M) ?rows 0 m1 = (Inr n, m')"
    using assms(1) by (rule reap_orphans_rows)
  have f: "filter ?dead ?rows = filter (\<lambda>r. se_state r \<in> set active_states \<and> ?dead r) ?all" (is "_ = ?D")
    by (simp add: conj_commute)
  have "\<forall>row\<in>set ?rows. row_view m1 (se_id row) \<noteq> None"
    using store_rows(2)[OF assms(2)] by (auto simp: row_view_def same)
  from reap_rows_effect[OF r this store_rows(1)[OF assms(2)], unfolded f]
  have e: "n = length ?D" "row_view m' k = map_option (\<lambda>(st, p).
         (if k \<in> se_id ` set ?D then lit ''exited'' else st, p)) (row_view m1 k)"
    "states k m' = states k m1 @ (if k \<in> se_id ` set ?D then [Exited] else [])" for k
    by simp_all
  have "states k m1 = states k m" "row_view m1 k = row_view m k" for k by (simp_all add: states_def row_view_def same)
  then show ?thesis using e store_rows(3)[OF assms(2)] by (simp add: row_view_def)
qed

section \<open>Worked examples\<close>

text \<open>A machine without worktrees, whose processes start, and a manager on which a session is
  started.\<close>

definition demo_machine :: "unit Machine" where
  "demo_machine = \<lparr> ma_host = demo_host (\<lambda>_. GitMissing), ma_sha256 = (\<lambda>x. x), ma_json = (\<lambda>_. []),
     ma_pty = (\<lambda>_ _. Inr (Some 7)), ma_pid_alive = (\<lambda>p. p = 7), ma_new_id = lit ''n1'' \<rparr>"

definition demo_agent :: Agent where
  "demo_agent = \<lparr> ag_id = lit ''claude'', ag_spawn_spec = (\<lambda>rq. Inr (spec_of (lit ''claude'') [] rq)) \<rparr>"

definition idle_manager :: "unit Manager" where
  "idle_manager = new_manager demo_store demo_shell default_manager_config"

definition prepared :: "(CoreError + SpawnSpec \<times> (str \<times> WorktreePlan) option) \<times> unit Manager" where
  "prepared = spawn_prepare demo_machine default_manager_config demo_agent (lit ''p'') (new_request []) None idle_manager"

definition demo_spec :: SpawnSpec where "demo_spec = spec_of (lit ''claude'') [] (new_request [])"

lemma demo_prepare: "\<exists>m. prepared = (Inr (demo_spec, None), m) \<and> calm m \<and> mg_runtimes m = [] \<and> mg_registry m = []
    \<and> bu_sent (mg_bus m) = [] \<and> row_state (lit ''n1'') m = Some (lit ''starting'')"
  by (simp add: prepared_def idle_manager_def new_manager_def spawn_prepare_def provision_def on_shell_def
      demo_machine_def demo_agent_def demo_spec_def on_store_def session_create_def session_get_def new_session_row_def
      demo_store_def sync_def empty_db_def session_row_def session_refs_def Let_def same_external_def demo_session_def
      with_capacity_def calm_def row_state_def state_str_def session_states_def enum_name_def)


lemma demo_session_start: "\<exists>out m'. spawn_start demo_machine cfg demo_agent p demo_spec None m = (Inr out, m')"
  by (simp add: spawn_start_def Let_def pty_spawn_def demo_spec_def spec_of_def new_request_def takes_command_string_def
      demo_machine_def run_hook_of_def)

text \<open>The session starts, is taken to run, gets a client, who types a letter.\<close>

lemma demo_run:
  "\<exists>m rt sub. mgr_run (map unat) default_manager_config idle_manager
       [(lit ''n1'', Grant sub), (lit ''n1'', Typed sub [104])] m
     \<and> runtime (lit ''n1'') m = Inr rt \<and> rt_state rt = Running \<and> rt_writer_holder rt = Some sub"
proof -
  let ?c = "default_manager_config" and ?n = "lit ''n1''"
  have n: "ma_new_id demo_machine = ?n" by (simp add: demo_machine_def)
  obtain m where m: "prepared = (Inr (demo_spec, None), m)" using demo_prepare by blast
  obtain out m1 where m1: "spawn_start demo_machine ?c demo_agent (lit ''p'') demo_spec None m = (Inr out, m1)"
    using demo_session_start by blast
  have "spawn_with_options demo_machine ?c demo_agent (lit ''p'') (new_request []) None idle_manager = (Inr out, m1)"
    using m m1 by (simp add: spawn_with_options_def prepared_def)
  moreover have "unused ?n idle_manager"
    by (simp add: unused_def idle_manager_def new_manager_def states_def with_capacity_def List.map_filter_def)
  ultimately have s1: "mgr_step (map unat) ?c idle_manager [] m1" using mgr_step.Spawn[of demo_machine] n by simp
  obtain rt where rt: "runtime ?n m1 = Inr rt" "rt_state rt = Starting" "rt_pumping rt" "rt_writer_holder rt = None"
    using start_effect[OF m1] n by (auto simp: runtime_def)
  define rt2 where "rt2 = rt\<lparr> rt_state := Running \<rparr>"
  define m2 where "m2 = pump_promote ?n m1"
  have "pumping ?n m1 = Some rt" using runtimeD[OF rt(1)] rt(3) by (simp add: pumping_def)
  then have "moved ?n rt2 [Running] m1 m2" using rt(2) moved_transition by (simp add: m2_def rt2_def pump_promote_def)
  then have r2: "runtime ?n m2 = Inr rt2" using runtimeD[OF rt(1)] by (simp add: moved_def runtime_def)
  obtain sub h where h: "subscribe (mc_hub ?c) None (rt_hub rt2) = (sub, h)" by fastforce
  define rt3 where "rt3 = rt2\<lparr> rt_hub := h, rt_writer_holder := Some sub \<rparr>"
  define m3 where "m3 = put_runtime ?n rt3 m2"
  have a: "attach ?c ?n None True m2 = (Inr \<lparr> ao_subscription = sub, ao_snapshot_seq = next_seq h - 1, ao_input_acquired = True \<rparr>, m3)"
    using r2 h rt(4) by (simp add: attach_def attach_runtime_def m3_def rt3_def rt2_def)
  have r3: "runtime ?n m3 = Inr rt3" using runtimeD[OF r2] by (simp add: runtime_def m3_def)
  obtain m4 where w: "write_input ?c ?n sub [104] None m3 = (Inr (), m4)"
    using r3 by (simp add: write_input_def rt3_def Let_def)
  have "moved ?n (rt3\<lparr> rt_input := rt_input rt3 @ [[104]] \<rparr>) [] m3 m4"
    using w r3 moved_steady[OF moved_put steady_append] by (auto simp: write_input_def rt3_def Let_def moved_put split: if_splits)
  then have r4: "runtime ?n m4 = Inr (rt3\<lparr> rt_input := rt_input rt3 @ [[104]] \<rparr>)"
    using runtimeD[OF r3] by (simp add: moved_def runtime_def)
  have "mgr_run (map unat) ?c idle_manager ([] @ []) m1" by (rule mgr_run.step[OF mgr_run.start s1])
  then have "mgr_run (map unat) ?c idle_manager (([] @ []) @ []) m2"
    unfolding m2_def by (rule mgr_run.step) (rule mgr_step.Promote)
  then have "mgr_run (map unat) ?c idle_manager ((([] @ []) @ []) @ [(?n, Grant sub)]) m3"
    by (rule mgr_run.step) (rule mgr_step.Attach[OF a], simp)
  then have "mgr_run (map unat) ?c idle_manager (((([] @ []) @ []) @ [(?n, Grant sub)]) @ [(?n, Typed sub [104])]) m4"
    by (rule mgr_run.step) (rule mgr_step.Write[OF w])
  then show ?thesis using r4 by (fastforce simp: rt3_def rt2_def)
qed


lemma input_is_locked_witness:
  "\<exists>tr m rt. mgr_run (map unat) default_manager_config idle_manager tr m
     \<and> map_of (mg_runtimes m) (lit ''n1'') = Some rt \<and> rt_input rt = [[104]]"
proof -
  obtain m rt sub where r: "mgr_run (map unat) default_manager_config idle_manager
       [(lit ''n1'', Grant sub), (lit ''n1'', Typed sub [104])] m"
    and rt: "runtime (lit ''n1'') m = Inr rt" using demo_run by blast
  have "rt_input rt = typed (events (lit ''n1'') [(lit ''n1'', Grant sub), (lit ''n1'', Typed sub [104])])"
    using input_is_locked[OF r[unfolded idle_manager_def] conjunct1[OF runtimeD[OF rt]]] by blast
  then have "rt_input rt = [[104]]" by (simp add: events_def)
  then show ?thesis using r runtimeD[OF rt] by blast
qed


lemma archived_while_starting_witness:
  "\<exists>m1 m2 out. archive demo_machine default_manager_config (lit ''n1'') (snd prepared) = (Inr (), m1)
     \<and> spawn_start demo_machine default_manager_config demo_agent (lit ''p'') demo_spec None m1 = (Inr out, m2)
     \<and> row_state (lit ''n1'') m2 = Some (lit ''archived'')"
proof -
  have n: "ma_new_id demo_machine = lit ''n1''" by (simp add: demo_machine_def)
  obtain m where m: "prepared = (Inr (demo_spec, None), m)" "calm m" "mg_registry m = []"
    "row_state (lit ''n1'') m = Some (lit ''starting'')" using demo_prepare by blast
  have "map_of (st_sessions (mg_store m)) (lit ''n1'') \<noteq> None" using m(4) by (auto simp: row_state_def)
  then have "\<exists>m1. archive demo_machine default_manager_config (lit ''n1'') m = (Inr (), m1)"
    using m(2,3) session_update_row(1)[of "lit ''n1''" _ "mg_store m"]
    by (simp add: archive_def on_store_def session_get_def session_archive_def session_update_def calm_def split_beta Let_def)
  then obtain m1 where a: "archive demo_machine default_manager_config (lit ''n1'') m = (Inr (), m1)" by blast
  obtain out m2 where s: "spawn_start demo_machine default_manager_config demo_agent (lit ''p'') demo_spec None m1 = (Inr out, m2)"
    using demo_session_start by blast
  have p: "snd prepared = m" unfolding m(1) by (rule snd_conv)
  have "row_state (lit ''n1'') m2 = Some (lit ''archived'')"
    using archived_while_starting[of demo_machine, OF _ s, of m] a n by simp
  then show ?thesis unfolding p using a s by blast
qed

lemma orphans_are_reaped_witness:
  "\<exists>m'. reap_orphans demo_machine idle_manager = (Inr 1, m') \<and> row_view m' (lit ''s1'') = Some (lit ''exited'', None)"
proof -
  have s: "mg_store idle_manager = demo_store" by (simp add: idle_manager_def new_manager_def)
  have ok: "store_ok (mg_store idle_manager)"
    unfolding s by (simp add: store_ok_def demo_store_def keyed_def sessions_ok_def sync_iff db_ok_def db_core_def
      crons_wf_def runs_wf_def finished_count_def sync_def empty_db_def session_refs_def demo_session_def session_row_def)
  have rows: "map snd (st_sessions demo_store) = [demo_session (lit ''s1'')]"
    "map_of (st_sessions demo_store) (lit ''s1'') = Some (demo_session (lit ''s1''))"
    "db_io (st_db demo_store) = []"
    by (simp_all add: demo_store_def sync_def empty_db_def)
  have d: "se_state (demo_session x) = lit ''running''" "se_pid (demo_session x) = None" "se_id (demo_session x) = x" for x
    by (simp_all add: demo_session_def session_row_def)
  have "\<exists>m' n. reap_orphans demo_machine idle_manager = (Inr n, m')"
    by (simp add: reap_orphans_def on_store_def s session_list_active_def rows d active_states_def dead_def
        session_update_state_def session_update_def Let_def split_beta)
  then obtain m' n where r: "reap_orphans demo_machine idle_manager = (Inr n, m')" by blast
  have "lit ''running'' \<in> set active_states" "dead (ma_pid_alive demo_machine) (demo_session (lit ''s1''))"
    by (simp_all add: active_states_def dead_def d)
  then show ?thesis using orphans_are_reaped[OF r ok] r rows d by (auto simp: s)
qed

end
