(* ===== verification/Client_History.thy ===== *)
theory Client_History
  imports Client_Sessions Session_Properties
begin

text \<open>
  The steps of a connection with everything around it, and what they do to the output a
  client gets, to the events of the bus and to the right to type.
\<close>

section \<open>Steps\<close>

text \<open>\<open>Others\<close> is what the rest of the daemon does, and the requests that leave the state of the
  connection alone.  The label tells for which subscription an event was sent.\<close>

inductive conn_step :: "ManagerConfig \<Rightarrow> 'w Manager \<times> ConnState \<Rightarrow> (str \<times> SubId) list \<Rightarrow> 'w Manager \<times> ConnState \<Rightarrow> bool"
  for cfg where
  Attach: "co_reader c = Serving \<Longrightarrow> handle_sessions_attach cfg now params (m, c) = (r, s) \<Longrightarrow> conn_step cfg (m, c) [] s"
| Detach: "co_reader c = Serving \<Longrightarrow> handle_sessions_detach cfg now sid (m, c) = (r, s) \<Longrightarrow> conn_step cfg (m, c) [] s"
| Write: "co_reader c = Serving \<Longrightarrow> handle_sessions_write cfg io sid data (m, c) = (r, s) \<Longrightarrow> conn_step cfg (m, c) [] s"
| Subscribe: "co_reader c = Serving \<Longrightarrow> handle_events_subscribe bs by sent topics (m, c) = (r, s) \<Longrightarrow> conn_step cfg (m, c) [] s"
| Others: "conn_step cfg (m, c) [] (m', c)"
| Collect: "co_writer c = WWaiting \<Longrightarrow> co_changed c \<Longrightarrow> conn_step cfg (m, c) [] (m, collect_new_subs c)"
| Drain: "(sid, sub) \<in> set (co_drains c) \<Longrightarrow> drain_subscription cfg now sent sid sub (m, c) = (ev, s)
    \<Longrightarrow> conn_step cfg (m, c) (if ev = None then [] else [(sid, sub)]) s"
| Take: "co_writer c = WWaiting \<Longrightarrow> conn_step cfg (m, c) [] (writer_take (m, c))"
| Deliver: "conn_step cfg (m, c) [] (m, writer_deliver sent c)"
| Close: "co_reader c = Serving \<Longrightarrow> conn_step cfg (m, c) [] (close_reader cfg now (m, c))"
| Release: "co_reader c = Closing \<Longrightarrow> co_writer c = WStopped \<Longrightarrow> conn_step cfg (m, c) [] (release_all cfg now (m, c))"

inductive conn_run :: "ManagerConfig \<Rightarrow> 'w Manager \<times> ConnState \<Rightarrow> (str \<times> SubId) list \<Rightarrow> 'w Manager \<times> ConnState \<Rightarrow> bool"
  for cfg s0 where
  start: "conn_run cfg s0 [] s0"
| step: "conn_run cfg s0 tr s \<Longrightarrow> conn_step cfg s evs s' \<Longrightarrow> conn_run cfg s0 (tr @ evs) s'"

section \<open>What a step leaves of the connection\<close>

lemma writer_fields [simp]:
  "co_active (push_out sent msg c) = co_active c" "co_drains (push_out sent msg c) = co_drains c"
  "co_attachments (push_out sent msg c) = co_attachments c" "co_reader (push_out sent msg c) = co_reader c"
  "co_writer (push_out sent msg c) = co_writer c" "co_topics (push_out sent msg c) = co_topics c"
  "co_bus (push_out sent msg c) = co_bus c"
  by (simp_all add: push_out_def)

lemma deliver_fields [simp]:
  "co_active (deliver_bus_event sent e c) = co_active c" "co_drains (deliver_bus_event sent e c) = co_drains c"
  "co_attachments (deliver_bus_event sent e c) = co_attachments c" "co_reader (deliver_bus_event sent e c) = co_reader c"
  "co_topics (deliver_bus_event sent e c) = co_topics c" "co_bus (deliver_bus_event sent e c) = co_bus c"
  by (simp_all add: deliver_bus_event_def split: option.split)

lemma collect_slots_effect:
  "collect_slots slots active = (new, rest, active') \<Longrightarrow>
    set active \<subseteq> set active' \<and> (\<forall>(sid, sub)\<in>set new. sid \<notin> set active)
    \<and> map (\<lambda>(sid, s). (sid, sl_sub_id s)) rest = map (\<lambda>(sid, s). (sid, sl_sub_id s)) slots"
  by (induction slots active arbitrary: new rest active' rule: collect_slots.induct)
    (fastforce split: if_splits option.splits prod.splits)+

definition held :: "ConnState \<Rightarrow> (str \<times> SubId) list" where
  "held c = map (\<lambda>(sid, s). (sid, sl_sub_id s)) (co_attachments c)"

lemma collect_effect:
  "set (co_active c) \<subseteq> set (co_active (collect_new_subs c))"
  "held (collect_new_subs c) = held c" "co_reader (collect_new_subs c) = co_reader c"
  "co_writer (collect_new_subs c) = co_writer c"
  "(sid, sub) \<in> set (co_drains (collect_new_subs c)) \<Longrightarrow> sid \<in> set (co_active c) \<Longrightarrow> (sid, sub) \<in> set (co_drains c)"
  by (cases "collect_slots (co_attachments c) (co_active c)", force simp: collect_new_subs_def held_def
      dest: collect_slots_effect)+

lemma drain_effect:
  assumes "drain_subscription cfg now sent sid sub (m, c) = (ev, m', c')"
  shows "co_active c' = co_active c" "set (co_drains c') \<subseteq> set (co_drains c)" "co_attachments c' = co_attachments c"
    "co_reader c' = co_reader c" "co_writer c' = co_writer c"
  using assms
  by (auto simp: drain_subscription_def end_drain_def Let_def split: option.splits prod.splits if_splits)

text \<open>The writer never forgets a session.\<close>

lemma conn_step_active:
  assumes "conn_step cfg s evs s'" "sid \<in> set (co_active (snd s))"
  shows "sid \<in> set (co_active (snd s')) \<and>
    (\<forall>sub. (sid, sub) \<in> set (co_drains (snd s')) \<union> set evs \<longrightarrow> (sid, sub) \<in> set (co_drains (snd s)))"
  using assms(1)
proof (cases rule: conn_step.cases)
  case (Collect c m)
  then show ?thesis using assms(2) collect_effect by auto
next
  case Drain
  then show ?thesis using assms(2) drain_effect by (cases s') (fastforce split: if_splits)
qed (use assms(2) in \<open>auto simp: handle_sessions_attach_def handle_sessions_detach_def handle_sessions_write_def
      handle_events_subscribe_def writer_take_def writer_deliver_def close_reader_def stop_writer_def release_all_def Let_def
      split: prod.splits sum.splits option.splits WriterPhase.splits BusRecv.splits if_splits\<close>)

lemma conn_run_active:
  assumes "conn_run cfg s tr s'" "sid \<in> set (co_active (snd s))"
  shows "sid \<in> set (co_active (snd s')) \<and>
    (\<forall>sub. (sid, sub) \<in> set (co_drains (snd s')) \<union> set tr \<longrightarrow> (sid, sub) \<in> set (co_drains (snd s)))"
  using assms
proof induction
  case start
  then show ?case by simp
next
  case (step tr s1 evs s2)
  then show ?case using conn_step_active[OF step(2)] by auto
qed


text \<open>A reader that closed while the writer was at work.\<close>

definition stuck :: "ConnState \<Rightarrow> bool" where
  "stuck c \<longleftrightarrow> co_reader c = Closing \<and> co_writer c \<noteq> WStopped"

lemma conn_step_stuck:
  assumes "conn_step cfg s evs s'" "stuck (snd s)"
  shows "stuck (snd s') \<and> held (snd s') = held (snd s)"
  using assms(1)
proof (cases rule: conn_step.cases)
  case Drain
  then show ?thesis using assms(2) drain_effect by (cases s') (fastforce simp: stuck_def held_def)
qed (use assms(2) in \<open>auto simp: stuck_def held_def writer_take_def writer_deliver_def collect_effect[unfolded held_def]
      split: prod.splits WriterPhase.splits BusRecv.splits\<close>)

lemma conn_run_stuck: "conn_run cfg s tr s' \<Longrightarrow> stuck (snd s) \<Longrightarrow> stuck (snd s') \<and> held (snd s') = held (snd s)"
  by (induction rule: conn_run.induct) (auto dest: conn_step_stuck)

section \<open>The lock over the end of a connection\<close>

definition holder :: "str \<Rightarrow> 'w Manager \<Rightarrow> SubId option" where
  "holder sid m = (case runtime sid m of Inr rt \<Rightarrow> rt_writer_holder rt | Inl _ \<Rightarrow> None)"

lemma holder_put: "holder x (put_runtime sid rt m) = (if x = sid \<and> sid \<in> set (mg_registry m) then rt_writer_holder rt else holder x m)"
  by (auto simp: holder_def runtime_def split: option.split)

lemma holder_drop [simp]: "holder x (drop_slot cfg now sid slot m) = holder x m"
  "mg_registry (drop_slot cfg now sid slot m) = mg_registry m"
  by (auto simp: drop_slot_def drop_subscription_def holder_put split: option.split)
    (auto simp: holder_def runtime_def)

lemma runtime_store [simp]: "runtime x (m\<lparr> mg_store := s \<rparr>) = runtime x m"
  by (simp add: runtime_def)

lemma holder_store [simp]: "holder x (m\<lparr> mg_store := s \<rparr>) = holder x m"
  by (simp add: holder_def)

lemma holder_detach:
  "holder x (snd (detach cfg now sid sub m)) = (if x = sid \<and> holder x m = Some sub then None else holder x m)"
  by (auto simp: detach_def holder_put runtime_def split: option.split if_splits)
    (auto simp: holder_def runtime_def split: option.splits)

lemma holder_release:
  "holder x (release_slots cfg now slots m) =
     (if \<exists>slot. (x, slot) \<in> set slots \<and> holder x m = Some (sl_sub_id slot) then None else holder x m)"
  by (induction slots arbitrary: m) (auto simp: holder_detach)

text \<open>Two runtimes of a session with the same lock and the same next subscription.\<close>

definition alike :: "Runtime \<Rightarrow> Runtime \<Rightarrow> bool" where
  "alike rt rt' \<longleftrightarrow> rt_writer_holder rt' = rt_writer_holder rt \<and> next_sub_id (rt_hub rt') = next_sub_id (rt_hub rt)"

lemma drop_runtime:
  "runtime x m = Inr rt \<Longrightarrow> \<exists>rt'. runtime x (drop_slot cfg now sid slot m) = Inr rt' \<and> alike rt rt'"
  by (auto simp: drop_slot_def drop_subscription_def runtime_def alike_def park_def Let_def
      split: option.splits if_splits)

lemma attach_outcome:
  assumes "attach cfg sid since acq m = (Inr out, m')"
  shows "\<exists>rt rt'. runtime sid m = Inr rt \<and> runtime sid m' = Inr rt' \<and> ao_subscription out = next_sub_id (rt_hub rt)
      \<and> next_sub_id (rt_hub rt') = ao_subscription out + 1
      \<and> (ao_input_acquired out \<longleftrightarrow> acq \<and> rt_writer_holder rt = None)
      \<and> rt_writer_holder rt' = (if ao_input_acquired out then Some (ao_subscription out) else rt_writer_holder rt)"
  using assms
  by (auto simp: attach_def attach_runtime_def subscribe_def Let_def runtime_def
      split: sum.splits prod.splits if_splits option.splits)

lemma handle_attach_outcome:
  assumes "handle_sessions_attach cfg now ps (m, c) = (Inr res, m', c')" "sid = ap_session_id ps"
  shows "\<exists>rt rt' slot. runtime sid m = Inr rt \<and> runtime sid m' = Inr rt' \<and> sl_sub_id slot = next_sub_id (rt_hub rt)
    \<and> next_sub_id (rt_hub rt') = sl_sub_id slot + 1
    \<and> (ar_input_acquired res \<longleftrightarrow> ap_acquire_input ps \<and> rt_writer_holder rt = None)
    \<and> rt_writer_holder rt' = (if ar_input_acquired res then Some (sl_sub_id slot) else rt_writer_holder rt)
    \<and> c' = c\<lparr> co_attachments := AList.update sid slot (co_attachments c), co_changed := True \<rparr>"
proof -
  obtain r1 m1 where a: "attach cfg sid (ap_resume_from_seq ps) (ap_acquire_input ps) m = (r1, m1)" by fastforce
  then obtain out where out: "r1 = Inr out" using assms by (cases r1) (auto simp: handle_sessions_attach_def)
  obtain row m2 where g: "on_store (session_get sid) m1 = (row, m2)" by fastforce
  define slot where "slot = \<lparr> sl_sub = Some (ao_subscription out), sl_sub_id = ao_subscription out,
      sl_backend = (case row of Inr (Some r) \<Rightarrow> se_backend_id r | _ \<Rightarrow> lit ''unknown'') \<rparr>"
  have r: "m' = drop_slot cfg now sid (map_of (co_attachments c) sid) m2" "ar_input_acquired res = ao_input_acquired out"
     "c' = c\<lparr> co_attachments := AList.update sid slot (co_attachments c), co_changed := True \<rparr>"
    using assms a out g by (auto simp: handle_sessions_attach_def Let_def slot_def)
  obtain rt rt1 where rt: "runtime sid m = Inr rt" "runtime sid m1 = Inr rt1" "ao_subscription out = next_sub_id (rt_hub rt)"
      "next_sub_id (rt_hub rt1) = ao_subscription out + 1"
      "ao_input_acquired out \<longleftrightarrow> ap_acquire_input ps \<and> rt_writer_holder rt = None"
      "rt_writer_holder rt1 = (if ao_input_acquired out then Some (ao_subscription out) else rt_writer_holder rt)"
    using attach_outcome[OF a[unfolded out]] by blast
  have "runtime sid m2 = Inr rt1" using g rt(2) by (auto simp: on_store_def split: prod.splits)
  from drop_runtime[OF this] obtain rt' where "runtime sid m' = Inr rt'" "alike rt1 rt'" unfolding r(1) by blast
  then show ?thesis using rt r(2,3)
    by (intro exI[of _ rt] exI[of _ rt'] exI[of _ slot]) (auto simp: alike_def slot_def)
qed

section \<open>Events of the bus\<close>

definition writer_round :: "'w Manager \<times> ConnState \<Rightarrow> 'w Manager \<times> ConnState" where
  "writer_round s = (case writer_take s of (m, c) \<Rightarrow> (m, writer_deliver True c))"

lemma writer_rounds:
  assumes "co_writer c = WWaiting" "map_of (bu_receivers (mg_bus m)) (co_bus c) = Some n"
    "n + k \<le> length (bu_sent (mg_bus m))" "length (bu_sent (mg_bus m)) \<le> n + bu_capacity (mg_bus m)"
  shows "co_sent (snd ((writer_round ^^ k) (m, c)))
    = co_sent c @ List.map_filter (bus_notification (co_topics c)) (take k (drop n (bu_sent (mg_bus m))))"
  using assms
proof (induction k arbitrary: m c n)
  case 0
  then show ?case by (simp add: List.map_filter_def)
next
  case (Suc k)
  let ?e = "bu_sent (mg_bus m) ! n"
  let ?m = "m\<lparr> mg_bus := (mg_bus m)\<lparr> bu_receivers := AList.update (co_bus c) (n + 1) (bu_receivers (mg_bus m)) \<rparr> \<rparr>"
  let ?c = "(deliver_bus_event True ?e (c\<lparr> co_writer := WBusy ?e \<rparr>))\<lparr> co_writer := WWaiting \<rparr>"
  have "writer_round (m, c) = (?m, ?c)"
    using Suc.prems by (auto simp: writer_round_def writer_take_def writer_deliver_def bus_recv_def Let_def)
  then have "(writer_round ^^ Suc k) (m, c) = (writer_round ^^ k) (?m, ?c)"
    by (simp add: funpow_swap1)
  moreover have "co_sent (snd ((writer_round ^^ k) (?m, ?c)))
      = co_sent ?c @ List.map_filter (bus_notification (co_topics ?c)) (take k (drop (n + 1) (bu_sent (mg_bus ?m))))"
    using Suc.prems by (intro Suc.IH) (simp_all add: update_conv')
  moreover have "drop n (bu_sent (mg_bus m)) = ?e # drop (n + 1) (bu_sent (mg_bus m))"
    using Suc.prems by (simp add: Cons_nth_drop_Suc)
  moreover have "co_sent ?c = co_sent c @ List.map_filter (bus_notification (co_topics c)) [?e]"
    by (simp add: deliver_bus_event_def push_out_def List.map_filter_def split: option.split)
  ultimately show ?case by (simp add: List.map_filter_def)
qed

lemma add_topic_wanted:
  "bus_notification ts e \<noteq> None \<Longrightarrow> bus_notification (add_topic t ts) e \<noteq> None"
  "topic e \<noteq> SessionGapTopic \<Longrightarrow> bus_notification (add_topic (as_proto (topic e)) ts) e \<noteq> None"
  by (cases e; cases t; auto)+

lemma topics_wanted:
  "bus_notification ts e \<noteq> None \<or> as_proto (topic e) \<in> set topics \<and> topic e \<noteq> SessionGapTopic
    \<Longrightarrow> bus_notification (fold add_topic topics ts) e \<noteq> None"
proof (induction topics arbitrary: ts)
  case (Cons t topics)
  have "bus_notification (add_topic t ts) e \<noteq> None \<or> as_proto (topic e) \<in> set topics \<and> topic e \<noteq> SessionGapTopic"
    using Cons.prems add_topic_wanted(1)[of ts e t] add_topic_wanted(2)[of e ts] by auto
  then show ?case using Cons.IH[of "add_topic t ts"] by simp
qed simp

section \<open>Properties\<close>


text \<open>C28. A client that attaches twice with the right to type locks the session against
  everybody: the second subscription replaces the first, which holds the lock; typing is
  refused, and when the connection ends only the second subscription is released, so the lock
  stays with one that no connection knows.\<close>

theorem second_attach_locks_input:
  assumes "holder (ap_session_id ps) m = None" "ap_acquire_input ps"
    "handle_sessions_attach cfg now ps (m, c) = (Inr r1, m1, c1)"
    "handle_sessions_attach cfg now ps (m1, c1) = (Inr r2, m2, c2)" "distinct (map fst (co_attachments c))"
  shows "\<exists>first. ar_input_acquired r1 \<and> \<not> ar_input_acquired r2
    \<and> fst (handle_sessions_write cfg io (ap_session_id ps) (Inr bs) (m2, c2)) = Inl (core_to_rpc (WriterLocked first))
    \<and> holder (ap_session_id ps) (fst (release_all cfg now (m2, c2))) = Some first"
proof -
  let ?sid = "ap_session_id ps"
  obtain rt rt1 s1 where a1: "runtime ?sid m = Inr rt" "runtime ?sid m1 = Inr rt1" "sl_sub_id s1 = next_sub_id (rt_hub rt)"
    "next_sub_id (rt_hub rt1) = sl_sub_id s1 + 1" "ar_input_acquired r1" "rt_writer_holder rt1 = Some (sl_sub_id s1)"
    "c1 = c\<lparr> co_attachments := AList.update ?sid s1 (co_attachments c), co_changed := True \<rparr>"
    using handle_attach_outcome[OF assms(3) refl] assms(1,2) by (auto simp: holder_def)
  obtain rt2 s2 where a2: "runtime ?sid m2 = Inr rt2" "sl_sub_id s2 = next_sub_id (rt_hub rt1)" "\<not> ar_input_acquired r2"
    "rt_writer_holder rt2 = Some (sl_sub_id s1)"
    "c2 = c1\<lparr> co_attachments := AList.update ?sid s2 (co_attachments c1), co_changed := True \<rparr>"
    using handle_attach_outcome[OF assms(4) refl] a1(2,6) by auto
  have ne: "sl_sub_id s2 \<noteq> sl_sub_id s1" using a1(4) a2(2) by simp
  have get: "map_of (co_attachments c2) ?sid = Some s2" by (simp add: a2(5) update_conv')
  have "distinct (map fst (co_attachments c2))" using assms(5) by (simp add: a1(7) a2(5) distinct_update)
  then have only: "(?sid, s) \<in> set (co_attachments c2) \<Longrightarrow> s = s2" for s
    using get map_of_is_SomeI by fastforce
  have "fst (handle_sessions_write cfg io ?sid (Inr bs) (m2, c2)) = Inl (core_to_rpc (WriterLocked (sl_sub_id s1)))"
    using get a2(1,4) ne by (simp add: handle_sessions_write_def write_input_def)
  moreover have "holder ?sid (fst (release_all cfg now (m2, c2))) = Some (sl_sub_id s1)"
    using a2(1,4) ne only by (auto simp: release_all_def holder_release) (auto simp: holder_def)
  ultimately show ?thesis using a1(5) a2(3) by blast
qed

text \<open>C30. A connection whose reader ends while its writer is at work on an event is never torn
  down: the wake-up reaches only a writer that waits, so the reader waits for the writer for
  ever, and the attachments of the client, with the right to type, are never released.\<close>

theorem busy_writer_strands_connection:
  assumes "co_writer c = WBusy e" "co_reader c = Serving" "conn_run cfg (close_reader cfg now (m, c)) tr (m', c')"
  shows "co_reader c' = Closing \<and> held c' = held c"
proof -
  have "stuck (snd (close_reader cfg now (m, c)))" "held (snd (close_reader cfg now (m, c))) = held c"
    using assms(1,2) by (simp_all add: close_reader_def stuck_def held_def)
  then show ?thesis using conn_run_stuck[OF assms(3)] by (simp add: stuck_def)
qed




section \<open>Worked examples\<close>

text \<open>A connection to a manager on which the session n1 runs.\<close>

definition demo_conn :: ConnState where "demo_conn = snd (new_conn idle_manager)"

definition demo_attach :: SessionsAttachParams where
  "demo_attach = \<lparr> ap_session_id = lit ''n1'', ap_resume_from_seq = None, ap_acquire_input = True \<rparr>"

lemma demo_conn_fields: "co_reader demo_conn = Serving" "co_writer demo_conn = WWaiting" "co_attachments demo_conn = []"
  "co_active demo_conn = []" "co_drains demo_conn = []" "co_bus demo_conn = 0" "co_topics demo_conn = no_topics" "co_sent demo_conn = []"
  by (simp_all add: demo_conn_def new_conn_def bus_subscribe_def idle_manager_def new_manager_def with_capacity_def)

lemma handle_attach_works:
  assumes "runtime (ap_session_id ps) m = Inr rt"
  shows "\<exists>res m' c'. handle_sessions_attach cfg now ps (m, c) = (Inr res, m', c')"
  using assms
  by (auto simp: handle_sessions_attach_def attach_def attach_runtime_def Let_def split: prod.splits)

lemma demo_running: "\<exists>(m :: unit Manager) rt. runtime (lit ''n1'') m = Inr rt"
proof -
  from demo_run obtain m :: "unit Manager" and rt where "runtime (lit ''n1'') m = Inr rt" by (elim exE conjE)
  then show ?thesis by (intro exI)
qed

lemma demo_free: "\<exists>(m :: unit Manager) rt. runtime (lit ''n1'') m = Inr rt \<and> rt_writer_holder rt = None"
proof -
  obtain m :: "unit Manager" and rt where r: "runtime (lit ''n1'') m = Inr rt" using demo_running by (elim exE)
  let ?rt = "rt\<lparr> rt_writer_holder := None \<rparr>"
  have "runtime (lit ''n1'') (put_runtime (lit ''n1'') ?rt m) = Inr ?rt"
    using runtimeD[OF r] by (simp add: runtime_def)
  moreover have "rt_writer_holder ?rt = None" by simp
  ultimately show ?thesis by (intro exI conjI)
qed

lemma second_attach_locks_input_witness:
  "\<exists>(m :: unit Manager) r1 m1 c1 r2 m2 c2 first.
     handle_sessions_attach default_manager_config 0 demo_attach (m, demo_conn) = (Inr r1, m1, c1)
     \<and> handle_sessions_attach default_manager_config 0 demo_attach (m1, c1) = (Inr r2, m2, c2)
     \<and> holder (lit ''n1'') (fst (release_all default_manager_config 0 (m2, c2))) = Some first"
proof -
  let ?c = default_manager_config
  obtain m :: "unit Manager" and rt where m: "runtime (lit ''n1'') m = Inr rt" "rt_writer_holder rt = None"
    using demo_free by (elim exE conjE)
  have p: "ap_session_id demo_attach = lit ''n1''" "ap_acquire_input demo_attach" by (simp_all add: demo_attach_def)
  obtain r1 m1 c1 where a1: "handle_sessions_attach ?c 0 demo_attach (m, demo_conn) = (Inr r1, m1, c1)"
    using handle_attach_works[of demo_attach m rt] m p by metis
  obtain rt1 where "runtime (lit ''n1'') m1 = Inr rt1" using handle_attach_outcome[OF a1 refl] p by auto
  then obtain r2 m2 c2 where a2: "handle_sessions_attach ?c 0 demo_attach (m1, c1) = (Inr r2, m2, c2)"
    using handle_attach_works[of demo_attach m1 rt1] p by metis
  have "holder (lit ''n1'') m = None" using m by (simp add: holder_def)
  then obtain first where "holder (lit ''n1'') (fst (release_all ?c 0 (m2, c2))) = Some first"
    using second_attach_locks_input[of demo_attach, OF _ p(2) a1 a2, unfolded p(1)] by (auto simp: demo_conn_fields)
  then show ?thesis by (intro exI conjI) (rule a1, rule a2)
qed


lemma busy_writer_strands_connection_witness:
  "\<exists>c'. conn_run default_manager_config (close_reader default_manager_config 0
       (idle_manager, demo_conn\<lparr> co_writer := WBusy (CronFiredEvent \<lparr> cf_cron_id = [], cf_run_id = [], cf_fired_at = [], cf_status = [] \<rparr>) \<rparr>))
       [] (idle_manager, c') \<and> co_reader c' = Closing"
proof -
  let ?e = "CronFiredEvent \<lparr> cf_cron_id = [], cf_run_id = [], cf_fired_at = [], cf_status = [] \<rparr>"
  let ?conn = "demo_conn\<lparr> co_writer := WBusy ?e \<rparr>"
  obtain c' where c': "close_reader default_manager_config 0 (idle_manager, ?conn) = (idle_manager, c')"
    by (simp add: close_reader_def)
  have run: "conn_run default_manager_config (close_reader default_manager_config 0 (idle_manager, ?conn)) [] (idle_manager, c')"
    unfolding c' by (rule conn_run.start)
  then show ?thesis using busy_writer_strands_connection[OF _ _ run, of ?e] by (auto simp: demo_conn_fields)
qed



end
