(* ===== verification/Project_Requests.thy ===== *)
theory Project_Requests
  imports Client_Sessions
begin

text \<open>
  The requests of \<open>la-daemon/src/dispatcher.rs\<close> about projects and sessions that work on the
  store: \<open>sessions.list\<close>, \<open>sessions.create\<close>, \<open>projects.list\<close>, \<open>projects.create\<close>,
  \<open>adapters.discover\<close> and \<open>sessions.import\<close>.  New ids, the adapters' discovery and the file
  system's answers are arguments.
\<close>

section \<open>Statements\<close>

definition stored :: "(Store \<Rightarrow> (StorageError + 'a) \<times> Store) \<Rightarrow> 'w Manager \<Rightarrow> (RpcError + 'a) \<times> 'w Manager" where
  "stored f m = (case f (mg_store m) of (r, s) \<Rightarrow>
     (case r of Inl e \<Rightarrow> Inl (storage_to_rpc e) | Inr a \<Rightarrow> Inr a, m\<lparr> mg_store := s \<rparr>))"

section \<open>Adapters\<close>

record DiscoverHints =
  hi_project_root :: "str option"
  hi_source_path_override :: "str option"

record DiscoveredSession =
  di_external_id :: str
  di_project_hint :: "str option"
  di_title_hint :: "str option"
  di_external_path :: "str option"
  di_created_at :: "str option"

record Registered =
  rg_agent :: Agent
  rg_discover :: "DiscoverHints \<Rightarrow> AdapterError + DiscoveredSession list"

type_synonym AdapterRegistry = "(str \<times> Registered) list"

definition adapter_names :: "AdapterRegistry \<Rightarrow> str list" where "adapter_names reg = map fst reg"

definition no_backend :: "str \<Rightarrow> RpcError" where
  "no_backend name = rpc_error (rpc_code AdapterNotInstalled) (name @ lit '': no such backend registered'')"

section \<open>Listing sessions\<close>

fun parse_state :: "str \<Rightarrow> SessionState" where
  "parse_state s =
     (if s = lit ''starting'' then Starting
      else if s = lit ''running'' then Running
      else if s = lit ''waiting'' then Waiting
      else if s = lit ''errored'' then Errored
      else if s = lit ''archived'' then Archived
      else Exited)"

declare parse_state.simps [simp del]

lemma parse_state_str: "parse_state (state_str st) = st"
  by (cases st) (simp_all add: parse_state.simps state_str_def session_states_def enum_name_def lit_eq_iff)

record SessionSummary =
  sm_session_id :: str
  sm_project_id :: str
  sm_backend :: str
  sm_title :: "str option"
  sm_state :: SessionState
  sm_origin :: str
  sm_created_at :: str
  sm_updated_at :: str
  sm_worktree_path :: "str option"

definition session_summary :: "Session \<Rightarrow> SessionSummary" where
  "session_summary row = \<lparr> sm_session_id = se_id row, sm_project_id = se_project_id row,
     sm_backend = se_backend_id row, sm_title = se_title row, sm_state = parse_state (se_state row),
     sm_origin = se_origin row, sm_created_at = se_created_at row, sm_updated_at = se_updated_at row,
     sm_worktree_path = se_worktree_path row \<rparr>"

record SessionsListParams =
  lp_project :: "str option"
  lp_backend :: "str option"
  lp_include_archived :: bool

fun list_projects :: "bool \<Rightarrow> Project list \<Rightarrow> Session list \<Rightarrow> 'w Manager \<Rightarrow> (RpcError + Session list) \<times> 'w Manager" where
  "list_projects arch [] acc m = (Inr acc, m)"
| "list_projects arch (p # ps) acc m =
     and_then (stored (session_list_by_project (pj_id p) arch) m) (\<lambda>rows m. list_projects arch ps (acc @ rows) m)"

definition handle_sessions_list :: "SessionsListParams \<Rightarrow> 'w Manager \<Rightarrow> (RpcError + SessionSummary list) \<times> 'w Manager" where
  "handle_sessions_list params m =
     and_then
       (case lp_project params of
          Some p \<Rightarrow> stored (session_list_by_project p (lp_include_archived params)) m
        | None \<Rightarrow> and_then (stored project_list m) (\<lambda>ps m. list_projects (lp_include_archived params) ps [] m))
       (\<lambda>rows m. (Inr (map session_summary (filter (\<lambda>row. case lp_backend params of
            None \<Rightarrow> True | Some b \<Rightarrow> se_backend_id row = b) rows)), m))"

section \<open>Projects\<close>

record ProjectSummary =
  pm_project_id :: str
  pm_display_name :: str
  pm_root_path :: str

definition project_summary :: "Project \<Rightarrow> ProjectSummary" where
  "project_summary p = \<lparr> pm_project_id = pj_id p, pm_display_name = pj_display_name p, pm_root_path = pj_root_path p \<rparr>"

definition handle_projects_list :: "'w Manager \<Rightarrow> (RpcError + ProjectSummary list) \<times> 'w Manager" where
  "handle_projects_list m = and_then (stored project_list m) (\<lambda>ps m. (Inr (map project_summary ps), m))"

definition ensure_project :: "str \<Rightarrow> str \<Rightarrow> 'w Manager \<Rightarrow> (RpcError + str) \<times> 'w Manager" where
  "ensure_project new_id dir m =
     and_then (stored (project_get_by_root_path dir) m) (\<lambda>existing m.
       case existing of
         Some p \<Rightarrow> (Inr (pj_id p), m)
       | None \<Rightarrow> and_then (stored (project_create
           \<lparr> np_id = new_id, np_root_path = dir,
             np_display_name = (case path_file_name dir of Some n \<Rightarrow> n | None \<Rightarrow> dir), np_vcs = None \<rparr>) m)
           (\<lambda>_ m. (Inr new_id, m)))"

text \<open>\<open>shown\<close> is Rust's debug form of a text; \<open>is_dir\<close> asks the file system.\<close>

definition handle_projects_create :: "(str \<Rightarrow> str) \<Rightarrow> (str \<Rightarrow> bool) \<Rightarrow> str \<Rightarrow> str \<Rightarrow> 'w Manager
    \<Rightarrow> (RpcError + ProjectSummary) \<times> 'w Manager" where
  "handle_projects_create shown is_dir new_id raw m =
     (let path = trim raw in
      if path = [] then (Inl (rpc_error (rpc_code InvalidParams) (lit ''project path is required'')), m)
      else if hd path \<noteq> 47
      then (Inl (rpc_error (rpc_code InvalidParams)
              (lit ''project path must be absolute (was '' @ shown path @ lit '')'')), m)
      else if \<not> is_dir path
      then (Inl (rpc_error (rpc_code InvalidParams) (path @ lit '' does not exist or is not a directory'')), m)
      else and_then (ensure_project new_id path m) (\<lambda>pid m.
        and_then (stored (project_get pid) m) (\<lambda>p m.
          case p of
            None \<Rightarrow> (Inl (rpc_error (rpc_code Internal) (lit ''project vanished immediately after create'')), m)
          | Some p \<Rightarrow> (Inr (project_summary p), m))))"

section \<open>Creating a session\<close>

record SessionsCreateParams =
  cp_project_dir :: str
  cp_backend :: str
  cp_args :: "str list"
  cp_prompt :: "str option"
  cp_worktree :: bool

record SessionsCreateResult =
  sc_session_id :: str
  sc_backend :: str
  sc_cwd :: str
  sc_initial_size :: PtySize
  sc_state :: SessionState

definition create_request :: "SessionsCreateParams \<Rightarrow> SpawnRequest" where
  "create_request params = (new_request (cp_project_dir params))\<lparr> rq_extra_args := cp_args params,
     rq_prompt := cp_prompt params, rq_stdin_mode := Pty \<rparr>"

text \<open>The cached probe, if it says that the backend cannot be started.\<close>

definition probe_block :: "(str \<Rightarrow> ProbeResult option) \<Rightarrow> str \<Rightarrow> ProbeResult option" where
  "probe_block probe backend = (case probe backend of
     Some p \<Rightarrow> if is_blocking p then Some p else None | None \<Rightarrow> None)"

definition handle_sessions_create :: "'w Machine \<Rightarrow> ManagerConfig \<Rightarrow> AdapterRegistry \<Rightarrow> (str \<Rightarrow> ProbeResult option)
    \<Rightarrow> (ProbeFailure \<Rightarrow> str) \<Rightarrow> (str \<Rightarrow> str) \<Rightarrow> str \<Rightarrow> SessionsCreateParams \<Rightarrow> 'w Manager
    \<Rightarrow> (RpcError + SessionsCreateResult) \<times> 'w Manager" where
  "handle_sessions_create M cfg reg probe detail shown new_id params m =
     (case map_of reg (cp_backend params) of
        None \<Rightarrow> (Inl (rpc_error (rpc_code AdapterNotInstalled)
                  (lit ''no adapter registered for backend '' @ shown (cp_backend params))), m)
      | Some ad \<Rightarrow>
          (case probe_block probe (cp_backend params) of
             Some p \<Rightarrow> (Inl (probe_to_rpc detail (cp_backend params) p), m)
           | None \<Rightarrow> and_then (ensure_project new_id (cp_project_dir params) m) (\<lambda>pid m.
               case spawn_with_options M cfg (rg_agent ad) pid (create_request params)
                   (if cp_worktree params then Some (cp_project_dir params) else None) m of
                 (Inl e, m) \<Rightarrow> (Inl (core_to_rpc e), m)
               | (Inr sd, m) \<Rightarrow> (Inr \<lparr> sc_session_id = sd_id sd, sc_backend = sd_backend sd,
                   sc_cwd = (case sd_worktree_path sd of Some p \<Rightarrow> p | None \<Rightarrow> cp_project_dir params),
                   sc_initial_size = \<lparr> ps_rows = 32, ps_cols = 120 \<rparr>, sc_state = sd_initial_state sd \<rparr>, m))))"


section \<open>Discovery and import\<close>

record DiscoverParams =
  dp_backend :: "str option"
  dp_source_path :: "str option"
  dp_project_root :: "str option"

record ProtoDiscovered =
  pd_backend :: str
  pd_external_id :: str
  pd_external_path :: "str option"
  pd_project_hint :: "str option"
  pd_title_hint :: "str option"
  pd_created_at :: "str option"
  pd_already_imported :: bool

definition adapter_to_proto_discovered :: "str \<Rightarrow> DiscoveredSession \<Rightarrow> bool \<Rightarrow> ProtoDiscovered" where
  "adapter_to_proto_discovered backend d already = \<lparr> pd_backend = backend, pd_external_id = di_external_id d,
     pd_external_path = di_external_path d, pd_project_hint = di_project_hint d, pd_title_hint = di_title_hint d,
     pd_created_at = di_created_at d, pd_already_imported = already \<rparr>"

fun discover_found :: "str \<Rightarrow> DiscoveredSession list \<Rightarrow> ProtoDiscovered list \<Rightarrow> 'w Manager
    \<Rightarrow> (RpcError + ProtoDiscovered list) \<times> 'w Manager" where
  "discover_found backend [] out m = (Inr out, m)"
| "discover_found backend (d # ds) out m =
     and_then (stored (session_find_by_backend_external_id backend (di_external_id d)) m) (\<lambda>existing m.
       discover_found backend ds (out @ [adapter_to_proto_discovered backend d (existing \<noteq> None)]) m)"

text \<open>An adapter that fails is passed over.\<close>

fun discover_targets :: "DiscoverHints \<Rightarrow> AdapterRegistry \<Rightarrow> ProtoDiscovered list \<Rightarrow> 'w Manager
    \<Rightarrow> (RpcError + ProtoDiscovered list) \<times> 'w Manager" where
  "discover_targets hints [] out m = (Inr out, m)"
| "discover_targets hints ((name, ad) # reg) out m = (case rg_discover ad hints of
       Inl _ \<Rightarrow> discover_targets hints reg out m
     | Inr found \<Rightarrow> and_then (discover_found name found out m) (\<lambda>out m. discover_targets hints reg out m))"

definition handle_adapters_discover :: "AdapterRegistry \<Rightarrow> DiscoverParams \<Rightarrow> 'w Manager
    \<Rightarrow> (RpcError + ProtoDiscovered list) \<times> 'w Manager" where
  "handle_adapters_discover reg params m =
     (let hints = \<lparr> hi_project_root = dp_project_root params, hi_source_path_override = dp_source_path params \<rparr> in
      if dp_source_path params \<noteq> None \<and> dp_backend params = None
      then (Inl (invalid_params (lit ''source_path requires backend to be set '' @ [8212]
              @ lit '' every adapter has its own root'')), m)
      else case dp_backend params of
          Some name \<Rightarrow> (case map_of reg name of
              None \<Rightarrow> (Inl (no_backend name), m)
            | Some ad \<Rightarrow> discover_targets hints [(name, ad)] [] m)
        | None \<Rightarrow> discover_targets hints reg [] m)"

record ImportParams =
  ip_backend :: str
  ip_source_path :: "str option"
  ip_external_ids :: "str list option"

record ImportedSession =
  im_session_id :: str
  im_external_id :: str
  im_backend :: str
  im_project_hint :: "str option"
  im_created_at :: str
  im_title_hint :: "str option"
  im_external_path :: "str option"
  im_already_existed :: bool

definition import_existing :: "str \<Rightarrow> DiscoveredSession \<Rightarrow> Session \<Rightarrow> ImportedSession" where
  "import_existing backend d row = \<lparr> im_session_id = se_id row, im_external_id = di_external_id d, im_backend = backend,
     im_project_hint = di_project_hint d, im_created_at = se_created_at row,
     im_title_hint = (case se_title row of Some t \<Rightarrow> Some t | None \<Rightarrow> di_title_hint d),
     im_external_path = se_external_path row, im_already_existed = True \<rparr>"

definition import_row :: "str \<Rightarrow> str \<Rightarrow> str \<Rightarrow> DiscoveredSession \<Rightarrow> NewSession" where
  "import_row new_id project_id backend d = \<lparr> ns_id = new_id, ns_project_id = project_id, ns_backend_id = backend,
     ns_external_id = Some (di_external_id d), ns_title = di_title_hint d, ns_state = lit ''exited'', ns_pid = None,
     ns_worktree_path = None, ns_worktree_branch = None, ns_base_branch = None, ns_spawn_args = lit ''{}'',
     ns_origin = lit ''import'', ns_hook_status = None, ns_external_path = di_external_path d \<rparr>"

definition import_dir :: "str \<Rightarrow> DiscoveredSession \<Rightarrow> str" where
  "import_dir backend d = (case di_project_hint d of
     Some p \<Rightarrow> p | None \<Rightarrow> lit ''__discovered__/'' @ backend @ lit ''/'' @ di_external_id d)"

text \<open>One discovered session; \<open>ids\<close> are the new ids that its project and its row would get.\<close>

definition import_one :: "str \<Rightarrow> str \<times> str \<Rightarrow> DiscoveredSession \<Rightarrow> 'w Manager \<Rightarrow> (RpcError + ImportedSession) \<times> 'w Manager" where
  "import_one backend ids d m =
     and_then (stored (session_find_by_backend_external_id backend (di_external_id d)) m) (\<lambda>existing m.
       case existing of
         Some row \<Rightarrow> (Inr (import_existing backend d row), m)
       | None \<Rightarrow>
           and_then (ensure_project (fst ids) (import_dir backend d) m) (\<lambda>pid m.
           and_then (stored (session_create (import_row (snd ids) pid backend d)) m) (\<lambda>_ m.
             (Inr \<lparr> im_session_id = snd ids, im_external_id = di_external_id d, im_backend = backend,
                im_project_hint = di_project_hint d,
                im_created_at = (case di_created_at d of Some t \<Rightarrow> t | None \<Rightarrow> lit ''1970-01-01T00:00:00Z''),
                im_title_hint = di_title_hint d, im_external_path = di_external_path d,
                im_already_existed = False \<rparr>, m))))"

fun import_loop :: "str \<Rightarrow> (nat \<Rightarrow> str \<times> str) \<Rightarrow> nat \<Rightarrow> DiscoveredSession list \<Rightarrow> ImportedSession list \<Rightarrow> 'w Manager
    \<Rightarrow> (RpcError + ImportedSession list) \<times> 'w Manager" where
  "import_loop backend ids n [] out m = (Inr out, m)"
| "import_loop backend ids n (d # ds) out m =
     and_then (import_one backend (ids n) d m) (\<lambda>r m. import_loop backend ids (n + 1) ds (out @ [r]) m)"

definition wanted :: "str list option \<Rightarrow> DiscoveredSession \<Rightarrow> bool" where
  "wanted keep d \<longleftrightarrow> (case keep of None \<Rightarrow> True | Some ks \<Rightarrow> di_external_id d \<in> set ks)"

definition handle_sessions_import :: "AdapterRegistry \<Rightarrow> (nat \<Rightarrow> str \<times> str) \<Rightarrow> ImportParams \<Rightarrow> 'w Manager
    \<Rightarrow> (RpcError + ImportedSession list) \<times> 'w Manager" where
  "handle_sessions_import reg ids params m = (case map_of reg (ip_backend params) of
       None \<Rightarrow> (Inl (no_backend (ip_backend params)), m)
     | Some ad \<Rightarrow> (case rg_discover ad \<lparr> hi_project_root = None, hi_source_path_override = ip_source_path params \<rparr> of
           Inl e \<Rightarrow> (Inl (adapter_to_rpc e), m)
         | Inr found \<Rightarrow> import_loop (ip_backend params) ids 0 (filter (wanted (ip_external_ids params)) found) [] m))"

end
