(* ===== verification/Request_Properties.thy ===== *)
theory Request_Properties
  imports Project_Requests Session_Properties
begin

text \<open>
  What the requests about projects and sessions promise: the list of sessions is complete,
  an import can be repeated, and what becomes of a prompt.
\<close>

section \<open>Statements\<close>

lemma and_then_Inr: "and_then p k = (Inr b, s') \<longleftrightarrow> (\<exists>a s1. p = (Inr a, s1) \<and> k a s1 = (Inr b, s'))"
  by (cases p; cases "fst p") auto

lemma storedE:
  assumes "stored f m = (Inr a, m')"
  obtains s where "f (mg_store m) = (Inr a, s)" "m' = m\<lparr> mg_store := s \<rparr>"
  using assms by (auto simp: stored_def split: prod.splits sum.splits)

definition rows :: "'w Manager \<Rightarrow> Session list" where "rows m = map snd (st_sessions (mg_store m))"

lemma adv_fields [simp]: "st_sessions (adv_store s) = st_sessions s" "st_projects (adv_store s) = st_projects s"
  by (simp_all add: adv_store_def)

lemma find_append: "find P (xs @ ys) = (case find P xs of Some x \<Rightarrow> Some x | None \<Rightarrow> find P ys)"
  by (induction xs) auto

lemma stored_read:
  assumes "stored (sql (\<lambda>s. Inr (g s, s))) m = (Inr a, m')" "\<And>s. g (adv_store s) = g s"
  shows "a = g (mg_store m) \<and> rows m' = rows m \<and> st_projects (mg_store m') = st_projects (mg_store m)"
proof -
  obtain s where s: "sql (\<lambda>s. Inr (g s, s)) (mg_store m) = (Inr a, s)" "m' = m\<lparr> mg_store := s \<rparr>"
    using assms(1) by (rule storedE)
  from s(1) show ?thesis
    by (cases rule: sqlE) (auto simp: s(2) rows_def assms(2))
qed

lemma ensure_project_rows:
  assumes "ensure_project i d m = (Inr p, m')"
  shows "rows m' = rows m"
proof -
  from assms obtain e m1 where f: "stored (project_get_by_root_path d) m = (Inr e, m1)"
    and k: "(case e of Some p \<Rightarrow> (Inr (pj_id p), m1)
       | None \<Rightarrow> and_then (stored (project_create
           \<lparr> np_id = i, np_root_path = d,
             np_display_name = (case path_file_name d of Some n \<Rightarrow> n | None \<Rightarrow> d), np_vcs = None \<rparr>) m1)
           (\<lambda>_ m. (Inr i, m))) = (Inr p, m')"
    unfolding ensure_project_def by (cases rule: and_thenE) auto
  have "rows m1 = rows m"
    using stored_read[OF f[unfolded project_get_by_root_path_def]] by (simp add: adv_store_def)
  moreover have "rows m' = rows m1"
  proof (cases e)
    case None
    let ?n = "\<lparr> np_id = i, np_root_path = d,
             np_display_name = (case path_file_name d of Some n \<Rightarrow> n | None \<Rightarrow> d), np_vcs = None \<rparr>"
    from k None obtain q where "stored (project_create ?n) m1 = (Inr q, m')" by (auto simp: and_then_Inr)
    then obtain s where s: "project_create ?n (mg_store m1) = (Inr q, s)" "m' = m1\<lparr> mg_store := s \<rparr>" by (rule storedE)
    from s(1) have "st_sessions s = st_sessions (mg_store m1)"
      unfolding project_create_def
      by (elim and_thenE sqlE) (auto simp: project_get_def adv_store_def sync_def elim!: sqlE split: if_splits option.splits)
    then show ?thesis by (simp add: rows_def s(2))
  qed (use k in simp)
  ultimately show ?thesis by simp
qed

section \<open>Import\<close>

definition matching :: "str \<Rightarrow> DiscoveredSession \<Rightarrow> Session \<Rightarrow> bool" where
  "matching backend d r \<longleftrightarrow> se_backend_id r = backend \<and> se_external_id r = Some (di_external_id d)"

definition found_id :: "str \<Rightarrow> DiscoveredSession \<Rightarrow> Session list \<Rightarrow> str option" where
  "found_id backend d rs = map_option se_id (find (matching backend d) rs)"

lemma found_append: "found_id b d rs = Some i \<Longrightarrow> found_id b d (rs @ new) = Some i"
  by (auto simp: found_id_def find_append)

lemma find_matching:
  "stored (session_find_by_backend_external_id b (di_external_id d)) m = (Inr e, m') \<Longrightarrow>
   e = find (matching b d) (rows m) \<and> rows m' = rows m \<and> st_projects (mg_store m') = st_projects (mg_store m)"
  unfolding session_find_by_backend_external_id_def
  by (drule stored_read) (simp_all add: adv_store_def rows_def matching_def[abs_def])

lemma session_create_rows:
  assumes "stored (session_create n) m = (Inr q, m')"
  shows "\<exists>now. rows m' = rows m @ [session_row now n]"
proof -
  obtain s where s: "session_create n (mg_store m) = (Inr q, s)" "m' = m\<lparr> mg_store := s \<rparr>"
    using assms by (rule storedE)
  from s(1) obtain t where t: "sql (\<lambda>s. let r = session_row (store_now s) n in
         if ns_id n \<in> set (map fst (st_sessions s)) \<or> \<not> session_refs s r
            \<or> (\<exists>x\<in>set (map snd (st_sessions s)). same_external r x) then Inl CONSTRAINT
         else Inr ((), sync (s\<lparr> st_sessions := st_sessions s @ [(ns_id n, r)] \<rparr>))) (mg_store m) = (Inr (), t)"
    and g: "and_then (session_get (ns_id n) t)
      (\<lambda>r s. (case r of Some row \<Rightarrow> Inr row | None \<Rightarrow> Inl (MissingSession (ns_id n)), s)) = (Inr q, s)"
    unfolding session_create_def by (cases rule: and_thenE) auto
  from t have "\<exists>now. st_sessions t = st_sessions (mg_store m) @ [(ns_id n, session_row now n)]"
    by (cases rule: sqlE) (auto simp: Let_def sync_def adv_store_def split: if_splits)
  moreover have "st_sessions s = st_sessions t"
    using g by (elim and_thenE) (auto simp: session_get_def adv_store_def elim!: sqlE)
  ultimately show ?thesis by (auto simp: rows_def s(2))
qed

lemma import_one_effect:
  assumes "import_one b ids d m = (Inr r, m')"
  shows "(\<exists>new. rows m' = rows m @ new) \<and> found_id b d (rows m') = Some (im_session_id r)
    \<and> (found_id b d (rows m) \<noteq> None \<longrightarrow> rows m' = rows m \<and> st_projects (mg_store m') = st_projects (mg_store m)
          \<and> im_already_existed r)"
proof -
  from assms obtain e m1 where f: "stored (session_find_by_backend_external_id b (di_external_id d)) m = (Inr e, m1)"
    and k: "(case e of Some row \<Rightarrow> (Inr (import_existing b d row), m1)
       | None \<Rightarrow>
           and_then (ensure_project (fst ids) (import_dir b d) m1) (\<lambda>pid m.
           and_then (stored (session_create (import_row (snd ids) pid b d)) m) (\<lambda>_ m.
             (Inr \<lparr> im_session_id = snd ids, im_external_id = di_external_id d, im_backend = b,
                im_project_hint = di_project_hint d,
                im_created_at = (case di_created_at d of Some t \<Rightarrow> t | None \<Rightarrow> lit ''1970-01-01T00:00:00Z''),
                im_title_hint = di_title_hint d, im_external_path = di_external_path d,
                im_already_existed = False \<rparr>, m)))) = (Inr r, m')"
    unfolding import_one_def by (cases rule: and_thenE) auto
  note e = find_matching[OF f]
  show ?thesis
  proof (cases e)
    case (Some row)
    then show ?thesis using k e by (auto simp: found_id_def import_existing_def)
  next
    case None
    from k None obtain pid m2 q where p: "ensure_project (fst ids) (import_dir b d) m1 = (Inr pid, m2)"
      and c: "stored (session_create (import_row (snd ids) pid b d)) m2 = (Inr q, m')" and i: "im_session_id r = snd ids"
      by (auto simp: and_then_Inr)
    obtain now where n: "rows m' = rows m @ [session_row now (import_row (snd ids) pid b d)]"
      using session_create_rows[OF c] ensure_project_rows[OF p] e by auto
    have "find (matching b d) (rows m) = None" using e None by simp
    then show ?thesis
      by (simp add: n i found_id_def find_append matching_def session_row_def import_row_def del: find_None_iff)
  qed
qed


lemma import_loop_effect:
  assumes "import_loop b ids n ds out m = (Inr res, m')"
  shows "\<exists>new rs. rows m' = rows m @ new \<and> res = out @ rs
    \<and> list_all2 (\<lambda>d r. found_id b d (rows m') = Some (im_session_id r)) ds rs"
  using assms
proof (induction ds arbitrary: n out m)
  case Nil
  then show ?case by simp
next
  case (Cons d ds)
  then obtain r m1 where o: "import_one b (ids n) d m = (Inr r, m1)"
    and l: "import_loop b ids (n + 1) ds (out @ [r]) m1 = (Inr res, m')"
    by (auto simp: and_then_Inr)
  obtain new rs where i: "rows m' = rows m1 @ new" "res = (out @ [r]) @ rs"
    "list_all2 (\<lambda>d r. found_id b d (rows m') = Some (im_session_id r)) ds rs"
    using Cons.IH[OF l] by blast
  have "found_id b d (rows m') = Some (im_session_id r)"
    using import_one_effect[OF o] i(1) by (simp add: found_append)
  moreover obtain new1 where "rows m1 = rows m @ new1" using import_one_effect[OF o] by blast
  ultimately show ?case using i by (intro exI[of _ "new1 @ new"] exI[of _ "r # rs"]) simp
qed

lemma import_loop_again:
  assumes "import_loop b ids n ds out m = (Inr res, m')" "\<forall>d\<in>set ds. found_id b d (rows m) \<noteq> None"
  shows "rows m' = rows m \<and> st_projects (mg_store m') = st_projects (mg_store m)
    \<and> (\<exists>rs. res = out @ rs \<and> list_all im_already_existed rs)"
  using assms
proof (induction ds arbitrary: n out m)
  case Nil
  then show ?case by simp
next
  case (Cons d ds)
  then obtain r m1 where o: "import_one b (ids n) d m = (Inr r, m1)"
    and l: "import_loop b ids (n + 1) ds (out @ [r]) m1 = (Inr res, m')"
    by (auto simp: and_then_Inr)
  have e: "rows m1 = rows m" "st_projects (mg_store m1) = st_projects (mg_store m)" "im_already_existed r"
    using import_one_effect[OF o] Cons.prems(2) by auto
  then show ?case using Cons.IH[OF l] Cons.prems(2) by (auto simp: e)
qed

lemma same_ids:
  "list_all2 (\<lambda>d r. f d = Some (im_session_id r)) ds rs \<Longrightarrow> list_all2 (\<lambda>d r. f d = Some (im_session_id r)) ds rs' \<Longrightarrow>
   map im_session_id rs = map im_session_id rs'"
proof (induction arbitrary: rs' rule: list_all2_induct)
  case (Cons d ds r rs)
  then show ?case by (auto simp: list_all2_Cons1)
qed simp



section \<open>The list of sessions\<close>

lemma list_projects_effect:
  "list_projects arch ps acc m = (Inr out, m') \<Longrightarrow>
   mset out = mset acc + (\<Sum>p\<leftarrow>ps. mset (filter (\<lambda>r. se_project_id r = pj_id p \<and> (arch \<or> se_archived_at r = None)) (rows m)))"
proof (induction ps arbitrary: acc m)
  case (Cons p ps)
  then obtain rs m1 where a: "stored (session_list_by_project (pj_id p) arch) m = (Inr rs, m1)"
    and b: "list_projects arch ps (acc @ rs) m1 = (Inr out, m')" by (auto simp: and_then_Inr)
  have "rs = rev (sort_key se_created_at (filter (\<lambda>r. se_project_id r = pj_id p \<and> (arch \<or> se_archived_at r = None)) (rows m)))"
    and "rows m1 = rows m"
    using stored_read[OF a[unfolded session_list_by_project_def]] by (simp_all add: rows_def)
  then show ?case using Cons.IH[OF b] by simp
qed simp

lemma sum_by_project:
  "distinct (map f ps) \<Longrightarrow>
   (\<Sum>p\<leftarrow>ps. mset (filter (\<lambda>r. g r = f p \<and> P r) rs)) = mset (filter (\<lambda>r. g r \<in> f ` set ps \<and> P r) rs)"
proof (induction ps)
  case (Cons p ps)
  have "filter_mset (\<lambda>r. g r = f p \<and> P r) (mset rs) + filter_mset (\<lambda>r. g r \<in> f ` set ps \<and> P r) (mset rs)
      = filter_mset (\<lambda>r. g r \<in> f ` set (p # ps) \<and> P r) (mset rs)"
    using Cons.prems by (induction rs) auto
  then show ?case using Cons by simp
qed simp

definition projects_keyed :: "Store \<Rightarrow> bool" where
  "projects_keyed s \<longleftrightarrow> map fst (st_projects s) = map (\<lambda>kp. pj_id (snd kp)) (st_projects s)"

definition listed :: "SessionsListParams \<Rightarrow> Session \<Rightarrow> bool" where
  "listed params r \<longleftrightarrow> (case lp_project params of None \<Rightarrow> True | Some p \<Rightarrow> se_project_id r = p)
     \<and> (case lp_backend params of None \<Rightarrow> True | Some b \<Rightarrow> se_backend_id r = b)
     \<and> (lp_include_archived params \<or> se_archived_at r = None)"

lemma session_of_project:
  assumes "store_ok s" "r \<in> set (map snd (st_sessions s))"
  shows "se_project_id r \<in> set (map fst (st_projects s))"
proof -
  obtain k where "(k, r) \<in> set (st_sessions s)" using assms(2) by auto
  then have "map_of (st_sessions s) k = Some r" using assms(1) by (simp add: store_ok_def sessions_ok_def keyed_def)
  then show ?thesis using assms(1) unfolding store_ok_def sessions_ok_def session_refs_def by blast
qed

text \<open>C34. The list of sessions that a client gets is complete and holds nothing twice: whether it
  names a project or not, and whatever the order, its entries are one by one the summaries of the
  rows that the parameters ask for.\<close>

theorem sessions_list_complete:
  assumes "handle_sessions_list params m = (Inr out, m')" "store_ok (mg_store m)" "projects_keyed (mg_store m)"
  shows "mset out = mset (map session_summary (filter (listed params) (map snd (st_sessions (mg_store m)))))"
proof -
  let ?arch = "lp_include_archived params"
  let ?b = "\<lambda>r. case lp_backend params of None \<Rightarrow> True | Some b \<Rightarrow> se_backend_id r = b"
  obtain rs m1 where rs: "(case lp_project params of
          Some p \<Rightarrow> stored (session_list_by_project p ?arch) m
        | None \<Rightarrow> and_then (stored project_list m) (\<lambda>ps m. list_projects ?arch ps [] m)) = (Inr rs, m1)"
    and out: "out = map session_summary (filter ?b rs)"
    using assms(1) by (auto simp: handle_sessions_list_def and_then_Inr)
  have "mset rs = mset (filter (\<lambda>r. (case lp_project params of None \<Rightarrow> True | Some p \<Rightarrow> se_project_id r = p)
      \<and> (?arch \<or> se_archived_at r = None)) (rows m))"
  proof (cases "lp_project params")
    case (Some p)
    then have "stored (sql (\<lambda>s. Inr (rev (sort_key se_created_at (filter (\<lambda>r. se_project_id r = p \<and> (?arch \<or> se_archived_at r = None))
        (map snd (st_sessions s)))), s))) m = (Inr rs, m1)"
      using rs by (simp add: session_list_by_project_def)
    from stored_read[OF this] show ?thesis using Some by (simp add: rows_def)
  next
    case None
    from rs None obtain ps m2 where p: "stored project_list m = (Inr ps, m2)" and l: "list_projects ?arch ps [] m2 = (Inr rs, m1)"
      by (auto simp: and_then_Inr)
    have ps: "ps = sort_key pj_root_path (map snd (st_projects (mg_store m)))" and m2: "rows m2 = rows m"
      using stored_read[OF p[unfolded project_list_def]] by simp_all
    have k: "map pj_id (map snd (st_projects (mg_store m))) = map fst (st_projects (mg_store m))"
      using assms(3) by (simp add: projects_keyed_def o_def)
    have "distinct (map pj_id (map snd (st_projects (mg_store m))))"
      using store_okD(2)[OF assms(2)] unfolding k keyed_def .
    then have "distinct (map pj_id ps)"
      unfolding ps by (metis mset_eq_imp_distinct_iff mset_map mset_sort)
    then have "mset rs = mset (filter (\<lambda>r. se_project_id r \<in> pj_id ` set ps \<and> (?arch \<or> se_archived_at r = None)) (rows m))"
      using list_projects_effect[OF l] sum_by_project[of pj_id ps se_project_id] by (simp add: m2)
    moreover have "pj_id ` set ps = set (map fst (st_projects (mg_store m)))"
      using arg_cong[OF k, of set] by (simp add: ps image_image)
    then have "\<forall>r\<in>set (rows m). se_project_id r \<in> pj_id ` set ps"
      using session_of_project[OF assms(2)] by (simp add: rows_def)
    ultimately show ?thesis using None by (simp cong: filter_cong)
  qed
  then have "mset (filter ?b rs) = mset (filter (listed params) (rows m))"
    by (simp add: listed_def[abs_def] filter_filter_mset conj_commute conj_left_commute)
  then show ?thesis by (simp add: out rows_def)
qed

section \<open>The prompt of a new session\<close>

definition built_in :: "Agent \<Rightarrow> bool" where
  "built_in ag \<longleftrightarrow> (\<exists>p. ag_spawn_spec ag = Inr \<circ> claude_spawn_spec p \<or> ag_spawn_spec ag = Inr \<circ> codex_spawn_spec p
     \<or> ag_spawn_spec ag = Inr \<circ> opencode_spawn_spec p)"

lemma spec_ignores_prompt:
  "built_in ag \<Longrightarrow> rq_stdin_mode rq = Pty \<Longrightarrow> ag_spawn_spec ag (rq\<lparr> rq_prompt := x \<rparr>) = ag_spawn_spec ag rq"
  by (auto simp: built_in_def claude_spawn_spec_def codex_spawn_spec_def opencode_spawn_spec_def spec_of_def spec_env_def)

lemma prepare_ignores_prompt:
  assumes "built_in ag" "rq_stdin_mode rq = Pty"
  shows "spawn_prepare M cfg ag pid (rq\<lparr> rq_prompt := x \<rparr>) opts m = spawn_prepare M cfg ag pid rq opts m"
proof -
  have "ag_spawn_spec ag (rq\<lparr> rq_prompt := x, rq_cwd := d \<rparr>) = ag_spawn_spec ag (rq\<lparr> rq_cwd := d \<rparr>)" for d
  proof -
    have swap: "rq\<lparr> rq_prompt := x, rq_cwd := d \<rparr> = rq\<lparr> rq_cwd := d, rq_prompt := x \<rparr>" by simp
    show ?thesis unfolding swap by (rule spec_ignores_prompt[OF assms(1)]) (simp add: assms(2))
  qed
  then have "ag_spawn_spec ag (case plan of None \<Rightarrow> rq\<lparr> rq_prompt := x \<rparr> | Some (_, p) \<Rightarrow> rq\<lparr> rq_prompt := x, rq_cwd := pl_path p \<rparr>)
      = ag_spawn_spec ag (case plan of None \<Rightarrow> rq | Some (_, p) \<Rightarrow> rq\<lparr> rq_cwd := pl_path p \<rparr>)"
    for plan :: "(str \<times> WorktreePlan) option"
    using spec_ignores_prompt[OF assms] by (cases plan) auto
  then show ?thesis unfolding spawn_prepare_def by simp
qed

text \<open>C33. The prompt that a client gives with a new session is lost: the reply and the state of the
  manager, with the input of every session, are those of the same request with another prompt or with
  none.  The field is documented as the first prompt, to be typed into the agent's input.\<close>

theorem prompt_never_delivered:
  assumes "\<forall>(n, ad)\<in>set reg. built_in (rg_agent ad)"
  shows "handle_sessions_create M cfg reg probe detail shown new_id (params\<lparr> cp_prompt := x \<rparr>) m
    = handle_sessions_create M cfg reg probe detail shown new_id params m"
proof -
  have "create_request (params\<lparr> cp_prompt := x \<rparr>) = (create_request params)\<lparr> rq_prompt := x \<rparr>"
    and "rq_stdin_mode (create_request params) = Pty" by (simp_all add: create_request_def)
  then have "built_in ag \<Longrightarrow> spawn_with_options M cfg ag pid (create_request (params\<lparr> cp_prompt := x \<rparr>)) opts m
      = spawn_with_options M cfg ag pid (create_request params) opts m" for ag pid opts m
    by (simp add: spawn_with_options_def prepare_ignores_prompt)
  moreover have "map_of reg b = Some ad \<Longrightarrow> built_in (rg_agent ad)" for b ad
    using assms by (fastforce dest: map_of_SomeD)
  moreover have same: "cp_project_dir (params\<lparr> cp_prompt := x \<rparr>) = cp_project_dir params"
    "cp_backend (params\<lparr> cp_prompt := x \<rparr>) = cp_backend params" "cp_worktree (params\<lparr> cp_prompt := x \<rparr>) = cp_worktree params"
    by simp_all
  ultimately show ?thesis
    unfolding handle_sessions_create_def same by (simp split: option.split)
qed

section \<open>The statements at work\<close>

definition built_in_agent :: Agent where
  "built_in_agent = \<lparr> ag_id = lit ''claude'', ag_spawn_spec = Inr \<circ> claude_spawn_spec None \<rparr>"

definition found_session :: DiscoveredSession where
  "found_session = \<lparr> di_external_id = lit ''x1'', di_project_hint = Some [], di_title_hint = None, di_external_path = None, di_created_at = None \<rparr>"

definition demo_registry :: AdapterRegistry where
  "demo_registry = [(lit ''claude'', \<lparr> rg_agent = built_in_agent, rg_discover = (\<lambda>_. Inr [found_session]) \<rparr>)]"

definition import_all :: ImportParams where
  "import_all = \<lparr> ip_backend = lit ''claude'', ip_source_path = None, ip_external_ids = None \<rparr>"

lemma prompt_never_delivered_witness:
  "handle_sessions_create demo_machine default_manager_config demo_registry (\<lambda>_. None) (\<lambda>_. []) (\<lambda>x. x) (lit ''p2'')
     \<lparr> cp_project_dir = [], cp_backend = lit ''claude'', cp_args = [], cp_prompt = Some (lit ''fix it''), cp_worktree = False \<rparr> idle_manager
   = handle_sessions_create demo_machine default_manager_config demo_registry (\<lambda>_. None) (\<lambda>_. []) (\<lambda>x. x) (lit ''p2'')
     \<lparr> cp_project_dir = [], cp_backend = lit ''claude'', cp_args = [], cp_prompt = None, cp_worktree = False \<rparr> idle_manager"
proof -
  have "\<forall>(n, ad)\<in>set demo_registry. built_in (rg_agent ad)"
    by (auto simp: demo_registry_def built_in_agent_def built_in_def)
  from prompt_never_delivered[OF this, where x = "Some (lit ''fix it'')" and M = demo_machine and m = idle_manager and
    params = "\<lparr> cp_project_dir = [], cp_backend = lit ''claude'', cp_args = [], cp_prompt = None, cp_worktree = False \<rparr>"]
  show ?thesis by simp
qed

lemma sessions_list_complete_witness:
  "\<exists>out m'. handle_sessions_list \<lparr> lp_project = None, lp_backend = None, lp_include_archived = True \<rparr> idle_manager = (Inr out, m')
     \<and> mset out = {# session_summary (demo_session (lit ''s1'')) #}"
proof -
  let ?p = "\<lparr> lp_project = None, lp_backend = None, lp_include_archived = True \<rparr>"
  have s: "mg_store idle_manager = demo_store" by (simp add: idle_manager_def new_manager_def)
  have ok: "store_ok (mg_store idle_manager)"
    unfolding s by (simp add: store_ok_def demo_store_def keyed_def sessions_ok_def sync_iff db_ok_def db_core_def
      crons_wf_def runs_wf_def finished_count_def sync_def empty_db_def session_refs_def demo_session_def session_row_def)
  have rows: "map snd (st_sessions demo_store) = [demo_session (lit ''s1'')]" "projects_keyed demo_store"
    "db_io (st_db demo_store) = []" "map snd (st_projects demo_store) = [snd (hd (st_projects demo_store))]"
    by (simp_all add: demo_store_def sync_def empty_db_def projects_keyed_def)
  have "\<exists>out m'. handle_sessions_list ?p idle_manager = (Inr out, m')"
    by (simp add: handle_sessions_list_def stored_def s project_list_def rows session_list_by_project_def)
  then obtain out m' where r: "handle_sessions_list ?p idle_manager = (Inr out, m')" by blast
  show ?thesis using sessions_list_complete[OF r ok] r rows by (auto simp: s listed_def)
qed


end
