(* ===== verification/Cron_Requests.thy ===== *)
theory Cron_Requests
  imports Run_Executor Error_Texts
begin

text \<open>
  The requests about crons and runs of \<open>la-daemon/src/dispatcher.rs\<close>, with the conversions of
  rows to replies of \<open>la-daemon/src/scheduler.rs\<close> and the parameters and replies of
  \<open>la-proto/src/methods.rs\<close>.  The mutations work on the state of cron control, a manual run on
  the executor, the others on the database.  \<open>shown\<close> is Rust's debug form of a text.
\<close>

section \<open>Errors\<close>

fun sched_text :: "(str \<Rightarrow> str) \<Rightarrow> SchedError \<Rightarrow> str" where
  "sched_text shown (InvalidExpr expr reason) =
     lit ''invalid cron expression '' @ shown expr @ lit '': '' @ reason"
| "sched_text shown (InvalidTimezone z) = lit ''invalid IANA timezone '' @ shown z"
| "sched_text shown (Invariant d) = lit ''scheduler invariant violated: '' @ d"

fun admit_text :: "AdmitError \<Rightarrow> str" where
  "admit_text (AeStorage e) = lit ''storage: '' @ storage_text e"
| "admit_text (AdapterMissing b) = lit ''adapter missing: '' @ b"
| "admit_text (ProjectMissing p) = lit ''project missing: '' @ p"
| "admit_text (AeSpawn d) = lit ''spawn: '' @ d"

definition cron_not_found :: "str \<Rightarrow> RpcError" where
  "cron_not_found k = rpc_error (rpc_code CronNotFound) (lit ''cron '' @ k @ lit '' not found'')"

fun cron_op_to_rpc :: "(str \<Rightarrow> str) \<Rightarrow> CronOpError \<Rightarrow> RpcError" where
  "cron_op_to_rpc shown (CoNotFound k) = cron_not_found k"
| "cron_op_to_rpc shown (CoInvalidExpr reason) = rpc_error (rpc_code CronInvalidExpr) reason"
| "cron_op_to_rpc shown (CoInvalidTz z) = rpc_error (rpc_code CronInvalidTz) (lit ''invalid timezone: '' @ z)"
| "cron_op_to_rpc shown (CoStorage e) = storage_to_rpc e"
| "cron_op_to_rpc shown (CoAdmit e) = rpc_error (rpc_code Internal) (admit_text e)"
| "cron_op_to_rpc shown (CoOther e) = rpc_error (rpc_code Internal) (sched_text shown e)"

fun security_to_rpc :: "CronSecurityError \<Rightarrow> RpcError" where
  "security_to_rpc (PromptTooLarge n l) = rpc_error (rpc_code CronPromptTooLarge)
     (lit ''prompt is '' @ show_nat n @ lit '' bytes; max is '' @ show_nat l)"
| "security_to_rpc InvalidConfirmationToken = rpc_error (rpc_code CronConfirmationRequired)
     (lit ''invalid confirmation token; restart the two-step enable flow'')"
| "security_to_rpc ExpiredConfirmationToken = rpc_error (rpc_code CronConfirmationRequired)
     (lit ''confirmation token expired; restart the two-step enable flow'')"
| "security_to_rpc TokenCronMismatch = rpc_error (rpc_code CronConfirmationRequired)
     (lit ''confirmation token does not belong to this cron'')"
| "security_to_rpc SensitiveSnapshotChanged = rpc_error (rpc_code CronConfirmationRequired)
     (lit ''cron sensitive content changed since this token was issued; restart the two-step enable flow'')"
| "security_to_rpc RandomToken = rpc_error (rpc_code Internal) (lit ''failed to generate confirmation token'')"

fun cron_control_to_rpc :: "(str \<Rightarrow> str) \<Rightarrow> CronControlError \<Rightarrow> RpcError" where
  "cron_control_to_rpc shown (CcNotFound k) = cron_not_found k"
| "cron_control_to_rpc shown (CcInvalidExpr reason) = rpc_error (rpc_code CronInvalidExpr) reason"
| "cron_control_to_rpc shown (CcInvalidTz z) = rpc_error (rpc_code CronInvalidTz) (lit ''invalid timezone: '' @ z)"
| "cron_control_to_rpc shown (CcStorage e) = storage_to_rpc e"
| "cron_control_to_rpc shown (CcSecurity e) = security_to_rpc e"
| "cron_control_to_rpc shown (CcOther e) = rpc_error (rpc_code Internal) (sched_text shown e)"

section \<open>Rows as replies\<close>

record CronEntry =
  ce_id :: str
  ce_name :: str
  ce_enabled :: bool
  ce_project_id :: str
  ce_backend :: str
  ce_spawn_args :: str
  ce_prompt :: str
  ce_cron_expr :: str
  ce_tz :: str
  ce_catchup_mode :: str
  ce_max_concurrent_runs :: nat
  ce_max_runs_per_day :: nat
  ce_max_runtime_s :: nat
  ce_cost_budget :: "f64 option"
  ce_failure_backoff :: str
  ce_pause_on_failures :: nat
  ce_consecutive_failures :: nat
  ce_last_fired_at :: "str option"
  ce_next_fire_at :: "str option"
  ce_created_at :: str
  ce_updated_at :: str

definition sqlite_lex_to_rfc3339_opt :: "Env \<Rightarrow> str \<Rightarrow> str option" where
  "sqlite_lex_to_rfc3339_opt env s = map_option (en_rfc3339 env) (en_parse_lex env s)"

definition sqlite_lex_to_rfc3339_or_pass :: "Env \<Rightarrow> str \<Rightarrow> str" where
  "sqlite_lex_to_rfc3339_or_pass env s = (case sqlite_lex_to_rfc3339_opt env s of Some t \<Rightarrow> t | None \<Rightarrow> s)"

definition clamp_u32 :: "int \<Rightarrow> nat" where "clamp_u32 i = as_u32 (max i 0)"

definition cron_to_wire :: "Env \<Rightarrow> Cron \<Rightarrow> CronEntry" where
  "cron_to_wire env c = \<lparr> ce_id = cr_id c, ce_name = cr_name c, ce_enabled = (cr_enabled c \<noteq> 0),
     ce_project_id = cr_project_id c, ce_backend = cr_backend_id c,
     ce_spawn_args = (case en_json env (cr_spawn_args c) of Some v \<Rightarrow> v | None \<Rightarrow> lit ''{}''),
     ce_prompt = cr_prompt c, ce_cron_expr = cr_cron_expr c, ce_tz = cr_tz c, ce_catchup_mode = cr_catchup_mode c,
     ce_max_concurrent_runs = clamp_u32 (cr_max_concurrent_runs c),
     ce_max_runs_per_day = clamp_u32 (cr_max_runs_per_day c), ce_max_runtime_s = clamp_u32 (cr_max_runtime_s c),
     ce_cost_budget = cr_cost_budget c, ce_failure_backoff = cr_failure_backoff c,
     ce_pause_on_failures = clamp_u32 (cr_pause_on_failures c),
     ce_consecutive_failures = clamp_u32 (cr_consecutive_failures c),
     ce_last_fired_at = Option.bind (cr_last_fired_at c) (sqlite_lex_to_rfc3339_opt env),
     ce_next_fire_at = Option.bind (cr_next_fire_at c) (sqlite_lex_to_rfc3339_opt env),
     ce_created_at = sqlite_lex_to_rfc3339_or_pass env (cr_created_at c),
     ce_updated_at = sqlite_lex_to_rfc3339_or_pass env (cr_updated_at c) \<rparr>"

record RunEntry =
  re_id :: str
  re_cron_id :: "str option"
  re_session_id :: "str option"
  re_scheduled_at :: str
  re_started_at :: "str option"
  re_finished_at :: "str option"
  re_status :: str
  re_exit_code :: "int option"
  re_coalesced_count :: nat
  re_cost_usd_est :: "f64 option"
  re_error_kind :: "str option"
  re_error_detail :: "str option"

definition run_to_wire :: "Env \<Rightarrow> RunRecord \<Rightarrow> RunEntry" where
  "run_to_wire env r = \<lparr> re_id = rr_id r, re_cron_id = rr_cron_id r, re_session_id = rr_session_id r,
     re_scheduled_at = sqlite_lex_to_rfc3339_or_pass env (rr_scheduled_at r),
     re_started_at = Option.bind (rr_started_at r) (sqlite_lex_to_rfc3339_opt env),
     re_finished_at = Option.bind (rr_finished_at r) (sqlite_lex_to_rfc3339_opt env),
     re_status = rr_status r, re_exit_code = rr_exit_code r,
     re_coalesced_count = clamp_u32 (rr_coalesced_count r), re_cost_usd_est = rr_cost_usd_est r,
     re_error_kind = rr_error_kind r, re_error_detail = rr_error_detail r \<rparr>"

section \<open>Reading\<close>

definition from_db :: "(Db \<Rightarrow> (StorageError + 'a) \<times> Db) \<Rightarrow> Db \<Rightarrow> (RpcError + 'a) \<times> Db" where
  "from_db f db = apfst (map_sum storage_to_rpc (\<lambda>a. a)) (f db)"

definition shows_cron :: "str option \<Rightarrow> bool \<Rightarrow> Cron \<Rightarrow> bool" where
  "shows_cron project include_disabled c \<longleftrightarrow>
     (case project of None \<Rightarrow> True | Some p \<Rightarrow> cr_project_id c = p) \<and> (include_disabled \<or> cr_enabled c \<noteq> 0)"

definition handle_crons_list :: "Env \<Rightarrow> str option \<Rightarrow> bool \<Rightarrow> Db \<Rightarrow> (RpcError + CronEntry list) \<times> Db" where
  "handle_crons_list env project include_disabled db =
     (case from_db cron_list db of
        (Inl e, db) \<Rightarrow> (Inl e, db)
      | (Inr cs, db) \<Rightarrow> (Inr (map (cron_to_wire env) (filter (shows_cron project include_disabled) cs)), db))"

definition handle_crons_get :: "Env \<Rightarrow> str \<Rightarrow> Db \<Rightarrow> (RpcError + CronEntry) \<times> Db" where
  "handle_crons_get env k db =
     (case from_db (cron_get k) db of
        (Inl e, db) \<Rightarrow> (Inl e, db)
      | (Inr None, db) \<Rightarrow> (Inl (cron_not_found k), db)
      | (Inr (Some c), db) \<Rightarrow> (Inr (cron_to_wire env c), db))"

record RunsListParams =
  rl_cron_id :: "str option"
  rl_since :: "str option"
  rl_limit :: nat

text \<open>\<open>rfc\<close> is chrono's reading of an RFC 3339 text.\<close>

definition rfc3339_to_sqlite_lexical :: "Env \<Rightarrow> (str \<Rightarrow> instant option) \<Rightarrow> str \<Rightarrow> str" where
  "rfc3339_to_sqlite_lexical env rfc s = (case rfc s of Some t \<Rightarrow> en_format_lex env t | None \<Rightarrow> s)"

definition clamp_nat :: "nat \<Rightarrow> nat \<Rightarrow> nat \<Rightarrow> nat" where "clamp_nat lo hi n = min (max n lo) hi"

definition runs_filter :: "Env \<Rightarrow> (str \<Rightarrow> instant option) \<Rightarrow> RunsListParams \<Rightarrow> RunsListFilter" where
  "runs_filter env rfc p = \<lparr> fl_cron_id = rl_cron_id p,
     fl_since = map_option (rfc3339_to_sqlite_lexical env rfc) (rl_since p),
     fl_limit = int (clamp_nat 1 500 (rl_limit p)) \<rparr>"

definition handle_runs_list :: "Env \<Rightarrow> (str \<Rightarrow> instant option) \<Rightarrow> RunsListParams \<Rightarrow> Db \<Rightarrow> (RpcError + RunEntry list) \<times> Db" where
  "handle_runs_list env rfc p db =
     (case from_db (run_list (runs_filter env rfc p)) db of
        (Inl e, db) \<Rightarrow> (Inl e, db)
      | (Inr rs, db) \<Rightarrow> (Inr (map (run_to_wire env) rs), db))"

definition handle_runs_get :: "Env \<Rightarrow> str \<Rightarrow> Db \<Rightarrow> (RpcError + RunEntry) \<times> Db" where
  "handle_runs_get env k db =
     (case from_db (run_get k) db of
        (Inl e, db) \<Rightarrow> (Inl e, db)
      | (Inr None, db) \<Rightarrow>
          (Inl (rpc_error (rpc_code Wire_Errors.SessionNotFound) (lit ''run '' @ k @ lit '' not found'')), db)
      | (Inr (Some r), db) \<Rightarrow> (Inr (run_to_wire env r), db))"

section \<open>Changing crons\<close>

record CronsUpsertParams =
  up_id :: "str option"
  up_name :: str
  up_project_id :: str
  up_backend :: str
  up_spawn_args :: str
  up_prompt :: str
  up_cron_expr :: str
  up_tz :: str
  up_catchup_mode :: str
  up_max_concurrent_runs :: nat
  up_max_runs_per_day :: nat
  up_max_runtime_s :: nat
  up_cost_budget :: "f64 option"
  up_failure_backoff :: str
  up_pause_on_failures :: nat

text \<open>What serde fills in for the fields that a client left out.\<close>

definition upsert_defaults :: "str \<Rightarrow> str \<Rightarrow> str \<Rightarrow> str \<Rightarrow> str \<Rightarrow> CronsUpsertParams" where
  "upsert_defaults name project backend prompt expr = \<lparr> up_id = None, up_name = name, up_project_id = project,
     up_backend = backend, up_spawn_args = lit ''null'', up_prompt = prompt, up_cron_expr = expr, up_tz = lit ''UTC'',
     up_catchup_mode = lit ''coalesce'', up_max_concurrent_runs = 1, up_max_runs_per_day = 24,
     up_max_runtime_s = 1800, up_cost_budget = None, up_failure_backoff = lit ''expo(1m,2,1h)'',
     up_pause_on_failures = 5 \<rparr>"

definition upsert_of :: "str \<Rightarrow> Cron option \<Rightarrow> CronsUpsertParams \<Rightarrow> CronUpsert" where
  "upsert_of k existing p = \<lparr> cu_id = k, cu_name = up_name p, cu_enabled = False, cu_project_id = up_project_id p,
     cu_backend_id = up_backend p, cu_spawn_args = up_spawn_args p, cu_prompt = up_prompt p,
     cu_cron_expr = up_cron_expr p, cu_tz = up_tz p, cu_catchup_mode = up_catchup_mode p,
     cu_max_concurrent_runs = int (up_max_concurrent_runs p), cu_max_runs_per_day = int (up_max_runs_per_day p),
     cu_max_runtime_s = int (up_max_runtime_s p), cu_cost_budget = up_cost_budget p,
     cu_failure_backoff = up_failure_backoff p, cu_pause_on_failures = int (up_pause_on_failures p),
     cu_consecutive_failures = (case existing of Some c \<Rightarrow> cr_consecutive_failures c | None \<Rightarrow> 0),
     cu_last_fired_at = Option.bind existing cr_last_fired_at, cu_next_fire_at = None \<rparr>"

record CronsUpsertResult =
  ur_cron :: CronEntry
  ur_requires_reconfirmation :: bool

definition handle_crons_upsert :: "Env \<Rightarrow> (str \<Rightarrow> str) \<Rightarrow> (str \<Rightarrow> bool) \<Rightarrow> instant \<Rightarrow> str \<Rightarrow> CronsUpsertParams \<Rightarrow> Control
    \<Rightarrow> (RpcError + CronsUpsertResult) \<times> Control" where
  "handle_crons_upsert env shown registered now new_id p st =
     (if \<not> registered (up_backend p)
      then (Inl (rpc_error (rpc_code AdapterNotInstalled)
              (lit ''backend '' @ shown (up_backend p) @ lit '' not registered'')), st)
      else let k = (case up_id p of Some k \<Rightarrow> k | None \<Rightarrow> new_id) in
        (case from_db (cron_get k) (ct_db st) of
           (Inl e, db) \<Rightarrow> (Inl e, st\<lparr> ct_db := db \<rparr>)
         | (Inr existing, db) \<Rightarrow>
             (case control_upsert env now (upsert_of k existing p) (st\<lparr> ct_db := db \<rparr>) of
                (Inl e, st) \<Rightarrow> (Inl (cron_control_to_rpc shown e), st)
              | (Inr r, st) \<Rightarrow> (Inr \<lparr> ur_cron = cron_to_wire env (uo_cron r),
                    ur_requires_reconfirmation = uo_requires_reconfirmation r \<rparr>, st))))"

definition handle_crons_delete :: "Env \<Rightarrow> (str \<Rightarrow> str) \<Rightarrow> instant \<Rightarrow> str \<Rightarrow> Control \<Rightarrow> (RpcError + bool) \<times> Control" where
  "handle_crons_delete env shown now k st = apfst (map_sum (cron_control_to_rpc shown) (\<lambda>b. b)) (control_delete env now k st)"

record CronEnableConfirmation =
  ec_confirmation_token :: str
  ec_prompt_preview :: str
  ec_next_fire_at :: "str option"
  ec_daily_cost_budget :: "str option"

record CronsSetEnabledResult =
  se_cron :: CronEntry
  se_requires_confirmation :: "CronEnableConfirmation option"

definition set_enabled_reply :: "Env \<Rightarrow> SetEnabledOutcome \<Rightarrow> CronsSetEnabledResult" where
  "set_enabled_reply env r = (case r of
       Applied c \<Rightarrow> \<lparr> se_cron = cron_to_wire env c, se_requires_confirmation = None \<rparr>
     | NeedsConfirmation c token s \<Rightarrow> \<lparr> se_cron = cron_to_wire env c,
         se_requires_confirmation = Some \<lparr> ec_confirmation_token = token, ec_prompt_preview = cs_prompt_preview s,
           ec_next_fire_at = cs_next_fire_at s, ec_daily_cost_budget = cs_budget s \<rparr> \<rparr>)"

definition handle_crons_set_enabled :: "Env \<Rightarrow> (str \<Rightarrow> str) \<Rightarrow> instant \<Rightarrow> str option \<Rightarrow> nat \<Rightarrow> str \<Rightarrow> bool \<Rightarrow> str option \<Rightarrow> Control
    \<Rightarrow> (RpcError + CronsSetEnabledResult) \<times> Control" where
  "handle_crons_set_enabled env shown now rnd mnow k en token st =
     apfst (map_sum (cron_control_to_rpc shown) (set_enabled_reply env)) (control_set_enabled env now rnd k en token mnow st)"

record CronsRunNowResult =
  rn_admitted :: bool
  rn_run_id :: "str option"
  rn_refused :: "str option"

definition run_now_reply :: "RunNowOutcome \<Rightarrow> CronsRunNowResult" where
  "run_now_reply r = (case r of
       Admitted run_id \<Rightarrow> \<lparr> rn_admitted = True, rn_run_id = Some run_id, rn_refused = None \<rparr>
     | Refused reason _ \<Rightarrow> \<lparr> rn_admitted = False, rn_run_id = None, rn_refused = Some reason \<rparr>)"

definition handle_crons_run_now :: "Env \<Rightarrow> (str \<Rightarrow> str) \<Rightarrow> GlobalQuota \<Rightarrow> World \<Rightarrow> str \<Rightarrow> Exec
    \<Rightarrow> ((RpcError + CronsRunNowResult) \<times> Exec) option" where
  "handle_crons_run_now env shown g w k ex =
     map_option (apfst (map_sum (cron_op_to_rpc shown) run_now_reply)) (run_now env g w k ex)"

definition handle_crons_dry_run :: "Env \<Rightarrow> (str \<Rightarrow> str) \<Rightarrow> instant \<Rightarrow> str \<Rightarrow> str \<Rightarrow> nat \<Rightarrow> RpcError + str list" where
  "handle_crons_dry_run env shown now expr zone n =
     map_sum (cron_op_to_rpc shown) (map (en_rfc3339 env)) (dry_run_fires env now expr zone (clamp_nat 1 20 n))"

end
