(* ===== verification/Cron_Request_Properties.thy ===== *)
theory Cron_Request_Properties
  imports Cron_Requests
begin

text \<open>
  What the requests about crons promise: what a client stored it gets back, an edit hides the next
  fire, and a preview lists the fires to come.
\<close>

section \<open>Storing a cron\<close>

lemma from_db_Inr: "from_db f db = (Inr a, db') \<longleftrightarrow> f db = (Inr a, db')"
  by (cases "f db"; cases "fst (f db)") (auto simp: from_db_def)

lemma control_upsert_Inr:
  assumes "control_upsert env now u st = (Inr x, st')"
  obtains d where
    "decide_upsert_security (case row_of (ct_db st) (cu_id u) of Some c \<Rightarrow> cr_enabled c \<noteq> 0 | None \<Rightarrow> False)
       (map_option (cron_to_security_snapshot env) (row_of (ct_db st) (cu_id u))) (upsert_to_security_snapshot u) = Inr d"
    "uo_cron x = upsert_row (db_now (ct_db st)) (u\<lparr> cu_enabled := enabled_after_upsert d \<rparr>) (row_of (ct_db st) (cu_id u))"
    "row_of (ct_db st') (cu_id u) = Some (uo_cron x)"
proof -
  from assms obtain existing db where g: "cron_get (cu_id u) (ct_db st) = (Inr existing, db)"
    by (auto simp: control_upsert_def split: sum.splits prod.splits)
  note gf = cron_get_facts[OF g]
  from assms g obtain d where d: "decide_upsert_security (case existing of Some c \<Rightarrow> cr_enabled c \<noteq> 0 | None \<Rightarrow> False)
       (map_option (cron_to_security_snapshot env) existing) (upsert_to_security_snapshot u) = Inr d"
    by (auto simp: control_upsert_def split: sum.splits prod.splits)
  from assms g d obtain db' where w: "cron_upsert (u\<lparr> cu_enabled := enabled_after_upsert d \<rparr>) db = (Inr (uo_cron x), db')"
    and s: "ct_db st' = db'"
    by (auto simp: control_upsert_def split: sum.splits prod.splits)
  show thesis using that d gf upsert_facts[OF w] s by auto
qed

lemma upsert_reply:
  assumes "handle_crons_upsert env shown registered now new_id p st = (Inr r, st')"
    and "k = (case up_id p of Some k \<Rightarrow> k | None \<Rightarrow> new_id)"
  obtains c d where "row_of (ct_db st') k = Some c" "ur_cron r = cron_to_wire env c"
    "c = upsert_row (db_now (ct_db st)) ((upsert_of k (row_of (ct_db st) k) p)\<lparr> cu_enabled := enabled_after_upsert d \<rparr>)
       (row_of (ct_db st) k)"
    "decide_upsert_security (case row_of (ct_db st) k of Some c \<Rightarrow> cr_enabled c \<noteq> 0 | None \<Rightarrow> False)
       (map_option (cron_to_security_snapshot env) (row_of (ct_db st) k))
       (upsert_to_security_snapshot (upsert_of k (row_of (ct_db st) k) p)) = Inr d"
proof -
  from assms obtain existing db x where g: "cron_get k (ct_db st) = (Inr existing, db)"
    and u: "control_upsert env now (upsert_of k existing p) (st\<lparr> ct_db := db \<rparr>) = (Inr x, st')"
    and r: "ur_cron r = cron_to_wire env (uo_cron x)"
    by (auto simp: handle_crons_upsert_def Let_def from_db_Inr split: if_splits sum.splits prod.splits option.splits)
  have e: "existing = row_of (ct_db st) k" and db: "db = adv (ct_db st)" using cron_get_facts[OF g] by auto
  have k: "cu_id (upsert_of k y p) = k" for y by (simp add: upsert_of_def)
  obtain d where "decide_upsert_security (case row_of (ct_db st) k of Some c \<Rightarrow> cr_enabled c \<noteq> 0 | None \<Rightarrow> False)
       (map_option (cron_to_security_snapshot env) (row_of (ct_db st) k))
       (upsert_to_security_snapshot (upsert_of k (row_of (ct_db st) k) p)) = Inr d"
    "uo_cron x = upsert_row (db_now (ct_db st)) ((upsert_of k (row_of (ct_db st) k) p)\<lparr> cu_enabled := enabled_after_upsert d \<rparr>)
       (row_of (ct_db st) k)"
    "row_of (ct_db st') k = Some (uo_cron x)"
    using control_upsert_Inr[OF u] by (auto simp: k e db)
  then show thesis using that r by metis
qed

text \<open>The request with which a client would store what it was shown.\<close>

definition as_request :: "CronEntry \<Rightarrow> CronsUpsertParams" where
  "as_request e = \<lparr> up_id = Some (ce_id e), up_name = ce_name e, up_project_id = ce_project_id e, up_backend = ce_backend e,
     up_spawn_args = ce_spawn_args e, up_prompt = ce_prompt e, up_cron_expr = ce_cron_expr e, up_tz = ce_tz e,
     up_catchup_mode = ce_catchup_mode e, up_max_concurrent_runs = ce_max_concurrent_runs e,
     up_max_runs_per_day = ce_max_runs_per_day e, up_max_runtime_s = ce_max_runtime_s e,
     up_cost_budget = ce_cost_budget e, up_failure_backoff = ce_failure_backoff e,
     up_pause_on_failures = ce_pause_on_failures e \<rparr>"

text \<open>A request as it comes off the wire: numbers of 32 bits, no NaN, and arguments in the form that
  serde_json prints.\<close>

definition from_wire :: "Env \<Rightarrow> CronsUpsertParams \<Rightarrow> bool" where
  "from_wire env p \<longleftrightarrow> up_max_concurrent_runs p < 2 ^ 32 \<and> up_max_runs_per_day p < 2 ^ 32 \<and> up_max_runtime_s p < 2 ^ 32
     \<and> up_pause_on_failures p < 2 ^ 32 \<and> up_cost_budget p \<noteq> Some NaN \<and> en_json env (up_spawn_args p) = Some (up_spawn_args p)"

lemma clamp_u32_int: "n < 2 ^ 32 \<Longrightarrow> clamp_u32 (int n) = n"
  by (simp add: clamp_u32_def as_u32_def)

lemma wire_fields:
  assumes "from_wire env p" "e = cron_to_wire env (upsert_row t ((upsert_of k old p)\<lparr> cu_enabled := b \<rparr>) old')"
  shows "ce_id e = k" "ce_name e = up_name p" "ce_project_id e = up_project_id p" "ce_backend e = up_backend p"
    "ce_spawn_args e = up_spawn_args p" "ce_prompt e = up_prompt p" "ce_cron_expr e = up_cron_expr p" "ce_tz e = up_tz p"
    "ce_catchup_mode e = up_catchup_mode p" "ce_max_concurrent_runs e = up_max_concurrent_runs p"
    "ce_max_runs_per_day e = up_max_runs_per_day p" "ce_max_runtime_s e = up_max_runtime_s p"
    "ce_cost_budget e = up_cost_budget p" "ce_failure_backoff e = up_failure_backoff p"
    "ce_pause_on_failures e = up_pause_on_failures p"
  using assms(1) unfolding assms(2) from_wire_def cron_to_wire_def upsert_row_def upsert_of_def
  by (simp_all add: sql_real_def clamp_u32_int)

lemma upsert_row_wire:
  assumes "from_wire env p"
  shows "as_request (cron_to_wire env (upsert_row t ((upsert_of k old p)\<lparr> cu_enabled := b \<rparr>) old')) = p\<lparr> up_id := Some k \<rparr>"
proof -
  define e where "e = cron_to_wire env (upsert_row t ((upsert_of k old p)\<lparr> cu_enabled := b \<rparr>) old')"
  note w = wire_fields[OF assms e_def]
  have "as_request e = p\<lparr> up_id := Some k \<rparr>"
    by (rule CronsUpsertParams.equality) (simp_all add: as_request_def w)
  then show ?thesis by (simp add: e_def)
qed

text \<open>C36. What a client stored it gets back: after crons.upsert answered, crons.get of the cron
  answers with the same entry, from which the request can be read off, and the count of
  consecutive failures is the one of the row before.\<close>

theorem stored_cron_is_read_back:
  assumes "handle_crons_upsert env shown registered now new_id p st = (Inr r, st')" "from_wire env p"
    "k = (case up_id p of Some k \<Rightarrow> k | None \<Rightarrow> new_id)" "handle_crons_get env k (ct_db st') = (Inr e, db)"
  shows "e = ur_cron r \<and> as_request e = p\<lparr> up_id := Some k \<rparr>
    \<and> ce_consecutive_failures e = (case map_of (db_crons (ct_db st)) k of Some c \<Rightarrow> clamp_u32 (cr_consecutive_failures c) | None \<Rightarrow> 0)"
proof -
  obtain c and d :: UpsertSecurityDecision where c: "row_of (ct_db st') k = Some c" "ur_cron r = cron_to_wire env c"
    "c = upsert_row (db_now (ct_db st)) ((upsert_of k (row_of (ct_db st) k) p)\<lparr> cu_enabled := enabled_after_upsert d \<rparr>)
       (row_of (ct_db st) k)"
    by (rule upsert_reply[OF assms(1,3)]) (rule that, assumption+)
  have "e = cron_to_wire env c"
    using assms(4) c(1) by (auto simp: handle_crons_get_def from_db_Inr dest!: cron_get_facts split: sum.splits prod.splits option.splits)
  moreover have "ce_consecutive_failures (cron_to_wire env c)
      = (case row_of (ct_db st) k of Some c \<Rightarrow> clamp_u32 (cr_consecutive_failures c) | None \<Rightarrow> 0)"
    by (simp add: c(3) cron_to_wire_def upsert_row_def upsert_of_def clamp_u32_def as_u32_def split: option.split)
  ultimately show ?thesis using upsert_row_wire[OF assms(2)] c(2,3) by simp
qed

text \<open>An edit hides the next fire.  The row that crons.upsert writes never has a next fire; if
  the cron was enabled and no sensitive field changes, it stays enabled and scheduled, so
  clients see an enabled cron that is never to fire until it has fired.\<close>

theorem edit_hides_next_fire:
  assumes "handle_crons_upsert env shown registered now new_id p st = (Inr r, st')" "up_id p = Some k"
  shows "ce_next_fire_at (ur_cron r) = None
    \<and> (\<forall>c. map_of (db_crons (ct_db st)) k = Some c \<longrightarrow> cr_enabled c \<noteq> 0
        \<longrightarrow> changed_sensitive_fields (cron_to_security_snapshot env c) (upsert_to_security_snapshot (upsert_of k (Some c) p)) = []
        \<longrightarrow> ce_enabled (ur_cron r))"
proof -
  obtain c d where c: "ur_cron r = cron_to_wire env c"
    "c = upsert_row (db_now (ct_db st)) ((upsert_of k (row_of (ct_db st) k) p)\<lparr> cu_enabled := enabled_after_upsert d \<rparr>)
       (row_of (ct_db st) k)"
    "decide_upsert_security (case row_of (ct_db st) k of Some c \<Rightarrow> cr_enabled c \<noteq> 0 | None \<Rightarrow> False)
       (map_option (cron_to_security_snapshot env) (row_of (ct_db st) k))
       (upsert_to_security_snapshot (upsert_of k (row_of (ct_db st) k) p)) = Inr d"
    by (rule upsert_reply[OF assms(1), of k]) (simp add: assms(2))
  have "ce_next_fire_at (ur_cron r) = None"
    by (simp add: c(1,2) cron_to_wire_def upsert_row_def upsert_of_def)
  moreover have "ce_enabled (ur_cron r)" if "row_of (ct_db st) k = Some c0" "cr_enabled c0 \<noteq> 0"
      "changed_sensitive_fields (cron_to_security_snapshot env c0) (upsert_to_security_snapshot (upsert_of k (Some c0) p)) = []" for c0
    using c(3) that by (auto simp: c(1,2) cron_to_wire_def decide_upsert_security_def bind_result_def split: sum.splits)
  ultimately show ?thesis by blast
qed

section \<open>The preview\<close>

lemma dry_run_loop_take:
  assumes "schedule_ok spec"
  shows "dry_run_loop spec n t = take n (fires_after spec t)"
proof (induction n arbitrary: t)
  case (Suc n)
  show ?case
  proof (cases "next_after spec t")
    case None
    then show ?thesis by (simp add: next_after_alt split: list.splits)
  next
    case (Some f)
    then show ?thesis using Suc.IH[of f] by (simp add: fires_after_next[OF assms Some])
  qed
qed simp

text \<open>C37. A preview is what the scheduler will do: crons.dry_run answers with the first fires after
  now, in order and none left out, between one and twenty as asked for, and an expression that
  crons.upsert would refuse is refused.\<close>

theorem dry_run_previews_fires:
  assumes "parse_spec (en_schedule env) (en_tz env) expr zone = Inr spec" "schedule_ok spec"
  shows "handle_crons_dry_run env shown now expr zone n
    = Inr (map (en_rfc3339 env) (preview spec now (min (max n 1) 20)))"
  by (simp add: handle_crons_dry_run_def dry_run_fires_def assms(1) dry_run_loop_take[OF assms(2)] clamp_nat_def preview_def)


section \<open>The statements at work\<close>

definition nightly :: CronsUpsertParams where
  "nightly = (upsert_defaults (lit ''nightly'') (lit ''p1'') (lit ''b1'') (lit ''run'') (lit ''0 2 * * *''))
     \<lparr> up_id := Some (lit ''c1''), up_spawn_args := lit ''{}'' \<rparr>"

definition empty_control :: Control where
  "empty_control = \<lparr> ct_db = empty_db [lit ''b1''] [(lit ''p1'', lit ''/w'')], ct_tokens = [], ct_heap = ct_heap demo_control \<rparr>"

lemma nightly_stored:
  "\<exists>r st'. handle_crons_upsert demo_env (\<lambda>x. x) (\<lambda>_. True) 0 [] nightly empty_control = (Inr r, st')
     \<and> db_io (ct_db st') = [] \<and> ce_name (ur_cron r) = lit ''nightly''"
proof -
  obtain spec where p: "parse_spec (en_schedule demo_env) (en_tz demo_env) (lit ''0 2 * * *'') (lit ''UTC'') = Inr spec"
    using parse_demo by blast
  let ?u = "upsert_of (lit ''c1'') None nightly"
  have u: "?u\<lparr> cu_enabled := False \<rparr> = ?u" by (simp add: upsert_of_def)
  have d: "decide_upsert_security False None (upsert_to_security_snapshot ?u)
      = Inr \<lparr> enabled_after_upsert = False, requires_reconfirmation = False, changed_fields = [] \<rparr>"
    by (simp add: decide_upsert_security_def validate_def upsert_of_def nightly_def upsert_defaults_def
        upsert_to_security_snapshot_def str_len_def lit_def utf8_width_def MAX_PROMPT_BYTES_def)
  obtain c db' where w: "cron_upsert ?u (empty_db [lit ''b1''] [(lit ''p1'', lit ''/w'')]) = (Inr c, db')"
      "db_io db' = []" "cr_name c = lit ''nightly''" "cr_enabled c = 0"
    by (simp add: cron_upsert_def cron_get_def empty_db_def upsert_of_def nightly_def upsert_defaults_def upsert_row_def
        cron_checks_def Let_def run_stmt_def stmt_def sql_real_def)
  have ids: "cu_cron_expr ?u = lit ''0 2 * * *''" "cu_tz ?u = lit ''UTC''" "cu_id ?u = lit ''c1''"
    "up_id nightly = Some (lit ''c1'')" by (simp_all add: upsert_of_def nightly_def upsert_defaults_def)
  have g: "cron_get (lit ''c1'') (empty_db [lit ''b1''] [(lit ''p1'', lit ''/w'')]) = (Inr None, empty_db [lit ''b1''] [(lit ''p1'', lit ''/w'')])"
    by (simp add: cron_get_def empty_db_def run_stmt_def stmt_def)
  show ?thesis
    by (simp add: handle_crons_upsert_def empty_control_def ids from_db_def g control_upsert_def p d u w reconcile_def
        cron_to_wire_def)
qed

lemma nightly_from_wire: "from_wire demo_env nightly"
  by (simp add: from_wire_def nightly_def upsert_defaults_def demo_env_def)

lemma stored_cron_is_read_back_witness:
  "\<exists>r st' e db. handle_crons_upsert demo_env (\<lambda>x. x) (\<lambda>_. True) 0 [] nightly empty_control = (Inr r, st')
     \<and> handle_crons_get demo_env (lit ''c1'') (ct_db st') = (Inr e, db) \<and> as_request e = nightly"
proof -
  obtain r st' where s: "handle_crons_upsert demo_env (\<lambda>x. x) (\<lambda>_. True) 0 [] nightly empty_control = (Inr r, st')"
    "db_io (ct_db st') = []" using nightly_stored by blast
  have k: "up_id nightly = Some (lit ''c1'')" "nightly\<lparr> up_id := Some (lit ''c1'') \<rparr> = nightly" by (simp_all add: nightly_def)
  have k1: "lit ''c1'' = (case up_id nightly of Some k \<Rightarrow> k | None \<Rightarrow> [])" by (simp add: k)
  obtain c where "row_of (ct_db st') (lit ''c1'') = Some c" by (rule upsert_reply[OF s(1) k1])
  then obtain e db where g: "handle_crons_get demo_env (lit ''c1'') (ct_db st') = (Inr e, db)"
    using s(2) by (simp add: handle_crons_get_def from_db_def cron_get_def)
  show ?thesis using stored_cron_is_read_back[OF s(1) nightly_from_wire k1 g] s(1) g by (auto simp: k)
qed

definition enabled_control :: Control where
  "enabled_control = \<lparr> ct_db = demo_db\<lparr> db_crons := [(lit ''c1'', demo_row 1)] \<rparr>, ct_tokens = [], ct_heap = ct_heap demo_control \<rparr>"

definition renamed :: CronsUpsertParams where
  "renamed = (as_request (cron_to_wire demo_env (demo_row 1)))\<lparr> up_name := lit ''weekly'' \<rparr>"

lemma renamed_stored:
  "\<exists>r st'. handle_crons_upsert demo_env (\<lambda>x. x) (\<lambda>_. True) 0 [] renamed enabled_control = (Inr r, st')"
proof -
  let ?db = "demo_db\<lparr> db_crons := [(lit ''c1'', demo_row 1)] \<rparr>" and ?u = "upsert_of (lit ''c1'') (Some (demo_row 1)) renamed"
  obtain spec where p: "parse_spec (en_schedule demo_env) (en_tz demo_env) (lit ''0 2 * * *'') (lit ''UTC'') = Inr spec"
    using parse_demo by blast
  have d: "decide_upsert_security True (Some (cron_to_security_snapshot demo_env (demo_row 1))) (upsert_to_security_snapshot ?u)
      = Inr \<lparr> enabled_after_upsert = True, requires_reconfirmation = False, changed_fields = [] \<rparr>"
    by (simp add: decide_upsert_security_def validate_def upsert_of_def renamed_def as_request_def cron_to_wire_def demo_row_def
        demo_upsert_def upsert_row_def demo_env_def clamp_u32_int clamp_u32_def as_u32_def cron_to_security_snapshot_def
        changed_sensitive_fields_def f64_opt_ne_def sql_real_def
        upsert_to_security_snapshot_def str_len_def lit_def utf8_width_def MAX_PROMPT_BYTES_def)
  obtain c db' where w: "cron_upsert (?u\<lparr> cu_enabled := True \<rparr>) ?db = (Inr c, db')" "cr_enabled c = 1" "cr_last_fired_at c = None"
    by (simp add: demo_db_def cron_upsert_def cron_get_def empty_db_def upsert_of_def renamed_def as_request_def cron_to_wire_def
        demo_row_def demo_upsert_def upsert_row_def demo_env_def clamp_u32_def as_u32_def
        cron_checks_def Let_def run_stmt_def stmt_def sql_real_def)
  have ids: "cu_cron_expr ?u = lit ''0 2 * * *''" "cu_tz ?u = lit ''UTC''" "cu_id ?u = lit ''c1''"
    "up_id renamed = Some (lit ''c1'')" "cr_enabled (demo_row 1) = 1"
    by (simp_all add: upsert_of_def renamed_def as_request_def cron_to_wire_def demo_row_def demo_upsert_def upsert_row_def)
  have g: "cron_get (lit ''c1'') ?db = (Inr (Some (demo_row 1)), ?db)"
    using demo_db_facts(2) by (simp add: cron_get_def run_stmt_def stmt_def)
  have h: "\<exists>v h'. handle_upsert ch 0 k spec mode i None (ct_heap demo_control) = (Inr v, h')" for ch k mode i
    by (simp add: handle_upsert_def handle_call_def demo_control_def apply_command_def install_entry_def Let_def split: prod.split)
  have "\<exists>h'. reconcile demo_env 0 spec mode c (ct_heap demo_control) = (Inr (), h')" for mode
    using h[of "en_chrono demo_env" "cr_id c" mode REPLAY_INTERVAL_FLOOR] by (auto simp: reconcile_def w)
  then obtain h' where "reconcile demo_env 0 spec (catchup_mode_from_str (cu_catchup_mode ?u)) c (ct_heap demo_control) = (Inr (), h')"
    by blast
  then show ?thesis
    by (simp add: handle_crons_upsert_def enabled_control_def ids from_db_def g control_upsert_def p d w)
qed

lemma edit_hides_next_fire_witness:
  "\<exists>r st'. handle_crons_upsert demo_env (\<lambda>x. x) (\<lambda>_. True) 0 [] renamed enabled_control = (Inr r, st')
     \<and> ce_enabled (ur_cron r) \<and> ce_next_fire_at (ur_cron r) = None"
proof -
  obtain r st' where s: "handle_crons_upsert demo_env (\<lambda>x. x) (\<lambda>_. True) 0 [] renamed enabled_control = (Inr r, st')"
    using renamed_stored by blast
  have k: "up_id renamed = Some (lit ''c1'')"
    by (simp add: renamed_def as_request_def cron_to_wire_def demo_row_def demo_upsert_def upsert_row_def)
  have "row_of (ct_db enabled_control) (lit ''c1'') = Some (demo_row 1)" "cr_enabled (demo_row 1) \<noteq> 0"
    by (simp_all add: enabled_control_def demo_row_def)
  moreover have "changed_sensitive_fields (cron_to_security_snapshot demo_env (demo_row 1))
      (upsert_to_security_snapshot (upsert_of (lit ''c1'') (Some (demo_row 1)) renamed)) = []"
    by (simp add: upsert_of_def renamed_def as_request_def cron_to_wire_def demo_row_def
        demo_upsert_def upsert_row_def demo_env_def clamp_u32_def as_u32_def cron_to_security_snapshot_def
        changed_sensitive_fields_def f64_opt_ne_def sql_real_def upsert_to_security_snapshot_def)
  ultimately show ?thesis using edit_hides_next_fire[OF s k] s by blast
qed

lemma dry_run_previews_fires_witness:
  "handle_crons_dry_run demo_env (\<lambda>x. x) 0 (lit ''0 2 * * *'') (lit ''UTC'') 2 = Inr [[], []]"
proof -
  obtain spec where p: "parse_spec (en_schedule demo_env) (en_tz demo_env) (lit ''0 2 * * *'') (lit ''UTC'') = Inr spec"
    "schedule spec = schedule half_hours" "tz spec = fallback_zone"
    by (simp add: demo_env_def parse_spec_def normalise_expr_def lit_def split_ws_def is_ws_def trim_def
      trim_start_def trim_end_def Let_def bind_result_def)
  have ok: "schedule_ok spec" using half_hours_ok p(2,3) by (simp add: schedule_ok_def half_hours_def)
  have "length (preview spec 0 2) = 2"
    by (simp add: preview_def p(2,3) half_hours_def fallback_zone_def is_first_local_occurrence_def naive_local_def upto.simps)
  then show ?thesis
    using dry_run_previews_fires[OF p(1) ok, of "\<lambda>x. x" 0 2]
    by (simp add: demo_env_def map_replicate_const numeral_2_eq_2)
qed

end
