(* ===== verification/Utc_Clock.thy ===== *)
theory Utc_Clock
  imports Prelude
begin

text \<open>
  The clock of the worktree requests: \<open>rfc3339_now\<close> and \<open>unix_to_ymd_hms\<close> of
  \<open>la-daemon/src/dispatcher.rs\<close>, against a calendar that counts day by day.
\<close>

section \<open>The conversion\<close>

definition as_i32 :: "int \<Rightarrow> int" where "as_i32 x = (x + 2 ^ 31) mod 2 ^ 32 - 2 ^ 31"

text \<open>The days since 1970-01-01 as year, month and day; Rust's division rounds towards zero.\<close>

definition year_of_era :: "int \<Rightarrow> int" where
  "year_of_era doe = (doe - doe div 1460 + doe div 36524 - doe div 146096) div 365"

definition civil_from_days :: "int \<Rightarrow> int \<times> int \<times> int" where
  "civil_from_days total_days =
     (let z = total_days + 719468;
          era = (if z \<ge> 0 then z div 146097 else - ((146096 - z) div 146097));
          doe = z - era * 146097;
          yoe = year_of_era doe;
          y = yoe + era * 400;
          doy = doe - (365 * yoe + yoe div 4 - yoe div 100);
          mp = (5 * doy + 2) div 153;
          d = doy - (153 * mp + 2) div 5 + 1;
          m = (if mp < 10 then mp + 3 else mp - 9)
      in (as_i32 (y + (if m \<le> 2 then 1 else 0)), m, d))"

definition unix_to_ymd_hms :: "nat \<Rightarrow> (int \<times> int \<times> int) \<times> nat \<times> nat \<times> nat" where
  "unix_to_ymd_hms secs =
     (let sod = secs mod 86400
      in (civil_from_days (int (secs div 86400)), sod div 3600, (sod mod 3600) div 60, sod mod 60))"

definition zero_pad :: "nat \<Rightarrow> str \<Rightarrow> str" where
  "zero_pad w s = replicate (w - length s) 48 @ s"

definition show_signed :: "nat \<Rightarrow> int \<Rightarrow> str" where
  "show_signed w i = (if i < 0 then 45 # zero_pad (w - 1) (show_nat (nat (- i))) else zero_pad w (show_nat (nat i)))"

definition rfc3339_now :: "nat \<Rightarrow> str" where
  "rfc3339_now secs = (case unix_to_ymd_hms secs of ((y, m, d), h, mi, s) \<Rightarrow>
     show_signed 4 y @ 45 # show_signed 2 m @ 45 # show_signed 2 d @ 84 # zero_pad 2 (show_nat h)
       @ 58 # zero_pad 2 (show_nat mi) @ 58 # zero_pad 2 (show_nat s) @ [90])"

section \<open>The calendar\<close>

definition leap :: "int \<Rightarrow> bool" where
  "leap y \<longleftrightarrow> y mod 4 = 0 \<and> (y mod 100 \<noteq> 0 \<or> y mod 400 = 0)"

definition month_days :: "int \<Rightarrow> int \<Rightarrow> int" where
  "month_days y m = (if m = 2 then if leap y then 29 else 28 else if m \<in> {4, 6, 9, 11} then 30 else 31)"

fun next_day :: "int \<times> int \<times> int \<Rightarrow> int \<times> int \<times> int" where
  "next_day (y, m, d) =
     (if d < month_days y m then (y, m, d + 1) else if m < 12 then (y, m + 1, 1) else (y + 1, 1, 1))"

section \<open>Years that begin in March\<close>

definition days_before :: "int \<Rightarrow> int" where
  "days_before y = 365 * y + y div 4 - y div 100 + y div 400"

lemma div_is: "0 < (b :: int) \<Longrightarrow> b * k \<le> a \<Longrightarrow> a < b * k + b \<Longrightarrow> a div b = k"
  by (rule int_div_pos_eq[where r = "a - b * k"]) simp_all

lemma div_add_1:
  fixes y b :: int
  assumes "0 < b"
  shows "(y + 1) div b = y div b + (if b dvd y + 1 then 1 else 0)"
proof (cases "b dvd y + 1")
  case True
  then obtain k where k: "y + 1 = b * k" by (elim dvdE)
  then have "y div b = k - 1" using assms by (intro div_is) (simp_all add: right_diff_distrib)
  then show ?thesis using True k assms by simp
next
  case False
  have "(y + 1) div b = y div b"
  proof (rule div_is[OF assms])
    have y: "y = b * (y div b) + y mod b" "0 \<le> y mod b" "y mod b < b" using assms by simp_all
    moreover have "y mod b \<noteq> b - 1"
    proof
      assume "y mod b = b - 1"
      then have "y + 1 = b * (y div b + 1)" using y(1) by (simp add: distrib_left)
      then show False using False by (metis dvd_triv_left)
    qed
    ultimately show "b * (y div b) \<le> y + 1" "y + 1 < b * (y div b) + b" by linarith+
  qed
  then show ?thesis using False by simp
qed

lemma leap_dvd: "leap y \<longleftrightarrow> 4 dvd y \<and> (\<not> 100 dvd y \<or> 400 dvd y)"
  by (simp add: leap_def mod_eq_0_iff_dvd)

lemma leap_count:
  "(P400 \<longrightarrow> P100) \<Longrightarrow> (P100 \<longrightarrow> P4) \<Longrightarrow>
   365 * (y + 1) + (a + (if P4 then 1 else 0)) - (b + (if P100 then 1 else 0)) + (e + (if P400 then 1 else 0))
   = 365 * y + a - b + e + (if P4 \<and> (\<not> P100 \<or> P400) then 366 else 365 :: int)"
  by (cases P4; cases P100; cases P400) simp_all

lemma days_before_Suc: "days_before (y + 1) = days_before y + (if leap (y + 1) then 366 else 365)"
proof -
  have p1: "400 dvd y + 1 \<longrightarrow> 100 dvd y + 1" by (rule impI, rule dvd_trans[of 100 400]) simp_all
  have p2: "100 dvd y + 1 \<longrightarrow> 4 dvd y + 1" by (rule impI, rule dvd_trans[of 4 100]) simp_all
  have d: "(y + 1) div 4 = y div 4 + (if 4 dvd y + 1 then 1 else 0)"
    "(y + 1) div 100 = y div 100 + (if 100 dvd y + 1 then 1 else 0)"
    "(y + 1) div 400 = y div 400 + (if 400 dvd y + 1 then 1 else 0)" by (rule div_add_1, rule zero_less_numeral)+
  have "days_before (y + 1) = 365 * (y + 1) + (y div 4 + (if 4 dvd y + 1 then 1 else 0))
      - (y div 100 + (if 100 dvd y + 1 then 1 else 0)) + (y div 400 + (if 400 dvd y + 1 then 1 else 0))"
    unfolding days_before_def d by (rule refl)
  also have "\<dots> = days_before y + (if leap (y + 1) then 366 else 365)"
    unfolding leap_count[OF p1 p2] days_before_def leap_dvd by (rule refl)
  finally show ?thesis .
qed

lemma year_of_era_parts:
  fixes c q r doy :: int
  assumes "0 \<le> c" "c < 4" "0 \<le> q" "q < 25" "0 \<le> r" "r < 4" "0 \<le> doy"
    and "doy \<le> 364 \<or> doy = 365 \<and> r = 3 \<and> (q < 24 \<or> c = 3)"
  shows "year_of_era (36524 * c + 1461 * q + 365 * r + doy) = 100 * c + 4 * q + r"
proof -
  let ?doe = "36524 * c + 1461 * q + 365 * r + doy"
  have doy: "0 \<le> doy" "doy \<le> 365" "doy = 365 \<longrightarrow> r = 3 \<and> (q < 24 \<or> c = 3)" using assms(7,8) by auto
  have small: "1461 * q + 365 * r + doy < 36524 \<or> c = 3 \<and> q = 24 \<and> r = 3 \<and> doy = 365"
  proof (cases "doy = 365 \<and> q = 24")
    case False
    show ?thesis
    proof (cases "q < 24")
      case True
      then have "q \<le> 23" by simp
      then show ?thesis using assms(5,6) doy(1,2) by linarith
    next
      case q: False
      then have "q = 24" "doy \<noteq> 365" using False assms(4) by auto
      then have "q = 24" "doy \<le> 364" using doy(2) by linarith+
      then show ?thesis using assms(5,6) by linarith
    qed
  qed (use doy in auto)
  show ?thesis
  proof (cases "c = 3 \<and> q = 24 \<and> r = 3 \<and> doy = 365")
    case True
    then show ?thesis by (simp add: year_of_era_def)
  next
    case False
    then have small: "1461 * q + 365 * r + doy < 36524" using small by blast
    have b: "?doe div 36524 = c" by (rule div_is) (use small assms(3,5) doy(1,2) in simp)+
    have e: "?doe div 146096 = 0" by (rule div_is) (use small assms(1-6) doy(1,2) in simp)+
    show ?thesis
    proof (cases "24 * c + q + 365 * r + doy \<ge> 1460")
      case True
      have a: "?doe div 1460 = 25 * c + q + 1" by (rule div_is) (use True assms(1-6) doy(1,2) in simp)+
      show ?thesis unfolding year_of_era_def a b e by (rule div_is) (use True assms(1-6) doy(1,2) in simp)+
    next
      case False
      then have "doy \<noteq> 365" using doy assms(1,3) by auto
      then have "doy < 365" using doy(2) by linarith
      have a: "?doe div 1460 = 25 * c + q" by (rule div_is) (use False assms(1-6) doy(1,2) in simp)+
      show ?thesis unfolding year_of_era_def a b e by (rule div_is) (use \<open>doy < 365\<close> assms(1-6) doy(1,2) in simp)+
    qed
  qed
qed

lemma era_parts:
  fixes doe :: int
  assumes "0 \<le> doe" "doe < 146097"
  obtains c q r doy where "doe = 36524 * c + 1461 * q + 365 * r + doy" "0 \<le> c" "c < 4" "0 \<le> q" "q < 25" "0 \<le> r" "r < 4"
    "0 \<le> doy" "doy \<le> 364 \<or> doy = 365 \<and> r = 3 \<and> (q < 24 \<or> c = 3)"
proof -
  define c where "c = (if doe = 146096 then 3 else doe div 36524)"
  define x where "x = doe - 36524 * c"
  have c: "0 \<le> c" "c < 4" "0 \<le> x" "x < 36524 \<or> x = 36524 \<and> c = 3" using assms by (auto simp: c_def x_def)
  define q where "q = x div 1461"
  define y where "y = x - 1461 * q"
  have q: "0 \<le> q" "q < 25" "0 \<le> y" "y < 1461" "q = 24 \<longrightarrow> y < 1460 \<or> y = 1460 \<and> c = 3"
    using c by (auto simp: q_def y_def)
  define r where "r = (if y = 1460 then 3 else y div 365)"
  define doy where "doy = y - 365 * r"
  have "0 \<le> r" "r < 4" "0 \<le> doy" "doy \<le> 364 \<or> doy = 365 \<and> r = 3 \<and> y = 1460" using q by (auto simp: r_def doy_def)
  then show thesis using that[of c q r doy] c q by (auto simp: doy_def y_def x_def)
qed


text \<open>The day of a March year as month and day.\<close>

definition month_of :: "int \<Rightarrow> int" where "month_of doy = (5 * doy + 2) div 153"

definition day_of :: "int \<Rightarrow> int" where "day_of doy = doy - (153 * month_of doy + 2) div 5 + 1"

definition march_date :: "int \<Rightarrow> int \<Rightarrow> int \<times> int \<times> int" where
  "march_date y doy = (let mp = month_of doy; m = (if mp < 10 then mp + 3 else mp - 9)
     in (y + (if m \<le> 2 then 1 else 0), m, day_of doy))"

lemma civil_parts:
  assumes "0 \<le> n" "n < 2 ^ 39"
  obtains y doy where "n + 719468 = days_before y + doy" "0 \<le> doy" "doy \<le> 364 \<or> doy = 365 \<and> leap (y + 1)"
    "civil_from_days n = march_date y doy"
proof -
  define z where "z = n + 719468"
  define era where "era = z div 146097"
  define doe where "doe = z - era * 146097"
  have z: "0 \<le> z" "z < 600000000000" using assms by (simp_all add: z_def)
  have doe: "0 \<le> doe" "doe < 146097" "z = 146097 * era + doe" by (simp_all add: doe_def era_def minus_div_mult_eq_mod)
  have era: "0 \<le> era" "era \<le> 600000000000 div 146097" using z by (simp_all add: era_def pos_imp_zdiv_nonneg_iff zdiv_mono1)
  obtain c q r doy where p: "doe = 36524 * c + 1461 * q + 365 * r + doy" "0 \<le> c" "c < 4" "0 \<le> q" "q < 25" "0 \<le> r" "r < 4"
    "0 \<le> doy" "doy \<le> 364 \<or> doy = 365 \<and> r = 3 \<and> (q < 24 \<or> c = 3)"
    by (rule era_parts[OF doe(1,2)])
  define yoe where "yoe = 100 * c + 4 * q + r"
  have yoe: "year_of_era doe = yoe" unfolding p(1) yoe_def by (rule year_of_era_parts) (use p in auto)
  have y4: "yoe div 4 = 25 * c + q" "yoe div 100 = c" "0 \<le> yoe" "yoe < 400"
  proof -
    show "yoe div 4 = 25 * c + q" unfolding yoe_def by (rule div_is) (use p(2-7) in simp)+
    show "yoe div 100 = c" unfolding yoe_def by (rule div_is) (use p(2-7) in simp)+
    show "0 \<le> yoe" "yoe < 400" unfolding yoe_def using p(2-7) by simp_all
  qed
  define y where "y = yoe + era * 400"
  have y: "y div 4 = yoe div 4 + 100 * era" "y div 100 = yoe div 100 + 4 * era" "y div 400 = era"
    using y4(3,4) by (simp_all add: y_def)
  have sum: "z = days_before y + doy" by (simp add: days_before_def y y4 doe(3) p(1)) (simp add: y_def yoe_def)
  have leap: "leap (y + 1)" if "doy = 365"
  proof -
    have r: "r = 3" "q < 24 \<or> c = 3" using that p(9) by auto
    then have "y + 1 = 4 * (25 * c + q + 1 + 100 * era)" by (simp add: y_def yoe_def)
    then have four: "4 dvd y + 1" by (metis dvd_triv_left)
    show ?thesis
    proof (cases "q = 24")
      case True
      then have "y + 1 = 400 * (1 + era)" using r by (simp add: y_def yoe_def)
      then have "400 dvd y + 1" by (metis dvd_triv_left)
      then show ?thesis using four by (simp add: leap_dvd)
    next
      case False
      have "(y + 1) mod 100 = 4 * q + 4"
        by (rule int_mod_pos_eq[where q = "c + 4 * era"]) (use False p(4,5) r in \<open>simp_all add: y_def yoe_def\<close>)
      then have "\<not> 100 dvd y + 1" using p(4) by (simp add: dvd_eq_mod_eq_0)
      then show ?thesis using four by (simp add: leap_dvd)
    qed
  qed
  have small: "as_i32 (y + k) = y + k" if "k \<in> {0, 1}" for k
  proof -
    have "0 \<le> y + k" "y + k < 2 ^ 31" using that y4(3,4) era by (auto simp: y_def)
    then show ?thesis by (simp add: as_i32_def)
  qed
  have "doe - (365 * yoe + yoe div 4 - yoe div 100) = doy" unfolding y4 p(1) by (simp add: yoe_def)
  moreover have "(if z \<ge> 0 then z div 146097 else - ((146096 - z) div 146097)) = era" "z - era * 146097 = doe"
    using z(1) by (simp_all add: era_def doe_def)
  ultimately have "civil_from_days n = march_date y doy"
    unfolding civil_from_days_def Let_def z_def[symmetric]
    by (simp add: yoe march_date_def Let_def month_of_def day_of_def small y_def[symmetric])
  then show thesis using that sum leap p(8,9) by (auto simp: z_def)
qed


section \<open>Day after day\<close>

lemma month_iff: "month_of doy = k \<longleftrightarrow> 153 * k \<le> 5 * doy + 2 \<and> 5 * doy + 2 < 153 * k + 153"
proof
  assume "month_of doy = k"
  then show "153 * k \<le> 5 * doy + 2 \<and> 5 * doy + 2 < 153 * k + 153"
    using pos_mod_sign[of 153 "5 * doy + 2"] pos_mod_bound[of 153 "5 * doy + 2"] mult_div_mod_eq[of 153 "5 * doy + 2"]
    unfolding month_of_def by linarith
next
  assume "153 * k \<le> 5 * doy + 2 \<and> 5 * doy + 2 < 153 * k + 153"
  then show "month_of doy = k" unfolding month_of_def by (intro div_is) simp_all
qed

lemma march_date_of: "month_of doy = k \<Longrightarrow> march_date y doy =
    (y + (if 10 \<le> k then 1 else 0), if k < 10 then k + 3 else k - 9, doy - (153 * k + 2) div 5 + 1)"
  if "0 \<le> k" "k \<le> 11"
  using that by (auto simp: march_date_def Let_def day_of_def)

lemma month_cases:
  assumes "0 \<le> doy" "doy \<le> 365"
  shows "month_of doy \<in> {0, 1, 2, 3, 4, 5, 6, 7, 8, 9, 10, 11}"
proof -
  define k where "k = month_of doy"
  have "153 * k \<le> 5 * doy + 2" "5 * doy + 2 < 153 * k + 153" using month_iff[of doy k] by (simp_all add: k_def)
  then have "0 \<le> k" "k \<le> 11" using assms by linarith+
  then show ?thesis unfolding k_def[symmetric] by (simp, presburger)
qed

lemma next_in_year:
  assumes "0 \<le> doy" "doy \<le> 363 \<or> doy = 364 \<and> leap (y + 1)"
  shows "next_day (march_date y doy) = march_date y (doy + 1)"
proof -
  define k where "k = month_of doy"
  have doy: "doy \<le> 365" using assms(2) by auto
  have k: "k \<in> {0, 1, 2, 3, 4, 5, 6, 7, 8, 9, 10, 11}" using month_cases[OF assms(1) doy] by (simp add: k_def)
  have b: "153 * k \<le> 5 * doy + 2" "5 * doy + 2 < 153 * k + 153" using month_iff[of doy k] by (simp_all add: k_def)
  note d = march_date_of[OF _ _ k_def[symmetric], of y]
  show ?thesis
  proof (cases "5 * (doy + 1) + 2 < 153 * k + 153")
    case True
    then have "month_of (doy + 1) = k" using b by (simp add: month_iff)
    note e = march_date_of[OF _ _ this, of y]
    from k show ?thesis using d e b True assms(2) by (elim insertE emptyE) (auto simp: month_days_def)
  next
    case False
    then have "month_of (doy + 1) = k + 1" using b by (simp add: month_iff)
    note e = march_date_of[OF _ _ this, of y]
    from k show ?thesis using d e b False assms by (elim insertE emptyE) (auto simp: month_days_def)
  qed
qed

lemma next_year:
  assumes "doy = 364 \<and> \<not> leap (y + 1) \<or> doy = 365 \<and> leap (y + 1)"
  shows "next_day (march_date y doy) = march_date (y + 1) 0"
proof -
  have "month_of doy = 11" "month_of 0 = 0" using assms by (auto simp: month_iff)
  then show ?thesis using assms march_date_of[of 11 doy y] march_date_of[of 0 0 "y + 1"]
    by (auto simp: month_days_def)
qed

lemma days_before_step: "y < y' \<Longrightarrow> days_before y + (if leap (y + 1) then 366 else 365) \<le> days_before y'"
proof (induction y' rule: int_gr_induct)
  case (step i)
  then show ?case using days_before_Suc[of i] by (auto split: if_splits)
qed (simp add: days_before_Suc)

lemma days_before_unique:
  assumes "days_before y + a = days_before y' + a'" "0 \<le> a" "a < (if leap (y + 1) then 366 else 365)"
    "0 \<le> a'" "a' < (if leap (y' + 1) then 366 else 365)"
  shows "y = y' \<and> a = a'"
proof -
  have "\<not> y < y'" "\<not> y' < y" using days_before_step[of y y'] days_before_step[of y' y] assms by linarith+
  then show ?thesis using assms(1) by simp
qed

lemma civil_step:
  assumes "0 \<le> n" "n + 1 < 2 ^ 39"
  shows "civil_from_days (n + 1) = next_day (civil_from_days n)"
proof -
  obtain y doy where a: "n + 719468 = days_before y + doy" "0 \<le> doy" "doy \<le> 364 \<or> doy = 365 \<and> leap (y + 1)"
    "civil_from_days n = march_date y doy" using civil_parts[of n] assms by auto
  obtain y' doy' where b: "n + 1 + 719468 = days_before y' + doy'" "0 \<le> doy'" "doy' \<le> 364 \<or> doy' = 365 \<and> leap (y' + 1)"
    "civil_from_days (n + 1) = march_date y' doy'" using civil_parts[of "n + 1"] assms by auto
  have len: "doy' < (if leap (y' + 1) then 366 else 365)" using b(3) by auto
  show ?thesis
  proof (cases "doy \<le> 363 \<or> doy = 364 \<and> leap (y + 1)")
    case True
    then have "doy + 1 < (if leap (y + 1) then 366 else 365)" by auto
    then have "y' = y \<and> doy' = doy + 1" using days_before_unique[of y "doy + 1" y' doy'] a(1,2) b(1,2) len by simp
    then show ?thesis using next_in_year[OF a(2) True] a(4) b(4) by simp
  next
    case False
    then have last: "doy = 364 \<and> \<not> leap (y + 1) \<or> doy = 365 \<and> leap (y + 1)" using a(3) by auto
    then have "days_before (y + 1) + 0 = days_before y' + doy'" using days_before_Suc[of y] a(1) b(1) by (auto split: if_splits)
    then have "y' = y + 1 \<and> doy' = 0" using days_before_unique[of "y + 1" 0 y' doy'] b(2) len by auto
    then show ?thesis using next_year[OF last] a(4) b(4) by simp
  qed
qed

lemma time_parts:
  fixes x h mi s :: nat
  shows "x = h * 3600 + mi * 60 + s \<and> mi < 60 \<and> s < 60 \<longleftrightarrow> h = x div 3600 \<and> mi = x mod 3600 div 60 \<and> s = x mod 60"
proof
  assume a: "x = h * 3600 + mi * 60 + s \<and> mi < 60 \<and> s < 60"
  define u where "u = mi * 60 + s"
  have u: "u < 3600" "u div 60 = mi" "u mod 60 = s" using a by (auto simp: u_def)
  have x: "x = u + h * 3600" using a by (simp add: u_def)
  have "x div 3600 = h" "x mod 3600 = u" using u(1) unfolding x by (simp_all only: div_mult_self1 mod_mult_self1) simp_all
  moreover have "x mod 3600 mod 60 = x mod 60" by (rule mod_mod_cancel) simp
  ultimately show "h = x div 3600 \<and> mi = x mod 3600 div 60 \<and> s = x mod 60" using u by simp
next
  assume a: "h = x div 3600 \<and> mi = x mod 3600 div 60 \<and> s = x mod 60"
  have "x mod 3600 mod 60 = x mod 60" by (rule mod_mod_cancel) simp
  then have "x div 3600 * 3600 + x mod 3600 = x" "x mod 3600 div 60 * 60 + x mod 60 = x mod 3600"
    using div_mult_mod_eq[of x 3600] div_mult_mod_eq[of "x mod 3600" 60] by simp_all
  moreover have "x mod 3600 div 60 < 60" "x mod 60 < 60" by (simp_all add: div_less_iff_less_mult)
  ultimately show "x = h * 3600 + mi * 60 + s \<and> mi < 60 \<and> s < 60"
    using a by (metis add.assoc)
qed

lemma civil_counts: "int n < 2 ^ 39 \<Longrightarrow> civil_from_days (int n) = (next_day ^^ n) (1970, 1, 1)"
proof (induction n)
  case 0
  have "civil_from_days 0 = (1970, 1, 1)" by code_simp
  then show ?case by simp
next
  case (Suc n)
  have b: "int n + 1 < 2 ^ 39" using Suc.prems by (simp only: of_nat_Suc add.commute)
  have "int n < int n + 1" by (rule zless_add1_eq[THEN iffD2]) (rule disjI2, rule refl)
  from order.strict_trans[OF this b] have "civil_from_days (int n) = (next_day ^^ n) (1970, 1, 1)" by (rule Suc.IH)
  moreover have "civil_from_days (int n + 1) = next_day (civil_from_days (int n))"
    by (rule civil_step[OF _ b]) (rule of_nat_0_le_iff)
  ultimately show ?case by (simp only: of_nat_Suc add.commute funpow.simps o_apply)
qed

text \<open>C38. The clock of the worktree requests shows the right date and time: for every time before
  the year 1.1 billion it is what counting the days from 1970-01-01 gives, leap years included,
  with the hours, minutes and seconds of the rest.\<close>

theorem clock_counts_days:
  assumes "secs < 2 ^ 55"
  shows "unix_to_ymd_hms secs = (date, h, mi, s) \<longleftrightarrow>
    date = (next_day ^^ (secs div 86400)) (1970, 1, 1) \<and> mi < 60 \<and> s < 60
    \<and> secs mod 86400 = h * 3600 + mi * 60 + s"
proof -
  have "secs div 86400 < 2 ^ 39" using assms by (simp add: div_less_iff_less_mult)
  then have "int (secs div 86400) < int (2 ^ 39)" by (rule of_nat_less_iff[THEN iffD2])
  then have "int (secs div 86400) < 2 ^ 39" by (simp only: of_nat_power of_nat_numeral)
  then have d: "civil_from_days (int (secs div 86400)) = (next_day ^^ (secs div 86400)) (1970, 1, 1)" by (rule civil_counts)
  show ?thesis using time_parts[of "secs mod 86400" h mi s]
    unfolding unix_to_ymd_hms_def Let_def d prod.inject by blast
qed

lemma clock_counts_days_witness:
  "unix_to_ymd_hms 2682061 = ((1970, 2, 1), 1, 1, 1) \<and> rfc3339_now 2682061 = lit ''1970-02-01T01:01:01Z''"
proof -
  have "((1970, 2, 1) :: int \<times> int \<times> int) = (next_day ^^ 31) (1970, 1, 1)" by code_simp
  then have u: "unix_to_ymd_hms 2682061 = ((1970, 2, 1), 1, 1, 1)"
    using clock_counts_days[of 2682061 "(1970, 2, 1)" 1 1 1] by simp
  have n: "show_nat 1970 = lit ''1970''" "show_nat 2 = [50]" "show_nat 1 = [49]" by code_simp+
  show ?thesis by (simp add: u rfc3339_now_def show_signed_def zero_pad_def n[simplified]) (simp add: lit_def)
qed

end
