(* ===== verification/Worktree_Requests.thy ===== *)
theory Worktree_Requests
  imports Client_Sessions Diff_Engine Utc_Clock
begin

text \<open>
  The worktree requests of \<open>la-daemon/src/dispatcher.rs\<close>: status, diff, stage, unstage, discard,
  commit and the opening of an editor.  Each finds the worktree of the session, works on it
  through the diff engine, and the ones that change it tell the event bus.  \<open>now\<close> is the
  time in seconds since 1970.
\<close>

section \<open>Replies\<close>

definition file_statuses :: "(str \<times> FileStatus) list" where
  "file_statuses = [(lit ''added'', Added), (lit ''modified'', Modified), (lit ''deleted'', Deleted), (lit ''renamed'', Renamed),
     (lit ''copied'', Copied), (lit ''untracked'', Untracked), (lit ''conflicted'', Conflicted)]"

definition file_kinds :: "(str \<times> FileKind) list" where
  "file_kinds = [(lit ''text'', TextFile), (lit ''binary'', Binary), (lit ''submodule'', Submodule), (lit ''symlink'', Symlink)]"

definition diff_origins :: "(str \<times> LineOrigin) list" where
  "diff_origins = [(lit ''context'', Context), (lit ''add'', Add), (lit ''delete'', Delete)]"

definition core_to_proto_file_entry :: "FileEntry \<Rightarrow> json" where
  "core_to_proto_file_entry f = JObject ([(lit ''path'', JString (fe_path f))] @ opt_str (lit ''old_path'') (fe_old_path f)
     @ [(lit ''status'', JString (enum_name file_statuses (fe_status f))), (lit ''kind'', JString (enum_name file_kinds (fe_kind f))),
        (lit ''staged_hunks'', nat_value (fe_staged_hunks f)), (lit ''unstaged_hunks'', nat_value (fe_unstaged_hunks f)),
        (lit ''size_bytes'', nat_value (fe_size_bytes f))]
     @ opt_entry (lit ''mode_change'') (map_option (\<lambda>(old, new).
         JObject [(lit ''old_mode'', nat_value old), (lit ''new_mode'', nat_value new)]) (fe_mode_change f)))"

definition diff_line_value :: "ParsedLine \<Rightarrow> json" where
  "diff_line_value l = JObject ([(lit ''origin'', JString (enum_name diff_origins (pl_origin l))), (lit ''content'', JString (pl_content l))]
     @ (if pl_no_newline l then [(lit ''no_newline'', JBool True)] else []))"

definition line_range_value :: "nat \<Rightarrow> nat \<Rightarrow> json" where
  "line_range_value start n = JObject [(lit ''start'', nat_value start), (lit ''count'', nat_value n)]"

definition core_to_proto_hunk :: "Hunk \<Rightarrow> json" where
  "core_to_proto_hunk h = JObject [(lit ''hunk_id'', JString (hu_hunk_id h)), (lit ''staged'', JBool (hu_staged h)),
     (lit ''old_range'', line_range_value (hu_old_start h) (hu_old_count h)),
     (lit ''new_range'', line_range_value (hu_new_start h) (hu_new_count h)),
     (lit ''header'', JString (hu_header h)), (lit ''lines'', JArray (map diff_line_value (hu_lines h)))]"

definition status_value :: "str \<Rightarrow> str option \<Rightarrow> StatusSnapshot \<Rightarrow> json" where
  "status_value taken recorded_base s = JObject ([(lit ''branch'', JString (ss_branch s))]
     @ opt_str (lit ''base_branch'') (case ss_base_branch s of Some b \<Rightarrow> Some b | None \<Rightarrow> recorded_base)
     @ [(lit ''head'', JString (ss_head s)), (lit ''ahead'', nat_value (ss_ahead s)), (lit ''behind'', nat_value (ss_behind s)),
        (lit ''files'', JArray (map core_to_proto_file_entry (ss_files s))), (lit ''generated_at'', JString taken)])"

definition diff_value :: "DiffOutcome \<Rightarrow> json" where
  "diff_value d = JObject ([(lit ''file'', core_to_proto_file_entry (do_file d)), (lit ''hunks'', JArray (map core_to_proto_hunk (do_hunks d)))]
     @ opt_entry (lit ''truncated'') (map_option (\<lambda>t. JObject [(lit ''reason'', JString (to_reason t)),
         (lit ''size_bytes'', nat_value (to_size_bytes t)), (lit ''hint'', JString (to_hint t))]) (do_truncated d)))"

definition mutation_value :: "MutationOutcome \<Rightarrow> json" where
  "mutation_value r = JObject [(lit ''applied'', JArray (map JString (mo_applied r))),
     (lit ''rejected'', JArray (map (\<lambda>(i, reason). JObject [(lit ''hunk_id'', JString i), (lit ''reason'', JString reason)]) (mo_rejected r))),
     (lit ''status'', JArray (map core_to_proto_file_entry (mo_status r)))]"

definition commit_value :: "CommitOutcome \<Rightarrow> json" where
  "commit_value r = JObject [(lit ''commit_sha'', JString (co_commit_sha r)), (lit ''summary'', JString (co_summary r)),
     (lit ''files_changed'', nat_value (co_files_changed r))]"

definition launch_value :: "LaunchOutcome \<Rightarrow> json" where
  "launch_value r = JObject ([(lit ''launched'', JBool (lo_launched r)), (lit ''command'', JString (lo_command r))]
     @ opt_entry (lit ''pid'') (map_option nat_value (lo_pid r)))"

section \<open>The engine of a session\<close>

definition diff_engine_for :: "str \<Rightarrow> 'w Manager \<Rightarrow> (DiffEngine \<times> str option) option \<times> 'w Manager" where
  "diff_engine_for sid m = (case worktree_for sid m of
       (None, m) \<Rightarrow> (None, m)
     | (Some (_, wt, base), m) \<Rightarrow> (Some (\<lparr> de_worktree_path = wt, de_base_branch = base \<rparr>, base), m))"

definition worktree_unavailable :: "str \<Rightarrow> RpcError" where
  "worktree_unavailable sid = rpc_error (rpc_code Wire_Errors.WorktreeUnavailable)
     (lit ''worktree unavailable for session '' @ sid @ lit '': session has no `worktree_path` (or the id is unknown)'')"

definition with_engine :: "str \<Rightarrow> 'w Manager \<Rightarrow> (DiffEngine \<Rightarrow> str option \<Rightarrow> 'w Manager \<Rightarrow> (RpcError + 'a) \<times> 'w Manager)
    \<Rightarrow> (RpcError + 'a) \<times> 'w Manager" where
  "with_engine sid m k = (case diff_engine_for sid m of
       (None, m) \<Rightarrow> (Inl (worktree_unavailable sid), m)
     | (Some (E, base), m) \<Rightarrow> k E base m)"

definition on_engine :: "('w Shell \<Rightarrow> (CoreError + 'a) \<times> 'w Shell) \<Rightarrow> 'w Manager \<Rightarrow> (RpcError + 'a) \<times> 'w Manager" where
  "on_engine f m = apfst (map_sum core_to_rpc (\<lambda>a. a)) (on_shell f m)"

definition publish_event :: "BusEvent \<Rightarrow> 'w Manager \<Rightarrow> 'w Manager" where
  "publish_event e m = m\<lparr> mg_bus := snd (bus_publish e (mg_bus m)) \<rparr>"

section \<open>Requests\<close>

definition handle_worktree_status :: "'w Host \<Rightarrow> nat \<Rightarrow> str \<Rightarrow> 'w Manager \<Rightarrow> (RpcError + json) \<times> 'w Manager" where
  "handle_worktree_status H now sid m = with_engine sid m (\<lambda>E base m.
     and_then (on_engine (status H E) m) (\<lambda>snap m. (Inr (status_value (rfc3339_now now) base snap), m)))"

definition handle_worktree_diff :: "(bytes \<Rightarrow> bytes) \<Rightarrow> 'w Host \<Rightarrow> str \<Rightarrow> str \<Rightarrow> bool \<Rightarrow> 'w Manager \<Rightarrow> (RpcError + json) \<times> 'w Manager" where
  "handle_worktree_diff sha256 H sid path staged m = with_engine sid m (\<lambda>E _ m.
     and_then (on_engine (diff_file sha256 H E path staged) m) (\<lambda>d m. (Inr (diff_value d), m)))"

fun mutation_name :: "MutationKind \<Rightarrow> str" where
  "mutation_name Stage = lit ''stage''"
| "mutation_name Unstage = lit ''unstage''"
| "mutation_name Discard = lit ''discard''"

definition changed_event :: "nat \<Rightarrow> str \<Rightarrow> str \<Rightarrow> str list \<Rightarrow> BusEvent" where
  "changed_event now sid what files = WorktreeChangedEvent \<lparr> wc_session_id = sid, wc_kind = what, wc_affected_files = files,
     wc_generated_at = rfc3339_now now \<rparr>"

definition announce :: "nat \<Rightarrow> str \<Rightarrow> MutationKind \<Rightarrow> MutationOutcome \<Rightarrow> 'w Manager \<Rightarrow> 'w Manager" where
  "announce now sid mutation r m =
     (if mo_applied r \<noteq> [] \<or> mo_affected_files r \<noteq> []
      then publish_event (changed_event now sid (mutation_name mutation) (mo_affected_files r)) m else m)"

definition handle_worktree_mutation :: "(bytes \<Rightarrow> bytes) \<Rightarrow> 'w Host \<Rightarrow> nat \<Rightarrow> str \<Rightarrow> str list \<Rightarrow> bool \<Rightarrow> MutationKind
    \<Rightarrow> 'w Manager \<Rightarrow> (RpcError + json) \<times> 'w Manager" where
  "handle_worktree_mutation sha256 H now sid ids confirmed mutation m =
     (if mutation = Discard \<and> \<not> confirmed then (Inl (core_to_rpc WorktreeDiscardUnconfirmed), m)
      else with_engine sid m (\<lambda>E _ m.
        and_then (on_engine (apply_mutation sha256 H E ids mutation) m) (\<lambda>r m.
          (Inr (mutation_value r), announce now sid mutation r m))))"

definition handle_worktree_commit :: "'w Host \<Rightarrow> nat \<Rightarrow> str \<Rightarrow> str \<Rightarrow> bool \<Rightarrow> 'w Manager \<Rightarrow> (RpcError + json) \<times> 'w Manager" where
  "handle_worktree_commit H now sid message allow_empty m = with_engine sid m (\<lambda>E _ m.
     and_then (on_engine (commit H E message allow_empty) m) (\<lambda>r m.
       (Inr (commit_value r),
        publish_event (WorktreeCommitEvent \<lparr> wm_session_id = sid, wm_commit_sha = co_commit_sha r, wm_summary = co_summary r,
            wm_files_changed = co_files_changed r, wm_generated_at = rfc3339_now now \<rparr>)
          (publish_event (changed_event now sid (lit ''commit'') []) m))))"

definition handle_worktree_open_in_editor :: "'w Host \<Rightarrow> str \<Rightarrow> str \<Rightarrow> nat option \<Rightarrow> nat option \<Rightarrow> str option
    \<Rightarrow> 'w Manager \<Rightarrow> (RpcError + json) \<times> 'w Manager" where
  "handle_worktree_open_in_editor H sid path line column editor_override m = with_engine sid m (\<lambda>E _ m.
     and_then (on_engine (open_in_editor H E path line column editor_override) m) (\<lambda>r m. (Inr (launch_value r), m)))"

end
