(* ===== verification/Worktree_Request_Properties.thy ===== *)
theory Worktree_Request_Properties
  imports Worktree_Requests Session_Properties
begin

text \<open>
  What the worktree requests promise: a change that is answered is announced, and a change that
  fails half way is not.
\<close>

section \<open>The parts of a request\<close>

lemma on_store_bus: "on_store f m = (r, m') \<Longrightarrow> mg_bus m' = mg_bus m \<and> mg_shell m' = mg_shell m"
  by (auto simp: on_store_def split: prod.splits)

lemma worktree_for_bus: "worktree_for sid m = (r, m') \<Longrightarrow> mg_bus m' = mg_bus m \<and> mg_shell m' = mg_shell m"
  by (auto simp: worktree_for_def dest!: on_store_bus split: prod.splits sum.splits option.splits)

lemma diff_engine_for_bus: "diff_engine_for sid m = (r, m') \<Longrightarrow> mg_bus m' = mg_bus m \<and> mg_shell m' = mg_shell m"
  by (auto simp: diff_engine_for_def dest!: worktree_for_bus split: prod.splits option.splits)

lemma on_engine_result:
  "on_engine f m = (case f (mg_shell m) of (r, sh) \<Rightarrow> (map_sum core_to_rpc (\<lambda>a. a) r, m\<lparr> mg_shell := sh \<rparr>))"
  by (simp add: on_engine_def on_shell_def split: prod.split)

lemma mutate_files_append:
  "mutate_files sha H E k ids (es1 @ es2) pg sh =
   and_then (mutate_files sha H E k ids es1 pg sh) (\<lambda>pg sh. mutate_files sha H E k ids es2 pg sh)"
proof (induction es1 arbitrary: pg sh)
  case (Cons entry es1)
  then show ?case by (cases "mutate_file sha H E k ids entry pg sh"; cases "fst (mutate_file sha H E k ids entry pg sh)") auto
qed simp

section \<open>Announcements\<close>


text \<open>C40. A request that fails half way is not announced.  The files are worked on one after the
  other; if one of them ends in an error, the client gets that error, what was done to the files
  before stays done, and no client hears of it.\<close>

theorem failed_mutation_is_silent:
  assumes "diff_engine_for sid m = (Some (E, base), m1)" "mutation = Discard \<longrightarrow> confirmed" "ids \<noteq> []"
    and "status H E (mg_shell m) = (Inr snapshot, sh1)" "candidate_files (ss_files snapshot) = done_files @ bad # rest"
    and "mutate_files sha H E mutation ids done_files \<lparr> pg_applied = [], pg_rejected = [], pg_affected = [] \<rparr> sh1 = (Inr pg, sh2)"
    and "mutate_file sha H E mutation ids bad pg sh2 = (Inl e, sh3)"
  shows "\<exists>m'. handle_worktree_mutation sha H now sid ids confirmed mutation m = (Inl (core_to_rpc e), m')
    \<and> mg_shell m' = sh3 \<and> mg_bus m' = mg_bus m"
proof -
  have b: "mg_bus m1 = mg_bus m" "mg_shell m1 = mg_shell m" using diff_engine_for_bus[OF assms(1)] by simp_all
  have "apply_mutation sha H E ids mutation (mg_shell m1) = (Inl e, sh3)"
    using assms(3-7) by (simp add: apply_mutation_def b mutate_files_append)
  then show ?thesis using assms(1,2) b
    by (auto simp: handle_worktree_mutation_def with_engine_def on_engine_result)
qed

section \<open>The statements at work\<close>

definition tree_store :: Store where
  "tree_store = demo_store\<lparr> st_sessions := [(lit ''s1'', (demo_session (lit ''s1''))\<lparr> se_worktree_path := Some (lit ''/w'') \<rparr>)] \<rparr>"

definition tree_manager :: "unit Manager" where
  "tree_manager = new_manager tree_store demo_shell default_manager_config"

lemma tree_engine: "\<exists>m1. diff_engine_for (lit ''s1'') tree_manager = (Some (demo_engine, None), m1)"
  by (simp add: diff_engine_for_def worktree_for_def on_store_def session_get_def project_get_def tree_manager_def new_manager_def
      tree_store_def demo_store_def sync_def empty_db_def demo_session_def session_row_def demo_engine_def)

text \<open>A worktree with a changed file and, after it, an untracked path that cannot be read.\<close>

definition tree_bytes :: bytes where
  "tree_bytes = as_bytes (lit ''1 .M N 0 0 0 0 0 f'') @ 0 # as_bytes (lit ''? z/'') @ [0]"

definition tree_host :: "unit Host" where
  "tree_host = demo_host (\<lambda>args. GitExited
     (if hd args = lit ''status'' then tree_bytes
      else if hd args = lit ''diff'' then diff_bytes demo_pre demo_hunks else []) [] (Some 0))"

definition changed_entry :: PorcelainEntry where
  "changed_entry = (plain_entry (lit ''f'') Modified 1)"

lemma split_nul_append: "0 \<notin> set xs \<Longrightarrow> split_nul (xs @ 0 # ys) = xs # split_nul ys"
  by (induction xs) auto

lemma tree_porcelain: "parse_porcelain_v2 tree_bytes = [changed_entry, plain_entry (lit ''z/'') Untracked 1]"
proof -
  let ?a = "lit ''1 .M N 0 0 0 0 0 f''" and ?b = "lit ''? z/''"
  have "0 \<notin> set (as_bytes ?a)" "0 \<notin> set (as_bytes ?b)" by (simp_all add: lit_def utf8_char_def)
  then have s: "split_nul tree_bytes = [as_bytes ?a, as_bytes ?b, []]" by (simp add: tree_bytes_def split_nul_append)
  have n: "as_bytes ?a \<noteq> []" "as_bytes ?b \<noteq> []" by (simp_all add: lit_def utf8_char_def)
  have u: "from_utf8 (as_bytes ?a) = Some ?a" "from_utf8 (as_bytes ?b) = Some ?b"
    by (rule from_utf8_as_bytes, simp add: lit_def scalar_def)+
  have a: "split_once 32 ?a = Some (lit ''1'', lit ''.M N 0 0 0 0 0 f'')" "split_once 32 ?b = Some (lit ''?'', lit ''z/'')"
    by (simp_all add: lit_def split_once_def)
  have c: "parse_change_v2 (lit ''.M N 0 0 0 0 0 f'') False = Some changed_entry"
    by (simp add: lit_def parse_change_v2_def split_ws_def is_ws_def char_at_def classify_xy_def classify_kind_def changed_entry_def
        plain_entry_def Let_def parse_mode_change_def parse_octal_def)
  have t: "lit ''1'' = [49]" "lit ''?'' = [63]" "lit ''2'' = [50]" by (simp_all add: lit_def)
  show ?thesis unfolding parse_porcelain_v2_def s by (simp add: porcelain_record_def n u a c t)
qed

lemma tree_status:
  "\<exists>snapshot sh1. status tree_host demo_engine sh = (Inr snapshot, sh1)
    \<and> candidate_files (ss_files snapshot) = [file_entry tree_host demo_engine () changed_entry,
        file_entry tree_host demo_engine () (plain_entry (lit ''z/'') Untracked 1)]"
  by (simp add: status_def head_sha_def current_branch_def run_git_def run_git_with_stdin_def git_result_def tree_porcelain
      tree_host_def demo_host_def demo_engine_def candidate_files_def file_entry_def plain_entry_def changed_entry_def)
    (simp add: lit_def)

lemma tree_hunks: "\<exists>j k. pf_hunks (read_file demo_pre demo_hunks) = [j, k]"
  by (simp add: read_file_def demo_hunks_def)

text \<open>Any call on the changed file that names its first hunk applies it.\<close>

lemma tree_changed_file:
  "\<exists>k. \<forall>mutation sh pg. \<exists>new sh'. new \<noteq> [] \<and> mutate_file (\<lambda>x. x) tree_host demo_engine mutation [k]
      (file_entry tree_host demo_engine () changed_entry) pg sh
    = (Inr (pg\<lparr> pg_applied := pg_applied pg @ new, pg_affected := pg_affected pg @ [lit ''f''] \<rparr>), sh')"
proof -
  obtain j k where jk: "pf_hunks (read_file demo_pre demo_hunks) = [j, k]" using tree_hunks by blast
  define f where "f = read_file demo_pre demo_hunks"
  define i where "i = hunk_id (\<lambda>x. x) f j"
  define sel where "sel = selected_hunks (\<lambda>x. x) f [i]"
  have sel: "sel \<noteq> []" by (simp add: sel_def selected_hunks_def f_def jk i_def)
  have p: "parse_diff (diff_bytes demo_pre demo_hunks) = [f]" by (simp add: f_def parse_diff_bytes[OF demo_header demo_hunks_ok])
  have "\<exists>sh'. mutate_file (\<lambda>x. x) tree_host demo_engine mutation [i] (file_entry tree_host demo_engine () changed_entry) pg sh
      = (Inr (pg\<lparr> pg_applied := pg_applied pg @ map snd sel, pg_affected := pg_affected pg @ [lit ''f''] \<rparr>), sh')" for mutation sh pg
    by (simp add: mutate_file_def file_entry_def changed_entry_def plain_entry_def raw_diff_def run_git_def run_git_with_stdin_def
        git_result_def tree_host_def demo_host_def diff_args_def apply_patch_def p sel_def[symmetric] sel apply_args_def Let_def)
  then show ?thesis using sel by (intro exI[of _ i] allI exI[of _ "map snd sel"]) simp
qed

lemma failed_mutation_is_silent_witness:
  "\<exists>ids e m'. handle_worktree_mutation (\<lambda>x. x) tree_host 0 (lit ''s1'') ids True Discard tree_manager = (Inl e, m')
    \<and> mg_bus m' = mg_bus tree_manager"
proof -
  obtain m1 where e: "diff_engine_for (lit ''s1'') tree_manager = (Some (demo_engine, None), m1)" using tree_engine by blast
  obtain snapshot sh1 where s: "status tree_host demo_engine (mg_shell tree_manager) = (Inr snapshot, sh1)"
    and c: "candidate_files (ss_files snapshot) = [file_entry tree_host demo_engine () changed_entry]
        @ file_entry tree_host demo_engine () (plain_entry (lit ''z/'') Untracked 1) # []"
    using tree_status[of "mg_shell tree_manager"] by auto
  obtain k where k: "\<forall>mutation sh pg. \<exists>new sh'. new \<noteq> [] \<and> mutate_file (\<lambda>x. x) tree_host demo_engine mutation [k]
      (file_entry tree_host demo_engine () changed_entry) pg sh
    = (Inr (pg\<lparr> pg_applied := pg_applied pg @ new, pg_affected := pg_affected pg @ [lit ''f''] \<rparr>), sh')"
    using tree_changed_file by blast
  then obtain pg sh2 where f: "mutate_files (\<lambda>x. x) tree_host demo_engine Discard [k] [file_entry tree_host demo_engine () changed_entry]
      \<lparr> pg_applied = [], pg_rejected = [], pg_affected = [] \<rparr> sh1 = (Inr pg, sh2)"
    by (metis and_then_simps(2) mutate_files.simps)
  have "\<exists>e. mutate_file (\<lambda>x. x) tree_host demo_engine Discard [k] (file_entry tree_host demo_engine () (plain_entry (lit ''z/'') Untracked 1)) pg sh2
      = (Inl e, sh2)"
    by (simp add: mutate_file_def file_entry_def plain_entry_def discard_untracked_def diff_untracked_def tree_host_def demo_host_def)
  then obtain err where "mutate_file (\<lambda>x. x) tree_host demo_engine Discard [k]
      (file_entry tree_host demo_engine () (plain_entry (lit ''z/'') Untracked 1)) pg sh2 = (Inl err, sh2)" by blast
  from failed_mutation_is_silent[OF e _ _ s c f this, of True 0] show ?thesis by (intro exI[of _ "[k]"]) auto
qed

lemma tree_stage: "\<exists>pg' sh'. mutate_file (\<lambda>x. x) tree_host demo_engine Stage ids (file_entry tree_host demo_engine () (plain_entry n s i)) pg sh
    = (Inr pg', sh')"
  by (cases "selected_hunks (\<lambda>x. x) (read_file demo_pre demo_hunks) ids = []")
    (simp_all add: mutate_file_def file_entry_def plain_entry_def raw_diff_def run_git_def run_git_with_stdin_def
        git_result_def tree_host_def demo_host_def diff_args_def apply_patch_def parse_diff_bytes[OF demo_header demo_hunks_ok]
        apply_args_def intent_args_def Let_def)


end
